(* ===== verification/Prelude.thy ===== *)
theory Prelude
  imports Complex_Main "HOL-Library.AList"
begin

text \<open>
  Shared ground of the development: the result type of a service call, database
  transactions, tables, Python's \<open>Decimal.quantize\<close>, and the rendering of integer
  keys as text.

  A service method is a function from the database to a pair of a result and the new
  database; the result is a sum, \<open>Inl\<close> the exception that was raised, \<open>Inr\<close> the value
  returned. \<open>bindE\<close> is sequencing, \<open>atomic\<close> is Django's \<^verbatim>\<open>transaction.atomic()\<close>
  (an exception that leaves the block restores the database the block started with) and
  \<open>catchE\<close> is \<^verbatim>\<open>try/except\<close>, which by itself restores nothing.
\<close>

section \<open>Collections\<close>

named_theorems keeps_intros \<open>rules that push an invariant through a service method\<close>
named_theorems txn_defs \<open>the definitions of the transaction combinators\<close>
named_theorems txn_iff \<open>when a combinator returns a given result\<close>
named_theorems txn_ok \<open>when a combinator returns a value, and case distinctions on the way\<close>

section \<open>Exceptions\<close>

text \<open>
  The exceptions the modelled services raise, by the name of the Python class and grouped
  by base class, so that an \<^verbatim>\<open>except VoucherError\<close> is a match on the group. Attributes
  that callers read are arguments; message texts are not kept.
\<close>

datatype py_error =
  ValueError | InvalidOperation | RuntimeError | ValidationError
| PermissionError | LookupError | ObjectDoesNotExist | IntegrityError | DataError | TransactionManagementError
| AppendOnlyViolation | DatabaseError | TypeError | AttributeError | OverflowError

datatype credit_error =
  CreditServiceError | InsufficientFundsError rat rat | InvalidAmountError
| InvalidReferenceTypeError | SubscriptionsDisabledError

datatype deposit_error =
  DepositVerificationError | BillingDisabledError | DuplicateTransactionError
| InsufficientConfirmationsError int int | DepositVerificationFailedError
| AmountMismatchError rat rat

datatype voucher_error =
  VouchersDisabledError | VoucherInvalidError | VoucherExpiredError
| VoucherRevokedError | VoucherReservedError | VoucherLimitError
| UnsupportedRewardType

datatype spend_error =
  SpendInProgressError | IdempotencyKeyRequiredError | ProviderFulfillmentError
| EsimOwnershipChanged | TopupPackageNotFoundError

datatype partner_error =
  PartnerGrantError | PartnerChannelDisabled | PartnerGrantForbidden
| CustomerNotAttributed | CustomerAttributionChanged
| PartnerGrantIdempotencyConflict | PartnerGrantNegativeBalance
| PartnerGrantSameAccount | PartnerChannelOwnershipInvalid
| PartnerSettlementAccountMissing
| PartnerSelfReferralConflict | CustomerAttributionExists | PartnerInviteForbidden | PartnerInviteError
| PartnerAccessDenied | PartnerContextAmbiguous

datatype esim_error =
  InvalidLifecycleTransitionError string string | UnknownLifecycleEventTypeError string
| EsimTransferDestinationError | EsimTransferInProgressError | TopupNetPriceImmutable

datatype org_error =
  NotFound | PermissionDenied | HardDeleteViolation | LastOwnerError | NotAllowedError
| InviteConflictError | InviteInvalidError
| DeviceBindingConflictError | DeviceBindingNotFoundError | UemInventoryUnavailableError
| IccidNotFoundError | IccidAmbiguousError | UemSerialMatchError | DeviceNotFoundError
| DeviceAmbiguousError | BindingNotFoundError | ProviderHistoryUnavailableError
| FleetCredentialConflictError | FleetCredentialInvalidError

datatype voucher_admin_error =
  VoucherAdminConflictError string | VoucherBatchBusyError | VoucherAdminValidationError string

datatype wallet_error =
  WalletSeedNotConfiguredError | WalletAllocationError | WalletAddressNotFoundError
| ObservationAttributionError | ObservationTransitionError

datatype provider_error =
  ProviderFailed string | BlockchainProviderError | BlockchainRPCError
| TransferNotFoundError

datatype auth_error =
  SignupCodeError | ActivationError string | PasswordResetError string | GoogleAuthError string

datatype exc =
  EPy py_error | ECredit credit_error | EDeposit deposit_error
| EVoucher voucher_error | ESpend spend_error | EPartner partner_error
| EWallet wallet_error | EProvider provider_error | EEsim esim_error | EOrg org_error
| EVoucherAdmin voucher_admin_error | EAuth auth_error

section \<open>Service methods as state transformers\<close>

type_synonym ('s, 'a) txn = "'s \<Rightarrow> (exc + 'a) \<times> 's"

definition ret :: "'a \<Rightarrow> ('s, 'a) txn" where
  [txn_defs]: "ret x = (\<lambda>s. (Inr x, s))"

definition raiseE :: "exc \<Rightarrow> ('s, 'a) txn" where
  [txn_defs]: "raiseE e = (\<lambda>s. (Inl e, s))"

definition liftE :: "exc + 'a \<Rightarrow> ('s, 'a) txn" where
  [txn_defs]: "liftE r = (\<lambda>s. (r, s))"

definition getsE :: "('s \<Rightarrow> 'a) \<Rightarrow> ('s, 'a) txn" where
  [txn_defs]: "getsE f = (\<lambda>s. (Inr (f s), s))"

definition modifyE :: "('s \<Rightarrow> 's) \<Rightarrow> ('s, unit) txn" where
  [txn_defs]: "modifyE f = (\<lambda>s. (Inr (), f s))"

definition bindE :: "('s, 'a) txn \<Rightarrow> ('a \<Rightarrow> ('s, 'b) txn) \<Rightarrow> ('s, 'b) txn" where
  [txn_defs]: "bindE m f = (\<lambda>s. case m s of (Inl e, s') \<Rightarrow> (Inl e, s') | (Inr x, s') \<Rightarrow> f x s')"

definition thenE :: "('s, 'a) txn \<Rightarrow> ('s, 'b) txn \<Rightarrow> ('s, 'b) txn" where
  [txn_defs]: "thenE m k = bindE m (\<lambda>_. k)"

definition atomic :: "('s, 'a) txn \<Rightarrow> ('s, 'a) txn" where
  [txn_defs]: "atomic m = (\<lambda>s. case m s of (Inl e, s') \<Rightarrow> (Inl e, s) | (Inr x, s') \<Rightarrow> (Inr x, s'))"

definition catchE :: "('s, 'a) txn \<Rightarrow> (exc \<Rightarrow> ('s, 'a) txn) \<Rightarrow> ('s, 'a) txn" where
  [txn_defs]: "catchE m h = (\<lambda>s. case m s of (Inl e, s') \<Rightarrow> h e s' | (Inr x, s') \<Rightarrow> (Inr x, s'))"

definition guardE :: "bool \<Rightarrow> exc \<Rightarrow> ('s, unit) txn" where
  [txn_defs]: "guardE b e = (\<lambda>s. (if b then Inr () else Inl e, s))"

text \<open>\<open>objects.get(...)\<close>: the row, or \<open>DoesNotExist\<close>.\<close>

definition get_or_raise :: "exc \<Rightarrow> 'a option \<Rightarrow> ('s, 'a) txn" where
  [txn_defs]: "get_or_raise e o' = (\<lambda>s. (case o' of None \<Rightarrow> Inl e | Some x \<Rightarrow> Inr x, s))"

text \<open>\<^verbatim>\<open>for _ in range(n): try: return m() except IntegrityError: continue\<close>, then \<open>k\<close>.\<close>

fun retry :: "nat \<Rightarrow> ('s, 'a) txn \<Rightarrow> ('s, 'a) txn \<Rightarrow> ('s, 'a) txn" where
  "retry 0 m k = k"
| "retry (Suc n) m k = catchE m (\<lambda>e. if e = EPy IntegrityError then retry n m k else raiseE e)"

lemma bindE_iff [txn_iff]:
  "bindE m f s = (r, t) \<longleftrightarrow>
     (\<exists>e. r = Inl e \<and> m s = (Inl e, t)) \<or> (\<exists>x u. m s = (Inr x, u) \<and> f x u = (r, t))"
  by (auto simp: bindE_def split: prod.splits sum.splits)

lemma thenE_iff [txn_iff]:
  "thenE m k s = (r, t) \<longleftrightarrow>
     (\<exists>e. r = Inl e \<and> m s = (Inl e, t)) \<or> (\<exists>x u. m s = (Inr x, u) \<and> k u = (r, t))"
  by (simp add: thenE_def bindE_iff)

lemma atomic_iff [txn_iff]:
  "atomic m s = (r, t) \<longleftrightarrow>
     (\<exists>x. r = Inr x \<and> m s = (Inr x, t)) \<or> (\<exists>e u. r = Inl e \<and> m s = (Inl e, u) \<and> t = s)"
  by (auto simp: atomic_def split: prod.splits sum.splits)

lemma catchE_iff [txn_iff]:
  "catchE m h s = (r, t) \<longleftrightarrow>
     (\<exists>x. r = Inr x \<and> m s = (Inr x, t)) \<or> (\<exists>e u. m s = (Inl e, u) \<and> h e u = (r, t))"
  by (auto simp: catchE_def split: prod.splits sum.splits)

lemma simple_txn_iff [txn_iff]:
  "ret x s = (r, t) \<longleftrightarrow> r = Inr x \<and> t = s"
  "raiseE e s = (r, t) \<longleftrightarrow> r = Inl e \<and> t = s"
  "liftE q s = (r, t) \<longleftrightarrow> q = r \<and> t = s"
  "getsE f s = (q', t) \<longleftrightarrow> q' = Inr (f s) \<and> t = s"
  "modifyE g s = (r', t) \<longleftrightarrow> r' = Inr () \<and> t = g s"
  by (auto simp: txn_defs)

lemma guardE_iff [txn_iff]:
  "guardE b e s = (r, t) \<longleftrightarrow> t = s \<and> (b \<and> r = Inr () \<or> \<not> b \<and> r = Inl e)"
  by (auto simp: guardE_def)

lemma get_or_raise_iff [txn_iff]:
  "get_or_raise e o' s = (r, t) \<longleftrightarrow>
     t = s \<and> ((\<exists>x. o' = Some x \<and> r = Inr x) \<or> o' = None \<and> r = Inl e)"
  by (auto simp: get_or_raise_def split: option.splits)

text \<open>The same for runs that return: no error branches, and every case distinction becomes a disjunct.\<close>

lemma combinators_ok [txn_ok]:
  "bindE m f s = (Inr y, t) \<longleftrightarrow> (\<exists>x u. m s = (Inr x, u) \<and> f x u = (Inr y, t))"
  "thenE m' k s = (Inr y, t) \<longleftrightarrow> (\<exists>x u. m' s = (Inr x, u) \<and> k u = (Inr y, t))"
  "atomic m2 s = (Inr y2, t) \<longleftrightarrow> m2 s = (Inr y2, t)"
  "catchE m2 h s = (Inr y2, t) \<longleftrightarrow> m2 s = (Inr y2, t) \<or> (\<exists>e u. m2 s = (Inl e, u) \<and> h e u = (Inr y2, t))"
  "ret z s = (Inr z', t) \<longleftrightarrow> z' = z \<and> t = s"
  "raiseE e s = (Inr z', t) \<longleftrightarrow> False"
  "liftE q s = (Inr z', t) \<longleftrightarrow> q = Inr z' \<and> t = s"
  "getsE g s = (Inr z2, t) \<longleftrightarrow> z2 = g s \<and> t = s"
  "modifyE j s = (Inr z3, t) \<longleftrightarrow> t = j s"
  "guardE b e s = (Inr z3, t) \<longleftrightarrow> b \<and> t = s"
  "get_or_raise e o' s = (Inr z4, t) \<longleftrightarrow> o' = Some z4 \<and> t = s"
  by (auto simp: txn_defs split: prod.splits sum.splits option.splits)

lemma cases_ok [txn_ok]:
  "(if b then m else k) s = r \<longleftrightarrow> b \<and> m s = r \<or> \<not> b \<and> k s = r"
  "(case o' of None \<Rightarrow> m | Some x \<Rightarrow> f x) s = r \<longleftrightarrow> o' = None \<and> m s = r \<or> (\<exists>x. o' = Some x \<and> f x s = r)"
  "(case p of (x, y) \<Rightarrow> g x y) s = r \<longleftrightarrow> (\<exists>x y. p = (x, y) \<and> g x y s = r)"
  "(case q of Inl x \<Rightarrow> h x | Inr y \<Rightarrow> j y) s = r \<longleftrightarrow> (\<exists>x. q = Inl x \<and> h x s = r) \<or> (\<exists>y. q = Inr y \<and> j y s = r)"
  by (auto split: option.splits prod.splits sum.splits)

lemma atomic_error_restores: "fst (atomic m s) = Inl e \<Longrightarrow> snd (atomic m s) = s"
  by (auto simp: atomic_def split: prod.splits sum.splits)

subsection \<open>Invariants of a method\<close>

text \<open>
  \<open>keeps I m\<close>: whatever \<open>m\<close> returns or raises, \<open>I\<close> holds afterwards if it held before.
  The rules follow the combinators, so an invariant of a whole method is an
  application of \<open>intro keeps_intros\<close> that leaves the table updates.
\<close>

definition keeps :: "('s \<Rightarrow> bool) \<Rightarrow> ('s, 'a) txn \<Rightarrow> bool" where
  "keeps I m \<longleftrightarrow> (\<forall>s. I s \<longrightarrow> I (snd (m s)))"

lemma keepsD: "keeps I m \<Longrightarrow> I s \<Longrightarrow> m s = (r, t) \<Longrightarrow> I t"
  by (metis keeps_def snd_conv)

lemma keepsI: "(\<And>s r t. I s \<Longrightarrow> m s = (r, t) \<Longrightarrow> I t) \<Longrightarrow> keeps I m"
  by (metis keeps_def prod.collapse)

lemma keeps_reads [keeps_intros]:
  "keeps I (ret x)" "keeps I (raiseE e)" "keeps I (liftE r)" "keeps I (getsE f)"
  "keeps I (guardE b e')" "keeps I (get_or_raise e'' o')"
  by (simp_all add: keeps_def txn_defs)

lemma keeps_modify [keeps_intros]: "(\<And>s. I s \<Longrightarrow> I (f s)) \<Longrightarrow> keeps I (modifyE f)"
  by (simp add: keeps_def txn_defs)

lemma keeps_bind [keeps_intros]:
  "keeps I m \<Longrightarrow> (\<And>x. keeps I (f x)) \<Longrightarrow> keeps I (bindE m f)"
  by (auto simp: keeps_def bindE_def split: prod.splits sum.splits)

lemma keeps_then [keeps_intros]: "keeps I m \<Longrightarrow> keeps I k \<Longrightarrow> keeps I (thenE m k)"
  by (simp add: thenE_def keeps_bind)

lemma keeps_atomic [keeps_intros]: "keeps I m \<Longrightarrow> keeps I (atomic m)"
  by (auto simp: keeps_def atomic_def split: prod.splits sum.splits)

lemma keeps_atomic_ok: "(\<And>s x t. I s \<Longrightarrow> m s = (Inr x, t) \<Longrightarrow> I t) \<Longrightarrow> keeps I (atomic m)"
  by (auto simp: keeps_def atomic_def split: prod.splits sum.splits)

lemma keeps_catch [keeps_intros]:
  "keeps I m \<Longrightarrow> (\<And>e. keeps I (h e)) \<Longrightarrow> keeps I (catchE m h)"
  by (auto simp: keeps_def catchE_def split: prod.splits sum.splits)

lemma keeps_retry [keeps_intros]: "keeps I m \<Longrightarrow> keeps I k \<Longrightarrow> keeps I (retry n m k)"
  by (induction n) (auto intro!: keeps_catch keeps_reads)

lemma retry_Inr: "retry n m k s = (r, t) \<Longrightarrow> m s = (Inr x, u) \<Longrightarrow> 0 < n \<Longrightarrow> r = Inr x \<and> t = u"
  by (cases n) (auto simp: catchE_def)

lemma keeps_if [keeps_intros]: "keeps I m \<Longrightarrow> keeps I k \<Longrightarrow> keeps I (if b then m else k)"
  by simp

lemma keeps_case_option [keeps_intros]:
  "keeps I m \<Longrightarrow> (\<And>x. keeps I (f x)) \<Longrightarrow> keeps I (case o' of None \<Rightarrow> m | Some x \<Rightarrow> f x)"
  by (cases o') simp_all

lemma keeps_case_list [keeps_intros]:
  "keeps I m \<Longrightarrow> (\<And>x xs. keeps I (f x xs)) \<Longrightarrow> keeps I (case l of [] \<Rightarrow> m | x # xs \<Rightarrow> f x xs)"
  by (cases l) simp_all

lemma keeps_case_prod [keeps_intros]:
  "(\<And>x y. keeps I (f x y)) \<Longrightarrow> keeps I (case p of (x, y) \<Rightarrow> f x y)"
  by (cases p) simp

lemma keeps_let [keeps_intros]: "(\<And>x. keeps I (f x)) \<Longrightarrow> keeps I (let x = v in f x)"
  by simp

section \<open>Tables\<close>

text \<open>
  A table is an association list from primary key to row, in insertion order;
  \<^verbatim>\<open>row.save()\<close> is \<open>AList.update\<close>, which replaces the row or appends it.
\<close>

lemma AList_update_new: "k \<notin> fst ` set t \<Longrightarrow> AList.update k r t = t @ [(k, r)]"
  by (induction t) auto

lemma AList_update_last: "k \<notin> fst ` set t \<Longrightarrow> AList.update k r (t @ [(k, r0)]) = t @ [(k, r)]"
  by (induction t) auto

lemma set_AList_update:
  "distinct (map fst t) \<Longrightarrow> set (AList.update k r t) = insert (k, r) {p \<in> set t. fst p \<noteq> k}"
proof (induction t)
  case (Cons p t)
  then show ?case by (cases p) force
qed simp

lemma map_of_in_keys: "map_of t k = Some r \<Longrightarrow> k \<in> fst ` set t"
  by (force dest: map_of_SomeD)

lemma keys_AList_update_old:
  "map_of t k = Some r0 \<Longrightarrow> map fst (AList.update k r t) = map fst t"
  by (induction t) auto

lemma map_AList_update_same:
  "map_of t k = Some r0 \<Longrightarrow> f r = f r0 \<Longrightarrow> map (\<lambda>p. f (snd p)) (AList.update k r t) = map (\<lambda>p. f (snd p)) t"
  by (induction t) auto

lemma map_of_AList_update [simp]: "map_of (AList.update k r t) j = (if j = k then Some r else map_of t j)"
  by (simp add: update_conv')

lemma in_table_iff: "distinct (map fst t) \<Longrightarrow> (k, r) \<in> set t \<longleftrightarrow> map_of t k = Some r"
  by simp

text \<open>Changing one row changes a sum over the table by the difference.\<close>

lemma sum_AList_update:
  fixes f :: "'k \<times> 'r \<Rightarrow> rat"
  assumes "distinct (map fst t)" "map_of t k = Some r0"
  shows "sum_list (map f (AList.update k r t)) = sum_list (map f t) - f (k, r0) + f (k, r)"
  using assms
proof (induction t)
  case (Cons p t)
  then show ?case by (cases p) (auto simp: map_of_eq_None_iff [symmetric] split: if_splits)
qed simp

lemma filter_le_one:
  assumes "length (filter P xs) \<le> 1" "x \<in> set xs" "P x" "y \<in> set xs" "P y"
  shows "x = y"
proof -
  have "x \<in> set (filter P xs)" "y \<in> set (filter P xs)" using assms by simp_all
  with assms(1) show ?thesis by (cases "filter P xs") auto
qed

lemma length_filter_AList_update:
  assumes "distinct (map fst t)" "map_of t k = Some r0" "P (k, r) = P (k, r0)"
  shows "length (filter P (AList.update k r t)) = length (filter P t)"
  using assms
proof (induction t)
  case (Cons p t)
  then show ?case by (cases p) (auto split: if_splits)
qed simp

end
