(* ===== verification/Decimals.thy ===== *)
theory Decimals
  imports Prelude
begin

text \<open>
  Python's \<open>Decimal\<close> as the money code uses it. A finite \<open>Decimal\<close> is the rational it
  denotes; sums, products and quotients by 100 of column-sized values stay below the
  28 digits of the default context, so they are exact. \<open>quantize_half_up q\<close> is
  \<^verbatim>\<open>Decimal.quantize(q, rounding=ROUND_HALF_UP)\<close>: the nearest multiple of the quantum,
  halves away from zero. The locale \<open>quantum\<close> holds what every quantum has in common; it
  is interpreted for the cent of \<^verbatim>\<open>pricing/money.py\<close> and for the \<open>0.000001\<close> of
  \<^verbatim>\<open>billing/services/credit.py\<close>.
\<close>

definition quantize_half_up :: "rat \<Rightarrow> rat \<Rightarrow> rat" where
  "quantize_half_up q x =
     (if x < 0 then - (q * of_int \<lfloor>- x / q + 1 / 2\<rfloor>) else q * of_int \<lfloor>x / q + 1 / 2\<rfloor>)"

definition on_grid :: "rat \<Rightarrow> rat \<Rightarrow> bool" where
  "on_grid q x \<longleftrightarrow> of_int \<lfloor>x / q\<rfloor> * q = x"

text \<open>Floors of numeral quotients, so that closed amounts evaluate by \<open>simp\<close>.\<close>

lemma floor_rat_numeral [simp]:
  "\<lfloor>numeral a / numeral b :: rat\<rfloor> = numeral a div numeral b"
  "\<lfloor>1 / numeral b :: rat\<rfloor> = 1 div numeral b"
  using floor_divide_of_int_eq [of "numeral a" "numeral b", where 'a = rat]
    floor_divide_of_int_eq [of 1 "numeral b", where 'a = rat]
  by simp_all

locale quantum =
  fixes q :: rat
  assumes quantum_pos: "0 < q"
begin

lemma on_gridI: "x = q * of_int k \<Longrightarrow> on_grid q x"
  using quantum_pos by (simp add: on_grid_def)

lemma on_gridE:
  assumes "on_grid q x"
  obtains k where "x = q * of_int k"
  using assms by (metis mult.commute on_grid_def)

lemma quantize_minus: "quantize_half_up q (- x) = - quantize_half_up q x"
proof -
  have "\<lfloor>(1::rat) / 2\<rfloor> = 0" by (simp add: floor_eq_iff)
  then show ?thesis
    by (cases "x = 0") (auto simp: quantize_half_up_def)
qed

lemma quantize_on_grid: "on_grid q (quantize_half_up q x)"
proof (cases "x < 0")
  case True
  then show ?thesis
    by (intro on_gridI [of _ "- \<lfloor>- x / q + 1 / 2\<rfloor>"]) (simp add: quantize_half_up_def)
next
  case False
  then show ?thesis
    by (intro on_gridI [of _ "\<lfloor>x / q + 1 / 2\<rfloor>"]) (simp add: quantize_half_up_def)
qed

lemma quantize_fixes_grid: "on_grid q x \<Longrightarrow> quantize_half_up q x = x"
proof (erule on_gridE)
  fix k assume x: "x = q * of_int k"
  have "\<lfloor>of_int k + (1::rat) / 2\<rfloor> = k" "\<lfloor>- of_int k + (1::rat) / 2\<rfloor> = - k"
    by (simp_all add: floor_eq_iff)
  with x quantum_pos show "quantize_half_up q x = x"
    by (auto simp: quantize_half_up_def)
qed

lemma quantize_idem: "quantize_half_up q (quantize_half_up q x) = quantize_half_up q x"
  by (rule quantize_fixes_grid [OF quantize_on_grid])

lemma quantize_near_nonneg:
  assumes "0 \<le> x"
  shows "quantize_half_up q x - x \<le> q / 2 \<and> x - quantize_half_up q x < q / 2"
proof -
  let ?f = "of_int \<lfloor>x / q + 1 / 2\<rfloor> :: rat"
  have "?f \<le> x / q + 1 / 2" "x / q + 1 / 2 < ?f + 1" by linarith+
  then have "q * ?f \<le> q * (x / q + 1 / 2)" "q * (x / q + 1 / 2) < q * (?f + 1)"
    using quantum_pos by (meson less_imp_le mult_left_mono mult_strict_left_mono)+
  moreover have "q * (x / q + 1 / 2) = x + q / 2" "q * (?f + 1) = q * ?f + q"
    using quantum_pos by (simp_all add: distrib_left)
  moreover have "quantize_half_up q x = q * ?f"
    using assms by (simp add: quantize_half_up_def)
  ultimately show ?thesis by linarith
qed

lemma quantize_error: "\<bar>quantize_half_up q x - x\<bar> \<le> q / 2"
proof (cases "0 \<le> x")
  case True
  then show ?thesis using quantize_near_nonneg [of x] by linarith
next
  case False
  then show ?thesis
    using quantize_near_nonneg [of "- x"] quantize_minus [of x] by linarith
qed

lemma quantize_nonneg: "0 \<le> x \<Longrightarrow> 0 \<le> quantize_half_up q x"
  using quantum_pos by (simp add: quantize_half_up_def)

lemma quantize_mono_nonneg:
  assumes "0 \<le> x" "x \<le> y"
  shows "quantize_half_up q x \<le> quantize_half_up q y"
proof -
  have "x / q + 1 / 2 \<le> y / q + 1 / 2"
    using assms quantum_pos by (simp add: divide_right_mono)
  then have "\<lfloor>x / q + 1 / 2\<rfloor> \<le> \<lfloor>y / q + 1 / 2\<rfloor>" by (rule floor_mono)
  then show ?thesis using assms quantum_pos by (simp add: quantize_half_up_def)
qed

lemma quantize_mono:
  assumes "x \<le> y"
  shows "quantize_half_up q x \<le> quantize_half_up q y"
proof (cases "0 \<le> x")
  case True
  then show ?thesis using assms by (rule quantize_mono_nonneg)
next
  case neg: False
  show ?thesis
  proof (cases "0 \<le> y")
    case True
    have "0 \<le> quantize_half_up q (- x)" using neg by (intro quantize_nonneg) simp
    then show ?thesis using quantize_nonneg [OF True] by (simp add: quantize_minus)
  next
    case False
    have "quantize_half_up q (- y) \<le> quantize_half_up q (- x)"
      using False assms by (intro quantize_mono_nonneg) simp_all
    then show ?thesis by (simp add: quantize_minus)
  qed
qed

text \<open>A bound that is itself a multiple of the quantum survives rounding.\<close>

lemma quantize_le_grid: "x \<le> b \<Longrightarrow> on_grid q b \<Longrightarrow> quantize_half_up q x \<le> b"
  using quantize_mono quantize_fixes_grid by fastforce

lemma quantize_ge_grid: "b \<le> x \<Longrightarrow> on_grid q b \<Longrightarrow> b \<le> quantize_half_up q x"
  using quantize_mono quantize_fixes_grid by fastforce

lemma quantize_eq_0_iff:
  assumes "0 \<le> x"
  shows "quantize_half_up q x = 0 \<longleftrightarrow> x < q / 2"
proof -
  have "quantize_half_up q x = 0 \<longleftrightarrow> \<lfloor>x / q + 1 / 2\<rfloor> = 0"
    using assms quantum_pos by (simp add: quantize_half_up_def)
  also have "\<dots> \<longleftrightarrow> x / q + 1 / 2 < 1"
    using assms quantum_pos by (simp add: floor_eq_iff)
  also have "\<dots> \<longleftrightarrow> x < q / 2"
    using quantum_pos by (simp add: field_simps)
  finally show ?thesis .
qed

lemma on_grid_0: "on_grid q 0"
  by (simp add: on_grid_def)

lemma on_grid_add: "on_grid q x \<Longrightarrow> on_grid q y \<Longrightarrow> on_grid q (x + y)"
  by (elim on_gridE) (metis distrib_left of_int_add on_gridI)

lemma on_grid_minus: "on_grid q x \<Longrightarrow> on_grid q (- x)"
  by (elim on_gridE) (metis mult_minus_right of_int_minus on_gridI)

end

definition MONEY_QUANTUM :: rat where
  "MONEY_QUANTUM = 1 / 100"

definition MONEY_QUANT :: rat where
  "MONEY_QUANT = 1 / 1000000"

interpretation cent: quantum MONEY_QUANTUM
  by unfold_locales (simp add: MONEY_QUANTUM_def)

interpretation micro: quantum MONEY_QUANT
  by unfold_locales (simp add: MONEY_QUANT_def)

text \<open>\<^verbatim>\<open>money_round\<close>: two places, halves up. Prices are \<^verbatim>\<open>numeric(10,2)\<close> columns, so the
  28-digit limit of \<open>quantize\<close> is out of reach.\<close>

definition money_round :: "rat \<Rightarrow> rat" where
  "money_round amount = quantize_half_up MONEY_QUANTUM amount"

lemma quantize_numeral_examples:
  "money_round (1 / 8) = 13 / 100"
  "money_round (- 1 / 8) = - 13 / 100"
  "money_round (1 / 3) = 33 / 100"
  by (simp_all add: money_round_def quantize_half_up_def MONEY_QUANTUM_def)

text \<open>What the \<open>Decimal\<close> constructor can give: a number, an infinity or a NaN.\<close>

datatype py_decimal = Finite rat | Infinite | NaN

text \<open>
  \<^verbatim>\<open>value.quantize(...)\<close> on a finite value: the default context has 28 digits, and a
  result with a longer coefficient raises \<open>InvalidOperation\<close>.
\<close>

definition DECIMAL_PREC :: nat where
  "DECIMAL_PREC = 28"

definition py_quantize :: "rat \<Rightarrow> rat \<Rightarrow> exc + rat" where
  "py_quantize q x =
     (let r = quantize_half_up q x
      in if q * 10 ^ DECIMAL_PREC \<le> \<bar>r\<bar> then Inl (EPy InvalidOperation) else Inr r)"

end
