(* ===== verification/Events.thy ===== *)
theory Events
  imports Keys
begin

text \<open>
  The domain events of \<^verbatim>\<open>shared/events\<close>: frozen dataclasses with string ids. The bus
  calls its handlers in process; the model keeps the published events, in order, in the
  database record, which is what the handlers see.
\<close>

datatype event =
  DepositVerified
    (ev_deposit: string) (ev_account: string) (ev_amount: rat) (ev_balance_after: rat)
    (ev_tx_hash: string) (ev_payment_method: string) (ev_ledger_entry: string) (ev_at: int)
| CreditGranted
    (ev_account: string) (ev_amount: rat) (ev_balance_after: rat) (ev_reference_type: string)
    (ev_reference: string) (ev_ledger_entry: string) (ev_at: int)
| CreditDebited
    (ev_account: string) (ev_amount: rat) (ev_balance_after: rat) (ev_reference_type: string)
    (ev_reference: string) (ev_ledger_entry: string) (ev_at: int)
| FulfillmentRefunded
    (ev_account: string) (ev_amount: rat) (ev_balance_after: rat) (ev_reference_type: string)
    (ev_reference: string) (ev_ledger_entry: string) (ev_reason: string) (ev_at: int)
| SubscriptionRenewed
    (ev_subscription: string) (ev_account: string) (ev_esim: string) (ev_amount: rat)
    (ev_balance_after: rat) (ev_next_billing_date: int) (ev_ledger_entry: string) (ev_at: int)
| SubscriptionPaused
    (ev_subscription: string) (ev_account: string) (ev_esim: string) (ev_amount: rat)
    (ev_balance: rat) (ev_deposit_url: string) (ev_next_billing_date: int) (ev_at: int)
| BalanceDriftDetected
    (ev_account: string) (ev_balance: rat) (ev_ledger_sum: rat) (ev_drift: rat) (ev_at: int)
| VoucherRedeemed
    (ev_voucher: "string option") (ev_campaign: "string option") (ev_redemption: string)
    (ev_account: string) (ev_amount: rat) (ev_balance_after: rat) (ev_ledger_entry: string)
    (ev_request: string) (ev_at: int)
| AiraloOrderCreated (ev_order: string) (ev_iccid: string) (ev_customer: string)
| TopupCompleted
    (ev_topup: string) (ev_esim: string) (ev_account: string) (ev_package: string)
    (ev_amount: rat) (ev_external_order: string) (ev_balance_after: rat)
    (ev_ledger_entry: string) (ev_at: int)
| EsimInstalled (ev_esim: string) (ev_iccid: string) (ev_user: string)
| EsimActivated (ev_esim: string) (ev_iccid: string) (ev_user: string) (ev_seconds: rat)
| EsimFirstUsageDetected (ev_esim: string) (ev_iccid: string) (ev_user: string)
| AutoTopupSucceeded
    (ev_policy: string) (ev_topup: string) (ev_package: string) (ev_amount: rat)
    (ev_remaining: "nat option") (ev_account: string) (ev_esim: string) (ev_at: int)
| AutoTopupPausedFunds
    (ev_policy: string) (ev_account: string) (ev_esim: string) (ev_package: string)
    (ev_required: "rat option") (ev_available: "rat option") (ev_deposit_url: string) (ev_at: int)
| AutoTopupPolicyCreated
    (ev_policy: string) (ev_account: string) (ev_esim: string) (ev_package: string)
    (ev_enabled: bool) (ev_status: string) (ev_policy_reason: string) (ev_trigger: string)
    (ev_renew: string) (ev_version: nat) (ev_actor: string) (ev_at: int)
| AutoTopupPolicyUpdated
    (ev_policy: string) (ev_account: string) (ev_esim: string) (ev_package: string)
    (ev_enabled: bool) (ev_status: string) (ev_policy_reason: string) (ev_trigger: string)
    (ev_renew: string) (ev_version: nat) (ev_actor: string) (ev_at: int)
| AutoTopupConfigurationChanged
    (ev_policy: string) (ev_account: string) (ev_esim: string)
    (ev_before: "bool \<times> string \<times> nat option") (ev_after: "bool \<times> string \<times> nat option")
    (ev_version: nat) (ev_actor: string) (ev_at: int)

end
