(* ===== verification/Ledger_Port.thy ===== *)
theory Ledger_Port
  imports Prelude
begin

text \<open>
  What the spending and granting services rely on when they call \<open>CreditService\<close>: a
  \<open>charge\<close> and a \<open>grant\<close> operation under an idempotency key. The laws say what a returned
  call did to the balances, and that a used key is never posted again. The lemmas are the
  clients' arguments: a charge undone by a refund, a transfer, a retried call. The
  interpretation on the model of \<open>CreditService\<close> is in theory \<open>Credit\<close>.
\<close>

locale ledger_port =
  fixes bal :: "'s \<Rightarrow> nat \<Rightarrow> rat"
    and used :: "'s \<Rightarrow> string \<Rightarrow> bool"
    and amt :: "'m \<Rightarrow> exc + rat"
    and charge :: "nat \<Rightarrow> 'm \<Rightarrow> 'r \<Rightarrow> string \<Rightarrow> string \<Rightarrow> ('s, 'e) txn"
    and grant :: "nat \<Rightarrow> 'm \<Rightarrow> 'r \<Rightarrow> string \<Rightarrow> string \<Rightarrow> ('s, 'e) txn"
  assumes charge_new: "charge a m r i k s = (Inr e, t) \<Longrightarrow> \<not> used s k \<Longrightarrow>
      \<exists>x. amt m = Inr x \<and> bal t = (bal s)(a := bal s a - x)"
    and grant_new: "grant a m r i k s = (Inr e, t) \<Longrightarrow> \<not> used s k \<Longrightarrow>
      \<exists>x. amt m = Inr x \<and> bal t = (bal s)(a := bal s a + x)"
    and charge_used: "charge a m r i k s = (Inr e, t) \<Longrightarrow> used t k' \<longleftrightarrow> used s k' \<or> k' = k"
    and grant_used: "grant a m r i k s = (Inr e, t) \<Longrightarrow> used t k' \<longleftrightarrow> used s k' \<or> k' = k"
    and charge_again: "charge a m r i k s = (Inr e, t) \<Longrightarrow> used s k \<Longrightarrow> t = s"
    and grant_again: "grant a m r i k s = (Inr e, t) \<Longrightarrow> used s k \<Longrightarrow> t = s"
    and charge_error: "charge a m r i k s = (Inl ex, t) \<Longrightarrow> t = s"
    and grant_error: "grant a m r i k s = (Inl ex, t) \<Longrightarrow> t = s"
begin

text \<open>A charge and a refund of the same amount under two fresh keys restore every balance,
  whatever happened to the balances in between.\<close>

lemma charge_refund_neutral:
  assumes "charge a m r i k s = (Inr e, t)" "grant a m r' i' k' t' = (Inr e', u)"
    and "\<not> used s k" "\<not> used t' k'" "bal t' = bal t"
  shows "bal u = bal s"
proof -
  obtain x where x: "amt m = Inr x" "bal t = (bal s)(a := bal s a - x)"
    using charge_new [OF assms(1,3)] by blast
  obtain y where y: "amt m = Inr y" "bal u = (bal t')(a := bal t' a + y)"
    using grant_new [OF assms(2,4)] by blast
  show ?thesis using x y assms(5) by (auto simp: fun_eq_iff)
qed

text \<open>A transfer between two accounts moves the amount and creates none.\<close>

lemma transfer_moves:
  assumes "charge a m r i k s = (Inr e, t)" "grant b m r' i' k' t = (Inr e', u)"
    and "\<not> used s k" "\<not> used s k'" "k \<noteq> k'" "a \<noteq> b"
  shows "\<exists>x. amt m = Inr x \<and> bal u = (bal s)(a := bal s a - x, b := bal s b + x)"
proof -
  obtain x where x: "amt m = Inr x" "bal t = (bal s)(a := bal s a - x)"
    using charge_new [OF assms(1,3)] by blast
  have "\<not> used t k'" using charge_used [OF assms(1), of k'] assms(4,5) by blast
  then obtain y where y: "amt m = Inr y" "bal u = (bal t)(b := bal t b + y)"
    using grant_new [OF assms(2)] by blast
  show ?thesis using x y assms(6) by (intro exI [of _ x]) (auto simp: fun_eq_iff)
qed

text \<open>A call repeated under its key returns without effect.\<close>

lemma charge_twice: "charge a m r i k s = (Inr e, t) \<Longrightarrow> charge a' m' r' i' k t = (Inr e', u) \<Longrightarrow> u = t"
  using charge_used charge_again by blast

lemma grant_twice: "grant a m r i k s = (Inr e, t) \<Longrightarrow> grant a' m' r' i' k t = (Inr e', u) \<Longrightarrow> u = t"
  using grant_used grant_again by blast

end

end
