(* ===== verification/Credit.thy ===== *)
theory Credit
  imports Decimals Events Ledger_Port
begin

text \<open>
  The credit ledger: \<^verbatim>\<open>billing/models.py\<close> (\<open>Account\<close>, \<open>CreditLedgerEntry\<close>),
  \<^verbatim>\<open>billing/services/credit.py\<close> (\<open>CreditService\<close>), \<^verbatim>\<open>billing/services/account.py\<close> and
  \<^verbatim>\<open>billing/services/reconcile.py\<close>. \<open>credit_db\<close> is the part of the database these own:
  the account rows by primary key, the append-only ledger in insertion order, the supply
  of fresh UUIDs, the wall clock and the published events. The other components extend
  this record, so every definition here works on any extension and cannot touch the
  tables the extension adds.
\<close>

section \<open>Data model\<close>

datatype account_kind = PERSONAL | ORGANIZATION

record account =
  acc_user :: "nat option"
  acc_kind :: account_kind
  balance :: rat
  version :: nat
  acc_profile :: "nat option"

datatype ledger_reference_type =
  DEPOSIT | ORDER | TOPUP | SUBSCRIPTION | REFUND | ADMIN_ADJUSTMENT | VOUCHER
| PARTNER_MARGIN | PARTNER_GRANT_OUT | PARTNER_GRANT_IN | PARTNER_INVITE_BONUS

fun reference_value :: "ledger_reference_type \<Rightarrow> string" where
  "reference_value DEPOSIT = ''deposit''"
| "reference_value ORDER = ''order''"
| "reference_value TOPUP = ''topup''"
| "reference_value SUBSCRIPTION = ''subscription''"
| "reference_value REFUND = ''refund''"
| "reference_value ADMIN_ADJUSTMENT = ''admin_adjustment''"
| "reference_value VOUCHER = ''voucher''"
| "reference_value PARTNER_MARGIN = ''partner_margin''"
| "reference_value PARTNER_GRANT_OUT = ''partner_grant_out''"
| "reference_value PARTNER_GRANT_IN = ''partner_grant_in''"
| "reference_value PARTNER_INVITE_BONUS = ''partner_invite_bonus''"

definition reference_types :: "ledger_reference_type list" where
  "reference_types = [DEPOSIT, ORDER, TOPUP, SUBSCRIPTION, REFUND, ADMIN_ADJUSTMENT, VOUCHER,
     PARTNER_MARGIN, PARTNER_GRANT_OUT, PARTNER_GRANT_IN, PARTNER_INVITE_BONUS]"

record ledger_entry =
  entry_id :: nat
  entry_account :: nat
  delta :: rat
  balance_after :: rat
  reference_type :: string
  reference_id :: string
  entry_key :: string
  entry_created_at :: int

record credit_db =
  accounts :: "(nat \<times> account) list"
  ledger :: "ledger_entry list"
  next_uuid :: nat
  clock :: int
  events :: "event list"

type_synonym ('x, 'a) credit_txn = "('x credit_db_scheme, 'a) txn"

section \<open>Rows\<close>

definition uuid4 :: "('x, nat) credit_txn" where
  "uuid4 = (\<lambda>db. (Inr (next_uuid db), db\<lparr>next_uuid := Suc (next_uuid db)\<rparr>))"

definition publish :: "event list \<Rightarrow> ('x, unit) credit_txn" where
  "publish evs = modifyE (\<lambda>db. db\<lparr>events := events db @ evs\<rparr>)"

definition save_account :: "nat \<Rightarrow> account \<Rightarrow> ('x, unit) credit_txn" where
  "save_account a row = modifyE (\<lambda>db. db\<lparr>accounts := AList.update a row (accounts db)\<rparr>)"

definition find_entry :: "string \<Rightarrow> ledger_entry list \<Rightarrow> ledger_entry option" where
  "find_entry key es = find (\<lambda>e. entry_key e = key) es"

text \<open>
  \<^verbatim>\<open>CreditLedgerEntry.save()\<close> on a new row: a value outside \<^verbatim>\<open>numeric(20,6)\<close> is a
  \<open>DataError\<close>, a key that is already stored an \<open>IntegrityError\<close>, and so is a zero delta.
\<close>

definition NUMERIC_20_6 :: rat where
  "NUMERIC_20_6 = 100000000000000"

text \<open>\<^verbatim>\<open>numeric(20,6)\<close> columns round to six places and refuse what does not fit.\<close>

definition numeric_20_6 :: "rat \<Rightarrow> exc + rat" where
  "numeric_20_6 x = (let r = quantize_half_up MONEY_QUANT x
     in if NUMERIC_20_6 \<le> \<bar>r\<bar> then Inl (EPy DataError) else Inr r)"

definition insert_entry :: "ledger_entry \<Rightarrow> ('x, unit) credit_txn" where
  "insert_entry e = (\<lambda>db.
     if NUMERIC_20_6 \<le> \<bar>balance_after e\<bar> \<or> NUMERIC_20_6 \<le> \<bar>delta e\<bar> then (Inl (EPy DataError), db)
     else if find_entry (entry_key e) (ledger db) \<noteq> None \<or> delta e = 0
     then (Inl (EPy IntegrityError), db)
     else (Inr (), db\<lparr>ledger := ledger db @ [e]\<rparr>))"

section \<open>CreditService\<close>

text \<open>
  \<^verbatim>\<open>amount: Decimal | int | str\<close>. A string is given by what the \<open>Decimal\<close> constructor
  makes of it: \<open>None\<close> where the constructor raises.
\<close>

datatype money_arg = DecimalArg py_decimal | IntArg int | StrArg "py_decimal option"

fun decimal_of_arg :: "money_arg \<Rightarrow> py_decimal option" where
  "decimal_of_arg (DecimalArg d) = Some d"
| "decimal_of_arg (IntArg n) = Some (Finite (of_int n))"
| "decimal_of_arg (StrArg r) = r"

definition normalize_amount :: "money_arg \<Rightarrow> exc + rat" where
  "normalize_amount amount =
     (case decimal_of_arg amount of
        None \<Rightarrow> Inl (ECredit InvalidAmountError)
      | Some Infinite \<Rightarrow> Inl (ECredit InvalidAmountError)
      | Some NaN \<Rightarrow> Inl (ECredit InvalidAmountError)
      | Some (Finite v) \<Rightarrow>
          (case py_quantize MONEY_QUANT v of
             Inl e \<Rightarrow> Inl e
           | Inr quantized \<Rightarrow>
               if quantized \<le> 0 then Inl (ECredit InvalidAmountError)
               else if NUMERIC_20_6 \<le> quantized then Inl (ECredit InvalidAmountError)
               else Inr quantized))"

datatype reference_arg = RefEnum ledger_reference_type | RefStr string

definition normalize_reference_type :: "reference_arg \<Rightarrow> exc + string" where
  "normalize_reference_type arg =
     (let value = (case arg of RefEnum t \<Rightarrow> reference_value t | RefStr s \<Rightarrow> s)
      in if value \<in> set (map reference_value reference_types) then Inr value
         else Inl (ECredit InvalidReferenceTypeError))"

definition new_entry ::
  "nat \<Rightarrow> nat \<Rightarrow> rat \<Rightarrow> rat \<Rightarrow> string \<Rightarrow> string \<Rightarrow> string \<Rightarrow> int \<Rightarrow> ledger_entry" where
  "new_entry pk a d bal rt rid key now =
     \<lparr>entry_id = pk, entry_account = a, delta = d, balance_after = bal, reference_type = rt,
      reference_id = rid, entry_key = key, entry_created_at = now\<rparr>"

text \<open>
  The body of \<^verbatim>\<open>_apply\<close>'s \<^verbatim>\<open>with transaction.atomic()\<close> block. The account row is locked,
  the ledger is not: \<open>seen\<close> is the ledger the idempotency lookup reads, and another
  transaction, on another account, may append to the ledger before the insert.
\<close>

definition apply_locked ::
  "ledger_entry list \<Rightarrow> nat \<Rightarrow> rat \<Rightarrow> rat \<Rightarrow> string \<Rightarrow> string \<Rightarrow> string \<Rightarrow> ('x, ledger_entry) credit_txn" where
  "apply_locked seen a normalized d rt rid key =
     bindE (getsE (\<lambda>db. map_of (accounts db) a)) (\<lambda>row.
     bindE (get_or_raise (EPy ObjectDoesNotExist) row) (\<lambda>locked.
     case find_entry key seen of
       Some existing \<Rightarrow> ret existing
     | None \<Rightarrow>
         (let new_balance = balance locked + d
          in if new_balance < 0
             then raiseE (ECredit (InsufficientFundsError (balance locked) normalized))
             else bindE uuid4 (\<lambda>pk.
                  bindE (getsE clock) (\<lambda>now.
                  let entry = new_entry pk a d new_balance rt rid key now
                  in thenE (insert_entry entry)
                    (thenE (save_account a (locked\<lparr>balance := new_balance,
                                                   version := version locked + 1\<rparr>))
                    (ret entry)))))))"

definition apply_seen ::
  "ledger_entry list \<Rightarrow> nat \<Rightarrow> money_arg \<Rightarrow> reference_arg \<Rightarrow> string \<Rightarrow> string \<Rightarrow> int \<Rightarrow>
   ('x, ledger_entry) credit_txn" where
  "apply_seen seen a amount rt rid key sign =
     bindE (liftE (normalize_amount amount)) (\<lambda>normalized.
     bindE (liftE (normalize_reference_type rt)) (\<lambda>ref_type.
     if key = [] then raiseE (ECredit CreditServiceError)
     else
       (let d = (if sign > 0 then normalized else - normalized)
        in catchE (atomic (apply_locked seen a normalized d ref_type rid key)) (\<lambda>e.
           if e = EPy IntegrityError
           then bindE (getsE (\<lambda>db. find_entry key (ledger db))) (\<lambda>existing.
                case existing of Some x \<Rightarrow> ret x | None \<Rightarrow> raiseE e)
           else raiseE e))))"

definition apply_credit ::
  "nat \<Rightarrow> money_arg \<Rightarrow> reference_arg \<Rightarrow> string \<Rightarrow> string \<Rightarrow> int \<Rightarrow> ('x, ledger_entry) credit_txn" where
  "apply_credit a amount rt rid key sign =
     bindE (getsE ledger) (\<lambda>seen. apply_seen seen a amount rt rid key sign)"

definition credit ::
  "nat \<Rightarrow> money_arg \<Rightarrow> reference_arg \<Rightarrow> string \<Rightarrow> string \<Rightarrow> ('x, ledger_entry) credit_txn" where
  "credit a amount rt rid key = apply_credit a amount rt rid key 1"

definition debit ::
  "nat \<Rightarrow> money_arg \<Rightarrow> reference_arg \<Rightarrow> string \<Rightarrow> string \<Rightarrow> ('x, ledger_entry) credit_txn" where
  "debit a amount rt rid key = apply_credit a amount rt rid key (- 1)"

text \<open>
  \<^verbatim>\<open>admin_adjust\<close>: \<open>reason\<close> is given stripped; two UUIDs may be drawn for the keys. This is the one caller
  that puts outside text into the columns \<^verbatim>\<open>reference_id\<close> (64, of which a UUID and a colon take 37) and
  \<^verbatim>\<open>idempotency_key\<close> (128); the other services write a fixed tag, bounded columns and UUIDs, which fit.
\<close>

definition adjustment_fits :: "string \<Rightarrow> string option \<Rightarrow> bool" where
  "adjustment_fits actor_id idempotency_key \<longleftrightarrow>
     length actor_id \<le> 27 \<and> (case idempotency_key of None \<Rightarrow> True | Some key \<Rightarrow> length key \<le> 128)"

definition admin_adjust ::
  "nat \<Rightarrow> money_arg \<Rightarrow> bool \<Rightarrow> string \<Rightarrow> string \<Rightarrow> string option \<Rightarrow> ('x, ledger_entry) credit_txn" where
  "admin_adjust a amount is_credit reason actor_id idempotency_key =
     (if reason = [] then raiseE (ECredit CreditServiceError)
      else
        bindE (case idempotency_key of
                 Some (c # cs) \<Rightarrow> ret (c # cs)
               | _ \<Rightarrow> bindE uuid4 (\<lambda>u. ret (''admin-adjust:'' @ str_nat u))) (\<lambda>key.
        bindE uuid4 (\<lambda>u.
        let ref_id = actor_id @ '':'' @ str_nat u
        in atomic (
             bindE (getsE (\<lambda>db. find_entry key (ledger db) = None)) (\<lambda>fresh.
             bindE (if is_credit then credit a amount (RefEnum ADMIN_ADJUSTMENT) ref_id key
                    else debit a amount (RefEnum ADMIN_ADJUSTMENT) ref_id key) (\<lambda>entry.
             if fresh \<and> \<not> adjustment_fits actor_id idempotency_key then raiseE (EPy DataError)
             else ret entry))))))"

definition ledger_sum :: "ledger_entry list \<Rightarrow> nat \<Rightarrow> rat" where
  "ledger_sum es a = sum_list (map delta (filter (\<lambda>e. entry_account e = a) es))"

text \<open>
  \<^verbatim>\<open>CreditService.ledger_sum\<close> quantizes the database's sum. The columns have six places,
  so on stored rows this changes nothing (\<open>quantize_ledger_sum\<close> below).
\<close>

definition service_ledger_sum :: "ledger_entry list \<Rightarrow> nat \<Rightarrow> rat" where
  "service_ledger_sum es a =
     (if filter (\<lambda>e. entry_account e = a) es = [] then 0
      else quantize_half_up MONEY_QUANT (ledger_sum es a))"

definition rebuild_balance_from_ledger :: "nat \<Rightarrow> ('x, rat) credit_txn" where
  "rebuild_balance_from_ledger a =
     atomic (
       bindE (getsE (\<lambda>db. map_of (accounts db) a)) (\<lambda>row.
       bindE (get_or_raise (EPy ObjectDoesNotExist) row) (\<lambda>locked.
       bindE (getsE (\<lambda>db. service_ledger_sum (ledger db) a)) (\<lambda>expected.
       if balance locked = expected then ret expected
       else if expected < 0 then raiseE (EPy IntegrityError)
       else if NUMERIC_20_6 \<le> expected then raiseE (EPy DataError)
       else thenE (save_account a (locked\<lparr>balance := expected, version := version locked + 1\<rparr>))
              (ret expected)))))"

section \<open>Account provisioning\<close>

definition account_of_user :: "nat \<Rightarrow> (nat \<times> account) list \<Rightarrow> (nat \<times> account) option" where
  "account_of_user u rows = find (\<lambda>r. acc_user (snd r) = Some u) rows"

definition ensure_billing_account :: "nat \<Rightarrow> ('x, nat) credit_txn" where
  "ensure_billing_account user =
     bindE (getsE (\<lambda>db. account_of_user user (accounts db))) (\<lambda>found.
     case found of
       Some r \<Rightarrow> ret (fst r)
     | None \<Rightarrow>
         bindE uuid4 (\<lambda>pk.
         thenE (save_account pk \<lparr>acc_user = Some user, acc_kind = PERSONAL, balance = 0,
                                version = 0, acc_profile = None\<rparr>)
           (ret pk)))"

section \<open>Reconcile and rebuild\<close>

record balance_drift =
  drift_account :: string
  cached_balance :: rat
  drift_ledger_sum :: rat

definition drift :: "balance_drift \<Rightarrow> rat" where
  "drift d = cached_balance d - drift_ledger_sum d"

definition find_drifts :: "'x credit_db_scheme \<Rightarrow> balance_drift list" where
  "find_drifts db =
     concat (map (\<lambda>(a, row).
       let expected = service_ledger_sum (ledger db) a
       in if balance row \<noteq> expected
          then [\<lparr>drift_account = str_nat a, cached_balance = balance row, drift_ledger_sum = expected\<rparr>]
          else [])
       (sort_key fst (accounts db)))"

definition reconcile :: "('x, nat \<times> nat) credit_txn" where
  "reconcile =
     bindE (getsE find_drifts) (\<lambda>drifts.
     bindE (getsE clock) (\<lambda>now.
     thenE (publish (map (\<lambda>d. BalanceDriftDetected (drift_account d) (cached_balance d)
                               (drift_ledger_sum d) (drift d) now) drifts))
       (getsE (\<lambda>db. (length (accounts db), length drifts)))))"

fun rebuild_each :: "nat list \<Rightarrow> nat \<Rightarrow> nat \<Rightarrow> ('x, nat \<times> nat) credit_txn" where
  "rebuild_each [] checked repaired = ret (checked, repaired)"
| "rebuild_each (a # as) checked repaired =
     bindE (getsE (\<lambda>db. map_of (accounts db) a)) (\<lambda>row.
     bindE (get_or_raise (EPy ObjectDoesNotExist) row) (\<lambda>account.
     bindE (rebuild_balance_from_ledger a) (\<lambda>after.
     rebuild_each as (Suc checked)
       (if balance account \<noteq> after then Suc repaired else repaired))))"

definition rebuild_all :: "('x, nat \<times> nat) credit_txn" where
  "rebuild_all = bindE (getsE (\<lambda>db. map fst (sort_key fst (accounts db)))) (\<lambda>ids. rebuild_each ids 0 0)"

section \<open>Facts about the ledger\<close>

lemma find_entry_Some: "find_entry key es = Some e \<Longrightarrow> e \<in> set es \<and> entry_key e = key"
  by (auto simp: find_entry_def find_Some_iff in_set_conv_nth)

lemma find_entry_None: "find_entry key es = None \<longleftrightarrow> key \<notin> entry_key ` set es"
  by (auto simp: find_entry_def find_None_iff)

lemma find_entry_unique:
  "distinct (map entry_key es) \<Longrightarrow> e \<in> set es \<Longrightarrow> find_entry (entry_key e) es = Some e"
  by (metis distinct_map find_entry_None find_entry_Some image_eqI inj_on_contraD option.exhaust)

lemma find_entry_append:
  "find_entry key (es @ fs) = (case find_entry key es of None \<Rightarrow> find_entry key fs | Some e \<Rightarrow> Some e)"
  by (induction es) (auto simp: find_entry_def)

lemma ledger_sum_append [simp]: "ledger_sum (es @ fs) a = ledger_sum es a + ledger_sum fs a"
  by (simp add: ledger_sum_def)

lemma ledger_sum_Nil [simp]: "ledger_sum [] a = 0"
  by (simp add: ledger_sum_def)

lemma ledger_sum_single [simp]: "ledger_sum [e] a = (if entry_account e = a then delta e else 0)"
  by (simp add: ledger_sum_def)

lemma ledger_sum_foreign: "a \<notin> entry_account ` set es \<Longrightarrow> ledger_sum es a = 0"
  by (induction es) (auto simp: ledger_sum_def)

lemma on_grid_ledger_sum:
  "\<forall>e \<in> set es. on_grid MONEY_QUANT (delta e) \<Longrightarrow> on_grid MONEY_QUANT (ledger_sum es a)"
proof (induction es)
  case Nil
  show ?case by (simp add: micro.on_grid_0)
next
  case (Cons e es)
  then show ?case
    by (simp add: ledger_sum_def micro.on_grid_add)
qed

lemma quantize_ledger_sum:
  "\<forall>e \<in> set es. on_grid MONEY_QUANT (delta e) \<Longrightarrow> service_ledger_sum es a = ledger_sum es a"
  using on_grid_ledger_sum [of es a]
  by (auto simp: service_ledger_sum_def ledger_sum_def micro.quantize_fixes_grid)

section \<open>The ledger invariant\<close>

text \<open>
  \<open>running_ok\<close>: every row's \<open>balance_after\<close> is the sum of its account's deltas up to and
  including that row. \<open>ledger_ok\<close> adds what the tables' constraints and \<open>CreditService\<close>
  keep between them: unique keys and ids, rows that belong to existing accounts, six
  decimal places, and the cached balance equal to the sum of the ledger and not negative.
\<close>

definition running_ok :: "ledger_entry list \<Rightarrow> bool" where
  "running_ok es \<longleftrightarrow>
     (\<forall>i < length es. balance_after (es ! i) = ledger_sum (take (Suc i) es) (entry_account (es ! i)))"

definition entry_ok :: "'x credit_db_scheme \<Rightarrow> ledger_entry \<Rightarrow> bool" where
  "entry_ok db e \<longleftrightarrow>
     entry_id e < next_uuid db \<and> entry_key e \<noteq> [] \<and> delta e \<noteq> 0 \<and>
     on_grid MONEY_QUANT (delta e) \<and> 0 \<le> balance_after e \<and> balance_after e < NUMERIC_20_6 \<and>
     entry_account e \<in> fst ` set (accounts db)"

definition account_ok :: "'x credit_db_scheme \<Rightarrow> nat \<times> account \<Rightarrow> bool" where
  "account_ok db r \<longleftrightarrow>
     fst r < next_uuid db \<and> balance (snd r) = ledger_sum (ledger db) (fst r) \<and> 0 \<le> balance (snd r)"

definition ledger_ok :: "'x credit_db_scheme \<Rightarrow> bool" where
  "ledger_ok db \<longleftrightarrow>
     distinct (map fst (accounts db)) \<and> distinct (map entry_key (ledger db)) \<and>
     distinct (map entry_id (ledger db)) \<and> running_ok (ledger db) \<and>
     (\<forall>e \<in> set (ledger db). entry_ok db e) \<and> (\<forall>r \<in> set (accounts db). account_ok db r)"

lemma ledger_okI:
  assumes "distinct (map fst (accounts db))" "distinct (map entry_key (ledger db))"
    and "distinct (map entry_id (ledger db))" "running_ok (ledger db)"
    and "\<And>e. e \<in> set (ledger db) \<Longrightarrow> entry_ok db e"
    and "\<And>r. r \<in> set (accounts db) \<Longrightarrow> account_ok db r"
  shows "ledger_ok db"
  using assms by (simp add: ledger_ok_def)

lemma ledger_okD:
  assumes "ledger_ok db"
  shows "distinct (map fst (accounts db))" "distinct (map entry_key (ledger db))"
    and "distinct (map entry_id (ledger db))" "running_ok (ledger db)"
    and "e \<in> set (ledger db) \<Longrightarrow> entry_ok db e"
    and "r \<in> set (accounts db) \<Longrightarrow> account_ok db r"
  using assms by (simp_all add: ledger_ok_def)

lemma running_ok_snoc:
  "running_ok (es @ [e]) \<longleftrightarrow>
     running_ok es \<and> balance_after e = ledger_sum es (entry_account e) + delta e"
  by (auto simp: running_ok_def nth_append less_Suc_eq all_conj_distrib)

text \<open>The invariant speaks of no other table and of no event.\<close>

lemma ledger_ok_events [simp]: "ledger_ok (db\<lparr>events := evs\<rparr>) = ledger_ok db"
  by (simp add: ledger_ok_def entry_ok_def account_ok_def)

lemma ledger_ok_clock [simp]: "ledger_ok (db\<lparr>clock := t\<rparr>) = ledger_ok db"
  by (simp add: ledger_ok_def entry_ok_def account_ok_def)

lemma ledger_ok_next_uuid: "ledger_ok db \<Longrightarrow> ledger_ok (db\<lparr>next_uuid := Suc (next_uuid db)\<rparr>)"
  by (auto simp: ledger_ok_def entry_ok_def account_ok_def less_Suc_eq)

section \<open>What a posting does\<close>

text \<open>
  Every successful call of \<open>apply_seen\<close> is one of two things: it returns a row that is
  already in the ledger and changes nothing, or it posts one row and moves one balance.
\<close>

definition post :: "nat \<Rightarrow> account \<Rightarrow> rat \<Rightarrow> string \<Rightarrow> string \<Rightarrow> string \<Rightarrow> 'x credit_db_scheme \<Rightarrow> ledger_entry \<times> 'x credit_db_scheme" where
  "post a row d rt rid key db =
     (let e = new_entry (next_uuid db) a d (balance row + d) rt rid key (clock db)
      in (e, db\<lparr>next_uuid := Suc (next_uuid db), ledger := ledger db @ [e],
               accounts := AList.update a (row\<lparr>balance := balance row + d, version := version row + 1\<rparr>)
                             (accounts db)\<rparr>))"

definition signed :: "int \<Rightarrow> rat \<Rightarrow> rat" where
  "signed sign x = (if sign > 0 then x else - x)"

lemma apply_locked_Inr:
  assumes "apply_locked seen a x d rt rid key db = (Inr e, db')"
  shows "(find_entry key seen = Some e \<and> db' = db) \<or>
    (\<exists>row. map_of (accounts db) a = Some row \<and> find_entry key seen = None \<and>
       find_entry key (ledger db) = None \<and> 0 \<le> balance row + d \<and> d \<noteq> 0 \<and>
       balance row + d < NUMERIC_20_6 \<and> \<bar>d\<bar> < NUMERIC_20_6 \<and>
       (e, db') = post a row d rt rid key db)"
  using assms
  by (auto simp: apply_locked_def txn_iff Let_def uuid4_def insert_entry_def save_account_def
      post_def new_entry_def split: option.splits if_splits)


lemma normalize_amount_Inr:
  assumes "normalize_amount amount = Inr x"
  shows "0 < x" "x < NUMERIC_20_6" "on_grid MONEY_QUANT x"
    "\<exists>v. decimal_of_arg amount = Some (Finite v) \<and> x = quantize_half_up MONEY_QUANT v"
  using assms
  by (auto simp: normalize_amount_def py_quantize_def Let_def micro.quantize_on_grid
      split: option.splits py_decimal.splits if_splits)

lemma signed_grid:
  "normalize_amount amount = Inr x \<Longrightarrow> signed sign x \<noteq> 0"
  "normalize_amount amount = Inr x \<Longrightarrow> on_grid MONEY_QUANT (signed sign x)"
  using normalize_amount_Inr [of amount x] by (auto simp: signed_def micro.on_grid_minus)

lemma apply_seen_Inr:
  assumes "apply_seen seen a amount rt rid key sign db = (Inr e, db')"
  shows "db' = db \<and> (find_entry key seen = Some e \<or> find_entry key (ledger db) = Some e) \<or>
    (\<exists>x rtv row. normalize_amount amount = Inr x \<and> normalize_reference_type rt = Inr rtv \<and>
       key \<noteq> [] \<and> map_of (accounts db) a = Some row \<and> find_entry key seen = None \<and>
       find_entry key (ledger db) = None \<and> 0 \<le> balance row + signed sign x \<and>
       balance row + signed sign x < NUMERIC_20_6 \<and>
       (e, db') = post a row (signed sign x) rtv rid key db)"
proof -
  obtain x rtv where x: "normalize_amount amount = Inr x" and rtv: "normalize_reference_type rt = Inr rtv"
    and key: "key \<noteq> []"
    and run: "apply_locked seen a x (signed sign x) rtv rid key db = (Inr e, db') \<or>
      db' = db \<and> find_entry key (ledger db) = Some e"
    using assms
    by (auto simp: apply_seen_def txn_iff Let_def signed_def split: if_splits option.splits)
  from run show ?thesis
  proof
    assume "apply_locked seen a x (signed sign x) rtv rid key db = (Inr e, db')"
    from apply_locked_Inr [OF this] x rtv key show ?thesis by metis
  next
    assume "db' = db \<and> find_entry key (ledger db) = Some e"
    then show ?thesis by simp
  qed
qed

lemma apply_seen_Inl:
  "apply_seen seen a amount rt rid key sign db = (Inl ex, db') \<Longrightarrow> db' = db"
  by (auto simp: apply_seen_def txn_iff Let_def split: if_splits option.splits)

lemma post_ledger_ok:
  assumes ok: "ledger_ok db" and row: "map_of (accounts db) a = Some row"
    and fresh: "find_entry key (ledger db) = None" and key: "key \<noteq> []"
    and d: "d \<noteq> 0" "on_grid MONEY_QUANT d"
    and nb: "0 \<le> balance row + d" "balance row + d < NUMERIC_20_6"
    and p: "(e, db') = post a row d rt rid key db"
  shows "ledger_ok db'"
proof -
  note okD = ledger_okD [OF ok]
  have mem: "(a, row) \<in> set (accounts db)" using row by (rule map_of_SomeD)
  have bal: "balance row = ledger_sum (ledger db) a" using okD(6) [OF mem] by (simp add: account_ok_def)
  have e: "e = new_entry (next_uuid db) a d (balance row + d) rt rid key (clock db)"
    and db': "ledger db' = ledger db @ [e]" "next_uuid db' = Suc (next_uuid db)"
      "accounts db' = AList.update a (row\<lparr>balance := balance row + d, version := version row + 1\<rparr>)
         (accounts db)"
    using p by (auto simp: post_def Let_def)
  have keys: "fst ` set (accounts db') = fst ` set (accounts db)"
    using row by (metis db'(3) keys_AList_update_old list.set_map)
  show ?thesis
  proof (rule ledger_okI)
    show "distinct (map fst (accounts db'))"
      using okD(1) by (simp add: db' distinct_update)
    show "distinct (map entry_key (ledger db'))"
      using okD(2) fresh by (auto simp: db' e new_entry_def find_entry_None)
    show "distinct (map entry_id (ledger db'))"
      using okD(3) by (auto simp: db' e new_entry_def entry_ok_def dest!: okD(5))
    show "running_ok (ledger db')"
      using okD(4) bal by (simp add: db' running_ok_snoc e new_entry_def)
  next
    fix e' assume "e' \<in> set (ledger db')"
    then show "entry_ok db' e'"
      using okD(5) [of e'] d nb key map_of_in_keys [OF row]
      by (cases "e' = e") (simp_all add: entry_ok_def db'(1,2) keys e new_entry_def less_Suc_eq)
  next
    fix r assume "r \<in> set (accounts db')"
    then have "r = (a, row\<lparr>balance := balance row + d, version := version row + 1\<rparr>) \<or>
        r \<in> set (accounts db) \<and> fst r \<noteq> a"
      using okD(1) by (auto simp: db' set_AList_update)
    then show "account_ok db' r"
      using okD(6) [of r] okD(6) [OF mem] bal nb
      by (auto simp: account_ok_def db' e new_entry_def)
  qed
qed

lemma keeps_ledger_apply_seen [keeps_intros]: "keeps ledger_ok (apply_seen seen a amount rt rid key sign)"
proof (rule keepsI)
  fix db :: "'x credit_db_scheme" and r db'
  assume ok: "ledger_ok db" and run: "apply_seen seen a amount rt rid key sign db = (r, db')"
  show "ledger_ok db'"
  proof (cases r)
    case (Inl ex)
    then show ?thesis using run ok apply_seen_Inl by metis
  next
    case (Inr e)
    with run have "apply_seen seen a amount rt rid key sign db = (Inr e, db')" by simp
    from apply_seen_Inr [OF this] ok show ?thesis
      by (metis post_ledger_ok signed_grid)
  qed
qed

lemma keeps_ledger_uuid4 [keeps_intros]: "keeps ledger_ok uuid4"
  by (auto simp: keeps_def uuid4_def intro: ledger_ok_next_uuid)

lemma keeps_ledger_publish [keeps_intros]: "keeps ledger_ok (publish evs)"
  by (simp add: keeps_def publish_def modifyE_def)

lemma keeps_ledger_apply [keeps_intros]: "keeps ledger_ok (apply_credit a amount rt rid key sign)"
  unfolding apply_credit_def by (intro keeps_intros)

lemma keeps_ledger_credit [keeps_intros]:
  "keeps ledger_ok (credit a amount rt rid key)" "keeps ledger_ok (debit a amount rt rid key)"
  unfolding credit_def debit_def by (intro keeps_intros)+

lemma keeps_ledger_admin_adjust [keeps_intros]:
  "keeps ledger_ok (admin_adjust a amount is_credit reason actor_id key)"
  unfolding admin_adjust_def
  by (auto intro!: keeps_intros split: option.splits list.splits)

lemma fst_account_of_user: "account_of_user u rows = Some r \<Longrightarrow> r \<in> set rows \<and> acc_user (snd r) = Some u"
  by (auto simp: account_of_user_def find_Some_iff in_set_conv_nth)

lemma keeps_ledger_ensure [keeps_intros]: "keeps ledger_ok (ensure_billing_account u)"
proof (rule keepsI)
  fix db :: "'x credit_db_scheme" and r db'
  assume ok: "ledger_ok db" and run: "ensure_billing_account u db = (r, db')"
  let ?row = "\<lparr>acc_user = Some u, acc_kind = PERSONAL, balance = 0, version = 0, acc_profile = None\<rparr>"
  let ?k = "next_uuid db"
  have new: "?k \<notin> fst ` set (accounts db)" "ledger_sum (ledger db) ?k = 0"
    using ledger_okD(5,6) [OF ok] ledger_sum_foreign [of ?k "ledger db"]
    by (force simp: account_ok_def entry_ok_def)+
  have "db' = db \<or>
      db' = db\<lparr>next_uuid := Suc ?k, accounts := accounts db @ [(?k, ?row)]\<rparr>"
    using run new(1)
    by (auto simp: ensure_billing_account_def txn_iff uuid4_def save_account_def
        AList_update_new split: option.splits)
  then show "ledger_ok db'"
  proof
    assume db': "db' = db\<lparr>next_uuid := Suc ?k, accounts := accounts db @ [(?k, ?row)]\<rparr>"
    show ?thesis
      using ok new by (auto simp: db' ledger_ok_def entry_ok_def account_ok_def less_Suc_eq)
  qed (use ok in simp)
qed


section \<open>The calls, branch by branch\<close>

lemma post_simps:
  assumes "(e, db') = post a row d rt rid key db"
  shows "e = new_entry (next_uuid db) a d (balance row + d) rt rid key (clock db)"
    and "ledger db' = ledger db @ [e]"
    and "accounts db' = AList.update a
           (row\<lparr>balance := balance row + d, version := version row + 1\<rparr>) (accounts db)"
    and "next_uuid db' = Suc (next_uuid db)" "clock db' = clock db" "events db' = events db"
  using assms by (auto simp: post_def Let_def)

lemma apply_Inr:
  assumes "apply_credit a amount rt rid key sign db = (Inr e, db')"
  shows "db' = db \<and> find_entry key (ledger db) = Some e \<or>
    (\<exists>x rtv row. normalize_amount amount = Inr x \<and> normalize_reference_type rt = Inr rtv \<and>
       key \<noteq> [] \<and> map_of (accounts db) a = Some row \<and> find_entry key (ledger db) = None \<and>
       0 \<le> balance row + signed sign x \<and> balance row + signed sign x < NUMERIC_20_6 \<and>
       (e, db') = post a row (signed sign x) rtv rid key db)"
  using assms apply_seen_Inr [of "ledger db" a amount rt rid key sign db e db']
  by (auto simp: apply_credit_def txn_iff)

lemma apply_replay:
  assumes "find_entry key (ledger db) = Some e" "map_of (accounts db) a = Some row" "key \<noteq> []"
    and "normalize_amount amount = Inr x" "normalize_reference_type rt = Inr rtv"
  shows "apply_credit a amount rt rid key sign db = (Inr e, db)"
  using assms
  by (simp add: apply_credit_def apply_seen_def apply_locked_def txn_defs Let_def)

lemma apply_posts:
  assumes "find_entry key (ledger db) = None" "map_of (accounts db) a = Some row" "key \<noteq> []"
    and x: "normalize_amount amount = Inr x" and "normalize_reference_type rt = Inr rtv"
    and "0 \<le> balance row + signed sign x" "balance row + signed sign x < NUMERIC_20_6"
  shows "apply_credit a amount rt rid key sign db =
    (case post a row (signed sign x) rtv rid key db of (e, db') \<Rightarrow> (Inr e, db'))"
  using assms normalize_amount_Inr [OF x]
  by (auto simp: apply_credit_def apply_seen_def apply_locked_def txn_defs signed_def Let_def
      uuid4_def insert_entry_def save_account_def post_def new_entry_def)

lemma apply_insufficient:
  assumes "find_entry key (ledger db) = None" "map_of (accounts db) a = Some row" "key \<noteq> []"
    and "normalize_amount amount = Inr x" "normalize_reference_type rt = Inr rtv"
    and "balance row + signed sign x < 0"
  shows "apply_credit a amount rt rid key sign db =
    (Inl (ECredit (InsufficientFundsError (balance row) x)), db)"
  using assms
  by (simp add: apply_credit_def apply_seen_def apply_locked_def txn_defs signed_def Let_def)

lemma apply_error_unchanged: "apply_credit a amount rt rid key sign db = (Inl ex, db') \<Longrightarrow> db' = db"
  by (auto simp: apply_credit_def txn_iff dest: apply_seen_Inl)

lemma normalize_reference_enum [simp]: "normalize_reference_type (RefEnum t) = Inr (reference_value t)"
  by (cases t) (simp_all add: normalize_reference_type_def reference_types_def)

lemma signed_simps [simp]: "signed 1 x = x" "signed (- 1) x = - x"
  by (simp_all add: signed_def)

lemmas credit_debit_defs = credit_def debit_def

text \<open>The balance cache that a posting leaves behind, read through the table.\<close>

definition balance_of :: "'x credit_db_scheme \<Rightarrow> nat \<Rightarrow> rat" where
  "balance_of db a = (case map_of (accounts db) a of None \<Rightarrow> 0 | Some row \<Rightarrow> balance row)"

lemma balance_of_post:
  assumes "(e, db') = post a row d rt rid key db" "map_of (accounts db) a = Some row"
  shows "balance_of db' b = (if b = a then balance_of db a + d else balance_of db b)"
  using assms by (auto simp: balance_of_def post_simps)

lemma balance_of_ledger: "ledger_ok db \<Longrightarrow> balance_of db a = ledger_sum (ledger db) a"
proof -
  assume ok: "ledger_ok db"
  show ?thesis
  proof (cases "map_of (accounts db) a")
    case None
    then have "a \<notin> entry_account ` set (ledger db)"
      using ledger_okD(5) [OF ok] by (auto simp: entry_ok_def map_of_eq_None_iff)
    then show ?thesis using None by (simp add: balance_of_def ledger_sum_foreign)
  next
    case (Some row)
    then show ?thesis
      using ledger_okD(6) [OF ok map_of_SomeD [OF Some]] by (simp add: balance_of_def account_ok_def)
  qed
qed

section \<open>Reconcile and rebuild\<close>

lemma service_sum_ok: "ledger_ok db \<Longrightarrow> service_ledger_sum (ledger db) a = ledger_sum (ledger db) a"
  by (rule quantize_ledger_sum) (auto dest: ledger_okD(5) simp: entry_ok_def)

lemma find_drifts_Nil_iff:
  "find_drifts db = [] \<longleftrightarrow>
     (\<forall>r \<in> set (accounts db). balance (snd r) = service_ledger_sum (ledger db) (fst r))"
  by (auto simp: find_drifts_def Let_def split: if_splits)

lemma rebuild_balance_Inr:
  assumes "rebuild_balance_from_ledger a db = (Inr x, db')"
  shows "\<exists>row. map_of (accounts db) a = Some row \<and> x = service_ledger_sum (ledger db) a \<and>
    ledger db' = ledger db \<and> next_uuid db' = next_uuid db \<and>
    (if balance row = x then db' = db
     else accounts db' = AList.update a (row\<lparr>balance := x, version := version row + 1\<rparr>) (accounts db))"
  using assms
  by (cases "map_of (accounts db) a")
    (auto simp: rebuild_balance_from_ledger_def txn_defs save_account_def split: if_splits)


lemma apply_stored:
  assumes "apply_credit a amount rt rid key sign db = (Inr e, db')"
  shows "find_entry key (ledger db') = Some e"
  using apply_Inr [OF assms]
proof (elim disjE exE conjE)
  fix x rtv row
  assume fresh: "find_entry key (ledger db) = None"
    and p: "(e, db') = post a row (signed sign x) rtv rid key db"
  have "entry_key e = key" by (simp add: post_simps(1) [OF p] new_entry_def)
  with fresh show ?thesis
    by (simp add: post_simps(2) [OF p] find_entry_append) (simp add: find_entry_def)
qed simp

lemmas normalize_eval = normalize_amount_def py_quantize_def quantize_half_up_def MONEY_QUANT_def
  DECIMAL_PREC_def NUMERIC_20_6_def on_grid_def

section \<open>The interface the other services use\<close>

definition key_used :: "'x credit_db_scheme \<Rightarrow> string \<Rightarrow> bool" where
  "key_used db key \<longleftrightarrow> find_entry key (ledger db) \<noteq> None"

lemma apply_fresh_balances:
  assumes "apply_credit a amount rt rid key sign db = (Inr e, db')" "\<not> key_used db key"
  shows "\<exists>x. normalize_amount amount = Inr x \<and>
    balance_of db' = (balance_of db)(a := balance_of db a + signed sign x)"
proof -
  from apply_Inr [OF assms(1)] assms(2) obtain x rtv row where
    x: "normalize_amount amount = Inr x" and row: "map_of (accounts db) a = Some row"
    and p: "(e, db') = post a row (signed sign x) rtv rid key db"
    by (auto simp: key_used_def)
  show ?thesis using x balance_of_post [OF p row] by (auto simp: fun_eq_iff)
qed

lemma apply_key_used:
  assumes "apply_credit a amount rt rid key sign db = (Inr e, db')"
  shows "key_used db' k \<longleftrightarrow> key_used db k \<or> k = key"
  using apply_Inr [OF assms]
proof (elim disjE exE conjE)
  fix x rtv row
  assume p: "(e, db') = post a row (signed sign x) rtv rid key db"
  have "entry_key e = key" by (simp add: post_simps(1) [OF p] new_entry_def)
  then show ?thesis by (auto simp: key_used_def post_simps(2) [OF p] find_entry_None)
qed (auto simp: key_used_def)

lemma apply_used_unchanged:
  "apply_credit a amount rt rid key sign db = (Inr e, db') \<Longrightarrow> key_used db key \<Longrightarrow> db' = db"
  using apply_Inr [of a amount rt rid key sign db e db'] by (auto simp: key_used_def)

interpretation port: ledger_port balance_of key_used normalize_amount debit credit
proof unfold_locales
  fix a m r i k k' e and s t :: "'x credit_db_scheme"
  show "debit a m r i k s = (Inr e, t) \<Longrightarrow> \<not> key_used s k \<Longrightarrow>
      \<exists>x. normalize_amount m = Inr x \<and> balance_of t = (balance_of s)(a := balance_of s a - x)"
    unfolding debit_def by (drule (1) apply_fresh_balances) simp
  show "credit a m r i k s = (Inr e, t) \<Longrightarrow> \<not> key_used s k \<Longrightarrow>
      \<exists>x. normalize_amount m = Inr x \<and> balance_of t = (balance_of s)(a := balance_of s a + x)"
    unfolding credit_def by (drule (1) apply_fresh_balances) simp
qed (auto simp: credit_debit_defs dest: apply_key_used apply_used_unchanged apply_error_unchanged)

text \<open>
  A posting writes three columns of the record and no other: every table of an extension is
  framed out by \<open>apply_frame\<close>.
\<close>

lemma apply_frame:
  assumes "apply_credit a amount rt rid key sign db = (r, db')"
  shows "\<exists>as es n. db' = db\<lparr>accounts := as, ledger := es, next_uuid := n\<rparr> \<and>
    map fst as = map fst (accounts db) \<and> next_uuid db \<le> n"
proof (cases r)
  case (Inl e)
  with assms have "db' = db" by (auto dest: apply_error_unchanged)
  then show ?thesis by (intro exI [of _ "accounts db"] exI [of _ "ledger db"] exI [of _ "next_uuid db"]) simp
next
  case (Inr e)
  with assms have run: "apply_credit a amount rt rid key sign db = (Inr e, db')" by simp
  from apply_Inr [OF run] show ?thesis
  proof (elim disjE exE conjE)
    assume "db' = db"
    then show ?thesis
      by (intro exI [of _ "accounts db"] exI [of _ "ledger db"] exI [of _ "next_uuid db"]) simp
  next
    fix x rtv row
    assume row: "map_of (accounts db) a = Some row"
      and p: "(e, db') = post a row (signed sign x) rtv rid key db"
    then have "db' = db\<lparr>accounts := accounts db', ledger := ledger db', next_uuid := next_uuid db'\<rparr>"
      by (auto simp: post_def Let_def)
    with post_simps [OF p] keys_AList_update_old [OF row] show ?thesis by (metis lessI less_imp_le)
  qed
qed

lemmas credit_frame = apply_frame [of _ _ _ _ _ 1, folded credit_def]
lemmas debit_frame = apply_frame [of _ _ _ _ _ "- 1", folded debit_def]

text \<open>
  Keys made from a fresh primary key: no key \<^verbatim>\<open>tag:n\<close> with \<open>n\<close> not drawn yet is in the ledger.
  A service that posts under its own tag and a drawn number keeps this for every tag.
\<close>

definition tag_fresh :: "string \<Rightarrow> 'x credit_db_scheme \<Rightarrow> bool" where
  "tag_fresh tag db \<longleftrightarrow> (\<forall>e \<in> set (ledger db). \<forall>n. entry_key e = tag @ str_nat n \<longrightarrow> n < next_uuid db)"

lemma tag_freshD: "tag_fresh tag db \<Longrightarrow> next_uuid db \<le> n \<Longrightarrow> \<not> key_used db (tag @ str_nat n)"
  by (fastforce simp: tag_fresh_def key_used_def dest: find_entry_Some)

lemma apply_ledger_keys:
  assumes "apply_credit a amount rt rid key sign db = (r, db')" "e \<in> set (ledger db')"
  shows "e \<in> set (ledger db) \<or> entry_key e = key"
proof (cases r)
  case (Inl ex)
  then show ?thesis using assms by (auto dest: apply_error_unchanged)
next
  case (Inr e')
  with assms have run: "apply_credit a amount rt rid key sign db = (Inr e', db')" by simp
  from apply_Inr [OF run] assms(2) show ?thesis
    by (auto simp: post_simps) (auto simp: post_def Let_def new_entry_def)
qed

lemma apply_tag_fresh:
  assumes "apply_credit a amount rt rid key sign db = (r, db')" "tag_fresh tag db"
    and "\<And>n. key = tag @ str_nat n \<Longrightarrow> n < next_uuid db"
  shows "tag_fresh tag db'"
proof -
  have "next_uuid db \<le> next_uuid db'" using apply_frame [OF assms(1)] by auto
  then show ?thesis
    using assms(2,3) apply_ledger_keys [OF assms(1)] unfolding tag_fresh_def
    by (metis order_less_le_trans)
qed

section \<open>Properties\<close>


text \<open>C1. Whatever ledger the idempotency lookup happened to read, and whatever the arguments,
  a call of \<^verbatim>\<open>CreditService._apply\<close> keeps the ledger invariant: unique idempotency keys,
  the running balances, and for every account a cached balance that is the sum of its
  ledger rows and is not negative.\<close>

theorem apply_keeps_ledger:
  assumes "ledger_ok db"
  shows "ledger_ok (snd (apply_seen seen a amount rt rid key sign db))"
  by (rule keepsD [OF keeps_ledger_apply_seen assms surjective_pairing])

definition demo_db :: credit_db where
  "demo_db = \<lparr>accounts =
     [(1, \<lparr>acc_user = Some 7, acc_kind = PERSONAL, balance = 0, version = 0, acc_profile = None\<rparr>),
      (2, \<lparr>acc_user = None, acc_kind = ORGANIZATION, balance = 0, version = 0, acc_profile = None\<rparr>)],
     ledger = [], next_uuid = 3, clock = 1000, events = []\<rparr>"

lemma demo_db_ok: "ledger_ok demo_db"
  by (simp add: demo_db_def ledger_ok_def running_ok_def account_ok_def)

theorem apply_keeps_ledger_witness:
  "ledger_ok demo_db \<and>
   ledger_ok (snd (apply_seen [] 1 (IntArg 25) (RefEnum DEPOSIT) ''d'' ''deposit:9'' 1 demo_db))"
  using demo_db_ok apply_keeps_ledger [OF demo_db_ok] by blast

text \<open>C5. A call under a key that the ledger does not hold yet, when it returns, has appended
  exactly one row whose delta is the normalized amount with the call's sign, has moved the
  balance of that account by that delta (the row's \<open>balance_after\<close>), and has left every
  other account alone.\<close>

theorem apply_posts_once:
  assumes "apply_credit a amount rt rid key sign db = (Inr e, db')"
    and "find_entry key (ledger db) = None"
  shows "\<exists>x. normalize_amount amount = Inr x \<and> delta e = signed sign x \<and>
    entry_account e = a \<and> entry_key e = key \<and> ledger db' = ledger db @ [e] \<and>
    balance_of db' a = balance_of db a + signed sign x \<and> balance_after e = balance_of db' a \<and>
    (\<forall>b. b \<noteq> a \<longrightarrow> balance_of db' b = balance_of db b)"
proof -
  from apply_Inr [OF assms(1)] assms(2) obtain x rtv row where
    x: "normalize_amount amount = Inr x" and row: "map_of (accounts db) a = Some row"
    and p: "(e, db') = post a row (signed sign x) rtv rid key db"
    by auto
  note ps = post_simps [OF p]
  have "balance_of db a = balance row" using row by (simp add: balance_of_def)
  then show ?thesis
    using x ps(2) balance_of_post [OF p row] by (auto simp: ps(1) new_entry_def)
qed

lemma demo_credit:
  "apply_credit 1 (IntArg 25) (RefEnum DEPOSIT) ''d'' ''deposit:9'' 1 demo_db =
     (Inr (new_entry 3 1 25 25 ''deposit'' ''d'' ''deposit:9'' 1000),
      snd (post 1 \<lparr>acc_user = Some 7, acc_kind = PERSONAL, balance = 0, version = 0, acc_profile = None\<rparr>
             25 ''deposit'' ''d'' ''deposit:9'' demo_db))"
proof -
  have "normalize_amount (IntArg 25) = Inr 25"
    by (simp add: normalize_amount_def py_quantize_def quantize_half_up_def MONEY_QUANT_def
        DECIMAL_PREC_def NUMERIC_20_6_def)
  then show ?thesis
    by (subst apply_posts [where x = 25 and rtv = "''deposit''" and row =
          "\<lparr>acc_user = Some 7, acc_kind = PERSONAL, balance = 0, version = 0, acc_profile = None\<rparr>"])
      (simp_all add: demo_db_def find_entry_def NUMERIC_20_6_def post_def Let_def)
qed

theorem apply_posts_once_witness:
  "\<exists>e db'. apply_credit 1 (IntArg 25) (RefEnum DEPOSIT) ''d'' ''deposit:9'' 1 demo_db = (Inr e, db') \<and>
     find_entry ''deposit:9'' (ledger demo_db) = None \<and> ledger db' = ledger demo_db @ [e]"
proof -
  have fresh: "find_entry ''deposit:9'' (ledger demo_db) = None"
    by (simp add: demo_db_def find_entry_def)
  show ?thesis using apply_posts_once [OF demo_credit fresh] demo_credit fresh by blast
qed

text \<open>Idempotency: once a call has returned a row under a key, any later call under that key,
  on any account and for any valid amount, credit or debit, returns that same row and changes
  nothing.\<close>

theorem apply_idempotent:
  assumes "apply_credit a amount rt rid key sign db = (Inr e, db')"
    and "key \<noteq> []" "map_of (accounts db') a' = Some row"
    and "normalize_amount amount' = Inr x'" "normalize_reference_type rt' = Inr rtv'"
  shows "apply_credit a' amount' rt' rid' key sign' db' = (Inr e, db')"
  using apply_replay [OF apply_stored [OF assms(1)] assms(3,2,4,5)] .

theorem apply_idempotent_witness:
  "\<exists>e db'. apply_credit 1 (IntArg 25) (RefEnum DEPOSIT) ''d'' ''deposit:9'' 1 demo_db = (Inr e, db') \<and>
     apply_credit 2 (IntArg 4) (RefEnum ORDER) ''x'' ''deposit:9'' (- 1) db' = (Inr e, db')"
proof -
  have acc: "map_of (accounts (snd (apply_credit 1 (IntArg 25) (RefEnum DEPOSIT) ''d'' ''deposit:9'' 1
      demo_db))) 2 = map_of (accounts demo_db) 2"
    unfolding demo_credit by (simp add: post_def Let_def demo_db_def)
  have "normalize_amount (IntArg 4) = Inr 4"
    by (simp add: normalize_eval)
  from apply_idempotent [OF demo_credit _ _ this, of 2] acc show ?thesis
    unfolding demo_credit by (force simp: demo_db_def)
qed

text \<open>A race on one key: the lookup read a ledger without the key (\<open>seen\<close>), another
  transaction committed the key before the insert. The call does not fail and does not post: it
  returns the row the other transaction wrote.\<close>

theorem apply_race_returns_winner:
  assumes "find_entry key seen = None" "find_entry key (ledger db) = Some winner"
    and "map_of (accounts db) a = Some row" "key \<noteq> []"
    and x: "normalize_amount amount = Inr x" and "normalize_reference_type rt = Inr rtv"
    and "0 \<le> balance row + signed sign x" "balance row + signed sign x < NUMERIC_20_6"
  shows "apply_seen seen a amount rt rid key sign db = (Inr winner, db)"
  using assms normalize_amount_Inr [OF x]
  by (auto simp: apply_seen_def apply_locked_def txn_defs signed_def Let_def uuid4_def
      insert_entry_def new_entry_def)

theorem apply_race_returns_winner_witness:
  "apply_seen [] 2 (IntArg 4) (RefEnum ORDER) ''x'' ''deposit:9'' 1
     (demo_db\<lparr>ledger := [new_entry 3 1 25 25 ''deposit'' ''d'' ''deposit:9'' 1000]\<rparr>) =
   (Inr (new_entry 3 1 25 25 ''deposit'' ''d'' ''deposit:9'' 1000),
    demo_db\<lparr>ledger := [new_entry 3 1 25 25 ''deposit'' ''d'' ''deposit:9'' 1000]\<rparr>)"
  by (rule apply_race_returns_winner [where x = 4 and rtv = "''order''" and row =
        "\<lparr>acc_user = None, acc_kind = ORGANIZATION, balance = 0, version = 0, acc_profile = None\<rparr>"])
    (simp_all add: demo_db_def find_entry_def new_entry_def normalize_eval)

text \<open>A debit under a fresh key is decided by the balance alone: below the amount it raises
  \<open>InsufficientFundsError\<close> with the balance and the amount and changes nothing; otherwise it
  posts the negative delta.\<close>

theorem debit_decided_by_balance:
  assumes "ledger_ok db" "map_of (accounts db) a = Some row" "find_entry key (ledger db) = None"
    and "key \<noteq> []" and x: "normalize_amount amount = Inr x"
    and "balance row < NUMERIC_20_6"
  shows "debit a amount (RefEnum t) rid key db =
    (if balance row < x then (Inl (ECredit (InsufficientFundsError (balance row) x)), db)
     else case post a row (- x) (reference_value t) rid key db of (e, db') \<Rightarrow> (Inr e, db'))"
  using assms normalize_amount_Inr [OF x] apply_insufficient [of key db a row amount x "RefEnum t"]
    apply_posts [of key db a row amount x "RefEnum t" _ "- 1"]
  by (auto simp: debit_def)

theorem debit_decided_by_balance_witness:
  "debit 1 (IntArg 4) (RefEnum ORDER) ''17'' ''order-debit:17'' demo_db =
     (Inl (ECredit (InsufficientFundsError 0 4)), demo_db)"
  using debit_decided_by_balance [OF demo_db_ok, where a = 1 and x = 4 and amount = "IntArg 4" and
      t = ORDER and key = "''order-debit:17''"]
  by (simp add: demo_db_def find_entry_def normalize_eval)

text \<open>An accepted amount is positive, below \<open>10^14\<close>, has six decimal places, and is within half
  a millionth of the number that was passed.\<close>

theorem normalize_amount_bounds:
  assumes "normalize_amount amount = Inr x"
  shows "0 < x \<and> x < 100000000000000 \<and> on_grid MONEY_QUANT x \<and>
    (\<exists>v. decimal_of_arg amount = Some (Finite v) \<and> \<bar>x - v\<bar> \<le> MONEY_QUANT / 2)"
  using normalize_amount_Inr [OF assms] micro.quantize_error by (auto simp: NUMERIC_20_6_def)

theorem normalize_amount_bounds_witness:
  "normalize_amount (StrArg (Some (Finite (25 / 10)))) = Inr (5 / 2) \<and> on_grid MONEY_QUANT (5 / 2)"
  using normalize_amount_bounds [of "StrArg (Some (Finite (25 / 10)))" "5 / 2"]
  by (simp add: normalize_eval)

text \<open>Against its docstring, an amount of \<open>10^22\<close> or more is not an \<open>InvalidAmountError\<close>: the
  \<open>quantize\<close> call stands outside the \<^verbatim>\<open>try\<close>, and its \<open>InvalidOperation\<close> (the result would need
  more than 28 digits) reaches the caller.\<close>

theorem normalize_amount_overflow:
  assumes "decimal_of_arg amount = Some (Finite v)" "10000000000000000000000 \<le> v"
  shows "normalize_amount amount = Inl (EPy InvalidOperation)"
proof -
  have "on_grid MONEY_QUANT (10000000000000000000000 :: rat)"
    by (simp add: on_grid_def MONEY_QUANT_def)
  then have "10000000000000000000000 \<le> quantize_half_up MONEY_QUANT v"
    using assms(2) by (rule micro.quantize_ge_grid [rotated])
  moreover have "MONEY_QUANT * 10 ^ DECIMAL_PREC = 10000000000000000000000"
    by (simp add: MONEY_QUANT_def DECIMAL_PREC_def)
  ultimately show ?thesis
    using assms(1) by (simp add: normalize_amount_def py_quantize_def Let_def)
qed

theorem normalize_amount_overflow_witness:
  "normalize_amount (IntArg 1000000000000000000000000000000) = Inl (EPy InvalidOperation)"
  by (rule normalize_amount_overflow [of _ 1000000000000000000000000000000]) simp_all

text \<open>On a database that keeps the ledger invariant, the nightly reconcile reports every account
  checked and no drift, publishes nothing, and an operator rebuild leaves the database as it
  was.\<close>

theorem reconcile_silent:
  assumes "ledger_ok db" "map_of (accounts db) a = Some row"
  shows "reconcile db = (Inr (length (accounts db), 0), db) \<and>
    rebuild_balance_from_ledger a db = (Inr (balance row), db)"
proof -
  have sums: "balance (snd r) = service_ledger_sum (ledger db) (fst r)" if "r \<in> set (accounts db)" for r
    using ledger_okD(6) [OF assms(1) that] by (simp add: service_sum_ok [OF assms(1)] account_ok_def)
  then have "find_drifts db = []" by (simp add: find_drifts_Nil_iff)
  moreover have "balance row = service_ledger_sum (ledger db) a"
    using sums [OF map_of_SomeD [OF assms(2)]] by simp
  ultimately show ?thesis
    using assms(2) by (simp add: reconcile_def rebuild_balance_from_ledger_def txn_defs publish_def)
qed

theorem reconcile_silent_witness:
  "reconcile demo_db = (Inr (2, 0), demo_db)"
  using reconcile_silent [OF demo_db_ok, of 1] by (simp add: demo_db_def)

text \<open>After an operator rebuild of one account, its cache is the sum of its ledger rows; no
  ledger row is written and no other account changes.\<close>

theorem rebuild_repairs:
  assumes "rebuild_balance_from_ledger a db = (Inr x, db')"
  shows "balance_of db' a = service_ledger_sum (ledger db) a \<and> ledger db' = ledger db \<and>
    (\<forall>b. b \<noteq> a \<longrightarrow> map_of (accounts db') b = map_of (accounts db) b)"
proof -
  from rebuild_balance_Inr [OF assms] obtain row where
    row: "map_of (accounts db) a = Some row" and x: "x = service_ledger_sum (ledger db) a"
    and led: "ledger db' = ledger db"
    and upd: "if balance row = x then db' = db
      else accounts db' = AList.update a (row\<lparr>balance := x, version := version row + 1\<rparr>) (accounts db)"
    by blast
  then show ?thesis by (cases "balance row = x") (simp_all add: balance_of_def)
qed

theorem rebuild_repairs_witness:
  "\<exists>x db'. rebuild_balance_from_ledger 1 (demo_db\<lparr>ledger :=
       [new_entry 3 1 25 25 ''deposit'' ''d'' ''deposit:9'' 1000]\<rparr>) = (Inr x, db') \<and>
     balance_of db' 1 = 25"
proof -
  let ?db = "demo_db\<lparr>ledger := [new_entry 3 1 25 25 ''deposit'' ''d'' ''deposit:9'' 1000]\<rparr>"
  have s: "service_ledger_sum (ledger ?db) 1 = 25"
    by (simp add: service_ledger_sum_def ledger_sum_def new_entry_def quantize_half_up_def MONEY_QUANT_def)
  have "\<exists>x db'. rebuild_balance_from_ledger 1 ?db = (Inr x, db')"
    using s by (simp add: rebuild_balance_from_ledger_def txn_defs save_account_def demo_db_def
        NUMERIC_20_6_def)
  then show ?thesis using rebuild_repairs [of 1 ?db] s by auto
qed

end
