(* ===== verification/Settings.thy ===== *)
theory Settings
  imports Prelude
begin

text \<open>
  What a service reads from outside the database: the Django settings (feature flags and
  parameters, \<^verbatim>\<open>config/settings/base.py\<close>) and the functions of the standard library whose
  text output is only stored or compared: \<^verbatim>\<open>hashlib.sha256(...).hexdigest()\<close>,
  \<^verbatim>\<open>datetime.isoformat()\<close>; and \<^verbatim>\<open>unicodedata.normalize("NFKC", ...)\<close>, of which only ASCII text is used. \<open>hd_address\<close> is the third-party
  \<^verbatim>\<open>eth_account.Account.from_mnemonic(seed, account_path=path).address\<close>.
\<close>

record env =
  BILLING_ENABLED :: bool
  VOUCHERS_ENABLED :: bool
  PRICING_PROFILES_ENABLED :: bool
  PARTNER_CHANNEL_ENABLED :: bool
  SUBSCRIPTIONS_ENABLED :: bool
  POLYGON_MIN_CONFIRMATIONS :: int
  FRONTEND_BASE_URL :: string
  POLYGON_USDT_CONTRACT :: string
  WALLET_HD_MNEMONIC :: string
  WALLET_ADDRESS_ENABLED :: bool
  OBSERVATION_ENABLED :: bool
  CREDIT_CONVERSION_V2 :: bool
  SHADOW_MODE :: bool
  WALLET_CUTOVER_COHORT_ACCOUNT_IDS :: string
  PARTNER_JOIN_BASE_URL :: string
  ORGANIZATION_INVITE_TTL_SECONDS :: int
  FLEET_CREDENTIAL_GRACE_SECONDS :: int
  AUTO_TOPUP_ENABLED :: bool
  AUTO_TOPUP_USAGE_MAX_AGE_SECONDS :: int
  AUTO_TOPUP_MINIMUM_AGE_SECONDS :: int
  AUTO_TOPUP_COOLDOWN_SECONDS :: int
  AUTO_TOPUP_ROLLOUT_MODE :: string
  AUTO_TOPUP_ROLLOUT_PERCENT :: int
  AUTO_TOPUP_ALLOWLIST_ACCOUNT_IDS :: "string list"
  sha256_hex :: "string \<Rightarrow> string"
  isoformat :: "int \<Rightarrow> string"
  nfkc :: "string \<Rightarrow> string"
  hd_address :: "string \<Rightarrow> string \<Rightarrow> exc + string"

definition demo_env :: env where
  "demo_env = \<lparr>BILLING_ENABLED = True, VOUCHERS_ENABLED = True, PRICING_PROFILES_ENABLED = True,
     PARTNER_CHANNEL_ENABLED = True, SUBSCRIPTIONS_ENABLED = True, POLYGON_MIN_CONFIRMATIONS = 12,
     FRONTEND_BASE_URL = ''https://app'',
     POLYGON_USDT_CONTRACT = ''0xAA'', WALLET_HD_MNEMONIC = ''seed'', WALLET_ADDRESS_ENABLED = True,
     OBSERVATION_ENABLED = True, CREDIT_CONVERSION_V2 = True, SHADOW_MODE = True,
     WALLET_CUTOVER_COHORT_ACCOUNT_IDS = ''2,'', PARTNER_JOIN_BASE_URL = ''https://join/'',
     ORGANIZATION_INVITE_TTL_SECONDS = 604800, FLEET_CREDENTIAL_GRACE_SECONDS = 259200, AUTO_TOPUP_ENABLED = True,
     AUTO_TOPUP_USAGE_MAX_AGE_SECONDS = 900, AUTO_TOPUP_MINIMUM_AGE_SECONDS = 3600,
     AUTO_TOPUP_COOLDOWN_SECONDS = 600, AUTO_TOPUP_ROLLOUT_MODE = ''all'', AUTO_TOPUP_ROLLOUT_PERCENT = 100,
     AUTO_TOPUP_ALLOWLIST_ACCOUNT_IDS = [], sha256_hex = (\<lambda>s. CHR ''h'' # s),
     isoformat = (\<lambda>t. CHR ''t'' # (if t < 0 then ''-'' else [])), nfkc = (\<lambda>s. s),
     hd_address = (\<lambda>seed path. Inr path)\<rparr>"

end
