(* ===== verification/Catalog.thy ===== *)
theory Catalog
  imports Prelude
begin

text \<open>
  The catalog rows and provider DTOs that pricing and orders read: \<^verbatim>\<open>catalog/models.py\<close>
  (\<open>Location\<close>, \<open>Package\<close>) and the \<open>TopupPackage\<close> of \<^verbatim>\<open>shared/providers/esim.py\<close>. A JSON
  column is a \<open>json\<close> value, an object's members in order.
\<close>

datatype json =
  JNull | JBool bool | JNum rat | JText string | JList "json list" | JObj "(string \<times> json) list"

record location =
  loc_title :: string
  loc_country_code :: string
  loc_coverage_type :: string
  loc_coverages :: json

record package =
  pkg_id :: nat
  pkg_external_id :: string
  pkg_title :: string
  pkg_operator_title :: string
  pkg_country_code :: string
  pkg_location :: "location option"
  pkg_data_allowance :: string
  pkg_validity_days :: nat
  price_usd :: rat
  net_price_usd :: "rat option"
  pkg_activation_policy :: string

record topup_package =
  tp_external_id :: string
  tp_title :: string
  tp_data_allowance :: string
  tp_validity_days :: int
  tp_price_usd :: rat
  tp_net_price_usd :: "rat option"
  tp_is_unlimited :: bool
  tp_plan_type :: string

end
