(* ===== verification/Pricing.thy ===== *)
theory Pricing
  imports Credit Settings Catalog
begin

text \<open>
  The pricing app: \<^verbatim>\<open>pricing/types.py\<close>, \<^verbatim>\<open>models.py\<close>, \<^verbatim>\<open>hashing.py\<close>, \<^verbatim>\<open>service.py\<close>,
  \<^verbatim>\<open>snapshot.py\<close>, \<^verbatim>\<open>charge.py\<close> and \<^verbatim>\<open>presentation.py\<close>. A quote is resolved from a list price,
  a wholesale price and the account's profile; it is copied onto the order or top-up row, and
  the charge is read from that copy. \<open>pricing_db\<close> adds the profile table and its audit rows to
  \<open>credit_db\<close>. Prices are \<^verbatim>\<open>numeric(10,2)\<close> columns. Log lines and metrics are not modelled.
\<close>

section \<open>Data\<close>

datatype floor_policy = POLICY_NONE | POLICY_WHOLESALE

record pricing_profile =
  prof_name :: string
  prof_slug :: string
  discount_percent :: rat
  prof_floor :: floor_policy
  prof_version :: nat
  prof_active :: bool
  effective_from :: int
  effective_until :: "int option"
  archived_at :: "int option"

record profile_audit =
  audit_profile :: nat
  audit_actor :: nat
  audit_reason :: string
  audit_accounts :: "string list"
  audit_updated :: nat

record pricing_db = credit_db +
  profiles :: "(nat \<times> pricing_profile) list"
  profile_audits :: "profile_audit list"

type_synonym ('x, 'a) pricing_txn = "('x pricing_db_scheme, 'a) txn"

text \<open>An account as the resolver sees it: its key and the profile its foreign key points at.\<close>

record priced_account =
  pa_id :: nat
  pa_profile :: "(nat \<times> pricing_profile) option"

record pricing_context =
  ctx_list_price :: rat
  ctx_net_price :: "rat option"
  ctx_order_type :: string
  ctx_timestamp :: int
  ctx_account :: "priced_account option"
  ctx_profile :: "(nat \<times> pricing_profile) option"

record pricing_quote =
  list_price :: rat
  customer_price :: rat
  quote_discount :: rat
  pricing_reason :: string
  floor_reason :: string
  quote_profile_id :: "nat option"
  quote_profile_version :: "nat option"
  quote_hash :: string
  quote_slug :: "string option"
  quote_name :: "string option"
  quote_schema :: nat

definition SNAPSHOT_SCHEMA_VERSION :: nat where
  "SNAPSHOT_SCHEMA_VERSION = 1"

definition fingerprint :: "pricing_quote \<Rightarrow> string" where
  "fingerprint q =
     (case quote_profile_id q of None \<Rightarrow> ''-'' | Some pid \<Rightarrow> str_nat pid) @ ''|'' @
     (case quote_profile_version q of None \<Rightarrow> ''-'' | Some v \<Rightarrow> str_nat v) @ ''|'' @
     quote_hash q"

section \<open>Profiles\<close>

definition is_archived :: "pricing_profile \<Rightarrow> bool" where
  "is_archived p \<longleftrightarrow> archived_at p \<noteq> None"

definition clean_profile :: "pricing_profile \<Rightarrow> exc + unit" where
  "clean_profile p =
     (case effective_until p of
        None \<Rightarrow> Inr ()
      | Some until \<Rightarrow> if until \<le> effective_from p then Inl (EPy ValidationError) else Inr ())"

definition profile_constraints :: "nat \<Rightarrow> pricing_profile \<Rightarrow> (nat \<times> pricing_profile) list \<Rightarrow> bool" where
  "profile_constraints pk p rows \<longleftrightarrow>
     0 \<le> discount_percent p \<and> discount_percent p \<le> 100 \<and> 1 \<le> prof_version p \<and>
     (archived_at p = None \<longrightarrow>
       (\<forall>(k, r) \<in> set rows. k \<noteq> pk \<and> archived_at r = None \<longrightarrow> prof_slug r \<noteq> prof_slug p))"

definition store_profile :: "nat \<Rightarrow> pricing_profile \<Rightarrow> ('x, pricing_profile) pricing_txn" where
  "store_profile pk p =
     bindE (getsE profiles) (\<lambda>rows.
     if profile_constraints pk p rows
     then thenE (modifyE (\<lambda>db. db\<lparr>profiles := AList.update pk p (profiles db)\<rparr>)) (ret p)
     else raiseE (EPy IntegrityError))"

text \<open>\<^verbatim>\<open>PricingProfile.save()\<close> without \<open>update_fields\<close>; \<open>slugify\<close> is Django's.\<close>

definition save_profile ::
  "(string \<Rightarrow> string) \<Rightarrow> nat \<Rightarrow> pricing_profile \<Rightarrow> ('x, pricing_profile) pricing_txn" where
  "save_profile slugify pk self =
     (let self1 = (if prof_slug self = [] \<and> prof_name self \<noteq> []
                   then self\<lparr>prof_slug := take 128 (slugify (prof_name self))\<rparr> else self)
      in bindE (getsE (\<lambda>db. map_of (profiles db) pk)) (\<lambda>previous.
         let self2 = (case previous of
               None \<Rightarrow> self1
             | Some prev \<Rightarrow>
                 if discount_percent prev \<noteq> discount_percent self1 \<or> prof_floor prev \<noteq> prof_floor self1
                 then self1\<lparr>prof_version := prof_version prev + 1\<rparr> else self1)
         in store_profile pk self2))"

definition archive :: "nat \<Rightarrow> pricing_profile \<Rightarrow> int option \<Rightarrow> ('x, pricing_profile) pricing_txn" where
  "archive pk self at_time =
     (if archived_at self \<noteq> None then ret self
      else
        bindE (getsE clock) (\<lambda>now.
        let stamp = (case at_time of None \<Rightarrow> now | Some t \<Rightarrow> t)
        in bindE (getsE (\<lambda>db. map_of (profiles db) pk)) (\<lambda>row.
           bindE (get_or_raise (EPy DatabaseError) row) (\<lambda>stored.
           thenE (store_profile pk (stored\<lparr>archived_at := Some stamp, prof_active := False\<rparr>))
             (ret (self\<lparr>archived_at := Some stamp, prof_active := False\<rparr>))))))"

text \<open>The writable columns of a profile, by name.\<close>

datatype profile_field =
  F_name | F_slug | F_discount_percent | F_floor_policy | F_is_active | F_effective_from
| F_effective_until | F_archived_at

fun copy_field :: "pricing_profile \<Rightarrow> profile_field \<Rightarrow> pricing_profile \<Rightarrow> pricing_profile" where
  "copy_field src F_name dst = dst\<lparr>prof_name := prof_name src\<rparr>"
| "copy_field src F_slug dst = dst\<lparr>prof_slug := prof_slug src\<rparr>"
| "copy_field src F_discount_percent dst = dst\<lparr>discount_percent := discount_percent src\<rparr>"
| "copy_field src F_floor_policy dst = dst\<lparr>prof_floor := prof_floor src\<rparr>"
| "copy_field src F_is_active dst = dst\<lparr>prof_active := prof_active src\<rparr>"
| "copy_field src F_effective_from dst = dst\<lparr>effective_from := effective_from src\<rparr>"
| "copy_field src F_effective_until dst = dst\<lparr>effective_until := effective_until src\<rparr>"
| "copy_field src F_archived_at dst = dst\<lparr>archived_at := archived_at src\<rparr>"

definition material_fields :: "profile_field list \<Rightarrow> bool" where
  "material_fields update_fields \<longleftrightarrow> F_discount_percent \<in> set update_fields \<or> F_floor_policy \<in> set update_fields"

text \<open>
  \<^verbatim>\<open>save_optimistic\<close>: one conditional \<^verbatim>\<open>UPDATE ... WHERE pk AND version\<close>. The result is the
  truth value returned and the object in memory, whose \<open>version\<close> is set before the update runs.
\<close>

definition save_optimistic ::
  "nat \<Rightarrow> pricing_profile \<Rightarrow> nat \<Rightarrow> profile_field list \<Rightarrow> ('x, bool \<times> pricing_profile) pricing_txn" where
  "save_optimistic pk self expected update_fields =
     (let bump = (\<lambda>p. if material_fields update_fields then p\<lparr>prof_version := expected + 1\<rparr> else p)
      in bindE (getsE (\<lambda>db. map_of (profiles db) pk)) (\<lambda>row.
         case row of
           None \<Rightarrow> ret (False, bump self)
         | Some stored \<Rightarrow>
             if prof_version stored = expected
             then thenE (store_profile pk (bump (fold (copy_field self) update_fields stored)))
                    (ret (True, bump self))
             else ret (False, bump self)))"

definition assign_pricing_profile ::
  "nat list \<Rightarrow> nat option \<Rightarrow> nat option \<Rightarrow> string \<Rightarrow> ('x, nat) pricing_txn" where
  "assign_pricing_profile account_ids profile actor reason =
     (if 100 < length account_ids then raiseE (EPy ValidationError)
      else
        bindE (case profile of
                 None \<Rightarrow> ret False
               | Some p \<Rightarrow>
                   bindE (getsE (\<lambda>db. map_of (profiles db) p)) (\<lambda>row.
                   bindE (get_or_raise (EPy ObjectDoesNotExist) row) (\<lambda>prof.
                   ret (archived_at prof \<noteq> None)))) (\<lambda>archived.
        if archived then raiseE (EPy ValidationError)
        else atomic (
          bindE (getsE (\<lambda>db. length (filter (\<lambda>r. fst r \<in> set account_ids) (accounts db)))) (\<lambda>updated.
          thenE (modifyE (\<lambda>db. db\<lparr>accounts := map (\<lambda>(k, r).
                   (k, if k \<in> set account_ids then r\<lparr>acc_profile := profile\<rparr> else r)) (accounts db)\<rparr>))
          (thenE (case (actor, profile) of
              (Some u, Some p) \<Rightarrow> modifyE (\<lambda>db. db\<lparr>profile_audits := profile_audits db @
                 [\<lparr>audit_profile = p, audit_actor = u, audit_reason = reason,
                   audit_accounts = map str_nat account_ids, audit_updated = updated\<rparr>]\<rparr>)
            | _ \<Rightarrow> ret ())
          (ret updated))))))"

section \<open>Context hash\<close>

text \<open>\<^verbatim>\<open>format(money_round(value), "f")\<close>: sign, integer part, point, two digits.\<close>

definition format_cents :: "rat \<Rightarrow> string" where
  "format_cents value =
     (let r = money_round value; n = nat \<lfloor>\<bar>r\<bar> * 100\<rfloor>
      in (if r < 0 then ''-'' else []) @ str_nat (n div 100) @ ''.'' @
         [digit_char (n div 10 mod 10), digit_char (n mod 10)])"

definition dec_text :: "rat option \<Rightarrow> string" where
  "dec_text v = (case v of None \<Rightarrow> [] | Some x \<Rightarrow> format_cents x)"

fun join_with :: "string \<Rightarrow> string list \<Rightarrow> string" where
  "join_with sep [] = []"
| "join_with sep [x] = x"
| "join_with sep (x # y # xs) = x @ sep @ join_with sep (y # xs)"

definition pricing_context_hash :: "env \<Rightarrow> pricing_context \<Rightarrow> bool \<Rightarrow> string" where
  "pricing_context_hash env ctx flag_enabled =
     sha256_hex env (join_with ''|''
       [''v1'',
        if flag_enabled then ''1'' else ''0'',
        case ctx_account ctx of None \<Rightarrow> [] | Some a \<Rightarrow> str_nat (pa_id a),
        case ctx_profile ctx of None \<Rightarrow> [] | Some p \<Rightarrow> str_nat (fst p),
        case ctx_profile ctx of None \<Rightarrow> [] | Some p \<Rightarrow> str_nat (prof_version (snd p)),
        dec_text (Some (ctx_list_price ctx)),
        dec_text (ctx_net_price ctx),
        ctx_order_type ctx,
        isoformat env (ctx_timestamp ctx)])"

section \<open>PricingService\<close>

definition profile_is_effective :: "pricing_profile \<Rightarrow> int \<Rightarrow> bool" where
  "profile_is_effective p at_time =
     (if archived_at p \<noteq> None then False
      else if \<not> prof_active p then False
      else if at_time < effective_from p then False
      else case effective_until p of None \<Rightarrow> True | Some until \<Rightarrow> at_time < until)"

definition retail_quote :: "rat \<Rightarrow> string \<Rightarrow> rat \<Rightarrow> string \<Rightarrow> pricing_quote" where
  "retail_quote lp context_hash discount reason =
     \<lparr>list_price = lp, customer_price = lp, quote_discount = money_round discount,
      pricing_reason = reason, floor_reason = ''none'', quote_profile_id = None,
      quote_profile_version = None, quote_hash = context_hash, quote_slug = None,
      quote_name = None, quote_schema = SNAPSHOT_SCHEMA_VERSION\<rparr>"

definition profile_quote ::
  "rat \<Rightarrow> rat \<Rightarrow> rat \<Rightarrow> string \<Rightarrow> string \<Rightarrow> nat \<times> pricing_profile \<Rightarrow> string \<Rightarrow> pricing_quote" where
  "profile_quote lp customer discount reason floor_why profile context_hash =
     \<lparr>list_price = lp, customer_price = customer, quote_discount = discount,
      pricing_reason = reason, floor_reason = floor_why, quote_profile_id = Some (fst profile),
      quote_profile_version = Some (prof_version (snd profile)), quote_hash = context_hash,
      quote_slug = Some (prof_slug (snd profile)), quote_name = Some (prof_name (snd profile)),
      quote_schema = SNAPSHOT_SCHEMA_VERSION\<rparr>"

definition legacy_percent_off_list :: "rat \<Rightarrow> rat \<Rightarrow> rat" where
  "legacy_percent_off_list lp discount = money_round (lp * (100 - discount) / 100)"

definition margin_share_customer :: "rat \<Rightarrow> rat \<Rightarrow> rat \<Rightarrow> rat" where
  "margin_share_customer lp net discount =
     (let margin = max 0 (lp - net) in money_round (net + margin * (100 - discount) / 100))"

definition resolve :: "env \<Rightarrow> pricing_context \<Rightarrow> pricing_quote" where
  "resolve env ctx =
     (let flag_enabled = PRICING_PROFILES_ENABLED env;
          lp = money_round (ctx_list_price ctx);
          at_time = ctx_timestamp ctx;
          profile = (case ctx_profile ctx of
              Some p \<Rightarrow> Some p
            | None \<Rightarrow> (case ctx_account ctx of None \<Rightarrow> None | Some a \<Rightarrow> pa_profile a));
          context_hash = pricing_context_hash env
            (ctx\<lparr>ctx_profile := profile, ctx_list_price := lp\<rparr>) flag_enabled
      in if \<not> flag_enabled then retail_quote lp context_hash 0 ''retail''
         else case profile of
           None \<Rightarrow> retail_quote lp context_hash 0 ''retail''
         | Some p \<Rightarrow>
             if \<not> profile_is_effective (snd p) at_time then retail_quote lp context_hash 0 ''retail''
             else
               (let discount = money_round (discount_percent (snd p))
                in if discount \<le> 0
                   then profile_quote lp lp 0 ''pricing_profile'' ''none'' p context_hash
                   else if prof_floor (snd p) = POLICY_NONE
                   then profile_quote lp (legacy_percent_off_list lp discount) discount
                          ''pricing_profile'' ''discount'' p context_hash
                   else case ctx_net_price ctx of
                     None \<Rightarrow> retail_quote lp context_hash 0 ''retail''
                   | Some net0 \<Rightarrow>
                       (let net = money_round net0
                        in if lp < net then retail_quote lp context_hash 0 ''invalid_margin''
                           else profile_quote lp (margin_share_customer lp net discount) discount
                                  ''pricing_profile'' ''discount'' p context_hash)))"

section \<open>Snapshots\<close>

text \<open>
  The pricing columns that \<^verbatim>\<open>orders.Order\<close> and \<^verbatim>\<open>esims.Topup\<close> share; the charged amount is the
  order's \<open>retail_price_usd\<close> and the top-up's \<open>amount\<close>. Text columns are blank, not null.
\<close>

record pricing_columns =
  col_list_price :: "rat option"
  col_charged :: "rat option"
  col_discount :: "rat option"
  col_reason :: string
  col_floor :: string
  col_profile_id :: "nat option"
  col_profile_version :: "nat option"
  col_slug :: string
  col_name :: string
  col_hash :: string
  col_schema :: "nat option"

definition or_blank :: "string option \<Rightarrow> string" where
  "or_blank s = (case s of None \<Rightarrow> [] | Some t \<Rightarrow> t)"

definition blank_none :: "string \<Rightarrow> string option" where
  "blank_none s = (if s = [] then None else Some s)"

definition quote_to_order_snapshot_kwargs :: "pricing_quote \<Rightarrow> pricing_columns" where
  "quote_to_order_snapshot_kwargs q =
     \<lparr>col_list_price = Some (list_price q), col_charged = Some (customer_price q),
      col_discount = Some (quote_discount q), col_reason = pricing_reason q,
      col_floor = floor_reason q, col_profile_id = quote_profile_id q,
      col_profile_version = quote_profile_version q, col_slug = or_blank (quote_slug q),
      col_name = or_blank (quote_name q), col_hash = quote_hash q, col_schema = Some (quote_schema q)\<rparr>"

definition quote_to_topup_snapshot_kwargs :: "pricing_quote \<Rightarrow> pricing_columns" where
  "quote_to_topup_snapshot_kwargs q =
     \<lparr>col_list_price = Some (list_price q), col_charged = Some (customer_price q),
      col_discount = Some (quote_discount q), col_reason = pricing_reason q,
      col_floor = floor_reason q, col_profile_id = quote_profile_id q,
      col_profile_version = quote_profile_version q, col_slug = or_blank (quote_slug q),
      col_name = or_blank (quote_name q), col_hash = quote_hash q, col_schema = Some (quote_schema q)\<rparr>"

definition quote_from_snapshot ::
  "rat option \<Rightarrow> rat option \<Rightarrow> rat option \<Rightarrow> string \<Rightarrow> string \<Rightarrow> nat option \<Rightarrow> nat option \<Rightarrow>
   string option \<Rightarrow> string option \<Rightarrow> string option \<Rightarrow> nat option \<Rightarrow> exc + pricing_quote" where
  "quote_from_snapshot lp charged discount reason floor_why pid ver slug name hash schema =
     (case (lp, charged) of
        (Some l, Some c) \<Rightarrow>
          (case hash of
             None \<Rightarrow> Inl (EPy ValueError)
           | Some h \<Rightarrow>
               if h = [] then Inl (EPy ValueError)
               else Inr
                 \<lparr>list_price = money_round l, customer_price = money_round c,
                  quote_discount = money_round (case discount of None \<Rightarrow> 0 | Some d \<Rightarrow> d),
                  pricing_reason = (if reason = [] then ''retail'' else reason),
                  floor_reason = (if floor_why = [] then ''none'' else floor_why),
                  quote_profile_id = pid, quote_profile_version = ver, quote_hash = h,
                  quote_slug = (case slug of None \<Rightarrow> None | Some s \<Rightarrow> blank_none s),
                  quote_name = (case name of None \<Rightarrow> None | Some s \<Rightarrow> blank_none s),
                  quote_schema = (case schema of
                      None \<Rightarrow> SNAPSHOT_SCHEMA_VERSION
                    | Some v \<Rightarrow> if v = 0 then SNAPSHOT_SCHEMA_VERSION else v)\<rparr>)
      | _ \<Rightarrow> Inl (EPy ValueError))"

text \<open>\<^verbatim>\<open>quote_from_order\<close> and \<^verbatim>\<open>quote_from_topup\<close> read the columns of the row.\<close>

definition quote_from_order :: "pricing_columns \<Rightarrow> exc + pricing_quote" where
  "quote_from_order c =
     quote_from_snapshot (col_list_price c) (col_charged c) (col_discount c) (col_reason c)
       (col_floor c) (col_profile_id c) (col_profile_version c) (blank_none (col_slug c))
       (blank_none (col_name c)) (blank_none (col_hash c)) (col_schema c)"

definition quote_from_topup :: "pricing_columns \<Rightarrow> exc + pricing_quote" where
  "quote_from_topup c =
     quote_from_snapshot (col_list_price c) (col_charged c) (col_discount c) (col_reason c)
       (col_floor c) (col_profile_id c) (col_profile_version c) (blank_none (col_slug c))
       (blank_none (col_name c)) (blank_none (col_hash c)) (col_schema c)"

section \<open>Charge and display\<close>

text \<open>\<^verbatim>\<open>select_related("pricing_profile").get(pk=account.pk)\<close>.\<close>

definition load_priced_account :: "nat \<Rightarrow> ('x, priced_account) pricing_txn" where
  "load_priced_account a =
     bindE (getsE (\<lambda>db. map_of (accounts db) a)) (\<lambda>row.
     bindE (get_or_raise (EPy ObjectDoesNotExist) row) (\<lambda>acc.
     getsE (\<lambda>db. \<lparr>pa_id = a, pa_profile =
       (case acc_profile acc of
          None \<Rightarrow> None
        | Some p \<Rightarrow> (case map_of (profiles db) p of None \<Rightarrow> None | Some r \<Rightarrow> Some (p, r)))\<rparr>)))"

definition charge_context :: "rat \<Rightarrow> rat option \<Rightarrow> string \<Rightarrow> int \<Rightarrow> priced_account option \<Rightarrow> pricing_context" where
  "charge_context lp net order_type at_time acc =
     \<lparr>ctx_list_price = lp, ctx_net_price = net, ctx_order_type = order_type, ctx_timestamp = at_time,
      ctx_account = acc,
      ctx_profile = (case acc of None \<Rightarrow> None | Some a \<Rightarrow> pa_profile a)\<rparr>"

definition resolve_package_charge ::
  "env \<Rightarrow> nat \<Rightarrow> package \<Rightarrow> ('x, rat \<times> pricing_columns option) pricing_txn" where
  "resolve_package_charge env a p =
     (if \<not> PRICING_PROFILES_ENABLED env then ret (price_usd p, None)
      else
        bindE (load_priced_account a) (\<lambda>acc.
        bindE (getsE clock) (\<lambda>now.
        let q = resolve env (charge_context (price_usd p) (net_price_usd p) ''package'' now (Some acc))
        in ret (customer_price q, Some (quote_to_order_snapshot_kwargs q)))))"

definition resolve_topup_charge ::
  "env \<Rightarrow> nat \<Rightarrow> topup_package \<Rightarrow> ('x, rat \<times> pricing_columns option) pricing_txn" where
  "resolve_topup_charge env a p =
     (if \<not> PRICING_PROFILES_ENABLED env then ret (tp_price_usd p, None)
      else
        bindE (load_priced_account a) (\<lambda>acc.
        bindE (getsE clock) (\<lambda>now.
        let q = resolve env (charge_context (tp_price_usd p) (tp_net_price_usd p) ''topup'' now (Some acc))
        in ret (customer_price q, Some (quote_to_topup_snapshot_kwargs q)))))"

definition resolve_package_quote :: "env \<Rightarrow> package \<Rightarrow> priced_account option \<Rightarrow> int \<Rightarrow> pricing_quote" where
  "resolve_package_quote env p acc at_time =
     resolve env (charge_context (price_usd p) (net_price_usd p) ''package'' at_time acc)"

definition resolve_topup_quote :: "env \<Rightarrow> topup_package \<Rightarrow> priced_account option \<Rightarrow> int \<Rightarrow> pricing_quote" where
  "resolve_topup_quote env p acc at_time =
     resolve env (charge_context (tp_price_usd p) (tp_net_price_usd p) ''topup'' at_time acc)"

definition resolve_preview_quote ::
  "env \<Rightarrow> rat \<Rightarrow> rat option \<Rightarrow> string \<Rightarrow> priced_account option \<Rightarrow> int \<Rightarrow> pricing_quote" where
  "resolve_preview_quote env lp net order_type acc at_time =
     resolve env (charge_context lp net order_type at_time acc)"

definition public_price_dict :: "pricing_quote \<Rightarrow> (string \<times> json) list" where
  "public_price_dict q =
     [(''price_usd'', JNum (customer_price q)), (''list_price_usd'', JNum (list_price q)),
      (''discount_percent'', JNum (quote_discount q)), (''pricing_reason'', JText (pricing_reason q))]"

definition opt_json :: "('a \<Rightarrow> json) \<Rightarrow> 'a option \<Rightarrow> json" where
  "opt_json f v = (case v of None \<Rightarrow> JNull | Some x \<Rightarrow> f x)"

definition internal_preview_dict :: "pricing_quote \<Rightarrow> (string \<times> json) list" where
  "internal_preview_dict q =
     public_price_dict q @
     [(''floor_reason'', JText (floor_reason q)),
      (''pricing_profile_id'', opt_json (\<lambda>i. JText (str_nat i)) (quote_profile_id q)),
      (''pricing_profile_version'', opt_json (\<lambda>v. JNum (of_nat v)) (quote_profile_version q)),
      (''pricing_profile_slug'', opt_json JText (quote_slug q)),
      (''pricing_context_hash'', JText (quote_hash q)),
      (''quote_fingerprint'', JText (fingerprint q)),
      (''snapshot_schema_version'', JNum (of_nat (quote_schema q)))]"

section \<open>Frame\<close>

lemma ledger_ok_pricing [simp]:
  "ledger_ok (db\<lparr>profiles := ps\<rparr>) = ledger_ok db"
  "ledger_ok (db\<lparr>profile_audits := au\<rparr>) = ledger_ok db"
  by (simp_all add: ledger_ok_def entry_ok_def account_ok_def)

lemma keeps_ledger_store_profile [keeps_intros]: "keeps ledger_ok (store_profile pk p)"
  unfolding store_profile_def by (intro keeps_intros) simp

lemma keeps_ledger_save_profile [keeps_intros]: "keeps ledger_ok (save_profile slugify pk p)"
  unfolding save_profile_def Let_def by (intro keeps_intros)

lemma keeps_ledger_archive [keeps_intros]: "keeps ledger_ok (archive pk p t)"
  unfolding archive_def Let_def by (intro keeps_intros)

lemma keeps_ledger_save_optimistic [keeps_intros]: "keeps ledger_ok (save_optimistic pk p v fs)"
  unfolding save_optimistic_def Let_def by (intro keeps_intros)

lemma ledger_ok_map_profile:
  assumes ok: "ledger_ok db" and key: "\<And>r. fst (g r) = fst r"
    and bal: "\<And>r. balance (snd (g r)) = balance (snd r)"
  shows "ledger_ok (db\<lparr>accounts := map g (accounts db)\<rparr>)"
proof (rule ledger_okI)
  let ?db = "db\<lparr>accounts := map g (accounts db)\<rparr>"
  have keys: "fst ` set (accounts ?db) = fst ` set (accounts db)"
    by (simp add: image_image key)
  show "distinct (map fst (accounts ?db))"
    using ledger_okD(1) [OF ok] by (simp add: comp_def key)
  show "entry_ok ?db e" if "e \<in> set (ledger ?db)" for e
    using ledger_okD(5) [OF ok] that keys by (simp add: entry_ok_def)
  show "account_ok ?db r" if r: "r \<in> set (accounts ?db)" for r
  proof -
    obtain r0 where "r0 \<in> set (accounts db)" "r = g r0" using r by auto
    then show ?thesis using ledger_okD(6) [OF ok, of r0] by (simp add: account_ok_def key bal)
  qed
qed (use ledger_okD [OF ok] in simp_all)

lemma keeps_ledger_assign [keeps_intros]: "keeps ledger_ok (assign_pricing_profile ids pr act why)"
  unfolding assign_pricing_profile_def
  by (intro keeps_intros) (auto intro!: ledger_ok_map_profile keeps_intros split: option.splits)

text \<open>Reading the price of a purchase leaves the database alone.\<close>

lemma resolve_charge_reads:
  "resolve_package_charge env a p db = (r, db') \<Longrightarrow> db' = db"
  "resolve_topup_charge env a tp db = (r', db'') \<Longrightarrow> db'' = db"
  by (auto simp: resolve_package_charge_def resolve_topup_charge_def load_priced_account_def
      txn_iff Let_def split: if_splits)

section \<open>Rounded prices\<close>

lemma money_round_grid: "on_grid MONEY_QUANTUM (money_round x)"
  by (simp add: money_round_def cent.quantize_on_grid)

lemma money_round_fix: "on_grid MONEY_QUANTUM x \<Longrightarrow> money_round x = x"
  by (simp add: money_round_def cent.quantize_fixes_grid)

lemma money_round_idem [simp]: "money_round (money_round x) = money_round x"
  by (rule money_round_fix [OF money_round_grid])

lemma money_round_mono: "x \<le> y \<Longrightarrow> money_round x \<le> money_round y"
  by (simp add: money_round_def cent.quantize_mono)

lemma money_round_0 [simp]: "money_round 0 = 0"
  by (rule money_round_fix [OF cent.on_grid_0])

lemma money_round_100: "money_round 100 = 100"
  by (rule money_round_fix) (simp add: on_grid_def MONEY_QUANTUM_def)

lemma money_round_between:
  assumes "lo \<le> x" "x \<le> hi" "on_grid MONEY_QUANTUM lo" "on_grid MONEY_QUANTUM hi"
  shows "lo \<le> money_round x \<and> money_round x \<le> hi"
  using money_round_mono [OF assms(1)] money_round_mono [OF assms(2)] assms(3,4)
  by (simp add: money_round_fix)

lemma margin_share_raw:
  fixes lp net d :: rat
  assumes "net \<le> lp" "0 \<le> d" "d \<le> 100"
  shows "net \<le> net + (lp - net) * (100 - d) / 100" "net + (lp - net) * (100 - d) / 100 \<le> lp"
proof -
  have "0 \<le> (lp - net) * (100 - d)" using assms by simp
  moreover have "(lp - net) * (100 - d) \<le> (lp - net) * 100"
    using assms by (intro mult_left_mono) simp_all
  ultimately have "0 \<le> (lp - net) * (100 - d) / 100" "(lp - net) * (100 - d) / 100 \<le> lp - net"
    by (simp_all add: pos_divide_le_eq)
  then show "net \<le> net + (lp - net) * (100 - d) / 100" "net + (lp - net) * (100 - d) / 100 \<le> lp"
    by linarith+
qed

lemma margin_share_bounds:
  assumes "net \<le> lp" "0 \<le> d" "d \<le> 100" "on_grid MONEY_QUANTUM net" "on_grid MONEY_QUANTUM lp"
  shows "net \<le> margin_share_customer lp net d \<and> margin_share_customer lp net d \<le> lp"
  using money_round_between [OF margin_share_raw [OF assms(1-3)] assms(4,5)] assms(1)
  by (simp add: margin_share_customer_def)

lemma legacy_bounds:
  assumes "0 \<le> lp" "0 \<le> d" "d \<le> 100" "on_grid MONEY_QUANTUM lp"
  shows "0 \<le> legacy_percent_off_list lp d \<and> legacy_percent_off_list lp d \<le> lp"
  using margin_share_raw [of 0 lp d] assms
    money_round_between [of 0 "lp * (100 - d) / 100" lp] cent.on_grid_0
  by (simp add: legacy_percent_off_list_def)

text \<open>Every quote is either retail or recorded under the profile; the four shapes of \<open>resolve\<close>.\<close>

definition context_profile :: "pricing_context \<Rightarrow> (nat \<times> pricing_profile) option" where
  "context_profile ctx = (case ctx_profile ctx of
      Some p \<Rightarrow> Some p
    | None \<Rightarrow> (case ctx_account ctx of None \<Rightarrow> None | Some a \<Rightarrow> pa_profile a))"

lemma resolve_list_price: "list_price (resolve env ctx) = money_round (ctx_list_price ctx)"
  by (auto simp: resolve_def Let_def retail_quote_def profile_quote_def split: option.splits)

lemma resolve_not_effective:
  assumes "\<not> PRICING_PROFILES_ENABLED env \<or>
    (\<forall>p. context_profile ctx = Some p \<longrightarrow> \<not> profile_is_effective (snd p) (ctx_timestamp ctx))"
  shows "customer_price (resolve env ctx) = money_round (ctx_list_price ctx) \<and>
    pricing_reason (resolve env ctx) = ''retail'' \<and> quote_profile_id (resolve env ctx) = None \<and>
    quote_discount (resolve env ctx) = 0"
  using assms
  by (auto simp: resolve_def Let_def retail_quote_def context_profile_def split: option.splits)

lemma resolve_wholesale:
  assumes "PRICING_PROFILES_ENABLED env" "context_profile ctx = Some p"
    and "profile_is_effective (snd p) (ctx_timestamp ctx)"
    and "0 < money_round (discount_percent (snd p))" "prof_floor (snd p) = POLICY_WHOLESALE"
    and "ctx_net_price ctx = Some net" "money_round net \<le> money_round (ctx_list_price ctx)"
  shows "customer_price (resolve env ctx) =
    margin_share_customer (money_round (ctx_list_price ctx)) (money_round net)
      (money_round (discount_percent (snd p)))"
  using assms
  by (auto simp: resolve_def Let_def profile_quote_def context_profile_def split: option.splits)

lemma resolve_cases:
  "customer_price (resolve env ctx) = money_round (ctx_list_price ctx) \<or>
   (\<exists>p. context_profile ctx = Some p \<and> prof_floor (snd p) = POLICY_NONE \<and>
      customer_price (resolve env ctx) = legacy_percent_off_list (money_round (ctx_list_price ctx))
        (money_round (discount_percent (snd p)))) \<or>
   (\<exists>p net. context_profile ctx = Some p \<and> ctx_net_price ctx = Some net \<and>
      money_round net \<le> money_round (ctx_list_price ctx) \<and>
      customer_price (resolve env ctx) = margin_share_customer (money_round (ctx_list_price ctx))
        (money_round net) (money_round (discount_percent (snd p))))"
  by (auto simp: resolve_def Let_def retail_quote_def profile_quote_def context_profile_def
      split: option.splits)


section \<open>Properties\<close>


definition demo_profile :: pricing_profile where
  "demo_profile = \<lparr>prof_name = ''Partner'', prof_slug = ''partner'', discount_percent = 50,
     prof_floor = POLICY_WHOLESALE, prof_version = 3, prof_active = True, effective_from = 0,
     effective_until = None, archived_at = None\<rparr>"

definition demo_context :: pricing_context where
  "demo_context = \<lparr>ctx_list_price = 10, ctx_net_price = Some 7, ctx_order_type = ''package'',
     ctx_timestamp = 1000, ctx_account = None, ctx_profile = Some (4, demo_profile)\<rparr>"


text \<open>A larger discount never gives a larger price: the margin-share price is antitone in the
  discount, equals the list price at 0 and the wholesale price at 100.\<close>

theorem margin_share_antitone:
  assumes "net \<le> lp" "d \<le> d'" "on_grid MONEY_QUANTUM net" "on_grid MONEY_QUANTUM lp"
  shows "margin_share_customer lp net d' \<le> margin_share_customer lp net d \<and>
    margin_share_customer lp net 0 = lp \<and> margin_share_customer lp net 100 = net"
proof -
  have "(lp - net) * (100 - d') \<le> (lp - net) * (100 - d)"
    using assms by (intro mult_left_mono) simp_all
  then have "net + (lp - net) * (100 - d') / 100 \<le> net + (lp - net) * (100 - d) / 100"
    by (intro add_left_mono divide_right_mono) simp_all
  then show ?thesis
    using assms money_round_mono by (simp add: margin_share_customer_def money_round_fix)
qed

theorem margin_share_antitone_witness:
  "margin_share_customer 10 7 50 \<le> margin_share_customer 10 7 20 \<and>
   margin_share_customer 10 7 0 = 10 \<and> margin_share_customer 10 7 100 = 7"
  using margin_share_antitone [of 7 10 20 50] by (simp add: on_grid_def MONEY_QUANTUM_def)

text \<open>An archived, inactive, not yet effective or expired profile has no effect: the quote is the
  rounded list price, with reason retail, no discount and no profile recorded.\<close>

theorem resolve_ignores_ineffective_profile:
  assumes "context_profile ctx = Some p"
    and "archived_at (snd p) \<noteq> None \<or> \<not> prof_active (snd p) \<or> ctx_timestamp ctx < effective_from (snd p) \<or>
      (\<exists>u. effective_until (snd p) = Some u \<and> u \<le> ctx_timestamp ctx)"
  shows "customer_price (resolve env ctx) = money_round (ctx_list_price ctx) \<and>
    pricing_reason (resolve env ctx) = ''retail'' \<and> quote_profile_id (resolve env ctx) = None \<and>
    quote_discount (resolve env ctx) = 0"
proof (rule resolve_not_effective)
  have "\<not> profile_is_effective (snd p) (ctx_timestamp ctx)"
    using assms(2) by (auto simp: profile_is_effective_def)
  then show "\<not> PRICING_PROFILES_ENABLED env \<or>
      (\<forall>p. context_profile ctx = Some p \<longrightarrow> \<not> profile_is_effective (snd p) (ctx_timestamp ctx))"
    using assms(1) by simp
qed

theorem resolve_ignores_ineffective_profile_witness:
  "customer_price (resolve demo_env
     (demo_context\<lparr>ctx_profile := Some (4, demo_profile\<lparr>archived_at := Some 900\<rparr>)\<rparr>)) = money_round 10"
  using resolve_ignores_ineffective_profile [of
      "demo_context\<lparr>ctx_profile := Some (4, demo_profile\<lparr>archived_at := Some 900\<rparr>)\<rparr>"
      "(4, demo_profile\<lparr>archived_at := Some 900\<rparr>)" demo_env]
  by (simp add: demo_context_def context_profile_def)


definition demo_package :: package where
  "demo_package = \<lparr>pkg_id = 5, pkg_external_id = ''kallur-7'', pkg_title = ''1 GB'',
     pkg_operator_title = ''Kallur'', pkg_country_code = ''HR'', pkg_location = None,
     pkg_data_allowance = ''1 GB'', pkg_validity_days = 7, price_usd = 10, net_price_usd = Some 7,
     pkg_activation_policy = ''first_usage''\<rparr>"

definition demo_topup_package :: topup_package where
  "demo_topup_package = \<lparr>tp_external_id = ''topup-7'', tp_title = ''1 GB'', tp_data_allowance = ''1 GB'',
     tp_validity_days = 7, tp_price_usd = 10, tp_net_price_usd = Some 7, tp_is_unlimited = False,
     tp_plan_type = ''data''\<rparr>"

definition demo_pricing_db :: pricing_db where
  "demo_pricing_db = credit_db.extend demo_db \<lparr>profiles = [(4, demo_profile)], profile_audits = []\<rparr>"


text \<open>A quote whose prices have two places, copied onto the columns of an order or a top-up, is
  read back unchanged. Blank text columns stand for null, so its own texts must not be blank.\<close>

definition snapshot_ready :: "pricing_quote \<Rightarrow> bool" where
  "snapshot_ready q \<longleftrightarrow>
     on_grid MONEY_QUANTUM (list_price q) \<and> on_grid MONEY_QUANTUM (customer_price q) \<and>
     on_grid MONEY_QUANTUM (quote_discount q) \<and> pricing_reason q \<noteq> [] \<and> floor_reason q \<noteq> [] \<and>
     quote_hash q \<noteq> [] \<and> quote_slug q \<noteq> Some [] \<and> quote_name q \<noteq> Some [] \<and> quote_schema q \<noteq> 0"

lemma snapshot_roundtrip_ready:
  assumes "snapshot_ready q"
  shows "quote_from_order (quote_to_order_snapshot_kwargs q) = Inr q"
    and "quote_from_topup (quote_to_topup_snapshot_kwargs q) = Inr q"
  using assms
  by (auto simp: quote_from_order_def quote_from_topup_def quote_from_snapshot_def snapshot_ready_def
      quote_to_order_snapshot_kwargs_def quote_to_topup_snapshot_kwargs_def or_blank_def
      blank_none_def money_round_fix split: option.splits)

lemma resolve_snapshot_ready:
  assumes "\<And>s. sha256_hex env s \<noteq> []"
    and "\<And>p. context_profile ctx = Some p \<Longrightarrow> prof_slug (snd p) \<noteq> [] \<and> prof_name (snd p) \<noteq> []"
  shows "snapshot_ready (resolve env ctx)"
proof -
  have h: "pricing_context_hash env c f \<noteq> []" for c f
    using assms(1) by (simp add: pricing_context_hash_def)
  show ?thesis
    using assms(2) h
    by (auto simp: snapshot_ready_def resolve_def Let_def retail_quote_def profile_quote_def
        context_profile_def money_round_grid cent.on_grid_0 SNAPSHOT_SCHEMA_VERSION_def
        margin_share_customer_def legacy_percent_off_list_def split: option.splits)
qed

text \<open>The snapshot of a resolved quote, written to the columns of an order or of a top-up, reads
  back as the same quote, so a replay or a refund sees the price that was charged. SHA-256 digests
  are not empty, and slug and name are required columns of a profile.\<close>

theorem snapshot_roundtrip:
  assumes "\<And>s. sha256_hex env s \<noteq> []"
    and "\<And>p. context_profile ctx = Some p \<Longrightarrow> prof_slug (snd p) \<noteq> [] \<and> prof_name (snd p) \<noteq> []"
  shows "quote_from_order (quote_to_order_snapshot_kwargs (resolve env ctx)) = Inr (resolve env ctx) \<and>
    quote_from_topup (quote_to_topup_snapshot_kwargs (resolve env ctx)) = Inr (resolve env ctx)"
  using snapshot_roundtrip_ready [OF resolve_snapshot_ready [OF assms]] by blast

theorem snapshot_roundtrip_witness:
  "quote_from_order (quote_to_order_snapshot_kwargs (resolve demo_env demo_context)) =
     Inr (resolve demo_env demo_context)"
  using snapshot_roundtrip [of demo_env demo_context]
  by (simp add: demo_env_def demo_context_def demo_profile_def context_profile_def)

lemma store_profile_Inr:
  "store_profile pk p db = (Inr q, db') \<Longrightarrow>
     q = p \<and> db' = db\<lparr>profiles := AList.update pk p (profiles db)\<rparr> \<and> profile_constraints pk p (profiles db)"
  by (auto simp: store_profile_def txn_iff split: if_splits)

text \<open>Optimistic locking: of two writers that read the same version of a profile, the second
  updates nothing once the first has changed a material field; the stored version has moved on by
  one.\<close>

theorem save_optimistic_one_winner:
  assumes "save_optimistic pk self expected fs db = (Inr (True, mem), db1)" "material_fields fs"
  shows "(\<exists>row. map_of (profiles db1) pk = Some row \<and> prof_version row = expected + 1) \<and>
    (\<exists>mem'. save_optimistic pk self' expected fs' db1 = (Inr (False, mem'), db1))"
proof -
  obtain row where row: "map_of (profiles db1) pk = Some row" "prof_version row = expected + 1"
    using assms
    by (auto simp: save_optimistic_def Let_def txn_iff dest!: store_profile_Inr
        split: option.splits if_splits)
  then show ?thesis by (simp add: save_optimistic_def Let_def bindE_def getsE_def ret_def)
qed

theorem save_optimistic_one_winner_witness:
  "\<exists>mem db1. save_optimistic 4 (demo_profile\<lparr>discount_percent := 20\<rparr>) 3 [F_discount_percent] demo_pricing_db =
       (Inr (True, mem), db1) \<and>
     (\<exists>mem'. save_optimistic 4 (demo_profile\<lparr>discount_percent := 30\<rparr>) 3 [F_discount_percent] db1 =
       (Inr (False, mem'), db1))"
proof -
  have "\<exists>mem db1. save_optimistic 4 (demo_profile\<lparr>discount_percent := 20\<rparr>) 3 [F_discount_percent]
      demo_pricing_db = (Inr (True, mem), db1)"
    by (simp add: save_optimistic_def store_profile_def txn_defs Let_def demo_pricing_db_def
        demo_db_def demo_profile_def credit_db.defs profile_constraints_def material_fields_def)
  then show ?thesis using save_optimistic_one_winner by (fastforce simp: material_fields_def)
qed

text \<open>Bulk assignment refuses more than 100 accounts and an archived profile, and otherwise
  points exactly the listed accounts at the profile; no balance changes.\<close>

theorem assign_profile_exact:
  assumes "assign_pricing_profile ids pr actor why db = (Inr n, db')"
  shows "length ids \<le> 100 \<and>
    (\<forall>p. pr = Some p \<longrightarrow> (\<exists>row. map_of (profiles db) p = Some row \<and> archived_at row = None)) \<and>
    (\<forall>a. map_of (accounts db') a = map_option (\<lambda>r. if a \<in> set ids then r\<lparr>acc_profile := pr\<rparr> else r)
       (map_of (accounts db) a)) \<and> ledger db' = ledger db"
proof -
  have mp: "map_of (map (\<lambda>(k, r). (k, if k \<in> set ids then r\<lparr>acc_profile := v\<rparr> else r)) t) a =
      map_option (\<lambda>r. if a \<in> set ids then r\<lparr>acc_profile := v\<rparr> else r) (map_of t a)" for t a v
    by (induction t) auto
  show ?thesis
    using assms
    by (auto simp: assign_pricing_profile_def txn_iff mp split: if_splits option.splits prod.splits)
qed

theorem assign_profile_exact_witness:
  "\<exists>n db'. assign_pricing_profile [1] (Some 4) None ''x'' demo_pricing_db = (Inr n, db') \<and>
     map_option acc_profile (map_of (accounts db') 1) = Some (Some 4)"
proof -
  have "\<exists>n db'. assign_pricing_profile [1] (Some 4) None ''x'' demo_pricing_db = (Inr n, db')"
    by (simp add: assign_pricing_profile_def txn_defs demo_pricing_db_def demo_db_def demo_profile_def
        credit_db.defs)
  then show ?thesis
    using assign_profile_exact by (fastforce simp: demo_pricing_db_def demo_db_def credit_db.defs)
qed

end
