(* ===== verification/Text.thy ===== *)
theory Text
  imports Prelude
begin

text \<open>
  Python's \<^verbatim>\<open>str.strip\<close>, \<^verbatim>\<open>upper\<close>, \<^verbatim>\<open>lower\<close> and \<^verbatim>\<open>startswith\<close> on ASCII text, with the facts the
  normalizers of voucher codes and transaction hashes need.
\<close>

definition is_space :: "char \<Rightarrow> bool" where
  "is_space c \<longleftrightarrow> (let n = (of_char c :: nat) in 9 \<le> n \<and> n \<le> 13 \<or> 28 \<le> n \<and> n \<le> 32)"

definition strip :: "string \<Rightarrow> string" where
  "strip s = rev (dropWhile is_space (rev (dropWhile is_space s)))"

definition upper_char :: "char \<Rightarrow> char" where
  "upper_char c = (let n = (of_char c :: nat) in if 97 \<le> n \<and> n \<le> 122 then char_of (n - 32) else c)"

definition lower_char :: "char \<Rightarrow> char" where
  "lower_char c = (let n = (of_char c :: nat) in if 65 \<le> n \<and> n \<le> 90 then char_of (n + 32) else c)"

definition upper :: "string \<Rightarrow> string" where
  "upper s = map upper_char s"

definition lower :: "string \<Rightarrow> string" where
  "lower s = map lower_char s"

definition starts_with :: "string \<Rightarrow> string \<Rightarrow> bool" where
  "starts_with p s \<longleftrightarrow> take (length p) s = p"

definition ascii :: "string \<Rightarrow> bool" where
  "ascii s \<longleftrightarrow> (\<forall>c \<in> set s. (of_char c :: nat) < 128)"

lemma of_upper_char: "of_char (upper_char c) = (let n = (of_char c :: nat) in if 97 \<le> n \<and> n \<le> 122 then n - 32 else n)"
proof -
  have "(of_char c :: nat) < 256" by simp
  then show ?thesis by (auto simp: upper_char_def Let_def)
qed

lemma of_lower_char: "of_char (lower_char c) = (let n = (of_char c :: nat) in if 65 \<le> n \<and> n \<le> 90 then n + 32 else n)"
proof -
  have "(of_char c :: nat) < 256" by simp
  then show ?thesis by (auto simp: lower_char_def Let_def)
qed

lemma char_eqI: "(of_char a :: nat) = of_char b \<Longrightarrow> a = b"
  by (metis char_of_char)

lemma upper_char_idem [simp]: "upper_char (upper_char c) = upper_char c"
  by (rule char_eqI) (auto simp: of_upper_char Let_def)

lemma lower_char_idem [simp]: "lower_char (lower_char c) = lower_char c"
  by (rule char_eqI) (auto simp: of_lower_char Let_def)

lemma upper_lower_char [simp]: "upper_char (lower_char c) = upper_char c"
  by (rule char_eqI) (auto simp: of_upper_char of_lower_char Let_def)

lemma is_space_upper [simp]: "is_space (upper_char c) = is_space c"
  by (auto simp: is_space_def of_upper_char Let_def)

lemma is_space_lower [simp]: "is_space (lower_char c) = is_space c"
  by (auto simp: is_space_def of_lower_char Let_def)

lemma upper_idem [simp]: "upper (upper s) = upper s"
  by (simp add: upper_def)

lemma lower_idem [simp]: "lower (lower s) = lower s"
  by (simp add: lower_def)

lemma upper_lower [simp]: "upper (lower s) = upper s"
  by (simp add: upper_def lower_def)

lemma dropWhile_map_space:
  "(\<And>c. is_space (f c) = is_space c) \<Longrightarrow> dropWhile is_space (map f s) = map f (dropWhile is_space s)"
  by (induction s) auto

lemma strip_map:
  assumes "\<And>c. is_space (f c) = is_space c"
  shows "strip (map f s) = map f (strip s)"
  by (simp add: strip_def dropWhile_map_space [OF assms] rev_map)

lemma strip_upper: "strip (upper s) = upper (strip s)"
  by (simp add: upper_def strip_map)

lemma strip_lower: "strip (lower s) = lower (strip s)"
  by (simp add: lower_def strip_map)

lemma dropWhile_idem: "dropWhile P (dropWhile P s) = dropWhile P s"
  by (induction s) auto

lemma dropWhile_rev_commute:
  "dropWhile P (rev (dropWhile P (rev (dropWhile P s)))) = rev (dropWhile P (rev (dropWhile P s)))"
proof (cases "dropWhile P s")
  case (Cons c t)
  then have "\<not> P c" by (metis hd_dropWhile list.distinct(1) list.sel(1))
  then have "rev (dropWhile P (rev t @ [c])) = c # rev (dropWhile P (rev t))"
    by (induction t rule: rev_induct) auto
  then show ?thesis using Cons \<open>\<not> P c\<close> by simp
next
  case Nil
  show ?thesis unfolding Nil by simp
qed

lemma strip_idem [simp]: "strip (strip s) = strip s"
  unfolding strip_def
  by (simp add: dropWhile_rev_commute dropWhile_idem)

lemma set_strip: "set (strip s) \<subseteq> set s"
  unfolding strip_def by (metis set_dropWhileD set_rev subsetI)

lemma ascii_strip: "ascii s \<Longrightarrow> ascii (strip s)"
  using set_strip by (auto simp: ascii_def)

lemma ascii_upper: "ascii s \<Longrightarrow> ascii (upper s)"
  by (auto simp: ascii_def upper_def of_upper_char Let_def)

lemma ascii_lower: "ascii (lower s) = ascii s"
  by (auto simp: ascii_def lower_def of_lower_char Let_def)

section \<open>Numerals\<close>

text \<open>
  \<^verbatim>\<open>int(text, 16)\<close> and \<^verbatim>\<open>int(text)\<close> on stripped, lower-case text: digits with single
  underscores between them (after a base prefix also in front), \<open>None\<close> where Python raises
  \<open>ValueError\<close>.
\<close>

definition digit_val :: "char \<Rightarrow> nat option" where
  "digit_val c = (let n = (of_char c :: nat) in
     if 48 \<le> n \<and> n \<le> 57 then Some (n - 48) else if 97 \<le> n \<and> n \<le> 122 then Some (n - 87) else None)"

definition is_digit :: "nat \<Rightarrow> char \<Rightarrow> bool" where
  "is_digit b c = (case digit_val c of None \<Rightarrow> False | Some v \<Rightarrow> v < b)"

fun read_digits :: "nat \<Rightarrow> nat \<Rightarrow> string \<Rightarrow> nat option" where
  "read_digits b acc [] = Some acc"
| "read_digits b acc (c # cs) =
     (if c = CHR ''_'' then (if cs \<noteq> [] \<and> is_digit b (hd cs) then read_digits b acc cs else None)
      else if is_digit b c then read_digits b (acc * b + the (digit_val c)) cs else None)"

definition py_int_hex :: "string \<Rightarrow> int option" where
  "py_int_hex text =
     (let rest = drop 2 text in if rest = [] then None else map_option int (read_digits 16 0 rest))"

definition py_int_dec :: "string \<Rightarrow> int option" where
  "py_int_dec text =
     (let negative = (text \<noteq> [] \<and> hd text = CHR ''-'');
          rest = (if text \<noteq> [] \<and> hd text \<in> {CHR ''-'', CHR ''+''} then tl text else text)
      in if rest = [] \<or> hd rest = CHR ''_'' then None
         else map_option (\<lambda>n. if negative then - int n else int n) (read_digits 10 0 rest))"

text \<open>\<^verbatim>\<open>str.zfill\<close>: zeros go after a leading sign.\<close>

definition zfill :: "nat \<Rightarrow> string \<Rightarrow> string" where
  "zfill n s = (if n \<le> length s then s
     else if s \<noteq> [] \<and> hd s \<in> {CHR ''-'', CHR ''+''} then hd s # replicate (n - length s) (CHR ''0'') @ tl s
     else replicate (n - length s) (CHR ''0'') @ s)"

lemma length_zfill: "length (zfill n s) = max n (length s)"
  by (cases s) (auto simp: zfill_def)

fun split_on :: "char \<Rightarrow> string \<Rightarrow> string list" where
  "split_on d [] = [[]]"
| "split_on d (c # cs) = (if c = d then [] # split_on d cs
     else case split_on d cs of [] \<Rightarrow> [[c]] | w # ws \<Rightarrow> (c # w) # ws)"

end
