(* ===== verification/Vouchers.thy ===== *)
theory Vouchers
  imports Pricing Text
begin

text \<open>
  Credit vouchers: \<^verbatim>\<open>billing/voucher_codes.py\<close>, the voucher models of \<^verbatim>\<open>billing/models.py\<close> and
  \<^verbatim>\<open>billing/services/voucher_redeem.py\<close>. \<open>voucher_db\<close> adds the voucher, campaign and redemption
  tables. A redeem takes the lock on the voucher or the campaign for its whole transaction, so
  one call is one step.
\<close>

section \<open>Data\<close>

datatype redemption_mode = SHARED | UNIQUE
datatype voucher_type = PROMO | GIFT | ADMIN | PARTNER
datatype reward_type = FIXED_CREDIT | PERCENT_BONUS | FREE_SUBSCRIPTION | FREE_TOPUP
datatype voucher_status = VCreated | VActive | VRedeemed | VExpired | VRevoked
datatype campaign_status = CDraft | CActive | CExpired | CRevoked
datatype issuer_type = SystemIssuer | AdminIssuer | PartnerIssuer | ApiIssuer

record voucher =
  vch_code :: string
  vch_mode :: redemption_mode
  vch_type :: voucher_type
  vch_reward :: reward_type
  vch_amount :: rat
  vch_campaign :: "nat option"
  vch_batch :: "nat option"
  vch_status :: voucher_status
  vch_expires :: "int option"
  vch_reason :: string
  vch_issuer :: issuer_type
  vch_issued_by :: string
  vch_revoked :: "int option"
  vch_revoked_by :: string
  vch_created :: int
  vch_updated :: int

record campaign =
  cmp_code :: "string option"
  cmp_mode :: redemption_mode
  cmp_type :: voucher_type
  cmp_reward :: reward_type
  cmp_amount :: rat
  max_total :: "nat option"
  max_per_account :: "nat option"
  starts_at :: "int option"
  cmp_expires :: "int option"
  cmp_status :: campaign_status
  cmp_reason :: string
  cmp_issuer :: issuer_type
  cmp_issued_by :: string
  cmp_revoked :: "int option"
  cmp_revoked_by :: string
  cmp_created :: int
  cmp_updated :: int

record redemption =
  red_account :: nat
  red_voucher :: "nat option"
  red_campaign :: "nat option"
  red_amount :: rat
  red_entry :: "nat option"
  red_request :: string
  redeemed_at :: int
  red_ip :: string
  red_agent :: string

record voucher_db = pricing_db +
  vouchers :: "(nat \<times> voucher) list"
  campaigns :: "(nat \<times> campaign) list"
  redemptions :: "(nat \<times> redemption) list"

type_synonym ('x, 'a) voucher_txn = "('x voucher_db_scheme, 'a) txn"

section \<open>Codes\<close>

definition RESERVED_VOUCHER_CODES :: "string list" where
  "RESERVED_VOUCHER_CODES = [''ADMIN'', ''TEST'', ''FREE'', ''DEMO'', ''NULL'', ''SYSTEM'']"

definition normalize_voucher_code :: "env \<Rightarrow> string \<Rightarrow> string" where
  "normalize_voucher_code env raw = upper (strip (nfkc env raw))"

definition is_reserved_voucher_code :: "env \<Rightarrow> string \<Rightarrow> bool" where
  "is_reserved_voucher_code env code =
     (let normalized = normalize_voucher_code env code
      in if normalized = [] then False else normalized \<in> set RESERVED_VOUCHER_CODES)"

definition assert_code_available ::
  "env \<Rightarrow> string \<Rightarrow> nat option \<Rightarrow> nat option \<Rightarrow> ('x, string) voucher_txn" where
  "assert_code_available env code exclude_voucher exclude_campaign =
     (let normalized = normalize_voucher_code env code
      in if normalized = [] then raiseE (EPy ValueError)
         else if is_reserved_voucher_code env normalized then raiseE (EPy ValueError)
         else
           bindE (getsE (\<lambda>db. \<exists>r \<in> set (vouchers db).
               vch_code (snd r) = normalized \<and> exclude_voucher \<noteq> Some (fst r))) (\<lambda>taken.
           if taken then raiseE (EPy ValueError)
           else
             bindE (getsE (\<lambda>db. \<exists>r \<in> set (campaigns db).
                 cmp_code (snd r) = Some normalized \<and> exclude_campaign \<noteq> Some (fst r))) (\<lambda>taken'.
             if taken' then raiseE (EPy ValueError) else ret normalized)))"

definition issue_shared_campaign ::
  "env \<Rightarrow> string \<Rightarrow> rat \<Rightarrow> nat option \<Rightarrow> nat option \<Rightarrow> campaign_status \<Rightarrow> voucher_type \<Rightarrow>
   int option \<Rightarrow> int option \<Rightarrow> ('x, nat) voucher_txn" where
  "issue_shared_campaign env code amount total_cap per_account status vtype starts expires =
     bindE (assert_code_available env code None None) (\<lambda>normalized.
     bindE (liftE (numeric_20_6 amount)) (\<lambda>stored.
     if 64 < length normalized then raiseE (EPy DataError)
     else if stored \<le> 0 \<or> total_cap = Some 0 \<or> per_account = Some 0 then raiseE (EPy IntegrityError)
     else
       bindE uuid4 (\<lambda>pk.
       thenE (modifyE (\<lambda>db. db\<lparr>campaigns := AList.update pk
           \<lparr>cmp_code = Some normalized, cmp_mode = SHARED, cmp_type = vtype, cmp_reward = FIXED_CREDIT,
            cmp_amount = stored, max_total = total_cap, max_per_account = per_account, starts_at = starts,
            cmp_expires = expires, cmp_status = status, cmp_reason = [], cmp_issuer = SystemIssuer,
            cmp_issued_by = [], cmp_revoked = None, cmp_revoked_by = [], cmp_created = clock db,
            cmp_updated = clock db\<rparr> (campaigns db)\<rparr>))
         (ret pk))))"

definition issue_unique_voucher ::
  "env \<Rightarrow> string \<Rightarrow> rat \<Rightarrow> voucher_status \<Rightarrow> voucher_type \<Rightarrow> int option \<Rightarrow> nat option \<Rightarrow> nat option \<Rightarrow>
   ('x, nat) voucher_txn" where
  "issue_unique_voucher env code amount status vtype expires camp batch =
     bindE (assert_code_available env code None None) (\<lambda>normalized.
     bindE (liftE (numeric_20_6 amount)) (\<lambda>stored.
     if 64 < length normalized then raiseE (EPy DataError)
     else if stored \<le> 0 then raiseE (EPy IntegrityError)
     else
       bindE uuid4 (\<lambda>pk.
       thenE (modifyE (\<lambda>db. db\<lparr>vouchers := AList.update pk
           \<lparr>vch_code = normalized, vch_mode = UNIQUE, vch_type = vtype, vch_reward = FIXED_CREDIT,
            vch_amount = stored, vch_campaign = camp, vch_batch = batch, vch_status = status,
            vch_expires = expires, vch_reason = [], vch_issuer = SystemIssuer, vch_issued_by = [],
            vch_revoked = None, vch_revoked_by = [], vch_created = clock db,
            vch_updated = clock db\<rparr> (vouchers db)\<rparr>))
         (ret pk))))"

section \<open>VoucherRedeemService\<close>

record redeem_result =
  credited :: rat
  res_balance :: rat
  redemption_id :: string
  ledger_entry_id :: string
  res_request :: string
  replay :: bool

definition credit_amount_for_reward :: "reward_type \<Rightarrow> rat \<Rightarrow> exc + rat" where
  "credit_amount_for_reward rw amount =
     (if rw = FIXED_CREDIT then Inr amount else Inl (EVoucher UnsupportedRewardType))"

definition require_vouchers_enabled :: "env \<Rightarrow> ('s, unit) txn" where
  "require_vouchers_enabled env =
     guardE (BILLING_ENABLED env \<and> VOUCHERS_ENABLED env) (EVoucher VouchersDisabledError)"

text \<open>\<^verbatim>\<open>.order_by("redeemed_at").first()\<close>\<close>

definition earliest :: "(nat \<times> redemption) list \<Rightarrow> (nat \<times> redemption) option" where
  "earliest rs = (case sort_key (\<lambda>r. redeemed_at (snd r)) rs of [] \<Rightarrow> None | r # _ \<Rightarrow> Some r)"

definition entry_text :: "nat option \<Rightarrow> string" where
  "entry_text e = (case e of None \<Rightarrow> [] | Some n \<Rightarrow> str_nat n)"

text \<open>The answer to a repeated redeem: the first redemption and the account's current balance.\<close>

definition replay_result ::
  "nat \<Rightarrow> string \<Rightarrow> nat \<times> redemption \<Rightarrow> ('x, redeem_result \<times> event list) voucher_txn" where
  "replay_result a rid r =
     bindE (getsE (\<lambda>db. map_of (accounts db) a)) (\<lambda>row.
     bindE (get_or_raise (EPy ObjectDoesNotExist) row) (\<lambda>account.
     ret (\<lparr>credited = red_amount (snd r), res_balance = balance account,
           redemption_id = str_nat (fst r), ledger_entry_id = entry_text (red_entry (snd r)),
           res_request = (if red_request (snd r) = [] then rid else red_request (snd r)),
           replay = True\<rparr>, [])))"

definition new_redemption ::
  "nat \<Rightarrow> rat \<Rightarrow> nat option \<Rightarrow> nat option \<Rightarrow> string \<Rightarrow> string \<Rightarrow> string \<Rightarrow> int \<Rightarrow> redemption" where
  "new_redemption a amount v c rid ip ua now =
     \<lparr>red_account = a, red_voucher = v, red_campaign = c, red_amount = amount, red_entry = None,
      red_request = rid, redeemed_at = now, red_ip = take 64 ip, red_agent = take 512 ua\<rparr>"

definition save_redemption :: "nat \<Rightarrow> redemption \<Rightarrow> ('x, unit) voucher_txn" where
  "save_redemption pk r =
     (if 64 < length (red_request r) then raiseE (EPy DataError)
      else if red_amount r \<le> 0 \<or> (red_voucher r = None) = (red_campaign r = None)
      then raiseE (EPy IntegrityError)
      else modifyE (\<lambda>db. db\<lparr>redemptions := AList.update pk r (redemptions db)\<rparr>))"

definition save_voucher_status :: "nat \<Rightarrow> voucher_status \<Rightarrow> ('x, unit) voucher_txn" where
  "save_voucher_status v st = modifyE (\<lambda>db. db\<lparr>vouchers :=
     map (\<lambda>(k, r). (k, if k = v then r\<lparr>vch_status := st, vch_updated := clock db\<rparr> else r)) (vouchers db)\<rparr>)"

definition grant_redemption ::
  "nat \<Rightarrow> rat \<Rightarrow> nat option \<Rightarrow> nat option \<Rightarrow> string \<Rightarrow> string \<Rightarrow> string \<Rightarrow> int \<Rightarrow> nat option \<Rightarrow>
   ('x, redeem_result \<times> event list) voucher_txn" where
  "grant_redemption a amount v c rid ip ua now mark =
     bindE uuid4 (\<lambda>pk.
     let red = new_redemption a amount v c rid ip ua now
     in thenE (save_redemption pk red)
       (bindE (credit a (DecimalArg (Finite amount)) (RefEnum VOUCHER) (str_nat pk)
                 (''voucher_redeem:'' @ str_nat pk)) (\<lambda>entry.
        thenE (save_redemption pk (red\<lparr>red_entry := Some (entry_id entry)\<rparr>))
       (thenE (case mark of None \<Rightarrow> ret () | Some m \<Rightarrow> save_voucher_status m VRedeemed)
       (ret (\<lparr>credited = amount, res_balance = balance_after entry, redemption_id = str_nat pk,
              ledger_entry_id = str_nat (entry_id entry), res_request = rid, replay = False\<rparr>,
             [VoucherRedeemed (map_option str_nat v) (map_option str_nat c) (str_nat pk) (str_nat a)
                amount (balance_after entry) (str_nat (entry_id entry)) rid now,
              CreditGranted (str_nat a) amount (balance_after entry) (reference_value VOUCHER)
                (str_nat pk) (str_nat (entry_id entry)) (entry_created_at entry)]))))))"

definition redeem_unique ::
  "nat \<Rightarrow> nat \<times> voucher \<Rightarrow> string \<Rightarrow> string \<Rightarrow> string \<Rightarrow> ('x, redeem_result \<times> event list) voucher_txn" where
  "redeem_unique a vch rid ip ua =
     (let v = fst vch; row = snd vch
      in if vch_status row = VRedeemed
         then bindE (getsE (\<lambda>db. earliest (filter (\<lambda>r. red_voucher (snd r) = Some v \<and> red_account (snd r) = a)
                              (redemptions db)))) (\<lambda>existing.
              case existing of
                Some r \<Rightarrow> replay_result a rid r
              | None \<Rightarrow> raiseE (EVoucher VoucherInvalidError))
         else if vch_status row = VRevoked then raiseE (EVoucher VoucherRevokedError)
         else if vch_status row = VExpired then raiseE (EVoucher VoucherExpiredError)
         else if vch_status row \<noteq> VActive then raiseE (EVoucher VoucherInvalidError)
         else
           bindE (getsE clock) (\<lambda>now.
           if (case vch_expires row of None \<Rightarrow> False | Some t \<Rightarrow> t \<le> now)
           then raiseE (EVoucher VoucherExpiredError)
           else
             bindE (liftE (credit_amount_for_reward (vch_reward row) (vch_amount row))) (\<lambda>amount.
             grant_redemption a amount (Some v) None rid ip ua now (Some v))))"

definition campaign_uses :: "nat \<Rightarrow> (nat \<times> redemption) list \<Rightarrow> nat" where
  "campaign_uses c rs = length (filter (\<lambda>r. red_campaign (snd r) = Some c) rs)"

definition campaign_uses_by :: "nat \<Rightarrow> nat \<Rightarrow> (nat \<times> redemption) list \<Rightarrow> nat" where
  "campaign_uses_by c a rs =
     length (filter (\<lambda>r. red_campaign (snd r) = Some c \<and> red_account (snd r) = a) rs)"

definition redeem_shared ::
  "nat \<Rightarrow> nat \<times> campaign \<Rightarrow> string \<Rightarrow> string \<Rightarrow> string \<Rightarrow> ('x, redeem_result \<times> event list) voucher_txn" where
  "redeem_shared a cmp rid ip ua =
     (let c = fst cmp; row = snd cmp
      in if cmp_status row = CRevoked then raiseE (EVoucher VoucherRevokedError)
         else if cmp_status row = CExpired then raiseE (EVoucher VoucherExpiredError)
         else if cmp_status row \<noteq> CActive then raiseE (EVoucher VoucherInvalidError)
         else
           bindE (getsE clock) (\<lambda>now.
           if (case starts_at row of None \<Rightarrow> False | Some t \<Rightarrow> now < t)
           then raiseE (EVoucher VoucherInvalidError)
           else if (case cmp_expires row of None \<Rightarrow> False | Some t \<Rightarrow> t \<le> now)
           then raiseE (EVoucher VoucherExpiredError)
           else
             bindE (getsE redemptions) (\<lambda>rs.
             let prior = earliest (filter (\<lambda>r. red_campaign (snd r) = Some c \<and> red_account (snd r) = a) rs);
                 at_account_limit = (case max_per_account row of
                     None \<Rightarrow> False | Some m \<Rightarrow> m \<le> campaign_uses_by c a rs);
                 at_total_limit = (case max_total row of
                     None \<Rightarrow> False | Some m \<Rightarrow> m \<le> campaign_uses c rs)
             in if at_account_limit
                then (case prior of
                        Some r \<Rightarrow> if max_per_account row = Some 1 then replay_result a rid r
                                   else raiseE (EVoucher VoucherLimitError)
                      | None \<Rightarrow> raiseE (EVoucher VoucherLimitError))
                else if at_total_limit then raiseE (EVoucher VoucherLimitError)
                else
                  bindE (liftE (credit_amount_for_reward (cmp_reward row) (cmp_amount row))) (\<lambda>amount.
                  grant_redemption a amount None (Some c) rid ip ua now None))))"

definition find_unique :: "string \<Rightarrow> (nat \<times> voucher) list \<Rightarrow> (nat \<times> voucher) option" where
  "find_unique code rows = find (\<lambda>r. vch_code (snd r) = code \<and> vch_mode (snd r) = UNIQUE) rows"

definition find_shared :: "string \<Rightarrow> (nat \<times> campaign) list \<Rightarrow> (nat \<times> campaign) option" where
  "find_shared code rows = find (\<lambda>r. cmp_code (snd r) = Some code \<and> cmp_mode (snd r) = SHARED) rows"

definition redeem_inner ::
  "env \<Rightarrow> nat \<Rightarrow> string \<Rightarrow> string \<Rightarrow> string \<Rightarrow> string \<Rightarrow> ('x, redeem_result) voucher_txn" where
  "redeem_inner env a code rid ip ua =
     (let normalized = normalize_voucher_code env code
      in if normalized = [] then raiseE (EVoucher VoucherInvalidError)
         else if is_reserved_voucher_code env normalized then raiseE (EVoucher VoucherReservedError)
         else
           bindE (atomic (
             bindE (getsE (\<lambda>db. find_unique normalized (vouchers db))) (\<lambda>vch.
             case vch of
               Some v \<Rightarrow> redeem_unique a v rid ip ua
             | None \<Rightarrow>
                 bindE (getsE (\<lambda>db. find_shared normalized (campaigns db))) (\<lambda>cmp.
                 case cmp of
                   None \<Rightarrow> raiseE (EVoucher VoucherInvalidError)
                 | Some c \<Rightarrow> redeem_shared a c rid ip ua)))) (\<lambda>(result, evs).
           thenE (publish evs) (ret result)))"

text \<open>\<^verbatim>\<open>redeem\<close>: a request without an id draws one. Metrics and logs aside, a failure is passed on.\<close>

definition redeem ::
  "env \<Rightarrow> nat \<Rightarrow> string \<Rightarrow> string \<Rightarrow> string \<Rightarrow> string \<Rightarrow> ('x, redeem_result) voucher_txn" where
  "redeem env a code request_id ip ua =
     bindE (if strip request_id \<noteq> [] then ret (strip request_id)
            else bindE uuid4 (\<lambda>u. ret (str_nat u))) (\<lambda>rid.
     thenE (require_vouchers_enabled env) (redeem_inner env a code rid ip ua))"

section \<open>Frame and invariants\<close>

lemma ledger_ok_vouchers [simp]:
  "ledger_ok (db\<lparr>vouchers := vs\<rparr>) = ledger_ok db"
  "ledger_ok (db\<lparr>campaigns := cs\<rparr>) = ledger_ok db"
  "ledger_ok (db\<lparr>redemptions := rs\<rparr>) = ledger_ok db"
  by (simp_all add: ledger_ok_def entry_ok_def account_ok_def)

lemma keeps_ledger_redemption [keeps_intros]:
  "keeps ledger_ok (save_redemption pk r)" "keeps ledger_ok (save_voucher_status v st)"
  unfolding save_redemption_def save_voucher_status_def by (intro keeps_intros; simp)+

lemma keeps_ledger_replay [keeps_intros]: "keeps ledger_ok (replay_result a rid r)"
  unfolding replay_result_def by (intro keeps_intros)

lemma keeps_ledger_grant [keeps_intros]:
  "keeps ledger_ok (grant_redemption a amount v c rid ip ua now mark)"
  unfolding grant_redemption_def Let_def by (intro keeps_intros)

lemma keeps_ledger_redeem_unique [keeps_intros]: "keeps ledger_ok (redeem_unique a v rid ip ua)"
  unfolding redeem_unique_def Let_def by (intro keeps_intros)

lemma keeps_ledger_redeem_shared [keeps_intros]: "keeps ledger_ok (redeem_shared a c rid ip ua)"
  unfolding redeem_shared_def Let_def by (intro keeps_intros)

lemma keeps_ledger_redeem_inner [keeps_intros]: "keeps ledger_ok (redeem_inner env a code rid ip ua)"
  unfolding redeem_inner_def Let_def by (intro keeps_intros)

lemma keeps_ledger_redeem [keeps_intros]: "keeps ledger_ok (redeem env a code rid ip ua)"
  unfolding redeem_def require_vouchers_enabled_def by (intro keeps_intros)

text \<open>What a grant leaves behind: one redemption row linked to one new ledger row, and the voucher
  marked.\<close>

definition marked :: "int \<Rightarrow> nat option \<Rightarrow> (nat \<times> voucher) list \<Rightarrow> (nat \<times> voucher) list" where
  "marked now mark rows =
     map (\<lambda>(k, r). (k, if Some k = mark then r\<lparr>vch_status := VRedeemed, vch_updated := now\<rparr> else r)) rows"

lemma save_redeemed_run:
  "save_voucher_status v VRedeemed db = (Inr (), db\<lparr>vouchers := marked (clock db) (Some v) (vouchers db)\<rparr>)"
  by (simp add: save_voucher_status_def marked_def txn_defs)

lemma marked_None [simp]: "marked now None rows = rows"
  by (induction rows) (auto simp: marked_def)

lemma grant_Inr:
  assumes run: "grant_redemption a amount v c rid ip ua now mark db = (Inr (res, evs), db')"
    and pk_new: "next_uuid db \<notin> fst ` set (redemptions db)"
    and fresh: "tag_fresh ''voucher_redeem:'' db"
  shows "\<exists>x e row. normalize_amount (DecimalArg (Finite amount)) = Inr x \<and> 0 < amount \<and>
    (v = None) \<noteq> (c = None) \<and> map_of (accounts db) a = Some row \<and>
    ledger db' = ledger db @ [e] \<and> entry_account e = a \<and> delta e = x \<and>
    entry_key e = ''voucher_redeem:'' @ str_nat (next_uuid db) \<and> reference_type e = ''voucher'' \<and>
    balance_of db' = (balance_of db)(a := balance_of db a + x) \<and>
    next_uuid db' = Suc (Suc (next_uuid db)) \<and> entry_id e = Suc (next_uuid db) \<and>
    redemptions db' = redemptions db @ [(next_uuid db,
      (new_redemption a amount v c rid ip ua now)\<lparr>red_entry := Some (entry_id e)\<rparr>)] \<and>
    vouchers db' = marked (clock db) mark (vouchers db) \<and> campaigns db' = campaigns db \<and> events db' = events db \<and>
    clock db' = clock db \<and>
    credited res = amount \<and> replay res = False \<and> res_balance res = balance_after e"
proof -
  let ?pk = "next_uuid db"
  let ?red = "new_redemption a amount v c rid ip ua now"
  let ?db1 = "db\<lparr>next_uuid := Suc ?pk, redemptions := redemptions db @ [(?pk, ?red)]\<rparr>"
  let ?key = "''voucher_redeem:'' @ str_nat ?pk"
  obtain e db2 where amt: "0 < amount" and src: "(v = None) \<noteq> (c = None)"
    and cr: "credit a (DecimalArg (Finite amount)) (RefEnum VOUCHER) (str_nat ?pk) ?key ?db1 = (Inr e, db2)"
    and db': "db' = db2\<lparr>redemptions := AList.update ?pk (?red\<lparr>red_entry := Some (entry_id e)\<rparr>) (redemptions db2),
        vouchers := marked (clock db2) mark (vouchers db2)\<rparr>"
    and res: "credited res = amount" "replay res = False" "res_balance res = balance_after e"
    using run AList_update_new [OF pk_new]
    by (cases mark)
      (auto simp: grant_redemption_def txn_iff uuid4_def Let_def save_redemption_def new_redemption_def
        save_redeemed_run split: if_splits)
  have "\<not> key_used ?db1 ?key"
    using fresh tag_freshD [of "''voucher_redeem:''" db ?pk] by (simp add: key_used_def)
  with apply_Inr [OF cr [unfolded credit_def]] obtain x row where
    x: "normalize_amount (DecimalArg (Finite amount)) = Inr x" and row: "map_of (accounts ?db1) a = Some row"
    and p: "(e, db2) = post a row x ''voucher'' (str_nat ?pk) ?key ?db1"
    by (auto simp: key_used_def)
  note ps = post_simps [OF p]
  have rs: "redemptions db2 = redemptions db @ [(?pk, ?red)]" "vouchers db2 = vouchers db"
    "campaigns db2 = campaigns db"
    using p by (auto simp: post_def Let_def)
  have bal: "balance_of db2 = (balance_of db)(a := balance_of db a + x)"
    using balance_of_post [OF p row] by (auto simp: fun_eq_iff balance_of_def)
  have upd: "AList.update ?pk r (redemptions db @ [(?pk, ?red)]) = redemptions db @ [(?pk, r)]" for r
    using pk_new by (rule AList_update_last)
  show ?thesis
    using amt src x row res bal ps rs upd
    by (intro exI [of _ x] exI [of _ e] exI [of _ row])
      (simp add: db' new_entry_def balance_of_def fun_eq_iff)
qed

lemma earliest_Some: "earliest rs = Some r \<Longrightarrow> r \<in> set rs"
proof -
  assume "earliest rs = Some r"
  then obtain ys where "sort_key (\<lambda>r. redeemed_at (snd r)) rs = r # ys"
    by (auto simp: earliest_def split: list.splits)
  then have "r \<in> set (sort_key (\<lambda>r. redeemed_at (snd r)) rs)" by simp
  then show ?thesis by simp
qed

lemma earliest_None: "earliest rs = None \<longleftrightarrow> rs = []"
proof -
  have "sort_key (\<lambda>r. redeemed_at (snd r)) rs = [] \<longleftrightarrow> rs = []" by (metis set_empty set_sort)
  then show ?thesis by (auto simp: earliest_def split: list.splits)
qed

lemma replay_Inr:
  "replay_result a rid r db = (Inr (res, evs), db') \<Longrightarrow>
   db' = db \<and> evs = [] \<and> replay res \<and> credited res = red_amount (snd r) \<and> res_balance res = balance_of db a"
  by (auto simp: replay_result_def txn_iff balance_of_def)

lemma redeem_unique_Inr:
  assumes "redeem_unique a (v, row) rid ip ua db = (Inr (res, evs), db')"
  shows "(vch_status row = VRedeemed \<and> db' = db \<and> evs = [] \<and> replay res \<and>
      (\<exists>r \<in> set (redemptions db). red_voucher (snd r) = Some v \<and> red_account (snd r) = a \<and>
         credited res = red_amount (snd r))) \<or>
    (vch_status row = VActive \<and> vch_reward row = FIXED_CREDIT \<and>
     (\<forall>t. vch_expires row = Some t \<longrightarrow> clock db < t) \<and>
     grant_redemption a (vch_amount row) (Some v) None rid ip ua (clock db) (Some v) db =
       (Inr (res, evs), db'))"
proof (cases "vch_status row = VRedeemed")
  case True
  then obtain r where r: "earliest (filter (\<lambda>r. red_voucher (snd r) = Some v \<and> red_account (snd r) = a)
      (redemptions db)) = Some r" "replay_result a rid r db = (Inr (res, evs), db')"
    using assms by (auto simp: redeem_unique_def txn_iff split: option.splits)
  then show ?thesis using True earliest_Some [OF r(1)] replay_Inr [OF r(2)] by auto
next
  case False
  then show ?thesis
    using assms
    by (auto simp: redeem_unique_def txn_iff Let_def credit_amount_for_reward_def split: if_splits option.splits)
qed

lemma redeem_shared_Inr:
  assumes "redeem_shared a (c, row) rid ip ua db = (Inr (res, evs), db')"
  shows "(cmp_status row = CActive \<and> max_per_account row = Some 1 \<and> db' = db \<and> evs = [] \<and> replay res \<and>
      (\<exists>r \<in> set (redemptions db). red_campaign (snd r) = Some c \<and> red_account (snd r) = a \<and>
         credited res = red_amount (snd r))) \<or>
    (cmp_status row = CActive \<and> cmp_reward row = FIXED_CREDIT \<and>
     (\<forall>t. starts_at row = Some t \<longrightarrow> t \<le> clock db) \<and> (\<forall>t. cmp_expires row = Some t \<longrightarrow> clock db < t) \<and>
     (\<forall>m. max_total row = Some m \<longrightarrow> campaign_uses c (redemptions db) < m) \<and>
     (\<forall>m. max_per_account row = Some m \<longrightarrow> campaign_uses_by c a (redemptions db) < m) \<and>
     grant_redemption a (cmp_amount row) None (Some c) rid ip ua (clock db) None db =
       (Inr (res, evs), db'))"
proof (cases "\<exists>m. max_per_account row = Some m \<and> m \<le> campaign_uses_by c a (redemptions db)")
  case True
  then obtain r where r: "earliest (filter (\<lambda>r. red_campaign (snd r) = Some c \<and> red_account (snd r) = a)
      (redemptions db)) = Some r" "replay_result a rid r db = (Inr (res, evs), db')"
    and st: "cmp_status row = CActive" "max_per_account row = Some 1"
    using assms by (auto simp: redeem_shared_def txn_iff Let_def split: if_splits option.splits)
  then show ?thesis using earliest_Some [OF r(1)] replay_Inr [OF r(2)] by auto
next
  case False
  then show ?thesis
    using assms
    by (auto simp: redeem_shared_def txn_iff Let_def credit_amount_for_reward_def not_le
        split: if_splits option.splits)
qed

section \<open>The voucher invariant\<close>

text \<open>
  A redemption is linked to the one ledger row it paid out, a unique voucher has at most one
  redemption and none before it is marked, and a campaign is within both of its limits.
\<close>

definition redemption_ok :: "'x voucher_db_scheme \<Rightarrow> nat \<times> redemption \<Rightarrow> bool" where
  "redemption_ok db r \<longleftrightarrow> fst r < next_uuid db \<and> 0 < red_amount (snd r) \<and>
     (red_voucher (snd r) = None) \<noteq> (red_campaign (snd r) = None) \<and>
     (\<forall>v. red_voucher (snd r) = Some v \<longrightarrow> v < next_uuid db) \<and>
     (\<forall>c. red_campaign (snd r) = Some c \<longrightarrow> c < next_uuid db) \<and>
     (\<exists>e \<in> set (ledger db). red_entry (snd r) = Some (entry_id e) \<and> entry_account e = red_account (snd r) \<and>
        entry_key e = ''voucher_redeem:'' @ str_nat (fst r) \<and>
        normalize_amount (DecimalArg (Finite (red_amount (snd r)))) = Inr (delta e))"

definition voucher_uses :: "nat \<Rightarrow> (nat \<times> redemption) list \<Rightarrow> nat" where
  "voucher_uses v rs = length (filter (\<lambda>r. red_voucher (snd r) = Some v) rs)"

definition voucher_row_ok :: "(nat \<times> redemption) list \<Rightarrow> nat \<times> voucher \<Rightarrow> bool" where
  "voucher_row_ok rs v \<longleftrightarrow> voucher_uses (fst v) rs \<le> (if vch_status (snd v) = VRedeemed then 1 else 0)"

definition campaign_row_ok :: "(nat \<times> redemption) list \<Rightarrow> nat \<times> campaign \<Rightarrow> bool" where
  "campaign_row_ok rs c \<longleftrightarrow>
     (\<forall>m. max_total (snd c) = Some m \<longrightarrow> campaign_uses (fst c) rs \<le> m) \<and>
     (\<forall>m a. max_per_account (snd c) = Some m \<longrightarrow> campaign_uses_by (fst c) a rs \<le> m)"

definition voucher_base :: "'x voucher_db_scheme \<Rightarrow> bool" where
  "voucher_base db \<longleftrightarrow>
     distinct (map fst (vouchers db)) \<and> distinct (map fst (campaigns db)) \<and>
     distinct (map fst (redemptions db)) \<and> tag_fresh ''voucher_redeem:'' db \<and>
     (\<forall>v \<in> set (vouchers db). fst v < next_uuid db) \<and>
     (\<forall>c \<in> set (campaigns db). fst c < next_uuid db) \<and>
     (\<forall>r \<in> set (redemptions db). redemption_ok db r) \<and>
     (\<forall>v \<in> set (vouchers db). voucher_row_ok (redemptions db) v)"

definition voucher_ok :: "'x voucher_db_scheme \<Rightarrow> bool" where
  "voucher_ok db \<longleftrightarrow> voucher_base db \<and> (\<forall>c \<in> set (campaigns db). campaign_row_ok (redemptions db) c)"

lemmas voucher_ok_defs = voucher_ok_def voucher_base_def

lemma voucher_baseD:
  assumes "voucher_base db"
  shows "distinct (map fst (vouchers db))" "distinct (map fst (campaigns db))"
    "distinct (map fst (redemptions db))" "tag_fresh ''voucher_redeem:'' db"
    "\<And>v. v \<in> set (vouchers db) \<Longrightarrow> fst v < next_uuid db" "\<And>c. c \<in> set (campaigns db) \<Longrightarrow> fst c < next_uuid db"
    "\<And>r. r \<in> set (redemptions db) \<Longrightarrow> redemption_ok db r"
    "\<And>v. v \<in> set (vouchers db) \<Longrightarrow> voucher_row_ok (redemptions db) v"
  using assms by (auto simp: voucher_base_def)

lemma voucher_ok_base: "voucher_ok db \<Longrightarrow> voucher_base db"
  by (simp add: voucher_ok_def)

lemma voucher_okD:
  assumes "voucher_ok db"
  shows "distinct (map fst (vouchers db))" "distinct (map fst (campaigns db))"
    "distinct (map fst (redemptions db))" "tag_fresh ''voucher_redeem:'' db"
    "\<And>v. v \<in> set (vouchers db) \<Longrightarrow> fst v < next_uuid db" "\<And>c. c \<in> set (campaigns db) \<Longrightarrow> fst c < next_uuid db"
    "\<And>r. r \<in> set (redemptions db) \<Longrightarrow> redemption_ok db r"
    "\<And>v. v \<in> set (vouchers db) \<Longrightarrow> voucher_row_ok (redemptions db) v"
    "\<And>c. c \<in> set (campaigns db) \<Longrightarrow> campaign_row_ok (redemptions db) c"
  using assms by (auto simp: voucher_ok_defs)

text \<open>The invariant survives whatever only appends foreign rows to the ledger.\<close>

lemma voucher_ok_grow:
  assumes ok: "voucher_ok db"
    and same: "vouchers db' = vouchers db" "campaigns db' = campaigns db" "redemptions db' = redemptions db"
    and led: "set (ledger db) \<subseteq> set (ledger db')" and n: "next_uuid db \<le> next_uuid db'"
    and tag: "tag_fresh ''voucher_redeem:'' db'"
  shows "voucher_ok db'"
proof -
  have "redemption_ok db' r" if "redemption_ok db r" for r
    using that led n unfolding redemption_ok_def by (meson order_less_le_trans subsetD)
  then show ?thesis
    using ok same n tag unfolding voucher_ok_defs by (auto dest: order_less_le_trans [OF _ n])
qed

lemma marked_in: "x \<in> set (marked now mark rows) \<Longrightarrow>
  \<exists>row. (fst x, row) \<in> set rows \<and>
    snd x = (if Some (fst x) = mark then row\<lparr>vch_status := VRedeemed, vch_updated := now\<rparr> else row)"
  by (auto simp: marked_def)

lemma marked_keys: "map fst (marked now mark rows) = map fst rows"
  by (induction rows) (auto simp: marked_def)

lemma grant_voucher_base:
  assumes ok: "voucher_base db"
    and run: "grant_redemption a amount v c rid ip ua now mark db = (Inr (res, evs), db')"
    and mark: "v = mark" "\<And>k. v = Some k \<Longrightarrow> voucher_uses k (redemptions db) = 0 \<and> k < next_uuid db"
    and known: "\<And>k. c = Some k \<Longrightarrow> k < next_uuid db"
  shows "voucher_base db' \<and> campaigns db' = campaigns db \<and> vouchers db' = marked (clock db) mark (vouchers db) \<and>
    next_uuid db \<le> next_uuid db' \<and>
    (\<exists>e. redemptions db' = redemptions db @ [(next_uuid db, (new_redemption a amount v c rid ip ua now)\<lparr>red_entry := e\<rparr>)])"
proof -
  note okD = voucher_baseD [OF ok]
  have pk: "next_uuid db \<notin> fst ` set (redemptions db)"
    using okD(7) by (force simp: redemption_ok_def)
  from grant_Inr [OF run pk okD(4)] obtain x e where
    x: "normalize_amount (DecimalArg (Finite amount)) = Inr x" and pos: "0 < amount" and src: "(v = None) \<noteq> (c = None)"
    and led: "ledger db' = ledger db @ [e]"
    and e: "entry_account e = a" "delta e = x" "entry_key e = ''voucher_redeem:'' @ str_nat (next_uuid db)"
    and n: "next_uuid db' = Suc (Suc (next_uuid db))"
    and rs: "redemptions db' = redemptions db @ [(next_uuid db,
      (new_redemption a amount v c rid ip ua now)\<lparr>red_entry := Some (entry_id e)\<rparr>)]"
    and vs: "vouchers db' = marked (clock db) mark (vouchers db)" and cs: "campaigns db' = campaigns db"
    by blast
  let ?r = "(next_uuid db, (new_redemption a amount v c rid ip ua now)\<lparr>red_entry := Some (entry_id e)\<rparr>)"
  have new: "redemption_ok db' ?r"
    using x pos src e mark(2) known led n by (auto simp: redemption_ok_def new_redemption_def less_Suc_eq)
  have old: "redemption_ok db' r" if "r \<in> set (redemptions db)" for r
    using okD(7) [OF that] led n by (auto simp: redemption_ok_def less_Suc_eq)
  have tag: "tag_fresh ''voucher_redeem:'' db'"
    using okD(4) e(3) by (auto simp: tag_fresh_def led n less_Suc_eq)
  have vrow: "voucher_row_ok (redemptions db') w" if mem: "w \<in> set (vouchers db')" for w
  proof -
    obtain row where w: "(fst w, row) \<in> set (vouchers db)"
      "snd w = (if Some (fst w) = mark then row\<lparr>vch_status := VRedeemed, vch_updated := clock db\<rparr> else row)"
      using marked_in [OF mem [unfolded vs]] by blast
    from okD(8) [OF w(1)] w(2) mark show ?thesis
      by (auto simp: voucher_row_ok_def voucher_uses_def rs new_redemption_def split: if_splits)
  qed
  have "voucher_base db'"
    using okD(1,2,3,5,6) pk new old tag vrow
    by (auto simp: voucher_base_def vs cs rs n marked_keys less_Suc_eq dest!: marked_in)
  then show ?thesis using vs cs rs n by auto
qed

lemma grant_voucher_ok:
  assumes ok: "voucher_ok db"
    and run: "grant_redemption a amount v c rid ip ua now mark db = (Inr (res, evs), db')"
    and mark: "v = mark" "\<And>k. v = Some k \<Longrightarrow> voucher_uses k (redemptions db) = 0 \<and> k < next_uuid db"
    and caps: "\<And>k row. c = Some k \<Longrightarrow> (k, row) \<in> set (campaigns db) \<Longrightarrow>
      (\<forall>m. max_total row = Some m \<longrightarrow> campaign_uses k (redemptions db) < m) \<and>
      (\<forall>m. max_per_account row = Some m \<longrightarrow> campaign_uses_by k a (redemptions db) < m)"
    and known: "\<And>k. c = Some k \<Longrightarrow> k < next_uuid db"
  shows "voucher_ok db'"
proof -
  from grant_voucher_base [OF voucher_ok_base [OF ok] run mark known] obtain e where
    base: "voucher_base db'" and cs: "campaigns db' = campaigns db"
    and rs: "redemptions db' = redemptions db @ [(next_uuid db, (new_redemption a amount v c rid ip ua now)\<lparr>red_entry := e\<rparr>)]"
    by blast
  have "campaign_row_ok (redemptions db') k" if k: "k \<in> set (campaigns db')" for k
    using voucher_okD(9) [OF ok, of k] k caps [of "fst k" "snd k"]
    by (cases "c = Some (fst k)")
      (auto simp: campaign_row_ok_def campaign_uses_def campaign_uses_by_def rs cs new_redemption_def)
  with base show ?thesis by (simp add: voucher_ok_def)
qed

section \<open>The whole call\<close>

text \<open>A request without an id draws a UUID before the transaction starts.\<close>

definition request_db :: "string \<Rightarrow> 'x credit_db_scheme \<Rightarrow> 'x credit_db_scheme" where
  "request_db rid db = (if strip rid \<noteq> [] then db else db\<lparr>next_uuid := Suc (next_uuid db)\<rparr>)"

lemma request_db_simps [simp]:
  "ledger (request_db rid db) = ledger db" "accounts (request_db rid db) = accounts db"
  "clock (request_db rid db) = clock db" "events (request_db rid db) = events db"
  "next_uuid db \<le> next_uuid (request_db rid db)" "balance_of (request_db rid db) = balance_of db"
  by (simp_all add: request_db_def balance_of_def fun_eq_iff)

lemma request_db_tables [simp]:
  "vouchers (request_db rid vdb) = vouchers vdb" "campaigns (request_db rid vdb) = campaigns vdb"
  "redemptions (request_db rid vdb) = redemptions vdb"
  by (simp_all add: request_db_def)

lemma voucher_base_request: "voucher_base db \<Longrightarrow> voucher_base (request_db rid db)"
  by (auto simp: voucher_base_def redemption_ok_def request_db_def tag_fresh_def less_Suc_eq)

lemma voucher_ok_request: "voucher_ok db \<Longrightarrow> voucher_ok (request_db rid db)"
proof -
  assume ok: "voucher_ok db"
  have "tag_fresh ''voucher_redeem:'' (request_db rid db)"
    using voucher_okD(4) [OF ok] by (auto simp: tag_fresh_def request_db_def less_Suc_eq)
  then show ?thesis by (intro voucher_ok_grow [OF ok]) simp_all
qed

lemma voucher_ok_events [simp]: "voucher_ok (db\<lparr>events := es\<rparr>) = voucher_ok db"
  by (simp add: voucher_ok_defs redemption_ok_def tag_fresh_def)

lemma redeem_Inl:
  "redeem env a code rq ip ua db = (Inl ex, db') \<Longrightarrow> db' = request_db rq db"
  by (auto simp: redeem_def redeem_inner_def require_vouchers_enabled_def request_db_def txn_iff uuid4_def
      publish_def Let_def split: if_splits)

lemma redeem_Inr:
  assumes "redeem env a code rq ip ua db = (Inr res, db')"
  shows "\<exists>rid evs db1. db' = db1\<lparr>events := events db1 @ evs\<rparr> \<and>
    normalize_voucher_code env code \<noteq> [] \<and>
    \<not> is_reserved_voucher_code env (normalize_voucher_code env code) \<and>
    BILLING_ENABLED env \<and> VOUCHERS_ENABLED env \<and>
    ((\<exists>v row. find_unique (normalize_voucher_code env code) (vouchers db) = Some (v, row) \<and>
        redeem_unique a (v, row) rid ip ua (request_db rq db) = (Inr (res, evs), db1)) \<or>
     (\<exists>c row. find_unique (normalize_voucher_code env code) (vouchers db) = None \<and>
        find_shared (normalize_voucher_code env code) (campaigns db) = Some (c, row) \<and>
        redeem_shared a (c, row) rid ip ua (request_db rq db) = (Inr (res, evs), db1)))"
  using assms
  by (auto simp: redeem_def redeem_inner_def require_vouchers_enabled_def request_db_def txn_iff uuid4_def
      publish_def Let_def split: if_splits option.splits) blast+

lemma find_unique_Some: "find_unique code rows = Some r \<Longrightarrow> r \<in> set rows"
  by (auto simp: find_unique_def find_Some_iff in_set_conv_nth)

lemma find_shared_Some: "find_shared code rows = Some r \<Longrightarrow> r \<in> set rows"
  by (auto simp: find_shared_def find_Some_iff in_set_conv_nth)

lemma redeem_unique_ok:
  assumes ok: "voucher_ok db" and mem: "(v, row) \<in> set (vouchers db)"
    and run: "redeem_unique a (v, row) rid ip ua db = (Inr (res, evs), db')"
  shows "voucher_ok db'"
  using redeem_unique_Inr [OF run]
proof (elim disjE conjE)
  assume act: "vch_status row = VActive"
    and g: "grant_redemption a (vch_amount row) (Some v) None rid ip ua (clock db) (Some v) db = (Inr (res, evs), db')"
  have "voucher_uses v (redemptions db) = 0"
    using voucher_okD(8) [OF ok mem] act by (simp add: voucher_row_ok_def)
  then show ?thesis using voucher_okD(5) [OF ok mem] by (intro grant_voucher_ok [OF ok g]) auto
qed (use ok in simp)

lemma redeem_shared_ok:
  assumes ok: "voucher_ok db" and mem: "(c, row) \<in> set (campaigns db)"
    and run: "redeem_shared a (c, row) rid ip ua db = (Inr (res, evs), db')"
  shows "voucher_ok db'"
  using redeem_shared_Inr [OF run]
proof (elim disjE conjE)
  assume caps: "\<forall>m. max_total row = Some m \<longrightarrow> campaign_uses c (redemptions db) < m"
      "\<forall>m. max_per_account row = Some m \<longrightarrow> campaign_uses_by c a (redemptions db) < m"
    and g: "grant_redemption a (cmp_amount row) None (Some c) rid ip ua (clock db) None db = (Inr (res, evs), db')"
  have "row' = row" if "(c, row') \<in> set (campaigns db)" for row'
    using that mem voucher_okD(2) [OF ok] by (metis eq_key_imp_eq_value)
  then show ?thesis using caps voucher_okD(6) [OF ok mem] by (intro grant_voucher_ok [OF ok g]) auto
qed (use ok in simp)

lemma keeps_voucher_redeem: "keeps voucher_ok (redeem env a code rq ip ua)"
proof (rule keepsI)
  fix db :: "'x voucher_db_scheme" and r db'
  assume ok: "voucher_ok db" and run: "redeem env a code rq ip ua db = (r, db')"
  have ok': "voucher_ok (request_db rq db)" using ok by (rule voucher_ok_request)
  show "voucher_ok db'"
  proof (cases r)
    case (Inl ex)
    with run ok' show ?thesis by (auto dest: redeem_Inl)
  next
    case (Inr res)
    with run have "redeem env a code rq ip ua db = (Inr res, db')" by simp
    from redeem_Inr [OF this] show ?thesis
      using ok' redeem_unique_ok [OF ok'] redeem_shared_ok [OF ok']
      by (auto dest!: find_unique_Some find_shared_Some)
  qed
qed

text \<open>The effect of a redeem that returned. The amount of a first redeem is that of the voucher or
  campaign row found before it, and a replayed one is that of an earlier redemption.\<close>

lemma redeem_ledger:
  assumes ok: "voucher_ok db" and run: "redeem env a code rq ip ua db = (Inr res, db')"
  shows "if replay res then ledger db' = ledger db \<and> accounts db' = accounts db \<and> redemptions db' = redemptions db \<and>
      (\<exists>r \<in> set (redemptions db). red_account (snd r) = a \<and> credited res = red_amount (snd r))
    else \<exists>v c amount x e r.
      ((\<exists>k row. find_unique (normalize_voucher_code env code) (vouchers db) = Some (k, row) \<and>
          vch_status row = VActive \<and> amount = vch_amount row \<and> v = Some k \<and> c = None) \<or>
       (\<exists>k row. find_unique (normalize_voucher_code env code) (vouchers db) = None \<and>
          find_shared (normalize_voucher_code env code) (campaigns db) = Some (k, row) \<and>
          cmp_status row = CActive \<and> amount = cmp_amount row \<and> v = None \<and> c = Some k)) \<and>
      credited res = amount \<and> normalize_amount (DecimalArg (Finite amount)) = Inr x \<and>
      ledger db' = ledger db @ [e] \<and> entry_account e = a \<and> delta e = x \<and> res_balance res = balance_after e \<and>
      balance_of db' = (balance_of db)(a := balance_of db a + x) \<and>
      redemptions db' = redemptions db @ [r] \<and> red_entry (snd r) = Some (entry_id e) \<and>
      red_account (snd r) = a \<and> red_amount (snd r) = amount \<and> red_voucher (snd r) = v \<and> red_campaign (snd r) = c"
proof -
  let ?db = "request_db rq db"
  have ok': "voucher_ok ?db" using ok by (rule voucher_ok_request)
  have pk: "next_uuid ?db \<notin> fst ` set (redemptions ?db)"
    using voucher_okD(7) [OF ok'] by (force simp: redemption_ok_def)
  from redeem_Inr [OF run] obtain rid evs db1 where db': "db' = db1\<lparr>events := events db1 @ evs\<rparr>"
    and br: "(\<exists>v row. find_unique (normalize_voucher_code env code) (vouchers db) = Some (v, row) \<and>
        redeem_unique a (v, row) rid ip ua ?db = (Inr (res, evs), db1)) \<or>
      (\<exists>c row. find_unique (normalize_voucher_code env code) (vouchers db) = None \<and>
        find_shared (normalize_voucher_code env code) (campaigns db) = Some (c, row) \<and>
        redeem_shared a (c, row) rid ip ua ?db = (Inr (res, evs), db1))"
    by blast
  have b: "balance_of db' = balance_of db1" by (simp add: db' balance_of_def fun_eq_iff)
  from br show ?thesis
  proof (elim disjE exE conjE)
    fix v row
    assume f: "find_unique (normalize_voucher_code env code) (vouchers db) = Some (v, row)"
      and u: "redeem_unique a (v, row) rid ip ua ?db = (Inr (res, evs), db1)"
    from redeem_unique_Inr [OF u] show ?thesis
    proof (elim disjE conjE)
      assume act: "vch_status row = VActive"
        and g: "grant_redemption a (vch_amount row) (Some v) None rid ip ua (clock ?db) (Some v) ?db = (Inr (res, evs), db1)"
      from grant_Inr [OF g pk voucher_okD(4) [OF ok']] b f act show ?thesis
        by (auto simp: db' new_redemption_def)
    qed (auto simp: db')
  next
    fix c row
    assume f: "find_unique (normalize_voucher_code env code) (vouchers db) = None"
        "find_shared (normalize_voucher_code env code) (campaigns db) = Some (c, row)"
      and u: "redeem_shared a (c, row) rid ip ua ?db = (Inr (res, evs), db1)"
    from redeem_shared_Inr [OF u] show ?thesis
    proof (elim disjE conjE)
      assume act: "cmp_status row = CActive"
        and g: "grant_redemption a (cmp_amount row) None (Some c) rid ip ua (clock ?db) None ?db = (Inr (res, evs), db1)"
      from grant_Inr [OF g pk voucher_okD(4) [OF ok']] b f act show ?thesis
        by (auto simp: db' new_redemption_def)
    qed (auto simp: db')
  qed
qed

section \<open>Code registry\<close>

text \<open>A code names at most one voucher or campaign, and no reserved word.\<close>

definition codes_of :: "'x voucher_db_scheme \<Rightarrow> string list" where
  "codes_of db = map (vch_code \<circ> snd) (vouchers db) @ List.map_filter (cmp_code \<circ> snd) (campaigns db)"

lemma map_filter_snoc:
  "List.map_filter f (xs @ [x]) = List.map_filter f xs @ (case f x of None \<Rightarrow> [] | Some y \<Rightarrow> [y])"
  by (simp add: List.map_filter_def split: option.split)

lemma mem_codes_of:
  "code \<in> set (codes_of db) \<longleftrightarrow>
     (\<exists>r \<in> set (vouchers db). vch_code (snd r) = code) \<or>
     (\<exists>r \<in> set (campaigns db). cmp_code (snd r) = Some code)"
  by (force simp: codes_of_def List.map_filter_def image_iff)

lemma assert_code_Inr:
  assumes "assert_code_available env code None None db = (Inr n, db')"
  shows "db' = db \<and> n = normalize_voucher_code env code \<and> n \<noteq> [] \<and> \<not> is_reserved_voucher_code env n \<and>
    n \<notin> set (codes_of db)"
  using assms by (auto simp: assert_code_available_def txn_iff Let_def mem_codes_of split: if_splits)

lemma issue_unique_Inr:
  assumes run: "issue_unique_voucher env code amount st vt ex camp batch db = (Inr pk, db')"
    and new: "next_uuid db \<notin> fst ` set (vouchers db)"
  shows "pk = next_uuid db \<and> (\<exists>row. db' = db\<lparr>next_uuid := Suc pk, vouchers := vouchers db @ [(pk, row)]\<rparr> \<and>
    vch_code row = normalize_voucher_code env code \<and> vch_mode row = UNIQUE) \<and>
    normalize_voucher_code env code \<notin> set (codes_of db) \<and> \<not> is_reserved_voucher_code env (normalize_voucher_code env code)"
proof -
  obtain n db1 where a: "assert_code_available env code None None db = (Inr n, db1)"
    using run by (auto simp: issue_unique_voucher_def bindE_iff)
  then show ?thesis
    using run assert_code_Inr [OF a] AList_update_new [OF new]
    by (auto simp: issue_unique_voucher_def txn_ok uuid4_def)
qed

lemma issue_shared_Inr:
  assumes run: "issue_shared_campaign env code amount tc pa st vt sa ex db = (Inr pk, db')"
    and new: "next_uuid db \<notin> fst ` set (campaigns db)"
  shows "pk = next_uuid db \<and> (\<exists>row. db' = db\<lparr>next_uuid := Suc pk, campaigns := campaigns db @ [(pk, row)]\<rparr> \<and>
    cmp_code row = Some (normalize_voucher_code env code) \<and> max_total row = tc \<and> max_per_account row = pa) \<and>
    normalize_voucher_code env code \<notin> set (codes_of db) \<and> \<not> is_reserved_voucher_code env (normalize_voucher_code env code)"
proof -
  obtain n db1 where a: "assert_code_available env code None None db = (Inr n, db1)"
    using run by (auto simp: issue_shared_campaign_def bindE_iff)
  then show ?thesis
    using run assert_code_Inr [OF a] AList_update_new [OF new]
    by (auto simp: issue_shared_campaign_def txn_ok uuid4_def)
qed

lemma issue_Inl:
  "issue_unique_voucher env code amount st vt ex camp batch db = (Inl e, db') \<Longrightarrow> db' = db"
  "issue_shared_campaign env code amount tc pa st' vt sa ex db = (Inl e, db') \<Longrightarrow> db' = db"
  by (auto simp: issue_unique_voucher_def issue_shared_campaign_def assert_code_available_def txn_iff
      uuid4_def Let_def split: if_splits)

text \<open>A voucher or campaign with a key that was never drawn has no redemption.\<close>

lemma fresh_no_uses:
  assumes "voucher_ok db"
  shows "voucher_uses (next_uuid db) (redemptions db) = 0"
    and "campaign_uses (next_uuid db) (redemptions db) = 0"
    and "campaign_uses_by (next_uuid db) a (redemptions db) = 0"
  using voucher_okD(7) [OF assms]
  by (auto simp: voucher_uses_def campaign_uses_def campaign_uses_by_def redemption_ok_def filter_empty_conv)

lemma keeps_voucher_issue:
  "keeps voucher_ok (issue_unique_voucher env code amount st vt ex camp batch)"
  "keeps voucher_ok (issue_shared_campaign env code amount tc pa st' vt sa ex)"
proof -
  show "keeps voucher_ok (issue_unique_voucher env code amount st vt ex camp batch)"
  proof (rule keepsI)
    fix db :: "'x voucher_db_scheme" and r db'
    assume ok: "voucher_ok db" and run: "issue_unique_voucher env code amount st vt ex camp batch db = (r, db')"
    have new: "next_uuid db \<notin> fst ` set (vouchers db)" using voucher_okD(5) [OF ok] by force
    show "voucher_ok db'"
    proof (cases r)
      case (Inl e)
      with run issue_Inl(1) ok show ?thesis by blast
    next
      case (Inr pk)
      with run issue_unique_Inr [of env code amount st vt ex camp batch db pk db'] new obtain row where
        "db' = db\<lparr>next_uuid := Suc (next_uuid db), vouchers := vouchers db @ [(next_uuid db, row)]\<rparr>" by blast
      then show ?thesis
        using ok new fresh_no_uses [OF ok]
        by (auto simp: voucher_ok_defs redemption_ok_def voucher_row_ok_def tag_fresh_def less_Suc_eq)
    qed
  qed
  show "keeps voucher_ok (issue_shared_campaign env code amount tc pa st' vt sa ex)"
  proof (rule keepsI)
    fix db :: "'x voucher_db_scheme" and r db'
    assume ok: "voucher_ok db" and run: "issue_shared_campaign env code amount tc pa st' vt sa ex db = (r, db')"
    have new: "next_uuid db \<notin> fst ` set (campaigns db)" using voucher_okD(6) [OF ok] by force
    show "voucher_ok db'"
    proof (cases r)
      case (Inl e)
      with run issue_Inl(2) ok show ?thesis by blast
    next
      case (Inr pk)
      with run issue_shared_Inr [of env code amount tc pa st' vt sa ex db pk db'] new obtain row where
        "db' = db\<lparr>next_uuid := Suc (next_uuid db), campaigns := campaigns db @ [(next_uuid db, row)]\<rparr>" by blast
      then show ?thesis
        using ok new fresh_no_uses [OF ok]
        by (auto simp: voucher_ok_defs redemption_ok_def campaign_row_ok_def tag_fresh_def less_Suc_eq)
    qed
  qed
qed

section \<open>A redeemed voucher\<close>

lemma find_unique_marked:
  "find_unique code (marked now mark rows) =
     map_option (\<lambda>(k, r). (k, if Some k = mark then r\<lparr>vch_status := VRedeemed, vch_updated := now\<rparr> else r))
       (find_unique code rows)"
  by (induction rows) (auto simp: find_unique_def marked_def)

text \<open>After a redeem of a unique voucher that returned, the voucher is marked and the redeemer's
  row is there.\<close>

lemma redeem_unique_after:
  assumes ok: "voucher_ok db" and run: "redeem env a code rq ip ua db = (Inr res, db')"
    and found: "find_unique (normalize_voucher_code env code) (vouchers db) = Some (v, row)"
  shows "\<exists>row' r. find_unique (normalize_voucher_code env code) (vouchers db') = Some (v, row') \<and>
    vch_status row' = VRedeemed \<and> r \<in> set (redemptions db') \<and> red_voucher (snd r) = Some v \<and>
    red_account (snd r) = a \<and> credited res = red_amount (snd r)"
proof -
  let ?db = "request_db rq db"
  have ok': "voucher_ok ?db" using ok by (rule voucher_ok_request)
  have pk: "next_uuid ?db \<notin> fst ` set (redemptions ?db)"
    using voucher_okD(7) [OF ok'] by (force simp: redemption_ok_def)
  from redeem_Inr [OF run] found obtain rid evs db1 where db': "db' = db1\<lparr>events := events db1 @ evs\<rparr>"
    and br: "redeem_unique a (v, row) rid ip ua ?db = (Inr (res, evs), db1)"
    by auto
  from redeem_unique_Inr [OF br] show ?thesis
  proof (elim disjE conjE)
    assume g: "grant_redemption a (vch_amount row) (Some v) None rid ip ua (clock ?db) (Some v) ?db = (Inr (res, evs), db1)"
    from grant_Inr [OF g pk voucher_okD(4) [OF ok']] obtain e where
      "redemptions db1 = redemptions db @ [(next_uuid ?db,
        (new_redemption a (vch_amount row) (Some v) None rid ip ua (clock ?db))\<lparr>red_entry := Some e\<rparr>)]"
      "vouchers db1 = marked (clock db) (Some v) (vouchers db)" "credited res = vch_amount row"
      by auto
    then show ?thesis
      using found
      by (intro exI [of _ "row\<lparr>vch_status := VRedeemed, vch_updated := clock db\<rparr>"] exI [of _ "last (redemptions db1)"])
        (simp add: db' find_unique_marked new_redemption_def)
  next
    assume st: "vch_status row = VRedeemed" "db1 = ?db" and
      "\<exists>r\<in>set (redemptions ?db). red_voucher (snd r) = Some v \<and> red_account (snd r) = a \<and>
        credited res = red_amount (snd r)"
    then obtain r where "r \<in> set (redemptions db)" "red_voucher (snd r) = Some v" "red_account (snd r) = a"
        "credited res = red_amount (snd r)" by auto
    then show ?thesis using found st unfolding db' by (intro exI [of _ row] exI [of _ r]) simp
  qed
qed

lemma redeem_redeemed:
  assumes on: "BILLING_ENABLED env" "VOUCHERS_ENABLED env"
    and code: "normalize_voucher_code env code \<noteq> []"
      "\<not> is_reserved_voucher_code env (normalize_voucher_code env code)"
    and found: "find_unique (normalize_voucher_code env code) (vouchers db) = Some (v, row)"
    and st: "vch_status row = VRedeemed" and acc: "map_of (accounts db) b = Some arow"
  shows "case earliest (filter (\<lambda>r. red_voucher (snd r) = Some v \<and> red_account (snd r) = b) (redemptions db)) of
      None \<Rightarrow> redeem env b code rq ip ua db = (Inl (EVoucher VoucherInvalidError), request_db rq db)
    | Some r \<Rightarrow> \<exists>res. redeem env b code rq ip ua db = (Inr res, request_db rq db) \<and> replay res \<and>
        credited res = red_amount (snd r) \<and> res_balance res = balance arow"
  using assms
  by (auto simp: redeem_def redeem_inner_def redeem_unique_def replay_result_def require_vouchers_enabled_def
      request_db_def txn_defs uuid4_def publish_def Let_def split: option.split)

section \<open>Properties\<close>

text \<open>C3. Issuing a voucher or a campaign and redeeming a code keep the voucher invariant: every
  redemption is backed by its own ledger row of the same account and amount, a unique voucher has at
  most one redemption (none while it is not marked redeemed), and a campaign never exceeds its total
  limit or its limit per account.\<close>

theorem voucher_calls_keep_invariant:
  assumes "voucher_ok db"
  shows "voucher_ok (snd (redeem env a code rq ip ua db)) \<and>
    voucher_ok (snd (issue_unique_voucher env code amount st vt ex camp batch db)) \<and>
    voucher_ok (snd (issue_shared_campaign env code amount tc pa st' vt sa ex db))"
  by (intro conjI keepsD [OF keeps_voucher_redeem assms surjective_pairing]
      keepsD [OF keeps_voucher_issue(1) assms surjective_pairing]
      keepsD [OF keeps_voucher_issue(2) assms surjective_pairing])

definition demo_voucher :: voucher where
  "demo_voucher = \<lparr>vch_code = ''GIFT1'', vch_mode = UNIQUE, vch_type = GIFT, vch_reward = FIXED_CREDIT,
     vch_amount = 5, vch_campaign = None, vch_batch = None, vch_status = VActive, vch_expires = None,
     vch_reason = [], vch_issuer = SystemIssuer, vch_issued_by = [], vch_revoked = None, vch_revoked_by = [],
     vch_created = 900, vch_updated = 900\<rparr>"

definition demo_campaign :: campaign where
  "demo_campaign = \<lparr>cmp_code = Some ''SUMMER'', cmp_mode = SHARED, cmp_type = PROMO, cmp_reward = FIXED_CREDIT,
     cmp_amount = 3, max_total = Some 2, max_per_account = Some 1, starts_at = None, cmp_expires = Some 2000,
     cmp_status = CActive, cmp_reason = [], cmp_issuer = SystemIssuer, cmp_issued_by = [], cmp_revoked = None,
     cmp_revoked_by = [], cmp_created = 900, cmp_updated = 900\<rparr>"

definition demo_voucher_db :: voucher_db where
  "demo_voucher_db = pricing_db.extend demo_pricing_db
     \<lparr>vouchers = [(1, demo_voucher)], campaigns = [(2, demo_campaign)], redemptions = []\<rparr>"

lemma demo_voucher_db_simps [simp]:
  "vouchers demo_voucher_db = [(1, demo_voucher)]" "campaigns demo_voucher_db = [(2, demo_campaign)]"
  "redemptions demo_voucher_db = []" "ledger demo_voucher_db = []" "next_uuid demo_voucher_db = 3"
  "clock demo_voucher_db = 1000" "accounts demo_voucher_db = accounts demo_db" "events demo_voucher_db = []"
  by (simp_all add: demo_voucher_db_def demo_pricing_db_def demo_db_def credit_db.defs pricing_db.defs)

lemma demo_voucher_db_ok: "voucher_ok demo_voucher_db"
  by (simp add: voucher_ok_defs voucher_row_ok_def campaign_row_ok_def voucher_uses_def campaign_uses_def
      campaign_uses_by_def tag_fresh_def)

theorem voucher_calls_keep_invariant_witness:
  "voucher_ok demo_voucher_db \<and> voucher_ok (snd (redeem demo_env 1 '' gift1'' [] [] [] demo_voucher_db))"
  using demo_voucher_db_ok voucher_calls_keep_invariant [OF demo_voucher_db_ok, where env = demo_env
      and code = "'' gift1''" and rq = "[]" and ip = "[]" and ua = "[]" and a = 1] by blast

text \<open>C8. What a redeem that returned did to the money. A replayed answer changes no account, ledger
  row or redemption, and reports the amount of an earlier redemption by the same account. A first
  answer found an active unique voucher or, where there is none under the code, an active shared
  campaign; it reports and pays the amount of that row: one new ledger row, of the account and with
  the normalized amount, moves only that account's balance, and one new redemption names the account,
  the amount, the voucher or campaign and the ledger row.\<close>

theorem redeem_pays_once:
  assumes "voucher_ok db" "redeem env a code rq ip ua db = (Inr res, db')"
  shows "if replay res then ledger db' = ledger db \<and> accounts db' = accounts db \<and> redemptions db' = redemptions db \<and>
      (\<exists>r \<in> set (redemptions db). red_account (snd r) = a \<and> credited res = red_amount (snd r))
    else \<exists>v c amount x e r.
      ((\<exists>k row. find_unique (normalize_voucher_code env code) (vouchers db) = Some (k, row) \<and>
          vch_status row = VActive \<and> amount = vch_amount row \<and> v = Some k \<and> c = None) \<or>
       (\<exists>k row. find_unique (normalize_voucher_code env code) (vouchers db) = None \<and>
          find_shared (normalize_voucher_code env code) (campaigns db) = Some (k, row) \<and>
          cmp_status row = CActive \<and> amount = cmp_amount row \<and> v = None \<and> c = Some k)) \<and>
      credited res = amount \<and> normalize_amount (DecimalArg (Finite amount)) = Inr x \<and>
      ledger db' = ledger db @ [e] \<and> entry_account e = a \<and> delta e = x \<and> res_balance res = balance_after e \<and>
      balance_of db' = (balance_of db)(a := balance_of db a + x) \<and>
      redemptions db' = redemptions db @ [r] \<and> red_entry (snd r) = Some (entry_id e) \<and>
      red_account (snd r) = a \<and> red_amount (snd r) = amount \<and> red_voucher (snd r) = v \<and> red_campaign (snd r) = c"
  by (rule redeem_ledger [OF assms])

lemma demo_redeem:
  "\<exists>res db'. redeem demo_env 1 '' gift1'' ''q'' [] [] demo_voucher_db = (Inr res, db') \<and> \<not> replay res \<and>
     map fst (accounts db') = [1, 2]"
proof -
  have [simp]: "normalize_voucher_code demo_env '' gift1'' = ''GIFT1''" "strip ''q'' = ''q''"
    "is_reserved_voucher_code demo_env ''GIFT1'' = False" by code_simp+
  have amt: "normalize_amount (DecimalArg (Finite 5)) = Inr 5" by (simp add: normalize_eval)
  show ?thesis
    by (simp add: redeem_def redeem_inner_def redeem_unique_def require_vouchers_enabled_def txn_defs Let_def
        demo_env_def [THEN arg_cong, of BILLING_ENABLED] demo_env_def [THEN arg_cong, of VOUCHERS_ENABLED]
        find_unique_def demo_voucher_def credit_amount_for_reward_def grant_redemption_def uuid4_def
        save_redemption_def new_redemption_def credit_def apply_credit_def apply_seen_def amt apply_locked_def
        demo_db_def find_entry_def insert_entry_def new_entry_def NUMERIC_20_6_def save_account_def
        save_voucher_status_def publish_def)
qed

theorem redeem_pays_once_witness:
  "\<exists>res db'. redeem demo_env 1 '' gift1'' ''q'' [] [] demo_voucher_db = (Inr res, db') \<and>
     \<not> replay res \<and> length (ledger db') = 1"
proof -
  obtain res db' where run: "redeem demo_env 1 '' gift1'' ''q'' [] [] demo_voucher_db = (Inr res, db')"
    "\<not> replay res" using demo_redeem by blast
  then show ?thesis using redeem_pays_once [OF demo_voucher_db_ok run(1)] by auto
qed

text \<open>A unique voucher pays one account once. After a redeem of it returned for account \<open>a\<close>, a
  later redeem of the same code (however it is typed) pays nothing: \<open>a\<close> gets the first answer back,
  marked as a replay, and any other account gets \<open>VoucherInvalidError\<close>.\<close>

theorem unique_voucher_single_use:
  assumes "voucher_ok db" "redeem env a code rq ip ua db = (Inr res, db')"
    and "find_unique (normalize_voucher_code env code) (vouchers db) = Some vch"
    and "normalize_voucher_code env code' = normalize_voucher_code env code"
    and "map_of (accounts db') b = Some arow"
  shows "ledger (snd (redeem env b code' rq' ip' ua' db')) = ledger db' \<and>
    (if b = a then \<exists>res'. fst (redeem env b code' rq' ip' ua' db') = Inr res' \<and> replay res' \<and> credited res' = credited res
     else fst (redeem env b code' rq' ip' ua' db') = Inl (EVoucher VoucherInvalidError))"
proof -
  obtain v row where vch: "vch = (v, row)" by fastforce
  have ok': "voucher_ok db'" using keepsD [OF keeps_voucher_redeem assms(1,2)] .
  from redeem_unique_after [OF assms(1,2) assms(3) [unfolded vch]] obtain row' r where
    found: "find_unique (normalize_voucher_code env code) (vouchers db') = Some (v, row')"
    and st: "vch_status row' = VRedeemed" and r: "r \<in> set (redemptions db')" "red_voucher (snd r) = Some v"
      "red_account (snd r) = a" "credited res = red_amount (snd r)"
    by blast
  have "voucher_uses v (redemptions db') \<le> 1"
    using voucher_okD(8) [OF ok' find_unique_Some [OF found]] st by (simp add: voucher_row_ok_def)
  then have only: "r' = r" if "r' \<in> set (redemptions db')" "red_voucher (snd r') = Some v" for r'
    using that r(1,2) unfolding voucher_uses_def by (auto intro: filter_le_one)
  have e: "earliest (filter (\<lambda>r. red_voucher (snd r) = Some v \<and> red_account (snd r) = b) (redemptions db')) =
      (if b = a then Some r else None)" (is "?e = _")
  proof (cases "b = a")
    case True
    then have "?e \<noteq> None" using r by (auto simp: earliest_None filter_empty_conv)
    then obtain r' where r': "?e = Some r'" by blast
    from earliest_Some [OF r'] only have "r' = r" by simp
    with r' True show ?thesis by simp
  next
    case False
    then show ?thesis using only r(3) by (auto simp: earliest_None filter_empty_conv)
  qed
  from redeem_Inr [OF assms(2)] have
    on: "BILLING_ENABLED env" "VOUCHERS_ENABLED env" "normalize_voucher_code env code' \<noteq> []"
      "\<not> is_reserved_voucher_code env (normalize_voucher_code env code')"
    unfolding assms(4) by blast+
  from redeem_redeemed [OF on found [folded assms(4)] st assms(5), of rq' ip' ua'] show ?thesis
    unfolding e by (cases "b = a") (auto simp: r(4))
qed

theorem unique_voucher_single_use_witness:
  "\<exists>res db'. redeem demo_env 1 '' gift1'' ''q'' [] [] demo_voucher_db = (Inr res, db') \<and>
     fst (redeem demo_env 2 ''GIFT1'' ''z'' [] [] db') = Inl (EVoucher VoucherInvalidError)"
proof -
  obtain res db' where run: "redeem demo_env 1 '' gift1'' ''q'' [] [] demo_voucher_db = (Inr res, db')"
    and acc: "map fst (accounts db') = [1, 2]" using demo_redeem by metis
  have n: "normalize_voucher_code demo_env '' gift1'' = ''GIFT1''"
    "normalize_voucher_code demo_env ''GIFT1'' = normalize_voucher_code demo_env '' gift1''" by code_simp+
  have f: "find_unique (normalize_voucher_code demo_env '' gift1'') (vouchers demo_voucher_db) = Some (1, demo_voucher)"
    by (simp add: n(1) find_unique_def demo_voucher_def)
  have "2 \<in> set (map fst (accounts db'))" unfolding acc by simp
  then obtain arow where "map_of (accounts db') 2 = Some arow"
    by (metis list.set_map map_of_eq_None_iff option.exhaust)
  from unique_voucher_single_use [OF demo_voucher_db_ok run f n(2) this] run show ?thesis by auto
qed

text \<open>Typing does not matter, for ASCII codes: the normal form of a code is unchanged by
  normalizing again, by case, and by surrounding white space.\<close>

theorem voucher_code_normal_form:
  assumes "\<And>s. ascii s \<Longrightarrow> nfkc env s = s" "ascii code"
  shows "normalize_voucher_code env (normalize_voucher_code env code) = normalize_voucher_code env code \<and>
    normalize_voucher_code env (lower code) = normalize_voucher_code env code \<and>
    normalize_voucher_code env (strip code) = normalize_voucher_code env code"
  using assms
  by (simp add: normalize_voucher_code_def ascii_upper ascii_lower ascii_strip strip_upper strip_lower)

theorem voucher_code_normal_form_witness:
  "normalize_voucher_code demo_env (lower '' Gift1 '') = normalize_voucher_code demo_env '' Gift1 ''"
  using voucher_code_normal_form [of demo_env "'' Gift1 ''"] by (simp add: demo_env_def ascii_def)

text \<open>A code names at most one voucher or campaign: issuing under a code that is taken, in either
  table, or reserved raises \<open>ValueError\<close>, and a successful issue keeps all codes distinct.\<close>

theorem issue_keeps_codes_distinct:
  assumes "voucher_ok db" "distinct (codes_of db)"
  shows "distinct (codes_of (snd (issue_unique_voucher env code amount st vt ex camp batch db))) \<and>
    distinct (codes_of (snd (issue_shared_campaign env code amount tc pa st' vt sa ex db))) \<and>
    (normalize_voucher_code env code \<in> set (codes_of db) \<or>
     is_reserved_voucher_code env (normalize_voucher_code env code) \<longrightarrow>
       issue_unique_voucher env code amount st vt ex camp batch db = (Inl (EPy ValueError), db) \<and>
       issue_shared_campaign env code amount tc pa st' vt sa ex db = (Inl (EPy ValueError), db))"
proof -
  let ?u = "issue_unique_voucher env code amount st vt ex camp batch db"
  let ?s = "issue_shared_campaign env code amount tc pa st' vt sa ex db"
  have new: "next_uuid db \<notin> fst ` set (vouchers db)" "next_uuid db \<notin> fst ` set (campaigns db)"
    using voucher_okD(5,6) [OF assms(1)] by force+
  have "distinct (codes_of db')" if u: "?u = (r, db')" for r db'
  proof (cases r)
    case (Inr pk)
    then show ?thesis
      using issue_unique_Inr [OF u [unfolded Inr] new(1)] assms(2) by (fastforce simp: codes_of_def)
  qed (use u assms(2) in \<open>auto dest: issue_Inl(1)\<close>)
  moreover have "distinct (codes_of db')" if s: "?s = (r, db')" for r db'
  proof (cases r)
    case (Inr pk)
    then show ?thesis
      using issue_shared_Inr [OF s [unfolded Inr] new(2)] assms(2)
      by (fastforce simp: codes_of_def map_filter_snoc)
  qed (use s assms(2) in \<open>auto dest: issue_Inl(2)\<close>)
  moreover have "?u = (Inl (EPy ValueError), db) \<and> ?s = (Inl (EPy ValueError), db)"
    if "normalize_voucher_code env code \<in> set (codes_of db) \<or>
      is_reserved_voucher_code env (normalize_voucher_code env code)"
    using that
    by (auto simp: issue_unique_voucher_def issue_shared_campaign_def assert_code_available_def txn_defs
        Let_def mem_codes_of)
  ultimately show ?thesis by (metis surjective_pairing)
qed

theorem issue_keeps_codes_distinct_witness:
  "voucher_ok demo_voucher_db \<and> distinct (codes_of demo_voucher_db) \<and>
   issue_shared_campaign demo_env ''gift1'' 4 None None CActive PROMO None None demo_voucher_db =
     (Inl (EPy ValueError), demo_voucher_db)"
proof -
  have d: "distinct (codes_of demo_voucher_db)"
    by (simp add: codes_of_def List.map_filter_def demo_voucher_def demo_campaign_def)
  have "normalize_voucher_code demo_env ''gift1'' = ''GIFT1''" by code_simp
  then have "normalize_voucher_code demo_env ''gift1'' \<in> set (codes_of demo_voucher_db)"
    by (simp add: codes_of_def demo_voucher_def)
  then show ?thesis
    using issue_keeps_codes_distinct [OF demo_voucher_db_ok d] d demo_voucher_db_ok by blast
qed

text \<open>A campaign at its limit: with a limit of one per account, the account that redeemed gets its
  answer replayed; with the total limit used up, an account that has not redeemed gets
  \<open>VoucherLimitError\<close>. Neither pays.\<close>

theorem campaign_at_limit:
  assumes "BILLING_ENABLED env" "VOUCHERS_ENABLED env" "normalize_voucher_code env code = n" "n \<noteq> []"
    and "\<not> is_reserved_voucher_code env n" "find_unique n (vouchers db) = None"
    and "find_shared n (campaigns db) = Some (c, row)" "cmp_status row = CActive"
    and "starts_at row = None" "\<And>t. cmp_expires row = Some t \<Longrightarrow> clock db < t"
    and "max_per_account row = Some 1" "map_of (accounts db) a = Some arow" "strip rq \<noteq> []"
  shows "(0 < campaign_uses_by c a (redemptions db) \<longrightarrow>
      (\<exists>res. redeem env a code rq ip ua db = (Inr res, db) \<and> replay res)) \<and>
    (campaign_uses_by c a (redemptions db) = 0 \<and> max_total row = Some (campaign_uses c (redemptions db)) \<longrightarrow>
      redeem env a code rq ip ua db = (Inl (EVoucher VoucherLimitError), db))"
proof -
  let ?mine = "filter (\<lambda>r. red_campaign (snd r) = Some c \<and> red_account (snd r) = a) (redemptions db)"
  have live: "\<not> (case cmp_expires row of None \<Rightarrow> False | Some t \<Rightarrow> t \<le> clock db)"
    using assms(10) by (force split: option.splits)
  have "\<exists>res. redeem env a code rq ip ua db = (Inr res, db) \<and> replay res"
    if some: "0 < campaign_uses_by c a (redemptions db)"
  proof -
    from some have "earliest ?mine \<noteq> None" by (auto simp: earliest_None campaign_uses_by_def)
    then obtain r where "earliest ?mine = Some r" by blast
    with some assms live show ?thesis
      by (simp add: redeem_def redeem_inner_def redeem_shared_def replay_result_def publish_def
          require_vouchers_enabled_def txn_defs Let_def)
  qed
  moreover have "redeem env a code rq ip ua db = (Inl (EVoucher VoucherLimitError), db)"
    if "campaign_uses_by c a (redemptions db) = 0" "max_total row = Some (campaign_uses c (redemptions db))"
    using that assms live
    by (simp add: redeem_def redeem_inner_def redeem_shared_def require_vouchers_enabled_def txn_defs Let_def)
  ultimately show ?thesis by blast
qed

theorem campaign_at_limit_witness:
  "redeem demo_env 1 ''summer'' ''q'' [] [] (demo_voucher_db\<lparr>campaigns := [(2, demo_campaign\<lparr>max_total := Some 0\<rparr>)]\<rparr>) =
     (Inl (EVoucher VoucherLimitError), demo_voucher_db\<lparr>campaigns := [(2, demo_campaign\<lparr>max_total := Some 0\<rparr>)]\<rparr>)"
proof -
  have n: "normalize_voucher_code demo_env ''summer'' = ''SUMMER''" "strip ''q'' \<noteq> []"
    "\<not> is_reserved_voucher_code demo_env ''SUMMER''" by code_simp+
  show ?thesis
    using campaign_at_limit [OF _ _ n(1) _ n(3) _ _ _ _ _ _ _ n(2), where a = 1 and
        db = "demo_voucher_db\<lparr>campaigns := [(2, demo_campaign\<lparr>max_total := Some 0\<rparr>)]\<rparr>"]
    by (simp add: demo_env_def find_unique_def find_shared_def demo_voucher_def demo_campaign_def demo_db_def
        campaign_uses_by_def campaign_uses_def)
qed

end
