(* ===== verification/Wallet.thy ===== *)
theory Wallet
  imports Vouchers
begin

text \<open>
  The platform wallet, \<^verbatim>\<open>wallet/\<close>: receive addresses and their derivation indices
  (\<open>allocation.py\<close>, \<open>hd.py\<close>), deposit observations and the confirmation policy
  (\<open>observation.py\<close>, \<open>confirmation.py\<close>), the conversion of a confirmed observation into
  credits (\<open>conversion.py\<close>), the cutover flags (\<open>flags.py\<close>) and the operator jobs
  (\<open>ops.py\<close>, \<open>backfill.py\<close>). The identity row of an account is locked while its addresses
  are read, the index registry as a whole is not: an attempt takes the registry it read the
  next index from as an argument, and the retry loop runs attempts that read the current one.
\<close>

section \<open>Data\<close>

definition POLYGON :: string where
  "POLYGON = ''polygon''"

datatype address_status = AActive | ARetired

record wallet_address =
  wa_identity :: nat
  wa_chain :: string
  wa_address :: string
  wa_index :: nat
  wa_status :: address_status
  wa_created :: int
  wa_retired :: "int option"

datatype obs_status =
  Observed | PendingConfirmation | Confirmed | ConversionStarted | Credited | Rejected | Expired

record observation =
  obs_address :: nat
  obs_chain :: string
  obs_tx :: string
  obs_log :: int
  obs_status :: obs_status
  obs_amount :: rat
  obs_token :: string
  obs_from :: string
  obs_confirmations :: int
  obs_block :: "int option"
  obs_reason :: string
  obs_shadow :: bool
  observed_at :: int
  pending_at :: "int option"
  confirmed_at :: "int option"
  conversion_started_at :: "int option"
  credited_at :: "int option"
  rejected_at :: "int option"
  expired_at :: "int option"

record wallet_db = voucher_db +
  identities :: "(nat \<times> nat) list"
  addresses :: "(nat \<times> wallet_address) list"
  observations :: "(nat \<times> observation) list"

type_synonym ('x, 'a) wallet_txn = "('x wallet_db_scheme, 'a) txn"

section \<open>Cutover flags\<close>

text \<open>\<^verbatim>\<open>UUID(text)\<close>: the key a rendered primary key stands for, \<open>None\<close> where it raises.\<close>

definition parse_uuid :: "string \<Rightarrow> nat option" where
  "parse_uuid text = (if text = str_nat (read_nat text) then Some (read_nat text) else None)"

definition parse_cutover_cohort_account_ids :: "string \<Rightarrow> nat set" where
  "parse_cutover_cohort_account_ids raw =
     set (List.map_filter (\<lambda>part. let text = strip part in if text = [] then None else parse_uuid text)
       (split_on (CHR '','') raw))"

definition is_in_cutover_cohort :: "env \<Rightarrow> nat \<Rightarrow> bool" where
  "is_in_cutover_cohort env a \<longleftrightarrow>
     a \<in> parse_cutover_cohort_account_ids (WALLET_CUTOVER_COHORT_ACCOUNT_IDS env)"

definition should_expose_wallet_address :: "env \<Rightarrow> nat \<Rightarrow> bool" where
  "should_expose_wallet_address env a \<longleftrightarrow> WALLET_ADDRESS_ENABLED env \<and> is_in_cutover_cohort env a"

definition should_use_credit_conversion_v2 :: "env \<Rightarrow> nat \<Rightarrow> bool" where
  "should_use_credit_conversion_v2 env a \<longleftrightarrow> CREDIT_CONVERSION_V2 env \<and> is_in_cutover_cohort env a"

definition should_use_wallet_money_path :: "env \<Rightarrow> nat \<Rightarrow> bool" where
  "should_use_wallet_money_path env a \<longleftrightarrow>
     WALLET_ADDRESS_ENABLED env \<and> OBSERVATION_ENABLED env \<and> CREDIT_CONVERSION_V2 env \<and>
     is_in_cutover_cohort env a"

section \<open>Addresses\<close>

definition normalize_evm_address :: "string \<Rightarrow> string" where
  "normalize_evm_address value =
     (let text = lower (strip value);
          text = (if starts_with ''0x'' text then drop 2 text else text)
      in if text = [] then ''0x''
         else let padded = zfill 40 text in ''0x'' @ drop (length padded - 40) padded)"

definition derive_evm_address :: "env \<Rightarrow> string \<Rightarrow> int \<Rightarrow> exc + string" where
  "derive_evm_address env mnemonic derivation_index =
     (let seed = strip mnemonic
      in if seed = [] then Inl (EWallet WalletSeedNotConfiguredError)
         else if derivation_index < 0 then Inl (EPy ValueError)
         else case hd_address env seed (''m/44'' @ [char_of (39 :: nat)] @ ''/60'' @ [char_of (39 :: nat)] @
                  ''/0'' @ [char_of (39 :: nat)] @ ''/0/'' @ str_nat (nat derivation_index)) of
                Inl e \<Rightarrow> Inl e
              | Inr address \<Rightarrow> Inr (normalize_evm_address address))"

definition next_derivation_index :: "(nat \<times> wallet_address) list \<Rightarrow> nat" where
  "next_derivation_index rows = (if rows = [] then 0 else Suc (Max ((\<lambda>r. wa_index (snd r)) ` set rows)))"

text \<open>\<^verbatim>\<open>WalletAddress.objects.create\<close> with the table's three unique constraints.\<close>

definition address_conflict :: "(nat \<times> wallet_address) list \<Rightarrow> wallet_address \<Rightarrow> bool" where
  "address_conflict rows new \<longleftrightarrow> (\<exists>r \<in> set rows.
     wa_index (snd r) = wa_index new \<or>
     wa_identity (snd r) = wa_identity new \<and> wa_chain (snd r) = wa_chain new \<and> wa_address (snd r) = wa_address new \<or>
     wa_identity (snd r) = wa_identity new \<and> wa_chain (snd r) = wa_chain new \<and>
       wa_status (snd r) = AActive \<and> wa_status new = AActive)"

definition create_address :: "wallet_address \<Rightarrow> ('x, nat) wallet_txn" where
  "create_address new =
     bindE uuid4 (\<lambda>pk.
     bindE (getsE addresses) (\<lambda>rows.
     if address_conflict rows new then raiseE (EPy IntegrityError)
     else thenE (modifyE (\<lambda>db. db\<lparr>addresses := AList.update pk new (addresses db)\<rparr>)) (ret pk)))"

definition allocate_new ::
  "env \<Rightarrow> (nat \<times> wallet_address) list \<Rightarrow> nat \<Rightarrow> string \<Rightarrow> ('x, nat) wallet_txn" where
  "allocate_new env seen i chain =
     (let derivation_index = next_derivation_index seen
      in bindE (liftE (derive_evm_address env (WALLET_HD_MNEMONIC env) (int derivation_index))) (\<lambda>address.
         bindE (getsE clock) (\<lambda>now.
         create_address \<lparr>wa_identity = i, wa_chain = chain, wa_address = address, wa_index = derivation_index,
                         wa_status = AActive, wa_created = now, wa_retired = None\<rparr>)))"

definition lock_identity :: "nat \<Rightarrow> ('x, nat) wallet_txn" where
  "lock_identity a =
     bindE (getsE (\<lambda>db. find (\<lambda>r. snd r = a) (identities db))) (\<lambda>found.
     case found of
       Some r \<Rightarrow> ret (fst r)
     | None \<Rightarrow>
         bindE uuid4 (\<lambda>pk.
         thenE (modifyE (\<lambda>db. db\<lparr>identities := AList.update pk a (identities db)\<rparr>)) (ret pk)))"

definition active_addresses :: "nat \<Rightarrow> string \<Rightarrow> (nat \<times> wallet_address) list \<Rightarrow> (nat \<times> wallet_address) list" where
  "active_addresses i chain rows =
     filter (\<lambda>r. wa_identity (snd r) = i \<and> wa_chain (snd r) = chain \<and> wa_status (snd r) = AActive) rows"

definition ensure_active_address_once ::
  "env \<Rightarrow> (nat \<times> wallet_address) list \<Rightarrow> nat \<Rightarrow> string \<Rightarrow> ('x, nat) wallet_txn" where
  "ensure_active_address_once env seen a chain =
     atomic (
       bindE (lock_identity a) (\<lambda>i.
       bindE (getsE (\<lambda>db. sort_key (\<lambda>r. wa_index (snd r)) (active_addresses i chain (addresses db)))) (\<lambda>rows.
       case rows of
         r # _ \<Rightarrow> ret (fst r)
       | [] \<Rightarrow> allocate_new env seen i chain)))"

definition rotate_active_address_once ::
  "env \<Rightarrow> (nat \<times> wallet_address) list \<Rightarrow> nat \<Rightarrow> string \<Rightarrow> ('x, nat) wallet_txn" where
  "rotate_active_address_once env seen a chain =
     atomic (
       bindE (lock_identity a) (\<lambda>i.
       bindE (getsE (\<lambda>db. sort_key (\<lambda>r. wa_index (snd r)) (active_addresses i chain (addresses db)))) (\<lambda>rows.
       case rows of
         [] \<Rightarrow> raiseE (EWallet WalletAddressNotFoundError)
       | r # _ \<Rightarrow>
           bindE (getsE clock) (\<lambda>now.
           thenE (modifyE (\<lambda>db. db\<lparr>addresses := AList.update (fst r)
                    ((snd r)\<lparr>wa_status := ARetired, wa_retired := Some now\<rparr>) (addresses db)\<rparr>))
             (allocate_new env seen i chain)))))"

definition MAX_INDEX_RETRIES :: nat where
  "MAX_INDEX_RETRIES = 8"

definition ensure_active_address :: "env \<Rightarrow> nat \<Rightarrow> string \<Rightarrow> ('x, nat) wallet_txn" where
  "ensure_active_address env a chain =
     retry MAX_INDEX_RETRIES (bindE (getsE addresses) (\<lambda>seen. ensure_active_address_once env seen a chain))
       (raiseE (EWallet WalletAllocationError))"

definition rotate_active_address :: "env \<Rightarrow> nat \<Rightarrow> string \<Rightarrow> ('x, nat) wallet_txn" where
  "rotate_active_address env a chain =
     retry MAX_INDEX_RETRIES (bindE (getsE addresses) (\<lambda>seen. rotate_active_address_once env seen a chain))
       (raiseE (EWallet WalletAllocationError))"

section \<open>Confirmation policy\<close>

datatype confirmation_outcome = OPending | OConfirmed | ORejected

definition min_confirmations_of :: "env \<Rightarrow> string \<Rightarrow> exc + int" where
  "min_confirmations_of env chain =
     (if chain = POLYGON then Inr (POLYGON_MIN_CONFIRMATIONS env) else Inl (EPy ValueError))"

definition accepted_token_contract :: "env \<Rightarrow> string \<Rightarrow> exc + string" where
  "accepted_token_contract env chain =
     (if chain = POLYGON then Inr (normalize_evm_address (POLYGON_USDT_CONTRACT env)) else Inl (EPy ValueError))"

definition str_int :: "int \<Rightarrow> string" where
  "str_int i = (if i < 0 then CHR ''-'' # str_nat (nat (- i)) else str_nat (nat i))"

definition evaluate_policy :: "env \<Rightarrow> observation \<Rightarrow> exc + confirmation_outcome \<times> string" where
  "evaluate_policy env obs =
     (case accepted_token_contract env (obs_chain obs) of
        Inl e \<Rightarrow> Inl e
      | Inr accepted \<Rightarrow>
          if normalize_evm_address (obs_token obs) \<noteq> accepted then Inr (ORejected, ''unaccepted_asset'')
          else (case min_confirmations_of env (obs_chain obs) of
                  Inl e \<Rightarrow> Inl e
                | Inr required \<Rightarrow>
                    if obs_confirmations obs < required
                    then Inr (OPending, ''insufficient_confirmations:'' @ str_int (obs_confirmations obs) @
                                ''<'' @ str_int required)
                    else Inr (OConfirmed, [])))"

section \<open>Observations\<close>

definition TERMINAL :: "obs_status list" where
  "TERMINAL = [Confirmed, ConversionStarted, Credited, Rejected, Expired]"

definition normalize_tx_hash_with :: "exc \<Rightarrow> string \<Rightarrow> exc + string" where
  "normalize_tx_hash_with ex value =
     (let text = lower (strip value);
          text = (if starts_with ''0x'' text then text else ''0x'' @ text)
      in if length text \<noteq> 66 then Inl ex
         else if py_int_hex text = None then Inl ex
         else Inr text)"

definition normalize_tx_hash :: "string \<Rightarrow> exc + string" where
  "normalize_tx_hash value = normalize_tx_hash_with (EPy ValueError) value"

record observation_signal =
  sig_chain :: string
  sig_tx :: string
  sig_log :: int
  sig_to :: string
  sig_amount :: rat
  sig_token :: string
  sig_confirmations :: int
  sig_from :: string
  sig_block :: "int option"

definition save_observation :: "nat \<Rightarrow> observation \<Rightarrow> ('x, unit) wallet_txn" where
  "save_observation pk o' = modifyE (\<lambda>db. db\<lparr>observations := AList.update pk o' (observations db)\<rparr>)"

definition get_observation :: "nat \<Rightarrow> ('x, observation) wallet_txn" where
  "get_observation pk =
     bindE (getsE (\<lambda>db. map_of (observations db) pk)) (get_or_raise (EPy ObjectDoesNotExist))"

definition policy_row :: "int \<Rightarrow> confirmation_outcome \<Rightarrow> string \<Rightarrow> observation \<Rightarrow> observation" where
  "policy_row now outcome reason obs =
     (case outcome of
        OPending \<Rightarrow>
          (if obs_status obs \<noteq> PendingConfirmation
           then obs\<lparr>obs_status := PendingConfirmation,
                    pending_at := (case pending_at obs of None \<Rightarrow> Some now | Some t \<Rightarrow> Some t),
                    obs_reason := reason\<rparr>
           else obs\<lparr>obs_reason := reason\<rparr>)
      | ORejected \<Rightarrow> obs\<lparr>obs_status := Rejected, rejected_at := Some now, obs_reason := reason\<rparr>
      | OConfirmed \<Rightarrow> obs\<lparr>obs_status := Confirmed, confirmed_at := Some now, obs_reason := []\<rparr>)"

definition apply_policy :: "env \<Rightarrow> nat \<Rightarrow> observation \<Rightarrow> ('x, nat) wallet_txn" where
  "apply_policy env pk obs =
     (if obs_status obs \<in> set TERMINAL then ret pk
      else if obs_status obs \<notin> {Observed, PendingConfirmation} then ret pk
      else
        bindE (liftE (evaluate_policy env obs)) (\<lambda>(outcome, reason).
        bindE (getsE clock) (\<lambda>now.
        thenE (save_observation pk (policy_row now outcome reason obs)) (ret pk))))"

definition refresh_locked :: "env \<Rightarrow> nat \<Rightarrow> observation \<Rightarrow> int \<Rightarrow> ('x, nat) wallet_txn" where
  "refresh_locked env pk obs confirmations =
     (if obs_status obs \<in> set TERMINAL then ret pk
      else
        (let obs1 = (if confirmations > obs_confirmations obs
                     then obs\<lparr>obs_confirmations := confirmations\<rparr> else obs)
         in bindE (getsE clock) (\<lambda>now.
            let obs2 = (if obs_status obs1 = Observed
                        then obs1\<lparr>obs_status := PendingConfirmation, pending_at := Some now\<rparr> else obs1)
            in thenE (save_observation pk obs2) (apply_policy env pk obs2))))"

definition find_observation ::
  "string \<Rightarrow> string \<Rightarrow> int \<Rightarrow> (nat \<times> observation) list \<Rightarrow> (nat \<times> observation) option" where
  "find_observation chain tx lidx rows =
     find (\<lambda>r. obs_chain (snd r) = chain \<and> obs_tx (snd r) = tx \<and> obs_log (snd r) = lidx) rows"

text \<open>
  \<^verbatim>\<open>DepositObservation.objects.create\<close>: the amount column has six places and fourteen digits in
  front of the point, the counters are not negative and the identity is unique.
\<close>

definition POSITIVE_INT_MAX :: int where
  "POSITIVE_INT_MAX = 2147483647"

definition create_observation :: "observation \<Rightarrow> ('x, nat \<times> observation) wallet_txn" where
  "create_observation obs =
     bindE uuid4 (\<lambda>pk.
     bindE (getsE observations) (\<lambda>rows.
     let stored = obs\<lparr>obs_amount := quantize_half_up MONEY_QUANT (obs_amount obs)\<rparr>
     in if NUMERIC_20_6 \<le> \<bar>obs_amount stored\<bar> \<or> POSITIVE_INT_MAX < obs_log obs \<or>
           POSITIVE_INT_MAX < obs_confirmations obs
        then raiseE (EPy DataError)
        else if obs_amount stored \<le> 0 \<or> obs_log obs < 0 \<or> obs_confirmations obs < 0 \<or>
           (case obs_block obs of None \<Rightarrow> False | Some b \<Rightarrow> b < 0) \<or>
           find_observation (obs_chain obs) (obs_tx obs) (obs_log obs) rows \<noteq> None
        then raiseE (EPy IntegrityError)
        else thenE (save_observation pk stored) (ret (pk, stored))))"

text \<open>\<open>seen\<close> is the table the locked lookup read; a row with this identity may be committed before
  the insert.\<close>

definition ingest_once ::
  "env \<Rightarrow> (nat \<times> observation) list \<Rightarrow> nat \<Rightarrow> string \<Rightarrow> string \<Rightarrow> int \<Rightarrow> rat \<Rightarrow> string \<Rightarrow> string \<Rightarrow> int \<Rightarrow>
   int option \<Rightarrow> bool \<Rightarrow> ('x, nat) wallet_txn" where
  "ingest_once env seen wa chain tx lidx amount token from_address confirmations block shadow =
     (case find_observation chain tx lidx seen of
        Some r \<Rightarrow>
          bindE (get_observation (fst r)) (\<lambda>obs. refresh_locked env (fst r) obs confirmations)
      | None \<Rightarrow>
          bindE (getsE clock) (\<lambda>now.
          bindE (create_observation
            \<lparr>obs_address = wa, obs_chain = chain, obs_tx = tx, obs_log = lidx, obs_status = Observed,
             obs_amount = amount, obs_token = token, obs_from = from_address,
             obs_confirmations = confirmations, obs_block = block, obs_reason = [], obs_shadow = shadow,
             observed_at = now, pending_at = None, confirmed_at = None, conversion_started_at = None,
             credited_at = None, rejected_at = None, expired_at = None\<rparr>) (\<lambda>(pk, obs).
          let obs1 = obs\<lparr>obs_status := PendingConfirmation, pending_at := Some now\<rparr>
          in thenE (save_observation pk obs1) (apply_policy env pk obs1))))"

definition newest_address :: "string \<Rightarrow> string \<Rightarrow> (nat \<times> wallet_address) list \<Rightarrow> (nat \<times> wallet_address) option" where
  "newest_address chain address rows =
     (case sort_key (\<lambda>r. - wa_created (snd r))
             (filter (\<lambda>r. wa_chain (snd r) = chain \<and> wa_address (snd r) = address) rows) of
        [] \<Rightarrow> None | r # _ \<Rightarrow> Some r)"

text \<open>After five lost races the row is there: \<^verbatim>\<open>ingest\<close> refreshes it.\<close>

definition ingest_existing :: "env \<Rightarrow> string \<Rightarrow> string \<Rightarrow> int \<Rightarrow> int \<Rightarrow> ('x, nat) wallet_txn" where
  "ingest_existing env chain tx lidx confirmations =
     bindE (getsE (\<lambda>db. find_observation chain tx lidx (observations db))) (\<lambda>found.
     bindE (get_or_raise (EPy ObjectDoesNotExist) found) (\<lambda>r.
     refresh_locked env (fst r) (snd r) confirmations))"

definition ingest_attempt ::
  "env \<Rightarrow> observation_signal \<Rightarrow> nat \<Rightarrow> string \<Rightarrow> string \<Rightarrow> bool \<Rightarrow> ('x, nat) wallet_txn" where
  "ingest_attempt env signal wa chain tx shadow =
     (let token = normalize_evm_address (sig_token signal);
          from_address = (if sig_from signal = [] then [] else normalize_evm_address (sig_from signal))
      in bindE (getsE observations) (\<lambda>seen.
         atomic (ingest_once env seen wa chain tx (sig_log signal) (sig_amount signal) token from_address
           (sig_confirmations signal) (sig_block signal) shadow)))"

definition ingest :: "env \<Rightarrow> observation_signal \<Rightarrow> bool \<Rightarrow> ('x, nat) wallet_txn" where
  "ingest env signal shadow =
     (let chain = (if sig_chain signal = [] then POLYGON else sig_chain signal)
      in bindE (liftE (normalize_tx_hash (sig_tx signal))) (\<lambda>tx.
         bindE (getsE (\<lambda>db. newest_address chain (normalize_evm_address (sig_to signal)) (addresses db))) (\<lambda>wa.
         case wa of
           None \<Rightarrow> raiseE (EWallet ObservationAttributionError)
         | Some w \<Rightarrow>
             retry 5 (ingest_attempt env signal (fst w) chain tx shadow)
               (ingest_existing env chain tx (sig_log signal) (sig_confirmations signal)))))"

definition advance_confirmation :: "env \<Rightarrow> nat \<Rightarrow> ('x, nat) wallet_txn" where
  "advance_confirmation env pk = atomic (bindE (get_observation pk) (\<lambda>obs. apply_policy env pk obs))"

definition expire :: "nat \<Rightarrow> ('x, nat) wallet_txn" where
  "expire pk =
     atomic (
       bindE (get_observation pk) (\<lambda>obs.
       if obs_status obs \<in> set TERMINAL
       then (if obs_status obs = Expired then ret pk else raiseE (EWallet ObservationTransitionError))
       else
         bindE (getsE clock) (\<lambda>now.
         thenE (save_observation pk
                  (obs\<lparr>obs_status := Expired, expired_at := Some now,
                       obs_reason := (if obs_reason obs = [] then ''observation_window_timeout''
                                      else obs_reason obs)\<rparr>))
           (ret pk))))"

section \<open>Conversion\<close>

definition observation_idempotency_key :: "observation \<Rightarrow> string" where
  "observation_idempotency_key obs =
     ''wallet-obs:'' @ obs_chain obs @ '':'' @ obs_tx obs @ '':'' @ str_int (obs_log obs)"

text \<open>\<^verbatim>\<open>observation.wallet_address.wallet_identity.account\<close>\<close>

definition observation_account :: "'x wallet_db_scheme \<Rightarrow> observation \<Rightarrow> nat option" where
  "observation_account db obs =
     (case map_of (addresses db) (obs_address obs) of
        None \<Rightarrow> None
      | Some wa \<Rightarrow> map_of (identities db) (wa_identity wa))"

definition credit_and_finish :: "nat \<Rightarrow> observation \<Rightarrow> ('x, ledger_entry) wallet_txn" where
  "credit_and_finish pk obs =
     bindE (getsE (\<lambda>db. observation_account db obs)) (\<lambda>acc.
     bindE (get_or_raise (EPy ObjectDoesNotExist) acc) (\<lambda>a.
     bindE (credit a (DecimalArg (Finite (obs_amount obs))) (RefEnum DEPOSIT) (str_nat pk)
              (observation_idempotency_key obs)) (\<lambda>entry.
     if obs_status obs \<noteq> Credited
     then bindE (getsE clock) (\<lambda>now.
          thenE (save_observation pk (obs\<lparr>obs_status := Credited, credited_at := Some now, obs_reason := []\<rparr>))
            (ret entry))
     else ret entry)))"

definition convert :: "nat \<Rightarrow> ('x, ledger_entry) wallet_txn" where
  "convert pk =
     atomic (
       bindE (get_observation pk) (\<lambda>obs.
       if obs_status obs = Credited
       then bindE (getsE (\<lambda>db. find_entry (observation_idempotency_key obs) (ledger db)))
              (get_or_raise (EWallet ObservationTransitionError))
       else if obs_shadow obs then raiseE (EWallet ObservationTransitionError)
       else if obs_status obs = ConversionStarted then credit_and_finish pk obs
       else if obs_status obs \<noteq> Confirmed then raiseE (EWallet ObservationTransitionError)
       else
         bindE (getsE clock) (\<lambda>now.
         let obs1 = obs\<lparr>obs_status := ConversionStarted, conversion_started_at := Some now\<rparr>
         in thenE (save_observation pk obs1) (credit_and_finish pk obs1))))"

section \<open>Operator jobs\<close>

datatype convert_action = SkippedNotInCohort | WouldConvert | CreditedAction string | ErrorAction exc

record resume_report =
  res_candidates :: nat
  res_credited :: nat
  res_errors :: nat
  res_skipped :: nat
  res_results :: "(nat \<times> convert_action) list"

text \<open>\<^verbatim>\<open>order_by("confirmed_at", "observed_at")\<close>, null last.\<close>

definition iter_convertible_observations ::
  "nat option \<Rightarrow> (nat \<times> observation) list \<Rightarrow> (nat \<times> observation) list" where
  "iter_convertible_observations limit rows =
     (let rows = sort_key (\<lambda>r. observed_at (snd r))
            (filter (\<lambda>r. obs_status (snd r) \<in> {Confirmed, ConversionStarted} \<and> \<not> obs_shadow (snd r)) rows);
          rows = sort_key (\<lambda>r. the (confirmed_at (snd r))) (filter (\<lambda>r. confirmed_at (snd r) \<noteq> None) rows) @
                 filter (\<lambda>r. confirmed_at (snd r) = None) rows
      in case limit of None \<Rightarrow> rows | Some n \<Rightarrow> take n rows)"

definition count_action :: "convert_action \<Rightarrow> resume_report \<Rightarrow> nat \<Rightarrow> resume_report" where
  "count_action act rep pk =
     (let rep1 = rep\<lparr>res_results := res_results rep @ [(pk, act)]\<rparr>
      in case act of
           SkippedNotInCohort \<Rightarrow> rep1\<lparr>res_skipped := Suc (res_skipped rep)\<rparr>
         | WouldConvert \<Rightarrow> rep1
         | CreditedAction _ \<Rightarrow> rep1\<lparr>res_credited := Suc (res_credited rep)\<rparr>
         | ErrorAction _ \<Rightarrow> rep1\<lparr>res_errors := Suc (res_errors rep)\<rparr>)"

definition resume_one :: "env \<Rightarrow> bool \<Rightarrow> nat \<times> observation \<Rightarrow> ('x, convert_action) wallet_txn" where
  "resume_one env apply r =
     bindE (getsE (\<lambda>db. observation_account db (snd r))) (\<lambda>acc.
     bindE (get_or_raise (EPy ObjectDoesNotExist) acc) (\<lambda>a.
     if \<not> should_use_credit_conversion_v2 env a then ret SkippedNotInCohort
     else if \<not> apply then ret WouldConvert
     else catchE (bindE (convert (fst r)) (\<lambda>entry. ret (CreditedAction (str_nat (entry_id entry)))))
            (\<lambda>e. ret (ErrorAction e))))"

fun resume_each ::
  "env \<Rightarrow> bool \<Rightarrow> (nat \<times> observation) list \<Rightarrow> resume_report \<Rightarrow> ('x, resume_report) wallet_txn" where
  "resume_each env apply [] rep = ret rep"
| "resume_each env apply (r # rs) rep =
     bindE (resume_one env apply r) (\<lambda>act. resume_each env apply rs (count_action act rep (fst r)))"

definition resume_converts :: "env \<Rightarrow> bool \<Rightarrow> nat option \<Rightarrow> ('x, resume_report) wallet_txn" where
  "resume_converts env apply limit =
     bindE (getsE (\<lambda>db. iter_convertible_observations limit (observations db))) (\<lambda>candidates.
     resume_each env apply candidates
       \<lparr>res_candidates = length candidates, res_credited = 0, res_errors = 0, res_skipped = 0, res_results = []\<rparr>)"

record backfill_report =
  bf_apply :: bool
  bf_chain :: string
  bf_scanned :: nat
  bf_ready :: nat
  bf_would :: nat
  bf_allocated :: nat
  bf_errors :: nat

text \<open>Accounts without an active address, oldest first: rows are kept in creation order.\<close>

definition accounts_needing_backfill :: "string \<Rightarrow> 'x wallet_db_scheme \<Rightarrow> nat list" where
  "accounts_needing_backfill chain db =
     filter (\<lambda>a. \<not> (\<exists>r \<in> set (addresses db). wa_chain (snd r) = chain \<and> wa_status (snd r) = AActive \<and>
                       map_of (identities db) (wa_identity (snd r)) = Some a))
       (map fst (accounts db))"

fun backfill_each :: "env \<Rightarrow> string \<Rightarrow> nat list \<Rightarrow> nat \<Rightarrow> nat \<Rightarrow> ('x, nat \<times> nat) wallet_txn" where
  "backfill_each env chain [] allocated errors = ret (allocated, errors)"
| "backfill_each env chain (a # as) allocated errors =
     bindE (catchE (bindE (ensure_active_address env a chain) (\<lambda>_. ret (Suc allocated, errors)))
              (\<lambda>_. ret (allocated, Suc errors))) (\<lambda>(allocated', errors').
     backfill_each env chain as allocated' errors')"

definition run_wallet_backfill :: "env \<Rightarrow> bool \<Rightarrow> nat option \<Rightarrow> string \<Rightarrow> ('x, backfill_report) wallet_txn" where
  "run_wallet_backfill env apply limit chain =
     bindE (getsE (\<lambda>db. length (accounts db))) (\<lambda>accounts_total.
     bindE (getsE (accounts_needing_backfill chain)) (\<lambda>missing.
     let already_ready = accounts_total - length missing;
         targets = (case limit of None \<Rightarrow> missing | Some n \<Rightarrow> take n missing)
     in if \<not> apply
        then ret \<lparr>bf_apply = False, bf_chain = chain, bf_scanned = accounts_total, bf_ready = already_ready,
                  bf_would = length targets, bf_allocated = 0, bf_errors = 0\<rparr>
        else
          bindE (backfill_each env chain targets 0 0) (\<lambda>(allocated, errors).
          ret \<lparr>bf_apply = True, bf_chain = chain, bf_scanned = accounts_total, bf_ready = already_ready,
               bf_would = length targets, bf_allocated = allocated, bf_errors = errors\<rparr>)))"

section \<open>Ledger invariant\<close>

lemma ledger_ok_wallet [simp]:
  "ledger_ok (db\<lparr>identities := is\<rparr>) = ledger_ok db"
  "ledger_ok (db\<lparr>addresses := as\<rparr>) = ledger_ok db"
  "ledger_ok (db\<lparr>observations := os\<rparr>) = ledger_ok db"
  by (simp_all add: ledger_ok_def entry_ok_def account_ok_def)

lemma keeps_ledger_rows [keeps_intros]:
  "keeps ledger_ok (lock_identity a)" "keeps ledger_ok (create_address new)"
  "keeps ledger_ok (save_observation pk obs)" "keeps ledger_ok (get_observation pk)"
  unfolding lock_identity_def create_address_def save_observation_def get_observation_def
  by (intro keeps_intros; simp)+

lemma keeps_ledger_allocate [keeps_intros]: "keeps ledger_ok (allocate_new env seen i chain)"
  unfolding allocate_new_def Let_def by (intro keeps_intros)

lemma keeps_ledger_address [keeps_intros]:
  "keeps ledger_ok (ensure_active_address env a chain)" "keeps ledger_ok (rotate_active_address env a chain)"
  unfolding ensure_active_address_def rotate_active_address_def ensure_active_address_once_def
    rotate_active_address_once_def
  by (intro keeps_intros; simp)+

lemma keeps_ledger_policy [keeps_intros]:
  "keeps ledger_ok (apply_policy env pk obs)" "keeps ledger_ok (refresh_locked env pk obs n)"
  unfolding apply_policy_def refresh_locked_def Let_def by (intro keeps_intros)+

lemma keeps_ledger_ingest [keeps_intros]: "keeps ledger_ok (ingest env signal shadow)"
  unfolding ingest_def ingest_attempt_def ingest_existing_def ingest_once_def create_observation_def Let_def
  by (intro keeps_intros)

lemma keeps_ledger_advance [keeps_intros]:
  "keeps ledger_ok (advance_confirmation env pk)" "keeps ledger_ok (expire pk)"
  unfolding advance_confirmation_def expire_def by (intro keeps_intros)+

lemma keeps_ledger_convert [keeps_intros]:
  "keeps ledger_ok (credit_and_finish pk obs)" "keeps ledger_ok (convert pk)"
  unfolding convert_def credit_and_finish_def Let_def by (intro keeps_intros)+

lemma keeps_ledger_resume [keeps_intros]: "keeps ledger_ok (resume_each env apply rs rep)"
  unfolding resume_one_def
  by (induction rs arbitrary: rep) (auto simp: resume_one_def intro!: keeps_intros)

lemma keeps_ledger_backfill_each [keeps_intros]: "keeps ledger_ok (backfill_each env chain as n m)"
  by (induction as arbitrary: n m) (auto intro!: keeps_intros)

lemma keeps_ledger_jobs [keeps_intros]:
  "keeps ledger_ok (resume_converts env apply limit)" "keeps ledger_ok (run_wallet_backfill env apply limit chain)"
  unfolding resume_converts_def run_wallet_backfill_def Let_def by (intro keeps_intros)+

section \<open>The index registry\<close>

definition registry_ok :: "'x wallet_db_scheme \<Rightarrow> bool" where
  "registry_ok db \<longleftrightarrow>
     distinct (map fst (identities db)) \<and> distinct (map snd (identities db)) \<and>
     distinct (map fst (addresses db)) \<and> distinct (map (\<lambda>r. wa_index (snd r)) (addresses db)) \<and>
     (\<forall>r \<in> set (identities db). fst r < next_uuid db) \<and>
     (\<forall>r \<in> set (addresses db). fst r < next_uuid db \<and> wa_identity (snd r) \<in> fst ` set (identities db) \<and>
        (wa_status (snd r) = ARetired \<longleftrightarrow> wa_retired (snd r) \<noteq> None)) \<and>
     (\<forall>i chain. length (active_addresses i chain (addresses db)) \<le> 1)"

lemma registry_okD:
  assumes "registry_ok db"
  shows "distinct (map fst (identities db))" "distinct (map snd (identities db))"
    "distinct (map fst (addresses db))" "distinct (map (\<lambda>r. wa_index (snd r)) (addresses db))"
    "\<And>r. r \<in> set (identities db) \<Longrightarrow> fst r < next_uuid db"
    "\<And>r. r \<in> set (addresses db) \<Longrightarrow> fst r < next_uuid db"
    "\<And>r. r \<in> set (addresses db) \<Longrightarrow> wa_identity (snd r) \<in> fst ` set (identities db)"
    "\<And>r. r \<in> set (addresses db) \<Longrightarrow> wa_status (snd r) = ARetired \<longleftrightarrow> wa_retired (snd r) \<noteq> None"
    "\<And>i chain. length (active_addresses i chain (addresses db)) \<le> 1"
  using assms by (auto simp: registry_ok_def)

lemma next_derivation_index_gt: "r \<in> set rows \<Longrightarrow> wa_index (snd r) < next_derivation_index rows"
  by (auto simp: next_derivation_index_def less_Suc_eq_le intro!: Max_ge)

lemma lock_identity_Inr:
  assumes ok: "registry_ok db" and run: "lock_identity a db = (r, db')"
  shows "\<exists>i. r = Inr i \<and> registry_ok db' \<and> map_of (identities db') i = Some a \<and> addresses db' = addresses db \<and>
    (db' = db \<or> db' = db\<lparr>next_uuid := Suc (next_uuid db), identities := identities db @ [(next_uuid db, a)]\<rparr>)"
proof (cases "find (\<lambda>r. snd r = a) (identities db)")
  case (Some q)
  then have "q \<in> set (identities db)" "snd q = a" by (auto simp: find_Some_iff)
  then have "map_of (identities db) (fst q) = Some a"
    using registry_okD(1) [OF ok] by (metis map_of_eq_Some_iff prod.collapse)
  then show ?thesis using Some run ok by (auto simp: lock_identity_def txn_iff)
next
  case None
  let ?db = "db\<lparr>next_uuid := Suc (next_uuid db), identities := identities db @ [(next_uuid db, a)]\<rparr>"
  have new: "next_uuid db \<notin> fst ` set (identities db)" using registry_okD(5) [OF ok] by force
  have a: "a \<notin> snd ` set (identities db)" using None by (force simp: find_None_iff)
  have "registry_ok ?db"
    using ok new a by (auto simp: registry_ok_def less_Suc_eq)
  moreover have "map_of (identities ?db) (next_uuid db) = Some a"
    using new by (simp add: map_add_def dom_map_of_conv_image_fst [symmetric] domIff)
  ultimately show ?thesis
    using None run AList_update_new [OF new] by (auto simp: lock_identity_def txn_iff uuid4_def)
qed

lemma active_addresses_snoc:
  "active_addresses i chain (rows @ [r]) = active_addresses i chain rows @ active_addresses i chain [r]"
  by (simp add: active_addresses_def)

lemma create_address_Inr:
  assumes ok: "registry_ok db" and run: "create_address new db = (Inr pk, db')"
    and shape: "wa_identity new \<in> fst ` set (identities db)" "wa_status new = AActive" "wa_retired new = None"
  shows "registry_ok db' \<and> pk = next_uuid db \<and> addresses db' = addresses db @ [(pk, new)] \<and>
    db' = db\<lparr>next_uuid := Suc pk, addresses := addresses db @ [(pk, new)]\<rparr> \<and> \<not> address_conflict (addresses db) new"
proof -
  have fresh: "next_uuid db \<notin> fst ` set (addresses db)" using registry_okD(6) [OF ok] by force
  have pk: "pk = next_uuid db" and nc: "\<not> address_conflict (addresses db) new"
    and db': "db' = db\<lparr>next_uuid := Suc pk, addresses := addresses db @ [(pk, new)]\<rparr>"
    using run AList_update_new [OF fresh]
    by (auto simp: create_address_def txn_iff uuid4_def split: if_splits)
  have act: "length (active_addresses i chain (addresses db @ [(pk, new)])) \<le> 1" for i chain
  proof (cases "wa_identity new = i \<and> wa_chain new = chain")
    case True
    then have "active_addresses i chain (addresses db) = []"
      using nc shape(2) by (auto simp: active_addresses_def address_conflict_def filter_empty_conv)
    then show ?thesis by (simp add: active_addresses_snoc) (simp add: active_addresses_def)
  next
    case False
    then show ?thesis
      using registry_okD(9) [OF ok, of i chain] by (auto simp: active_addresses_snoc active_addresses_def)
  qed
  have idx: "wa_index new \<notin> (\<lambda>r. wa_index (snd r)) ` set (addresses db)"
    using nc by (force simp: address_conflict_def)
  have "registry_ok db'"
    using ok fresh act idx shape by (auto simp: registry_ok_def db' pk less_Suc_eq)
  then show ?thesis using pk nc db' by simp
qed

lemma allocate_new_Inr:
  assumes ok: "registry_ok db" and run: "allocate_new env seen i chain db = (Inr pk, db')"
    and i: "i \<in> fst ` set (identities db)"
  shows "\<exists>new. registry_ok db' \<and> pk = next_uuid db \<and>
    db' = db\<lparr>next_uuid := Suc pk, addresses := addresses db @ [(pk, new)]\<rparr> \<and>
    wa_identity new = i \<and> wa_chain new = chain \<and> wa_status new = AActive \<and>
    wa_index new = next_derivation_index seen \<and>
    derive_evm_address env (WALLET_HD_MNEMONIC env) (int (wa_index new)) = Inr (wa_address new) \<and>
    wa_index new \<notin> (\<lambda>r. wa_index (snd r)) ` set (addresses db)"
proof -
  obtain address where d: "derive_evm_address env (WALLET_HD_MNEMONIC env) (int (next_derivation_index seen)) = Inr address"
    and c: "create_address \<lparr>wa_identity = i, wa_chain = chain, wa_address = address,
        wa_index = next_derivation_index seen, wa_status = AActive, wa_created = clock db, wa_retired = None\<rparr> db =
      (Inr pk, db')"
    using run by (auto simp: allocate_new_def txn_iff Let_def)
  let ?new = "\<lparr>wa_identity = i, wa_chain = chain, wa_address = address,
    wa_index = next_derivation_index seen, wa_status = AActive, wa_created = clock db, wa_retired = None\<rparr>"
  from create_address_Inr [OF ok c] i d show ?thesis
    by (intro exI [of _ ?new]) (auto simp: address_conflict_def image_iff)
qed

text \<open>What a call of \<open>ensure_active_address\<close> or of a rotation that returned did to the registry.\<close>

definition registers :: "env \<Rightarrow> nat \<Rightarrow> 'x wallet_db_scheme \<Rightarrow> nat \<Rightarrow> wallet_address \<Rightarrow> 'x wallet_db_scheme \<Rightarrow> bool" where
  "registers env a db pk new db' \<longleftrightarrow>
     (pk, new) \<in> set (addresses db') \<and> wa_status new = AActive \<and>
     map_of (identities db') (wa_identity new) = Some a"

lemma sort_key_Cons: "sort_key f xs = r # rs \<Longrightarrow> r \<in> set xs"
  by (metis list.set_intros(1) set_sort)

lemma sort_key_Nil: "sort_key f xs = [] \<longleftrightarrow> xs = []"
  by (metis set_empty set_sort)

lemma ensure_once_Inr:
  assumes ok: "registry_ok db" and run: "ensure_active_address_once env seen a chain db = (Inr pk, db')"
  shows "registry_ok db' \<and> (\<exists>new. registers env a db pk new db' \<and> wa_chain new = chain \<and>
    (addresses db' = addresses db \<or>
     addresses db' = addresses db @ [(pk, new)] \<and> wa_index new = next_derivation_index seen \<and>
     wa_index new \<notin> (\<lambda>r. wa_index (snd r)) ` set (addresses db) \<and>
     derive_evm_address env (WALLET_HD_MNEMONIC env) (int (wa_index new)) = Inr (wa_address new)))"
proof -
  let ?rows = "\<lambda>i db. sort_key (\<lambda>r. wa_index (snd r)) (active_addresses i chain (addresses db))"
  obtain i db1 where l: "lock_identity a db = (Inr i, db1)"
    and k: "(case ?rows i db1 of r # _ \<Rightarrow> ret (fst r) | [] \<Rightarrow> allocate_new env seen i chain) db1 = (Inr pk, db')"
    using run by (auto simp: ensure_active_address_once_def txn_iff)
  from lock_identity_Inr [OF ok l] have ok1: "registry_ok db1" and i: "map_of (identities db1) i = Some a"
    and same: "addresses db1 = addresses db" by auto
  show ?thesis
  proof (cases "?rows i db1")
    case Nil
    have mem: "i \<in> fst ` set (identities db1)" using i by (rule map_of_in_keys)
    from allocate_new_Inr [OF ok1 _ mem, of env seen chain pk db'] k Nil i same show ?thesis
      by (auto simp: registers_def)
  next
    case (Cons r rs)
    then have "r \<in> set (active_addresses i chain (addresses db1))" by (rule sort_key_Cons)
    then show ?thesis
      using k Cons ok1 i same by (auto simp: registers_def active_addresses_def txn_iff intro: exI [of _ "snd r"])
  qed
qed

text \<open>Retiring the only active row.\<close>

lemma retire_registry_ok:
  assumes ok: "registry_ok db" and mem: "r \<in> set (active_addresses i chain (addresses db))"
  shows "registry_ok (db\<lparr>addresses := AList.update (fst r)
      ((snd r)\<lparr>wa_status := ARetired, wa_retired := Some now\<rparr>) (addresses db)\<rparr>)"
    and "map (\<lambda>r. wa_index (snd r)) (AList.update (fst r)
      ((snd r)\<lparr>wa_status := ARetired, wa_retired := Some now\<rparr>) (addresses db)) = map (\<lambda>r. wa_index (snd r)) (addresses db)"
proof -
  let ?new = "(snd r)\<lparr>wa_status := ARetired, wa_retired := Some now\<rparr>"
  let ?rows = "AList.update (fst r) ?new (addresses db)"
  have m: "map_of (addresses db) (fst r) = Some (snd r)" and mem': "r \<in> set (addresses db)"
    using mem registry_okD(3) [OF ok] by (auto simp: active_addresses_def)
  show idx: "map (\<lambda>r. wa_index (snd r)) ?rows = map (\<lambda>r. wa_index (snd r)) (addresses db)"
    using m by (rule map_AList_update_same) simp
  have keys: "map fst ?rows = map fst (addresses db)" using m by (rule keys_AList_update_old)
  have set_rows: "set ?rows = insert (fst r, ?new) {p \<in> set (addresses db). fst p \<noteq> fst r}"
    using registry_okD(3) [OF ok] by (rule set_AList_update)
  have act: "length (active_addresses j ch ?rows) \<le> 1" for j ch
  proof -
    have "length (active_addresses j ch (AList.update k (x\<lparr>wa_status := ARetired, wa_retired := t\<rparr>) rows))
        \<le> length (active_addresses j ch rows)" for k x t rows
      by (induction rows) (auto simp: active_addresses_def)
    then show ?thesis using registry_okD(9) [OF ok, of j ch] le_trans by blast
  qed
  show "registry_ok (db\<lparr>addresses := ?rows\<rparr>)"
    using ok act idx keys registry_okD(6,7) [OF ok mem'] unfolding registry_ok_def
    by (simp add: set_rows)
qed

lemma rotate_once_Inr:
  assumes ok: "registry_ok db" and run: "rotate_active_address_once env seen a chain db = (Inr pk, db')"
  shows "registry_ok db' \<and> (\<exists>new. registers env a db pk new db' \<and> wa_chain new = chain \<and>
    map (\<lambda>r. wa_index (snd r)) (addresses db') = map (\<lambda>r. wa_index (snd r)) (addresses db) @ [wa_index new] \<and>
    wa_index new \<notin> (\<lambda>r. wa_index (snd r)) ` set (addresses db) \<and>
    (\<forall>q \<in> set (addresses db'). q = (pk, new) \<or>
       (\<exists>q0 \<in> set (addresses db). wa_index (snd q0) = wa_index (snd q) \<and> wa_address (snd q0) = wa_address (snd q))) \<and>
    derive_evm_address env (WALLET_HD_MNEMONIC env) (int (wa_index new)) = Inr (wa_address new))"
proof -
  let ?rows = "\<lambda>i db. sort_key (\<lambda>r. wa_index (snd r)) (active_addresses i chain (addresses db))"
  let ?ret = "\<lambda>r (db :: 'a wallet_db_scheme). db\<lparr>addresses := AList.update (fst r)
      ((snd r)\<lparr>wa_status := ARetired, wa_retired := Some (clock db)\<rparr>) (addresses db)\<rparr>"
  obtain i db1 where l: "lock_identity a db = (Inr i, db1)"
    and k: "(case ?rows i db1 of [] \<Rightarrow> raiseE (EWallet WalletAddressNotFoundError)
       | r # _ \<Rightarrow> bindE (getsE clock) (\<lambda>now. thenE (modifyE (\<lambda>db. db\<lparr>addresses := AList.update (fst r)
            ((snd r)\<lparr>wa_status := ARetired, wa_retired := Some now\<rparr>) (addresses db)\<rparr>))
          (allocate_new env seen i chain))) db1 = (Inr pk, db')"
    using run by (auto simp: rotate_active_address_once_def txn_iff)
  from lock_identity_Inr [OF ok l] have ok1: "registry_ok db1" and i: "map_of (identities db1) i = Some a"
    and same: "addresses db1 = addresses db" by auto
  from k obtain r rs where r: "?rows i db1 = r # rs" and al: "allocate_new env seen i chain (?ret r db1) = (Inr pk, db')"
    by (auto simp: txn_iff split: list.splits)
  note mem = sort_key_Cons [OF r]
  note rok = retire_registry_ok [OF ok1 mem, of "clock db1"]
  have "i \<in> fst ` set (identities (?ret r db1))" using map_of_in_keys [OF i] by simp
  from allocate_new_Inr [OF rok(1) al this] obtain new where new: "registry_ok db'" "pk = next_uuid (?ret r db1)"
    "db' = (?ret r db1)\<lparr>next_uuid := Suc pk, addresses := addresses (?ret r db1) @ [(pk, new)]\<rparr>"
    "wa_identity new = i" "wa_chain new = chain" "wa_status new = AActive"
    "derive_evm_address env (WALLET_HD_MNEMONIC env) (int (wa_index new)) = Inr (wa_address new)"
    "wa_index new \<notin> (\<lambda>r. wa_index (snd r)) ` set (addresses (?ret r db1))"
    by blast
  have idx: "(\<lambda>r. wa_index (snd r)) ` set (addresses (?ret r db1)) = (\<lambda>r. wa_index (snd r)) ` set (addresses db)"
    using arg_cong [OF rok(2), of set] same by simp
  have "q = (pk, new) \<or> (\<exists>q0 \<in> set (addresses db). wa_index (snd q0) = wa_index (snd q) \<and> wa_address (snd q0) = wa_address (snd q))"
    if "q \<in> set (addresses db')" for q
    using that mem set_AList_update [OF registry_okD(3) [OF ok1]] same
    by (auto simp: new(3) active_addresses_def)
  then show ?thesis
    using new rok(2) i same idx by (intro conjI exI [of _ new]) (auto simp: registers_def)
qed

lemma once_Inl:
  "ensure_active_address_once env seen a chain db = (Inl e, db') \<Longrightarrow> db' = db"
  "rotate_active_address_once env seen a chain db = (Inl e, db') \<Longrightarrow> db' = db"
  by (auto simp: ensure_active_address_once_def rotate_active_address_once_def atomic_iff)

lemma retry_atomic:
  assumes "\<And>s e t. m s = (Inl e, t) \<Longrightarrow> t = s" "retry n m k s = (Inr x, t)"
  shows "m s = (Inr x, t) \<or> k s = (Inr x, t)"
  using assms(2)
proof (induction n)
  case (Suc n)
  then show ?case using assms(1) by (auto simp: catchE_iff txn_iff split: if_splits)
qed simp

lemma ensure_Inr:
  assumes "ensure_active_address env a chain db = (Inr pk, db')"
  shows "ensure_active_address_once env (addresses db) a chain db = (Inr pk, db')"
proof -
  have "bindE (getsE addresses) (\<lambda>seen. ensure_active_address_once env seen a chain) db = (Inr pk, db') \<or>
      raiseE (EWallet WalletAllocationError) db = (Inr pk, db')"
    using assms unfolding ensure_active_address_def
    by (rule retry_atomic [rotated]) (auto simp: txn_iff dest: once_Inl(1))
  then show ?thesis by (auto simp: txn_iff)
qed

lemma rotate_Inr:
  assumes "rotate_active_address env a chain db = (Inr pk, db')"
  shows "rotate_active_address_once env (addresses db) a chain db = (Inr pk, db')"
proof -
  have "bindE (getsE addresses) (\<lambda>seen. rotate_active_address_once env seen a chain) db = (Inr pk, db') \<or>
      raiseE (EWallet WalletAllocationError) db = (Inr pk, db')"
    using assms unfolding rotate_active_address_def
    by (rule retry_atomic [rotated]) (auto simp: txn_iff dest: once_Inl(2))
  then show ?thesis by (auto simp: txn_iff)
qed

text \<open>An account that has its active address gets it back.\<close>

lemma ensure_once_existing:
  assumes ok: "registry_ok db" and reg: "registers env a db0 pk new db" and ch: "wa_chain new = chain"
  shows "ensure_active_address_once env seen a chain db = (Inr pk, db)"
proof -
  let ?i = "wa_identity new"
  have mem: "(?i, a) \<in> set (identities db)" using reg by (auto simp: registers_def dest: map_of_SomeD)
  have "find (\<lambda>r. snd r = a) (identities db) \<noteq> None" using mem by (auto simp: find_None_iff)
  then obtain q where q: "find (\<lambda>r. snd r = a) (identities db) = Some q" by blast
  then have "q \<in> set (identities db)" "snd q = a" by (auto simp: find_Some_iff)
  with mem registry_okD(2) [OF ok] have "q = (?i, a)"
    by (metis (no_types, lifting) distinct_map inj_onD snd_conv)
  with q have l: "lock_identity a db = (Inr ?i, db)" by (simp add: lock_identity_def txn_defs)
  let ?act = "active_addresses ?i chain (addresses db)"
  have "(pk, new) \<in> set ?act" using reg ch by (auto simp: registers_def active_addresses_def)
  with registry_okD(9) [OF ok, of ?i chain] have "?act = [(pk, new)]" by (cases ?act) auto
  then show ?thesis using l by (simp add: ensure_active_address_once_def atomic_def bindE_def getsE_def ret_def)
qed

section \<open>The life of an observation\<close>

text \<open>The edges of the state machine, and what an operation may change of a row.\<close>

inductive obs_step :: "obs_status \<Rightarrow> obs_status \<Rightarrow> bool" where
  "obs_step Observed PendingConfirmation"
| "obs_step Observed Confirmed"
| "obs_step Observed Rejected"
| "obs_step Observed Expired"
| "obs_step PendingConfirmation Confirmed"
| "obs_step PendingConfirmation Rejected"
| "obs_step PendingConfirmation Expired"
| "obs_step Confirmed ConversionStarted"
| "obs_step ConversionStarted Credited"

inductive_cases obs_step_from:
  "obs_step Credited s" "obs_step Rejected s" "obs_step Expired s" "obs_step Confirmed s"
  "obs_step ConversionStarted s" "obs_step PendingConfirmation s"

definition obs_next :: "observation \<Rightarrow> observation \<Rightarrow> bool" where
  "obs_next x y \<longleftrightarrow> obs_step\<^sup>*\<^sup>* (obs_status x) (obs_status y) \<and>
     obs_address y = obs_address x \<and> obs_chain y = obs_chain x \<and> obs_tx y = obs_tx x \<and> obs_log y = obs_log x \<and>
     obs_amount y = obs_amount x \<and> obs_token y = obs_token x \<and> obs_shadow y = obs_shadow x \<and>
     obs_confirmations x \<le> obs_confirmations y"

definition obs_moves :: "'x wallet_db_scheme \<Rightarrow> 'y wallet_db_scheme \<Rightarrow> bool" where
  "obs_moves db db' \<longleftrightarrow> (\<forall>k x. map_of (observations db) k = Some x \<longrightarrow>
     (\<exists>y. map_of (observations db') k = Some y \<and> obs_next x y))"

lemma obs_next_refl [simp]: "obs_next x x"
  by (simp add: obs_next_def)

lemma obs_next_trans: "obs_next x y \<Longrightarrow> obs_next y z \<Longrightarrow> obs_next x z"
  by (auto simp: obs_next_def)

lemma obs_moves_refl: "observations db' = observations db \<Longrightarrow> obs_moves db db'"
  by (auto simp: obs_moves_def)

lemma obs_moves_trans: "obs_moves db db1 \<Longrightarrow> obs_moves db1 db2 \<Longrightarrow> obs_moves db db2"
  unfolding obs_moves_def by (meson obs_next_trans)

lemma obs_moves_update:
  assumes "\<And>x. map_of (observations db) pk = Some x \<Longrightarrow> obs_next x y"
    and "observations db' = AList.update pk y (observations db)"
  shows "obs_moves db db'"
  using assms by (auto simp: obs_moves_def)

text \<open>A settled row stays settled.\<close>

lemma obs_step_terminal: "obs_step\<^sup>*\<^sup>* s t \<Longrightarrow> s \<in> {Credited, Rejected, Expired} \<Longrightarrow> t = s"
  by (induction rule: rtranclp_induct) (auto elim: obs_step_from)

subsection \<open>The policy\<close>

definition confirmed_enough :: "env \<Rightarrow> observation \<Rightarrow> bool" where
  "confirmed_enough env x \<longleftrightarrow> obs_chain x = POLYGON \<and>
     normalize_evm_address (obs_token x) = normalize_evm_address (POLYGON_USDT_CONTRACT env) \<and>
     POLYGON_MIN_CONFIRMATIONS env \<le> obs_confirmations x"

definition policy_next :: "env \<Rightarrow> observation \<Rightarrow> observation \<Rightarrow> bool" where
  "policy_next env x y \<longleftrightarrow> obs_next x y \<and> obs_status x \<in> {Observed, PendingConfirmation} \<and>
     obs_status y \<in> {PendingConfirmation, Confirmed, Rejected} \<and>
     (obs_status y = Confirmed \<longrightarrow> confirmed_enough env y)"

lemmas obs_steps = obs_step.intros [THEN r_into_rtranclp [of obs_step]]

lemma policy_row_fields [simp]:
  "obs_address (policy_row now oc why x) = obs_address x" "obs_chain (policy_row now oc why x) = obs_chain x"
  "obs_tx (policy_row now oc why x) = obs_tx x" "obs_log (policy_row now oc why x) = obs_log x"
  "obs_amount (policy_row now oc why x) = obs_amount x" "obs_token (policy_row now oc why x) = obs_token x"
  "obs_shadow (policy_row now oc why x) = obs_shadow x"
  "obs_confirmations (policy_row now oc why x) = obs_confirmations x"
  "obs_status (policy_row now oc why x) =
     (case oc of OPending \<Rightarrow> PendingConfirmation | ORejected \<Rightarrow> Rejected | OConfirmed \<Rightarrow> Confirmed)"
  by (simp_all add: policy_row_def split: confirmation_outcome.split)

lemma policy_row_next:
  assumes "evaluate_policy env x = Inr (oc, why)" "obs_status x \<in> {Observed, PendingConfirmation}"
  shows "policy_next env x (policy_row now oc why x)"
proof -
  have "oc = OConfirmed \<Longrightarrow> confirmed_enough env x"
    using assms(1) by (auto simp: evaluate_policy_def accepted_token_contract_def min_confirmations_of_def
        confirmed_enough_def split: if_splits sum.splits)
  then show ?thesis
    using assms(2)
    by (cases oc) (auto simp: policy_next_def obs_next_def confirmed_enough_def intro: obs_steps)
qed

lemma apply_policy_cases:
  assumes "apply_policy env pk x db = (r, db')"
  shows "db' = db \<or> (\<exists>y. policy_next env x y \<and> db' = db\<lparr>observations := AList.update pk y (observations db)\<rparr>)"
proof (cases "obs_status x \<in> {Observed, PendingConfirmation}")
  case True
  then have st: "obs_status x \<notin> set TERMINAL" by (auto simp: TERMINAL_def)
  show ?thesis
  proof (cases "evaluate_policy env x")
    case (Inl e)
    then show ?thesis using assms True st by (auto simp: apply_policy_def txn_defs)
  next
    case (Inr q)
    obtain oc why where q: "q = (oc, why)" by fastforce
    have "db' = db\<lparr>observations := AList.update pk (policy_row (clock db) oc why x) (observations db)\<rparr>"
      using assms True st Inr q by (auto simp: apply_policy_def txn_defs save_observation_def)
    with policy_row_next [OF _ True, of env oc why] Inr q show ?thesis by blast
  qed
next
  case False
  then show ?thesis using assms by (simp add: apply_policy_def txn_defs split: if_splits)
qed

section \<open>The observation invariant\<close>

text \<open>
  A row is credited exactly when the ledger holds its key, then with the row's amount; it is past
  the policy only if the policy's conditions hold; a shadow row is never converted.
\<close>

definition obs_row_ok :: "env \<Rightarrow> 'x wallet_db_scheme \<Rightarrow> nat \<times> observation \<Rightarrow> bool" where
  "obs_row_ok env db r \<longleftrightarrow> (case r of (pk, x) \<Rightarrow>
     pk < next_uuid db \<and> CHR '':'' \<notin> set (obs_tx x) \<and> 0 \<le> obs_log x \<and>
     0 < obs_amount x \<and> obs_amount x < NUMERIC_20_6 \<and> on_grid MONEY_QUANT (obs_amount x) \<and>
     (obs_status x \<in> {Confirmed, ConversionStarted, Credited} \<longrightarrow> confirmed_enough env x) \<and>
     (obs_shadow x \<longrightarrow> obs_status x \<notin> {ConversionStarted, Credited}) \<and>
     (if obs_status x = Credited
      then \<exists>e \<in> set (ledger db). entry_key e = observation_idempotency_key x \<and> delta e = obs_amount x
      else observation_idempotency_key x \<notin> entry_key ` set (ledger db)))"

definition obs_identity :: "observation \<Rightarrow> string \<times> string \<times> int" where
  "obs_identity x = (obs_chain x, obs_tx x, obs_log x)"

text \<open>The keys under \<^verbatim>\<open>wallet-obs:\<close> in the ledger stand for stored observations.\<close>

definition wallet_keys_ok :: "'x wallet_db_scheme \<Rightarrow> bool" where
  "wallet_keys_ok db \<longleftrightarrow> (\<forall>e \<in> set (ledger db). starts_with ''wallet-obs:'' (entry_key e) \<longrightarrow>
     entry_key e \<in> (\<lambda>r. observation_idempotency_key (snd r)) ` set (observations db))"

definition obs_ok :: "env \<Rightarrow> 'x wallet_db_scheme \<Rightarrow> bool" where
  "obs_ok env db \<longleftrightarrow> distinct (map fst (observations db)) \<and>
     distinct (map (\<lambda>r. obs_identity (snd r)) (observations db)) \<and> wallet_keys_ok db \<and>
     (\<forall>r \<in> set (observations db). obs_row_ok env db r)"

lemma obs_okD:
  assumes "obs_ok env db"
  shows "distinct (map fst (observations db))" "distinct (map (\<lambda>r. obs_identity (snd r)) (observations db))"
    "\<And>pk x. map_of (observations db) pk = Some x \<Longrightarrow> obs_row_ok env db (pk, x)" "wallet_keys_ok db"
  using assms by (auto simp: obs_ok_def dest!: map_of_SomeD)

lemma obs_row_okD:
  assumes "obs_row_ok env db r"
  shows "fst r < next_uuid db" "CHR '':'' \<notin> set (obs_tx (snd r))" "0 \<le> obs_log (snd r)" "0 < obs_amount (snd r)"
    "obs_amount (snd r) < NUMERIC_20_6" "on_grid MONEY_QUANT (obs_amount (snd r))"
    "obs_status (snd r) \<noteq> Credited \<Longrightarrow> observation_idempotency_key (snd r) \<notin> entry_key ` set (ledger db)"
    "obs_status (snd r) = Credited \<Longrightarrow>
       \<exists>e \<in> set (ledger db). entry_key e = observation_idempotency_key (snd r) \<and> delta e = obs_amount (snd r)"
  using assms by (cases r; simp add: obs_row_ok_def)+

lemma obs_row_ok_frame:
  assumes "obs_row_ok env db r" "ledger db' = ledger db" "next_uuid db \<le> next_uuid db'"
  shows "obs_row_ok env db' r"
  using assms by (auto simp: obs_row_ok_def)

lemma obs_identity_next: "obs_next x y \<Longrightarrow> obs_identity y = obs_identity x"
  by (simp add: obs_next_def obs_identity_def)

lemma obs_ok_update:
  assumes ok: "obs_ok env db" and x: "map_of (observations db) pk = Some x" and id: "obs_identity y = obs_identity x"
    and y: "obs_row_ok env db (pk, y)"
  shows "obs_ok env (db\<lparr>observations := AList.update pk y (observations db)\<rparr>)"
proof -
  let ?db = "db\<lparr>observations := AList.update pk y (observations db)\<rparr>"
  have "map (\<lambda>r. obs_identity (snd r)) (observations ?db) = map (\<lambda>r. obs_identity (snd r)) (observations db)"
    using map_AList_update_same [OF x, of obs_identity] id by simp
  moreover have "map (\<lambda>r. observation_idempotency_key (snd r)) (observations ?db) =
      map (\<lambda>r. observation_idempotency_key (snd r)) (observations db)"
    using map_AList_update_same [OF x, of observation_idempotency_key y] id
    by (simp add: observation_idempotency_key_def obs_identity_def)
  from arg_cong [OF this, of set] have "wallet_keys_ok ?db"
    using obs_okD(4) [OF ok] by (simp add: wallet_keys_ok_def)
  moreover have "obs_row_ok env ?db r" if "r \<in> set (observations ?db)" for r
  proof -
    have "r = (pk, y) \<or> r \<in> set (observations db)"
      using that set_AList_update [OF obs_okD(1) [OF ok]] by auto
    then have "obs_row_ok env db r" using y ok by (auto simp: obs_ok_def)
    then show ?thesis by (rule obs_row_ok_frame) simp_all
  qed
  ultimately show ?thesis
    using ok keys_AList_update_old [OF x, of y] by (simp add: obs_ok_def)
qed

lemma key_next: "obs_next x y \<Longrightarrow> observation_idempotency_key y = observation_idempotency_key x"
  by (simp add: obs_next_def observation_idempotency_key_def)

text \<open>Any move that stops short of a conversion keeps the invariant.\<close>

lemma obs_row_ok_next:
  assumes "obs_row_ok env db (pk, x)" "obs_next x y" "obs_status x \<notin> {ConversionStarted, Credited}"
    "obs_status y \<notin> {ConversionStarted, Credited}" "obs_status y = Confirmed \<Longrightarrow> confirmed_enough env y"
  shows "obs_row_ok env db (pk, y)"
  using assms(1,3-5) key_next [OF assms(2)] assms(2)
  by (simp add: obs_row_ok_def) (auto simp: obs_next_def)

lemma policy_keeps:
  assumes ok: "obs_ok env db" and x: "map_of (observations db) pk = Some x"
    and run: "apply_policy env pk x db = (r, db')"
  shows "obs_ok env db' \<and> obs_moves db db'"
  using apply_policy_cases [OF run]
proof (elim disjE exE conjE)
  fix y assume y: "policy_next env x y" and db': "db' = db\<lparr>observations := AList.update pk y (observations db)\<rparr>"
  then have nx: "obs_next x y" by (simp add: policy_next_def)
  have "obs_row_ok env db (pk, y)"
    using y by (intro obs_row_ok_next [OF obs_okD(3) [OF ok x] nx]) (auto simp: policy_next_def)
  then show ?thesis
    using obs_ok_update [OF ok x obs_identity_next [OF nx]] nx x
    by (auto simp: db' intro!: obs_moves_update)
qed (use ok in \<open>auto intro: obs_moves_refl\<close>)

text \<open>Saving a row and then applying the policy to it.\<close>

lemma save_policy_keeps:
  assumes ok: "obs_ok env db" and x: "map_of (observations db) pk = Some x" and nx: "obs_next x y"
    and st: "obs_status x \<in> {Observed, PendingConfirmation}" "obs_status y \<in> {Observed, PendingConfirmation}"
    and run: "thenE (save_observation pk y) (apply_policy env pk y) db = (r, db')"
  shows "obs_ok env db' \<and> obs_moves db db'"
proof -
  let ?db = "db\<lparr>observations := AList.update pk y (observations db)\<rparr>"
  have ap: "apply_policy env pk y ?db = (r, db')" using run by (auto simp: txn_iff save_observation_def)
  have "obs_row_ok env db (pk, y)"
    using st by (intro obs_row_ok_next [OF obs_okD(3) [OF ok x] nx]) auto
  with obs_ok_update [OF ok x obs_identity_next [OF nx]] have ok': "obs_ok env ?db" by blast
  have "obs_moves db ?db" using nx x by (intro obs_moves_update) auto
  then show ?thesis using policy_keeps [OF ok' _ ap] obs_moves_trans by auto
qed

lemma refresh_keeps:
  assumes ok: "obs_ok env db" and x: "map_of (observations db) pk = Some x"
    and run: "refresh_locked env pk x n db = (r, db')"
  shows "obs_ok env db' \<and> obs_moves db db'"
proof (cases "obs_status x \<in> set TERMINAL")
  case True
  then show ?thesis using run ok by (auto simp: refresh_locked_def txn_iff intro: obs_moves_refl)
next
  case False
  then have st: "obs_status x \<in> {Observed, PendingConfirmation}"
    by (cases "obs_status x") (auto simp: TERMINAL_def)
  define y1 where "y1 = (if n > obs_confirmations x then x\<lparr>obs_confirmations := n\<rparr> else x)"
  define y where "y = (if obs_status y1 = Observed
    then y1\<lparr>obs_status := PendingConfirmation, pending_at := Some (clock db)\<rparr> else y1)"
  have "obs_next x y" "obs_status y \<in> {Observed, PendingConfirmation}"
    using st by (auto simp: y_def y1_def obs_next_def intro: obs_steps)
  moreover have "thenE (save_observation pk y) (apply_policy env pk y) db = (r, db')"
    using run False unfolding refresh_locked_def y_def y1_def Let_def by (simp add: bindE_def getsE_def split del: if_split)
  ultimately show ?thesis using save_policy_keeps [OF ok x _ st] by blast
qed

lemma find_observation_None:
  "find_observation chain tx lidx rows = None \<longleftrightarrow> (chain, tx, lidx) \<notin> (\<lambda>r. obs_identity (snd r)) ` set rows"
  by (force simp: find_observation_def find_None_iff obs_identity_def)

text \<open>Keys of different observations differ: the hash and the index contain no colon.\<close>

lemma str_int_no_colon: "CHR '':'' \<notin> set (str_int i)"
  by (simp add: str_int_def)

lemma str_int_inject: "str_int i = str_int j \<Longrightarrow> 0 \<le> i \<Longrightarrow> 0 \<le> j \<Longrightarrow> i = j"
  by (simp add: str_int_def)

lemma colon_split_last:
  assumes "CHR '':'' \<notin> set x" "CHR '':'' \<notin> set y" "a @ CHR '':'' # x = b @ CHR '':'' # y"
  shows "a = b \<and> x = y"
proof -
  have "rev x @ CHR '':'' # rev a = rev y @ CHR '':'' # rev b"
    using arg_cong [OF assms(3), of rev] by simp
  then show ?thesis using colon_split [of "rev x" "rev y" "rev a" "rev b"] assms(1,2) by simp
qed

lemma observation_key_inject:
  assumes "observation_idempotency_key x = observation_idempotency_key y"
    and "CHR '':'' \<notin> set (obs_tx x)" "CHR '':'' \<notin> set (obs_tx y)" "0 \<le> obs_log x" "0 \<le> obs_log y"
  shows "obs_identity x = obs_identity y"
proof -
  have "(obs_chain x @ '':'' @ obs_tx x) @ CHR '':'' # str_int (obs_log x) =
      (obs_chain y @ '':'' @ obs_tx y) @ CHR '':'' # str_int (obs_log y)"
    using assms(1) by (simp add: observation_idempotency_key_def)
  then have s: "obs_chain x @ CHR '':'' # obs_tx x = obs_chain y @ CHR '':'' # obs_tx y"
      "str_int (obs_log x) = str_int (obs_log y)"
    using colon_split_last [OF str_int_no_colon str_int_no_colon, of "obs_chain x @ '':'' @ obs_tx x" "obs_log x"
        "obs_chain y @ '':'' @ obs_tx y" "obs_log y"] by simp_all
  show ?thesis
    using colon_split_last [OF assms(2,3) s(1)] str_int_inject [OF s(2) assms(4,5)] by (simp add: obs_identity_def)
qed

lemma normalize_grid:
  assumes "on_grid MONEY_QUANT x" "0 < x" "x < NUMERIC_20_6"
  shows "normalize_amount (DecimalArg (Finite x)) = Inr x"
proof -
  have "x < MONEY_QUANT * 10 ^ DECIMAL_PREC"
    using assms(3) by (simp add: MONEY_QUANT_def DECIMAL_PREC_def NUMERIC_20_6_def)
  then show ?thesis
    using assms micro.quantize_fixes_grid [OF assms(1)] by (simp add: normalize_amount_def py_quantize_def Let_def)
qed

lemma new_key_fresh:
  assumes ok: "obs_ok env db" and new: "obs_identity x \<notin> (\<lambda>r. obs_identity (snd r)) ` set (observations db)"
    and x: "CHR '':'' \<notin> set (obs_tx x)" "0 \<le> obs_log x"
  shows "observation_idempotency_key x \<notin> entry_key ` set (ledger db)"
proof
  assume "observation_idempotency_key x \<in> entry_key ` set (ledger db)"
  then obtain e where e: "e \<in> set (ledger db)" "entry_key e = observation_idempotency_key x"
    by (metis imageE)
  have "starts_with ''wallet-obs:'' (observation_idempotency_key x)"
    by (simp add: starts_with_def observation_idempotency_key_def)
  then have "observation_idempotency_key x \<in> (\<lambda>r. observation_idempotency_key (snd r)) ` set (observations db)"
    using obs_okD(4) [OF ok] e unfolding wallet_keys_ok_def by metis
  then obtain r where r: "r \<in> set (observations db)"
      "observation_idempotency_key x = observation_idempotency_key (snd r)"
    by (rule imageE) simp
  have "obs_row_ok env db r" using ok r(1) by (simp add: obs_ok_def)
  then have "obs_identity x = obs_identity (snd r)"
    by (intro observation_key_inject [OF r(2) x(1) _ x(2)] obs_row_okD)
  with new r(1) show False by blast
qed

lemma create_observation_cases:
  assumes run: "create_observation x db = (Inr (pk, y), db')" and fresh: "next_uuid db \<notin> fst ` set (observations db)"
  shows "pk = next_uuid db \<and> y = x\<lparr>obs_amount := quantize_half_up MONEY_QUANT (obs_amount x)\<rparr> \<and>
    db' = db\<lparr>next_uuid := Suc pk, observations := observations db @ [(pk, y)]\<rparr> \<and>
    0 \<le> obs_log x \<and> 0 < obs_amount y \<and> obs_amount y < NUMERIC_20_6 \<and>
    find_observation (obs_chain x) (obs_tx x) (obs_log x) (observations db) = None"
  using run AList_update_new [OF fresh]
  by (auto simp: create_observation_def txn_iff uuid4_def Let_def save_observation_def split: if_splits
      simp del: not_None_eq)

lemma map_of_snoc_new: "k \<notin> fst ` set t \<Longrightarrow> map_of (t @ [(k, v)]) k = Some v"
  by (induction t) auto

lemma obs_ok_append:
  assumes ok: "obs_ok env db" and fresh: "next_uuid db \<notin> fst ` set (observations db)"
    and id: "obs_identity y \<notin> (\<lambda>r. obs_identity (snd r)) ` set (observations db)"
    and db': "db' = db\<lparr>next_uuid := Suc (next_uuid db), observations := observations db @ [(next_uuid db, y)]\<rparr>"
    and row: "obs_row_ok env db' (next_uuid db, y)"
  shows "obs_ok env db' \<and> obs_moves db db' \<and> map_of (observations db') (next_uuid db) = Some y"
proof -
  have old: "obs_row_ok env db' r" if "r \<in> set (observations db)" for r
    by (rule obs_row_ok_frame [of env db]) (use ok that in \<open>simp_all add: obs_ok_def db'\<close>)
  have "wallet_keys_ok db'" using obs_okD(4) [OF ok] by (simp add: wallet_keys_ok_def db')
  moreover have "\<forall>r \<in> set (observations db'). obs_row_ok env db' r" using row old unfolding db' by simp
  moreover have "distinct (map fst (observations db'))" using fresh obs_okD(1) [OF ok] unfolding db' by simp
  moreover have "distinct (map (\<lambda>r. obs_identity (snd r)) (observations db'))"
    using id obs_okD(2) [OF ok] unfolding db' by simp
  ultimately have "obs_ok env db'" unfolding obs_ok_def by blast
  moreover have "obs_moves db db'"
    unfolding obs_moves_def db' by (simp add: map_add_def)
  moreover have "map_of (observations db') (next_uuid db) = Some y"
    unfolding db' using map_of_snoc_new [OF fresh] by simp
  ultimately show ?thesis by blast
qed

lemma create_observation_Inr:
  assumes ok: "obs_ok env db" and run: "create_observation x db = (Inr (pk, y), db')"
    and tx: "CHR '':'' \<notin> set (obs_tx x)" and st: "obs_status x = Observed"
  shows "obs_ok env db' \<and> obs_moves db db' \<and> map_of (observations db') pk = Some y \<and> obs_status y = Observed"
proof -
  have fresh: "next_uuid db \<notin> fst ` set (observations db)"
  proof
    assume "next_uuid db \<in> fst ` set (observations db)"
    then obtain r where "r \<in> set (observations db)" "fst r = next_uuid db" by auto
    then show False using ok obs_row_okD(1) [of env db r] by (simp add: obs_ok_def)
  qed
  note c = create_observation_cases [OF run fresh]
  have pk: "pk = next_uuid db" using c by simp
  have y: "obs_tx y = obs_tx x" "obs_log y = obs_log x" "obs_chain y = obs_chain x" "obs_status y = Observed"
      "obs_shadow y = obs_shadow x" "on_grid MONEY_QUANT (obs_amount y)" "0 \<le> obs_log y"
    using c st by (simp_all add: micro.quantize_on_grid)
  have amt: "0 < obs_amount y" "obs_amount y < NUMERIC_20_6"
    and db': "next_uuid db' = Suc (next_uuid db)" "ledger db' = ledger db" using c by auto
  have id: "obs_identity y \<notin> (\<lambda>r. obs_identity (snd r)) ` set (observations db)"
    using c y unfolding find_observation_None by (simp add: obs_identity_def)
  have "observation_idempotency_key y \<notin> entry_key ` set (ledger db)"
    by (rule new_key_fresh [OF ok id]) (use tx y in simp_all)
  then have "obs_row_ok env db' (next_uuid db, y)"
    using amt y tx unfolding obs_row_ok_def db' by simp
  from obs_ok_append [OF ok fresh id _ this] c y(4) pk show ?thesis by blast
qed

subsection \<open>Ingest, advance, expire\<close>

text \<open>A normalized hash is \<open>0x\<close>, then hexadecimal digits.\<close>

lemma read_digits_no_colon: "read_digits b acc cs = Some n \<Longrightarrow> CHR '':'' \<notin> set cs"
proof (induction cs arbitrary: acc)
  case (Cons c cs)
  have "\<not> is_digit b (CHR '':'')" by (simp add: is_digit_def digit_val_def)
  with Cons show ?case by (auto split: if_splits)
qed simp

lemma normalize_tx_no_colon:
  assumes "normalize_tx_hash_with ex v = Inr t"
  shows "CHR '':'' \<notin> set t"
proof -
  have t: "starts_with ''0x'' t" "py_int_hex t \<noteq> None"
    using assms by (auto simp: normalize_tx_hash_with_def Let_def starts_with_def split: if_splits)
  then obtain n where n: "read_digits 16 0 (drop 2 t) = Some n"
    by (auto simp: py_int_hex_def Let_def split: if_splits)
  have "take 2 t = ''0x''" using t(1) by (simp add: starts_with_def numeral_2_eq_2)
  then have "set t = set ''0x'' \<union> set (drop 2 t)" by (metis append_take_drop_id set_append)
  then show ?thesis using read_digits_no_colon [OF n] by simp
qed

lemma ingest_once_keeps:
  assumes ok: "obs_ok env db" and tx: "CHR '':'' \<notin> set tx"
    and run: "ingest_once env seen wa chain tx lidx amount token from_address n block shadow db = (Inr pk, db')"
  shows "obs_ok env db' \<and> obs_moves db db'"
proof (cases "find_observation chain tx lidx seen")
  case (Some q)
  then obtain x where "map_of (observations db) (fst q) = Some x" "refresh_locked env (fst q) x n db = (Inr pk, db')"
    using run by (auto simp: ingest_once_def txn_iff get_observation_def)
  then show ?thesis using refresh_keeps [OF ok] by blast
next
  case None
  let ?x = "\<lparr>obs_address = wa, obs_chain = chain, obs_tx = tx, obs_log = lidx, obs_status = Observed,
    obs_amount = amount, obs_token = token, obs_from = from_address, obs_confirmations = n, obs_block = block,
    obs_reason = [], obs_shadow = shadow, observed_at = clock db, pending_at = None, confirmed_at = None,
    conversion_started_at = None, credited_at = None, rejected_at = None, expired_at = None\<rparr>"
  let ?z = "\<lambda>y. y\<lparr>obs_status := PendingConfirmation, pending_at := Some (clock db)\<rparr>"
  obtain k y db1 where c: "create_observation ?x db = (Inr (k, y), db1)"
    and t: "thenE (save_observation k (?z y)) (apply_policy env k (?z y)) db1 = (Inr pk, db')"
    using run None by (auto simp: ingest_once_def bindE_iff getsE_def Let_def)
  from create_observation_Inr [OF ok c] tx have ok1: "obs_ok env db1" and mv: "obs_moves db db1"
    and y: "map_of (observations db1) k = Some y" "obs_status y = Observed" by simp_all
  have "obs_next y (?z y)" using y(2) by (simp add: obs_next_def obs_steps)
  from save_policy_keeps [OF ok1 y(1) this _ _ t] y(2) mv show ?thesis by (auto intro: obs_moves_trans)
qed

lemma retry_cases:
  assumes "\<And>s e t. m s = (Inl e, t) \<Longrightarrow> t = s" "retry n m k s = (r, t)"
  shows "(\<exists>x. r = Inr x \<and> m s = (Inr x, t)) \<or> k s = (r, t) \<or> (\<exists>e. r = Inl e \<and> t = s)"
  using assms(2)
proof (induction n)
  case (Suc n)
  then show ?case using assms(1) by (auto simp: catchE_iff txn_iff split: if_splits)
qed simp

lemma ingest_existing_keeps:
  assumes ok: "obs_ok env db" and run: "ingest_existing env chain tx lidx n db = (r, db')"
  shows "obs_ok env db' \<and> obs_moves db db'"
proof (cases "find_observation chain tx lidx (observations db)")
  case None
  then show ?thesis using run ok by (simp add: ingest_existing_def txn_defs obs_moves_refl)
next
  case (Some q)
  then have "q \<in> set (observations db)" by (auto simp: find_observation_def find_Some_iff)
  then have q: "map_of (observations db) (fst q) = Some (snd q)" using obs_okD(1) [OF ok] by simp
  have "refresh_locked env (fst q) (snd q) n db = (r, db')"
    using run Some by (simp add: ingest_existing_def txn_defs)
  then show ?thesis by (rule refresh_keeps [OF ok q])
qed

lemma ingest_keeps:
  assumes ok: "obs_ok env db" and run: "ingest env signal shadow db = (r, db')"
  shows "obs_ok env db' \<and> obs_moves db db'"
proof -
  define chain where "chain = (if sig_chain signal = [] then POLYGON else sig_chain signal)"
  have same: "obs_ok env db' \<and> obs_moves db db'" if "db' = db" using that ok by (simp add: obs_moves_refl)
  show ?thesis
  proof (cases "db' = db")
    case False
    with run obtain tx w where tx: "normalize_tx_hash (sig_tx signal) = Inr tx"
      and rt: "retry 5 (ingest_attempt env signal (fst w) chain tx shadow)
        (ingest_existing env chain tx (sig_log signal) (sig_confirmations signal)) db = (r, db')"
      unfolding ingest_def chain_def [symmetric] by (auto simp: Let_def txn_iff split: option.splits)
    have nc: "CHR '':'' \<notin> set tx" using tx unfolding normalize_tx_hash_def by (rule normalize_tx_no_colon)
    have "(\<exists>x. r = Inr x \<and> ingest_attempt env signal (fst w) chain tx shadow db = (Inr x, db')) \<or>
       ingest_existing env chain tx (sig_log signal) (sig_confirmations signal) db = (r, db') \<or>
       (\<exists>e. r = Inl e \<and> db' = db)"
      by (rule retry_cases [OF _ rt]) (auto simp: ingest_attempt_def Let_def txn_iff)
    with False show ?thesis
      using ingest_once_keeps [OF ok nc] ingest_existing_keeps [OF ok]
      by (auto simp: ingest_attempt_def Let_def bindE_def getsE_def atomic_iff)
  qed (use same in blast)
qed

lemma advance_keeps:
  assumes ok: "obs_ok env db" and run: "advance_confirmation env pk db = (r, db')"
  shows "obs_ok env db' \<and> obs_moves db db'"
proof (cases "map_of (observations db) pk")
  case None
  then show ?thesis
    using run ok by (simp add: advance_confirmation_def get_observation_def txn_defs obs_moves_refl)
next
  case (Some x)
  then have "db' = db \<or> apply_policy env pk x db = (r, db')"
    using run by (auto simp: advance_confirmation_def get_observation_def txn_iff)
  then show ?thesis using policy_keeps [OF ok Some] ok by (auto intro: obs_moves_refl)
qed

lemma expire_keeps:
  assumes ok: "obs_ok env db" and run: "expire pk db = (r, db')"
  shows "obs_ok env db' \<and> obs_moves db db'"
proof (cases "db' = db")
  case False
  let ?y = "\<lambda>x. x\<lparr>obs_status := Expired, expired_at := Some (clock db),
    obs_reason := (if obs_reason x = [] then ''observation_window_timeout'' else obs_reason x)\<rparr>"
  from run False obtain x where x: "map_of (observations db) pk = Some x" and st: "obs_status x \<notin> set TERMINAL"
    and db': "db' = db\<lparr>observations := AList.update pk (?y x) (observations db)\<rparr>"
    by (auto simp: expire_def get_observation_def save_observation_def txn_iff split: if_splits)
  have st': "obs_status x \<in> {Observed, PendingConfirmation}"
    using st by (cases "obs_status x") (auto simp: TERMINAL_def)
  have nx: "obs_next x (?y x)" using st' by (auto simp: obs_next_def intro: obs_steps)
  have row: "obs_row_ok env db (pk, ?y x)"
    by (rule obs_row_ok_next [OF obs_okD(3) [OF ok x] nx]) (use st' in auto)
  show ?thesis
    using obs_ok_update [OF ok x obs_identity_next [OF nx] row] nx x
    by (auto simp: db' intro!: obs_moves_update)
qed (use ok in \<open>simp add: obs_moves_refl\<close>)

subsection \<open>Conversion\<close>

lemma convert_Inl: "convert pk db = (Inl e, db') \<Longrightarrow> db' = db"
  by (auto simp: convert_def atomic_iff)

lemma AList_update_twice: "AList.update k r (AList.update k r' t) = AList.update k r t"
  by (induction t) auto

lemma observation_account_cong:
  "addresses db' = addresses db \<Longrightarrow> identities db' = identities db \<Longrightarrow> obs_address y = obs_address x \<Longrightarrow>
   observation_account db' y = observation_account db x"
  by (simp add: observation_account_def split: option.split)

lemma credit_and_finish_Inr:
  assumes fin: "credit_and_finish pk x db = (Inr e, db')" and st: "obs_status x \<noteq> Credited"
    and new: "observation_idempotency_key x \<notin> entry_key ` set (ledger db)"
    and amt: "normalize_amount (DecimalArg (Finite (obs_amount x))) = Inr (obs_amount x)"
  shows "\<exists>a t. observation_account db x = Some a \<and> entry_account e = a \<and> delta e = obs_amount x \<and>
    entry_key e = observation_idempotency_key x \<and> ledger db' = ledger db @ [e] \<and>
    balance_of db' = (balance_of db)(a := balance_of db a + obs_amount x) \<and>
    observations db' = AList.update pk (x\<lparr>obs_status := Credited, credited_at := Some t, obs_reason := []\<rparr>)
      (observations db) \<and> next_uuid db \<le> next_uuid db'"
proof -
  obtain a db2 where a: "observation_account db x = Some a"
    and cr: "credit a (DecimalArg (Finite (obs_amount x))) (RefEnum DEPOSIT) (str_nat pk)
      (observation_idempotency_key x) db = (Inr e, db2)"
    and db': "db' = db2\<lparr>observations := AList.update pk
      (x\<lparr>obs_status := Credited, credited_at := Some (clock db2), obs_reason := []\<rparr>) (observations db2)\<rparr>"
    using fin st unfolding credit_and_finish_def by (auto simp: txn_iff save_observation_def)
  have "find_entry (observation_idempotency_key x) (ledger db) = None" using new by (simp add: find_entry_None)
  with apply_Inr [OF cr [unfolded credit_def]] amt obtain row where row: "map_of (accounts db) a = Some row"
    and p: "(e, db2) = post a row (obs_amount x) ''deposit'' (str_nat pk) (observation_idempotency_key x) db"
    by auto
  have bal: "balance_of db' = balance_of db2" by (simp add: db' balance_of_def fun_eq_iff)
  have obs: "observations db2 = observations db" using credit_frame [OF cr] by auto
  show ?thesis
    using a post_simps [OF p] balance_of_post [OF p row] bal obs
    by (intro exI [of _ a] exI [of _ "clock db2"]) (simp add: db' new_entry_def fun_eq_iff)
qed

text \<open>A conversion that returned: a credited row is answered from the ledger, any other was confirmed
  or started, was no shadow row, and is now credited by one new ledger row of its amount.\<close>

lemma convert_cases:
  assumes ok: "obs_ok env db" and run: "convert pk db = (Inr e, db')"
  shows "\<exists>x. map_of (observations db) pk = Some x \<and>
    (obs_status x = Credited \<and> db' = db \<and> find_entry (observation_idempotency_key x) (ledger db) = Some e \<or>
     (\<exists>a y. obs_status x \<in> {Confirmed, ConversionStarted} \<and> \<not> obs_shadow x \<and> obs_next x y \<and> obs_status y = Credited \<and>
        observation_account db x = Some a \<and> entry_account e = a \<and> delta e = obs_amount x \<and>
        entry_key e = observation_idempotency_key x \<and> ledger db' = ledger db @ [e] \<and>
        balance_of db' = (balance_of db)(a := balance_of db a + obs_amount x) \<and>
        observations db' = AList.update pk y (observations db) \<and> next_uuid db \<le> next_uuid db'))"
proof -
  obtain x where x: "map_of (observations db) pk = Some x"
    using run by (auto simp: convert_def get_observation_def txn_iff)
  note row = obs_row_okD [OF obs_okD(3) [OF ok x], simplified]
  show ?thesis
  proof (cases "obs_status x = Credited")
    case True
    then show ?thesis using run x by (auto simp: convert_def get_observation_def txn_iff)
  next
    case False
    define x1 where "x1 = (if obs_status x = ConversionStarted then x
      else x\<lparr>obs_status := ConversionStarted, conversion_started_at := Some (clock db)\<rparr>)"
    define db1 where "db1 = (if obs_status x = ConversionStarted then db
      else db\<lparr>observations := AList.update pk x1 (observations db)\<rparr>)"
    have st: "obs_status x \<in> {Confirmed, ConversionStarted}" "\<not> obs_shadow x"
      and fin: "credit_and_finish pk x1 db1 = (Inr e, db')"
      using run x False unfolding x1_def db1_def
      by (auto simp: convert_def get_observation_def save_observation_def txn_iff Let_def split: if_splits)
    have x1: "observation_idempotency_key x1 = observation_idempotency_key x" "obs_amount x1 = obs_amount x"
      "obs_status x1 = ConversionStarted" "obs_address x1 = obs_address x"
      by (simp_all add: x1_def observation_idempotency_key_def)
    have db1: "ledger db1 = ledger db" "addresses db1 = addresses db" "identities db1 = identities db"
      "accounts db1 = accounts db" "next_uuid db1 = next_uuid db"
      by (simp_all add: db1_def)
    have up: "AList.update pk y (observations db1) = AList.update pk y (observations db)" for y
      by (simp add: db1_def AList_update_twice)
    have nx: "obs_next x (x1\<lparr>obs_status := Credited, credited_at := Some t, obs_reason := []\<rparr>)" for t
      using st rtranclp_trans [OF obs_steps(8) obs_steps(9)]
      by (auto simp: x1_def obs_next_def intro: obs_steps)
    have amt: "normalize_amount (DecimalArg (Finite (obs_amount x1))) = Inr (obs_amount x1)"
      unfolding x1 using row(4-6) by (intro normalize_grid)
    have bal: "balance_of db1 = balance_of db" by (simp add: balance_of_def db1 fun_eq_iff)
    have acc: "observation_account db1 x1 = observation_account db x"
      by (rule observation_account_cong) (simp_all add: db1 x1)
    have "observation_idempotency_key x1 \<notin> entry_key ` set (ledger db1)"
      unfolding x1 db1 using row(7) False by simp
    from credit_and_finish_Inr [OF fin _ this amt, unfolded x1 db1 bal up acc] obtain a t where
      "observation_account db x = Some a \<and> entry_account e = a \<and> delta e = obs_amount x \<and>
       entry_key e = observation_idempotency_key x \<and> ledger db' = ledger db @ [e] \<and>
       balance_of db' = (balance_of db)(a := balance_of db a + obs_amount x) \<and>
       observations db' = AList.update pk (x1\<lparr>obs_status := Credited, credited_at := Some t, obs_reason := []\<rparr>)
         (observations db) \<and> next_uuid db \<le> next_uuid db'" by auto
    with st nx [of t] x show ?thesis
      by (intro exI [of _ x] conjI disjI2 exI [of _ a]
          exI [of _ "x1\<lparr>obs_status := Credited, credited_at := Some t, obs_reason := []\<rparr>"]) simp_all
  qed
qed

lemma convert_keeps:
  assumes ok: "obs_ok env db" and run: "convert pk db = (r, db')"
  shows "obs_ok env db' \<and> obs_moves db db'"
proof (cases "db' = db")
  case False
  then obtain e where r: "r = Inr e" using run convert_Inl by (cases r) auto
  from convert_cases [OF ok run [unfolded r]] False obtain x y where x: "map_of (observations db) pk = Some x"
    and nx: "obs_next x y" "obs_status y = Credited" and st: "obs_status x \<in> {Confirmed, ConversionStarted}" "\<not> obs_shadow x"
    and e: "delta e = obs_amount x" "entry_key e = observation_idempotency_key x" and led: "ledger db' = ledger db @ [e]"
    and obs: "observations db' = AList.update pk y (observations db)" and n: "next_uuid db \<le> next_uuid db'"
    by auto
  have rowx: "obs_row_ok env db (pk, x)" by (rule obs_okD(3) [OF ok x])
  have y: "observation_idempotency_key y = observation_idempotency_key x" "obs_amount y = obs_amount x"
    using nx by (simp_all add: key_next) (simp add: obs_next_def)
  have rowy: "obs_row_ok env db' (pk, y)"
    using rowx nx st e led n y unfolding obs_row_ok_def
    by (auto simp: obs_next_def confirmed_enough_def)
  have other: "obs_row_ok env db' q" if q: "q \<in> set (observations db)" "fst q \<noteq> pk" for q
  proof -
    have rowq: "obs_row_ok env db q" using ok q(1) by (simp add: obs_ok_def)
    have "obs_identity (snd q) \<noteq> obs_identity x"
      using obs_okD(2) [OF ok] q map_of_SomeD [OF x] unfolding distinct_map inj_on_def by force
    then have "observation_idempotency_key (snd q) \<noteq> observation_idempotency_key x"
      using observation_key_inject [of "snd q" x] obs_row_okD(2,3) [OF rowq] obs_row_okD(2,3) [OF rowx] by auto
    then show ?thesis using rowq led n e(2) by (cases q) (auto simp: obs_row_ok_def)
  qed
  have rows: "obs_row_ok env db' q" if "q \<in> set (observations db')" for q
    using that set_AList_update [OF obs_okD(1) [OF ok], of pk y] rowy other [of q] unfolding obs by auto
  have keys: "(\<lambda>q. observation_idempotency_key (snd q)) ` set (observations db') =
      (\<lambda>q. observation_idempotency_key (snd q)) ` set (observations db)"
    using arg_cong [OF map_AList_update_same [where f = observation_idempotency_key, OF x y(1)], of set]
    unfolding obs by simp
  have "wallet_keys_ok db'"
    using obs_okD(4) [OF ok] map_of_SomeD [OF x] e(2) unfolding wallet_keys_ok_def keys led
    by (auto simp: image_iff intro: bexI [of _ "(pk, x)"])
  moreover have "map (\<lambda>q. obs_identity (snd q)) (observations db') = map (\<lambda>q. obs_identity (snd q)) (observations db)"
    unfolding obs by (rule map_AList_update_same [OF x]) (rule obs_identity_next [OF nx(1)])
  moreover have "map fst (observations db') = map fst (observations db)"
    unfolding obs by (rule keys_AList_update_old [OF x])
  ultimately have "obs_ok env db'"
    using rows obs_okD(1,2) [OF ok] unfolding obs_ok_def by simp
  moreover have "obs_moves db db'" using nx(1) x obs by (intro obs_moves_update) auto
  ultimately show ?thesis by blast
qed (use ok in \<open>simp add: obs_moves_refl\<close>)

lemma obs_moves_settled:
  assumes "obs_moves db db'" "map_of (observations db) k = Some x" "obs_status x \<in> {Credited, Rejected, Expired}"
  shows "\<exists>y. map_of (observations db') k = Some y \<and> obs_status y = obs_status x"
  using assms obs_step_terminal unfolding obs_moves_def obs_next_def by blast

section \<open>Properties\<close>

text \<open>C4. Whatever signal arrives and whichever operation runs on an observation, the invariant holds
  afterwards (credited exactly when the ledger has the row's key, with the row's amount; past the
  policy only with the accepted token and enough confirmations; shadow rows never converted), and
  every stored observation moves only along the edges of the state machine, keeping its identity and
  amount: in particular a credited, rejected or expired one stays so.\<close>

theorem observation_lifecycle:
  assumes ok: "obs_ok env db"
    and op: "m \<in> {ingest env signal shadow, advance_confirmation env pk, expire pk, thenE (convert pk) (ret 0)}"
  shows "obs_ok env (snd (m db)) \<and> obs_moves db (snd (m db)) \<and>
    (\<forall>k x. map_of (observations db) k = Some x \<and> obs_status x \<in> {Credited, Rejected, Expired} \<longrightarrow>
       (\<exists>y. map_of (observations (snd (m db))) k = Some y \<and> obs_status y = obs_status x))"
proof -
  have "obs_ok env db' \<and> obs_moves db db'" if "thenE (convert pk) (ret (0 :: nat)) db = (r, db')" for r db'
    using that convert_keeps [OF ok] by (auto simp: txn_iff)
  then have "obs_ok env (snd (m db)) \<and> obs_moves db (snd (m db))"
    using op ingest_keeps [OF ok surjective_pairing] advance_keeps [OF ok surjective_pairing]
      expire_keeps [OF ok surjective_pairing] by (auto intro: surjective_pairing)
  then show ?thesis using obs_moves_settled by blast
qed

definition demo_observation :: observation where
  "demo_observation = \<lparr>obs_address = 0, obs_chain = POLYGON, obs_tx = ''0xff'', obs_log = 4, obs_status = Confirmed,
     obs_amount = 10, obs_token = ''0xAA'', obs_from = [], obs_confirmations = 20, obs_block = None, obs_reason = [],
     obs_shadow = False, observed_at = 900, pending_at = Some 900, confirmed_at = Some 950,
     conversion_started_at = None, credited_at = None, rejected_at = None, expired_at = None\<rparr>"

definition demo_wallet_db :: wallet_db where
  "demo_wallet_db = voucher_db.extend demo_voucher_db
     \<lparr>identities = [(1, 2)], addresses = [(0, \<lparr>wa_identity = 1, wa_chain = POLYGON, wa_address = ''0x01'', wa_index = 0,
        wa_status = AActive, wa_created = 800, wa_retired = None\<rparr>)], observations = [(0, demo_observation)]\<rparr>"

lemma demo_wallet_db_simps [simp]:
  "identities demo_wallet_db = [(1, 2)]" "observations demo_wallet_db = [(0, demo_observation)]"
  "addresses demo_wallet_db = [(0, \<lparr>wa_identity = 1, wa_chain = POLYGON, wa_address = ''0x01'', wa_index = 0,
     wa_status = AActive, wa_created = 800, wa_retired = None\<rparr>)]"
  "ledger demo_wallet_db = []" "next_uuid demo_wallet_db = 3" "clock demo_wallet_db = 1000"
  "accounts demo_wallet_db = accounts demo_db" "events demo_wallet_db = []"
  by (simp_all add: demo_wallet_db_def demo_voucher_db_def demo_pricing_db_def demo_db_def credit_db.defs
      pricing_db.defs voucher_db.defs)

lemma demo_wallet_ok: "obs_ok demo_env demo_wallet_db" "registry_ok demo_wallet_db"
  by (simp_all add: obs_ok_def obs_row_ok_def wallet_keys_ok_def demo_observation_def confirmed_enough_def
      demo_env_def NUMERIC_20_6_def on_grid_def MONEY_QUANT_def registry_ok_def active_addresses_def)

lemma demo_wallet_ledger: "ledger_ok demo_wallet_db"
  using demo_db_ok by (simp add: ledger_ok_def running_ok_def account_ok_def) (simp add: demo_db_def)

theorem observation_lifecycle_witness:
  "obs_ok demo_env (snd (expire 0 demo_wallet_db)) \<and> obs_moves demo_wallet_db (snd (expire 0 demo_wallet_db))"
  using observation_lifecycle [OF demo_wallet_ok(1), of "expire 0" _ _ 0] by blast

text \<open>C9. A conversion that returns pays the observation once, to the account its address was issued to:
  the row was confirmed with the accepted token and is no shadow row, and the ledger row it returns
  carries the observation's amount and key. An observation already credited is answered without a
  change. Any other gets one new ledger row of the account behind the observation's address, which
  moves that account's balance by the amount and no other balance, and the observation is credited.
  Converting again returns the same row and changes nothing.\<close>

theorem convert_pays_once:
  assumes "ledger_ok db" "obs_ok env db" "convert pk db = (Inr e, db')"
  shows "convert pk db' = (Inr e, db') \<and>
    (\<exists>x. map_of (observations db) pk = Some x \<and> \<not> obs_shadow x \<and> confirmed_enough env x \<and>
       delta e = obs_amount x \<and> entry_key e = observation_idempotency_key x \<and>
       (if obs_status x = Credited then db' = db
        else observation_account db x = Some (entry_account e) \<and> ledger db' = ledger db @ [e] \<and>
          balance_of db' = (balance_of db)(entry_account e := balance_of db (entry_account e) + obs_amount x) \<and>
          (\<exists>y. observations db' = AList.update pk y (observations db) \<and> obs_next x y \<and> obs_status y = Credited)))"
proof -
  from convert_cases [OF assms(2,3)] obtain x where x: "map_of (observations db) pk = Some x"
    and c: "obs_status x = Credited \<and> db' = db \<and> find_entry (observation_idempotency_key x) (ledger db) = Some e \<or>
     (\<exists>y. obs_status x \<in> {Confirmed, ConversionStarted} \<and> \<not> obs_shadow x \<and> obs_next x y \<and> obs_status y = Credited \<and>
        observation_account db x = Some (entry_account e) \<and>
        balance_of db' = (balance_of db)(entry_account e := balance_of db (entry_account e) + obs_amount x) \<and>
        delta e = obs_amount x \<and> entry_key e = observation_idempotency_key x \<and> ledger db' = ledger db @ [e] \<and>
        observations db' = AList.update pk y (observations db))"
    by blast
  have row: "obs_row_ok env db (pk, x)" by (rule obs_okD(3) [OF assms(2) x])
  have ok': "ledger_ok db'" by (rule keepsD [OF keeps_ledger_convert(2) assms(1,3)])
  from c show ?thesis
  proof (elim disjE exE conjE)
    assume st: "obs_status x = Credited" and same: "db' = db"
      and f: "find_entry (observation_idempotency_key x) (ledger db) = Some e"
    obtain e' where e': "e' \<in> set (ledger db)" "entry_key e' = observation_idempotency_key x" "delta e' = obs_amount x"
      using obs_row_okD(8) [OF row] st by auto
    have "e' = e" using find_entry_unique [OF ledger_okD(2) [OF assms(1)] e'(1)] e'(2) f by simp
    then show ?thesis
      using st same e' row x assms(3) by (auto simp: obs_row_ok_def)
  next
    fix y assume st: "obs_status x \<in> {Confirmed, ConversionStarted}" and sh: "\<not> obs_shadow x"
      and y: "obs_next x y" "obs_status y = Credited" and e: "delta e = obs_amount x" "entry_key e = observation_idempotency_key x"
      and led: "ledger db' = ledger db @ [e]" and obs: "observations db' = AList.update pk y (observations db)"
      and acc: "observation_account db x = Some (entry_account e)"
        "balance_of db' = (balance_of db)(entry_account e := balance_of db (entry_account e) + obs_amount x)"
    have "find_entry (entry_key e) (ledger db') = Some e"
      by (rule find_entry_unique [OF ledger_okD(2) [OF ok']]) (simp add: led)
    then have "convert pk db' = (Inr e, db')"
      using y e(2) by (simp add: convert_def get_observation_def txn_defs obs key_next)
    moreover have "confirmed_enough env x" using row st by (auto simp: obs_row_ok_def)
    ultimately show ?thesis using st sh e led x acc obs y by auto
  qed
qed

lemma demo_convert: "\<exists>e db'. convert 0 demo_wallet_db = (Inr e, db')"
proof -
  have amt: "normalize_amount (DecimalArg (Finite 10)) = Inr 10" by (simp add: normalize_eval)
  show ?thesis
    by (simp add: convert_def credit_and_finish_def get_observation_def save_observation_def txn_defs Let_def
        demo_observation_def observation_account_def credit_def apply_credit_def apply_seen_def amt apply_locked_def
        demo_db_def find_entry_def insert_entry_def new_entry_def NUMERIC_20_6_def save_account_def uuid4_def
        observation_idempotency_key_def)
qed

theorem convert_pays_once_witness:
  "\<exists>e db'. convert 0 demo_wallet_db = (Inr e, db') \<and> convert 0 db' = (Inr e, db') \<and> delta e = 10"
proof -
  obtain e db' where run: "convert 0 demo_wallet_db = (Inr e, db')" using demo_convert by blast
  from convert_pays_once [OF demo_wallet_ledger demo_wallet_ok(1) run] run show ?thesis
    by (auto simp: demo_observation_def)
qed

text \<open>The index registry under concurrent allocation: even when an attempt took the next index from
  a stale read of the registry, it leaves unique indices, at most one active address per identity and
  chain, and rows that never disappear; and if every stored address is the one the seed derives for its
  index, this is still so.\<close>

theorem address_registry_kept:
  assumes ok: "registry_ok db"
    and op: "m \<in> {ensure_active_address_once env seen a chain, rotate_active_address_once env seen a chain}"
  shows "registry_ok (snd (m db)) \<and>
    (\<lambda>r. wa_index (snd r)) ` set (addresses db) \<subseteq> (\<lambda>r. wa_index (snd r)) ` set (addresses (snd (m db))) \<and>
    ((\<forall>r \<in> set (addresses db). derive_evm_address env (WALLET_HD_MNEMONIC env) (int (wa_index (snd r))) = Inr (wa_address (snd r))) \<longrightarrow>
     (\<forall>r \<in> set (addresses (snd (m db))).
        derive_evm_address env (WALLET_HD_MNEMONIC env) (int (wa_index (snd r))) = Inr (wa_address (snd r))))"
proof (cases "m db")
  case (Pair r db')
  show ?thesis
  proof (cases r)
    case (Inl e)
    then have "db' = db" using Pair op once_Inl by auto
    then show ?thesis using Pair ok by simp
  next
    case (Inr pk)
    show ?thesis
    proof (cases "m = ensure_active_address_once env seen a chain")
      case True
      from ensure_once_Inr [OF ok, of env seen a chain pk db'] Pair Inr True show ?thesis by auto
    next
      case False
      then have "rotate_active_address_once env seen a chain db = (Inr pk, db')" using op Pair Inr by auto
      from rotate_once_Inr [OF ok this] obtain new where new: "registry_ok db'"
        "map (\<lambda>r. wa_index (snd r)) (addresses db') = map (\<lambda>r. wa_index (snd r)) (addresses db) @ [wa_index new]"
        "\<forall>q \<in> set (addresses db'). q = (pk, new) \<or>
          (\<exists>q0 \<in> set (addresses db). wa_index (snd q0) = wa_index (snd q) \<and> wa_address (snd q0) = wa_address (snd q))"
        "derive_evm_address env (WALLET_HD_MNEMONIC env) (int (wa_index new)) = Inr (wa_address new)" by blast
      have "(\<lambda>r. wa_index (snd r)) ` set (addresses db) \<subseteq> (\<lambda>r. wa_index (snd r)) ` set (addresses db')"
        using arg_cong [OF new(2), of set] by auto
      moreover have "derive_evm_address env (WALLET_HD_MNEMONIC env) (int (wa_index (snd q))) = Inr (wa_address (snd q))"
        if "\<forall>r \<in> set (addresses db). derive_evm_address env (WALLET_HD_MNEMONIC env) (int (wa_index (snd r))) = Inr (wa_address (snd r))"
          "q \<in> set (addresses db')" for q
        using that new(3,4) by (metis snd_conv)
      ultimately show ?thesis using Pair new(1) by simp
    qed
  qed
qed

theorem address_registry_kept_witness:
  "registry_ok (snd (rotate_active_address_once demo_env [] 2 POLYGON demo_wallet_db))"
  using address_registry_kept [OF demo_wallet_ok(2), of "rotate_active_address_once demo_env [] 2 POLYGON"] by blast

text \<open>Asking for the receive address again returns the same row and writes nothing; rotating
  retires it for an index that was never used.\<close>

theorem ensure_address_idempotent:
  assumes "registry_ok db" "ensure_active_address env a chain db = (Inr pk, db')"
  shows "ensure_active_address env a chain db' = (Inr pk, db') \<and>
    (\<forall>pk2 db2. rotate_active_address env a chain db' = (Inr pk2, db2) \<longrightarrow>
       (\<exists>new. (pk2, new) \<in> set (addresses db2) \<and>
          wa_index new \<notin> (\<lambda>r. wa_index (snd r)) ` set (addresses db')))"
proof -
  from ensure_once_Inr [OF assms(1) ensure_Inr [OF assms(2)]] obtain new where ok': "registry_ok db'"
    and new: "registers env a db pk new db'" "wa_chain new = chain" by blast
  have "ensure_active_address env a chain db' = (Inr pk, db')"
    using ensure_once_existing [OF ok' new]
    by (simp add: ensure_active_address_def MAX_INDEX_RETRIES_def eval_nat_numeral bindE_def getsE_def catchE_def)
  moreover have "\<exists>new. (pk2, new) \<in> set (addresses db2) \<and> wa_index new \<notin> (\<lambda>r. wa_index (snd r)) ` set (addresses db')"
    if "rotate_active_address env a chain db' = (Inr pk2, db2)" for pk2 db2
    using rotate_once_Inr [OF ok' rotate_Inr [OF that]] by (auto simp: registers_def)
  ultimately show ?thesis by blast
qed

theorem ensure_address_idempotent_witness:
  "ensure_active_address demo_env 2 POLYGON demo_wallet_db = (Inr 0, demo_wallet_db)"
proof -
  have "ensure_active_address demo_env 2 POLYGON demo_wallet_db = (Inr 0, demo_wallet_db)"
    by (simp add: ensure_active_address_def MAX_INDEX_RETRIES_def eval_nat_numeral ensure_active_address_once_def
        txn_defs lock_identity_def active_addresses_def)
  from ensure_address_idempotent [OF demo_wallet_ok(2) this] show ?thesis by blast
qed

end
