(* ===== verification/Deposits.thy ===== *)
theory Deposits
  imports Wallet Catalog
begin

text \<open>
  USDT deposits: \<open>DepositRequest\<close> of \<^verbatim>\<open>billing/models.py\<close>,
  \<^verbatim>\<open>billing/services/deposit_verification.py\<close> and the shadow comparison of
  \<^verbatim>\<open>wallet/services/shadow.py\<close>. The blockchain provider is the argument \<open>fetch\<close>: from a hash and
  an optional receive address to a transfer, or to the exception it raises with its text. A
  deposit object is the pair of its key and the row as it was read; the lookups that decide
  between a new and a known deposit hold no lock, so \<open>verify_seen\<close> takes the table they read.
\<close>

section \<open>Data\<close>

datatype deposit_status = DPending | DCompleted | DFailed

text \<open>\<^verbatim>\<open>failure_reason\<close>, by the expression that builds the text.\<close>

datatype failure_reason =
  NoFailure | MissingTxHash | TransactionStatusIs string | ProviderSays string | RpcErrorSays string
| AmountMismatchText rat rat | AlreadyCreditedText string

record deposit_request =
  dep_account :: nat
  dep_requested :: rat
  dep_credited :: "rat option"
  dep_method :: string
  dep_tx :: "string option"
  dep_key :: string
  dep_status :: deposit_status
  dep_failure :: failure_reason
  dep_verified :: "int option"
  dep_raw :: "json option"

record transfer =
  tr_tx :: string
  tr_from :: string
  tr_to :: string
  tr_amount :: rat
  tr_confirmations :: int
  tr_block :: int
  tr_token :: string
  tr_status :: string
  tr_raw :: json

type_synonym fetch_transfer = "string \<Rightarrow> string option \<Rightarrow> (exc \<times> string) + transfer"

datatype shadow_outcome = Equal | Different | ShadowError
datatype shadow_severity = SNone | SWarning | SCritical

record shadow_decision =
  sd_observation :: "nat option"
  sd_legacy_amount :: rat
  sd_legacy_account :: nat
  sd_legacy_tx :: string
  sd_shadow_amount :: "rat option"
  sd_shadow_account :: "nat option"
  sd_obs_status :: "obs_status option"
  sd_would_credit :: bool
  sd_outcome :: shadow_outcome
  sd_severity :: shadow_severity
  sd_reason :: string

text \<open>\<open>shadow_decisions\<close> is keyed by the deposit: the model's one-to-one field.\<close>

record deposit_db = wallet_db +
  deposits :: "(nat \<times> deposit_request) list"
  shadow_decisions :: "(nat \<times> shadow_decision) list"

type_synonym ('x, 'a) deposit_txn = "('x deposit_db_scheme, 'a) txn"

section \<open>Reading the provider's answer\<close>

fun truthy :: "json \<Rightarrow> bool" where
  "truthy JNull = False"
| "truthy (JBool b) = b"
| "truthy (JNum x) = (x \<noteq> 0)"
| "truthy (JText s) = (s \<noteq> [])"
| "truthy (JList xs) = (xs \<noteq> [])"
| "truthy (JObj kvs) = (kvs \<noteq> [])"

text \<open>\<^verbatim>\<open>(v or {})\<close> used as a dict: its members, or the \<open>AttributeError\<close> of \<^verbatim>\<open>.get\<close> on anything else.\<close>

definition members :: "json \<Rightarrow> exc + (string \<times> json) list" where
  "members v = (if \<not> truthy v then Inr []
     else case v of JObj kvs \<Rightarrow> Inr kvs | _ \<Rightarrow> Inl (EPy AttributeError))"

text \<open>\<^verbatim>\<open>int(x)\<close> truncates towards zero.\<close>

definition truncate_rat :: "rat \<Rightarrow> int" where
  "truncate_rat x = (if 0 \<le> x then floor x else - floor (- x))"

definition json_int :: "json \<Rightarrow> exc + int" where
  "json_int v =
     (if \<not> truthy v then Inr 0
      else case v of
          JBool _ \<Rightarrow> Inr 1
        | JNum x \<Rightarrow> Inr (truncate_rat x)
        | _ \<Rightarrow> Inl (EPy TypeError))"

definition log_index_from_transfer :: "transfer \<Rightarrow> exc + int" where
  "log_index_from_transfer t =
     (case members (tr_raw t) of
        Inl e \<Rightarrow> Inl e
      | Inr response \<Rightarrow>
          (case members (case map_of response ''matched_log'' of None \<Rightarrow> JNull | Some v \<Rightarrow> v) of
             Inl e \<Rightarrow> Inl e
           | Inr matched \<Rightarrow>
               (let raw = (case map_of matched ''logIndex'' of
                             Some v \<Rightarrow> v
                           | None \<Rightarrow> (case map_of matched ''index'' of Some v \<Rightarrow> v | None \<Rightarrow> JNum 0))
                in case raw of
                     JText s \<Rightarrow>
                       (let text = lower (strip s)
                        in case (if starts_with ''0x'' text then py_int_hex text else py_int_dec text) of
                             None \<Rightarrow> Inl (EPy ValueError)
                           | Some n \<Rightarrow> Inr n)
                   | _ \<Rightarrow> json_int raw)))"

section \<open>Shadow comparison\<close>

text \<open>\<^verbatim>\<open>Decimal.quantize\<close> in the default context: ties go to the even digit.\<close>

definition quantize_half_even :: "rat \<Rightarrow> rat \<Rightarrow> rat" where
  "quantize_half_even q x =
     (let n = floor (x / q); d = x / q - of_int n
      in q * of_int (if d < 1 / 2 \<or> d = 1 / 2 \<and> even n then n else n + 1))"

definition py_quantize_even :: "rat \<Rightarrow> exc + rat" where
  "py_quantize_even x =
     (let r = quantize_half_even MONEY_QUANT x
      in if MONEY_QUANT * 10 ^ DECIMAL_PREC \<le> \<bar>r\<bar> then Inl (EPy InvalidOperation) else Inr r)"

definition legacy_amount :: "deposit_request \<Rightarrow> transfer \<Rightarrow> exc + rat" where
  "legacy_amount d t = py_quantize_even (case dep_credited d of
     Some x \<Rightarrow> if x = 0 then tr_amount t else x | None \<Rightarrow> tr_amount t)"

definition legacy_tx :: "deposit_request \<Rightarrow> transfer \<Rightarrow> string" where
  "legacy_tx d t = lower (case dep_tx d of Some (c # cs) \<Rightarrow> c # cs | _ \<Rightarrow> tr_tx t)"

definition active_wallet_address :: "nat \<Rightarrow> string \<Rightarrow> 'x wallet_db_scheme \<Rightarrow> (nat \<times> wallet_address) option" where
  "active_wallet_address a chain db =
     (case sort_key (\<lambda>r. wa_index (snd r))
             (filter (\<lambda>r. map_of (identities db) (wa_identity (snd r)) = Some a \<and> wa_chain (snd r) = chain \<and>
                wa_status (snd r) = AActive) (addresses db)) of
        [] \<Rightarrow> None | r # _ \<Rightarrow> Some r)"

text \<open>\<^verbatim>\<open>ShadowDecision.objects.create\<close>: one per deposit.\<close>

definition create_decision :: "nat \<Rightarrow> shadow_decision \<Rightarrow> ('x, unit) deposit_txn" where
  "create_decision pk d =
     bindE (getsE (\<lambda>db. map_of (shadow_decisions db) pk)) (\<lambda>old.
     if old \<noteq> None then raiseE (EPy IntegrityError)
     else modifyE (\<lambda>db. db\<lparr>shadow_decisions := AList.update pk d (shadow_decisions db)\<rparr>))"

fun obs_status_value :: "obs_status \<Rightarrow> string" where
  "obs_status_value Observed = ''observed''"
| "obs_status_value PendingConfirmation = ''pending_confirmation''"
| "obs_status_value Confirmed = ''confirmed''"
| "obs_status_value ConversionStarted = ''conversion_started''"
| "obs_status_value Credited = ''credited''"
| "obs_status_value Rejected = ''rejected''"
| "obs_status_value Expired = ''expired''"

definition classify ::
  "rat \<Rightarrow> nat \<Rightarrow> rat \<Rightarrow> nat \<Rightarrow> observation \<Rightarrow> bool \<Rightarrow> shadow_outcome \<times> shadow_severity \<times> string" where
  "classify legacy_amt legacy_account shadow_amt shadow_account obs would_credit =
     (if obs_status obs = Rejected
      then (Different, SCritical, take 255 (''shadow_rejected:'' @
              (if obs_reason obs = [] then ''rejected'' else obs_reason obs)))
      else if obs_status obs \<in> {PendingConfirmation, Observed}
      then (Different, SWarning, ''observation_pending_confirmation'')
      else if obs_status obs = Expired then (Different, SWarning, ''observation_expired'')
      else if shadow_account \<noteq> legacy_account then (Different, SCritical, ''account_mismatch'')
      else if shadow_amt \<noteq> legacy_amt then (Different, SCritical, ''amount_mismatch'')
      else if \<not> would_credit
      then (Different, SWarning, ''shadow_not_confirmed:'' @ obs_status_value (obs_status obs))
      else (Equal, SNone, ''match''))"

definition transfer_signal :: "string \<Rightarrow> int \<Rightarrow> string \<Rightarrow> transfer \<Rightarrow> observation_signal" where
  "transfer_signal tx lidx to_address t =
     \<lparr>sig_chain = POLYGON, sig_tx = tx, sig_log = lidx, sig_to = to_address, sig_amount = tr_amount t,
      sig_token = tr_token t, sig_confirmations = tr_confirmations t, sig_from = tr_from t,
      sig_block = Some (tr_block t)\<rparr>"

definition compare_once :: "env \<Rightarrow> nat \<times> deposit_request \<Rightarrow> transfer \<Rightarrow> ('x, unit) deposit_txn" where
  "compare_once env dep t =
     bindE (liftE (legacy_amount (snd dep) t)) (\<lambda>legacy.
     let blank = \<lparr>sd_observation = None, sd_legacy_amount = legacy, sd_legacy_account = dep_account (snd dep),
           sd_legacy_tx = legacy_tx (snd dep) t, sd_shadow_amount = None, sd_shadow_account = None,
           sd_obs_status = None, sd_would_credit = False, sd_outcome = Different, sd_severity = SCritical,
           sd_reason = ''missing_wallet_address''\<rparr>
     in bindE (getsE (active_wallet_address (dep_account (snd dep)) POLYGON)) (\<lambda>wa.
        case wa of
          None \<Rightarrow> create_decision (fst dep) blank
        | Some w \<Rightarrow>
            bindE (liftE (log_index_from_transfer t)) (\<lambda>lidx.
            bindE (ingest env (transfer_signal (legacy_tx (snd dep) t) lidx (wa_address (snd w)) t) True) (\<lambda>pk.
            bindE (get_observation pk) (\<lambda>obs.
            bindE (getsE (\<lambda>db. observation_account db obs)) (\<lambda>acc.
            bindE (get_or_raise (EPy ObjectDoesNotExist) acc) (\<lambda>shadow_account.
            bindE (liftE (py_quantize_even (obs_amount obs))) (\<lambda>shadow_amt.
            let would_credit = (obs_status obs = Confirmed);
                filled = blank\<lparr>sd_observation := Some pk, sd_shadow_amount := Some shadow_amt,
                   sd_shadow_account := Some shadow_account, sd_obs_status := Some (obs_status obs),
                   sd_would_credit := would_credit\<rparr>
            in bindE (getsE (\<lambda>db. find_entry (observation_idempotency_key obs) (ledger db))) (\<lambda>wallet_ledger.
               if wallet_ledger \<noteq> None
               then create_decision (fst dep)
                      (filled\<lparr>sd_reason := ''duplicate_credit_wallet_obs_ledger_present''\<rparr>)
               else (case classify legacy (dep_account (snd dep)) shadow_amt shadow_account obs would_credit of
                       (outcome, severity, reason) \<Rightarrow>
                         create_decision (fst dep)
                           (filled\<lparr>sd_outcome := outcome, sd_severity := severity, sd_reason := reason\<rparr>)))))))))))"

text \<open>The text of the exception in \<open>sd_reason\<close> is left out.\<close>

definition persist_error :: "nat \<times> deposit_request \<Rightarrow> transfer \<Rightarrow> ('x, unit) deposit_txn" where
  "persist_error dep t =
     catchE (atomic (
       bindE (getsE (\<lambda>db. map_of (shadow_decisions db) (fst dep))) (\<lambda>existing.
       if existing \<noteq> None then ret ()
       else
         bindE (liftE (legacy_amount (snd dep) t)) (\<lambda>legacy.
         create_decision (fst dep)
           \<lparr>sd_observation = None, sd_legacy_amount = legacy, sd_legacy_account = dep_account (snd dep),
            sd_legacy_tx = legacy_tx (snd dep) t, sd_shadow_amount = None, sd_shadow_account = None,
            sd_obs_status = None, sd_would_credit = False, sd_outcome = ShadowError, sd_severity = SCritical,
            sd_reason = ''shadow_pipeline_error''\<rparr>))))
       (\<lambda>_. ret ())"

definition compare_legacy_deposit :: "env \<Rightarrow> nat \<times> deposit_request \<Rightarrow> transfer \<Rightarrow> ('x, unit) deposit_txn" where
  "compare_legacy_deposit env dep t =
     (if \<not> SHADOW_MODE env then ret ()
      else
        bindE (getsE (\<lambda>db. map_of (shadow_decisions db) (fst dep))) (\<lambda>existing.
        if existing \<noteq> None then ret ()
        else catchE (compare_once env dep t) (\<lambda>_. persist_error dep t)))"

definition safe_compare_legacy_deposit :: "env \<Rightarrow> nat \<times> deposit_request \<Rightarrow> transfer \<Rightarrow> ('x, unit) deposit_txn" where
  "safe_compare_legacy_deposit env dep t = catchE (compare_legacy_deposit env dep t) (\<lambda>_. ret ())"

section \<open>DepositVerificationService\<close>

definition normalize_payment_method :: "string \<Rightarrow> exc + string" where
  "normalize_payment_method value =
     (if value \<in> {''wallet_connect'', ''cex_manual''} then Inr value
      else Inl (EDeposit DepositVerificationError))"

definition deposit_tx_hash :: "string \<Rightarrow> exc + string" where
  "deposit_tx_hash value = normalize_tx_hash_with (EDeposit DepositVerificationError) value"

definition get_deposit :: "nat \<Rightarrow> ('x, deposit_request) deposit_txn" where
  "get_deposit pk = bindE (getsE (\<lambda>db. map_of (deposits db) pk)) (get_or_raise (EPy ObjectDoesNotExist))"

definition save_deposit :: "nat \<Rightarrow> deposit_request \<Rightarrow> ('x, unit) deposit_txn" where
  "save_deposit pk d = modifyE (\<lambda>db. db\<lparr>deposits := AList.update pk d (deposits db)\<rparr>)"

definition find_deposit :: "(deposit_request \<Rightarrow> bool) \<Rightarrow> (nat \<times> deposit_request) list \<Rightarrow> (nat \<times> deposit_request) option" where
  "find_deposit P rows = find (\<lambda>r. P (snd r)) rows"

text \<open>The unique columns \<open>tx_hash\<close> (null apart) and \<open>idempotency_key\<close>.\<close>

definition deposit_conflict :: "nat \<Rightarrow> deposit_request \<Rightarrow> (nat \<times> deposit_request) list \<Rightarrow> bool" where
  "deposit_conflict pk d rows \<longleftrightarrow> (\<exists>r \<in> set rows. fst r \<noteq> pk \<and>
     (dep_key (snd r) = dep_key d \<or> dep_tx d \<noteq> None \<and> dep_tx (snd r) = dep_tx d))"

definition mark_failed ::
  "nat \<times> deposit_request \<Rightarrow> failure_reason \<Rightarrow> json option \<Rightarrow> ('x, unit) deposit_txn" where
  "mark_failed dep reason raw =
     atomic (
       bindE (get_deposit (fst dep)) (\<lambda>locked.
       if dep_status locked = DCompleted then ret ()
       else save_deposit (fst dep)
         (locked\<lparr>dep_status := DFailed, dep_failure := reason,
           dep_raw := (case raw of
                         Some r \<Rightarrow> Some r
                       | None \<Rightarrow> (if dep_raw (snd dep) \<noteq> None \<and> dep_raw locked = None
                                  then dep_raw (snd dep) else dep_raw locked))\<rparr>)))"

definition recover_failed_deposit ::
  "nat \<times> deposit_request \<Rightarrow> nat \<Rightarrow> rat \<Rightarrow> string \<Rightarrow> ('x, nat \<times> deposit_request) deposit_txn" where
  "recover_failed_deposit dep a amount_requested key =
     (if dep_account (snd dep) \<noteq> a then raiseE (EDeposit DuplicateTransactionError)
      else if dep_tx (snd dep) = None \<or> dep_tx (snd dep) = Some [] then raiseE (EDeposit DepositVerificationError)
      else
        atomic (
          bindE (get_deposit (fst dep)) (\<lambda>locked.
          if dep_status locked = DCompleted then ret (fst dep, locked)
          else if dep_status locked \<noteq> DFailed then ret (fst dep, locked)
          else if dep_account locked \<noteq> a then raiseE (EDeposit DuplicateTransactionError)
          else
            (let fixed = locked\<lparr>dep_requested := amount_requested, dep_status := DPending,
                                dep_failure := NoFailure, dep_key := key\<rparr>
             in bindE (getsE (\<lambda>db. deposit_conflict (fst dep) fixed (deposits db))) (\<lambda>conflict.
                if conflict then raiseE (EPy IntegrityError)
                else thenE (save_deposit (fst dep) fixed) (ret (fst dep, fixed)))))))"

definition insert_deposit :: "deposit_request \<Rightarrow> ('x, nat \<times> deposit_request) deposit_txn" where
  "insert_deposit d =
     bindE uuid4 (\<lambda>pk.
     bindE (getsE (\<lambda>db. deposit_conflict pk d (deposits db) \<or> map_of (accounts db) (dep_account d) = None)) (\<lambda>conflict.
     if 128 < length (dep_key d) then raiseE (EPy DataError)
     else if conflict then raiseE (EPy IntegrityError)
     else thenE (save_deposit pk d) (ret (pk, d))))"

definition create_pending_deposit ::
  "(nat \<times> deposit_request) list \<Rightarrow> nat \<Rightarrow> string \<Rightarrow> string \<Rightarrow> rat \<Rightarrow> string \<Rightarrow> ('x, nat \<times> deposit_request) deposit_txn" where
  "create_pending_deposit seen a tx way amount_requested key =
     (if find_deposit (\<lambda>d. dep_tx d = Some tx \<and> dep_status d = DCompleted) seen \<noteq> None
      then raiseE (EDeposit DuplicateTransactionError)
      else
        catchE (atomic (insert_deposit
            \<lparr>dep_account = a, dep_requested = amount_requested, dep_credited = None, dep_method = way,
             dep_tx = Some tx, dep_key = key, dep_status = DPending, dep_failure = NoFailure,
             dep_verified = None, dep_raw = None\<rparr>))
          (\<lambda>e. if e \<noteq> EPy IntegrityError then raiseE e
               else
                 bindE (getsE (\<lambda>db. find_deposit (\<lambda>d. dep_key d = key) (deposits db))) (\<lambda>raced.
                 case raced of
                   Some r \<Rightarrow> ret r
                 | None \<Rightarrow>
                     bindE (getsE (\<lambda>db. find_deposit (\<lambda>d. dep_tx d = Some tx) (deposits db))) (\<lambda>other.
                     if other \<noteq> None then raiseE (EDeposit DuplicateTransactionError) else raiseE e))))"

text \<open>\<^verbatim>\<open>deposit.save(update_fields=["raw_rpc_response", ...])\<close>\<close>

definition save_raw :: "nat \<Rightarrow> json \<Rightarrow> ('x, unit) deposit_txn" where
  "save_raw pk raw =
     bindE (getsE (\<lambda>db. map_of (deposits db) pk)) (\<lambda>row.
     case row of
       None \<Rightarrow> raiseE (EPy DatabaseError)
     | Some d \<Rightarrow> save_deposit pk (d\<lparr>dep_raw := Some raw\<rparr>))"

definition apply_transfer_gates ::
  "env \<Rightarrow> nat \<times> deposit_request \<Rightarrow> transfer \<Rightarrow>
   (nat \<times> deposit_request \<Rightarrow> transfer \<Rightarrow> ('x, nat) deposit_txn) \<Rightarrow> ('x, nat) deposit_txn" where
  "apply_transfer_gates env dep t finish =
     (let dep1 = (fst dep, (snd dep)\<lparr>dep_raw := Some (tr_raw t)\<rparr>)
      in thenE (save_raw (fst dep) (tr_raw t))
        (if tr_status t \<noteq> ''success''
         then thenE (mark_failed dep1 (TransactionStatusIs (tr_status t)) (Some (tr_raw t)))
                (raiseE (EDeposit DepositVerificationFailedError))
         else if tr_confirmations t < POLYGON_MIN_CONFIRMATIONS env
         then raiseE (EDeposit (InsufficientConfirmationsError (tr_confirmations t) (POLYGON_MIN_CONFIRMATIONS env)))
         else if tr_amount t \<noteq> dep_requested (snd dep)
         then thenE (mark_failed dep1 (AmountMismatchText (tr_amount t) (dep_requested (snd dep))) (Some (tr_raw t)))
                (raiseE (EDeposit (AmountMismatchError (tr_amount t) (dep_requested (snd dep)))))
         else finish dep1 t))"

definition other_completed :: "nat \<Rightarrow> deposit_request \<Rightarrow> (nat \<times> deposit_request) list \<Rightarrow> bool" where
  "other_completed pk locked rows \<longleftrightarrow> (\<exists>r \<in> set rows. fst r \<noteq> pk \<and> dep_tx locked \<noteq> None \<and>
     dep_tx (snd r) = dep_tx locked \<and> dep_status (snd r) = DCompleted)"

definition completed_row :: "deposit_request \<Rightarrow> transfer \<Rightarrow> int \<Rightarrow> deposit_request" where
  "completed_row locked t now =
     locked\<lparr>dep_credited := Some (tr_amount t), dep_status := DCompleted, dep_verified := Some now,
            dep_failure := NoFailure, dep_raw := Some (tr_raw t)\<rparr>"

definition completed_tx :: "deposit_request \<Rightarrow> transfer \<Rightarrow> string" where
  "completed_tx locked t = (case dep_tx locked of Some (c # cs) \<Rightarrow> c # cs | _ \<Rightarrow> tr_tx t)"

definition deposit_events ::
  "nat \<Rightarrow> deposit_request \<Rightarrow> transfer \<Rightarrow> ledger_entry \<Rightarrow> nat \<Rightarrow> int \<Rightarrow> event list" where
  "deposit_events pk locked t entry ref now =
     [DepositVerified (str_nat pk) (str_nat (dep_account locked)) (tr_amount t) (balance_after entry)
        (completed_tx locked t) (dep_method locked) (str_nat (entry_id entry)) now,
      CreditGranted (str_nat (dep_account locked)) (tr_amount t) (balance_after entry) (reference_value DEPOSIT)
        (str_nat ref) (str_nat (entry_id entry)) (entry_created_at entry)]"

text \<open>The part of \<^verbatim>\<open>_complete\<close> and \<^verbatim>\<open>_complete_wallet_path\<close> that they share: lock, early returns, the
  duplicate guard, and, around the payment \<open>pay\<close>, the completed row. \<open>None\<close> is an early return.\<close>

definition complete_locked ::
  "nat \<times> deposit_request \<Rightarrow> transfer \<Rightarrow> (nat \<Rightarrow> deposit_request \<Rightarrow> ('x, ledger_entry \<times> nat) deposit_txn) \<Rightarrow>
   ('x, (deposit_request \<times> event list) option) deposit_txn" where
  "complete_locked dep t pay =
     atomic (
       bindE (get_deposit (fst dep)) (\<lambda>locked.
       if dep_status locked = DCompleted then ret None
       else if dep_status locked = DFailed then ret None
       else
         bindE (getsE (\<lambda>db. other_completed (fst dep) locked (deposits db))) (\<lambda>other.
         if other
         then thenE (save_deposit (fst dep)
                (locked\<lparr>dep_status := DFailed, dep_failure := AlreadyCreditedText (completed_tx locked t),
                        dep_raw := Some (tr_raw t)\<rparr>))
                (raiseE (EDeposit DuplicateTransactionError))
         else
           bindE (pay (fst dep) locked) (\<lambda>(entry, ref).
           bindE (getsE clock) (\<lambda>now.
           thenE (save_deposit (fst dep) (completed_row locked t now))
             (ret (Some (completed_row locked t now, deposit_events (fst dep) locked t entry ref now))))))))"

definition pay_legacy :: "transfer \<Rightarrow> nat \<Rightarrow> deposit_request \<Rightarrow> ('x, ledger_entry \<times> nat) deposit_txn" where
  "pay_legacy t pk locked =
     bindE (credit (dep_account locked) (DecimalArg (Finite (tr_amount t))) (RefEnum DEPOSIT) (str_nat pk)
              (''deposit:'' @ str_nat pk)) (\<lambda>entry. ret (entry, pk))"

definition complete :: "env \<Rightarrow> nat \<times> deposit_request \<Rightarrow> transfer \<Rightarrow> ('x, nat) deposit_txn" where
  "complete env dep t =
     bindE (complete_locked dep t (pay_legacy t)) (\<lambda>done.
     case done of
       None \<Rightarrow> ret (fst dep)
     | Some (row, evs) \<Rightarrow>
         thenE (publish evs)
           (thenE (safe_compare_legacy_deposit env (fst dep, row) t) (ret (fst dep))))"

definition pay_wallet ::
  "env \<Rightarrow> string \<Rightarrow> transfer \<Rightarrow> nat \<Rightarrow> deposit_request \<Rightarrow> ('x, ledger_entry \<times> nat) deposit_txn" where
  "pay_wallet env to_address t pk locked =
     bindE (liftE (log_index_from_transfer t)) (\<lambda>lidx.
     bindE (ingest env (transfer_signal (completed_tx locked t) lidx to_address t) False) (\<lambda>obs_pk.
     bindE (get_observation obs_pk) (\<lambda>obs.
     if obs_status obs \<noteq> Confirmed then raiseE (EDeposit DepositVerificationFailedError)
     else bindE (convert obs_pk) (\<lambda>entry. ret (entry, obs_pk)))))"

definition complete_wallet_path :: "env \<Rightarrow> string \<Rightarrow> nat \<times> deposit_request \<Rightarrow> transfer \<Rightarrow> ('x, nat) deposit_txn" where
  "complete_wallet_path env to_address dep t =
     bindE (complete_locked dep t (pay_wallet env to_address t)) (\<lambda>done.
     case done of
       None \<Rightarrow> ret (fst dep)
     | Some (row, evs) \<Rightarrow> thenE (publish evs) (ret (fst dep)))"

text \<open>The \<^verbatim>\<open>try/except\<close> around \<^verbatim>\<open>fetch_usdt_transfer\<close>.\<close>

definition fetched ::
  "nat \<times> deposit_request \<Rightarrow> (exc \<times> string) + transfer \<Rightarrow> (transfer \<Rightarrow> ('x, nat) deposit_txn) \<Rightarrow> ('x, nat) deposit_txn" where
  "fetched dep answer k =
     (case answer of
        Inr t \<Rightarrow> k t
      | Inl (e, text) \<Rightarrow>
          if e = EProvider TransferNotFoundError
          then thenE (mark_failed dep (ProviderSays text) None) (raiseE (EDeposit DepositVerificationFailedError))
          else if e = EProvider BlockchainRPCError
          then thenE (mark_failed dep (RpcErrorSays text) None) (raiseE e)
          else if e = EProvider BlockchainProviderError
          then thenE (mark_failed dep (ProviderSays text) None) (raiseE (EDeposit DepositVerificationFailedError))
          else raiseE e)"

definition verify_pending_legacy ::
  "env \<Rightarrow> fetch_transfer \<Rightarrow> nat \<times> deposit_request \<Rightarrow> ('x, nat) deposit_txn" where
  "verify_pending_legacy env fetch dep =
     (case dep_tx (snd dep) of
        Some (c # cs) \<Rightarrow>
          fetched dep (fetch (c # cs) None) (\<lambda>t. apply_transfer_gates env dep t (complete env))
      | _ \<Rightarrow> thenE (mark_failed dep MissingTxHash None) (raiseE (EDeposit DepositVerificationFailedError)))"

definition verify_pending_wallet_path ::
  "env \<Rightarrow> fetch_transfer \<Rightarrow> nat \<times> deposit_request \<Rightarrow> ('x, nat) deposit_txn" where
  "verify_pending_wallet_path env fetch dep =
     (case dep_tx (snd dep) of
        Some (c # cs) \<Rightarrow>
          bindE (ensure_active_address env (dep_account (snd dep)) POLYGON) (\<lambda>wa.
          bindE (getsE (\<lambda>db. map_of (addresses db) wa)) (\<lambda>row.
          bindE (get_or_raise (EPy ObjectDoesNotExist) row) (\<lambda>w.
          fetched dep (fetch (c # cs) (Some (wa_address w)))
            (\<lambda>t. apply_transfer_gates env dep t (complete_wallet_path env (wa_address w))))))
      | _ \<Rightarrow> thenE (mark_failed dep MissingTxHash None) (raiseE (EDeposit DepositVerificationFailedError)))"

definition verify_pending :: "env \<Rightarrow> fetch_transfer \<Rightarrow> nat \<times> deposit_request \<Rightarrow> ('x, nat) deposit_txn" where
  "verify_pending env fetch dep =
     (if should_use_wallet_money_path env (dep_account (snd dep)) then verify_pending_wallet_path env fetch dep
      else verify_pending_legacy env fetch dep)"

definition verify_new ::
  "env \<Rightarrow> fetch_transfer \<Rightarrow> (nat \<times> deposit_request) list \<Rightarrow> nat \<Rightarrow> string \<Rightarrow> string \<Rightarrow> rat \<Rightarrow> string \<Rightarrow>
   ('x, nat) deposit_txn" where
  "verify_new env fetch seen a tx way amount key =
     (case find_deposit (\<lambda>d. dep_tx d = Some tx \<and> dep_status d = DFailed) seen of
        Some failed_for_tx \<Rightarrow>
          if dep_account (snd failed_for_tx) \<noteq> a then raiseE (EDeposit DuplicateTransactionError)
          else if dep_requested (snd failed_for_tx) = amount then ret (fst failed_for_tx)
          else bindE (recover_failed_deposit failed_for_tx a amount key) (verify_pending env fetch)
      | None \<Rightarrow>
          bindE (create_pending_deposit seen a tx way amount key) (\<lambda>dep.
          if dep_status (snd dep) \<noteq> DPending then ret (fst dep) else verify_pending env fetch dep))"

definition verify_seen ::
  "env \<Rightarrow> fetch_transfer \<Rightarrow> (nat \<times> deposit_request) list \<Rightarrow> nat \<Rightarrow> string \<Rightarrow> string \<Rightarrow> money_arg \<Rightarrow> string \<Rightarrow>
   ('x, nat) deposit_txn" where
  "verify_seen env fetch seen a tx_hash payment_method amount_requested key =
     (if \<not> BILLING_ENABLED env then raiseE (EDeposit BillingDisabledError)
      else if key = [] then raiseE (EDeposit DepositVerificationError)
      else
        bindE (liftE (normalize_payment_method payment_method)) (\<lambda>way.
        bindE (liftE (normalize_amount amount_requested)) (\<lambda>amount.
        bindE (liftE (deposit_tx_hash tx_hash)) (\<lambda>tx.
        case find_deposit (\<lambda>d. dep_key d = key) seen of
          Some existing \<Rightarrow>
            if dep_status (snd existing) = DCompleted then ret (fst existing)
            else if dep_status (snd existing) = DFailed
            then (if dep_account (snd existing) \<noteq> a then ret (fst existing)
                  else if dep_requested (snd existing) = amount then ret (fst existing)
                  else bindE (recover_failed_deposit existing a amount key) (verify_pending env fetch))
            else verify_pending env fetch existing
        | None \<Rightarrow> verify_new env fetch seen a tx way amount key))))"

definition verify ::
  "env \<Rightarrow> fetch_transfer \<Rightarrow> nat \<Rightarrow> string \<Rightarrow> string \<Rightarrow> money_arg \<Rightarrow> string \<Rightarrow> ('x, nat) deposit_txn" where
  "verify env fetch a tx_hash payment_method amount_requested key =
     bindE (getsE deposits) (\<lambda>seen. verify_seen env fetch seen a tx_hash payment_method amount_requested key)"

definition reset_failed :: "nat \<Rightarrow> ('x, deposit_request option) deposit_txn" where
  "reset_failed pk =
     atomic (
       bindE (get_deposit pk) (\<lambda>locked.
       if dep_status locked = DCompleted then ret None
       else if dep_status locked = DFailed
       then (if dep_tx locked = None \<or> dep_tx locked = Some [] then raiseE (EDeposit DepositVerificationError)
             else thenE (save_deposit pk (locked\<lparr>dep_status := DPending, dep_failure := NoFailure\<rparr>))
                    (ret (Some (locked\<lparr>dep_status := DPending, dep_failure := NoFailure\<rparr>))))
       else ret (Some locked)))"

definition reverify :: "env \<Rightarrow> fetch_transfer \<Rightarrow> nat \<Rightarrow> ('x, nat) deposit_txn" where
  "reverify env fetch pk =
     (if \<not> BILLING_ENABLED env then raiseE (EDeposit BillingDisabledError)
      else
        bindE (reset_failed pk) (\<lambda>out.
        case out of
          None \<Rightarrow> ret pk
        | Some row \<Rightarrow> verify_pending env fetch (pk, row)))"

section \<open>Ledger invariant\<close>

lemma ledger_ok_deposits [simp]:
  "ledger_ok (db\<lparr>deposits := ds\<rparr>) = ledger_ok db"
  "ledger_ok (db\<lparr>shadow_decisions := ss\<rparr>) = ledger_ok db"
  by (simp_all add: ledger_ok_def entry_ok_def account_ok_def)

lemma keeps_ledger_deposit_rows [keeps_intros]:
  "keeps ledger_ok (get_deposit pk)" "keeps ledger_ok (save_deposit pk d)" "keeps ledger_ok (create_decision pk sd)"
  "keeps ledger_ok (save_raw pk raw)" "keeps ledger_ok (mark_failed dep reason r)"
  "keeps ledger_ok (recover_failed_deposit dep a x key)" "keeps ledger_ok (insert_deposit d)"
  unfolding get_deposit_def save_deposit_def create_decision_def save_raw_def mark_failed_def
    recover_failed_deposit_def insert_deposit_def Let_def
  by (intro keeps_intros; simp)+

lemma keeps_ledger_create_pending [keeps_intros]: "keeps ledger_ok (create_pending_deposit seen a tx way x key)"
  unfolding create_pending_deposit_def by (intro keeps_intros)

lemma keeps_ledger_shadow [keeps_intros]: "keeps ledger_ok (safe_compare_legacy_deposit env dep t)"
  unfolding safe_compare_legacy_deposit_def compare_legacy_deposit_def compare_once_def persist_error_def Let_def
  by (intro keeps_intros)

lemma keeps_ledger_pay [keeps_intros]:
  "keeps ledger_ok (pay_legacy t pk d)" "keeps ledger_ok (pay_wallet env to_address t pk d)"
  unfolding pay_legacy_def pay_wallet_def by (intro keeps_intros)+

lemma keeps_ledger_complete_locked [keeps_intros]:
  "(\<And>pk d. keeps ledger_ok (pay pk d)) \<Longrightarrow> keeps ledger_ok (complete_locked dep t pay)"
  unfolding complete_locked_def by (intro keeps_intros) blast

lemma keeps_ledger_complete [keeps_intros]:
  "keeps ledger_ok (complete env dep t)" "keeps ledger_ok (complete_wallet_path env to_address dep t)"
  unfolding complete_def complete_wallet_path_def by (intro keeps_intros)+

lemma keeps_ledger_gates [keeps_intros]:
  "(\<And>d t. keeps ledger_ok (finish d t)) \<Longrightarrow> keeps ledger_ok (apply_transfer_gates env dep t finish)"
  unfolding apply_transfer_gates_def Let_def by (intro keeps_intros) blast

lemma keeps_case_sum [keeps_intros]:
  "(\<And>x. keeps I (f x)) \<Longrightarrow> (\<And>y. keeps I (g y)) \<Longrightarrow> keeps I (case q of Inl x \<Rightarrow> f x | Inr y \<Rightarrow> g y)"
  by (cases q) simp_all

lemma keeps_ledger_fetched [keeps_intros]:
  "(\<And>t. keeps ledger_ok (k t)) \<Longrightarrow> keeps ledger_ok (fetched dep answer k)"
  unfolding fetched_def by (intro keeps_intros) blast

lemma keeps_ledger_verify_pending [keeps_intros]: "keeps ledger_ok (verify_pending env fetch dep)"
  unfolding verify_pending_def verify_pending_legacy_def verify_pending_wallet_path_def by (intro keeps_intros)

lemma keeps_ledger_verify [keeps_intros]:
  "keeps ledger_ok (verify_seen env fetch seen a tx way x key)" "keeps ledger_ok (verify env fetch a tx way x key)"
  "keeps ledger_ok (reverify env fetch pk)"
  unfolding verify_def verify_seen_def verify_new_def reverify_def reset_failed_def by (intro keeps_intros)+

section \<open>What does not touch the money\<close>

definition money_frame :: "ledger_entry list \<Rightarrow> (nat \<times> deposit_request) list \<Rightarrow> nat \<Rightarrow> 'x deposit_db_scheme \<Rightarrow> bool" where
  "money_frame L D n s \<longleftrightarrow> ledger s = L \<and> deposits s = D \<and> n \<le> next_uuid s"

lemma money_frame_simps [simp]:
  "money_frame L D n (s\<lparr>observations := os\<rparr>) = money_frame L D n s"
  "money_frame L D n (s\<lparr>identities := is\<rparr>) = money_frame L D n s"
  "money_frame L D n (s\<lparr>addresses := as\<rparr>) = money_frame L D n s"
  "money_frame L D n (s\<lparr>shadow_decisions := sd\<rparr>) = money_frame L D n s"
  "money_frame L D n (s\<lparr>events := evs\<rparr>) = money_frame L D n s"
  by (simp_all add: money_frame_def)

lemma keeps_frame_rows [keeps_intros]:
  "keeps (money_frame L D n) uuid4" "keeps (money_frame L D n) (lock_identity a)"
  "keeps (money_frame L D n) (create_address new)" "keeps (money_frame L D n) (save_observation pk obs)"
  "keeps (money_frame L D n) (get_observation pk)" "keeps (money_frame L D n) (get_deposit pk)"
  "keeps (money_frame L D n) (publish evs)" "keeps (money_frame L D n) (create_decision pk sd)"
proof -
  show u: "keeps (money_frame L D n) uuid4" by (simp add: keeps_def uuid4_def money_frame_def)
  show "keeps (money_frame L D n) (lock_identity a)" "keeps (money_frame L D n) (create_address new)"
    "keeps (money_frame L D n) (save_observation pk obs)" "keeps (money_frame L D n) (get_observation pk)"
    "keeps (money_frame L D n) (get_deposit pk)" "keeps (money_frame L D n) (publish evs)"
    "keeps (money_frame L D n) (create_decision pk sd)"
    unfolding lock_identity_def create_address_def save_observation_def get_observation_def get_deposit_def
      publish_def create_decision_def
    by (intro u keeps_intros; simp)+
qed

lemma keeps_frame_address [keeps_intros]: "keeps (money_frame L D n) (ensure_active_address env a chain)"
  unfolding ensure_active_address_def ensure_active_address_once_def allocate_new_def Let_def
  by (intro keeps_intros)

lemma keeps_frame_ingest [keeps_intros]: "keeps (money_frame L D n) (ingest env signal shadow)"
  unfolding ingest_def ingest_attempt_def ingest_existing_def ingest_once_def create_observation_def
    refresh_locked_def apply_policy_def Let_def
  by (intro keeps_intros)

lemma keeps_frame_shadow [keeps_intros]: "keeps (money_frame L D n) (safe_compare_legacy_deposit env dep t)"
  unfolding safe_compare_legacy_deposit_def compare_legacy_deposit_def compare_once_def persist_error_def Let_def
  by (intro keeps_intros)

lemma obs_ok_simps [simp]:
  "obs_ok env (d\<lparr>shadow_decisions := sd\<rparr>) = obs_ok env d" "obs_ok env (d\<lparr>deposits := ds\<rparr>) = obs_ok env d"
  "obs_ok env (s\<lparr>events := evs\<rparr>) = obs_ok env s" "obs_ok env (s\<lparr>identities := is\<rparr>) = obs_ok env s"
  "obs_ok env (s\<lparr>addresses := as\<rparr>) = obs_ok env s"
  by (simp_all add: obs_ok_def wallet_keys_ok_def obs_row_ok_def)

lemma keeps_obs_rows [keeps_intros]:
  "keeps (obs_ok env) uuid4" "keeps (obs_ok env) (lock_identity a)" "keeps (obs_ok env) (create_address new)"
  "keeps (obs_ok env) (ingest env signal shadow)" "keeps (obs_ok env) (convert pk)"
  "keeps (obs_ok env) (get_observation pk)" "keeps (obs_ok env) (get_deposit pk)"
  "keeps (obs_ok env) (publish evs)" "keeps (obs_ok env) (create_decision pk sd)" "keeps (obs_ok env) (save_deposit pk d)"
proof -
  show u: "keeps (obs_ok env) uuid4"
    by (rule keepsI) (auto simp: uuid4_def obs_ok_def wallet_keys_ok_def intro: obs_row_ok_frame)
  show "keeps (obs_ok env) (ingest env signal shadow)" "keeps (obs_ok env) (convert pk)"
    by (auto intro!: keepsI dest: ingest_keeps convert_keeps)
  show "keeps (obs_ok env) (lock_identity a)" "keeps (obs_ok env) (create_address new)"
    "keeps (obs_ok env) (get_observation pk)"
    "keeps (obs_ok env) (get_deposit pk)" "keeps (obs_ok env) (publish evs)" "keeps (obs_ok env) (create_decision pk sd)"
    "keeps (obs_ok env) (save_deposit pk d)"
    unfolding lock_identity_def create_address_def get_observation_def get_deposit_def
      publish_def create_decision_def save_deposit_def
    by (intro u keeps_intros; simp)+
qed

lemma keeps_obs_address [keeps_intros]: "keeps (obs_ok env) (ensure_active_address env' a chain)"
  unfolding ensure_active_address_def ensure_active_address_once_def allocate_new_def Let_def
  by (intro keeps_intros)

lemma keeps_obs_shadow [keeps_intros]: "keeps (obs_ok env) (safe_compare_legacy_deposit env dep t)"
  unfolding safe_compare_legacy_deposit_def compare_legacy_deposit_def compare_once_def persist_error_def Let_def
  by (intro keeps_intros)

section \<open>Credits per transaction\<close>

lemma split_on_not_Nil [simp]: "split_on d xs \<noteq> []"
  by (induction xs) (auto split: list.split)

lemma split_on_snoc: "d \<notin> set l \<Longrightarrow> split_on d (x @ d # l) = split_on d x @ [l]"
proof (induction x)
  case Nil
  have "split_on d l = [l]" using Nil by (induction l) auto
  then show ?case by simp
next
  case (Cons c x)
  then show ?case by (cases "split_on d x") (auto simp: split_on_not_Nil [THEN notE])
qed

text \<open>The transaction a wallet key stands for is its last but one component.\<close>

definition wallet_key_tx :: "string \<Rightarrow> string" where
  "wallet_key_tx key = (case rev (split_on (CHR '':'') key) of l # t # _ \<Rightarrow> t | _ \<Rightarrow> [])"

lemma wallet_key_tx_observation:
  assumes "CHR '':'' \<notin> set (obs_tx x)"
  shows "wallet_key_tx (observation_idempotency_key x) = obs_tx x"
proof -
  have "observation_idempotency_key x =
      ((''wallet-obs:'' @ obs_chain x) @ CHR '':'' # obs_tx x) @ CHR '':'' # str_int (obs_log x)"
    by (simp add: observation_idempotency_key_def)
  then show ?thesis
    using split_on_snoc [OF str_int_no_colon, of "(''wallet-obs:'' @ obs_chain x) @ CHR '':'' # obs_tx x" "obs_log x"]
      split_on_snoc [OF assms, of "''wallet-obs:'' @ obs_chain x"]
    by (simp add: wallet_key_tx_def)
qed

text \<open>A ledger row pays transaction \<open>t\<close> if it carries the key of a deposit of \<open>t\<close> (the shared wallet
  path) or of an observation of \<open>t\<close> (the wallet path).\<close>

definition pays_tx :: "(nat \<times> deposit_request) list \<Rightarrow> string \<Rightarrow> ledger_entry \<Rightarrow> bool" where
  "pays_tx ds t e \<longleftrightarrow>
     starts_with ''wallet-obs:'' (entry_key e) \<and> wallet_key_tx (entry_key e) = t \<or>
     (\<exists>r \<in> set ds. dep_tx (snd r) = Some t \<and> entry_key e = ''deposit:'' @ str_nat (fst r))"

definition tx_credits :: "'x deposit_db_scheme \<Rightarrow> string \<Rightarrow> nat" where
  "tx_credits db t = length (filter (pays_tx (deposits db) t) (ledger db))"

definition tx_completed :: "(nat \<times> deposit_request) list \<Rightarrow> string \<Rightarrow> bool" where
  "tx_completed ds t \<longleftrightarrow> (\<exists>r \<in> set ds. dep_tx (snd r) = Some t \<and> dep_status (snd r) = DCompleted)"

definition deposit_row_ok :: "'x deposit_db_scheme \<Rightarrow> nat \<times> deposit_request \<Rightarrow> bool" where
  "deposit_row_ok db r \<longleftrightarrow> fst r < next_uuid db \<and>
     (\<exists>t. dep_tx (snd r) = Some t \<and> normalize_tx_hash t = Inr t)"

definition deposit_ok :: "'x deposit_db_scheme \<Rightarrow> bool" where
  "deposit_ok db \<longleftrightarrow> distinct (map fst (deposits db)) \<and> distinct (map (\<lambda>r. dep_tx (snd r)) (deposits db)) \<and>
     tag_fresh ''deposit:'' db \<and> (\<forall>r \<in> set (deposits db). deposit_row_ok db r) \<and>
     (\<forall>t. tx_credits db t = (if tx_completed (deposits db) t then 1 else 0))"

lemma deposit_okD:
  assumes "deposit_ok db"
  shows "distinct (map fst (deposits db))" "distinct (map (\<lambda>r. dep_tx (snd r)) (deposits db))"
    "tag_fresh ''deposit:'' db" "\<And>r. r \<in> set (deposits db) \<Longrightarrow> deposit_row_ok db r"
    "\<And>t. tx_credits db t = (if tx_completed (deposits db) t then 1 else 0)"
  using assms by (auto simp: deposit_ok_def)

lemma deposit_ok_frame:
  assumes ok: "deposit_ok db" and fr: "money_frame (ledger db) (deposits db) (next_uuid db) db'"
  shows "deposit_ok db'"
proof -
  have eq: "ledger db' = ledger db" "deposits db' = deposits db" "next_uuid db \<le> next_uuid db'"
    using fr by (auto simp: money_frame_def)
  have "tag_fresh ''deposit:'' db'" using deposit_okD(3) [OF ok] eq unfolding tag_fresh_def by auto
  moreover have "deposit_row_ok db' r" if "r \<in> set (deposits db)" for r
    using deposit_okD(4) [OF ok that] eq(3) by (auto simp: deposit_row_ok_def)
  ultimately show ?thesis
    using ok eq by (simp add: deposit_ok_def tx_credits_def)
qed

lemma map_AList_update_row:
  "map_of t k = Some r0 \<Longrightarrow> f (k, r) = f (k, r0) \<Longrightarrow> map f (AList.update k r t) = map f t"
  by (induction t) auto

lemma pays_tx_alt:
  "pays_tx ds t e \<longleftrightarrow> starts_with ''wallet-obs:'' (entry_key e) \<and> wallet_key_tx (entry_key e) = t \<or>
     (\<exists>p \<in> (\<lambda>r. (fst r, dep_tx (snd r))) ` set ds. snd p = Some t \<and> entry_key e = ''deposit:'' @ str_nat (fst p))"
  by (simp add: pays_tx_def)

lemma tx_completed_alt:
  "tx_completed ds t \<longleftrightarrow> (Some t, True) \<in> (\<lambda>r. (dep_tx (snd r), dep_status (snd r) = DCompleted)) ` set ds"
  by (force simp: tx_completed_def)

text \<open>Rewriting a row without touching its hash or its completion.\<close>

lemma deposit_ok_update:
  assumes ok: "deposit_ok db" and d: "map_of (deposits db) pk = Some d"
    and same: "dep_tx d' = dep_tx d" "dep_status d' = DCompleted \<longleftrightarrow> dep_status d = DCompleted"
    and db': "ledger db' = ledger db" "deposits db' = AList.update pk d' (deposits db)" "next_uuid db' = next_uuid db"
  shows "deposit_ok db'"
proof -
  have mem: "(pk, d) \<in> set (deposits db)" using d by (rule map_of_SomeD)
  have "map (\<lambda>r. (fst r, dep_tx (snd r))) (deposits db') = map (\<lambda>r. (fst r, dep_tx (snd r))) (deposits db)"
    unfolding db' by (rule map_AList_update_row [OF d]) (simp add: same)
  from arg_cong [OF this, of set] have pays: "pays_tx (deposits db') t = pays_tx (deposits db) t" for t
    unfolding pays_tx_alt fun_eq_iff by simp
  have "map (\<lambda>r. (dep_tx (snd r), dep_status (snd r) = DCompleted)) (deposits db') =
      map (\<lambda>r. (dep_tx (snd r), dep_status (snd r) = DCompleted)) (deposits db)"
    unfolding db' by (rule map_AList_update_row [OF d]) (simp add: same)
  from arg_cong [OF this, of set] have compl: "tx_completed (deposits db') t = tx_completed (deposits db) t" for t
    unfolding tx_completed_alt by simp
  have rows: "deposit_row_ok db' r" if r: "r \<in> set (deposits db')" for r
  proof -
    have "r = (pk, d') \<or> r \<in> set (deposits db)"
      using r set_AList_update [OF deposit_okD(1) [OF ok], of pk d'] unfolding db' by blast
    then show ?thesis
      using deposit_okD(4) [OF ok, of r] deposit_okD(4) [OF ok mem] same(1) db'(3)
      by (auto simp: deposit_row_ok_def)
  qed
  have "map fst (deposits db') = map fst (deposits db)"
    unfolding db' by (rule keys_AList_update_old [OF d])
  moreover have "map (\<lambda>r. dep_tx (snd r)) (deposits db') = map (\<lambda>r. dep_tx (snd r)) (deposits db)"
    unfolding db' by (rule map_AList_update_same [OF d]) (rule same(1))
  moreover have "tag_fresh ''deposit:'' db'"
    using deposit_okD(3) [OF ok] unfolding tag_fresh_def db'(1,3) .
  moreover have "tx_credits db' t = (if tx_completed (deposits db') t then 1 else 0)" for t
    using deposit_okD(5) [OF ok, of t] by (simp add: tx_credits_def pays compl db'(1))
  ultimately show ?thesis
    using rows deposit_okD(1,2) [OF ok] unfolding deposit_ok_def by simp
qed

lemma read_digits_chars: "read_digits b acc cs = Some n \<Longrightarrow> c \<in> set cs \<Longrightarrow> c = CHR ''_'' \<or> is_digit b c"
  by (induction cs arbitrary: acc) (auto split: if_splits)

lemma strip_no_space: "(\<And>c. c \<in> set s \<Longrightarrow> \<not> is_space c) \<Longrightarrow> strip s = s"
proof -
  assume a: "\<And>c. c \<in> set s \<Longrightarrow> \<not> is_space c"
  then have id: "dropWhile is_space s = s" by (cases s) simp_all
  have "dropWhile is_space (rev s) = rev s"
    using a by (cases s rule: rev_cases) simp_all
  then show ?thesis by (simp add: strip_def id)
qed

lemma digit_not_space: "is_digit b c \<Longrightarrow> \<not> is_space c"
  by (auto simp: is_digit_def digit_val_def is_space_def Let_def split: if_splits)

lemma normalize_tx_idem:
  assumes "normalize_tx_hash_with ex v = Inr t"
  shows "normalize_tx_hash_with ex' t = Inr t"
proof -
  define w where "w = lower (strip v)"
  have t: "t = (if starts_with ''0x'' w then w else ''0x'' @ w)" "length t = 66" "py_int_hex t \<noteq> None"
    using assms unfolding w_def by (auto simp: normalize_tx_hash_with_def Let_def split: if_splits)
  have sw: "starts_with ''0x'' t" using t(1) by (simp add: starts_with_def)
  have "lower ''0x'' = ''0x''" by code_simp
  moreover have "lower w = w" by (simp add: w_def)
  ultimately have lt: "lower t = t" using t(1) by (simp add: lower_def split: if_split_asm)
  obtain n where n: "read_digits 16 0 (drop 2 t) = Some n"
    using t(3) by (auto simp: py_int_hex_def Let_def split: if_splits)
  have "take 2 t = ''0x''" using sw by (simp add: starts_with_def numeral_2_eq_2)
  then have "set t = set ''0x'' \<union> set (drop 2 t)" by (metis append_take_drop_id set_append)
  moreover have "\<not> is_space (CHR ''0'')" "\<not> is_space (CHR ''x'')" "\<not> is_space (CHR ''_'')"
    by (simp_all add: is_space_def)
  ultimately have "\<not> is_space c" if "c \<in> set t" for c
    using that read_digits_chars [OF n, of c] digit_not_space [of 16 c] by auto
  then have st: "strip t = t" by (rule strip_no_space)
  show ?thesis by (simp add: normalize_tx_hash_with_def Let_def st lt sw t(2,3))
qed

text \<open>A new pending row for a hash that no deposit has.\<close>

lemma deposit_ok_insert:
  assumes ok: "deposit_ok db" and new: "dep_tx d = Some t" "normalize_tx_hash t = Inr t" "dep_status d \<noteq> DCompleted"
    and nc: "Some t \<notin> (\<lambda>r. dep_tx (snd r)) ` set (deposits db)"
    and db': "ledger db' = ledger db" "deposits db' = deposits db @ [(next_uuid db, d)]"
      "next_uuid db' = Suc (next_uuid db)"
  shows "deposit_ok db'"
proof -
  have fresh: "next_uuid db \<notin> fst ` set (deposits db)"
    using deposit_okD(4) [OF ok] by (force simp: deposit_row_ok_def)
  have unused: "entry_key e \<noteq> ''deposit:'' @ str_nat (next_uuid db)" if "e \<in> set (ledger db)" for e
    using deposit_okD(3) [OF ok] that unfolding tag_fresh_def by (metis less_irrefl)
  have "filter (pays_tx (deposits db') t') (ledger db) = filter (pays_tx (deposits db) t') (ledger db)" for t'
    by (rule filter_cong [OF refl]) (use unused in \<open>auto simp: pays_tx_def db'\<close>)
  then have cr: "tx_credits db' t' = tx_credits db t'" for t'
    by (simp add: tx_credits_def db'(1))
  have compl: "tx_completed (deposits db') t' = tx_completed (deposits db) t'" for t'
    using new(3) by (auto simp: tx_completed_def db')
  have "tag_fresh ''deposit:'' db'"
    using deposit_okD(3) [OF ok] unfolding tag_fresh_def db' by auto
  moreover have "deposit_row_ok db' r" if "r \<in> set (deposits db')" for r
    using that deposit_okD(4) [OF ok, of r] new db' by (auto simp: deposit_row_ok_def)
  ultimately show ?thesis
    using deposit_okD(1,2,5) [OF ok] fresh nc new(1) cr compl unfolding deposit_ok_def by (simp add: db')
qed

text \<open>Completing a pending row with one ledger row that pays its transaction and no other.\<close>

lemma deposit_ok_complete:
  assumes ok: "deposit_ok db" and d: "map_of (deposits db) pk = Some d" "dep_tx d = Some t" "dep_status d \<noteq> DCompleted"
    and d': "dep_tx d' = Some t" "dep_status d' = DCompleted"
    and e: "pays_tx (deposits db) t e" "\<And>t'. t' \<noteq> t \<Longrightarrow> \<not> pays_tx (deposits db) t' e"
    and db': "ledger db' = ledger db @ [e]" "deposits db' = AList.update pk d' (deposits db)" "next_uuid db \<le> next_uuid db'"
    and tag: "tag_fresh ''deposit:'' db'"
  shows "deposit_ok db'"
proof -
  have mem: "(pk, d) \<in> set (deposits db)" using d(1) by (rule map_of_SomeD)
  have "map (\<lambda>r. (fst r, dep_tx (snd r))) (deposits db') = map (\<lambda>r. (fst r, dep_tx (snd r))) (deposits db)"
    unfolding db' by (rule map_AList_update_row [OF d(1)]) (simp add: d d')
  from arg_cong [OF this, of set] have pays: "pays_tx (deposits db') t' = pays_tx (deposits db) t'" for t'
    unfolding pays_tx_alt fun_eq_iff by simp
  have set_eq: "set (deposits db') = insert (pk, d') {p \<in> set (deposits db). fst p \<noteq> pk}"
    unfolding db' by (rule set_AList_update [OF deposit_okD(1) [OF ok]])
  have only: "r = (pk, d)" if "r \<in> set (deposits db)" "dep_tx (snd r) = Some t" for r
    using that mem deposit_okD(2) [OF ok] d(2) unfolding distinct_map inj_on_def by force
  then have before: "\<not> tx_completed (deposits db) t" using d(3) by (force simp: tx_completed_def)
  have after: "tx_completed (deposits db') t" using d' by (auto simp: tx_completed_def set_eq)
  have others: "tx_completed (deposits db') t' = tx_completed (deposits db) t'" if "t' \<noteq> t" for t'
  proof -
    have "r \<in> set (deposits db) \<Longrightarrow> dep_tx (snd r) = Some t' \<Longrightarrow> fst r \<noteq> pk" for r
      using that d(2) mem deposit_okD(1) [OF ok] by (metis eq_key_imp_eq_value option.inject prod.collapse)
    then show ?thesis
      using that d'(1) unfolding tx_completed_def set_eq
      by (metis (mono_tags, lifting) insert_iff mem_Collect_eq option.inject snd_conv)
  qed
  have "tx_credits db' t' = (if tx_completed (deposits db') t' then 1 else 0)" for t'
    using deposit_okD(5) [OF ok, of t'] e before after others [of t']
    by (cases "t' = t") (simp_all add: tx_credits_def pays db'(1))
  moreover have "deposit_row_ok db' r" if r: "r \<in> set (deposits db')" for r
  proof -
    have "r = (pk, d') \<or> r \<in> set (deposits db)" using r unfolding set_eq by blast
    then show ?thesis
      using deposit_okD(4) [OF ok, of r] deposit_okD(4) [OF ok mem] d d' db'(3)
      by (auto simp: deposit_row_ok_def)
  qed
  moreover have "map fst (deposits db') = map fst (deposits db)"
    unfolding db' by (rule keys_AList_update_old [OF d(1)])
  moreover have "map (\<lambda>r. dep_tx (snd r)) (deposits db') = map (\<lambda>r. dep_tx (snd r)) (deposits db)"
    unfolding db' by (rule map_AList_update_same [OF d(1)]) (simp add: d d')
  ultimately show ?thesis
    using tag deposit_okD(1,2) [OF ok] unfolding deposit_ok_def by simp
qed

section \<open>The two payments\<close>

text \<open>The row an ingest returns carries the signal's transaction.\<close>

lemma apply_policy_key: "apply_policy env pk x db = (Inr k, db') \<Longrightarrow> k = pk"
  by (auto simp: apply_policy_def txn_iff split: if_splits)

lemma refresh_key: "refresh_locked env pk x n db = (Inr k, db') \<Longrightarrow> k = pk"
  by (auto simp: refresh_locked_def txn_iff Let_def split: if_splits dest: apply_policy_key)

lemma find_observation_row:
  assumes "obs_ok env db" "find_observation chain tx lidx (observations db) = Some q"
  shows "map_of (observations db) (fst q) = Some (snd q) \<and> obs_tx (snd q) = tx"
proof -
  have "q \<in> set (observations db)" "obs_tx (snd q) = tx"
    using assms(2) by (auto simp: find_observation_def find_Some_iff)
  then show ?thesis using obs_okD(1) [OF assms(1)] by simp
qed

lemma moves_row: "obs_moves db db' \<Longrightarrow> map_of (observations db) k = Some x \<Longrightarrow>
    \<exists>y. map_of (observations db') k = Some y \<and> obs_tx y = obs_tx x"
  unfolding obs_moves_def obs_next_def by blast

lemma refresh_row:
  assumes ok: "obs_ok env db" and q: "find_observation chain tx lidx (observations db) = Some q"
    and run: "refresh_locked env (fst q) (snd q) n db = (Inr k, db')"
  shows "\<exists>y. map_of (observations db') k = Some y \<and> obs_tx y = tx"
proof -
  note r = find_observation_row [OF ok q]
  have "obs_moves db db'" using refresh_keeps [OF ok _ run] r by blast
  from moves_row [OF this, of "fst q"] r show ?thesis using refresh_key [OF run] by auto
qed

lemma ingest_once_row:
  assumes ok: "obs_ok env db" and tx: "CHR '':'' \<notin> set tx"
    and run: "ingest_once env (observations db) wa chain tx lidx amount token from_address n block shadow db = (Inr k, db')"
  shows "\<exists>y. map_of (observations db') k = Some y \<and> obs_tx y = tx"
proof (cases "find_observation chain tx lidx (observations db)")
  case (Some q)
  then have "refresh_locked env (fst q) (snd q) n db = (Inr k, db')"
    using run find_observation_row [OF ok Some] by (auto simp: ingest_once_def txn_iff get_observation_def)
  then show ?thesis by (rule refresh_row [OF ok Some])
next
  case None
  let ?x = "\<lparr>obs_address = wa, obs_chain = chain, obs_tx = tx, obs_log = lidx, obs_status = Observed,
    obs_amount = amount, obs_token = token, obs_from = from_address, obs_confirmations = n, obs_block = block,
    obs_reason = [], obs_shadow = shadow, observed_at = clock db, pending_at = None, confirmed_at = None,
    conversion_started_at = None, credited_at = None, rejected_at = None, expired_at = None\<rparr>"
  let ?z = "\<lambda>y. y\<lparr>obs_status := PendingConfirmation, pending_at := Some (clock db)\<rparr>"
  obtain pk y db1 where c: "create_observation ?x db = (Inr (pk, y), db1)"
    and t: "thenE (save_observation pk (?z y)) (apply_policy env pk (?z y)) db1 = (Inr k, db')"
    using run None by (auto simp: ingest_once_def bindE_iff getsE_def Let_def)
  have y: "obs_tx y = tx" using c by (auto simp: create_observation_def txn_iff Let_def uuid4_def split: if_splits)
  from create_observation_Inr [OF ok c] tx have ok1: "obs_ok env db1"
    and row: "map_of (observations db1) pk = Some y" "obs_status y = Observed" by simp_all
  have "obs_next y (?z y)" using row(2) by (simp add: obs_next_def obs_steps)
  from save_policy_keeps [OF ok1 row(1) this _ _ t] row(2) have "obs_moves db1 db'" by simp
  moreover have "k = pk" using t by (auto simp: txn_iff dest: apply_policy_key)
  ultimately show ?thesis using moves_row row(1) y by blast
qed

lemma ingest_row:
  assumes ok: "obs_ok env db" and run: "ingest env signal shadow db = (Inr k, db')"
  shows "\<exists>y. map_of (observations db') k = Some y \<and> normalize_tx_hash (sig_tx signal) = Inr (obs_tx y)"
proof -
  define chain where "chain = (if sig_chain signal = [] then POLYGON else sig_chain signal)"
  from run obtain tx w where tx: "normalize_tx_hash (sig_tx signal) = Inr tx"
    and rt: "retry 5 (ingest_attempt env signal (fst w) chain tx shadow)
      (ingest_existing env chain tx (sig_log signal) (sig_confirmations signal)) db = (Inr k, db')"
    unfolding ingest_def chain_def [symmetric] by (auto simp: Let_def txn_iff split: option.splits)
  have nc: "CHR '':'' \<notin> set tx" using tx unfolding normalize_tx_hash_def by (rule normalize_tx_no_colon)
  have "(\<exists>x. (Inr k :: exc + nat) = Inr x \<and> ingest_attempt env signal (fst w) chain tx shadow db = (Inr x, db')) \<or>
     ingest_existing env chain tx (sig_log signal) (sig_confirmations signal) db = (Inr k, db') \<or>
     (\<exists>e. (Inr k :: exc + nat) = Inl e \<and> db' = db)"
    by (rule retry_cases [OF _ rt]) (auto simp: ingest_attempt_def Let_def txn_iff)
  then show ?thesis
  proof (elim disjE exE conjE)
    fix x assume "(Inr k :: exc + nat) = Inr x" "ingest_attempt env signal (fst w) chain tx shadow db = (Inr x, db')"
    then show ?thesis
      using ingest_once_row [OF ok nc] tx
      by (simp add: ingest_attempt_def Let_def bindE_def getsE_def atomic_iff) metis
  next
    assume "ingest_existing env chain tx (sig_log signal) (sig_confirmations signal) db = (Inr k, db')"
    then obtain q where "find_observation chain tx (sig_log signal) (observations db) = Some q"
        "refresh_locked env (fst q) (snd q) (sig_confirmations signal) db = (Inr k, db')"
      by (auto simp: ingest_existing_def txn_iff)
    from refresh_row [OF ok this] tx show ?thesis by auto
  qed simp
qed

lemma obs_ok_ledger_grow:
  assumes ok: "obs_ok env db" and same: "observations db' = observations db" and n: "next_uuid db \<le> next_uuid db'"
    and led: "ledger db' = ledger db @ [e]" and foreign: "\<not> starts_with ''wallet-obs:'' (entry_key e)"
  shows "obs_ok env db'"
proof -
  have wk: "starts_with ''wallet-obs:'' (observation_idempotency_key x)" for x
    by (simp add: starts_with_def observation_idempotency_key_def)
  have "entry_key e \<noteq> observation_idempotency_key x" "observation_idempotency_key x \<noteq> entry_key e" for x
    using wk foreign by metis+
  then have "obs_row_ok env db' r" if "obs_row_ok env db r" for r
    using that n by (cases r) (auto simp: obs_row_ok_def led)
  moreover have "wallet_keys_ok db'"
    using obs_okD(4) [OF ok] foreign by (simp add: wallet_keys_ok_def led same)
  ultimately show ?thesis using ok same by (simp add: obs_ok_def)
qed

text \<open>
  What completing a deposit relies on: a payment that returns has appended one ledger row, which
  pays the deposit's transaction and no other, and has kept the deposit table and the observations.
\<close>

locale deposit_payment =
  fixes env :: env and pay :: "nat \<Rightarrow> deposit_request \<Rightarrow> ('x, ledger_entry \<times> nat) deposit_txn"
  assumes pay_new:
    "deposit_ok db \<Longrightarrow> obs_ok env db \<Longrightarrow> map_of (deposits db) pk = Some d \<Longrightarrow> dep_tx d = Some t \<Longrightarrow>
     dep_status d \<noteq> DCompleted \<Longrightarrow> pay pk d db = (Inr (e, ref), db') \<Longrightarrow>
     ledger db' = ledger db @ [e] \<and> deposits db' = deposits db \<and> next_uuid db \<le> next_uuid db' \<and>
     obs_ok env db' \<and> tag_fresh ''deposit:'' db' \<and>
     pays_tx (deposits db) t e \<and> (\<forall>t'. t' \<noteq> t \<longrightarrow> \<not> pays_tx (deposits db) t' e)"
begin

lemma complete_locked_keeps:
  assumes ok: "deposit_ok db" "obs_ok env db" and run: "complete_locked dep t pay db = (r, db')"
  shows "deposit_ok db' \<and> obs_ok env db'"
proof (cases "db' = db")
  case False
  from run False obtain d e ref db1 where d: "map_of (deposits db) (fst dep) = Some d"
    and st: "dep_status d \<noteq> DCompleted" and p: "pay (fst dep) d db = (Inr (e, ref), db1)"
    and db': "db' = db1\<lparr>deposits := AList.update (fst dep) (completed_row d t (clock db1)) (deposits db1)\<rparr>"
    by (auto simp: complete_locked_def get_deposit_def save_deposit_def txn_iff split: if_splits)
  obtain tx where tx: "dep_tx d = Some tx"
    using deposit_okD(4) [OF ok(1) map_of_SomeD [OF d]] by (auto simp: deposit_row_ok_def)
  note pn = pay_new [OF ok d tx st p]
  have "deposit_ok db'"
    by (rule deposit_ok_complete [OF ok(1) d tx st, where e = e and d' = "completed_row d t (clock db1)"])
      (use pn tx in \<open>auto simp: db' completed_row_def tag_fresh_def\<close>)
  then show ?thesis using pn by (simp add: db')
qed (use ok in simp)

end

text \<open>A credit under a deposit's own key, when the deposit's transaction has no credit yet.\<close>

lemma pay_legacy_new:
  assumes ok: "deposit_ok db" "obs_ok env db" and d: "map_of (deposits db) pk = Some d" "dep_tx d = Some t"
    "dep_status d \<noteq> DCompleted" and run: "pay_legacy tr pk d db = (Inr (e, ref), db')"
  shows "ledger db' = ledger db @ [e] \<and> deposits db' = deposits db \<and> next_uuid db \<le> next_uuid db' \<and>
     obs_ok env db' \<and> tag_fresh ''deposit:'' db' \<and>
     pays_tx (deposits db) t e \<and> (\<forall>t'. t' \<noteq> t \<longrightarrow> \<not> pays_tx (deposits db) t' e) \<and>
     entry_key e = ''deposit:'' @ str_nat pk \<and>
     entry_account e = dep_account d \<and> normalize_amount (DecimalArg (Finite (tr_amount tr))) = Inr (delta e)"
proof -
  let ?key = "''deposit:'' @ str_nat pk"
  have mem: "(pk, d) \<in> set (deposits db)" using d(1) by (rule map_of_SomeD)
  have only: "r = (pk, d)" if "r \<in> set (deposits db)" "fst r = pk" for r
    using that mem deposit_okD(1) [OF ok(1)] by (metis eq_key_imp_eq_value prod.collapse)
  have only_t: "r = (pk, d)" if "r \<in> set (deposits db)" "dep_tx (snd r) = Some t" for r
    using that mem deposit_okD(2) [OF ok(1)] d(2) unfolding distinct_map inj_on_def by force
  then have "\<not> tx_completed (deposits db) t" using d(3) by (force simp: tx_completed_def)
  then have "\<forall>e' \<in> set (ledger db). \<not> pays_tx (deposits db) t e'"
    using deposit_okD(5) [OF ok(1), of t] by (simp add: tx_credits_def filter_empty_conv)
  then have unused: "find_entry ?key (ledger db) = None"
    using mem d(2) by (force simp: find_entry_None pays_tx_def)
  have cr: "credit (dep_account d) (DecimalArg (Finite (tr_amount tr))) (RefEnum DEPOSIT) (str_nat pk) ?key db = (Inr e, db')"
    using run by (auto simp: pay_legacy_def txn_iff)
  from apply_Inr [OF cr [unfolded credit_def]] unused obtain x row where
    x: "normalize_amount (DecimalArg (Finite (tr_amount tr))) = Inr x" and
    p: "(e, db') = post (dep_account d) row x ''deposit'' (str_nat pk) ?key db"
    by auto
  note ps = post_simps [OF p]
  have e: "entry_key e = ?key" "entry_account e = dep_account d" "delta e = x"
    by (simp_all add: ps(1) new_entry_def)
  have same: "deposits db' = deposits db" "observations db' = observations db" using credit_frame [OF cr] by auto
  have foreign: "\<not> starts_with ''wallet-obs:'' (entry_key e)" by (simp add: e starts_with_def)
  have "obs_ok env db'"
    by (rule obs_ok_ledger_grow [OF ok(2) same(2) _ ps(2) foreign]) (simp add: ps(4))
  moreover have "pays_tx (deposits db) t e" using mem d(2) by (force simp: pays_tx_def e)
  moreover have "\<not> pays_tx (deposits db) t' e" if "t' \<noteq> t" for t'
    using that foreign only d(2) by (auto simp: pays_tx_def e(1))
  moreover have "tag_fresh ''deposit:'' db'"
    by (rule apply_tag_fresh [OF cr [unfolded credit_def] deposit_okD(3) [OF ok(1)]])
      (use deposit_okD(4) [OF ok(1) mem] in \<open>simp add: deposit_row_ok_def\<close>)
  ultimately show ?thesis using same ps(2,4) e x by simp
qed

interpretation legacy: deposit_payment env "pay_legacy tr" for env tr
  by unfold_locales (blast dest: pay_legacy_new)

text \<open>The wallet path: ingest and convert.\<close>

lemma starts_with_tag:
  "starts_with ''wallet-obs:'' (observation_idempotency_key x)"
  "observation_idempotency_key x \<noteq> ''deposit:'' @ s"
  by (simp_all add: starts_with_def observation_idempotency_key_def)

lemma keeps_deposits_convert: "keeps (\<lambda>s. deposits s = D) (convert k)"
proof -
  have "keeps (\<lambda>s. deposits s = D) (credit a m rt rid key)" for a m rt rid key
    by (rule keepsI) (auto dest: credit_frame)
  then show ?thesis
    unfolding convert_def credit_and_finish_def get_observation_def save_observation_def Let_def
    by (intro keeps_intros) simp_all
qed

definition credited_observation :: "'x wallet_db_scheme \<Rightarrow> string \<Rightarrow> ledger_entry \<Rightarrow> bool" where
  "credited_observation db t e \<longleftrightarrow> (\<exists>k x. map_of (observations db) k = Some x \<and> obs_status x = Credited \<and>
     obs_tx x = t \<and> entry_key e = observation_idempotency_key x \<and> delta e = obs_amount x)"

lemma pay_wallet_new:
  assumes ok: "deposit_ok db" "obs_ok env db" and d: "map_of (deposits db) pk = Some d" "dep_tx d = Some t"
    and run: "pay_wallet env to_address tr pk d db = (Inr (e, ref), db')"
  shows "ledger db' = ledger db @ [e] \<and> deposits db' = deposits db \<and> next_uuid db \<le> next_uuid db' \<and>
     obs_ok env db' \<and> tag_fresh ''deposit:'' db' \<and>
     pays_tx (deposits db) t e \<and> (\<forall>t'. t' \<noteq> t \<longrightarrow> \<not> pays_tx (deposits db) t' e) \<and>
     credited_observation db' t e"
proof -
  obtain lidx k db1 x where
    i: "ingest env (transfer_signal (completed_tx d tr) lidx to_address tr) False db = (Inr k, db1)"
    and x: "map_of (observations db1) k = Some x" "obs_status x = Confirmed" and c: "convert k db1 = (Inr e, db')"
    using run by (auto simp: pay_wallet_def get_observation_def txn_iff split: if_splits)
  have t: "normalize_tx_hash t = Inr t"
    using deposit_okD(4) [OF ok(1) map_of_SomeD [OF d(1)]] d(2) by (auto simp: deposit_row_ok_def)
  then have "t \<noteq> []" by (auto simp: normalize_tx_hash_def normalize_tx_hash_with_def strip_def lower_def starts_with_def)
  then have ct: "completed_tx d tr = t" using d(2) by (cases t) (simp_all add: completed_tx_def)
  have ok1: "obs_ok env db1" using ingest_keeps [OF ok(2) i] by blast
  from ingest_row [OF ok(2) i] x t ct have xt: "obs_tx x = t" by (simp add: transfer_signal_def)
  have fr: "money_frame (ledger db) (deposits db) (next_uuid db) db1"
    by (rule keepsD [OF keeps_frame_ingest _ i]) (simp add: money_frame_def)
  from convert_cases [OF ok1 c] x obtain y where e: "entry_key e = observation_idempotency_key x"
    "ledger db' = ledger db1 @ [e]" "next_uuid db1 \<le> next_uuid db'"
    and y: "obs_next x y" "obs_status y = Credited" "delta e = obs_amount x"
      "observations db' = AList.update k y (observations db1)" by auto
  have ky: "observation_idempotency_key y = observation_idempotency_key x" using y(1) by (simp add: key_next)
  have "credited_observation db' t e"
    unfolding credited_observation_def
    by (intro exI [of _ k] exI [of _ y]) (use y e(1) xt ky in \<open>simp add: obs_next_def\<close>)
  moreover
  have "deposits db' = deposits db1"
    using keepsD [where I = "\<lambda>s. deposits s = deposits db1", OF keeps_deposits_convert refl c] .
  moreover have "CHR '':'' \<notin> set (obs_tx x)" using obs_row_okD(2) [OF obs_okD(3) [OF ok1 x(1)]] by simp
  then have "wallet_key_tx (entry_key e) = t" using xt by (simp add: e(1) wallet_key_tx_observation)
  then have "pays_tx (deposits db) t' e \<longleftrightarrow> t' = t" for t'
    using starts_with_tag by (auto simp: pays_tx_def e(1))
  moreover have "tag_fresh ''deposit:'' db'"
    using deposit_okD(3) [OF ok(1)] fr e starts_with_tag(2) by (auto simp: tag_fresh_def money_frame_def intro: less_le_trans)
  moreover have "obs_ok env db'" using convert_keeps [OF ok1 c] by blast
  ultimately show ?thesis using fr e(2,3) by (auto simp: money_frame_def)
qed

interpretation wallet: deposit_payment env "pay_wallet env to_address tr" for env to_address tr
  by unfold_locales (blast dest: pay_wallet_new)

section \<open>The service keeps the deposit invariant\<close>

definition deposit_inv :: "env \<Rightarrow> 'x deposit_db_scheme \<Rightarrow> bool" where
  "deposit_inv env db \<longleftrightarrow> deposit_ok db \<and> obs_ok env db"

lemma deposit_inv_frame:
  assumes "\<And>L D n. keeps (money_frame L D n) m" "keeps (obs_ok env) m"
  shows "keeps (deposit_inv env) m"
proof (rule keepsI)
  fix s r t assume inv: "deposit_inv env s" and run: "m s = (r, t)"
  have "money_frame (ledger s) (deposits s) (next_uuid s) s" by (simp add: money_frame_def)
  then have "money_frame (ledger s) (deposits s) (next_uuid s) t" by (rule keepsD [OF assms(1) _ run])
  moreover have "obs_ok env t" using inv by (intro keepsD [OF assms(2) _ run]) (simp add: deposit_inv_def)
  ultimately show "deposit_inv env t" using inv deposit_ok_frame by (auto simp: deposit_inv_def)
qed

lemma keeps_inv_frames [keeps_intros]:
  "keeps (deposit_inv env) (ensure_active_address env' a chain)" "keeps (deposit_inv env) (publish evs)"
  "keeps (deposit_inv env) (safe_compare_legacy_deposit env dep t)" "keeps (deposit_inv env) (get_deposit pk)"
  "keeps (deposit_inv env) (get_observation pk)"
  by (intro deposit_inv_frame keeps_intros)+

lemma deposit_inv_update:
  assumes "deposit_inv env db" "map_of (deposits db) pk = Some d" "dep_tx d' = dep_tx d"
    "dep_status d' = DCompleted \<longleftrightarrow> dep_status d = DCompleted"
  shows "deposit_inv env (db\<lparr>deposits := AList.update pk d' (deposits db)\<rparr>)"
proof -
  have "deposit_ok (db\<lparr>deposits := AList.update pk d' (deposits db)\<rparr>)"
    by (rule deposit_ok_update [of db pk d d']) (use assms in \<open>simp_all add: deposit_inv_def\<close>)
  then show ?thesis using assms(1) by (simp add: deposit_inv_def)
qed

lemma keeps_inv_locked:
  assumes "\<And>db d. deposit_inv env db \<Longrightarrow> map_of (deposits db) pk = Some d \<Longrightarrow> deposit_inv env (snd (k d db))"
  shows "keeps (deposit_inv env) (bindE (get_deposit pk) k)"
proof (rule keepsI)
  fix db :: "'a deposit_db_scheme" and r db'
  assume inv: "deposit_inv env db" and run: "bindE (get_deposit pk) k db = (r, db')"
  show "deposit_inv env db'"
  proof (cases "map_of (deposits db) pk")
    case None
    then show ?thesis using run inv by (simp add: get_deposit_def txn_defs)
  next
    case (Some d)
    then show ?thesis using run assms [OF inv Some] by (simp add: get_deposit_def txn_defs)
  qed
qed

lemma keeps_inv_save_raw [keeps_intros]: "keeps (deposit_inv env) (save_raw pk raw)"
proof (rule keepsI)
  fix db :: "'a deposit_db_scheme" and r db'
  assume inv: "deposit_inv env db" and run: "save_raw pk raw db = (r, db')"
  then show "deposit_inv env db'"
    by (cases "map_of (deposits db) pk")
      (auto simp: save_raw_def save_deposit_def txn_defs intro: deposit_inv_update)
qed

lemma keeps_inv_mark_failed [keeps_intros]: "keeps (deposit_inv env) (mark_failed dep reason j)"
  unfolding mark_failed_def
  by (intro keeps_atomic keeps_inv_locked) (simp add: save_deposit_def txn_defs deposit_inv_update)

lemma keeps_inv_recover [keeps_intros]: "keeps (deposit_inv env) (recover_failed_deposit dep a x key)"
  unfolding recover_failed_deposit_def Let_def
  by (intro keeps_atomic keeps_inv_locked keeps_if keeps_reads)
    (simp add: save_deposit_def txn_defs deposit_inv_update)

lemma keeps_inv_reset [keeps_intros]: "keeps (deposit_inv env) (reset_failed pk)"
  unfolding reset_failed_def
  by (intro keeps_atomic keeps_inv_locked) (simp add: save_deposit_def txn_defs deposit_inv_update)

lemma insert_deposit_inv:
  assumes inv: "deposit_inv env db" and run: "insert_deposit d db = (Inr q, db')"
    and d: "dep_tx d = Some t" "normalize_tx_hash t = Inr t" "dep_status d \<noteq> DCompleted"
  shows "deposit_inv env db' \<and> q = (next_uuid db, d)"
proof -
  have ok: "deposit_ok db" "obs_ok env db" using inv by (auto simp: deposit_inv_def)
  have fresh: "next_uuid db \<notin> fst ` set (deposits db)"
    using deposit_okD(4) [OF ok(1)] by (force simp: deposit_row_ok_def)
  from run AList_update_new [OF fresh] have q: "q = (next_uuid db, d)"
    and nc: "\<not> deposit_conflict (next_uuid db) d (deposits db)"
    and db': "db' = db\<lparr>next_uuid := Suc (next_uuid db), deposits := deposits db @ [(next_uuid db, d)]\<rparr>"
    by (auto simp: insert_deposit_def uuid4_def save_deposit_def txn_defs split: if_splits)
  have "Some t \<notin> (\<lambda>r. dep_tx (snd r)) ` set (deposits db)"
  proof
    assume "Some t \<in> (\<lambda>r. dep_tx (snd r)) ` set (deposits db)"
    then obtain r where r: "r \<in> set (deposits db)" "dep_tx (snd r) = Some t" by (metis imageE)
    then have "fst r \<noteq> next_uuid db" using fresh by (metis image_eqI)
    then show False using nc r d(1) by (auto simp: deposit_conflict_def)
  qed
  then have "deposit_ok db'" by (rule deposit_ok_insert [OF ok(1) d]) (simp_all add: db')
  moreover have "obs_ok env (db\<lparr>next_uuid := Suc (next_uuid db)\<rparr>)"
    using keepsD [OF keeps_obs_rows(1) ok(2), of "Inr (next_uuid db)"] by (simp add: uuid4_def)
  then have "obs_ok env db'" by (simp add: db')
  ultimately show ?thesis using q by (simp add: deposit_inv_def)
qed

lemma keeps_inv_create_pending:
  assumes "normalize_tx_hash tx = Inr tx"
  shows "keeps (deposit_inv env) (create_pending_deposit seen a tx way x key)"
proof (rule keepsI)
  fix db :: "'x deposit_db_scheme" and r db'
  assume inv: "deposit_inv env db" and run: "create_pending_deposit seen a tx way x key db = (r, db')"
  let ?d = "\<lparr>dep_account = a, dep_requested = x, dep_credited = None, dep_method = way, dep_tx = Some tx,
    dep_key = key, dep_status = DPending, dep_failure = NoFailure, dep_verified = None, dep_raw = None\<rparr>"
  from run have "db' = db \<or> (\<exists>q. insert_deposit ?d db = (Inr q, db'))"
    by (auto simp: create_pending_deposit_def txn_iff split: if_splits option.splits)
  then show "deposit_inv env db'"
    using inv insert_deposit_inv [OF inv, of ?d _ db' tx] assms by auto
qed

lemma keeps_inv_complete_locked [keeps_intros]:
  "keeps (deposit_inv env) (complete_locked dep t (pay_legacy t))"
  "keeps (deposit_inv env) (complete_locked dep t (pay_wallet env to_address t))"
  by (rule keepsI, metis deposit_inv_def legacy.complete_locked_keeps wallet.complete_locked_keeps)+

lemma keeps_inv_complete [keeps_intros]:
  "keeps (deposit_inv env) (complete env dep t)" "keeps (deposit_inv env) (complete_wallet_path env to_address dep t)"
  unfolding complete_def complete_wallet_path_def by (intro keeps_intros)+

lemma keeps_inv_gates [keeps_intros]:
  "(\<And>d t. keeps (deposit_inv env) (finish d t)) \<Longrightarrow> keeps (deposit_inv env) (apply_transfer_gates env' dep t finish)"
  unfolding apply_transfer_gates_def Let_def by (intro keeps_intros) blast

lemma keeps_inv_fetched [keeps_intros]:
  "(\<And>t. keeps (deposit_inv env) (k t)) \<Longrightarrow> keeps (deposit_inv env) (fetched dep answer k)"
  unfolding fetched_def by (intro keeps_intros) blast

lemma keeps_inv_verify_pending [keeps_intros]: "keeps (deposit_inv env) (verify_pending env fetch dep)"
  unfolding verify_pending_def verify_pending_legacy_def verify_pending_wallet_path_def by (intro keeps_intros)

lemma keeps_inv_verify [keeps_intros]:
  "keeps (deposit_inv env) (verify_seen env fetch seen a tx way x key)"
  "keeps (deposit_inv env) (reverify env fetch pk)"
proof -
  have new: "keeps (deposit_inv env) (verify_new env fetch seen a tx way x key)"
    if "normalize_tx_hash tx = Inr tx" for tx way x
    unfolding verify_new_def by (intro keeps_intros keeps_inv_create_pending that)
  show "keeps (deposit_inv env) (verify_seen env fetch seen a tx way x key)"
  proof (cases "deposit_tx_hash tx")
    case (Inl e)
    then show ?thesis
      unfolding verify_seen_def by (auto simp: keeps_def txn_defs split: sum.splits)
  next
    case (Inr t)
    then have t: "normalize_tx_hash t = Inr t"
      unfolding deposit_tx_hash_def normalize_tx_hash_def by (rule normalize_tx_idem)
    have lift: "bindE (liftE (Inr t)) f = f t" for f :: "string \<Rightarrow> ('x deposit_db_scheme, nat) txn"
      by (simp add: bindE_def liftE_def)
    show ?thesis unfolding verify_seen_def Inr lift by (intro keeps_intros new t)
  qed
  show "keeps (deposit_inv env) (reverify env fetch pk)"
    unfolding reverify_def by (intro keeps_intros)
qed

section \<open>Branches of the gates\<close>

lemma keeps_same_ledger [keeps_intros]:
  "keeps (\<lambda>s. ledger s = L) (save_raw pk raw)" "keeps (\<lambda>s. ledger s = L) (mark_failed dep reason j)"
  unfolding save_raw_def save_deposit_def mark_failed_def get_deposit_def by (intro keeps_intros; simp)+

lemma keeps_same_ledger_shadow: "safe_compare_legacy_deposit env dep t db = (r, db') \<Longrightarrow> ledger db' = ledger db"
proof -
  assume run: "safe_compare_legacy_deposit env dep t db = (r, db')"
  have "money_frame (ledger db) (deposits db) (next_uuid db) db" by (simp add: money_frame_def)
  from keepsD [OF keeps_frame_shadow this run] show ?thesis by (simp add: money_frame_def)
qed

text \<open>When completing a deposit writes to the ledger, it wrote the payment of a row that was still
  open: the amount shown to the account of the row on the legacy path, the amount of an observation of
  the transaction on the wallet path.\<close>

definition paid_row :: "bool \<Rightarrow> transfer \<Rightarrow> nat \<Rightarrow> 'x deposit_db_scheme \<Rightarrow> 'x deposit_db_scheme \<Rightarrow> bool" where
  "paid_row wallet t pk db db' \<longleftrightarrow> (\<exists>d e tx. map_of (deposits db) pk = Some d \<and> dep_status d = DPending \<and>
     dep_tx d = Some tx \<and> ledger db' = ledger db @ [e] \<and>
     (if wallet then credited_observation db' tx e
      else entry_key e = ''deposit:'' @ str_nat pk \<and> entry_account e = dep_account d \<and> normalize_amount (DecimalArg (Finite (tr_amount t))) = Inr (delta e)))"

lemma complete_locked_changed:
  assumes inv: "deposit_inv env db" and cl: "complete_locked dep t pay db = (out, db1)" and ne: "db1 \<noteq> db"
  shows "\<exists>d tx e ref db2. map_of (deposits db) (fst dep) = Some d \<and> dep_tx d = Some tx \<and> dep_status d = DPending \<and>
    pay (fst dep) d db = (Inr (e, ref), db2) \<and>
    db1 = db2\<lparr>deposits := AList.update (fst dep) (completed_row d t (clock db2)) (deposits db2)\<rparr>"
proof -
  from cl ne obtain d e ref db2 where d: "map_of (deposits db) (fst dep) = Some d"
    and st: "dep_status d \<noteq> DCompleted" "dep_status d \<noteq> DFailed"
    and p: "pay (fst dep) d db = (Inr (e, ref), db2)"
    and db1: "db1 = db2\<lparr>deposits := AList.update (fst dep) (completed_row d t (clock db2)) (deposits db2)\<rparr>"
    by (cases "map_of (deposits db) (fst dep)")
      (auto simp: complete_locked_def get_deposit_def save_deposit_def txn_iff split: if_splits)
  have "deposit_ok db" using inv by (simp add: deposit_inv_def)
  then obtain tx where "dep_tx d = Some tx"
    using deposit_okD(4) [OF _ map_of_SomeD [OF d]] by (auto simp: deposit_row_ok_def)
  moreover have "dep_status d = DPending" using st by (cases "dep_status d") simp_all
  ultimately show ?thesis using d p db1 by blast
qed

lemma complete_ledger:
  assumes inv: "deposit_inv env db" and run: "complete env' dep t db = (r, db')" and changed: "ledger db' \<noteq> ledger db"
  shows "paid_row False t (fst dep) db db'"
proof -
  obtain out db1 where cl: "complete_locked dep t (pay_legacy t) db = (out, db1)" by fastforce
  have led: "ledger db' = ledger db1"
    using run cl by (auto simp: complete_def txn_iff publish_def split: option.splits dest!: keeps_same_ledger_shadow)
  with changed have ne: "db1 \<noteq> db" by auto
  have ok: "deposit_ok db" "obs_ok env db" using inv by (auto simp: deposit_inv_def)
  from complete_locked_changed [OF inv cl ne] obtain d tx e ref db2 where
    d: "map_of (deposits db) (fst dep) = Some d" "dep_tx d = Some tx" "dep_status d = DPending"
    and p: "pay_legacy t (fst dep) d db = (Inr (e, ref), db2)"
    and db1: "db1 = db2\<lparr>deposits := AList.update (fst dep) (completed_row d t (clock db2)) (deposits db2)\<rparr>"
    by blast
  have st: "dep_status d \<noteq> DCompleted" using d(3) by simp
  from pay_legacy_new [OF ok d(1,2) st p] d led show ?thesis by (auto simp: db1 paid_row_def)
qed

lemma complete_wallet_ledger:
  assumes inv: "deposit_inv env db" and run: "complete_wallet_path env addr dep t db = (r, db')"
    and changed: "ledger db' \<noteq> ledger db"
  shows "paid_row True t (fst dep) db db'"
proof -
  obtain out db1 where cl: "complete_locked dep t (pay_wallet env addr t) db = (out, db1)" by fastforce
  have led: "ledger db' = ledger db1" "observations db' = observations db1"
    using run cl by (auto simp: complete_wallet_path_def txn_iff publish_def split: option.splits)
  with changed have ne: "db1 \<noteq> db" by auto
  have ok: "deposit_ok db" "obs_ok env db" using inv by (auto simp: deposit_inv_def)
  from complete_locked_changed [OF inv cl ne] obtain d tx e ref db2 where
    d: "map_of (deposits db) (fst dep) = Some d" "dep_tx d = Some tx" "dep_status d = DPending"
    and p: "pay_wallet env addr t (fst dep) d db = (Inr (e, ref), db2)"
    and db1: "db1 = db2\<lparr>deposits := AList.update (fst dep) (completed_row d t (clock db2)) (deposits db2)\<rparr>"
    by blast
  from pay_wallet_new [OF ok d(1,2) p] d led show ?thesis
    by (auto simp: db1 paid_row_def credited_observation_def)
qed

definition gates_pass :: "env \<Rightarrow> transfer \<Rightarrow> deposit_request \<Rightarrow> bool" where
  "gates_pass env t d \<longleftrightarrow> tr_status t = ''success'' \<and> POLYGON_MIN_CONFIRMATIONS env \<le> tr_confirmations t \<and>
     tr_amount t = dep_requested d"

lemma gates_ledger:
  assumes inv: "deposit_inv env db" and run: "apply_transfer_gates env' dep t finish db = (r, db')"
    and changed: "ledger db' \<noteq> ledger db"
    and paid: "\<And>dep' s. deposit_inv env s \<Longrightarrow> finish dep' t s = (r, db') \<Longrightarrow> ledger db' \<noteq> ledger s \<Longrightarrow>
      paid_row wallet t (fst dep') s db'"
  shows "gates_pass env' t (snd dep) \<and> paid_row wallet t (fst dep) db db'"
proof -
  let ?dep = "(fst dep, (snd dep)\<lparr>dep_raw := Some (tr_raw t)\<rparr>)"
  obtain q db1 where raw: "save_raw (fst dep) (tr_raw t) db = (q, db1)" by fastforce
  have l1: "ledger db1 = ledger db" using keepsD [where I = "\<lambda>s. ledger s = ledger db", OF keeps_same_ledger(1) refl raw] .
  have inv1: "deposit_inv env db1" by (rule keepsD [OF keeps_inv_save_raw inv raw])
  have mf: "ledger db2 = ledger db1" if "mark_failed d' why j db1 = (x, db2)" for d' why j x db2
    using keepsD [where I = "\<lambda>s. ledger s = ledger db1", OF keeps_same_ledger(2) refl that] .
  have gates: "gates_pass env' t (snd dep)" and fin: "finish ?dep t db1 = (r, db')"
    using run raw changed l1 unfolding apply_transfer_gates_def Let_def gates_pass_def
    by (auto simp: txn_iff split: if_splits dest!: mf)
  have rows: "map_of (deposits db) (fst dep) = Some d0 \<Longrightarrow>
      \<exists>d1. map_of (deposits db1) (fst dep) = Some d1 \<and> dep_status d1 = dep_status d0 \<and>
        dep_account d1 = dep_account d0 \<and> dep_tx d1 = dep_tx d0" for d0
    using raw by (auto simp: save_raw_def save_deposit_def txn_iff)
  have none: "map_of (deposits db) (fst dep) = None \<Longrightarrow> map_of (deposits db1) (fst dep) = None"
    using raw by (auto simp: save_raw_def save_deposit_def txn_iff)
  from paid [OF inv1 fin] changed l1 have p: "paid_row wallet t (fst dep) db1 db'" by simp
  then obtain d0 where d0: "map_of (deposits db) (fst dep) = Some d0" using none unfolding paid_row_def by fastforce
  from rows [OF d0] obtain d1 where "map_of (deposits db1) (fst dep) = Some d1" "dep_status d1 = dep_status d0"
    "dep_account d1 = dep_account d0" "dep_tx d1 = dep_tx d0" by blast
  then have "paid_row wallet t (fst dep) db db'" using p d0 l1 unfolding paid_row_def by fastforce
  then show ?thesis using gates by simp
qed

text \<open>Either path, from the provider's answer on.\<close>

lemma fetched_ledger:
  assumes run: "fetched dep answer k db = (r, db')" and changed: "ledger db' \<noteq> ledger db"
  obtains t where "answer = Inr t" "k t db = (r, db')"
proof (cases answer)
  case (Inl q)
  have mf: "ledger db2 = ledger db" if "mark_failed d' why j db = (x, db2)" for d' why j x db2
    using keepsD [where I = "\<lambda>s. ledger s = ledger db", OF keeps_same_ledger(2) refl that] .
  show ?thesis
    using run changed Inl by (cases q) (auto simp: fetched_def txn_iff split: if_splits dest!: mf)
next
  case (Inr t)
  then show ?thesis using run that by (simp add: fetched_def)
qed

lemma legacy_credit:
  assumes ok: "deposit_ok db" "obs_ok env db" and tx: "dep_tx (snd dep) = Some (c # cs)"
    and run: "verify_pending_legacy env fetch dep db = (r, db')" and changed: "ledger db' \<noteq> ledger db"
  shows "\<exists>t. fetch (c # cs) None = Inr t \<and> gates_pass env t (snd dep) \<and> paid_row False t (fst dep) db db'"
proof -
  have inv: "deposit_inv env db" using ok by (simp add: deposit_inv_def)
  have "fetched dep (fetch (c # cs) None) (\<lambda>t. apply_transfer_gates env dep t (complete env)) db = (r, db')"
    using run tx by (simp add: verify_pending_legacy_def)
  from fetched_ledger [OF this changed] obtain t where t: "fetch (c # cs) None = Inr t"
    "apply_transfer_gates env dep t (complete env) db = (r, db')" .
  have "gates_pass env t (snd dep) \<and> paid_row False t (fst dep) db db'"
    by (rule gates_ledger [OF inv t(2) changed complete_ledger])
  then show ?thesis using t(1) by blast
qed

lemma wallet_credit:
  assumes ok: "deposit_ok db" "obs_ok env db" and tx: "dep_tx (snd dep) = Some (c # cs)"
    and run: "verify_pending_wallet_path env fetch dep db = (r, db')" and changed: "ledger db' \<noteq> ledger db"
  shows "\<exists>k s w t. ensure_active_address env (dep_account (snd dep)) POLYGON db = (Inr k, s) \<and>
    map_of (addresses s) k = Some w \<and> fetch (c # cs) (Some (wa_address w)) = Inr t \<and>
    gates_pass env t (snd dep) \<and> paid_row True t (fst dep) db db'"
proof -
  have inv: "deposit_inv env db" using ok by (simp add: deposit_inv_def)
  obtain q s where e: "ensure_active_address env (dep_account (snd dep)) POLYGON db = (q, s)" by fastforce
  have "money_frame (ledger db) (deposits db) (next_uuid db) s"
    by (rule keepsD [OF keeps_frame_address _ e]) (simp add: money_frame_def)
  then have s: "ledger s = ledger db" "deposits s = deposits db" by (simp_all add: money_frame_def)
  have inv1: "deposit_inv env s" by (rule keepsD [OF keeps_inv_frames(1) inv e])
  obtain k w where k: "q = Inr k" "map_of (addresses s) k = Some w"
    and f: "fetched dep (fetch (c # cs) (Some (wa_address w)))
      (\<lambda>t. apply_transfer_gates env dep t (complete_wallet_path env (wa_address w))) s = (r, db')"
    using run tx e s changed by (auto simp: verify_pending_wallet_path_def txn_iff get_or_raise_def split: option.splits)
  have ch: "ledger db' \<noteq> ledger s" using changed s by simp
  from fetched_ledger [OF f ch] obtain t where t: "fetch (c # cs) (Some (wa_address w)) = Inr t"
    "apply_transfer_gates env dep t (complete_wallet_path env (wa_address w)) s = (r, db')" .
  have g: "gates_pass env t (snd dep) \<and> paid_row True t (fst dep) s db'"
    by (rule gates_ledger [OF inv1 t(2) ch complete_wallet_ledger])
  then have "paid_row True t (fst dep) db db'" using s by (simp add: paid_row_def)
  then show ?thesis using e k t(1) g by blast
qed

section \<open>Properties\<close>

text \<open>C2. No transaction is credited twice. Whatever the lookups of a verification read, whatever the
  provider answers, and whichever of the two money paths runs, verifying or re-verifying keeps: the
  ledger holds exactly one credit for a transaction hash (under the deposit's key or under the key of
  an observation of it) if a completed deposit carries the hash, and none otherwise.\<close>

theorem deposit_tx_credited_once:
  assumes "deposit_ok db" "obs_ok env db"
    and "db' = snd (verify_seen env fetch seen a tx way x key db) \<or> db' = snd (reverify env fetch pk db)"
  shows "deposit_ok db' \<and> obs_ok env db' \<and> tx_credits db' t = (if tx_completed (deposits db') t then 1 else 0)"
proof -
  have inv: "deposit_inv env db" using assms(1,2) by (simp add: deposit_inv_def)
  have "deposit_inv env db'"
    using assms(3) keepsD [OF keeps_inv_verify(1) inv surjective_pairing] keepsD [OF keeps_inv_verify(2) inv surjective_pairing]
    by blast
  then show ?thesis using deposit_okD(5) [of db' t] by (simp add: deposit_inv_def)
qed

definition demo_tx :: string where
  "demo_tx = ''0x'' @ replicate 64 (CHR ''a'')"

lemma demo_tx_normal: "normalize_tx_hash demo_tx = Inr demo_tx"
proof -
  have c: "is_digit 16 (CHR ''a'')" "lower_char (CHR ''a'') = CHR ''a''" "lower_char (CHR ''0'') = CHR ''0''"
      "lower_char (CHR ''x'') = CHR ''x''" "\<not> is_space (CHR ''0'')" "\<not> is_space (CHR ''x'')" "\<not> is_space (CHR ''a'')"
    by (simp_all add: is_digit_def digit_val_def lower_char_def is_space_def)
  have "strip demo_tx = demo_tx" by (rule strip_no_space) (use c in \<open>auto simp: demo_tx_def\<close>)
  moreover have "lower demo_tx = demo_tx" using c by (simp add: demo_tx_def lower_def)
  moreover have "read_digits 16 acc (replicate n (CHR ''a'')) \<noteq> None" for acc n
    using c(1) by (induction n arbitrary: acc) simp_all
  then have "py_int_hex demo_tx \<noteq> None" by (simp add: py_int_hex_def demo_tx_def Let_def)
  moreover have "starts_with ''0x'' demo_tx" "length demo_tx = 66" by (simp_all add: starts_with_def demo_tx_def)
  ultimately show ?thesis by (simp add: normalize_tx_hash_def normalize_tx_hash_with_def Let_def)
qed

definition demo_deposit :: deposit_request where
  "demo_deposit = \<lparr>dep_account = 1, dep_requested = 25, dep_credited = None, dep_method = ''cex_manual'',
     dep_tx = Some demo_tx, dep_key = ''k'', dep_status = DPending, dep_failure = NoFailure, dep_verified = None,
     dep_raw = None\<rparr>"

definition demo_transfer :: transfer where
  "demo_transfer = \<lparr>tr_tx = demo_tx, tr_from = ''0xb'', tr_to = ''0xc'', tr_amount = 25, tr_confirmations = 30, tr_block = 7,
     tr_token = ''0xAA'', tr_status = ''success'', tr_raw = JObj []\<rparr>"

definition demo_deposit_db :: deposit_db where
  "demo_deposit_db = wallet_db.extend demo_wallet_db \<lparr>deposits = [(2, demo_deposit)], shadow_decisions = []\<rparr>"

lemma demo_deposit_db_simps [simp]:
  "identities demo_deposit_db = [(1, 2)]" "observations demo_deposit_db = [(0, demo_observation)]"
  "ledger demo_deposit_db = []" "next_uuid demo_deposit_db = 3" "clock demo_deposit_db = 1000"
  "accounts demo_deposit_db = accounts demo_db" "events demo_deposit_db = []"
  "deposits demo_deposit_db = [(2, demo_deposit)]"
  by (simp_all add: demo_deposit_db_def demo_wallet_db_def demo_voucher_db_def demo_pricing_db_def demo_db_def
      credit_db.defs pricing_db.defs voucher_db.defs wallet_db.defs)

lemma demo_deposit_ok: "deposit_ok demo_deposit_db" "obs_ok demo_env demo_deposit_db"
  "obs_ok (demo_env\<lparr>SHADOW_MODE := False, CREDIT_CONVERSION_V2 := False\<rparr>) demo_deposit_db"
proof -
  show "deposit_ok demo_deposit_db"
    by (simp add: deposit_ok_def tag_fresh_def deposit_row_ok_def tx_credits_def tx_completed_def demo_deposit_def
        demo_tx_normal)
  show "obs_ok demo_env demo_deposit_db" "obs_ok (demo_env\<lparr>SHADOW_MODE := False, CREDIT_CONVERSION_V2 := False\<rparr>) demo_deposit_db"
    by (simp_all add: obs_ok_def obs_row_ok_def wallet_keys_ok_def demo_observation_def confirmed_enough_def
        demo_env_def NUMERIC_20_6_def on_grid_def MONEY_QUANT_def)
qed

theorem deposit_tx_credited_once_witness:
  "tx_credits (snd (reverify demo_env (\<lambda>_ _. Inr demo_transfer) 2 demo_deposit_db)) demo_tx \<le> 1"
  using deposit_tx_credited_once [OF demo_deposit_ok(1,2), where fetch = "\<lambda>_ _. Inr demo_transfer" and pk = 2 and t = demo_tx]
  by (metis le_refl zero_le)

text \<open>C7. A verification of a pending deposit that writes to the ledger, on either money path, was shown
  by the provider a successful transfer of the deposit's hash with enough confirmations and exactly the
  requested amount, and the stored row was still pending; it appended one ledger row. On the legacy path
  that row has the deposit's key and pays the transfer's amount to the account of the stored row; on
  the wallet path the provider was asked about the active address of the account, and the row is the
  credit of an observation of the deposit's transaction, of the observation's amount. Every other
  outcome leaves the ledger as it was.\<close>

theorem deposit_credit_exact:
  assumes "deposit_ok db" "obs_ok env db" "dep_tx (snd dep) = Some (c # cs)"
    and "verify_pending env fetch dep db = (r, db')" "ledger db' \<noteq> ledger db"
  shows "\<exists>t to d e tx. fetch (c # cs) to = Inr t \<and> tr_status t = ''success'' \<and>
    POLYGON_MIN_CONFIRMATIONS env \<le> tr_confirmations t \<and> tr_amount t = dep_requested (snd dep) \<and>
    map_of (deposits db) (fst dep) = Some d \<and> dep_status d = DPending \<and> dep_tx d = Some tx \<and>
    ledger db' = ledger db @ [e] \<and>
    (if should_use_wallet_money_path env (dep_account (snd dep))
     then (\<exists>k s w. ensure_active_address env (dep_account (snd dep)) POLYGON db = (Inr k, s) \<and>
         map_of (addresses s) k = Some w \<and> to = Some (wa_address w)) \<and>
       (\<exists>k x. map_of (observations db') k = Some x \<and> obs_status x = Credited \<and> obs_tx x = tx \<and>
          entry_key e = observation_idempotency_key x \<and> delta e = obs_amount x)
     else to = None \<and> entry_key e = ''deposit:'' @ str_nat (fst dep) \<and> entry_account e = dep_account d \<and>
       normalize_amount (DecimalArg (Finite (tr_amount t))) = Inr (delta e))"
proof (cases "should_use_wallet_money_path env (dep_account (snd dep))")
  case False
  then have "verify_pending_legacy env fetch dep db = (r, db')" using assms(4) by (simp add: verify_pending_def)
  from legacy_credit [OF assms(1-3) this assms(5)] False show ?thesis
    by (auto simp: gates_pass_def paid_row_def)
next
  case True
  then have "verify_pending_wallet_path env fetch dep db = (r, db')" using assms(4) by (simp add: verify_pending_def)
  from wallet_credit [OF assms(1-3) this assms(5)] obtain k s w t where
    w: "ensure_active_address env (dep_account (snd dep)) POLYGON db = (Inr k, s)" "map_of (addresses s) k = Some w"
      "fetch (c # cs) (Some (wa_address w)) = Inr t"
    and g: "gates_pass env t (snd dep)" and p: "paid_row True t (fst dep) db db'" by blast
  from p obtain d e tx where d: "map_of (deposits db) (fst dep) = Some d" "dep_status d = DPending" "dep_tx d = Some tx"
      "ledger db' = ledger db @ [e]" "credited_observation db' tx e" by (auto simp: paid_row_def)
  then show ?thesis using True w g unfolding gates_pass_def credited_observation_def by fastforce
qed

lemma demo_verify:
  "\<exists>db'. verify_pending (demo_env\<lparr>SHADOW_MODE := False, CREDIT_CONVERSION_V2 := False\<rparr>) (\<lambda>_ _. Inr demo_transfer) (2, demo_deposit)
     demo_deposit_db = (Inr 2, db') \<and> ledger db' \<noteq> []"
proof -
  have amt: "normalize_amount (DecimalArg (Finite 25)) = Inr 25" by (simp add: normalize_eval)
  have tx: "demo_tx = CHR ''0'' # CHR ''x'' # replicate 64 (CHR ''a'')" by (simp add: demo_tx_def)
  have env: "POLYGON_MIN_CONFIRMATIONS demo_env = 12" by (simp add: demo_env_def)
  have legacy: "\<not> should_use_wallet_money_path (demo_env\<lparr>SHADOW_MODE := False, CREDIT_CONVERSION_V2 := False\<rparr>) (Suc 0)"
    by (simp add: should_use_wallet_money_path_def demo_env_def)
  show ?thesis
    by (simp add: verify_pending_def legacy verify_pending_legacy_def demo_deposit_def tx fetched_def apply_transfer_gates_def demo_transfer_def
        save_raw_def save_deposit_def txn_defs env complete_def complete_locked_def get_deposit_def other_completed_def
        pay_legacy_def credit_def apply_credit_def apply_seen_def amt apply_locked_def demo_db_def find_entry_def
        insert_entry_def new_entry_def NUMERIC_20_6_def save_account_def uuid4_def Let_def completed_row_def publish_def
        safe_compare_legacy_deposit_def compare_legacy_deposit_def)
qed

theorem deposit_credit_exact_witness:
  "\<exists>db'. verify_pending (demo_env\<lparr>SHADOW_MODE := False, CREDIT_CONVERSION_V2 := False\<rparr>) (\<lambda>_ _. Inr demo_transfer) (2, demo_deposit)
     demo_deposit_db = (Inr 2, db') \<and> length (ledger db') = 1"
proof -
  obtain db' where run: "verify_pending (demo_env\<lparr>SHADOW_MODE := False, CREDIT_CONVERSION_V2 := False\<rparr>) (\<lambda>_ _. Inr demo_transfer)
      (2, demo_deposit) demo_deposit_db = (Inr 2, db')" and ne: "ledger db' \<noteq> []"
    using demo_verify by blast
  have tx: "dep_tx (snd (2 :: nat, demo_deposit)) = Some (CHR ''0'' # CHR ''x'' # replicate 64 (CHR ''a''))"
    by (simp add: demo_deposit_def demo_tx_def)
  from deposit_credit_exact [OF demo_deposit_ok(1,3) tx run] ne run show ?thesis by fastforce
qed

text \<open>The gates on a pending deposit, in their order: a transfer that did not succeed fails the deposit;
  one with too few confirmations leaves it pending, to be retried, with the provider's answer stored; a
  wrong amount fails it. Each raises its own error and none touches the ledger.\<close>

theorem gate_outcomes:
  assumes "map_of (deposits db) pk = Some d" "dep_status d = DPending"
    and "out = apply_transfer_gates env (pk, d) t finish db"
  shows "(tr_status t \<noteq> ''success'' \<longrightarrow> fst out = Inl (EDeposit DepositVerificationFailedError) \<and>
      ledger (snd out) = ledger db \<and>
      map_option dep_status (map_of (deposits (snd out)) pk) = Some DFailed) \<and>
    (tr_status t = ''success'' \<and> tr_confirmations t < POLYGON_MIN_CONFIRMATIONS env \<longrightarrow>
      fst out = Inl (EDeposit (InsufficientConfirmationsError (tr_confirmations t) (POLYGON_MIN_CONFIRMATIONS env))) \<and>
      ledger (snd out) = ledger db \<and>
      map_of (deposits (snd out)) pk = Some (d\<lparr>dep_raw := Some (tr_raw t)\<rparr>)) \<and>
    (tr_status t = ''success'' \<and> POLYGON_MIN_CONFIRMATIONS env \<le> tr_confirmations t \<and> tr_amount t \<noteq> dep_requested d \<longrightarrow>
      fst out = Inl (EDeposit (AmountMismatchError (tr_amount t) (dep_requested d))) \<and>
      ledger (snd out) = ledger db \<and>
      map_option dep_status (map_of (deposits (snd out)) pk) = Some DFailed)"
  using assms
  by (simp add: apply_transfer_gates_def Let_def txn_defs save_raw_def save_deposit_def mark_failed_def get_deposit_def)

theorem gate_outcomes_witness:
  "fst (apply_transfer_gates demo_env (2, demo_deposit) (demo_transfer\<lparr>tr_amount := 24\<rparr>) (complete demo_env) demo_deposit_db) =
     Inl (EDeposit (AmountMismatchError 24 25))"
  using gate_outcomes [of demo_deposit_db 2 demo_deposit _ demo_env "demo_transfer\<lparr>tr_amount := 24\<rparr>" "complete demo_env"]
  by (simp add: demo_deposit_def demo_transfer_def demo_env_def)

text \<open>A settled request is answered from its row: when the idempotency key belongs to a completed
  deposit, or to a failed one of another account or of the same amount, \<^verbatim>\<open>verify\<close> returns that deposit,
  asks the provider nothing and writes nothing. The account is not compared for a completed deposit.\<close>

theorem settled_deposit_untouched:
  assumes "BILLING_ENABLED env" "key \<noteq> []" "normalize_payment_method way = Inr way'"
    and "normalize_amount amount = Inr x" "deposit_tx_hash h = Inr tx"
    and "find_deposit (\<lambda>d. dep_key d = key) (deposits db) = Some r"
    and "dep_status (snd r) = DCompleted \<or>
      dep_status (snd r) = DFailed \<and> (dep_account (snd r) \<noteq> a \<or> dep_requested (snd r) = x)"
  shows "verify env fetch a h way amount key db = (Inr (fst r), db)"
  using assms by (auto simp: verify_def verify_seen_def txn_defs)

theorem settled_deposit_untouched_witness:
  "verify demo_env (\<lambda>_ _. Inr demo_transfer) 2 demo_tx ''cex_manual'' (IntArg 25) ''k''
     (demo_deposit_db\<lparr>deposits := [(2, demo_deposit\<lparr>dep_status := DCompleted\<rparr>)]\<rparr>) =
   (Inr 2, demo_deposit_db\<lparr>deposits := [(2, demo_deposit\<lparr>dep_status := DCompleted\<rparr>)]\<rparr>)"
proof -
  have h: "deposit_tx_hash demo_tx = Inr demo_tx"
    using normalize_tx_idem [OF demo_tx_normal [unfolded normalize_tx_hash_def]] by (simp add: deposit_tx_hash_def)
  have "normalize_amount (IntArg 25) = Inr 25" by (simp add: normalize_eval)
  from settled_deposit_untouched [OF _ _ _ this h, of demo_env "''k''" "''cex_manual''" "''cex_manual''"
      "demo_deposit_db\<lparr>deposits := [(2, demo_deposit\<lparr>dep_status := DCompleted\<rparr>)]\<rparr>"
      "(2, demo_deposit\<lparr>dep_status := DCompleted\<rparr>)" 2]
  show ?thesis by (simp add: demo_env_def normalize_payment_method_def find_deposit_def demo_deposit_def)
qed

end
