(* ===== verification/Dates.thy ===== *)
theory Dates
  imports Text Keys
begin

text \<open>
  Python's \<^verbatim>\<open>datetime.date\<close> as the billing code uses it. A date is its proleptic Gregorian
  ordinal (\<^verbatim>\<open>date.toordinal()\<close>, 1 for 0001-01-01); \<open>ord2ymd\<close> is the conversion to year, month
  and day, \<open>date_iso\<close> is \<^verbatim>\<open>date.isoformat()\<close>, \<open>add_days\<close> the sum with a \<^verbatim>\<open>timedelta(days=n)\<close>. The
  clock counts microseconds since 1970-01-01 UTC; the project's time zone is UTC, so
  \<open>localdate\<close> is the day of the clock. Ledger keys contain ISO dates: the lemmas show that two
  dates with one text are one date.
\<close>

section \<open>The calendar\<close>

definition is_leap :: "int \<Rightarrow> bool" where
  "is_leap y \<longleftrightarrow> y mod 4 = 0 \<and> (y mod 100 \<noteq> 0 \<or> y mod 400 = 0)"

definition days_before_year :: "int \<Rightarrow> int" where
  "days_before_year year =
     (let y = year - 1 in y * 365 + y div 4 - y div 100 + y div 400)"

definition month_lengths :: "bool \<Rightarrow> int list" where
  "month_lengths leap = [31, if leap then 29 else 28, 31, 30, 31, 30, 31, 31, 30, 31, 30, 31]"

text \<open>The month and day of a day of the year, both counted from the first.\<close>

fun split_months :: "int list \<Rightarrow> int \<Rightarrow> int \<Rightarrow> int \<times> int" where
  "split_months [] m n = (m, n + 1)"
| "split_months [l] m n = (m, n + 1)"
| "split_months (l # ls) m n = (if n < l then (m, n + 1) else split_months ls (m + 1) (n - l))"

definition ord2ymd :: "int \<Rightarrow> int \<times> int \<times> int" where
  "ord2ymd ordinal =
     (let n = ordinal - 1;
          n400 = n div 146097; r400 = n mod 146097;
          n100 = r400 div 36524; r100 = r400 mod 36524;
          n4 = r100 div 1461; r4 = r100 mod 1461;
          n1 = r4 div 365; r1 = r4 mod 365;
          year = n400 * 400 + 1 + n100 * 100 + n4 * 4 + n1
      in if n1 = 4 \<or> n100 = 4 then (year - 1, 12, 31)
         else let (m, d) = split_months (month_lengths (is_leap year)) 1 r1 in (year, m, d))"

definition ymd2ord :: "int \<times> int \<times> int \<Rightarrow> int" where
  "ymd2ord = (\<lambda>(y, m, d).
     days_before_year y + sum_list (take (nat (m - 1)) (month_lengths (is_leap y))) + d)"

definition MAXORDINAL :: int where
  "MAXORDINAL = 3652059"

definition valid_date :: "int \<Rightarrow> bool" where
  "valid_date d \<longleftrightarrow> 1 \<le> d \<and> d \<le> MAXORDINAL"

text \<open>\<^verbatim>\<open>d + timedelta(days=n)\<close>: a sum outside years 1 to 9999 is an \<open>OverflowError\<close>.\<close>

definition add_days :: "int \<Rightarrow> int \<Rightarrow> exc + int" where
  "add_days d n = (if valid_date (d + n) then Inr (d + n) else Inl (EPy OverflowError))"

definition MICROS_PER_DAY :: int where
  "MICROS_PER_DAY = 86400000000"

definition EPOCH_ORDINAL :: int where
  "EPOCH_ORDINAL = 719163"

definition localdate :: "int \<Rightarrow> int" where
  "localdate now = now div MICROS_PER_DAY + EPOCH_ORDINAL"

text \<open>\<^verbatim>\<open>"%04d-%02d-%02d"\<close>.\<close>

definition date_iso :: "int \<Rightarrow> string" where
  "date_iso ordinal =
     (let (y, m, d) = ord2ymd ordinal
      in zfill 4 (str_nat (nat y)) @ ''-'' @ zfill 2 (str_nat (nat m)) @ ''-'' @ zfill 2 (str_nat (nat d)))"

lemma calendar_examples:
  "ord2ymd 1 = (1, 1, 1)" "ord2ymd 719163 = (1970, 1, 1)" "ord2ymd 738945 = (2024, 2, 29)"
  "ord2ymd 738946 = (2024, 3, 1)" "ord2ymd MAXORDINAL = (9999, 12, 31)"
  by (simp_all add: ord2ymd_def is_leap_def month_lengths_def MAXORDINAL_def)

section \<open>Dates and their texts\<close>

lemma split_months_inverse:
  assumes "0 \<le> n" "n < 365 + (if leap then 1 else 0)"
  shows "case split_months (month_lengths leap) 1 n of (m, d) \<Rightarrow>
    1 \<le> m \<and> m \<le> 12 \<and> 1 \<le> d \<and> d \<le> 31 \<and>
    sum_list (take (nat (m - 1)) (month_lengths leap)) + d = n + 1"
  using assms by (cases leap) (simp_all add: month_lengths_def)

text \<open>The 400-year cycle: the year found is the one that contains the day.\<close>

lemma mod_eqI:
  fixes x y k q :: int
  assumes "x = y + q * k"
  shows "x mod q = y mod q"
  using assms by simp

lemma year_decomposition:
  fixes a b c d :: int
  assumes "0 \<le> b" "b < 4" "0 \<le> c" "c < 25" "0 \<le> d" "d < 4"
  shows "days_before_year (a * 400 + 1 + b * 100 + c * 4 + d) = a * 146097 + b * 36524 + c * 1461 + d * 365"
    and "is_leap (a * 400 + 1 + b * 100 + c * 4 + d) \<longleftrightarrow> d = 3 \<and> (c \<noteq> 24 \<or> b = 3)"
proof -
  let ?y = "a * 400 + b * 100 + c * 4 + d"
  have quot: "k * q + r = y \<Longrightarrow> 0 \<le> r \<Longrightarrow> r < q \<Longrightarrow> y div q = k" for k q r y :: int
    by auto
  have "?y div 4 = a * 100 + b * 25 + c" by (rule quot [of _ _ d]) (use assms in simp_all)
  moreover have "?y div 100 = a * 4 + b" by (rule quot [of _ _ "c * 4 + d"]) (use assms in simp_all)
  moreover have "?y div 400 = a" by (rule quot [of _ _ "b * 100 + c * 4 + d"]) (use assms in simp_all)
  ultimately show "days_before_year (a * 400 + 1 + b * 100 + c * 4 + d) = a * 146097 + b * 36524 + c * 1461 + d * 365"
    by (simp add: days_before_year_def Let_def algebra_simps)
  have y: "a * 400 + 1 + b * 100 + c * 4 + d = ?y + 1" by simp
  have m4: "(?y + 1) mod 4 = (d + 1) mod 4"
    by (rule mod_eqI [where k = "a * 100 + b * 25 + c"]) simp
  have m100: "(?y + 1) mod 100 = (c * 4 + d + 1) mod 100"
    by (rule mod_eqI [where k = "a * 4 + b"]) simp
  have m400: "(?y + 1) mod 400 = (b * 100 + c * 4 + d + 1) mod 400"
    by (rule mod_eqI [where k = a]) simp
  have d: "(d + 1) mod 4 = 0 \<longleftrightarrow> d = 3"
    using assms mod_pos_pos_trivial [of "d + 1" 4] by (cases "d = 3") auto
  have c: "(c * 4 + 3 + 1) mod 100 = 0 \<longleftrightarrow> c = 24"
    using assms mod_pos_pos_trivial [of "c * 4 + 4" 100] by (cases "c = 24") auto
  have b: "(b * 100 + 24 * 4 + 3 + 1) mod 400 = 0 \<longleftrightarrow> b = 3"
    using assms mod_pos_pos_trivial [of "b * 100 + 100" 400] by (cases "b = 3") auto
  show "is_leap (a * 400 + 1 + b * 100 + c * 4 + d) \<longleftrightarrow> d = 3 \<and> (c \<noteq> 24 \<or> b = 3)"
    unfolding is_leap_def y m4 m100 m400 d using b c by auto
qed


lemma ord2ymd_cases:
  obtains (last) y where "ord2ymd n = (y, 12, 31)" "days_before_year y + 366 = n" "is_leap y"
  | (inside) y e where "ord2ymd n = (case split_months (month_lengths (is_leap y)) 1 e of (m, d) \<Rightarrow> (y, m, d))"
      "0 \<le> e" "e < 365 + (if is_leap y then 1 else 0)" "days_before_year y + e + 1 = n"
proof -
  define a where "a = (n - 1) div 146097"
  define r where "r = (n - 1) mod 146097"
  define b where "b = r div 36524"
  define r' where "r' = r mod 36524"
  define c where "c = r' div 1461"
  define r'' where "r'' = r' mod 1461"
  define d where "d = r'' div 365"
  define e where "e = r'' mod 365"
  have sums: "n - 1 = a * 146097 + r" "r = b * 36524 + r'" "r' = c * 1461 + r''" "r'' = d * 365 + e"
    by (simp_all add: a_def r_def b_def r'_def c_def r''_def d_def e_def)
  have bounds: "0 \<le> r" "r < 146097" "0 \<le> r'" "r' < 36524" "0 \<le> r''" "r'' < 1461" "0 \<le> e" "e < 365"
    by (simp_all add: r_def r'_def r''_def e_def)
  have quots: "0 \<le> b" "b \<le> 4" "0 \<le> c" "c \<le> 24" "0 \<le> d" "d \<le> 4" using sums bounds by linarith+
  let ?y = "a * 400 + 1 + b * 100 + c * 4 + d"
  have ord: "ord2ymd n = (if d = 4 \<or> b = 4 then (?y - 1, 12, 31)
      else case split_months (month_lengths (is_leap ?y)) 1 e of (m, d') \<Rightarrow> (?y, m, d'))"
    by (simp add: ord2ymd_def Let_def a_def r_def b_def r'_def c_def r''_def d_def e_def mult.commute)
  consider "b = 4" | "d = 4" "b \<noteq> 4" | "d \<noteq> 4" "b \<noteq> 4" by blast
  then show thesis
  proof cases
    case 1
    then have "r' = 0" "c = 0" "d = 0" "e = 0" using sums bounds quots by linarith+
    then show ?thesis
      using 1 ord sums year_decomposition [of 3 24 3 a] by (intro last [of "?y - 1"]) simp_all
  next
    case 2
    then have "c \<noteq> 24" "e = 0" "b \<le> 3" using sums bounds quots by linarith+
    then show ?thesis
      using 2 ord sums quots year_decomposition [of b c 3 a] by (intro last [of "?y - 1"]) simp_all
  next
    case 3
    then have "b \<le> 3" "d \<le> 3" using quots by linarith+
    then show ?thesis
      using 3 ord sums bounds quots year_decomposition [of b c d a]
      by (intro inside [of ?y e]) simp_all
  qed
qed

lemma ymd2ord_ord2ymd: "ymd2ord (ord2ymd n) = n"
proof (cases n rule: ord2ymd_cases)
  case (last y)
  then show ?thesis by (simp add: ymd2ord_def month_lengths_def)
next
  case (inside y e)
  then show ?thesis
    using split_months_inverse [of e "is_leap y"] by (auto simp: ymd2ord_def split: prod.splits)
qed

lemma ord2ymd_bounds:
  assumes "ord2ymd n = (y, m, d)"
  shows "1 \<le> m" "m \<le> 12" "1 \<le> d" "d \<le> 31"
  using assms by (cases n rule: ord2ymd_cases; use split_months_inverse in \<open>fastforce split: prod.splits\<close>)+

lemma ord2ymd_year:
  assumes "1 \<le> n" "ord2ymd n = (y, m, d)"
  shows "1 \<le> y"
proof (rule ccontr)
  assume neg: "\<not> 1 \<le> y"
  then have "(y - 1) div 4 \<le> (y - 1) div 100" by (intro zdiv_mono2_neg) simp_all
  moreover have "(y - 1) div 400 < 0" using neg by (simp add: div_neg_pos_less0)
  ultimately have small: "days_before_year y < (y - 1) * 365" by (simp add: days_before_year_def Let_def)
  show False
  proof (cases n rule: ord2ymd_cases)
    case (last y')
    then show ?thesis using assms small neg by simp
  next
    case (inside y' e)
    then have "y' = y" using assms by (auto split: prod.splits)
    then show ?thesis using inside assms small neg by (auto split: if_splits)
  qed
qed

lemma sep_split:
  "c \<notin> set a \<Longrightarrow> c \<notin> set b \<Longrightarrow> a @ c # x = b @ c # y \<longleftrightarrow> a = b \<and> x = y"
proof (induction a arbitrary: b)
  case Nil
  then show ?case by (cases b) auto
next
  case (Cons c' a)
  then show ?case by (cases b) auto
qed

lemma str_nat_no_sign: "CHR ''-'' \<notin> set (str_nat n)" "CHR ''+'' \<notin> set (str_nat n)"
proof -
  have "c \<noteq> digit_char d" if "of_char c < (48 :: nat)" "d < 10" for c d
    using that of_char_digit [of d] by auto
  then show "CHR ''-'' \<notin> set (str_nat n)" "CHR ''+'' \<notin> set (str_nat n)"
    by (auto dest!: str_nat_digits)
qed

lemma zfill_str_nat: "zfill k (str_nat n) = replicate (k - length (str_nat n)) (CHR ''0'') @ str_nat n"
proof -
  have "hd (str_nat n) \<in> set (str_nat n)" by simp
  then have "hd (str_nat n) \<noteq> CHR ''-''" "hd (str_nat n) \<noteq> CHR ''+''" using str_nat_no_sign [of n] by metis+
  then show ?thesis by (simp add: zfill_def)
qed

lemma read_zfill [simp]: "read_nat (zfill k (str_nat n)) = n"
proof -
  have "foldl (\<lambda>v c. 10 * v + (of_char c - 48)) 0 (replicate j (CHR ''0'')) = (0 :: nat)" for j
    by (induction j) simp_all
  then show ?thesis using read_str_nat [of n] by (simp add: zfill_str_nat read_nat_def del: read_str_nat)
qed

lemma zfill_no_minus: "CHR ''-'' \<notin> set (zfill k (str_nat n))"
  using str_nat_no_sign by (auto simp: zfill_str_nat)

lemma zfill_inject: "zfill k (str_nat m) = zfill k (str_nat n) \<longleftrightarrow> m = n"
  by (metis read_zfill)

text \<open>One text, one date: what the keys of a billing period rely on.\<close>

lemma date_iso_inject:
  assumes "1 \<le> n" "1 \<le> n'" "date_iso n = date_iso n'"
  shows "n = n'"
proof -
  obtain y m d where o: "ord2ymd n = (y, m, d)" by (cases "ord2ymd n") auto
  obtain y' m' d' where o': "ord2ymd n' = (y', m', d')" by (cases "ord2ymd n'") auto
  have "nat y = nat y' \<and> nat m = nat m' \<and> nat d = nat d'"
    using assms(3) by (simp add: date_iso_def o o' sep_split zfill_no_minus zfill_inject)
  then have "ord2ymd n = ord2ymd n'"
    using o o' ord2ymd_bounds [OF o] ord2ymd_bounds [OF o'] ord2ymd_year [OF assms(1) o]
      ord2ymd_year [OF assms(2) o'] by (simp add: nat_eq_iff)
  then show ?thesis by (metis ymd2ord_ord2ymd)
qed

lemma date_iso_no_colon [simp]: "CHR '':'' \<notin> set (date_iso n)"
  by (cases "ord2ymd n") (auto simp: date_iso_def zfill_str_nat)

end
