(* ===== verification/Partners.thy ===== *)
theory Partners
  imports Deposits Dates
begin

text \<open>
  The partner program (ADR 023, ADR 024): \<^verbatim>\<open>organizations/models.py\<close>, \<^verbatim>\<open>billing/partner_channel.py\<close>
  and the services \<^verbatim>\<open>partner_settlement.py\<close>, \<^verbatim>\<open>partner_margin.py\<close>, \<^verbatim>\<open>partner_grant.py\<close> and
  \<^verbatim>\<open>partner_reconcile.py\<close>. A channel belongs to a user or to an organization and earns a share of
  the margin of its customers' purchases; it can pass credits on to a customer. The properties:
  the share is a bounded part of the margin and is paid once per purchase, never to the buyer's
  own channel; a grant moves an amount and creates none; both keep the drift report of
  \<^verbatim>\<open>partner_reconcile.py\<close> empty.
\<close>

section \<open>Tables\<close>

datatype organization_status = OrgActive | OrgSuspended | OrgArchived
datatype membership_role = Owner | Admin | Member | Viewer
datatype membership_status = MActive | MSuspended | MRevoked

record organization =
  org_name :: string
  org_status :: organization_status
  org_account :: nat

record membership =
  mem_org :: nat
  mem_user :: nat
  mem_role :: membership_role
  mem_status :: membership_status

datatype channel_kind = KindIndividual | KindTeam

record channel =
  ch_kind :: channel_kind
  ch_owner :: "nat option"
  ch_org :: "nat option"
  revenue_share_percent :: rat
  ch_active :: bool

record invite_link =
  link_channel :: nat
  link_token :: string
  link_name :: string
  link_bonus :: rat
  link_source :: string
  link_campaign :: string
  link_content :: string
  link_active :: bool
  link_created :: int
  link_regenerated :: "int option"

datatype attribution_source = SourceInviteLink | SourceAdmin

record attribution =
  att_user :: nat
  att_channel :: nat
  att_source :: attribution_source
  att_link :: "nat option"
  att_visit :: "nat option"
  att_token :: "string option"
  att_registered :: bool
  att_snapshot :: "string list"
  att_bonus :: "rat option"
  att_at :: int

datatype source_type = SOrder | STopup | SSubscription

fun source_value :: "source_type \<Rightarrow> string" where
  "source_value SOrder = ''order''"
| "source_value STopup = ''topup''"
| "source_value SSubscription = ''subscription''"

record accrual =
  acr_channel :: nat
  acr_customer :: nat
  acr_attribution :: nat
  acr_type :: source_type
  acr_source :: string
  acr_list :: rat
  acr_net :: rat
  acr_margin :: rat
  acr_percent :: rat
  acr_share :: rat
  acr_entry :: nat

record credit_grant =
  gr_channel :: nat
  gr_customer :: nat
  gr_attribution :: nat
  gr_by :: nat
  gr_amount :: rat
  gr_key :: string
  gr_debit :: nat
  gr_credit :: nat

record partner_db = deposit_db +
  organizations :: "(nat \<times> organization) list"
  memberships :: "(nat \<times> membership) list"
  channels :: "(nat \<times> channel) list"
  invite_links :: "(nat \<times> invite_link) list"
  attributions :: "(nat \<times> attribution) list"
  accruals :: "(nat \<times> accrual) list"
  credit_grants :: "(nat \<times> credit_grant) list"

type_synonym ('x, 'a) partner_txn = "('x partner_db_scheme, 'a) txn"

text \<open>The check constraints of \<^verbatim>\<open>PartnerChannel\<close>.\<close>

definition channel_ok :: "channel \<Rightarrow> bool" where
  "channel_ok ch \<longleftrightarrow>
     0 \<le> revenue_share_percent ch \<and> revenue_share_percent ch \<le> 100 \<and>
     (ch_kind ch = KindIndividual \<and> ch_owner ch \<noteq> None \<and> ch_org ch = None \<or>
      ch_kind ch = KindTeam \<and> ch_owner ch = None \<and> ch_org ch \<noteq> None)"

section \<open>Settlement account\<close>

definition is_owner_personal_account :: "'x partner_db_scheme \<Rightarrow> nat \<times> account \<Rightarrow> nat \<Rightarrow> bool" where
  "is_owner_personal_account db r user \<longleftrightarrow>
     acc_kind (snd r) = PERSONAL \<and> acc_user (snd r) = Some user \<and>
     \<not> (\<exists>o' \<in> set (organizations db). org_account (snd o') = fst r)"

definition is_organization_account :: "'x partner_db_scheme \<Rightarrow> nat \<times> account \<Rightarrow> nat \<times> organization \<Rightarrow> bool" where
  "is_organization_account db r o' \<longleftrightarrow>
     acc_kind (snd r) = ORGANIZATION \<and> acc_user (snd r) = None \<and> org_account (snd o') = fst r \<and>
     (case find (\<lambda>q. org_account (snd q) = fst r) (organizations db) of
        None \<Rightarrow> False | Some linked \<Rightarrow> fst linked = fst o')"

definition personal_settlement_account :: "channel \<Rightarrow> 'x partner_db_scheme \<Rightarrow> exc + nat" where
  "personal_settlement_account ch db =
     (case ch_owner ch of
        None \<Rightarrow> Inl (EPartner PartnerChannelOwnershipInvalid)
      | Some user \<Rightarrow>
          (case account_of_user user (accounts db) of
             None \<Rightarrow> Inl (EPartner PartnerSettlementAccountMissing)
           | Some r \<Rightarrow>
               if is_owner_personal_account db r user then Inr (fst r)
               else Inl (EPartner PartnerSettlementAccountMissing)))"

definition organization_settlement_account :: "channel \<Rightarrow> 'x partner_db_scheme \<Rightarrow> exc + nat" where
  "organization_settlement_account ch db =
     (case ch_org ch of
        None \<Rightarrow> Inl (EPartner PartnerChannelOwnershipInvalid)
      | Some pk \<Rightarrow>
          (case map_of (organizations db) pk of
             None \<Rightarrow> Inl (EPartner PartnerChannelOwnershipInvalid)
           | Some org \<Rightarrow>
               (case map_of (accounts db) (org_account org) of
                  None \<Rightarrow> Inl (EPartner PartnerSettlementAccountMissing)
                | Some row \<Rightarrow>
                    if is_organization_account db (org_account org, row) (pk, org) then Inr (org_account org)
                    else Inl (EPartner PartnerSettlementAccountMissing))))"

definition resolve_partner_settlement_account :: "channel \<Rightarrow> 'x partner_db_scheme \<Rightarrow> exc + nat" where
  "resolve_partner_settlement_account ch db =
     (case ch_kind ch of
        KindIndividual \<Rightarrow>
          if ch_owner ch = None \<or> ch_org ch \<noteq> None then Inl (EPartner PartnerChannelOwnershipInvalid)
          else personal_settlement_account ch db
      | KindTeam \<Rightarrow>
          if ch_org ch = None \<or> ch_owner ch \<noteq> None then Inl (EPartner PartnerChannelOwnershipInvalid)
          else organization_settlement_account ch db)"

section \<open>Margin accrual\<close>

definition build_source_id :: "source_type \<Rightarrow> nat \<Rightarrow> int option \<Rightarrow> exc + string" where
  "build_source_id st pk billing_date =
     (if st = SSubscription
      then (case billing_date of
              None \<Rightarrow> Inl (EPy ValueError)
            | Some d \<Rightarrow> Inr (str_nat pk @ '':'' @ date_iso d))
      else Inr (str_nat pk))"

text \<open>\<^verbatim>\<open>status=ACTIVE\<close> membership of a user in an organization.\<close>

definition active_member :: "'x partner_db_scheme \<Rightarrow> nat \<Rightarrow> nat \<Rightarrow> bool" where
  "active_member db org user \<longleftrightarrow>
     (\<exists>r \<in> set (memberships db). mem_org (snd r) = org \<and> mem_user (snd r) = user \<and> mem_status (snd r) = MActive)"

definition partner_channel_can_accrue_for_customer :: "'x partner_db_scheme \<Rightarrow> channel \<Rightarrow> nat \<Rightarrow> bool" where
  "partner_channel_can_accrue_for_customer db ch customer \<longleftrightarrow>
     \<not> (ch_kind ch = KindIndividual \<and> ch_owner ch = Some customer) \<and>
     \<not> (ch_kind ch = KindTeam \<and>
        (case ch_org ch of None \<Rightarrow> False | Some org \<Rightarrow> active_member db org customer))"

definition price_skip :: "rat option \<Rightarrow> rat option \<Rightarrow> rat \<Rightarrow> string option" where
  "price_skip lp np percent =
     (case np of
        None \<Rightarrow> Some ''partner_margin.net_missing''
      | Some net \<Rightarrow>
          (case lp of
             None \<Rightarrow> Some ''partner_margin.invalid_margin''
           | Some l \<Rightarrow>
               if net < 0 then Some ''partner_margin.net_negative''
               else if l < net then Some ''partner_margin.invalid_margin''
               else if percent \<le> 0 then Some ''partner_margin.zero_share''
               else None))"

definition attribution_of :: "nat \<Rightarrow> (nat \<times> attribution) list \<Rightarrow> (nat \<times> attribution) option" where
  "attribution_of user rows = find (\<lambda>r. att_user (snd r) = user) rows"

definition find_accrual :: "source_type \<Rightarrow> string \<Rightarrow> (nat \<times> accrual) list \<Rightarrow> (nat \<times> accrual) option" where
  "find_accrual st sid rows = find (\<lambda>r. acr_type (snd r) = st \<and> acr_source (snd r) = sid) rows"

definition accrual_key :: "source_type \<Rightarrow> string \<Rightarrow> string" where
  "accrual_key st sid = ''partner-margin:'' @ source_value st @ '':'' @ sid"

text \<open>\<^verbatim>\<open>PartnerMarginAccrual.objects.create\<close>: one row per source, one per ledger entry.\<close>

definition insert_accrual :: "nat \<Rightarrow> accrual \<Rightarrow> ('x, unit) partner_txn" where
  "insert_accrual pk row =
     bindE (liftE (numeric_20_6 (acr_list row))) (\<lambda>l.
     bindE (liftE (numeric_20_6 (acr_net row))) (\<lambda>n.
     bindE (liftE (numeric_20_6 (acr_margin row))) (\<lambda>mg.
     bindE (getsE accruals) (\<lambda>rows.
     if find_accrual (acr_type row) (acr_source row) rows \<noteq> None \<or>
        acr_entry row \<in> set (map (\<lambda>r. acr_entry (snd r)) rows)
     then raiseE (EPy IntegrityError)
     else modifyE (\<lambda>db. db\<lparr>accruals := accruals db @
            [(pk, row\<lparr>acr_list := l, acr_net := n, acr_margin := mg\<rparr>)]\<rparr>)))))"

definition accrue_share ::
  "nat \<times> attribution \<Rightarrow> nat \<Rightarrow> channel \<Rightarrow> source_type \<Rightarrow> string \<Rightarrow> rat \<Rightarrow> rat \<Rightarrow> ('x, nat option) partner_txn" where
  "accrue_share att chk ch st sid lp np =
     (let margin = lp - np
      in bindE (liftE (py_quantize MONEY_QUANT (margin * revenue_share_percent ch / 100))) (\<lambda>share.
         if share = 0 then ret None
         else
           bindE (getsE (resolve_partner_settlement_account ch)) (\<lambda>settlement.
           bindE (liftE settlement) (\<lambda>a.
           bindE uuid4 (\<lambda>pk.
           bindE (credit a (DecimalArg (Finite share)) (RefEnum PARTNER_MARGIN) (str_nat pk)
                    (accrual_key st sid)) (\<lambda>entry.
           thenE (insert_accrual pk
                    \<lparr>acr_channel = chk, acr_customer = att_user (snd att), acr_attribution = fst att,
                     acr_type = st, acr_source = sid, acr_list = lp, acr_net = np,
                     acr_margin = margin, acr_percent = revenue_share_percent ch, acr_share = share,
                     acr_entry = entry_id entry\<rparr>)
             (ret (Some pk))))))))"

text \<open>\<^verbatim>\<open>PartnerMarginService.accrue\<close>: the primary key of the accrual, \<open>None\<close> for a skip.\<close>

definition accrue ::
  "env \<Rightarrow> source_type \<Rightarrow> string \<Rightarrow> rat option \<Rightarrow> rat option \<Rightarrow> nat option \<Rightarrow> ('x, nat option) partner_txn" where
  "accrue env st sid lp np customer =
     (if \<not> PARTNER_CHANNEL_ENABLED env then ret None
      else case customer of
        None \<Rightarrow> ret None
      | Some user \<Rightarrow>
          bindE (getsE (\<lambda>db. attribution_of user (attributions db))) (\<lambda>attribution.
          case attribution of
            None \<Rightarrow> ret None
          | Some att \<Rightarrow>
              bindE (getsE (\<lambda>db. map_of (channels db) (att_channel (snd att)))) (\<lambda>row.
              bindE (get_or_raise (EPy ObjectDoesNotExist) row) (\<lambda>ch.
              bindE (getsE (\<lambda>db. find_accrual st sid (accruals db))) (\<lambda>existing.
              case existing of
                Some r \<Rightarrow> ret (Some (fst r))
              | None \<Rightarrow>
                  if \<not> ch_active ch then ret None
                  else
                    bindE (getsE (\<lambda>db. partner_channel_can_accrue_for_customer db ch user)) (\<lambda>allowed.
                    if \<not> allowed then ret None
                    else if price_skip lp np (revenue_share_percent ch) \<noteq> None then ret None
                    else case (lp, np) of
                      (Some l, Some n) \<Rightarrow> accrue_share att (att_channel (snd att)) ch st sid l n
                    | _ \<Rightarrow> ret None))))))"

section \<open>Grants\<close>

definition GRANT_ROLES :: "membership_role list" where
  "GRANT_ROLES = [Owner, Admin]"

definition existing_grant :: "nat \<Rightarrow> string \<Rightarrow> (nat \<times> credit_grant) list \<Rightarrow> (nat \<times> credit_grant) option" where
  "existing_grant chk key rows = find (\<lambda>r. gr_channel (snd r) = chk \<and> gr_key (snd r) = key) rows"

definition matching :: "nat \<times> credit_grant \<Rightarrow> nat \<Rightarrow> rat \<Rightarrow> ('s, nat) txn" where
  "matching g customer amount =
     (if gr_customer (snd g) \<noteq> customer \<or> gr_amount (snd g) \<noteq> amount
      then raiseE (EPartner PartnerGrantIdempotencyConflict) else ret (fst g))"

definition require_current_channel :: "(nat \<times> attribution) option \<Rightarrow> nat \<Rightarrow> ('s, nat \<times> attribution) txn" where
  "require_current_channel attribution chk =
     (case attribution of
        None \<Rightarrow> raiseE (EPartner CustomerNotAttributed)
      | Some att \<Rightarrow> if att_channel (snd att) \<noteq> chk then raiseE (EPartner CustomerAttributionChanged) else ret att)"

text \<open>Both account rows; the lock order does not show in one transaction's effect.\<close>

definition lock_ordered_accounts :: "nat \<Rightarrow> nat \<Rightarrow> ('x, account \<times> account) partner_txn" where
  "lock_ordered_accounts source destination =
     (if source = destination then raiseE (EPartner PartnerGrantSameAccount)
      else bindE (getsE (\<lambda>db. map_of (accounts db) source)) (\<lambda>s.
           bindE (getsE (\<lambda>db. map_of (accounts db) destination)) (\<lambda>d.
           case (s, d) of (Some x, Some y) \<Rightarrow> ret (x, y) | _ \<Rightarrow> raiseE (EPy ObjectDoesNotExist))))"

definition insert_grant :: "nat \<Rightarrow> credit_grant \<Rightarrow> ('x, unit) partner_txn" where
  "insert_grant pk g =
     bindE (getsE credit_grants) (\<lambda>rows.
     if 128 < length (gr_key g) then raiseE (EPy DataError)
     else if existing_grant (gr_channel g) (gr_key g) rows \<noteq> None \<or> gr_amount g \<le> 0 \<or>
        gr_debit g \<in> set (map (\<lambda>r. gr_debit (snd r)) rows) \<or>
        gr_credit g \<in> set (map (\<lambda>r. gr_credit (snd r)) rows)
     then raiseE (EPy IntegrityError)
     else modifyE (\<lambda>db. db\<lparr>credit_grants := credit_grants db @ [(pk, g)]\<rparr>))"

text \<open>The block inside \<^verbatim>\<open>transaction.atomic()\<close>; \<open>seen\<close> is the grants table its lookup reads.\<close>

definition execute_locked ::
  "(nat \<times> credit_grant) list \<Rightarrow> nat \<Rightarrow> nat \<Rightarrow> nat \<Rightarrow> nat \<Rightarrow> rat \<Rightarrow> string \<Rightarrow> ('x, nat) partner_txn" where
  "execute_locked seen actor chk source customer amount key =
     bindE (getsE (\<lambda>db. attribution_of customer (attributions db))) (\<lambda>attribution.
     case existing_grant chk key seen of
       Some g \<Rightarrow> matching g customer amount
     | None \<Rightarrow>
         bindE (require_current_channel attribution chk) (\<lambda>att.
         bindE (ensure_billing_account customer) (\<lambda>destination.
         bindE (lock_ordered_accounts source destination) (\<lambda>(src, dst).
         if balance src < 0 then raiseE (EPartner PartnerGrantNegativeBalance)
         else
           bindE uuid4 (\<lambda>pk.
           bindE (debit source (DecimalArg (Finite amount)) (RefEnum PARTNER_GRANT_OUT) (str_nat pk)
                    (''partner-grant-out:'' @ str_nat pk)) (\<lambda>out.
           bindE (credit destination (DecimalArg (Finite amount)) (RefEnum PARTNER_GRANT_IN) (str_nat pk)
                    (''partner-grant-in:'' @ str_nat pk)) (\<lambda>inn.
           thenE (insert_grant pk
                    \<lparr>gr_channel = chk, gr_customer = customer, gr_attribution = fst att, gr_by = actor,
                     gr_amount = amount, gr_key = key, gr_debit = entry_id out, gr_credit = entry_id inn\<rparr>)
             (ret pk))))))))"

definition execute_seen ::
  "(nat \<times> credit_grant) list \<Rightarrow> nat \<Rightarrow> nat \<Rightarrow> nat \<Rightarrow> nat \<Rightarrow> rat \<Rightarrow> string \<Rightarrow> ('x, nat) partner_txn" where
  "execute_seen seen actor chk source customer amount key =
     (case existing_grant chk key seen of
        Some g \<Rightarrow> matching g customer amount
      | None \<Rightarrow>
          catchE (atomic (execute_locked seen actor chk source customer amount key)) (\<lambda>e.
            if e = EPy IntegrityError
            then bindE (getsE (\<lambda>db. existing_grant chk key (credit_grants db))) (\<lambda>raced.
                 case raced of None \<Rightarrow> raiseE e | Some g \<Rightarrow> matching g customer amount)
            else raiseE e))"

definition execute_grant :: "nat \<Rightarrow> nat \<Rightarrow> nat \<Rightarrow> nat \<Rightarrow> rat \<Rightarrow> string \<Rightarrow> ('x, nat) partner_txn" where
  "execute_grant actor chk source customer amount key =
     bindE (getsE credit_grants) (\<lambda>seen. execute_seen seen actor chk source customer amount key)"

definition require_grant_membership :: "nat \<Rightarrow> channel \<Rightarrow> ('x, unit) partner_txn" where
  "require_grant_membership actor ch =
     bindE (getsE (\<lambda>db. \<exists>r \<in> set (memberships db). Some (mem_org (snd r)) = ch_org ch \<and>
              mem_user (snd r) = actor \<and> mem_status (snd r) = MActive \<and> mem_role (snd r) \<in> set GRANT_ROLES))
       (\<lambda>found. guardE found (EPartner PartnerGrantForbidden))"

definition grant_team :: "env \<Rightarrow> nat \<Rightarrow> nat \<times> channel \<Rightarrow> nat \<Rightarrow> money_arg \<Rightarrow> string \<Rightarrow> ('x, nat) partner_txn" where
  "grant_team env actor chr customer amount key =
     (if key = [] then raiseE (EPartner PartnerGrantError)
      else
        bindE (liftE (normalize_amount amount)) (\<lambda>quantized.
        if \<not> PARTNER_CHANNEL_ENABLED env then raiseE (EPartner PartnerChannelDisabled)
        else
          thenE (require_grant_membership actor (snd chr))
            (bindE (getsE (\<lambda>db. Option.bind (ch_org (snd chr)) (map_of (organizations db)))) (\<lambda>row.
             bindE (get_or_raise (EPy AttributeError) row) (\<lambda>org.
             execute_grant actor (fst chr) (org_account org) customer quantized key)))))"

definition grant_from_account ::
  "env \<Rightarrow> nat \<Rightarrow> nat \<Rightarrow> nat \<Rightarrow> nat \<Rightarrow> money_arg \<Rightarrow> string \<Rightarrow> ('x, nat) partner_txn" where
  "grant_from_account env actor chk source customer amount key =
     (if key = [] then raiseE (EPartner PartnerGrantError)
      else
        bindE (liftE (normalize_amount amount)) (\<lambda>quantized.
        if \<not> PARTNER_CHANNEL_ENABLED env then raiseE (EPartner PartnerChannelDisabled)
        else execute_grant actor chk source customer quantized key))"

section \<open>The drift report\<close>

text \<open>
  \<^verbatim>\<open>collect_partner_drift\<close>: one line per difference. A line is a constructor with the values its
  text shows. \<open>entry_row\<close> follows a foreign key into the ledger.
\<close>

datatype drift_issue =
  AccrualNotMargin nat nat | AccrualReference nat string | AccrualShare nat rat rat
| MarginWithoutAccrual nat
| GrantSettlementInvalid nat | GrantDebitType nat | GrantCreditType nat | GrantDebitAccount nat
| GrantCreditNotPersonal nat | GrantCreditCustomer nat | GrantAmounts nat rat rat rat | GrantReference nat
| GrantOutWithoutGrant nat | GrantInWithoutGrant nat
| ChannelWithoutLink nat

definition entry_row :: "nat \<Rightarrow> ledger_entry list \<Rightarrow> ledger_entry option" where
  "entry_row pk es = find (\<lambda>e. entry_id e = pk) es"

definition accrual_issues :: "'x partner_db_scheme \<Rightarrow> nat \<times> accrual \<Rightarrow> drift_issue list" where
  "accrual_issues db = (\<lambda>(pk, a).
     case entry_row (acr_entry a) (ledger db) of
       None \<Rightarrow> []
     | Some e \<Rightarrow>
         (if reference_type e \<noteq> reference_value PARTNER_MARGIN then [AccrualNotMargin pk (entry_id e)] else []) @
         (if reference_id e \<noteq> str_nat pk then [AccrualReference pk (reference_id e)] else []) @
         (if delta e \<noteq> acr_share a then [AccrualShare pk (acr_share a) (delta e)] else []))"

definition orphans :: "ledger_reference_type \<Rightarrow> nat list \<Rightarrow> ledger_entry list \<Rightarrow> nat list" where
  "orphans rt claimed es =
     map entry_id (filter (\<lambda>e. reference_type e = reference_value rt \<and> entry_id e \<notin> set claimed) es)"

definition accrual_drift :: "'x partner_db_scheme \<Rightarrow> drift_issue list" where
  "accrual_drift db =
     concat (map (accrual_issues db) (accruals db)) @
     map MarginWithoutAccrual (orphans PARTNER_MARGIN (map (\<lambda>r. acr_entry (snd r)) (accruals db)) (ledger db))"

definition grant_issues :: "'x partner_db_scheme \<Rightarrow> nat \<times> credit_grant \<Rightarrow> drift_issue list" where
  "grant_issues db = (\<lambda>(pk, g).
     case (entry_row (gr_debit g) (ledger db), entry_row (gr_credit g) (ledger db),
           map_of (channels db) (gr_channel g)) of
       (Some d, Some c, Some ch) \<Rightarrow>
         (case resolve_partner_settlement_account ch db of
            Inl _ \<Rightarrow> [GrantSettlementInvalid pk] | Inr _ \<Rightarrow> []) @
         (if reference_type d \<noteq> reference_value PARTNER_GRANT_OUT then [GrantDebitType pk] else []) @
         (if reference_type c \<noteq> reference_value PARTNER_GRANT_IN then [GrantCreditType pk] else []) @
         (case resolve_partner_settlement_account ch db of
            Inl _ \<Rightarrow> [] | Inr a \<Rightarrow> if entry_account d \<noteq> a then [GrantDebitAccount pk] else []) @
         (case map_of (accounts db) (entry_account c) of
            None \<Rightarrow> []
          | Some row \<Rightarrow>
              if acc_kind row \<noteq> PERSONAL then [GrantCreditNotPersonal pk]
              else if acc_user row \<noteq> Some (gr_customer g) then [GrantCreditCustomer pk] else []) @
         (if \<bar>delta d\<bar> \<noteq> gr_amount g \<or> delta c \<noteq> gr_amount g
          then [GrantAmounts pk (gr_amount g) (delta d) (delta c)] else []) @
         (if reference_id d \<noteq> str_nat pk \<or> reference_id c \<noteq> str_nat pk then [GrantReference pk] else [])
     | _ \<Rightarrow> [])"

definition grant_drift :: "'x partner_db_scheme \<Rightarrow> drift_issue list" where
  "grant_drift db =
     concat (map (grant_issues db) (credit_grants db)) @
     map GrantOutWithoutGrant (orphans PARTNER_GRANT_OUT (map (\<lambda>r. gr_debit (snd r)) (credit_grants db)) (ledger db)) @
     map GrantInWithoutGrant (orphans PARTNER_GRANT_IN (map (\<lambda>r. gr_credit (snd r)) (credit_grants db)) (ledger db))"

definition invite_drift :: "'x partner_db_scheme \<Rightarrow> drift_issue list" where
  "invite_drift db =
     map ChannelWithoutLink (filter (\<lambda>c. \<not> (\<exists>l \<in> set (invite_links db). link_channel (snd l) = c)) (map fst (channels db)))"

definition collect_partner_drift :: "'x partner_db_scheme \<Rightarrow> drift_issue list" where
  "collect_partner_drift db = accrual_drift db @ grant_drift db @ invite_drift db"

section \<open>Owners and settlement\<close>

text \<open>
  Settlement reads who owns an account and of which kind it is, never its balance: \<open>owners\<close> is
  that part of the table. A posting keeps it and provisioning appends to it.
\<close>

definition owners :: "'x credit_db_scheme \<Rightarrow> (nat \<times> nat option \<times> account_kind) list" where
  "owners db = map (\<lambda>r. (fst r, acc_user (snd r), acc_kind (snd r))) (accounts db)"

lemma owners_cong [simp]:
  "owners (db\<lparr>ledger := es\<rparr>) = owners db" "owners (db\<lparr>next_uuid := n\<rparr>) = owners db"
  "owners (db\<lparr>events := evs\<rparr>) = owners db" "owners (db\<lparr>accruals := acrs\<rparr>) = owners db"
  "owners (db\<lparr>credit_grants := grs\<rparr>) = owners db"
  by (simp_all add: owners_def)

lemma owners_update:
  "map_of (accounts db) a = Some row \<Longrightarrow> acc_user row' = acc_user row \<Longrightarrow> acc_kind row' = acc_kind row \<Longrightarrow>
   map (\<lambda>r. (fst r, acc_user (snd r), acc_kind (snd r))) (AList.update a row' (accounts db)) = owners db"
proof -
  have "map_of t a = Some row \<Longrightarrow> map (\<lambda>r. (fst r, acc_user (snd r), acc_kind (snd r))) (AList.update a row' t) =
      map (\<lambda>r. (fst r, acc_user (snd r), acc_kind (snd r))) t"
    if "acc_user row' = acc_user row" "acc_kind row' = acc_kind row" for t :: "(nat \<times> account) list"
    using that by (induction t) auto
  then show "map_of (accounts db) a = Some row \<Longrightarrow> acc_user row' = acc_user row \<Longrightarrow> acc_kind row' = acc_kind row \<Longrightarrow>
      map (\<lambda>r. (fst r, acc_user (snd r), acc_kind (snd r))) (AList.update a row' (accounts db)) = owners db"
    by (simp add: owners_def)
qed

lemma owners_post:
  assumes "(e, db') = post a row d rt rid key db" "map_of (accounts db) a = Some row"
  shows "owners db' = owners db"
  using owners_update [OF assms(2)] by (simp add: owners_def [of db'] post_simps(3) [OF assms(1)])

lemma owners_apply:
  assumes "apply_credit a amount rt rid key sign db = (r, db')"
  shows "owners db' = owners db"
proof (cases r)
  case (Inl e)
  then show ?thesis using assms by (auto dest: apply_error_unchanged)
next
  case (Inr e)
  then show ?thesis using assms apply_Inr [of a amount rt rid key sign db e db'] owners_post by fastforce
qed

lemma ledger_ok_partner [simp]:
  "ledger_ok (db\<lparr>accruals := acrs\<rparr>) = ledger_ok db" "ledger_ok (db\<lparr>credit_grants := grs\<rparr>) = ledger_ok db"
  by (simp_all add: ledger_ok_def entry_ok_def account_ok_def)

lemma keeps_ledger_partner [keeps_intros]:
  "keeps ledger_ok (insert_accrual pk acr)" "keeps ledger_ok (accrue_share att chk ch st sid l n)"
  "keeps ledger_ok (accrue env st sid lp np customer)" "keeps ledger_ok (insert_grant pk g)"
  "keeps ledger_ok (matching g' customer' amount)"
  "keeps ledger_ok (execute_locked seen actor chk source customer'' amount key)"
  "keeps ledger_ok (execute_grant actor chk source customer'' amount key)"
  "keeps ledger_ok (grant_from_account env actor chk source customer'' m key)"
  "keeps ledger_ok (grant_team env actor chr customer'' m key)"
proof -
  have i: "keeps ledger_ok (insert_accrual pk acr)" for pk acr
    unfolding insert_accrual_def by (intro keeps_intros) simp
  have s: "keeps ledger_ok (accrue_share att chk ch st sid l n)" for att chk ch l n
    unfolding accrue_share_def Let_def by (intro keeps_intros i)
  have a: "keeps ledger_ok (accrue env st sid lp np customer)"
    unfolding accrue_def by (intro keeps_intros s)
  have g: "keeps ledger_ok (insert_grant pk g)" for pk g
    unfolding insert_grant_def by (intro keeps_intros) simp
  have m: "keeps ledger_ok (matching g' customer' amount)" for g' customer' amount
    unfolding matching_def by (intro keeps_intros)
  have l: "keeps ledger_ok (execute_locked seen actor chk source customer'' amount key)" for seen chk source amount
    unfolding execute_locked_def require_current_channel_def lock_ordered_accounts_def
    by (intro keeps_intros g m)
  have e: "keeps ledger_ok (execute_grant actor chk source customer'' amount key)" for chk source amount
    unfolding execute_grant_def execute_seen_def by (intro keeps_intros l m)
  have t: "keeps ledger_ok (grant_team env actor chr customer'' m key)"
    unfolding grant_team_def require_grant_membership_def by (intro keeps_intros e)
  have f: "keeps ledger_ok (grant_from_account env actor chk source customer'' m key)"
    unfolding grant_from_account_def by (intro keeps_intros e)
  show "keeps ledger_ok (insert_accrual pk acr)" "keeps ledger_ok (accrue_share att chk ch st sid l n)"
    "keeps ledger_ok (accrue env st sid lp np customer)" "keeps ledger_ok (insert_grant pk g)"
    "keeps ledger_ok (matching g' customer' amount)"
    "keeps ledger_ok (execute_locked seen actor chk source customer'' amount key)"
    "keeps ledger_ok (execute_grant actor chk source customer'' amount key)"
    "keeps ledger_ok (grant_from_account env actor chk source customer'' m key)"
    "keeps ledger_ok (grant_team env actor chr customer'' m key)"
    by (fact i s a g m l e f t)+
qed

lemma balance_of_nonneg: "ledger_ok db \<Longrightarrow> 0 \<le> balance_of db a"
  using ledger_okD(6) [of db "(a, the (map_of (accounts db) a))"]
  by (cases "map_of (accounts db) a") (simp_all add: balance_of_def account_ok_def map_of_SomeD)

lemma find_owner:
  "find (\<lambda>q. fst (snd q) = Some u) (owners db) =
     map_option (\<lambda>r. (fst r, acc_user (snd r), acc_kind (snd r))) (account_of_user u (accounts db))"
proof -
  have "find (\<lambda>q. fst (snd q) = Some u) (map (\<lambda>r. (fst r, acc_user (snd r), acc_kind (snd r))) t) =
     map_option (\<lambda>r. (fst r, acc_user (snd r), acc_kind (snd r))) (find (\<lambda>r. acc_user (snd r) = Some u) t)"
    for t :: "(nat \<times> account) list"
    by (induction t) auto
  then show ?thesis by (simp add: owners_def account_of_user_def)
qed

lemma map_of_owner:
  "map_of (owners db) a = map_option (\<lambda>row. (acc_user row, acc_kind row)) (map_of (accounts db) a)"
proof -
  have "map_of (map (\<lambda>r. (fst r, acc_user (snd r), acc_kind (snd r))) t) a =
      map_option (\<lambda>row. (acc_user row, acc_kind row)) (map_of t a)" for t :: "(nat \<times> account) list"
    by (induction t) auto
  then show ?thesis by (simp add: owners_def)
qed

lemma personal_settlement_iff:
  "personal_settlement_account ch db = Inr a \<longleftrightarrow>
     (\<exists>u. ch_owner ch = Some u \<and>
        find (\<lambda>q. fst (snd q) = Some u) (owners db) = Some (a, Some u, PERSONAL) \<and>
        \<not> (\<exists>o' \<in> set (organizations db). org_account (snd o') = a))"
  by (auto simp: personal_settlement_account_def is_owner_personal_account_def find_owner
      split: option.splits if_splits)

lemma organization_settlement_iff:
  "organization_settlement_account ch db = Inr a \<longleftrightarrow>
     (\<exists>pk org. ch_org ch = Some pk \<and> map_of (organizations db) pk = Some org \<and> org_account org = a \<and>
        map_of (owners db) a = Some (None, ORGANIZATION) \<and>
        (\<exists>q. find (\<lambda>q. org_account (snd q) = a) (organizations db) = Some q \<and> fst q = pk))"
  by (auto simp: organization_settlement_account_def is_organization_account_def map_of_owner
      split: option.splits if_splits)

lemma find_append_Some: "find P xs = Some x \<Longrightarrow> find P (xs @ ys) = Some x"
  by (induction xs) (auto split: if_splits)

lemma find_in: "find P xs = Some x \<Longrightarrow> x \<in> set xs \<and> P x"
  by (auto simp: find_Some_iff in_set_conv_nth)

lemma resolve_grow:
  assumes "resolve_partner_settlement_account ch db = Inr a"
    and "owners db' = owners db @ xs" "organizations db' = organizations db"
  shows "resolve_partner_settlement_account ch db' = Inr a"
  using assms
  by (auto simp: resolve_partner_settlement_account_def personal_settlement_iff organization_settlement_iff
      map_add_Some_iff split: channel_kind.splits if_splits intro: find_append_Some)

lemma resolve_account:
  assumes "resolve_partner_settlement_account ch db = Inr a"
  shows "map_of (owners db) a \<noteq> None" "\<exists>row. map_of (accounts db) a = Some row"
proof -
  have "a \<in> fst ` set (owners db)"
    using assms
    by (auto simp: resolve_partner_settlement_account_def personal_settlement_iff organization_settlement_iff
        split: channel_kind.splits if_splits dest!: map_of_SomeD find_in) force+
  then show "map_of (owners db) a \<noteq> None" by (simp add: map_of_eq_None_iff)
  then show "\<exists>row. map_of (accounts db) a = Some row" by (auto simp: map_of_owner)
qed

section \<open>An empty drift report\<close>

lemma entry_row_append: "entry_row pk es = Some e \<Longrightarrow> entry_row pk (es @ xs) = Some e"
  by (simp add: entry_row_def find_append_Some)

lemma entry_row_Some: "entry_row pk es = Some e \<Longrightarrow> e \<in> set es \<and> entry_id e = pk"
  by (auto simp: entry_row_def dest: find_in)

lemma entry_row_in: "distinct (map entry_id es) \<Longrightarrow> e \<in> set es \<Longrightarrow> entry_row (entry_id e) es = Some e"
proof (induction es)
  case (Cons x es)
  then show ?case by (cases "x = e") (auto simp: entry_row_def image_iff)
qed simp

lemma orphans_Nil:
  "orphans rt claimed es = [] \<longleftrightarrow>
     (\<forall>e \<in> set es. reference_type e = reference_value rt \<longrightarrow> entry_id e \<in> set claimed)"
  by (auto simp: orphans_def filter_empty_conv)

lemma no_drift_iff:
  "collect_partner_drift db = [] \<longleftrightarrow>
     (\<forall>r \<in> set (accruals db). accrual_issues db r = []) \<and>
     (\<forall>r \<in> set (credit_grants db). grant_issues db r = []) \<and>
     (\<forall>e \<in> set (ledger db).
        (reference_type e = reference_value PARTNER_MARGIN \<longrightarrow>
           entry_id e \<in> (\<lambda>r. acr_entry (snd r)) ` set (accruals db)) \<and>
        (reference_type e = reference_value PARTNER_GRANT_OUT \<longrightarrow>
           entry_id e \<in> (\<lambda>r. gr_debit (snd r)) ` set (credit_grants db)) \<and>
        (reference_type e = reference_value PARTNER_GRANT_IN \<longrightarrow>
           entry_id e \<in> (\<lambda>r. gr_credit (snd r)) ` set (credit_grants db))) \<and>
     invite_drift db = []"
  by (auto simp: collect_partner_drift_def accrual_drift_def grant_drift_def orphans_Nil)

text \<open>
  \<open>partner_ok\<close>: the report is empty, the rows it follows exist, the ledger key of an accrual
  is in use only for a recorded accrual, and no grant key was posted for a grant still to come.
\<close>

definition partner_ok :: "'x partner_db_scheme \<Rightarrow> bool" where
  "partner_ok db \<longleftrightarrow>
     ledger_ok db \<and> collect_partner_drift db = [] \<and>
     (\<forall>q \<in> set (owners db). snd (snd q) = PERSONAL \<longleftrightarrow> fst (snd q) \<noteq> None) \<and>
     (\<forall>r \<in> set (channels db). channel_ok (snd r)) \<and>
     (\<forall>r \<in> set (accruals db). fst r < next_uuid db \<and> entry_row (acr_entry (snd r)) (ledger db) \<noteq> None) \<and>
     (\<forall>r \<in> set (credit_grants db). fst r < next_uuid db \<and> entry_row (gr_debit (snd r)) (ledger db) \<noteq> None \<and>
        entry_row (gr_credit (snd r)) (ledger db) \<noteq> None \<and> map_of (channels db) (gr_channel (snd r)) \<noteq> None) \<and>
     (\<forall>e \<in> set (ledger db). \<forall>st sid. entry_key e = accrual_key st sid \<longrightarrow> find_accrual st sid (accruals db) \<noteq> None) \<and>
     tag_fresh ''partner-grant-out:'' db \<and> tag_fresh ''partner-grant-in:'' db"

lemma partner_okD:
  assumes "partner_ok db"
  shows "ledger_ok db" "collect_partner_drift db = []"
    "\<And>q. q \<in> set (owners db) \<Longrightarrow> snd (snd q) = PERSONAL \<longleftrightarrow> fst (snd q) \<noteq> None"
    "\<And>r. r \<in> set (channels db) \<Longrightarrow> channel_ok (snd r)"
    "\<And>r. r \<in> set (accruals db) \<Longrightarrow> fst r < next_uuid db \<and> entry_row (acr_entry (snd r)) (ledger db) \<noteq> None"
    "\<And>r. r \<in> set (credit_grants db) \<Longrightarrow> fst r < next_uuid db \<and> entry_row (gr_debit (snd r)) (ledger db) \<noteq> None \<and>
        entry_row (gr_credit (snd r)) (ledger db) \<noteq> None \<and> map_of (channels db) (gr_channel (snd r)) \<noteq> None"
    "\<And>e st sid. e \<in> set (ledger db) \<Longrightarrow> entry_key e = accrual_key st sid \<Longrightarrow> find_accrual st sid (accruals db) \<noteq> None"
    "tag_fresh ''partner-grant-out:'' db" "tag_fresh ''partner-grant-in:'' db"
  using assms by (simp_all add: partner_ok_def)

lemma accrual_issues_grow:
  assumes "ledger db' = ledger db @ es" "entry_row (acr_entry (snd r)) (ledger db) \<noteq> None"
  shows "accrual_issues db' r = accrual_issues db r"
  using assms by (auto simp: accrual_issues_def entry_row_append split: prod.splits)

lemma grant_issues_grow:
  assumes "ledger db' = ledger db @ es" "owners db' = owners db @ xs" "organizations db' = organizations db"
    and "channels db' = channels db" "grant_issues db r = []"
    and "entry_row (gr_debit (snd r)) (ledger db) = Some d" "entry_row (gr_credit (snd r)) (ledger db) = Some c"
    and "map_of (channels db) (gr_channel (snd r)) = Some ch" "map_of (accounts db) (entry_account c) = Some row"
  shows "grant_issues db' r = []"
proof -
  obtain a where a: "resolve_partner_settlement_account ch db = Inr a"
    using assms by (auto simp: grant_issues_def split: prod.splits sum.splits if_splits)
  have "map_of (owners db') (entry_account c) = Some (acc_user row, acc_kind row)"
    using assms by (simp add: map_add_Some_iff map_of_owner [of db])
  then obtain row' where row': "map_of (accounts db') (entry_account c) = Some row'"
    "acc_user row' = acc_user row" "acc_kind row' = acc_kind row"
    by (auto simp: map_of_owner)
  show ?thesis
    using assms(5-) a resolve_grow [OF a assms(2,3)] row'
    by (simp add: grant_issues_def assms(1,4) entry_row_append split: prod.splits if_splits)
qed

section \<open>What an accrual does\<close>

definition margin_share :: "rat \<Rightarrow> rat \<Rightarrow> rat \<Rightarrow> rat" where
  "margin_share lp np percent = quantize_half_up MONEY_QUANT ((lp - np) * percent / 100)"

lemma normalize_quantized:
  "normalize_amount (DecimalArg (Finite (quantize_half_up MONEY_QUANT v))) = Inr x \<Longrightarrow>
   x = quantize_half_up MONEY_QUANT v"
  by (drule normalize_amount_Inr(4)) (simp add: micro.quantize_idem)

text \<open>The stored row: the price columns are rounded to six places.\<close>

definition accrual_row ::
  "nat \<times> attribution \<Rightarrow> nat \<Rightarrow> channel \<Rightarrow> source_type \<Rightarrow> string \<Rightarrow> rat \<Rightarrow> rat \<Rightarrow> nat \<Rightarrow> accrual" where
  "accrual_row att chk ch st sid l n e =
     \<lparr>acr_channel = chk, acr_customer = att_user (snd att), acr_attribution = fst att, acr_type = st,
      acr_source = sid, acr_list = quantize_half_up MONEY_QUANT l, acr_net = quantize_half_up MONEY_QUANT n,
      acr_margin = quantize_half_up MONEY_QUANT (l - n), acr_percent = revenue_share_percent ch,
      acr_share = margin_share l n (revenue_share_percent ch), acr_entry = e\<rparr>"

lemma insert_accrual_Inr:
  assumes "insert_accrual pk row db = (Inr u, db')"
  shows "find_accrual (acr_type row) (acr_source row) (accruals db) = None \<and>
    db' = db\<lparr>accruals := accruals db @ [(pk, row\<lparr>acr_list := quantize_half_up MONEY_QUANT (acr_list row),
      acr_net := quantize_half_up MONEY_QUANT (acr_net row),
      acr_margin := quantize_half_up MONEY_QUANT (acr_margin row)\<rparr>)]\<rparr>"
  using assms by (auto simp: insert_accrual_def txn_iff numeric_20_6_def Let_def split: if_splits)

lemma accrue_share_Inr:
  assumes "accrue_share att chk ch st sid l n db = (Inr r, db')" "\<not> key_used db (accrual_key st sid)"
  shows "r = None \<and> db' = db \<and> margin_share l n (revenue_share_percent ch) = 0 \<or>
    (\<exists>a row e db1. r = Some (next_uuid db) \<and> resolve_partner_settlement_account ch db = Inr a \<and>
       map_of (accounts db) a = Some row \<and> 0 < margin_share l n (revenue_share_percent ch) \<and>
       find_accrual st sid (accruals db) = None \<and>
       balance row + margin_share l n (revenue_share_percent ch) < NUMERIC_20_6 \<and>
       (e, db1) = post a row (margin_share l n (revenue_share_percent ch)) (reference_value PARTNER_MARGIN)
         (str_nat (next_uuid db)) (accrual_key st sid) (db\<lparr>next_uuid := Suc (next_uuid db)\<rparr>) \<and>
       0 \<le> balance row + margin_share l n (revenue_share_percent ch) \<and>
       normalize_amount (DecimalArg (Finite (margin_share l n (revenue_share_percent ch)))) =
         Inr (margin_share l n (revenue_share_percent ch)) \<and>
       db' = db1\<lparr>accruals := accruals db @ [(next_uuid db, accrual_row att chk ch st sid l n (entry_id e))]\<rparr>)"
proof -
  let ?share = "margin_share l n (revenue_share_percent ch)"
  let ?db = "db\<lparr>next_uuid := Suc (next_uuid db)\<rparr>"
  consider "r = None" "db' = db" "?share = 0"
  | a e db1 where "?share \<noteq> 0" "resolve_partner_settlement_account ch db = Inr a"
    "credit a (DecimalArg (Finite ?share)) (RefEnum PARTNER_MARGIN) (str_nat (next_uuid db)) (accrual_key st sid) ?db = (Inr e, db1)"
    "insert_accrual (next_uuid db)
       \<lparr>acr_channel = chk, acr_customer = att_user (snd att), acr_attribution = fst att, acr_type = st,
        acr_source = sid, acr_list = l, acr_net = n, acr_margin = l - n, acr_percent = revenue_share_percent ch,
        acr_share = ?share, acr_entry = entry_id e\<rparr> db1 = (Inr (), db')" "r = Some (next_uuid db)"
    using assms(1)
    by (auto simp: accrue_share_def Let_def txn_iff uuid4_def py_quantize_def margin_share_def split: if_splits)
  then show ?thesis
  proof cases
    case (2 a e db1)
    have key: "find_entry (accrual_key st sid) (ledger ?db) = None" using assms(2) by (simp add: key_used_def)
    obtain x row where x: "normalize_amount (DecimalArg (Finite ?share)) = Inr x" "map_of (accounts db) a = Some row"
      "balance row + x < NUMERIC_20_6" "0 \<le> balance row + x"
      "(e, db1) = post a row x (reference_value PARTNER_MARGIN) (str_nat (next_uuid db)) (accrual_key st sid) ?db"
      using apply_Inr [OF 2(3) [unfolded credit_def]] key by auto
    have share: "x = ?share" using x(1) unfolding margin_share_def by (rule normalize_quantized)
    have same: "accruals db1 = accruals db" using x(5) by (simp add: post_def Let_def)
    have pos: "0 < ?share" using normalize_amount_Inr(1) [OF x(1)] share by simp
    show ?thesis
      by (rule disjI2, rule exI [of _ a], rule exI [of _ row], rule exI [of _ e], rule exI [of _ db1])
        (use 2 x pos insert_accrual_Inr [OF 2(4)] in \<open>simp add: share same accrual_row_def\<close>)
  qed simp
qed

lemma price_skip_None:
  "price_skip lp np pct = None \<longleftrightarrow> (\<exists>l n. lp = Some l \<and> np = Some n \<and> 0 \<le> n \<and> n \<le> l \<and> 0 < pct)"
  by (auto simp: price_skip_def split: option.splits)

text \<open>An accrual skips, replays or runs \<open>accrue_share\<close> under its guards.\<close>

lemma accrue_Inr:
  assumes "accrue env st sid lp np customer db = (Inr r, db')"
  shows "db' = db \<and> (r = None \<or> (\<exists>q. find_accrual st sid (accruals db) = Some q \<and> r = Some (fst q))) \<or>
    (\<exists>u att ch l n. customer = Some u \<and> attribution_of u (attributions db) = Some att \<and>
       map_of (channels db) (att_channel (snd att)) = Some ch \<and> find_accrual st sid (accruals db) = None \<and>
       ch_active ch \<and> partner_channel_can_accrue_for_customer db ch u \<and> lp = Some l \<and> np = Some n \<and>
       0 \<le> n \<and> n \<le> l \<and> 0 < revenue_share_percent ch \<and>
       accrue_share att (att_channel (snd att)) ch st sid l n db = (Inr r, db'))"
proof (cases "\<exists>u att ch. PARTNER_CHANNEL_ENABLED env \<and> customer = Some u \<and>
    attribution_of u (attributions db) = Some att \<and> map_of (channels db) (att_channel (snd att)) = Some ch \<and>
    find_accrual st sid (accruals db) = None \<and> ch_active ch \<and> partner_channel_can_accrue_for_customer db ch u \<and>
    price_skip lp np (revenue_share_percent ch) = None")
  case True
  then show ?thesis
    using assms by (auto simp: accrue_def txn_iff price_skip_None split: option.splits if_splits)
next
  case False
  then show ?thesis
    using assms by (auto simp: accrue_def txn_iff split: option.splits if_splits)
qed

lemma accrual_key_inject: "accrual_key st sid = accrual_key st' sid' \<longleftrightarrow> st = st' \<and> sid = sid'"
proof -
  have sep: "CHR '':'' \<notin> set (source_value s)" "source_value s = source_value s' \<longleftrightarrow> s = s'" for s s'
    by (cases s; cases s'; simp)+
  have "accrual_key st sid = accrual_key st' sid' \<longleftrightarrow>
      source_value st @ CHR '':'' # sid = source_value st' @ CHR '':'' # sid'"
    by (simp add: accrual_key_def)
  then show ?thesis by (simp add: colon_split sep)
qed

lemma accrual_key_not_grant:
  "accrual_key st sid \<noteq> ''partner-grant-out:'' @ s" "accrual_key st sid \<noteq> ''partner-grant-in:'' @ s"
  by (simp_all add: accrual_key_def)

lemma partner_ok_fresh_key:
  "partner_ok db \<Longrightarrow> find_accrual st sid (accruals db) = None \<Longrightarrow> \<not> key_used db (accrual_key st sid)"
proof -
  assume ok: "partner_ok db" "find_accrual st sid (accruals db) = None"
  have "accrual_key st sid \<notin> entry_key ` set (ledger db)"
    using partner_okD(7) [OF ok(1), of _ st sid] ok(2) by force
  then show "\<not> key_used db (accrual_key st sid)" by (simp add: key_used_def find_entry_None)
qed

lemma find_accrual_append:
  "find_accrual st sid (rows @ rs) =
     (case find_accrual st sid rows of Some q \<Rightarrow> Some q | None \<Rightarrow> find_accrual st sid rs)"
  unfolding find_accrual_def by (induction rows) auto

lemma find_accrual_one [simp]:
  "find_accrual st sid [r] = (if acr_type (snd r) = st \<and> acr_source (snd r) = sid then Some r else None)"
  by (simp add: find_accrual_def)

text \<open>
  One lemma for every operation: the tables grow at the end, and the new rows answer for
  the new ledger entries.
\<close>

lemma partner_ok_extend:
  assumes ok: "partner_ok db" and led: "ledger_ok db'"
    and grow: "ledger db' = ledger db @ es" "owners db' = owners db @ xs"
      "organizations db' = organizations db" "channels db' = channels db" "invite_links db' = invite_links db"
      "accruals db' = accruals db @ acs" "credit_grants db' = credit_grants db @ grs" "next_uuid db \<le> next_uuid db'"
    and acs: "\<And>r. r \<in> set acs \<Longrightarrow> fst r < next_uuid db' \<and> accrual_issues db' r = [] \<and>
      entry_row (acr_entry (snd r)) (ledger db') \<noteq> None"
    and grs: "\<And>r. r \<in> set grs \<Longrightarrow> fst r < next_uuid db' \<and> grant_issues db' r = [] \<and>
      entry_row (gr_debit (snd r)) (ledger db') \<noteq> None \<and> entry_row (gr_credit (snd r)) (ledger db') \<noteq> None \<and>
      map_of (channels db) (gr_channel (snd r)) \<noteq> None"
    and es: "\<And>e. e \<in> set es \<Longrightarrow>
      (reference_type e = reference_value PARTNER_MARGIN \<longrightarrow> entry_id e \<in> (\<lambda>r. acr_entry (snd r)) ` set acs) \<and>
      (reference_type e = reference_value PARTNER_GRANT_OUT \<longrightarrow> entry_id e \<in> (\<lambda>r. gr_debit (snd r)) ` set grs) \<and>
      (reference_type e = reference_value PARTNER_GRANT_IN \<longrightarrow> entry_id e \<in> (\<lambda>r. gr_credit (snd r)) ` set grs)"
    and keys: "\<And>e st sid. e \<in> set es \<Longrightarrow> entry_key e = accrual_key st sid \<Longrightarrow> find_accrual st sid (accruals db') \<noteq> None"
    and tags: "tag_fresh ''partner-grant-out:'' db'" "tag_fresh ''partner-grant-in:'' db'"
    and kinds: "\<And>q. q \<in> set xs \<Longrightarrow> snd (snd q) = PERSONAL \<longleftrightarrow> fst (snd q) \<noteq> None"
  shows "partner_ok db'"
proof -
  note D = partner_okD [OF ok]
  have clean: "\<And>r. r \<in> set (accruals db) \<Longrightarrow> accrual_issues db r = []"
    "\<And>r. r \<in> set (credit_grants db) \<Longrightarrow> grant_issues db r = []" "invite_drift db = []"
    using D(2) by (simp_all add: no_drift_iff)
  have a: "accrual_issues db' r = [] \<and> fst r < next_uuid db' \<and> entry_row (acr_entry (snd r)) (ledger db') \<noteq> None"
    if "r \<in> set (accruals db')" for r
  proof (cases "r \<in> set acs")
    case False
    then have old: "r \<in> set (accruals db)" using that grow(6) by auto
    obtain e where "entry_row (acr_entry (snd r)) (ledger db) = Some e" using D(5) [OF old] by auto
    then show ?thesis
      using D(5) [OF old] clean(1) [OF old] accrual_issues_grow [OF grow(1), of r] grow(8)
      by (simp add: grow(1) entry_row_append)
  qed (use acs in blast)
  have g: "grant_issues db' r = [] \<and> fst r < next_uuid db' \<and> entry_row (gr_debit (snd r)) (ledger db') \<noteq> None \<and>
      entry_row (gr_credit (snd r)) (ledger db') \<noteq> None \<and> map_of (channels db') (gr_channel (snd r)) \<noteq> None"
    if "r \<in> set (credit_grants db')" for r
  proof (cases "r \<in> set grs")
    case False
    then have old: "r \<in> set (credit_grants db)" using that grow(7) by auto
    obtain d c ch where rows: "entry_row (gr_debit (snd r)) (ledger db) = Some d"
        "entry_row (gr_credit (snd r)) (ledger db) = Some c" "map_of (channels db) (gr_channel (snd r)) = Some ch"
      using D(6) [OF old] by auto
    have "entry_account c \<in> fst ` set (accounts db)"
      using ledger_okD(5) [OF D(1)] entry_row_Some [OF rows(2)] by (auto simp: entry_ok_def)
    then obtain row where "map_of (accounts db) (entry_account c) = Some row"
      by (metis map_of_eq_None_iff not_Some_eq)
    then have "grant_issues db' r = []"
      using grant_issues_grow [OF grow(1,2,3,4) clean(2) [OF old] rows] by blast
    then show ?thesis using rows D(6) [OF old] grow(8) by (auto simp: grow(1,4) entry_row_append)
  qed (use grs grow(4) in simp)
  have o: "(reference_type e = reference_value PARTNER_MARGIN \<longrightarrow> entry_id e \<in> (\<lambda>r. acr_entry (snd r)) ` set (accruals db')) \<and>
      (reference_type e = reference_value PARTNER_GRANT_OUT \<longrightarrow> entry_id e \<in> (\<lambda>r. gr_debit (snd r)) ` set (credit_grants db')) \<and>
      (reference_type e = reference_value PARTNER_GRANT_IN \<longrightarrow> entry_id e \<in> (\<lambda>r. gr_credit (snd r)) ` set (credit_grants db'))"
    if "e \<in> set (ledger db')" for e
    using that es [of e] D(2) unfolding no_drift_iff grow(1,6,7) by (auto simp: image_Un)
  have i: "invite_drift db' = []" using clean(3) by (simp add: invite_drift_def grow)
  have k: "find_accrual st sid (accruals db') \<noteq> None"
    if "e \<in> set (ledger db')" "entry_key e = accrual_key st sid" for e st sid
    using that keys [of e st sid] D(7) [of e st sid] by (auto simp: grow(1,6) find_accrual_append split: option.splits)
  show ?thesis
    unfolding partner_ok_def no_drift_iff
    using led a g o i k tags kinds D(3,4) by (auto simp: grow(2,4))
qed

lemma tag_fresh_grow:
  assumes "tag_fresh tag db" "ledger db' = ledger db @ es" "next_uuid db \<le> next_uuid db'"
    and "\<And>e n. e \<in> set es \<Longrightarrow> entry_key e = tag @ str_nat n \<Longrightarrow> n < next_uuid db'"
  shows "tag_fresh tag db'"
  using assms unfolding tag_fresh_def by (metis UnE order_less_le_trans set_append)

lemma post_types:
  assumes "(e, db') = post a row d rt rid key db"
  shows "reference_type e = rt" "reference_id e = rid" "entry_key e = key" "delta e = d" "entry_id e = next_uuid db"
    "entry_account e = a" "balance_after e = balance row + d"
  using assms by (auto simp: post_def Let_def new_entry_def)

lemma accrue_partner_ok:
  assumes ok: "partner_ok db" and run: "accrue env st sid lp np customer db = (Inr r, db')"
  shows "partner_ok db'"
  using accrue_Inr [OF run]
proof (elim disjE exE conjE)
  fix u att ch l n
  assume fresh: "find_accrual st sid (accruals db) = None"
    and share: "accrue_share att (att_channel (snd att)) ch st sid l n db = (Inr r, db')"
  note D = partner_okD [OF ok]
  from accrue_share_Inr [OF share partner_ok_fresh_key [OF ok fresh]] show ?thesis
  proof (elim disjE exE conjE)
    fix a and row :: account and e :: ledger_entry and db1
    let ?share = "margin_share l n (revenue_share_percent ch)"
    let ?db = "db\<lparr>next_uuid := Suc (next_uuid db)\<rparr>"
    let ?new = "(next_uuid db, accrual_row att (att_channel (snd att)) ch st sid l n (entry_id e))"
    assume row: "map_of (accounts db) a = Some row" "balance row + ?share < NUMERIC_20_6" "0 \<le> balance row + ?share"
      and pos: "0 < ?share" and norm: "normalize_amount (DecimalArg (Finite ?share)) = Inr ?share"
      and post: "(e, db1) = post a row ?share (reference_value PARTNER_MARGIN) (str_nat (next_uuid db)) (accrual_key st sid) ?db"
      and db': "db' = db1\<lparr>accruals := accruals db @ [?new]\<rparr>"
    note e = post_types [OF post] post_simps(2,4) [OF post]
    have led1: "ledger_ok db1"
      by (rule post_ledger_ok [OF ledger_ok_next_uuid [OF D(1)] _ _ _ _ _ row(3,2) post])
        (use row pos normalize_amount_Inr [OF norm] partner_ok_fresh_key [OF ok fresh] in
          \<open>simp_all add: key_used_def accrual_key_def\<close>)
    have led: "ledger_ok db'" using led1 by (simp add: db')
    have frame: "organizations db1 = organizations db" "channels db1 = channels db" "invite_links db1 = invite_links db"
        "credit_grants db1 = credit_grants db"
      using post by (simp_all add: post_def Let_def)
    have own: "owners db1 = owners db" using owners_post [OF post] row by simp
    have row_e: "entry_row (entry_id e) (ledger db') = Some e"
      by (rule entry_row_in) (use ledger_okD(3) [OF led] e in \<open>simp_all add: db'\<close>)
    have tag: "tag_fresh ''partner-grant-out:'' db'" "tag_fresh ''partner-grant-in:'' db'"
      by (rule tag_fresh_grow [OF D(8), of _ "[e]"] tag_fresh_grow [OF D(9), of _ "[e]"];
          use accrual_key_not_grant [of st sid] e in \<open>auto simp: db'\<close>)+
    show ?thesis
    proof (rule partner_ok_extend [OF ok led, of "[e]" "[]" "[?new]" "[]"])
      fix r assume "r \<in> set [?new]"
      then show "fst r < next_uuid db' \<and> accrual_issues db' r = [] \<and> entry_row (acr_entry (snd r)) (ledger db') \<noteq> None"
        using row_e by (simp add: accrual_issues_def accrual_row_def e db')
    next
      fix e' st' sid' assume "e' \<in> set [e]" "entry_key e' = accrual_key st' sid'"
      then show "find_accrual st' sid' (accruals db') \<noteq> None"
        using fresh by (auto simp: e accrual_key_inject db' find_accrual_append accrual_row_def)
    qed (use tag own frame e in \<open>simp_all add: db' accrual_row_def\<close>)
  qed (use ok in simp_all)
qed (use ok in simp_all)

section \<open>What a grant does\<close>

lemma find_append: "find P (xs @ ys) = (case find P xs of None \<Rightarrow> find P ys | Some x \<Rightarrow> Some x)"
  by (induction xs) auto

lemma balance_of_tables [simp]:
  "balance_of (db\<lparr>next_uuid := n\<rparr>) = balance_of db" "balance_of (db\<lparr>accruals := acrs\<rparr>) = balance_of db"
  "balance_of (db\<lparr>credit_grants := grs\<rparr>) = balance_of db"
  by (simp_all add: balance_of_def [abs_def])

lemma ensure_account_Inr:
  assumes "ensure_billing_account u db = (Inr a, db')" "ledger_ok db"
  shows "ledger_ok db' \<and> ledger db' = ledger db \<and> balance_of db' = balance_of db \<and> next_uuid db \<le> next_uuid db' \<and>
    (\<exists>xs. owners db' = owners db @ xs \<and> set xs \<subseteq> {(a, Some u, PERSONAL)}) \<and>
    (\<exists>kd. find (\<lambda>q. fst (snd q) = Some u) (owners db') = Some (a, Some u, kd)) \<and>
    (\<exists>as n. db' = db\<lparr>accounts := as, next_uuid := n\<rparr>)"
proof -
  let ?row = "\<lparr>acc_user = Some u, acc_kind = PERSONAL, balance = 0, version = 0, acc_profile = None\<rparr>"
  have new: "next_uuid db \<notin> fst ` set (accounts db)"
    using ledger_okD(6) [OF assms(2)] by (force simp: account_ok_def)
  have ok: "ledger_ok db'" by (rule keepsD [OF keeps_ledger_ensure assms(2,1)])
  consider row where "account_of_user u (accounts db) = Some (a, row)" "db' = db"
    | "account_of_user u (accounts db) = None" "a = next_uuid db"
      "db' = db\<lparr>accounts := accounts db @ [(a, ?row)], next_uuid := Suc a\<rparr>"
    using assms(1) new
    by (auto simp: ensure_billing_account_def txn_iff uuid4_def save_account_def AList_update_new
        split: option.splits)
  then show ?thesis
  proof cases
    case (1 row)
    then have "acc_user row = Some u" using fst_account_of_user by fastforce
    then have "\<exists>kd. find (\<lambda>q. fst (snd q) = Some u) (owners db) = Some (a, Some u, kd)"
      using 1 by (simp add: find_owner)
    moreover have "\<exists>as n. db = db\<lparr>accounts := as, next_uuid := n\<rparr>"
      by (intro exI [of _ "accounts db"] exI [of _ "next_uuid db"]) simp
    ultimately show ?thesis using 1(2) ok by simp
  next
    case 2
    have own: "owners db' = owners db @ [(a, Some u, PERSONAL)]" by (simp add: 2(3) owners_def)
    have found: "find (\<lambda>q. fst (snd q) = Some u) (owners db') = Some (a, Some u, PERSONAL)"
      using 2(1) unfolding own by (simp add: find_owner find_append)
    have bal: "balance_of db' b = balance_of db b" for b
      using new by (auto simp: 2(2,3) balance_of_def map_add_def split: option.splits dest: map_of_in_keys)
    show ?thesis using ok own found bal by (auto simp: 2(2,3) fun_eq_iff)
  qed
qed

lemma lock_ordered_Inr:
  "lock_ordered_accounts s d db = (Inr (x, y), db') \<longleftrightarrow>
     db' = db \<and> s \<noteq> d \<and> map_of (accounts db) s = Some x \<and> map_of (accounts db) d = Some y"
  by (auto simp: lock_ordered_accounts_def txn_iff split: option.splits)

lemma execute_locked_Inr:
  assumes "execute_locked seen actor chk source customer amount key db = (Inr pk, db')"
    and "existing_grant chk key seen = None"
  obtains att db0 dest x y out inn db1 db2 where
    "attribution_of customer (attributions db) = Some att" "att_channel (snd att) = chk"
    "ensure_billing_account customer db = (Inr dest, db0)" "source \<noteq> dest" "0 \<le> balance x"
    "map_of (accounts db0) source = Some x" "map_of (accounts db0) dest = Some y" "pk = next_uuid db0"
    "debit source (DecimalArg (Finite amount)) (RefEnum PARTNER_GRANT_OUT) (str_nat pk)
       (''partner-grant-out:'' @ str_nat pk) (db0\<lparr>next_uuid := Suc pk\<rparr>) = (Inr out, db1)"
    "credit dest (DecimalArg (Finite amount)) (RefEnum PARTNER_GRANT_IN) (str_nat pk)
       (''partner-grant-in:'' @ str_nat pk) db1 = (Inr inn, db2)"
    "existing_grant chk key (credit_grants db2) = None" "0 < amount"
    "db' = db2\<lparr>credit_grants := credit_grants db2 @ [(pk,
       \<lparr>gr_channel = chk, gr_customer = customer, gr_attribution = fst att, gr_by = actor,
        gr_amount = amount, gr_key = key, gr_debit = entry_id out, gr_credit = entry_id inn\<rparr>)]\<rparr>"
proof -
  obtain att db0 dest x y out inn db1 db2 where
    *: "attribution_of customer (attributions db) = Some att" "att_channel (snd att) = chk"
    "ensure_billing_account customer db = (Inr dest, db0)"
    "lock_ordered_accounts source dest db0 = (Inr (x, y), db0)" "0 \<le> balance x" "pk = next_uuid db0"
    "debit source (DecimalArg (Finite amount)) (RefEnum PARTNER_GRANT_OUT) (str_nat pk)
       (''partner-grant-out:'' @ str_nat pk) (db0\<lparr>next_uuid := Suc pk\<rparr>) = (Inr out, db1)"
    "credit dest (DecimalArg (Finite amount)) (RefEnum PARTNER_GRANT_IN) (str_nat pk)
       (''partner-grant-in:'' @ str_nat pk) db1 = (Inr inn, db2)"
    "insert_grant pk \<lparr>gr_channel = chk, gr_customer = customer, gr_attribution = fst att, gr_by = actor,
        gr_amount = amount, gr_key = key, gr_debit = entry_id out, gr_credit = entry_id inn\<rparr> db2 = (Inr (), db')"
    using assms
    by (auto simp: execute_locked_def require_current_channel_def txn_iff uuid4_def lock_ordered_Inr
        split: option.splits if_splits)
  from *(9) have "existing_grant chk key (credit_grants db2) = None \<and> 0 < amount \<and>
      db' = db2\<lparr>credit_grants := credit_grants db2 @ [(pk,
       \<lparr>gr_channel = chk, gr_customer = customer, gr_attribution = fst att, gr_by = actor,
        gr_amount = amount, gr_key = key, gr_debit = entry_id out, gr_credit = entry_id inn\<rparr>)]\<rparr>"
    by (auto simp: insert_grant_def txn_iff split: if_splits)
  then show thesis using * by (intro that [of att dest db0 x y out db1 inn db2]) (auto simp: lock_ordered_Inr)
qed

lemma grant_tags_distinct: "''partner-grant-out:'' @ s \<noteq> ''partner-grant-in:'' @ t"
  by simp

lemma debit_frame': "debit a m r i k db = (q, db') \<Longrightarrow>
   \<exists>as es n. db' = db\<lparr>accounts := as, ledger := es, next_uuid := n\<rparr> \<and> next_uuid db \<le> n"
  by (drule debit_frame) blast

lemma credit_frame': "credit a m r i k db = (q, db') \<Longrightarrow>
   \<exists>as es n. db' = db\<lparr>accounts := as, ledger := es, next_uuid := n\<rparr> \<and> next_uuid db \<le> n"
  by (drule credit_frame) blast

text \<open>The money: a grant that is new moves the amount from one account to the other.\<close>

lemma execute_locked_moves:
  assumes "execute_locked seen actor chk source customer amount key db = (Inr pk, db')"
    and "existing_grant chk key seen = None" "ledger_ok db"
    and "tag_fresh ''partner-grant-out:'' db" "tag_fresh ''partner-grant-in:'' db"
  shows "\<exists>dest x. source \<noteq> dest \<and> normalize_amount (DecimalArg (Finite amount)) = Inr x \<and>
    (\<exists>kd. find (\<lambda>q. fst (snd q) = Some customer) (owners db') = Some (dest, Some customer, kd)) \<and>
    balance_of db' = (balance_of db)(source := balance_of db source - x, dest := balance_of db dest + x)"
  using assms(1,2)
proof (rule execute_locked_Inr)
  fix att db0 dest x y out inn db1 db2
  assume ens: "ensure_billing_account customer db = (Inr dest, db0)" and ne: "source \<noteq> dest" and pk: "pk = next_uuid db0"
    and out: "debit source (DecimalArg (Finite amount)) (RefEnum PARTNER_GRANT_OUT) (str_nat pk)
       (''partner-grant-out:'' @ str_nat pk) (db0\<lparr>next_uuid := Suc pk\<rparr>) = (Inr out, db1)"
    and inn: "credit dest (DecimalArg (Finite amount)) (RefEnum PARTNER_GRANT_IN) (str_nat pk)
       (''partner-grant-in:'' @ str_nat pk) db1 = (Inr inn, db2)"
    and db': "db' = db2\<lparr>credit_grants := credit_grants db2 @ [(pk,
       \<lparr>gr_channel = chk, gr_customer = customer, gr_attribution = fst att, gr_by = actor,
        gr_amount = amount, gr_key = key, gr_debit = entry_id out, gr_credit = entry_id inn\<rparr>)]\<rparr>"
  note E = ensure_account_Inr [OF ens assms(3)]
  have fresh: "\<not> key_used (db0\<lparr>next_uuid := Suc pk\<rparr>) (''partner-grant-out:'' @ str_nat pk)"
    "\<not> key_used (db0\<lparr>next_uuid := Suc pk\<rparr>) (''partner-grant-in:'' @ str_nat pk)"
    using tag_freshD [OF assms(4), of pk] tag_freshD [OF assms(5), of pk] E
    by (simp_all add: key_used_def pk)
  from port.transfer_moves [OF out inn fresh grant_tags_distinct ne]
  obtain x where x: "normalize_amount (DecimalArg (Finite amount)) = Inr x"
    "balance_of db2 = (balance_of (db0\<lparr>next_uuid := Suc pk\<rparr>))
       (source := balance_of (db0\<lparr>next_uuid := Suc pk\<rparr>) source - x, dest := balance_of (db0\<lparr>next_uuid := Suc pk\<rparr>) dest + x)"
    by blast
  have "balance_of db' = (balance_of db)(source := balance_of db source - x, dest := balance_of db dest + x)"
    using x(2) E by (simp add: db')
  moreover have "owners db' = owners db0"
    using owners_apply [OF out [unfolded debit_def]] owners_apply [OF inn [unfolded credit_def]] by (simp add: db')
  ultimately show ?thesis using E ne x(1) by (intro exI [of _ dest] exI [of _ x]) simp
qed

lemma normalize_fixed:
  "normalize_amount m = Inr x \<Longrightarrow> normalize_amount (DecimalArg (Finite x)) = Inr x"
proof -
  assume n: "normalize_amount m = Inr x"
  have "quantize_half_up MONEY_QUANT x = x" using normalize_amount_Inr(3) [OF n] by (rule micro.quantize_fixes_grid)
  then show ?thesis
    using normalize_amount_Inr(1,2) [OF n]
    by (simp add: normalize_amount_def py_quantize_def NUMERIC_20_6_def MONEY_QUANT_def DECIMAL_PREC_def)
qed

lemma apply_posted:
  assumes "apply_credit a amount rt rid key sign db = (Inr e, db')" "\<not> key_used db key" "normalize_amount amount = Inr x"
    "normalize_reference_type rt = Inr rtv" "ledger_ok db"
  obtains row where "map_of (accounts db) a = Some row" "(e, db') = post a row (signed sign x) rtv rid key db" "ledger_ok db'"
proof -
  obtain row where "map_of (accounts db) a = Some row" "(e, db') = post a row (signed sign x) rtv rid key db"
    using apply_Inr [OF assms(1)] assms(2,3,4) by (auto simp: key_used_def)
  moreover have "ledger_ok db'" by (rule keepsD [OF keeps_ledger_apply assms(5,1)])
  ultimately show thesis by (rule that)
qed

lemma execute_locked_partner_ok:
  assumes ok: "partner_ok db" and run: "execute_locked seen actor chk source customer amount key db = (Inr pk, db')"
    and new: "existing_grant chk key seen = None"
    and ch: "map_of (channels db) chk = Some ch" "resolve_partner_settlement_account ch db = Inr source"
    and norm: "normalize_amount (DecimalArg (Finite amount)) = Inr amount"
  shows "partner_ok db'"
  using run new
proof (rule execute_locked_Inr)
  fix att :: "nat \<times> attribution" and db0 dest and x y :: account and out inn :: ledger_entry and db1 db2
  let ?g = "\<lparr>gr_channel = chk, gr_customer = customer, gr_attribution = fst att, gr_by = actor,
        gr_amount = amount, gr_key = key, gr_debit = entry_id out, gr_credit = entry_id inn\<rparr>"
  assume ens: "ensure_billing_account customer db = (Inr dest, db0)" and ne: "source \<noteq> dest" and pk: "pk = next_uuid db0"
    and out: "debit source (DecimalArg (Finite amount)) (RefEnum PARTNER_GRANT_OUT) (str_nat pk)
       (''partner-grant-out:'' @ str_nat pk) (db0\<lparr>next_uuid := Suc pk\<rparr>) = (Inr out, db1)"
    and inn: "credit dest (DecimalArg (Finite amount)) (RefEnum PARTNER_GRANT_IN) (str_nat pk)
       (''partner-grant-in:'' @ str_nat pk) db1 = (Inr inn, db2)"
    and db': "db' = db2\<lparr>credit_grants := credit_grants db2 @ [(pk, ?g)]\<rparr>"
  note D = partner_okD [OF ok]
  note E = ensure_account_Inr [OF ens D(1)]
  obtain xs as n where own0: "owners db0 = owners db @ xs" "set xs \<subseteq> {(dest, Some customer, PERSONAL)}"
    and db0: "db0 = db\<lparr>accounts := as, next_uuid := n\<rparr>"
    using E by blast
  have le: "next_uuid db \<le> pk" using E by (simp add: pk)
  let ?db0 = "db0\<lparr>next_uuid := Suc pk\<rparr>"
  have led0: "ledger_ok ?db0" using E ledger_ok_next_uuid [of db0] by (simp add: pk)
  have fresh: "\<not> key_used ?db0 (''partner-grant-out:'' @ str_nat pk)" "\<not> key_used db (''partner-grant-in:'' @ str_nat pk)"
    using tag_freshD [OF D(8) le] tag_freshD [OF D(9) le] E by (simp_all add: key_used_def)
  obtain r1 where p1: "map_of (accounts ?db0) source = Some r1"
      "(out, db1) = post source r1 (signed (- 1) amount) (reference_value PARTNER_GRANT_OUT) (str_nat pk)
         (''partner-grant-out:'' @ str_nat pk) ?db0" "ledger_ok db1"
    by (rule apply_posted [OF out [unfolded debit_def] fresh(1) norm normalize_reference_enum led0])
  note q1 = post_types [OF p1(2)] post_simps(2,4) [OF p1(2)]
  have fresh2: "\<not> key_used db1 (''partner-grant-in:'' @ str_nat pk)"
    using fresh(2) E grant_tags_distinct [of "str_nat pk" "str_nat pk"] q1
    by (auto simp: key_used_def find_entry_None)
  obtain r2 where p2: "map_of (accounts db1) dest = Some r2"
      "(inn, db2) = post dest r2 (signed 1 amount) (reference_value PARTNER_GRANT_IN) (str_nat pk)
         (''partner-grant-in:'' @ str_nat pk) db1" "ledger_ok db2"
    by (rule apply_posted [OF inn [unfolded credit_def] fresh2 norm normalize_reference_enum p1(3)])
  note q2 = post_types [OF p2(2)] post_simps(2,4) [OF p2(2)]
  have frame: "organizations db2 = organizations db" "channels db2 = channels db" "invite_links db2 = invite_links db"
      "accruals db2 = accruals db" "credit_grants db2 = credit_grants db"
    using p1(2) p2(2) by (simp_all add: post_def Let_def db0)
  have led: "ledger db' = ledger db @ [out, inn]" using q1 q2 E by (simp add: db')
  have next_id: "next_uuid db' = Suc (Suc (Suc pk))" using q1 q2 by (simp add: db')
  have own: "owners db' = owners db @ xs"
    using owners_post [OF p1(2,1)] owners_post [OF p2(2,1)] own0 by (simp add: db')
  have lok: "ledger_ok db'" using p2(3) by (simp add: db')
  have rows: "entry_row (entry_id out) (ledger db') = Some out" "entry_row (entry_id inn) (ledger db') = Some inn"
    by (rule entry_row_in; use ledger_okD(3) [OF lok] in \<open>simp add: led\<close>)+
  have res: "resolve_partner_settlement_account ch db' = Inr source"
    by (rule resolve_grow [OF ch(2) own]) (simp add: db' frame)
  obtain kd where kd: "find (\<lambda>q. fst (snd q) = Some customer) (owners db') = Some (dest, Some customer, kd)"
    using E own own0 by metis
  then have mem: "(dest, Some customer, kd) \<in> set (owners db')" by (auto dest: find_in)
  have "distinct (map fst (owners db'))" using ledger_okD(1) [OF lok] by (simp add: owners_def comp_def)
  then have mo: "map_of (owners db') dest = Some (Some customer, kd)" using mem by simp
  have "kd = PERSONAL" using mem own own0 D(3) by force
  then obtain row where row: "map_of (accounts db') dest = Some row" "acc_user row = Some customer" "acc_kind row = PERSONAL"
    using mo by (auto simp: map_of_owner)
  have amount: "0 < amount" using normalize_amount_Inr(1) [OF norm] .
  have issues: "grant_issues db' (pk, ?g) = []"
    using rows ch res row q1 q2 amount by (simp add: grant_issues_def db' frame)
  have tag: "tag_fresh ''partner-grant-out:'' db'" "tag_fresh ''partner-grant-in:'' db'"
    by (rule tag_fresh_grow [OF D(8) led] tag_fresh_grow [OF D(9) led]; use q1 q2 next_id le in auto)+
  show ?thesis
    by (rule partner_ok_extend [OF ok lok led own, of "[]" "[(pk, ?g)]"])
      (use frame issues tag rows next_id le q1 q2 ch own0 in
        \<open>auto simp: db' accrual_key_not_grant [of _ _ "str_nat pk", symmetric, simplified]\<close>)
qed

section \<open>Properties\<close>

lemma margin_share_le:
  assumes "0 \<le> l - n" "0 \<le> pct" "pct \<le> 100"
  shows "margin_share l n pct \<le> quantize_half_up MONEY_QUANT (l - n)"
proof -
  have "(l - n) * pct \<le> (l - n) * 100" by (rule mult_left_mono) (use assms in simp_all)
  then show ?thesis unfolding margin_share_def by (intro micro.quantize_mono) simp
qed

text \<open>An accrual that is recorded pays the attributed channel its share of this purchase and
  nothing else: one ledger row on the channel's settlement account, for the channel's percentage of
  list minus net rounded half up to six places, which is positive and at most the margin.\<close>

theorem accrual_share_exact:
  assumes "partner_ok db" "accrue env st sid lp np customer db = (Inr (Some pk), db')"
    and "find_accrual st sid (accruals db) = None"
  shows "\<exists>u att ch l n a e. customer = Some u \<and> attribution_of u (attributions db) = Some att \<and>
    map_of (channels db) (att_channel (snd att)) = Some ch \<and> ch_active ch \<and> lp = Some l \<and> np = Some n \<and>
    resolve_partner_settlement_account ch db = Inr a \<and> ledger db' = ledger db @ [e] \<and> entry_account e = a \<and>
    entry_key e = accrual_key st sid \<and> delta e = margin_share l n (revenue_share_percent ch) \<and>
    balance_of db' = (balance_of db)(a := balance_of db a + delta e) \<and>
    0 < delta e \<and> delta e \<le> quantize_half_up MONEY_QUANT (l - n)"
proof -
  note fresh = partner_ok_fresh_key [OF assms(1,3)]
  obtain u att ch l n where g: "customer = Some u" "attribution_of u (attributions db) = Some att"
    "map_of (channels db) (att_channel (snd att)) = Some ch" "ch_active ch" "lp = Some l" "np = Some n" "n \<le> l"
    and run: "accrue_share att (att_channel (snd att)) ch st sid l n db = (Inr (Some pk), db')"
    using accrue_Inr [OF assms(2)] assms(3) by auto
  obtain a and row :: account and e :: ledger_entry and db1 where
    s: "resolve_partner_settlement_account ch db = Inr a" "map_of (accounts db) a = Some row"
      "0 < margin_share l n (revenue_share_percent ch)"
      "(e, db1) = post a row (margin_share l n (revenue_share_percent ch)) (reference_value PARTNER_MARGIN)
         (str_nat (next_uuid db)) (accrual_key st sid) (db\<lparr>next_uuid := Suc (next_uuid db)\<rparr>)"
      "db' = db1\<lparr>accruals := accruals db @ [(next_uuid db, accrual_row att (att_channel (snd att)) ch st sid l n (entry_id e))]\<rparr>"
    using accrue_share_Inr [OF run fresh] by auto
  have "channel_ok ch" using partner_okD(4) [OF assms(1) map_of_SomeD [OF g(3)]] by simp
  then have "margin_share l n (revenue_share_percent ch) \<le> quantize_half_up MONEY_QUANT (l - n)"
    using g(7) by (intro margin_share_le) (simp_all add: channel_ok_def)
  moreover have "balance_of db1 = (balance_of db)(a := balance_of db a + margin_share l n (revenue_share_percent ch))"
    using balance_of_post [OF s(4)] s(2) by (auto simp: fun_eq_iff)
  ultimately show ?thesis
    using g s(1,3,5) post_types [OF s(4)] post_simps(2) [OF s(4)]
    by (intro exI [of _ u] exI [of _ att] exI [of _ ch] exI [of _ l] exI [of _ n] exI [of _ a] exI [of _ e]) simp
qed

text \<open>A channel earns nothing on its own people's purchases: for the owner of an individual
  channel and for an active member of a team's organization, a purchase that was not accrued before
  is skipped and nothing changes.\<close>

theorem accrual_own_channel_skipped:
  assumes "attribution_of u (attributions db) = Some att" "map_of (channels db) (att_channel (snd att)) = Some ch"
    and "find_accrual st sid (accruals db) = None"
    and "ch_kind ch = KindIndividual \<and> ch_owner ch = Some u \<or>
      (\<exists>org. ch_kind ch = KindTeam \<and> ch_org ch = Some org \<and> active_member db org u)"
  shows "accrue env st sid lp np (Some u) db = (Inr None, db)"
proof -
  have "\<not> partner_channel_can_accrue_for_customer db ch u"
    using assms(4) by (auto simp: partner_channel_can_accrue_for_customer_def)
  then show ?thesis using assms(1-3) by (simp add: accrue_def txn_defs)
qed

text \<open>One purchase is accrued once: after a recorded accrual, a second call for the same source
  returns the same accrual, whatever prices it is given, and changes nothing.\<close>

theorem accrual_once:
  assumes "partner_ok db" "accrue env st sid lp np (Some u) db = (Inr (Some pk), db')"
  shows "accrue env st sid lp' np' (Some u) db' = (Inr (Some pk), db')"
proof -
  from accrue_Inr [OF assms(2)] show ?thesis
  proof (elim disjE exE conjE)
    fix q assume "db' = db" "find_accrual st sid (accruals db) = Some q" "Some pk = Some (fst q)"
    then show ?thesis
      using assms(2) by (auto simp: accrue_def txn_iff split: option.splits if_splits)
  next
    fix u' att ch l n
    assume u: "Some u = Some u'" "attribution_of u' (attributions db) = Some att"
        "map_of (channels db) (att_channel (snd att)) = Some ch"
      and none: "find_accrual st sid (accruals db) = None"
      and run: "accrue_share att (att_channel (snd att)) ch st sid l n db = (Inr (Some pk), db')"
    have on: "PARTNER_CHANNEL_ENABLED env" using assms(2) by (auto simp: accrue_def ret_def split: if_splits)
    obtain a and row :: account and e :: ledger_entry and db1 where
      s: "pk = next_uuid db" "(e, db1) = post a row (margin_share l n (revenue_share_percent ch)) (reference_value PARTNER_MARGIN)
           (str_nat (next_uuid db)) (accrual_key st sid) (db\<lparr>next_uuid := Suc (next_uuid db)\<rparr>)"
        "db' = db1\<lparr>accruals := accruals db @ [(next_uuid db, accrual_row att (att_channel (snd att)) ch st sid l n (entry_id e))]\<rparr>"
      using accrue_share_Inr [OF run partner_ok_fresh_key [OF assms(1) none]] by auto
    have "attributions db' = attributions db" "channels db' = channels db" using s(2) by (simp_all add: s(3) post_def Let_def)
    moreover have "find_accrual st sid (accruals db') =
        Some (pk, accrual_row att (att_channel (snd att)) ch st sid l n (entry_id e))"
      using none by (simp add: s(1,3) find_accrual_append accrual_row_def)
    ultimately show ?thesis using u on by (simp add: accrue_def txn_defs)
  qed simp
qed

lemma grant_partner_ok:
  assumes "partner_ok db" "map_of (channels db) chk = Some ch" "resolve_partner_settlement_account ch db = Inr source"
    and "grant_from_account env actor chk source customer m key db = (r, db')"
  shows "partner_ok db'"
proof (cases "existing_grant chk key (credit_grants db)")
  case (Some g)
  then show ?thesis
    using assms(1,4)
    by (auto simp: grant_from_account_def execute_grant_def execute_seen_def matching_def txn_iff split: if_splits)
next
  case None
  have "db' = db \<or> (\<exists>q pk. normalize_amount m = Inr q \<and>
      execute_locked (credit_grants db) actor chk source customer q key db = (Inr pk, db'))"
    using assms(4) None
    by (auto simp: grant_from_account_def execute_grant_def execute_seen_def matching_def txn_iff split: if_splits option.splits)
  then show ?thesis
    using execute_locked_partner_ok [OF assms(1) _ None assms(2,3) normalize_fixed] assms(1) by blast
qed

text \<open>A team grant settles from the account of the channel's organization, which is the account
  \<^verbatim>\<open>resolve_partner_settlement_account\<close> gives for the channel.\<close>

lemma team_settlement:
  assumes "channel_ok ch" "ch_org ch = Some pk" "map_of (organizations db) pk = Some org"
    and "resolve_partner_settlement_account ch db = Inr source"
  shows "org_account org = source"
  using assms
  by (auto simp: channel_ok_def resolve_partner_settlement_account_def organization_settlement_account_def
      split: option.splits if_splits)

lemma grant_team_partner_ok:
  assumes ok: "partner_ok db" and ch: "map_of (channels db) chk = Some ch"
    and settles: "resolve_partner_settlement_account ch db = Inr source"
    and run: "grant_team env actor (chk, ch) customer m key db = (r, db')"
  shows "partner_ok db'"
proof (cases "db' = db")
  case False
  have chok: "channel_ok ch" using partner_okD(4) [OF ok map_of_SomeD [OF ch]] by simp
  from run False obtain q pk org where on: "key \<noteq> []" "PARTNER_CHANNEL_ENABLED env"
    and q: "normalize_amount m = Inr q" and org: "ch_org ch = Some pk" "map_of (organizations db) pk = Some org"
    and ex: "execute_grant actor chk (org_account org) customer q key db = (r, db')"
    by (auto simp: grant_team_def require_grant_membership_def txn_iff get_or_raise_def bind_eq_Some_conv
        split: if_splits option.splits)
  have "grant_from_account env actor chk source customer m key db = (r, db')"
    using on q ex team_settlement [OF chok org settles] by (simp add: grant_from_account_def txn_defs)
  then show ?thesis by (rule grant_partner_ok [OF ok ch settles])
qed (use ok in simp)

text \<open>
  A run of the partner programme: accruals that returned (an accrual that raises takes its caller's
  transaction with it), grants of either kind with any outcome, for a channel whose settlement account
  resolves.
\<close>

inductive programme_run :: "env \<Rightarrow> 'x partner_db_scheme \<Rightarrow> 'x partner_db_scheme \<Rightarrow> bool" for env where
  start: "programme_run env db db"
| accrued: "programme_run env db s \<Longrightarrow> accrue env st sid lp np buyer s = (Inr r, t) \<Longrightarrow> programme_run env db t"
| account_grant: "programme_run env db s \<Longrightarrow> map_of (channels s) chk = Some ch \<Longrightarrow>
    resolve_partner_settlement_account ch s = Inr source \<Longrightarrow>
    grant_from_account env actor chk source customer m key s = (q, t) \<Longrightarrow> programme_run env db t"
| team_grant: "programme_run env db s \<Longrightarrow> map_of (channels s) chk = Some ch \<Longrightarrow>
    resolve_partner_settlement_account ch s = Inr source \<Longrightarrow>
    grant_team env actor (chk, ch) customer m key s = (q, t) \<Longrightarrow> programme_run env db t"

text \<open>C10. The nightly drift report stays empty over any run of accruals that return, of team grants and
  of grants from the channel's settlement account, whatever those answer, as long as the settlement
  account of a granting channel resolves: the partner tables and the ledger stay in step, so
  \<^verbatim>\<open>collect_partner_drift\<close> finds nothing.\<close>

theorem partner_drift_empty:
  assumes "partner_ok db" "programme_run env db db'"
  shows "partner_ok db' \<and> collect_partner_drift db' = []"
proof -
  from assms(2,1) have "partner_ok db'"
    by induction (blast intro: accrue_partner_ok grant_partner_ok grant_team_partner_ok)+
  then show ?thesis by (simp add: partner_okD(2))
qed

text \<open>C11. A grant creates no credits: under a new key it takes the normalized amount from the
  settlement account, which had it, and adds it to the account of the customer, who was attributed
  to the channel; every other balance is unchanged.\<close>

theorem grant_conserves:
  assumes "partner_ok db" "grant_from_account env actor chk source customer m key db = (Inr pk, db')"
    and "existing_grant chk key (credit_grants db) = None"
  shows "\<exists>q dest att. normalize_amount m = Inr q \<and> 0 < q \<and> source \<noteq> dest \<and> q \<le> balance_of db source \<and>
    attribution_of customer (attributions db) = Some att \<and> att_channel (snd att) = chk \<and>
    (\<exists>kd. find (\<lambda>r. fst (snd r) = Some customer) (owners db') = Some (dest, Some customer, kd)) \<and>
    balance_of db' = (balance_of db)(source := balance_of db source - q, dest := balance_of db dest + q)"
proof -
  obtain q where q: "normalize_amount m = Inr q"
    and run: "execute_locked (credit_grants db) actor chk source customer q key db = (Inr pk, db')"
  proof -
    have "(\<exists>q. normalize_amount m = Inr q \<and>
        execute_locked (credit_grants db) actor chk source customer q key db = (Inr pk, db')) \<or>
        (\<exists>g. existing_grant chk key (credit_grants db) = Some g)"
      using assms(2,3)
      by (auto simp: grant_from_account_def execute_grant_def execute_seen_def matching_def txn_iff split: if_splits option.splits)
    then show thesis using that assms(3) by auto
  qed
  note D = partner_okD [OF assms(1)]
  obtain dest where d: "source \<noteq> dest"
    "\<exists>kd. find (\<lambda>r. fst (snd r) = Some customer) (owners db') = Some (dest, Some customer, kd)"
    "balance_of db' = (balance_of db)(source := balance_of db source - q, dest := balance_of db dest + q)"
    using execute_locked_moves [OF run assms(3) D(1,8,9)] normalize_fixed [OF q] by auto
  have att: "\<exists>att. attribution_of customer (attributions db) = Some att \<and> att_channel (snd att) = chk"
    by (rule execute_locked_Inr [OF run assms(3)]) blast
  have "ledger_ok db'" by (rule keepsD [OF keeps_ledger_partner(6) D(1) run])
  then have "0 \<le> balance_of db' source" by (rule balance_of_nonneg)
  then show ?thesis using q d att normalize_amount_Inr(1) [OF q] by auto
qed


lemma execute_locked_tables:
  assumes "execute_locked seen actor chk source customer amount key db = (Inr pk, db')" "existing_grant chk key seen = None"
    and "ledger_ok db"
  shows "existing_grant chk key (credit_grants db) = None"
  using assms(1,2)
proof (rule execute_locked_Inr)
  fix att :: "nat \<times> attribution" and db0 dest and out inn :: ledger_entry and db1 db2
  assume ens: "ensure_billing_account customer db = (Inr dest, db0)"
    and out: "debit source (DecimalArg (Finite amount)) (RefEnum PARTNER_GRANT_OUT) (str_nat pk)
       (''partner-grant-out:'' @ str_nat pk) (db0\<lparr>next_uuid := Suc pk\<rparr>) = (Inr out, db1)"
    and inn: "credit dest (DecimalArg (Finite amount)) (RefEnum PARTNER_GRANT_IN) (str_nat pk)
       (''partner-grant-in:'' @ str_nat pk) db1 = (Inr inn, db2)"
    and none: "existing_grant chk key (credit_grants db2) = None"
  have "credit_grants db2 = credit_grants db"
    using ensure_account_Inr [OF ens assms(3)] debit_frame' [OF out] credit_frame' [OF inn] by auto
  then show ?thesis using none by simp
qed

text \<open>Two requests with one key: when another request committed a grant under the channel's key
  after this one looked, this one's postings are undone; it answers with the committed grant if that
  names the same customer and amount, and raises otherwise.\<close>

theorem grant_race:
  assumes "ledger_ok db" "existing_grant chk key seen = None" "existing_grant chk key (credit_grants db) = Some g"
    and "execute_seen seen actor chk source customer amount key db = (r, db')"
  shows "db' = db \<and> (\<forall>pk. r = Inr pk \<longrightarrow> pk = fst g \<and> gr_customer (snd g) = customer \<and> gr_amount (snd g) = amount)"
proof -
  have "execute_locked seen actor chk source customer amount key db \<noteq> (Inr pk, t)" for pk t
    using execute_locked_tables [OF _ assms(2,1)] assms(3) by force
  then show ?thesis
    using assms by (auto simp: execute_seen_def matching_def txn_iff split: if_splits option.splits)
qed

section \<open>Witnesses\<close>

definition demo_channel :: channel where
  "demo_channel = \<lparr>ch_kind = KindTeam, ch_owner = None, ch_org = Some 0, revenue_share_percent = 40, ch_active = True\<rparr>"

definition demo_attribution :: attribution where
  "demo_attribution = \<lparr>att_user = 7, att_channel = 1, att_source = SourceAdmin, att_link = None, att_visit = None,
     att_token = None, att_registered = False, att_snapshot = [], att_bonus = None, att_at = 500\<rparr>"

definition demo_partner_db :: partner_db where
  "demo_partner_db = deposit_db.extend
     (demo_deposit_db\<lparr>accounts :=
        [(1, \<lparr>acc_user = Some 7, acc_kind = PERSONAL, balance = 0, version = 0, acc_profile = None\<rparr>),
         (2, \<lparr>acc_user = None, acc_kind = ORGANIZATION, balance = 50, version = 1, acc_profile = None\<rparr>)],
      ledger := [new_entry 0 2 50 50 ''deposit'' ''9'' ''deposit:9'' 900]\<rparr>)
     \<lparr>organizations = [(0, \<lparr>org_name = ''Team'', org_status = OrgActive, org_account = 2\<rparr>)],
      memberships = [(0, \<lparr>mem_org = 0, mem_user = 8, mem_role = Owner, mem_status = MActive\<rparr>)],
      channels = [(1, demo_channel)],
      invite_links = [(0, \<lparr>link_channel = 1, link_token = ''t'', link_name = [], link_bonus = 0, link_source = [],
         link_campaign = [], link_content = [], link_active = True, link_created = 100, link_regenerated = None\<rparr>)],
      attributions = [(2, demo_attribution)], accruals = [], credit_grants = []\<rparr>"

lemma demo_partner_db_simps [simp]:
  "accounts demo_partner_db =
     [(1, \<lparr>acc_user = Some 7, acc_kind = PERSONAL, balance = 0, version = 0, acc_profile = None\<rparr>),
      (2, \<lparr>acc_user = None, acc_kind = ORGANIZATION, balance = 50, version = 1, acc_profile = None\<rparr>)]"
  "ledger demo_partner_db = [new_entry 0 2 50 50 ''deposit'' ''9'' ''deposit:9'' 900]"
  "next_uuid demo_partner_db = 3" "clock demo_partner_db = 1000"
  "organizations demo_partner_db = [(0, \<lparr>org_name = ''Team'', org_status = OrgActive, org_account = 2\<rparr>)]"
  "memberships demo_partner_db = [(0, \<lparr>mem_org = 0, mem_user = 8, mem_role = Owner, mem_status = MActive\<rparr>)]"
  "channels demo_partner_db = [(1, demo_channel)]" "attributions demo_partner_db = [(2, demo_attribution)]"
  "accruals demo_partner_db = []" "credit_grants demo_partner_db = []"
  "map (\<lambda>l. link_channel (snd l)) (invite_links demo_partner_db) = [1]"
  by (simp_all add: demo_partner_db_def demo_deposit_db_def demo_wallet_db_def demo_voucher_db_def demo_pricing_db_def
      demo_db_def credit_db.defs pricing_db.defs voucher_db.defs wallet_db.defs deposit_db.defs)

lemma demo_settlement: "resolve_partner_settlement_account demo_channel demo_partner_db = Inr 2"
  by (simp add: resolve_partner_settlement_account_def demo_channel_def organization_settlement_account_def
      is_organization_account_def)

lemma demo_partner_ok: "partner_ok demo_partner_db"
proof -
  have "ledger_ok demo_partner_db"
    by (simp add: ledger_ok_def running_ok_def entry_ok_def account_ok_def new_entry_def ledger_sum_def
        on_grid_def MONEY_QUANT_def NUMERIC_20_6_def)
  moreover have "\<exists>l \<in> set (invite_links demo_partner_db). link_channel (snd l) = 1"
    using demo_partner_db_simps(11) by (metis (mono_tags, lifting) imageE list.set_intros(1) list.set_map)
  then have "invite_drift demo_partner_db = []" by (simp add: invite_drift_def)
  ultimately show ?thesis
    by (simp add: partner_ok_def no_drift_iff new_entry_def owners_def channel_ok_def demo_channel_def tag_fresh_def
        accrual_key_def)
qed


lemma demo_can_accrue: "partner_channel_can_accrue_for_customer demo_partner_db demo_channel 7"
  by (simp add: partner_channel_can_accrue_for_customer_def demo_channel_def active_member_def)

lemma demo_accrue:
  "\<exists>db'. accrue demo_env SOrder ''5'' (Some 20) (Some 10) (Some 7) demo_partner_db = (Inr (Some 3), db')"
  using demo_settlement demo_can_accrue
  by (simp add: accrue_def accrue_share_def txn_defs price_skip_def find_accrual_def attribution_of_def
     demo_attribution_def uuid4_def demo_env_def normalize_eval demo_channel_def numeric_20_6_def
     credit_debit_defs apply_credit_def apply_seen_def apply_locked_def Let_def insert_entry_def save_account_def
     new_entry_def find_entry_def insert_accrual_def accrual_key_def)

lemma demo_grant:
  "\<exists>db'. grant_from_account demo_env 8 1 2 7 (IntArg 15) ''g'' demo_partner_db = (Inr 3, db')"
  by (simp add: grant_from_account_def execute_grant_def execute_seen_def execute_locked_def txn_defs
     existing_grant_def normalize_eval require_current_channel_def attribution_of_def demo_attribution_def
     ensure_billing_account_def account_of_user_def lock_ordered_accounts_def uuid4_def demo_env_def
     credit_debit_defs apply_credit_def apply_seen_def apply_locked_def Let_def insert_entry_def save_account_def
     new_entry_def find_entry_def insert_grant_def)

theorem accrual_share_exact_witness:
  "\<exists>db' e. accrue demo_env SOrder ''5'' (Some 20) (Some 10) (Some 7) demo_partner_db = (Inr (Some 3), db') \<and>
     ledger db' = ledger demo_partner_db @ [e] \<and> delta e = 4"
proof -
  obtain db' where run: "accrue demo_env SOrder ''5'' (Some 20) (Some 10) (Some 7) demo_partner_db = (Inr (Some 3), db')"
    using demo_accrue by blast
  have none: "find_accrual SOrder ''5'' (accruals demo_partner_db) = None" by (simp add: find_accrual_def)
  have "attribution_of 7 (attributions demo_partner_db) = Some (2, demo_attribution)"
    by (simp add: attribution_of_def demo_attribution_def)
  then show ?thesis
    using accrual_share_exact [OF demo_partner_ok run none] run
    by (auto simp: demo_attribution_def demo_channel_def margin_share_def normalize_eval)
qed

theorem accrual_own_channel_skipped_witness:
  "accrue demo_env SOrder ''5'' (Some 20) (Some 10) (Some 8)
     (demo_partner_db\<lparr>attributions := [(2, demo_attribution\<lparr>att_user := 8\<rparr>)]\<rparr>) =
   (Inr None, demo_partner_db\<lparr>attributions := [(2, demo_attribution\<lparr>att_user := 8\<rparr>)]\<rparr>)"
  by (rule accrual_own_channel_skipped [where att = "(2, demo_attribution\<lparr>att_user := 8\<rparr>)" and ch = demo_channel])
    (simp_all add: attribution_of_def demo_attribution_def demo_channel_def find_accrual_def active_member_def)

theorem accrual_once_witness:
  "\<exists>db'. accrue demo_env SOrder ''5'' (Some 20) (Some 10) (Some 7) demo_partner_db = (Inr (Some 3), db') \<and>
     accrue demo_env SOrder ''5'' (Some 30) (Some 10) (Some 7) db' = (Inr (Some 3), db')"
  using demo_accrue accrual_once [OF demo_partner_ok] by blast

theorem partner_drift_empty_witness:
  "\<exists>s t. accrue demo_env SOrder ''5'' (Some 20) (Some 10) (Some 7) demo_partner_db = (Inr (Some 3), s) \<and>
     programme_run demo_env demo_partner_db s \<and> collect_partner_drift s = [] \<and>
     grant_from_account demo_env 8 1 2 7 (IntArg 15) ''g'' demo_partner_db = (Inr 3, t) \<and>
     programme_run demo_env demo_partner_db t \<and> collect_partner_drift t = []"
proof -
  obtain s where s: "accrue demo_env SOrder ''5'' (Some 20) (Some 10) (Some 7) demo_partner_db = (Inr (Some 3), s)"
    using demo_accrue by blast
  obtain t where t: "grant_from_account demo_env 8 1 2 7 (IntArg 15) ''g'' demo_partner_db = (Inr 3, t)"
    using demo_grant by blast
  have ch: "map_of (channels demo_partner_db) 1 = Some demo_channel" by simp
  have "programme_run demo_env demo_partner_db s" "programme_run demo_env demo_partner_db t"
    using programme_run.accrued [OF programme_run.start s]
      programme_run.account_grant [OF programme_run.start ch demo_settlement t] by blast+
  then show ?thesis using s t partner_drift_empty [OF demo_partner_ok] by blast
qed

theorem grant_conserves_witness:
  "\<exists>db'. grant_from_account demo_env 8 1 2 7 (IntArg 15) ''g'' demo_partner_db = (Inr 3, db') \<and>
     balance_of db' 2 = 35"
proof -
  obtain db' where run: "grant_from_account demo_env 8 1 2 7 (IntArg 15) ''g'' demo_partner_db = (Inr 3, db')"
    using demo_grant by blast
  have "existing_grant 1 ''g'' (credit_grants demo_partner_db) = None" by (simp add: existing_grant_def)
  moreover have "balance_of demo_partner_db 2 = 50" by (simp add: balance_of_def)
  ultimately show ?thesis
    using grant_conserves [OF demo_partner_ok run] run by (auto simp: normalize_eval)
qed

theorem grant_race_witness:
  "let g = \<lparr>gr_channel = 1, gr_customer = 7, gr_attribution = 2, gr_by = 8, gr_amount = 15, gr_key = ''g'',
         gr_debit = 0, gr_credit = 0\<rparr>;
       db = demo_partner_db\<lparr>credit_grants := [(9, g)]\<rparr>
   in snd (execute_seen [] 8 1 2 7 15 ''g'' db) = db"
proof -
  let ?g = "\<lparr>gr_channel = 1, gr_customer = 7, gr_attribution = 2, gr_by = 8, gr_amount = 15, gr_key = ''g'',
         gr_debit = 0, gr_credit = 0\<rparr>"
  let ?db = "demo_partner_db\<lparr>credit_grants := [(9, ?g)]\<rparr>"
  have "ledger_ok ?db" using partner_okD(1) [OF demo_partner_ok] by simp
  moreover have "existing_grant 1 ''g'' [] = None" "existing_grant 1 ''g'' (credit_grants ?db) = Some (9, ?g)"
    by (simp_all add: existing_grant_def)
  ultimately have "snd (execute_seen [] 8 1 2 7 15 ''g'' ?db) = ?db"
    using grant_race [of ?db 1 "''g''" "[]" "(9, ?g)" 8 2 7 15] by (metis surjective_pairing)
  then show ?thesis by (simp add: Let_def)
qed

end
