(* ===== verification/Members.thy ===== *)
theory Members
  imports Partners
begin

text \<open>
  Organizations and who belongs to them: \<^verbatim>\<open>organizations/models.py\<close> (invites), \<^verbatim>\<open>permissions.py\<close>, and
  \<^verbatim>\<open>services/context.py\<close>, \<^verbatim>\<open>authz.py\<close>, \<^verbatim>\<open>membership.py\<close>, \<^verbatim>\<open>invites.py\<close>, \<^verbatim>\<open>account_binding.py\<close>, with the guard
  of \<^verbatim>\<open>billing/services/partner_self_referral.py\<close> that memberships and attributions share. A role that a
  client sends is a string; the stored one a \<open>membership_role\<close>. \<^verbatim>\<open>secrets.token_urlsafe\<close> is an argument, the
  token it drew; a hash is \<open>sha256_hex\<close> of the settings record.

  Three invariants: an organization has one active owner (\<open>owner_ok\<close>), a user has one membership in it
  (\<open>members_unique\<close>), and nobody is a customer of a channel that is theirs (\<open>no_self_referral\<close>, what
  \<^verbatim>\<open>_attribution_conflicts\<close> reports). One call can break the first: an active
  owner accepting an invite into the own organization.
\<close>

section \<open>Tables\<close>

record user_row =
  usr_email :: string
  usr_active :: bool
  usr_staff :: bool

datatype invite_role = InviteAdmin | InviteMember | InviteViewer

fun granted :: "invite_role \<Rightarrow> membership_role" where
  "granted InviteAdmin = Admin"
| "granted InviteMember = Member"
| "granted InviteViewer = Viewer"

datatype invite_status = IPending | IAccepted | IRevoked | IExpired

record org_invite =
  inv_org :: nat
  inv_email :: string
  inv_normalized :: string
  inv_role :: invite_role
  inv_status :: invite_status
  inv_hash :: string
  inv_expires :: int
  inv_by :: nat
  inv_accepted_by :: "nat option"
  inv_accepted_at :: "int option"
  inv_revoked_at :: "int option"

record visit =
  vis_link :: nat
  vis_utm :: "string list"
  vis_created :: int

record pending =
  pen_user :: nat
  pen_channel :: nat
  pen_token :: string
  pen_visit :: "nat option"
  pen_expires :: int

record org_db = partner_db +
  users :: "(nat \<times> user_row) list"
  org_invites :: "(nat \<times> org_invite) list"
  visits :: "(nat \<times> visit) list"
  pendings :: "(nat \<times> pending) list"

type_synonym ('x, 'a) org_txn = "('x org_db_scheme, 'a) txn"

fun role_value :: "membership_role \<Rightarrow> string" where
  "role_value Owner = ''owner''"
| "role_value Admin = ''admin''"
| "role_value Member = ''member''"
| "role_value Viewer = ''viewer''"

text \<open>The member of \<^verbatim>\<open>{ADMIN, MEMBER, VIEWER}\<close> with this value.\<close>

definition grantable_role :: "string \<Rightarrow> membership_role option" where
  "grantable_role s = find (\<lambda>r. role_value r = s) [Admin, Member, Viewer]"

definition invite_role_of :: "string \<Rightarrow> invite_role option" where
  "invite_role_of s = find (\<lambda>r. role_value (granted r) = s) [InviteAdmin, InviteMember, InviteViewer]"

fun org_status_value :: "organization_status \<Rightarrow> string" where
  "org_status_value OrgActive = ''active''"
| "org_status_value OrgSuspended = ''suspended''"
| "org_status_value OrgArchived = ''archived''"

definition org_status_of :: "string \<Rightarrow> organization_status option" where
  "org_status_of s = find (\<lambda>r. org_status_value r = s) [OrgActive, OrgSuspended, OrgArchived]"

section \<open>Saving rows\<close>

text \<open>The unique constraints of \<^verbatim>\<open>Membership\<close>: one row per user and organization, one active owner.\<close>

definition clashes :: "nat \<Rightarrow> membership \<Rightarrow> nat \<times> membership \<Rightarrow> bool" where
  "clashes pk row r \<longleftrightarrow> fst r \<noteq> pk \<and> mem_org (snd r) = mem_org row \<and>
     (mem_user (snd r) = mem_user row \<or>
      mem_role (snd r) = Owner \<and> mem_status (snd r) = MActive \<and> mem_role row = Owner \<and> mem_status row = MActive)"

definition save_membership :: "nat \<Rightarrow> membership \<Rightarrow> ('x, unit) org_txn" where
  "save_membership pk row =
     bindE (getsE memberships) (\<lambda>rows.
     if (\<exists>r \<in> set rows. clashes pk row r) then raiseE (EPy IntegrityError)
     else modifyE (\<lambda>db. db\<lparr>memberships := AList.update pk row (memberships db)\<rparr>))"

definition save_organization :: "nat \<Rightarrow> organization \<Rightarrow> ('x, unit) org_txn" where
  "save_organization pk row =
     bindE (getsE organizations) (\<lambda>rows.
     if 128 < length (org_name row) then raiseE (EPy DataError)
     else if (\<exists>r \<in> set rows. fst r \<noteq> pk \<and> org_account (snd r) = org_account row) then raiseE (EPy IntegrityError)
     else modifyE (\<lambda>db. db\<lparr>organizations := AList.update pk row (organizations db)\<rparr>))"

text \<open>\<^verbatim>\<open>OrganizationInvite\<close>: a unique token hash, one pending invite per organization and address.\<close>

definition save_invite :: "nat \<Rightarrow> org_invite \<Rightarrow> ('x, unit) org_txn" where
  "save_invite pk row =
     bindE (getsE org_invites) (\<lambda>rows.
     if 254 < length (inv_email row) \<or> 254 < length (inv_normalized row) then raiseE (EPy DataError)
     else if (\<exists>r \<in> set rows. fst r \<noteq> pk \<and>
            (inv_hash (snd r) = inv_hash row \<or>
             inv_org (snd r) = inv_org row \<and> inv_normalized (snd r) = inv_normalized row \<and>
             inv_status (snd r) = IPending \<and> inv_status row = IPending))
     then raiseE (EPy IntegrityError)
     else modifyE (\<lambda>db. db\<lparr>org_invites := AList.update pk row (org_invites db)\<rparr>))"

section \<open>Permissions and context\<close>

record org_permissions =
  can_view :: bool
  can_spend :: bool
  can_manage_members :: bool
  can_invite :: bool
  can_transfer_ownership :: bool
  can_archive_org :: bool
  can_assign_esim :: bool
  can_device_bind :: bool

fun permissions_for_role :: "membership_role \<Rightarrow> org_permissions" where
  "permissions_for_role Owner =
     \<lparr>can_view = True, can_spend = True, can_manage_members = True, can_invite = True,
      can_transfer_ownership = True, can_archive_org = True, can_assign_esim = True, can_device_bind = True\<rparr>"
| "permissions_for_role Admin =
     \<lparr>can_view = True, can_spend = True, can_manage_members = True, can_invite = True,
      can_transfer_ownership = False, can_archive_org = False, can_assign_esim = True, can_device_bind = True\<rparr>"
| "permissions_for_role Member =
     \<lparr>can_view = True, can_spend = True, can_manage_members = False, can_invite = False,
      can_transfer_ownership = False, can_archive_org = False, can_assign_esim = True, can_device_bind = False\<rparr>"
| "permissions_for_role Viewer =
     \<lparr>can_view = True, can_spend = False, can_manage_members = False, can_invite = False,
      can_transfer_ownership = False, can_archive_org = False, can_assign_esim = False, can_device_bind = False\<rparr>"

record account_context =
  cx_account :: nat
  cx_org :: "(nat \<times> organization) option"
  cx_membership :: "(nat \<times> membership) option"
  cx_permissions :: "org_permissions option"

definition cx_role :: "account_context \<Rightarrow> membership_role option" where
  "cx_role c = map_option (\<lambda>m. mem_role (snd m)) (cx_membership c)"

definition membership_of :: "nat \<Rightarrow> nat \<Rightarrow> (nat \<times> membership) list \<Rightarrow> (nat \<times> membership) option" where
  "membership_of org user rows = find (\<lambda>r. mem_org (snd r) = org \<and> mem_user (snd r) = user) rows"

definition resolve_personal_context :: "nat \<Rightarrow> ('x, account_context) org_txn" where
  "resolve_personal_context user =
     bindE (ensure_billing_account user) (\<lambda>a.
     ret \<lparr>cx_account = a, cx_org = None, cx_membership = None, cx_permissions = None\<rparr>)"

definition resolve_organization_context :: "nat \<Rightarrow> nat \<Rightarrow> ('x, account_context) org_txn" where
  "resolve_organization_context user org =
     bindE (getsE (\<lambda>db. map_of (organizations db) org)) (\<lambda>row.
     bindE (get_or_raise (EOrg NotFound) row) (\<lambda>o'.
     bindE (getsE (\<lambda>db. membership_of org user (memberships db))) (\<lambda>found.
     bindE (get_or_raise (EOrg NotFound) found) (\<lambda>m.
     if mem_status (snd m) \<noteq> MActive then raiseE (EOrg PermissionDenied)
     else ret \<lparr>cx_account = org_account o', cx_org = Some (org, o'), cx_membership = Some m,
               cx_permissions = Some (permissions_for_role (mem_role (snd m)))\<rparr>))))"

definition resolve_account_context :: "nat \<Rightarrow> nat option \<Rightarrow> ('x, account_context) org_txn" where
  "resolve_account_context user org =
     (case org of None \<Rightarrow> resolve_personal_context user | Some pk \<Rightarrow> resolve_organization_context user pk)"

definition require_org_mutation :: "account_context \<Rightarrow> ('s, unit) txn" where
  "require_org_mutation c =
     (case cx_org c of
        None \<Rightarrow> raiseE (EOrg PermissionDenied)
      | Some (_, o') \<Rightarrow> guardE (org_status o' = OrgActive) (EOrg PermissionDenied))"

definition require_permission :: "(org_permissions \<Rightarrow> bool) \<Rightarrow> account_context \<Rightarrow> ('s, unit) txn" where
  "require_permission perm c =
     guardE (case cx_permissions c of None \<Rightarrow> False | Some p \<Rightarrow> perm p) (EOrg PermissionDenied)"

definition require_spend :: "account_context \<Rightarrow> ('s, unit) txn" where
  "require_spend c = thenE (require_org_mutation c) (require_permission can_spend c)"

definition require_assign_esim :: "account_context \<Rightarrow> ('s, unit) txn" where
  "require_assign_esim c = thenE (require_org_mutation c) (require_permission can_assign_esim c)"

definition require_manage_members :: "account_context \<Rightarrow> ('s, unit) txn" where
  "require_manage_members c = thenE (require_org_mutation c) (require_permission can_manage_members c)"

definition require_transfer_ownership :: "account_context \<Rightarrow> ('s, unit) txn" where
  "require_transfer_ownership c = thenE (require_org_mutation c) (require_permission can_transfer_ownership c)"

definition require_archive_org :: "account_context \<Rightarrow> ('s, unit) txn" where
  "require_archive_org c = thenE (require_org_mutation c) (require_permission can_archive_org c)"

definition require_invite :: "account_context \<Rightarrow> ('s, unit) txn" where
  "require_invite c = thenE (require_org_mutation c) (require_permission can_invite c)"

definition require_device_bind :: "account_context \<Rightarrow> ('s, unit) txn" where
  "require_device_bind c = thenE (require_org_mutation c) (require_permission can_device_bind c)"

section \<open>The self-referral guard\<close>

text \<open>\<^verbatim>\<open>lock_self_referral_rows\<close>: of the locks only the lookup of the user shows in one transaction.\<close>

definition lock_self_referral_rows :: "nat \<Rightarrow> ('x, unit) org_txn" where
  "lock_self_referral_rows user =
     bindE (getsE (\<lambda>db. map_of (users db) user)) (\<lambda>row.
     bindE (get_or_raise (EPy ObjectDoesNotExist) row) (\<lambda>_. ret ()))"

definition ensure_current_attribution_allowed :: "nat \<Rightarrow> channel \<Rightarrow> ('x, unit) org_txn" where
  "ensure_current_attribution_allowed user ch =
     thenE (lock_self_referral_rows user)
       (if ch_kind ch = KindIndividual \<and> ch_owner ch = Some user
        then raiseE (EPartner PartnerSelfReferralConflict)
        else case (ch_kind ch, ch_org ch) of
          (KindTeam, Some org) \<Rightarrow>
            bindE (getsE (\<lambda>db. active_member db org user)) (\<lambda>active.
            guardE (\<not> active) (EPartner PartnerSelfReferralConflict))
        | _ \<Rightarrow> ret ())"

definition team_channel :: "nat \<Rightarrow> (nat \<times> channel) list \<Rightarrow> (nat \<times> channel) option" where
  "team_channel org rows = find (\<lambda>r. ch_kind (snd r) = KindTeam \<and> ch_org (snd r) = Some org) (sort_key fst rows)"

definition ensure_active_membership_allowed :: "nat \<Rightarrow> nat \<Rightarrow> ('x, unit) org_txn" where
  "ensure_active_membership_allowed user org =
     bindE (getsE (\<lambda>db. team_channel org (channels db))) (\<lambda>found.
     case found of
       None \<Rightarrow> ret ()
     | Some ch \<Rightarrow>
         thenE (lock_self_referral_rows user)
           (bindE (getsE (\<lambda>db. \<exists>r \<in> set (attributions db). att_user (snd r) = user \<and> att_channel (snd r) = fst ch))
              (\<lambda>attributed. guardE (\<not> attributed) (EPartner PartnerSelfReferralConflict))))"

text \<open>\<^verbatim>\<open>_reject_attributed_member\<close> and \<^verbatim>\<open>_reject_self_referral_membership\<close>.\<close>

definition reject_attributed_member :: "nat \<Rightarrow> nat \<Rightarrow> ('x, unit) org_txn" where
  "reject_attributed_member user org =
     catchE (ensure_active_membership_allowed user org) (\<lambda>e.
       if e = EPartner PartnerSelfReferralConflict then raiseE (EOrg InviteConflictError) else raiseE e)"

section \<open>Memberships\<close>

definition active_owner_count :: "nat \<Rightarrow> (nat \<times> membership) list \<Rightarrow> nat" where
  "active_owner_count org rows =
     length (filter (\<lambda>r. mem_org (snd r) = org \<and> mem_role (snd r) = Owner \<and> mem_status (snd r) = MActive) rows)"

definition transfer_ownership :: "nat \<Rightarrow> nat \<Rightarrow> nat \<Rightarrow> ('x, nat) org_txn" where
  "transfer_ownership actor org new_owner =
     atomic (
       bindE (resolve_organization_context actor org) (\<lambda>ctx.
       thenE (require_transfer_ownership ctx)
       (thenE (reject_attributed_member new_owner org)
       (bindE (getsE (\<lambda>db. membership_of org new_owner (memberships db))) (\<lambda>found.
        case found of
          None \<Rightarrow> raiseE (EOrg NotAllowedError)
        | Some target \<Rightarrow>
            if mem_status (snd target) \<noteq> MActive then raiseE (EOrg NotAllowedError)
            else
              bindE (getsE (\<lambda>db. Option.bind (cx_membership ctx) (\<lambda>m. map_option (Pair (fst m)) (map_of (memberships db) (fst m))))) (\<lambda>row.
              bindE (get_or_raise (EPy ObjectDoesNotExist) row) (\<lambda>own.
              if mem_role (snd own) \<noteq> Owner then raiseE (EOrg NotAllowedError)
              else if fst target = fst own then ret (fst own)
              else
                thenE (save_membership (fst own) ((snd own)\<lparr>mem_role := Admin\<rparr>))
                (thenE (save_membership (fst target) ((snd target)\<lparr>mem_role := Owner\<rparr>))
                (ret (fst target))))))))))"

definition set_member_role :: "nat \<Rightarrow> nat \<Rightarrow> nat \<Rightarrow> string \<Rightarrow> ('x, nat) org_txn" where
  "set_member_role actor org target_user role =
     atomic (
       if role = role_value Owner then raiseE (EOrg NotAllowedError)
       else
         bindE (resolve_organization_context actor org) (\<lambda>ctx.
         thenE (require_manage_members ctx)
         (thenE (reject_attributed_member target_user org)
         (bindE (getsE (\<lambda>db. membership_of org target_user (memberships db))) (\<lambda>found.
          case found of
            None \<Rightarrow> raiseE (EOrg NotAllowedError)
          | Some target \<Rightarrow>
              if mem_status (snd target) \<noteq> MActive then raiseE (EOrg NotAllowedError)
              else if mem_role (snd target) = Owner then raiseE (EOrg NotAllowedError)
              else case grantable_role role of
                None \<Rightarrow> raiseE (EOrg NotAllowedError)
              | Some r \<Rightarrow>
                  thenE (save_membership (fst target) ((snd target)\<lparr>mem_role := r\<rparr>)) (ret (fst target)))))))"

definition revoke_membership :: "nat \<Rightarrow> nat \<Rightarrow> nat \<Rightarrow> ('x, nat) org_txn" where
  "revoke_membership actor org target_user =
     atomic (
       bindE (resolve_organization_context actor org) (\<lambda>ctx.
       thenE (require_manage_members ctx)
       (bindE (getsE (\<lambda>db. membership_of org target_user (memberships db))) (\<lambda>found.
        case found of
          None \<Rightarrow> raiseE (EOrg NotAllowedError)
        | Some target \<Rightarrow>
            if mem_status (snd target) = MRevoked then ret (fst target)
            else
              bindE (getsE (\<lambda>db. active_owner_count org (memberships db))) (\<lambda>count.
              let is_owner = (mem_role (snd target) = Owner \<and> mem_status (snd target) = MActive)
              in if is_owner \<and> count \<le> 1 then raiseE (EOrg LastOwnerError)
                 else if is_owner \<and> cx_role ctx \<noteq> Some Owner then raiseE (EOrg NotAllowedError)
                 else thenE (save_membership (fst target) ((snd target)\<lparr>mem_status := MRevoked\<rparr>))
                        (ret (fst target)))))))"

definition set_organization_status :: "nat \<Rightarrow> nat \<Rightarrow> string \<Rightarrow> ('x, nat) org_txn" where
  "set_organization_status actor org status =
     atomic (
       case org_status_of status of
         None \<Rightarrow> raiseE (EOrg NotAllowedError)
       | Some st \<Rightarrow>
           bindE (resolve_organization_context actor org) (\<lambda>ctx.
           case cx_org ctx of
             None \<Rightarrow> raiseE (EPy AttributeError)
           | Some (pk, row) \<Rightarrow>
               thenE (if org_status row = OrgActive then require_archive_org ctx
                      else guardE (cx_role ctx = Some Owner) (EOrg NotAllowedError))
               (thenE (save_organization pk (row\<lparr>org_status := st\<rparr>)) (ret pk))))"

text \<open>\<^verbatim>\<open>create_organization\<close>: the team account, the organization and its owner, all or none.\<close>

definition create_organization :: "string \<Rightarrow> nat \<Rightarrow> organization_status \<Rightarrow> ('x, nat) org_txn" where
  "create_organization name actor status =
     atomic (
       if strip name = [] then raiseE (EPy ValueError)
       else
         bindE uuid4 (\<lambda>a.
         thenE (save_account a \<lparr>acc_user = None, acc_kind = ORGANIZATION, balance = 0, version = 0, acc_profile = None\<rparr>)
         (bindE uuid4 (\<lambda>org.
          thenE (save_organization org \<lparr>org_name = strip name, org_status = status, org_account = a\<rparr>)
          (bindE uuid4 (\<lambda>m.
           thenE (save_membership m \<lparr>mem_org = org, mem_user = actor, mem_role = Owner, mem_status = MActive\<rparr>)
             (ret org)))))))"

section \<open>Invites\<close>

definition normalize_invite_email :: "string \<Rightarrow> string" where
  "normalize_invite_email email = lower (strip email)"

definition SECOND :: int where "SECOND = 1000000"

record invite_create_result =
  icr_invite :: nat
  icr_raw_token :: string
  icr_created :: bool

text \<open>\<open>raw_token\<close> is the answer of \<^verbatim>\<open>secrets.token_urlsafe(32)\<close>.\<close>

definition create_invite ::
  "env \<Rightarrow> string \<Rightarrow> nat \<Rightarrow> nat \<Rightarrow> string \<Rightarrow> string \<Rightarrow> ('x, invite_create_result) org_txn" where
  "create_invite env raw_token actor org email role =
     atomic (
       case invite_role_of role of
         None \<Rightarrow> raiseE (EOrg NotAllowedError)
       | Some r \<Rightarrow>
           bindE (resolve_organization_context actor org) (\<lambda>ctx.
           thenE (require_invite ctx)
           (thenE (guardE (case cx_org ctx of None \<Rightarrow> False | Some (_, o') \<Rightarrow> org_status o' = OrgActive) (EOrg NotAllowedError))
           (let normalized = normalize_invite_email email
            in if normalized = [] then raiseE (EOrg NotAllowedError)
               else
                 bindE (getsE (\<lambda>db. find (\<lambda>u. upper (usr_email (snd u)) = upper normalized) (sort_key fst (users db)))) (\<lambda>known.
                 thenE (case known of None \<Rightarrow> ret () | Some u \<Rightarrow> reject_attributed_member (fst u) org)
                 (bindE (getsE (\<lambda>db. \<exists>m \<in> set (memberships db). mem_org (snd m) = org \<and> mem_status (snd m) = MActive \<and>
                          (case map_of (users db) (mem_user (snd m)) of
                             None \<Rightarrow> False | Some u \<Rightarrow> upper (usr_email u) = upper normalized))) (\<lambda>is_member.
                  if is_member then raiseE (EOrg InviteConflictError)
                  else
                    bindE (getsE clock) (\<lambda>now.
                    let expires = now + ORGANIZATION_INVITE_TTL_SECONDS env * SECOND; hash = sha256_hex env raw_token
                    in bindE (getsE (\<lambda>db. find (\<lambda>i. inv_org (snd i) = org \<and> inv_normalized (snd i) = normalized \<and>
                                inv_status (snd i) = IPending) (org_invites db))) (\<lambda>pending.
                       case pending of
                         Some i \<Rightarrow>
                           thenE (save_invite (fst i) ((snd i)\<lparr>inv_email := strip email, inv_role := r, inv_hash := hash,
                                    inv_expires := expires, inv_by := actor\<rparr>))
                             (ret \<lparr>icr_invite = fst i, icr_raw_token = raw_token, icr_created = False\<rparr>)
                       | None \<Rightarrow>
                           bindE uuid4 (\<lambda>pk.
                           thenE (save_invite pk \<lparr>inv_org = org, inv_email = strip email, inv_normalized = normalized,
                                    inv_role = r, inv_status = IPending, inv_hash = hash, inv_expires = expires,
                                    inv_by = actor, inv_accepted_by = None, inv_accepted_at = None, inv_revoked_at = None\<rparr>)
                             (ret \<lparr>icr_invite = pk, icr_raw_token = raw_token, icr_created = True\<rparr>)))))))))))"

definition revoke_invite :: "nat \<Rightarrow> nat \<Rightarrow> nat \<Rightarrow> ('x, nat) org_txn" where
  "revoke_invite actor org invite_id =
     atomic (
       bindE (resolve_organization_context actor org) (\<lambda>ctx.
       thenE (require_invite ctx)
       (bindE (getsE (\<lambda>db. map_of (org_invites db) invite_id)) (\<lambda>found.
        case found of
          None \<Rightarrow> raiseE (EOrg NotFound)
        | Some i \<Rightarrow>
            if inv_org i \<noteq> org then raiseE (EOrg NotFound)
            else if inv_status i \<noteq> IPending then ret invite_id
            else
              bindE (getsE clock) (\<lambda>now.
              thenE (save_invite invite_id (i\<lparr>inv_status := IRevoked, inv_revoked_at := Some now\<rparr>))
                (ret invite_id))))))"

record invite_accept_result =
  iar_membership :: nat
  iar_invite :: nat
  already_accepted :: bool

text \<open>The acceptance of a pending invite that has not expired; \<open>email\<close> is that of the request's user
  object.\<close>

definition accept_pending :: "nat \<Rightarrow> string \<Rightarrow> nat \<Rightarrow> org_invite \<Rightarrow> ('x, invite_accept_result option) org_txn" where
  "accept_pending actor email pk i =
     (if inv_status i \<noteq> IPending then raiseE (EOrg InviteInvalidError)
      else
        bindE (getsE (\<lambda>db. map_of (organizations db) (inv_org i))) (\<lambda>row.
        bindE (get_or_raise (EPy ObjectDoesNotExist) row) (\<lambda>o'.
        if org_status o' \<noteq> OrgActive then raiseE (EOrg InviteInvalidError)
        else if normalize_invite_email email \<noteq> inv_normalized i then raiseE (EOrg InviteInvalidError)
        else
          thenE (reject_attributed_member actor (inv_org i))
          (bindE (getsE (\<lambda>db. membership_of (inv_org i) actor (memberships db))) (\<lambda>found.
           bindE (case found of
                    Some m \<Rightarrow> ret m
                  | None \<Rightarrow>
                      bindE uuid4 (\<lambda>m.
                      let row = \<lparr>mem_org = inv_org i, mem_user = actor, mem_role = granted (inv_role i), mem_status = MActive\<rparr>
                      in thenE (save_membership m row) (ret (m, row)))) (\<lambda>m.
           thenE (if mem_status (snd m) \<noteq> MActive \<or> mem_role (snd m) \<noteq> granted (inv_role i)
                  then save_membership (fst m) ((snd m)\<lparr>mem_status := MActive, mem_role := granted (inv_role i)\<rparr>)
                  else ret ())
           (bindE (getsE clock) (\<lambda>now.
            thenE (save_invite pk (i\<lparr>inv_status := IAccepted, inv_accepted_by := Some actor, inv_accepted_at := Some now\<rparr>))
              (ret (Some \<lparr>iar_membership = fst m, iar_invite = pk, already_accepted = False\<rparr>))))))))))"

text \<open>The \<^verbatim>\<open>atomic\<close> block of \<^verbatim>\<open>accept_invite\<close>; \<open>None\<close> is an expired invite, reported after the commit.\<close>

definition accept_block :: "env \<Rightarrow> nat \<Rightarrow> string \<Rightarrow> string \<Rightarrow> ('x, invite_accept_result option) org_txn" where
  "accept_block env actor email raw_token =
     bindE (getsE (\<lambda>db. find (\<lambda>i. inv_hash (snd i) = sha256_hex env (strip raw_token)) (org_invites db))) (\<lambda>found.
     case found of
       None \<Rightarrow> raiseE (EOrg InviteInvalidError)
     | Some (pk, i) \<Rightarrow>
         bindE (getsE clock) (\<lambda>now.
         if inv_status i = IAccepted
         then (if inv_accepted_by i = Some actor
               then bindE (getsE (\<lambda>db. membership_of (inv_org i) actor (memberships db))) (\<lambda>m.
                    bindE (get_or_raise (EPy ObjectDoesNotExist) m) (\<lambda>m.
                    ret (Some \<lparr>iar_membership = fst m, iar_invite = pk, already_accepted = True\<rparr>)))
               else raiseE (EOrg InviteInvalidError))
         else if inv_status i = IRevoked then raiseE (EOrg InviteInvalidError)
         else if inv_status i = IExpired \<or> inv_expires i \<le> now
         then thenE (if inv_status i = IPending then save_invite pk (i\<lparr>inv_status := IExpired\<rparr>) else ret ())
                (ret None)
         else accept_pending actor email pk i))"

definition accept_invite :: "env \<Rightarrow> nat \<Rightarrow> string \<Rightarrow> string \<Rightarrow> ('x, invite_accept_result) org_txn" where
  "accept_invite env actor email raw_token =
     (if strip raw_token = [] then raiseE (EOrg InviteInvalidError)
      else
        bindE (atomic (accept_block env actor email raw_token)) (\<lambda>result.
        case result of None \<Rightarrow> raiseE (EOrg InviteInvalidError) | Some r \<Rightarrow> ret r))"

definition list_pending_invites :: "nat \<Rightarrow> nat \<Rightarrow> ('x, nat list) org_txn" where
  "list_pending_invites actor org =
     bindE (resolve_organization_context actor org) (\<lambda>ctx.
     thenE (require_invite ctx)
       (getsE (\<lambda>db. map fst (filter (\<lambda>i. inv_org (snd i) = org \<and> inv_status (snd i) = IPending) (rev (org_invites db))))))"


section \<open>The team invariant\<close>

definition owner_row :: "nat \<Rightarrow> nat \<times> membership \<Rightarrow> bool" where
  "owner_row org r \<longleftrightarrow> mem_org (snd r) = org \<and> mem_role (snd r) = Owner \<and> mem_status (snd r) = MActive"

definition owner_ok :: "'x partner_db_scheme \<Rightarrow> bool" where
  "owner_ok db \<longleftrightarrow> (\<forall>o' \<in> set (organizations db). active_owner_count (fst o') (memberships db) = 1)"

definition attributed_to :: "'x partner_db_scheme \<Rightarrow> nat \<Rightarrow> channel \<Rightarrow> bool" where
  "attributed_to db user ch \<longleftrightarrow>
     (\<exists>a \<in> set (attributions db). att_user (snd a) = user \<and> map_of (channels db) (att_channel (snd a)) = Some ch)"

definition own_channel :: "'x partner_db_scheme \<Rightarrow> nat \<Rightarrow> channel \<Rightarrow> bool" where
  "own_channel db user ch \<longleftrightarrow>
     ch_kind ch = KindIndividual \<and> ch_owner ch = Some user \<or>
     ch_kind ch = KindTeam \<and> (\<exists>org. ch_org ch = Some org \<and> active_member db org user)"

definition no_self_referral :: "'x partner_db_scheme \<Rightarrow> bool" where
  "no_self_referral db \<longleftrightarrow> (\<forall>user ch. attributed_to db user ch \<longrightarrow> \<not> own_channel db user ch)"

text \<open>Keys of the tables and the foreign keys between them, and \<open>no_self_referral\<close>.\<close>

definition team_base :: "'x org_db_scheme \<Rightarrow> bool" where
  "team_base db \<longleftrightarrow>
     distinct (map fst (organizations db)) \<and> distinct (map fst (memberships db)) \<and> distinct (map fst (channels db)) \<and>
     (\<forall>r \<in> set (organizations db). fst r < next_uuid db) \<and>
     (\<forall>r \<in> set (memberships db). fst r < next_uuid db \<and> mem_org (snd r) \<in> fst ` set (organizations db)) \<and>
     (\<forall>r \<in> set (channels db). fst r < next_uuid db \<and> (\<forall>org. ch_org (snd r) = Some org \<longrightarrow>
        org \<in> fst ` set (organizations db) \<and>
        (\<forall>q \<in> set (channels db). ch_org (snd q) = Some org \<longrightarrow> q = r))) \<and>
     (\<forall>a \<in> set (attributions db). att_channel (snd a) \<in> fst ` set (channels db)) \<and>
     no_self_referral db"

definition team_ok :: "'x org_db_scheme \<Rightarrow> bool" where
  "team_ok db \<longleftrightarrow> team_base db \<and> owner_ok db"

lemma active_owner_count_alt: "active_owner_count org rows = length (filter (owner_row org) rows)"
  by (simp add: active_owner_count_def owner_row_def [abs_def])

lemma count_update:
  "distinct (map fst t) \<Longrightarrow> map_of t k = Some r0 \<Longrightarrow>
   length (filter P (AList.update k r t)) + (if P (k, r0) then 1 else 0) = length (filter P t) + (if P (k, r) then 1 else 0)"
proof (induction t)
  case (Cons p t)
  then show ?case by (cases p) (auto split: if_splits)
qed simp

lemma membership_of_Some:
  "membership_of org user rows = Some m \<Longrightarrow> m \<in> set rows \<and> mem_org (snd m) = org \<and> mem_user (snd m) = user"
  by (auto simp: membership_of_def dest: find_in)

lemma membership_row:
  "membership_of org user rows = Some m \<Longrightarrow> distinct (map fst rows) \<Longrightarrow> map_of rows (fst m) = Some (snd m)"
  using membership_of_Some [of org user rows m] by (cases m) simp

lemma team_base_frame [simp]:
  "team_base (db\<lparr>org_invites := is\<rparr>) = team_base db" "team_base (db\<lparr>events := evs\<rparr>) = team_base db"
  "owner_ok (db\<lparr>org_invites := is\<rparr>) = owner_ok db" "owner_ok (db\<lparr>next_uuid := n\<rparr>) = owner_ok db"
  "owner_ok (db\<lparr>accounts := as\<rparr>) = owner_ok db" "team_base (db\<lparr>accounts := as\<rparr>) = team_base db"
  by (simp_all add: team_base_def owner_ok_def no_self_referral_def attributed_to_def own_channel_def active_member_def)

lemma team_base_next: "team_base db \<Longrightarrow> team_base (db\<lparr>next_uuid := Suc (next_uuid db)\<rparr>)"
  by (auto simp: team_base_def no_self_referral_def attributed_to_def own_channel_def active_member_def less_SucI)

text \<open>Who may become an active member: nobody who is a customer of the team's channel.\<close>

definition member_allowed :: "'x partner_db_scheme \<Rightarrow> nat \<Rightarrow> nat \<Rightarrow> bool" where
  "member_allowed db user org \<longleftrightarrow>
     (\<forall>ch. attributed_to db user ch \<longrightarrow> \<not> (ch_kind ch = KindTeam \<and> ch_org ch = Some org))"

lemma active_member_allowed: "no_self_referral db \<Longrightarrow> active_member db org user \<Longrightarrow> member_allowed db user org"
  by (auto simp: no_self_referral_def own_channel_def member_allowed_def)

lemma team_channel_None: "team_channel org rows = None \<Longrightarrow> r \<in> set rows \<Longrightarrow> \<not> (ch_kind (snd r) = KindTeam \<and> ch_org (snd r) = Some org)"
  by (cases r) (auto simp: team_channel_def find_None_iff)

lemma team_channel_Some:
  "team_channel org rows = Some r \<Longrightarrow> r \<in> set rows \<and> ch_kind (snd r) = KindTeam \<and> ch_org (snd r) = Some org"
  unfolding team_channel_def by (drule find_in) simp

lemma reject_attributed_Inr:
  assumes "reject_attributed_member user org db = (Inr x, db')" "team_base db"
  shows "db' = db" "member_allowed db user org"
proof -
  have run: "ensure_active_membership_allowed user org db = (Inr x, db')"
    using assms(1) by (auto simp: reject_attributed_member_def txn_iff split: if_splits)
  then show "db' = db"
    by (auto simp: ensure_active_membership_allowed_def lock_self_referral_rows_def txn_iff split: option.splits)
  show "member_allowed db user org"
  proof (unfold member_allowed_def, intro allI impI notI)
    fix ch assume a: "attributed_to db user ch" and t: "ch_kind ch = KindTeam \<and> ch_org ch = Some org"
    then obtain k att where ch: "map_of (channels db) k = Some ch" "att \<in> set (attributions db)"
        "att_user (snd att) = user" "att_channel (snd att) = k"
      by (auto simp: attributed_to_def)
    have mem: "(k, ch) \<in> set (channels db)" using ch(1) by (rule map_of_SomeD)
    show False
    proof (cases "team_channel org (channels db)")
      case None
      then show False using team_channel_None [OF None mem] t by simp
    next
      case (Some r)
      have "r = (k, ch)" using team_channel_Some [OF Some] mem t assms(2) by (force simp: team_base_def)
      then show False
        using run Some ch by (auto simp: ensure_active_membership_allowed_def lock_self_referral_rows_def txn_iff)
    qed
  qed
qed

definition member_passes :: "nat \<Rightarrow> nat \<Rightarrow> 'x org_db_scheme \<Rightarrow> bool" where
  "member_passes user org db \<longleftrightarrow> (\<exists>x. fst (reject_attributed_member user org db) = Inr x)"

lemma reject_attributed_iff:
  "team_base db \<Longrightarrow> reject_attributed_member user org db = (Inr x, db') \<longleftrightarrow> db' = db \<and> member_passes user org db"
proof
  assume b: "team_base db" and "db' = db \<and> member_passes user org db"
  then obtain y where "fst (reject_attributed_member user org db) = Inr y" "db' = db" by (auto simp: member_passes_def)
  then have "reject_attributed_member user org db = (Inr x, snd (reject_attributed_member user org db))"
    by (metis old.unit.exhaust prod.collapse)
  then show "reject_attributed_member user org db = (Inr x, db')"
    using reject_attributed_Inr(1) [OF _ b] \<open>db' = db\<close> by metis
next
  assume b: "team_base db" and "reject_attributed_member user org db = (Inr x, db')"
  then show "db' = db \<and> member_passes user org db"
    using reject_attributed_Inr(1) [OF _ b] by (simp add: member_passes_def)
qed

lemma member_passes_allowed: "team_base db \<Longrightarrow> member_passes user org db \<Longrightarrow> member_allowed db user org"
  using reject_attributed_iff reject_attributed_Inr(2) by blast

lemma reject_attributed_Inl: "reject_attributed_member user org db = (Inl e, db') \<Longrightarrow> db' = db"
  by (auto simp: reject_attributed_member_def ensure_active_membership_allowed_def lock_self_referral_rows_def txn_iff
      split: option.splits if_splits)

lemma save_membership_iff:
  "save_membership k row db = (Inr x, db') \<longleftrightarrow>
     \<not> (\<exists>r \<in> set (memberships db). clashes k row r) \<and> db' = db\<lparr>memberships := AList.update k row (memberships db)\<rparr>"
  by (auto simp: save_membership_def txn_iff)

lemma save_membership_Inl: "save_membership k row db = (Inl e, db') \<Longrightarrow> db' = db"
  by (auto simp: save_membership_def txn_iff split: if_splits)

lemma team_base_save:
  assumes ok: "team_base db" and k: "k < next_uuid db" and org: "mem_org row \<in> fst ` set (organizations db)"
    and guard: "mem_status row = MActive \<Longrightarrow> member_allowed db (mem_user row) (mem_org row)"
  shows "team_base (db\<lparr>memberships := AList.update k row (memberships db)\<rparr>)"
proof -
  let ?db = "db\<lparr>memberships := AList.update k row (memberships db)\<rparr>"
  have d: "distinct (map fst (memberships db))" and ns: "no_self_referral db" using ok by (simp_all add: team_base_def)
  have act: "active_member ?db o' u \<Longrightarrow> active_member db o' u \<or> mem_status row = MActive \<and> mem_org row = o' \<and> mem_user row = u" for o' u
    unfolding active_member_def by (force simp: set_AList_update [OF d])
  have same: "attributed_to ?db = attributed_to db" by (simp add: attributed_to_def [abs_def])
  have "no_self_referral ?db"
    unfolding no_self_referral_def same
  proof (intro allI impI notI)
    fix u ch assume a: "attributed_to db u ch" and o': "own_channel ?db u ch"
    then show False using ns guard act unfolding no_self_referral_def own_channel_def member_allowed_def by metis
  qed
  then show ?thesis
    using ok k org by (simp add: team_base_def set_AList_update [OF d] distinct_update)
qed

lemma owner_ok_save:
  assumes "owner_ok db" "distinct (map fst (memberships db))" "map_of (memberships db) k = Some old"
    and "\<And>o'. owner_row o' (k, row) = owner_row o' (k, old)"
  shows "owner_ok (db\<lparr>memberships := AList.update k row (memberships db)\<rparr>)"
proof -
  have "length (filter (owner_row o') (AList.update k row (memberships db))) = length (filter (owner_row o') (memberships db))" for o'
    using assms(2,3) assms(4) [of o'] by (rule length_filter_AList_update)
  then show ?thesis using assms(1) by (simp add: owner_ok_def active_owner_count_alt)
qed

lemma resolve_org_context_iff:
  "resolve_organization_context u org db = (Inr ctx, db') \<longleftrightarrow>
     db' = db \<and> (\<exists>o' m. map_of (organizations db) org = Some o' \<and> membership_of org u (memberships db) = Some m \<and>
       mem_status (snd m) = MActive \<and>
       ctx = \<lparr>cx_account = org_account o', cx_org = Some (org, o'), cx_membership = Some m,
              cx_permissions = Some (permissions_for_role (mem_role (snd m)))\<rparr>)"
  by (auto simp: resolve_organization_context_def txn_iff)

lemma resolve_org_context_Inl: "resolve_organization_context u org db = (Inl e, db') \<Longrightarrow> db' = db"
  by (auto simp: resolve_organization_context_def txn_iff split: if_splits)

lemmas require_defs = require_org_mutation_def require_permission_def require_spend_def require_assign_esim_def
  require_manage_members_def require_transfer_ownership_def require_archive_org_def require_invite_def require_device_bind_def


lemma membership_key:
  "team_base db \<Longrightarrow> membership_of org u (memberships db) = Some m \<Longrightarrow>
   map_of (memberships db) (fst m) = Some (snd m) \<and> fst m < next_uuid db \<and> mem_org (snd m) = org \<and>
   mem_user (snd m) = u \<and> org \<in> fst ` set (organizations db)"
  using membership_row [of org u "memberships db" m] membership_of_Some [of org u "memberships db" m]
  by (auto simp: team_base_def)


text \<open>Saving a row of a member that is already there.\<close>

lemma team_ok_resave:
  assumes ok: "team_ok db" and m: "membership_of org u (memberships db) = Some (k, r0)"
    and row: "mem_org row = mem_org r0" "mem_user row = mem_user r0" "\<And>o'. owner_row o' (k, row) = owner_row o' (k, r0)"
    and guard: "mem_status row = MActive \<Longrightarrow> mem_status r0 = MActive \<or> member_allowed db u org"
  shows "team_ok (db\<lparr>memberships := AList.update k row (memberships db)\<rparr>)"
proof -
  have b: "team_base db" "owner_ok db" using ok by (simp_all add: team_ok_def)
  note key = membership_key [OF b(1) m, simplified]
  have "active_member db org u" if "mem_status r0 = MActive"
    using key that map_of_SomeD [of "memberships db" k r0] by (force simp: active_member_def)
  then have "team_base (db\<lparr>memberships := AList.update k row (memberships db)\<rparr>)"
    by (intro team_base_save) (use b key row guard in \<open>auto simp: team_base_def intro: active_member_allowed\<close>)
  moreover have "owner_ok (db\<lparr>memberships := AList.update k row (memberships db)\<rparr>)"
    by (rule owner_ok_save [where old = r0]) (use b key row in \<open>simp_all add: team_base_def\<close>)
  ultimately show ?thesis by (simp add: team_ok_def)
qed

lemma team_ok_frame [simp]: "team_ok (db\<lparr>events := evs\<rparr>) = team_ok db" "team_ok (db\<lparr>org_invites := is\<rparr>) = team_ok db"
  by (simp_all add: team_ok_def owner_ok_def)

lemma grantable_not_owner: "grantable_role s = Some r \<Longrightarrow> r \<noteq> Owner"
  by (auto simp: grantable_role_def split: if_splits)

lemma team_ok_base: "team_ok db \<Longrightarrow> team_base db" by (simp add: team_ok_def)

lemma set_member_role_team: "keeps team_ok (set_member_role actor org u role)"
  unfolding set_member_role_def
proof (rule keeps_atomic_ok, goal_cases)
  case (1 db x t)
  have "\<exists>k r0 q. membership_of org u (memberships db) = Some (k, r0) \<and> q \<noteq> Owner \<and> mem_role r0 \<noteq> Owner \<and>
      mem_status r0 = MActive \<and> t = db\<lparr>memberships := AList.update k (r0\<lparr>mem_role := q\<rparr>) (memberships db)\<rparr>"
    using 1(2)
    by (clarsimp simp: txn_ok resolve_org_context_iff require_defs save_membership_iff reject_attributed_iff [OF team_ok_base [OF 1(1)]])
      (blast dest: grantable_not_owner)
  then show ?case
    by (elim exE conjE) (simp add: team_ok_resave [OF 1(1)] owner_row_def)
qed

lemma active_owner_one:
  assumes "team_ok db" "membership_of org u (memberships db) = Some (k, r)" "mem_role r = Owner" "mem_status r = MActive"
  shows "active_owner_count org (memberships db) = 1"
  using assms membership_key [of db org u "(k, r)"] by (auto simp: team_ok_def owner_ok_def)

lemma revoke_membership_team: "keeps team_ok (revoke_membership actor org u)"
  unfolding revoke_membership_def
proof (rule keeps_atomic_ok, goal_cases)
  case (1 db x t)
  have "t = db \<or> (\<exists>k r0. membership_of org u (memberships db) = Some (k, r0) \<and>
      (mem_role r0 = Owner \<and> mem_status r0 = MActive \<longrightarrow> active_owner_count org (memberships db) > 1) \<and>
      t = db\<lparr>memberships := AList.update k (r0\<lparr>mem_status := MRevoked\<rparr>) (memberships db)\<rparr>)"
    using 1(2)
    by (clarsimp simp: txn_ok resolve_org_context_iff require_defs save_membership_iff Let_def not_le) blast
  then show ?case
  proof (elim disjE exE conjE)
    fix k r0 assume m: "membership_of org u (memberships db) = Some (k, r0)"
      and c: "mem_role r0 = Owner \<and> mem_status r0 = MActive \<longrightarrow> 1 < active_owner_count org (memberships db)"
      and t: "t = db\<lparr>memberships := AList.update k (r0\<lparr>mem_status := MRevoked\<rparr>) (memberships db)\<rparr>"
    have "\<not> (mem_role r0 = Owner \<and> mem_status r0 = MActive)" using c active_owner_one [OF 1(1) m] by simp
    then show ?thesis unfolding t by (intro team_ok_resave [OF 1(1) m]) (auto simp: owner_row_def)
  qed (use 1(1) in simp)
qed

lemma count_zero_one:
  "length (filter P t) = 1 \<Longrightarrow> distinct (map fst t) \<Longrightarrow> map_of t k = Some a \<Longrightarrow> P (k, a) \<Longrightarrow> map_of t j = Some b \<Longrightarrow>
   P (j, b) \<Longrightarrow> j = k"
  by (metis filter_le_one fst_conv le_refl map_of_SomeD)

lemma transfer_ownership_team: "keeps team_ok (transfer_ownership actor org u)"
  unfolding transfer_ownership_def
proof (rule keeps_atomic_ok, goal_cases)
  case (1 db x t)
  have b: "team_base db" "owner_ok db" using 1(1) by (simp_all add: team_ok_def)
  have "t = db \<or> (\<exists>ko own kt target. membership_of org actor (memberships db) = Some (ko, own) \<and>
      membership_of org u (memberships db) = Some (kt, target) \<and> mem_status own = MActive \<and>
      mem_status target = MActive \<and> mem_role own = Owner \<and> kt \<noteq> ko \<and>
      t = db\<lparr>memberships := AList.update kt (target\<lparr>mem_role := Owner\<rparr>)
                (AList.update ko (own\<lparr>mem_role := Admin\<rparr>) (memberships db))\<rparr>)"
    using 1(2) membership_key [OF b(1), of org actor]
    by (clarsimp simp: txn_ok resolve_org_context_iff require_defs save_membership_iff reject_attributed_iff [OF b(1)]) auto
  then show ?case
  proof (elim disjE exE conjE)
    fix ko own kt target
    assume mo: "membership_of org actor (memberships db) = Some (ko, own)"
      and mt: "membership_of org u (memberships db) = Some (kt, target)"
      and st: "mem_status own = MActive" "mem_status target = MActive" "mem_role own = Owner" "kt \<noteq> ko"
      and t: "t = db\<lparr>memberships := AList.update kt (target\<lparr>mem_role := Owner\<rparr>)
                (AList.update ko (own\<lparr>mem_role := Admin\<rparr>) (memberships db))\<rparr>"
    let ?own = "own\<lparr>mem_role := Admin\<rparr>" and ?target = "target\<lparr>mem_role := Owner\<rparr>"
    let ?db = "db\<lparr>memberships := AList.update ko ?own (memberships db)\<rparr>"
    note ko = membership_key [OF b(1) mo, simplified] and kt = membership_key [OF b(1) mt, simplified]
    have act: "active_member db org actor" "active_member db org u"
      using ko kt st map_of_SomeD [of "memberships db" ko own] map_of_SomeD [of "memberships db" kt target]
      by (force simp: active_member_def)+
    have ns: "no_self_referral db" and d: "distinct (map fst (memberships db))" using b(1) by (simp_all add: team_base_def)
    have b1: "team_base ?db"
      by (rule team_base_save) (use b ko active_member_allowed [OF ns act(1)] in \<open>simp_all add: team_base_def\<close>)
    have "team_base t"
      unfolding t
      using team_base_save [OF b1, of kt ?target] kt active_member_allowed [OF ns act(2)] by (simp add: member_allowed_def attributed_to_def)
    moreover have "owner_ok t"
      unfolding owner_ok_def
    proof
      fix o' assume o': "o' \<in> set (organizations t)"
      have one: "length (filter (owner_row (fst o')) (memberships db)) = 1"
        using o' b(2) by (simp add: t owner_ok_def active_owner_count_alt)
      have no: "\<not> owner_row org (kt, target)" if "fst o' = org"
        using count_zero_one [OF one d, of ko own kt target] ko kt st that by (auto simp: owner_row_def)
      have c1: "length (filter (owner_row (fst o')) (AList.update ko ?own (memberships db))) + (if fst o' = org then 1 else 0) = 1"
        using count_update [OF d, of ko own "owner_row (fst o')" ?own] ko st one by (auto simp: owner_row_def)
      have "length (filter (owner_row (fst o')) (AList.update kt ?target (AList.update ko ?own (memberships db)))) =
          length (filter (owner_row (fst o')) (AList.update ko ?own (memberships db))) + (if fst o' = org then 1 else 0)"
        using count_update [of "AList.update ko ?own (memberships db)" kt target "owner_row (fst o')" ?target] d kt st no
        by (auto simp: owner_row_def distinct_update)
      then show "active_owner_count (fst o') (memberships t) = 1"
        using c1 by (simp add: t active_owner_count_alt)
    qed
    ultimately show ?thesis by (simp add: team_ok_def)
  qed (use 1(1) in simp)
qed

lemma team_ok_orgs:
  assumes "map fst (organizations (db\<lparr>organizations := os\<rparr>)) = map fst (organizations db)"
  shows "team_ok (db\<lparr>organizations := os\<rparr>) = team_ok db"
proof -
  have k: "fst ` set os = fst ` set (organizations db)" "map fst os = map fst (organizations db)"
    using assms by (simp, metis list.set_map) (use assms in simp)
  have "(\<forall>r \<in> set os. P (fst r)) = (\<forall>r \<in> set (organizations db). P (fst r))" for P
    using k(1) by (metis (no_types, lifting) image_iff)
  note ball = this [of "\<lambda>k. k < next_uuid db"] this [of "\<lambda>k. active_owner_count k (memberships db) = Suc 0"]
  have "no_self_referral (db\<lparr>organizations := os\<rparr>) = no_self_referral db"
    by (simp add: no_self_referral_def attributed_to_def own_channel_def active_member_def)
  then show ?thesis by (simp add: team_ok_def team_base_def owner_ok_def k ball)
qed

lemma set_organization_status_team: "keeps team_ok (set_organization_status actor org s)"
  unfolding set_organization_status_def
proof (rule keeps_atomic_ok, goal_cases)
  case (1 db x t)
  have "t = db \<or> (\<exists>o' st. map_of (organizations db) org = Some o' \<and>
      t = db\<lparr>organizations := AList.update org (o'\<lparr>org_status := st\<rparr>) (organizations db)\<rparr>)"
    using 1(2) by (clarsimp simp: txn_ok resolve_org_context_iff save_organization_def require_defs) blast
  then show ?case
  proof (elim disjE exE conjE)
    fix o' st assume o': "map_of (organizations db) org = Some o'"
      and t: "t = db\<lparr>organizations := AList.update org (o'\<lparr>org_status := st\<rparr>) (organizations db)\<rparr>"
    have k: "map fst (organizations t) = map fst (organizations db)" by (simp add: t keys_AList_update_old [OF o'])
    show ?thesis using team_ok_orgs [OF k [unfolded t]] 1(1) by (simp add: t)
  qed (use 1(1) in simp)
qed


text \<open>A new organization, with the owner who made it.\<close>

lemma create_organization_Inr:
  assumes "create_organization name actor status db = (Inr pk, t)"
  shows "t = db\<lparr>next_uuid := next_uuid db + 3,
      accounts := AList.update (next_uuid db) \<lparr>acc_user = None, acc_kind = ORGANIZATION, balance = 0, version = 0, acc_profile = None\<rparr> (accounts db),
      organizations := AList.update pk \<lparr>org_name = strip name, org_status = status, org_account = next_uuid db\<rparr> (organizations db),
      memberships := AList.update (next_uuid db + 2) \<lparr>mem_org = pk, mem_user = actor, mem_role = Owner, mem_status = MActive\<rparr> (memberships db)\<rparr> \<and>
    pk = next_uuid db + 1"
  using assms
  by (clarsimp simp: create_organization_def txn_ok uuid4_def save_account_def save_organization_def save_membership_iff)

lemma team_fresh:
  assumes "team_base db" "next_uuid db \<le> n"
  shows "n \<notin> fst ` set (organizations db)" "n \<notin> fst ` set (memberships db)" "n \<notin> fst ` set (channels db)"
    "r \<in> set (memberships db) \<Longrightarrow> mem_org (snd r) \<noteq> n" "q \<in> set (channels db) \<Longrightarrow> ch_org (snd q) \<noteq> Some n"
proof -
  have o': "fst r < next_uuid db" if "r \<in> set (organizations db)" for r using assms(1) that by (simp add: team_base_def)
  have "fst r < next_uuid db" if "r \<in> set (memberships db)" for r using assms(1) that by (simp add: team_base_def)
  then show "n \<notin> fst ` set (memberships db)" using assms(2) by force
  have "fst r < next_uuid db" if "r \<in> set (channels db)" for r using assms(1) that by (simp add: team_base_def)
  then show "n \<notin> fst ` set (channels db)" using assms(2) by force
  show n: "n \<notin> fst ` set (organizations db)" using o' assms(2) by force
  show "mem_org (snd r) \<noteq> n" if "r \<in> set (memberships db)" using assms(1) that n unfolding team_base_def by blast
  show "ch_org (snd q) \<noteq> Some n" if "q \<in> set (channels db)" using assms(1) that n unfolding team_base_def by blast
qed

lemma create_organization_team: "keeps team_ok (create_organization name actor status)"
proof (rule keepsI)
  fix db :: "'a org_db_scheme" and r t assume ok: "team_ok db" and run: "create_organization name actor status db = (r, t)"
  show "team_ok t"
  proof (cases r)
    case (Inl e)
    then show ?thesis using run ok by (auto simp: create_organization_def atomic_iff)
  next
    case (Inr pk)
    note T = create_organization_Inr [OF run [unfolded Inr]]
    let ?org = "\<lparr>org_name = strip name, org_status = status, org_account = next_uuid db\<rparr>"
    let ?m = "\<lparr>mem_org = pk, mem_user = actor, mem_role = Owner, mem_status = MActive\<rparr>"
    have b: "team_base db" "owner_ok db" using ok by (simp_all add: team_ok_def)
    have pk: "next_uuid db \<le> pk" using T by simp
    note fresh = team_fresh [OF b(1) pk] and fresh2 = team_fresh [OF b(1), of "next_uuid db + 2"]
    have os: "organizations t = organizations db @ [(pk, ?org)]" using T fresh(1) by (simp add: AList_update_new)
    have ms: "memberships t = memberships db @ [(next_uuid db + 2, ?m)]" using T fresh2(2) by (simp add: AList_update_new)
    have rest: "channels t = channels db" "attributions t = attributions db" "next_uuid t = next_uuid db + 3" using T by simp_all
    have own: "own_channel t u ch \<Longrightarrow> attributed_to db u ch \<Longrightarrow> own_channel db u ch" for u ch
      using fresh(5) by (auto simp: own_channel_def active_member_def ms attributed_to_def dest!: map_of_SomeD)
    have "no_self_referral t"
      using b(1) own by (auto simp: no_self_referral_def attributed_to_def rest team_base_def)
    moreover have "pk < next_uuid t" "next_uuid db + 2 < next_uuid t" "next_uuid db \<le> next_uuid t" using T by simp_all
    ultimately have "team_base t"
      using b(1) fresh(1) fresh2(2) unfolding team_base_def os ms rest(1,2)
      by (simp add: order_less_le_trans) (auto intro: order_less_le_trans)
    moreover have "filter (owner_row pk) (memberships db) = []"
      using fresh(4) by (auto simp: filter_empty_conv owner_row_def)
    then have "owner_ok t"
      using b(2) fresh(1) by (auto simp: owner_ok_def os ms active_owner_count_alt owner_row_def)
    ultimately show ?thesis by (simp add: team_ok_def)
  qed
qed

lemma invite_frames:
  "keeps team_ok (save_invite k i)"
  by (auto simp: keeps_def save_invite_def txn_defs)

lemma team_ok_uuid: "keeps team_ok uuid4"
  by (simp add: keeps_def uuid4_def team_ok_def team_base_next)

lemma resolve_org_keeps: "keeps I (resolve_organization_context u org)"
  by (auto simp: keeps_def resolve_organization_context_def txn_defs split: option.splits)

lemma reject_keeps: "keeps I (reject_attributed_member u org)"
  by (auto simp: keeps_def reject_attributed_member_def ensure_active_membership_allowed_def lock_self_referral_rows_def txn_defs
      split: option.splits prod.splits sum.splits if_splits)

lemma require_keeps:
  "keeps I (require_invite c)" "keeps I (require_manage_members c)" "keeps I (require_spend c)" "keeps I (require_device_bind c)"
  "keeps I (require_transfer_ownership c)" "keeps I (require_archive_org c)"
  by (auto simp: keeps_def require_defs txn_defs split: option.splits)

lemma create_invite_team: "keeps team_ok (create_invite env tok actor org email role)"
  unfolding create_invite_def Let_def
  by (intro keeps_intros resolve_org_keeps reject_keeps require_keeps invite_frames team_ok_uuid)

lemma revoke_invite_team: "keeps team_ok (revoke_invite actor org i)"
  unfolding revoke_invite_def
  by (intro keeps_intros resolve_org_keeps require_keeps invite_frames)


lemma granted_not_owner [simp]: "granted r \<noteq> Owner"
  by (cases r) simp_all

lemma owner_ok_nonowner:
  assumes "owner_ok db" "\<And>o'. \<not> owner_row o' (k, row)" "\<And>o' old. map_of (memberships db) k = Some old \<Longrightarrow> \<not> owner_row o' (k, old)"
    and "distinct (map fst (memberships db))"
  shows "owner_ok (db\<lparr>memberships := AList.update k row (memberships db)\<rparr>)"
proof (cases "map_of (memberships db) k")
  case None
  then have "k \<notin> fst ` set (memberships db)" by (simp add: map_of_eq_None_iff)
  then show ?thesis using assms(1,2) by (simp add: owner_ok_def active_owner_count_alt AList_update_new)
next
  case (Some old)
  then show ?thesis by (rule owner_ok_save [OF assms(1,4)]) (use assms(2,3) Some in blast)
qed

text \<open>What an acceptance writes: the invite, and the membership if it has to change.\<close>

definition accepted :: "org_invite \<Rightarrow> nat \<Rightarrow> int \<Rightarrow> org_invite" where
  "accepted i actor now = i\<lparr>inv_status := IAccepted, inv_accepted_by := Some actor, inv_accepted_at := Some now\<rparr>"

lemma accept_pending_Inr:
  assumes "accept_pending actor email pk i db = (Inr r, t)" "team_base db"
  shows "inv_status i = IPending \<and> normalize_invite_email email = inv_normalized i \<and>
    member_passes actor (inv_org i) db \<and>
    (\<exists>o'. map_of (organizations db) (inv_org i) = Some o' \<and> org_status o' = OrgActive) \<and>
    (\<exists>k. r = Some \<lparr>iar_membership = k, iar_invite = pk, already_accepted = False\<rparr> \<and>
       t = db\<lparr>next_uuid := next_uuid t, memberships := memberships t, org_invites := org_invites t\<rparr> \<and>
       org_invites t = AList.update pk (accepted i actor (clock db)) (org_invites db) \<and>
       (if membership_of (inv_org i) actor (memberships db) = None
        then k = next_uuid db \<and> next_uuid t = Suc k \<and> memberships t =
          AList.update k \<lparr>mem_org = inv_org i, mem_user = actor, mem_role = granted (inv_role i), mem_status = MActive\<rparr> (memberships db)
        else next_uuid t = next_uuid db \<and> (\<exists>r0. membership_of (inv_org i) actor (memberships db) = Some (k, r0) \<and>
          (mem_status r0 = MActive \<and> mem_role r0 = granted (inv_role i) \<and> memberships t = memberships db \<or>
           memberships t = AList.update k (r0\<lparr>mem_status := MActive, mem_role := granted (inv_role i)\<rparr>) (memberships db)))))"
  using assms(1)
  by (clarsimp simp: accept_pending_def txn_ok reject_attributed_iff [OF assms(2)] save_membership_iff uuid4_def
      save_invite_def Let_def accepted_def split: if_splits) auto

text \<open>Not the acceptance of an owner into a smaller role: that is the one case that loses the owner.\<close>

lemma accept_pending_team:
  assumes ok: "team_ok db" and run: "accept_pending actor email pk i db = (Inr r, t)"
    and own: "\<And>k m. membership_of (inv_org i) actor (memberships db) = Some (k, m) \<Longrightarrow> \<not> (mem_role m = Owner \<and> mem_status m = MActive)"
  shows "team_ok t"
proof -
  have b: "team_base db" "owner_ok db" and d: "distinct (map fst (memberships db))"
    using ok by (simp_all add: team_ok_def team_base_def)
  from accept_pending_Inr [OF run b(1)] show ?thesis
  proof (elim conjE exE)
    fix k o'
    assume pass: "member_passes actor (inv_org i) db" and org: "map_of (organizations db) (inv_org i) = Some o'"
    and t: "t = db\<lparr>next_uuid := next_uuid t, memberships := memberships t, org_invites := org_invites t\<rparr>"
    and ms: "if membership_of (inv_org i) actor (memberships db) = None
        then k = next_uuid db \<and> next_uuid t = Suc k \<and> memberships t =
          AList.update k \<lparr>mem_org = inv_org i, mem_user = actor, mem_role = granted (inv_role i), mem_status = MActive\<rparr> (memberships db)
        else next_uuid t = next_uuid db \<and> (\<exists>r0. membership_of (inv_org i) actor (memberships db) = Some (k, r0) \<and>
          (mem_status r0 = MActive \<and> mem_role r0 = granted (inv_role i) \<and> memberships t = memberships db \<or>
           memberships t = AList.update k (r0\<lparr>mem_status := MActive, mem_role := granted (inv_role i)\<rparr>) (memberships db)))"
  have key: "inv_org i \<in> fst ` set (organizations db)" using org by (rule map_of_in_keys)
  note allowed = member_passes_allowed [OF b(1) pass]
  have "team_ok (db\<lparr>next_uuid := next_uuid t, memberships := memberships t\<rparr>)"
  proof (cases "membership_of (inv_org i) actor (memberships db)")
    case None
    let ?row = "\<lparr>mem_org = inv_org i, mem_user = actor, mem_role = granted (inv_role i), mem_status = MActive\<rparr>"
    let ?db = "db\<lparr>next_uuid := Suc (next_uuid db)\<rparr>"
    have e: "db\<lparr>next_uuid := next_uuid t, memberships := memberships t\<rparr> =
        ?db\<lparr>memberships := AList.update (next_uuid db) ?row (memberships ?db)\<rparr>" using ms None by simp
    have "team_base (?db\<lparr>memberships := AList.update (next_uuid db) ?row (memberships ?db)\<rparr>)"
      by (rule team_base_save [OF team_base_next [OF b(1)]])
        (use key allowed in \<open>simp_all add: member_allowed_def attributed_to_def\<close>)
    moreover have "owner_ok (?db\<lparr>memberships := AList.update (next_uuid db) ?row (memberships ?db)\<rparr>)"
      by (rule owner_ok_nonowner) (use b(2) d team_fresh(2) [OF b(1), of "next_uuid db"] in
          \<open>auto simp: owner_row_def simp del: map_of_eq_Some_iff dest: map_of_in_keys\<close>)
    ultimately show ?thesis unfolding e team_ok_def by blast
  next
    case (Some q)
    obtain r0 where r0: "membership_of (inv_org i) actor (memberships db) = Some (k, r0)" "next_uuid t = next_uuid db"
      "memberships t = memberships db \<or>
       memberships t = AList.update k (r0\<lparr>mem_status := MActive, mem_role := granted (inv_role i)\<rparr>) (memberships db)"
      using ms Some by auto
    note mk = membership_key [OF b(1) r0(1), simplified]
    from r0(3) show ?thesis
    proof
      assume m: "memberships t = AList.update k (r0\<lparr>mem_status := MActive, mem_role := granted (inv_role i)\<rparr>) (memberships db)"
      have "team_base (db\<lparr>memberships := memberships t\<rparr>)"
        unfolding m by (rule team_base_save [OF b(1)]) (use mk key allowed in simp_all)
      moreover have "owner_ok (db\<lparr>memberships := memberships t\<rparr>)"
        unfolding m by (rule owner_ok_nonowner [OF b(2) _ _ d]) (use mk own [OF r0(1)] in \<open>auto simp: owner_row_def\<close>)
      ultimately show ?thesis by (simp add: team_ok_def r0(2))
    qed (use ok r0(2) in simp)
  qed
  then have "team_ok (db\<lparr>next_uuid := next_uuid t, memberships := memberships t, org_invites := org_invites t\<rparr>)"
    by (simp only: team_ok_frame)
  then show ?thesis by (simp only: t [symmetric])
  qed
qed

lemma accept_block_team:
  assumes ok: "team_ok db" and run: "accept_block env actor email tok db = (Inr r, t)"
    and own: "\<And>pk i k m. (pk, i) \<in> set (org_invites db) \<Longrightarrow> inv_hash i = sha256_hex env (strip tok) \<Longrightarrow>
      membership_of (inv_org i) actor (memberships db) = Some (k, m) \<Longrightarrow> \<not> (mem_role m = Owner \<and> mem_status m = MActive)"
  shows "team_ok t"
proof (cases "find (\<lambda>i. inv_hash (snd i) = sha256_hex env (strip tok)) (org_invites db)")
  case None
  then show ?thesis using run by (simp add: accept_block_def txn_ok)
next
  case (Some q)
  obtain pk i where q: "q = (pk, i)" by (cases q)
  have p: "team_ok t" if "accept_pending actor email pk i db = (Inr r, t)"
    by (rule accept_pending_team [OF ok that]) (use own find_in [OF Some] q in fastforce)
  show ?thesis
    using run Some ok p
    by (cases "inv_status i") (auto simp: q accept_block_def txn_ok save_invite_def)
qed


text \<open>One membership per organization and user, which \<^verbatim>\<open>uniq_membership_org_user\<close> enforces.\<close>

definition members_unique :: "'x partner_db_scheme \<Rightarrow> bool" where
  "members_unique db \<longleftrightarrow> distinct (map fst (memberships db)) \<and>
     (\<forall>r \<in> set (memberships db). \<forall>q \<in> set (memberships db).
        mem_org (snd r) = mem_org (snd q) \<and> mem_user (snd r) = mem_user (snd q) \<longrightarrow> r = q)"

lemma members_unique_frame [simp]:
  "members_unique (db\<lparr>accounts := as\<rparr>) = members_unique db" "members_unique (db\<lparr>next_uuid := n\<rparr>) = members_unique db"
  "members_unique (db\<lparr>organizations := os\<rparr>) = members_unique db" "members_unique (odb\<lparr>org_invites := is\<rparr>) = members_unique odb"
  by (simp_all add: members_unique_def)

lemma save_membership_unique: "keeps members_unique (save_membership k row)"
proof (rule keepsI)
  fix db :: "'x org_db_scheme" and r t
  assume u: "members_unique db" and run: "save_membership k row db = (r, t)"
  have d: "distinct (map fst (memberships db))" using u by (simp add: members_unique_def)
  show "members_unique t"
  proof (cases r)
    case (Inl e)
    then show ?thesis using run u save_membership_Inl by blast
  next
    case (Inr x)
    with run have nc: "\<not> (\<exists>r \<in> set (memberships db). clashes k row r)"
      and t: "t = db\<lparr>memberships := AList.update k row (memberships db)\<rparr>"
      by (simp_all add: save_membership_iff)
    show ?thesis
      using u nc unfolding t members_unique_def
      by (auto simp: set_AList_update [OF d] distinct_update clashes_def)
  qed
qed

lemma unique_frames:
  "keeps members_unique uuid4" "keeps members_unique (save_account a row)" "keeps members_unique (save_organization k o')"
  "keeps members_unique (save_invite k i)"
  by (auto simp: keeps_def uuid4_def save_account_def save_organization_def save_invite_def txn_defs split: if_splits)

lemma team_operations_unique:
  "keeps members_unique (transfer_ownership actor org u)" "keeps members_unique (set_member_role actor org u role)"
  "keeps members_unique (revoke_membership actor org u)" "keeps members_unique (set_organization_status actor org status)"
  "keeps members_unique (create_organization name actor st)"
  "keeps members_unique (create_invite env raw actor org email role)" "keeps members_unique (revoke_invite actor org k)"
  "keeps members_unique (accept_invite env actor email tok)"
  unfolding transfer_ownership_def set_member_role_def revoke_membership_def set_organization_status_def
    create_organization_def create_invite_def revoke_invite_def accept_invite_def accept_block_def accept_pending_def Let_def
  by (intro conjI keeps_intros resolve_org_keeps reject_keeps require_keeps unique_frames save_membership_unique; fail)+

section \<open>Properties\<close>

lemma keeps_snd: "keeps I m \<Longrightarrow> I s \<Longrightarrow> I (snd (m s))"
  by (simp add: keeps_def)

text \<open>C12. Every operation on a team keeps the team invariant, except one acceptance: each organization has
  exactly one active owner, a user has at most one membership per organization, and nobody is an active
  member of the organization, or the owner, of the channel they are a customer of. The exception is the
  acceptance of an invite by a user who is the active owner of the inviting organization.\<close>

theorem team_invariant_kept:
  assumes ok: "team_ok db" "members_unique db"
    and own: "\<And>pk i k m. (pk, i) \<in> set (org_invites db) \<Longrightarrow> inv_hash i = sha256_hex env (strip tok) \<Longrightarrow>
      membership_of (inv_org i) actor (memberships db) = Some (k, m) \<Longrightarrow> \<not> (mem_role m = Owner \<and> mem_status m = MActive)"
    and op: "db' \<in> {snd (transfer_ownership actor org u db), snd (set_member_role actor org u role db),
      snd (revoke_membership actor org u db), snd (set_organization_status actor org status db),
      snd (create_organization name actor st db), snd (create_invite env raw actor org email role db),
      snd (revoke_invite actor org k db), snd (accept_invite env actor email tok db)}"
  shows "team_ok db' \<and> (\<forall>o' \<in> set (organizations db'). active_owner_count (fst o') (memberships db') = 1) \<and>
    members_unique db' \<and> no_self_referral db'"
proof -
  have "team_ok (snd (accept_invite env actor email tok db))"
    using accept_block_team [OF ok(1) _ own] ok(1)
    by (cases "accept_block env actor email tok db")
      (auto simp: accept_invite_def txn_defs split: sum.splits option.splits prod.splits)
  moreover note K = keeps_snd [OF transfer_ownership_team ok(1)] keeps_snd [OF set_member_role_team ok(1)]
      keeps_snd [OF revoke_membership_team ok(1)] keeps_snd [OF set_organization_status_team ok(1)]
      keeps_snd [OF create_organization_team ok(1)] keeps_snd [OF create_invite_team ok(1)] keeps_snd [OF revoke_invite_team ok(1)]
  ultimately have "team_ok db'" using op by (elim insertE emptyE) (simp_all add: K)
  moreover have "members_unique db'"
    using op by (elim insertE emptyE) (simp_all add: keeps_snd [where I = members_unique, OF _ ok(2)] team_operations_unique)
  ultimately show ?thesis by (simp add: team_ok_def owner_ok_def team_base_def)
qed

lemma accept_first:
  assumes "accept_invite env actor email tok db = (Inr r, t)" "\<not> already_accepted r"
  shows "\<exists>pk i.
    find (\<lambda>i. inv_hash (snd i) = sha256_hex env (strip tok)) (org_invites db) = Some (pk, i) \<and> strip tok \<noteq> [] \<and>
    accept_pending actor email pk i db = (Inr (Some r), t)"
proof -
  have n: "strip tok \<noteq> []" and run: "accept_block env actor email tok db = (Inr (Some r), t)"
    using assms(1) by (auto simp: accept_invite_def txn_ok)
  obtain pk i where f: "find (\<lambda>i. inv_hash (snd i) = sha256_hex env (strip tok)) (org_invites db) = Some (pk, i)"
    using run by (auto simp: accept_block_def txn_ok)
  show ?thesis
    using run assms(2) f n
    by (cases "inv_status i") (auto simp: accept_block_def txn_ok)
qed

lemma find_update_same:
  "find P t = Some (k, r0) \<Longrightarrow> distinct (map fst t) \<Longrightarrow> P (k, r) = P (k, r0) \<Longrightarrow>
   find P (AList.update k r t) = Some (k, r)"
proof (induction t)
  case (Cons p t)
  then show ?case
    by (cases p) (auto split: if_splits dest!: find_in)
qed simp

lemma membership_of_update:
  "map_of t k = Some r0 \<Longrightarrow> distinct (map fst t) \<Longrightarrow> membership_of org u t = Some (k, r0) \<Longrightarrow>
   mem_org r = mem_org r0 \<Longrightarrow> mem_user r = mem_user r0 \<Longrightarrow> membership_of org u (AList.update k r t) = Some (k, r)"
  unfolding membership_of_def by (rule find_update_same) auto

lemma membership_of_append: "membership_of org u t = None \<Longrightarrow> mem_org r = org \<Longrightarrow> mem_user r = u \<Longrightarrow>
   membership_of org u (t @ [(k, r)]) = Some (k, r)"
  by (simp add: membership_of_def find_append)

lemma accept_pending_member:
  assumes run: "accept_pending actor email pk i db = (Inr r, t)" and ok: "team_base db"
  shows "\<exists>k m. r = Some \<lparr>iar_membership = k, iar_invite = pk, already_accepted = False\<rparr> \<and>
    membership_of (inv_org i) actor (memberships t) = Some (k, m) \<and> mem_status m = MActive \<and>
    mem_role m = granted (inv_role i)"
  using accept_pending_Inr [OF run ok]
proof (elim conjE exE)
  fix o' k
  assume r: "r = Some \<lparr>iar_membership = k, iar_invite = pk, already_accepted = False\<rparr>"
    and ms: "if membership_of (inv_org i) actor (memberships db) = None
        then k = next_uuid db \<and> next_uuid t = Suc k \<and> memberships t =
          AList.update k \<lparr>mem_org = inv_org i, mem_user = actor, mem_role = granted (inv_role i), mem_status = MActive\<rparr> (memberships db)
        else next_uuid t = next_uuid db \<and> (\<exists>r0. membership_of (inv_org i) actor (memberships db) = Some (k, r0) \<and>
          (mem_status r0 = MActive \<and> mem_role r0 = granted (inv_role i) \<and> memberships t = memberships db \<or>
           memberships t = AList.update k (r0\<lparr>mem_status := MActive, mem_role := granted (inv_role i)\<rparr>) (memberships db)))"
  show ?thesis
  proof (cases "membership_of (inv_org i) actor (memberships db)")
    case None
    then show ?thesis
      using r ms membership_of_append [OF None] team_fresh(2) [OF ok, of "next_uuid db"] by (simp add: AList_update_new)
  next
    case (Some q)
    then obtain r0 where r0: "membership_of (inv_org i) actor (memberships db) = Some (k, r0)"
      "mem_status r0 = MActive \<and> mem_role r0 = granted (inv_role i) \<and> memberships t = memberships db \<or>
       memberships t = AList.update k (r0\<lparr>mem_status := MActive, mem_role := granted (inv_role i)\<rparr>) (memberships db)"
      using ms by auto
    have dm: "distinct (map fst (memberships db))" using ok by (simp add: team_base_def)
    from r0(2) show ?thesis
      using membership_of_update [OF _ dm r0(1)] membership_key [OF ok r0(1)] r0(1) r by auto
  qed
qed

lemma accept_pending_frame:
  assumes "accept_pending actor email pk i db = (Inr r, t)" "team_base db"
  shows "inv_status i = IPending" "org_invites t = AList.update pk (accepted i actor (clock db)) (org_invites db)"
    "users t = users db" "accounts t = accounts db" "ledger t = ledger db"
proof -
  note A = accept_pending_Inr [OF assms]
  show "inv_status i = IPending" using A by (rule conjunct1)
  show "org_invites t = AList.update pk (accepted i actor (clock db)) (org_invites db)"
    using A by (elim conjE exE) assumption
  have t: "t = db\<lparr>next_uuid := next_uuid t, memberships := memberships t, org_invites := org_invites t\<rparr>"
    using A by (elim conjE exE) assumption
  show "users t = users db" "accounts t = accounts db" "ledger t = ledger db" by (subst t, simp)+
qed

text \<open>An invite works once. After an acceptance that returned, the actor is an active member with the
  invited role, no account and no ledger row changed, the same actor accepting again gets the same
  answer and changes nothing, and any other user is refused.\<close>

theorem accept_once:
  assumes ok: "team_base db" and d: "distinct (map fst (org_invites db))"
    and run: "accept_invite env actor email tok db = (Inr r, t)" and first: "\<not> already_accepted r"
    and other: "other \<noteq> actor"
  shows "(\<exists>i m. find (\<lambda>i. inv_hash (snd i) = sha256_hex env (strip tok)) (org_invites db) = Some (iar_invite r, i) \<and>
      inv_status i = IPending \<and>
      membership_of (inv_org i) actor (memberships t) = Some (iar_membership r, m) \<and> mem_status m = MActive \<and>
      mem_role m = granted (inv_role i)) \<and>
    accounts t = accounts db \<and> ledger t = ledger db \<and>
    accept_invite env actor email tok t = (Inr (r\<lparr>already_accepted := True\<rparr>), t) \<and>
    accept_invite env other email' tok t = (Inl (EOrg InviteInvalidError), t)"
proof -
  obtain pk i where
    f: "find (\<lambda>i. inv_hash (snd i) = sha256_hex env (strip tok)) (org_invites db) = Some (pk, i)"
    and n: "strip tok \<noteq> []" and p: "accept_pending actor email pk i db = (Inr (Some r), t)"
    using accept_first [OF run first] by blast
  note F = accept_pending_frame [OF p ok]
  obtain k m where r: "r = \<lparr>iar_membership = k, iar_invite = pk, already_accepted = False\<rparr>"
    and m: "membership_of (inv_org i) actor (memberships t) = Some (k, m)" "mem_status m = MActive"
      "mem_role m = granted (inv_role i)"
    using accept_pending_member [OF p ok] by auto
  have f2: "find (\<lambda>i. inv_hash (snd i) = sha256_hex env (strip tok)) (org_invites t) = Some (pk, accepted i actor (clock db))"
    unfolding F(2) by (rule find_update_same [OF f d]) (simp add: accepted_def)
  have "accept_invite env actor email tok t = (Inr (r\<lparr>already_accepted := True\<rparr>), t)"
    using n f2 m(1) by (simp add: accept_invite_def accept_block_def txn_defs accepted_def r)
  moreover have "accept_invite env other email' tok t = (Inl (EOrg InviteInvalidError), t)"
    using n f2 other by (simp add: accept_invite_def accept_block_def txn_defs accepted_def)
  ultimately show ?thesis using f m F(1,4,5) r by (intro conjI exI [of _ i] exI [of _ m]) simp_all
qed


text \<open>Who may change a team: a call that changed the memberships was made by an active owner or admin of
  an active organization; handing over the ownership takes the owner, and no role change or revocation
  touches the owner's membership.\<close>

theorem member_changes_authorized:
  assumes ok: "team_ok db"
    and op: "db' = snd (set_member_role actor org u role db) \<or> db' = snd (revoke_membership actor org u db) \<or>
      transfer \<and> db' = snd (transfer_ownership actor org u db)"
    and changed: "memberships db' \<noteq> memberships db"
  shows "\<exists>o' k m. map_of (organizations db) org = Some o' \<and> org_status o' = OrgActive \<and>
      membership_of org actor (memberships db) = Some (k, m) \<and> mem_status m = MActive \<and> mem_role m \<in> {Owner, Admin} \<and>
      (mem_role m = Owner \<or>
       (\<exists>j old row. membership_of org u (memberships db) = Some (j, old) \<and>
          \<not> (mem_role old = Owner \<and> mem_status old = MActive) \<and> memberships db' = AList.update j row (memberships db)))"
proof -
  have b: "team_base db" by (rule team_ok_base [OF ok])
  have perm: "can_manage_members (permissions_for_role q) \<Longrightarrow> q \<in> {Owner, Admin}" for q by (cases q) simp_all
  have permt: "can_transfer_ownership (permissions_for_role q) \<Longrightarrow> q = Owner" for q by (cases q) simp_all
  consider x where "set_member_role actor org u role db = (Inr x, db')"
    | x where "revoke_membership actor org u db = (Inr x, db')"
    | x where "transfer_ownership actor org u db = (Inr x, db')"
  proof -
    have "snd (atomic m db) \<noteq> db \<Longrightarrow> \<exists>x. atomic m db = (Inr x, snd (atomic m db))" for m :: "('a, nat) org_txn"
      by (auto simp: atomic_def split: prod.splits sum.splits)
    then have "memberships (snd (atomic m db)) \<noteq> memberships db \<Longrightarrow> \<exists>x. atomic m db = (Inr x, snd (atomic m db))" for m :: "('a, nat) org_txn"
      by metis
    then show thesis
      using op changed that unfolding set_member_role_def revoke_membership_def transfer_ownership_def by blast
  qed
  then show ?thesis
  proof cases
    case 1
    then show ?thesis
      by (clarsimp simp: set_member_role_def txn_ok resolve_org_context_iff require_defs save_membership_iff reject_attributed_iff [OF b])
        (use perm in blast)
  next
    case 2
    then show ?thesis
      using active_owner_one [OF ok] changed
      by (clarsimp simp: revoke_membership_def txn_ok resolve_org_context_iff require_defs save_membership_iff Let_def)
        (use perm in fastforce)
  next
    case 3
    then show ?thesis
      by (clarsimp simp: transfer_ownership_def txn_ok resolve_org_context_iff require_defs save_membership_iff reject_attributed_iff [OF b])
        (use permt in blast)
  qed
qed


definition demo_invite :: "string \<Rightarrow> invite_role \<Rightarrow> string \<Rightarrow> org_invite" where
  "demo_invite email role hash = \<lparr>inv_org = 0, inv_email = email, inv_normalized = email, inv_role = role,
     inv_status = IPending, inv_hash = hash, inv_expires = 2000, inv_by = 8, inv_accepted_by = None,
     inv_accepted_at = None, inv_revoked_at = None\<rparr>"

definition demo_org_db :: org_db where
  "demo_org_db = partner_db.extend demo_partner_db
     \<lparr>users = [(7, \<lparr>usr_email = ''c'', usr_active = True, usr_staff = False\<rparr>),
              (8, \<lparr>usr_email = ''o'', usr_active = True, usr_staff = False\<rparr>),
              (9, \<lparr>usr_email = ''n'', usr_active = True, usr_staff = False\<rparr>)],
      org_invites = [(0, demo_invite ''n'' InviteAdmin ''ht9''), (1, demo_invite ''o'' InviteViewer ''ht8'')],
      visits = [], pendings = []\<rparr>"

lemma demo_org_db_simps [simp]:
  "users demo_org_db = [(7, \<lparr>usr_email = ''c'', usr_active = True, usr_staff = False\<rparr>),
     (8, \<lparr>usr_email = ''o'', usr_active = True, usr_staff = False\<rparr>),
     (9, \<lparr>usr_email = ''n'', usr_active = True, usr_staff = False\<rparr>)]"
  "memberships demo_org_db = memberships demo_partner_db" "organizations demo_org_db = organizations demo_partner_db"
  "channels demo_org_db = channels demo_partner_db" "attributions demo_org_db = attributions demo_partner_db"
  "next_uuid demo_org_db = 3" "clock demo_org_db = 1000" "visits demo_org_db = []" "pendings demo_org_db = []"
  "accounts demo_org_db = accounts demo_partner_db" "ledger demo_org_db = ledger demo_partner_db"
  "org_invites demo_org_db = [(0, demo_invite ''n'' InviteAdmin ''ht9''), (1, demo_invite ''o'' InviteViewer ''ht8'')]"
  by (simp_all add: demo_org_db_def partner_db.defs demo_partner_db_def demo_deposit_db_def demo_wallet_db_def
      demo_voucher_db_def demo_pricing_db_def demo_db_def credit_db.defs pricing_db.defs voucher_db.defs wallet_db.defs deposit_db.defs)

lemma demo_team_ok: "team_ok demo_org_db"
  by (simp add: team_ok_def team_base_def owner_ok_def active_owner_count_def no_self_referral_def attributed_to_def
      own_channel_def demo_attribution_def demo_channel_def active_member_def)

lemma demo_tokens [simp]: "strip ''t9'' = ''t9''" "strip ''t8'' = ''t8''" "sha256_hex demo_env s = CHR ''h'' # s"
  "normalize_invite_email ''n'' = ''n''" "normalize_invite_email ''o'' = ''o''"
  by (code_simp, code_simp, simp add: demo_env_def, code_simp, code_simp)

lemma demo_passes: "reject_attributed_member 9 0 demo_org_db = (Inr (), demo_org_db)"
    "reject_attributed_member 8 0 demo_org_db = (Inr (), demo_org_db)"
  by (simp_all add: reject_attributed_member_def ensure_active_membership_allowed_def lock_self_referral_rows_def
      team_channel_def demo_channel_def demo_attribution_def txn_defs)

lemma demo_accept: "\<exists>t. accept_invite demo_env 9 ''n'' ''t9'' demo_org_db =
   (Inr \<lparr>iar_membership = 3, iar_invite = 0, already_accepted = False\<rparr>, t)"
  by (simp add: accept_invite_def accept_block_def accept_pending_def txn_defs demo_passes membership_of_def uuid4_def
      save_membership_def save_invite_def clashes_def demo_invite_def Let_def)

theorem accept_once_witness:
  "\<exists>(t :: org_db) m. membership_of 0 9 (memberships t) = Some (3, m) \<and> mem_role m = Admin \<and>
     accept_invite demo_env 7 ''c'' ''t9'' t = (Inl (EOrg InviteInvalidError), t)"
proof -
  obtain t where run: "accept_invite demo_env 9 ''n'' ''t9'' demo_org_db =
      (Inr \<lparr>iar_membership = 3, iar_invite = 0, already_accepted = False\<rparr>, t)" using demo_accept by blast
  from accept_once [OF team_ok_base [OF demo_team_ok] _ run, of 7 "''c''"] show ?thesis
    by (auto simp: demo_invite_def)
qed

lemma demo_unique: "members_unique demo_org_db"
  by (simp add: members_unique_def)

theorem team_invariant_kept_witness: "team_ok (snd (accept_invite demo_env 9 ''n'' ''t9'' demo_org_db))"
  by (rule team_invariant_kept [where tok = "''t9''" and actor = 9 and env = demo_env, OF demo_team_ok demo_unique, THEN conjunct1])
    (auto simp: membership_of_def demo_invite_def)

lemma demo_accepted_ok: "team_ok (snd (accept_invite demo_env 9 ''n'' ''t9'' demo_org_db))"
  using accept_block_team [OF demo_team_ok, of demo_env 9 "''n''" "''t9''"] demo_accept
  by (auto simp: accept_invite_def txn_ok membership_of_def demo_invite_def) (simp add: txn_defs)

lemma demo_revoke: "memberships (snd (revoke_membership 8 0 9 (snd (accept_invite demo_env 9 ''n'' ''t9'' demo_org_db)))) \<noteq>
    memberships (snd (accept_invite demo_env 9 ''n'' ''t9'' demo_org_db))"
  by (simp add: accept_invite_def accept_block_def accept_pending_def txn_defs demo_passes membership_of_def uuid4_def
      save_membership_def save_invite_def clashes_def demo_invite_def Let_def revoke_membership_def
      resolve_organization_context_def require_defs active_owner_count_def)

theorem member_changes_authorized_witness:
  "\<exists>k m. membership_of 0 8 (memberships (snd (accept_invite demo_env 9 ''n'' ''t9'' demo_org_db))) = Some (k, m) \<and>
     mem_role m \<in> {Owner, Admin}"
  using member_changes_authorized [OF demo_accepted_ok, of _ 8 0 9 "''viewer''" False] demo_revoke
  by metis

lemma active_member_passes:
  assumes ok: "team_base db" and act: "active_member db org u" and row: "map_of (users db) u = Some row"
  shows "reject_attributed_member u org db = (Inr (), db)"
proof -
  have "\<not> (\<exists>r \<in> set (attributions db). att_user (snd r) = u \<and> att_channel (snd r) = fst ch)"
    if ch: "team_channel org (channels db) = Some ch" for ch
  proof
    assume "\<exists>r \<in> set (attributions db). att_user (snd r) = u \<and> att_channel (snd r) = fst ch"
    moreover have "map_of (channels db) (fst ch) = Some (snd ch)"
      using team_channel_Some [OF ch] ok by (simp add: team_base_def)
    ultimately have "attributed_to db u (snd ch)" by (auto simp: attributed_to_def)
    then show False
      using team_channel_Some [OF ch] ok act by (auto simp: team_base_def no_self_referral_def own_channel_def)
  qed
  then show ?thesis
    using row
    by (cases "team_channel org (channels db)")
      (auto simp: reject_attributed_member_def ensure_active_membership_allowed_def lock_self_referral_rows_def txn_defs)
qed

text \<open>C13. The gap in the ownership invariant. When the active owner of an active organization accepts a
  pending invite into it that has not expired and is addressed to the e-mail they now have, the call
  returns, the owner's membership gets the invited role, and the organization is left without an
  active owner.\<close>

theorem accept_can_lose_owner:
  assumes ok: "team_ok db" "members_unique db" and tok: "strip tok \<noteq> []" and user: "map_of (users db) actor = Some row"
    and inv: "find (\<lambda>i. inv_hash (snd i) = sha256_hex env (strip tok)) (org_invites db) = Some (pk, i)"
      "inv_status i = IPending" "clock db < inv_expires i" "normalize_invite_email email = inv_normalized i"
    and sound: "distinct (map (\<lambda>r. inv_hash (snd r)) (org_invites db))" "length (inv_email i) \<le> 254"
      "length (inv_normalized i) \<le> 254"
    and org: "map_of (organizations db) (inv_org i) = Some o'" "org_status o' = OrgActive"
    and m: "membership_of (inv_org i) actor (memberships db) = Some (k, m)" "mem_role m = Owner" "mem_status m = MActive"
  shows "\<exists>t. accept_invite env actor email tok db =
      (Inr \<lparr>iar_membership = k, iar_invite = pk, already_accepted = False\<rparr>, t) \<and>
    membership_of (inv_org i) actor (memberships t) = Some (k, m\<lparr>mem_role := granted (inv_role i)\<rparr>) \<and>
    active_owner_count (inv_org i) (memberships t) = 0"
proof -
  let ?m = "m\<lparr>mem_role := granted (inv_role i)\<rparr>"
  let ?ms = "AList.update k ?m (memberships db)"
  have b: "team_base db" and d: "distinct (map fst (memberships db))"
    using ok(1) by (simp_all add: team_ok_def team_base_def)
  note key = membership_key [OF b m(1), simplified]
  have mem: "(k, m) \<in> set (memberships db)" using key by (blast intro: map_of_SomeD)
  have "active_member db (inv_org i) actor" using mem key m by (force simp: active_member_def)
  note pass = active_member_passes [OF b this user]
  let ?i = "accepted i actor (clock db)" and ?db = "db\<lparr>memberships := ?ms\<rparr>"
  have "\<not> (\<exists>r \<in> set (memberships db). clashes k ?m r)"
    using ok(2) mem by (force simp: members_unique_def clashes_def)
  then have sm: "save_membership k ?m db = (Inr (), ?db)" by (simp only: save_membership_iff simp_thms)
  have "\<not> (\<exists>r \<in> set (org_invites db). fst r \<noteq> pk \<and> inv_hash (snd r) = inv_hash i)"
    using sound(1) find_in [OF inv(1)] unfolding distinct_map inj_on_def by force
  then have si: "save_invite pk ?i ?db = (Inr (), ?db\<lparr>org_invites := AList.update pk ?i (org_invites db)\<rparr>)"
    using sound(2,3) by (auto simp: save_invite_def txn_defs accepted_def)
  have st: "m\<lparr>mem_status := MActive, mem_role := granted (inv_role i)\<rparr> = ?m" using m(3) by simp
  have sm': "save_membership k (m\<lparr>mem_status := MActive, mem_role := granted (inv_role i)\<rparr>) db = (Inr (), ?db)"
    unfolding st by (rule sm)
  have "accept_pending actor email pk i db =
      (Inr (Some \<lparr>iar_membership = k, iar_invite = pk, already_accepted = False\<rparr>),
       ?db\<lparr>org_invites := AList.update pk ?i (org_invites db)\<rparr>)"
    using inv(2,4) org m pass sm' si not_sym [OF granted_not_owner [of "inv_role i"]]
    by (simp add: accept_pending_def txn_defs accepted_def)
  then have run: "accept_invite env actor email tok db =
      (Inr \<lparr>iar_membership = k, iar_invite = pk, already_accepted = False\<rparr>,
       ?db\<lparr>org_invites := AList.update pk ?i (org_invites db)\<rparr>)"
    using tok inv(1-3) by (simp add: accept_invite_def accept_block_def txn_defs)
  have "active_owner_count (inv_org i) ?ms = 0"
    using count_update [OF d, of k m "owner_row (inv_org i)" ?m] key m active_owner_one [OF ok(1) m(1,2,3)]
    by (simp add: active_owner_count_alt owner_row_def)
  moreover have "membership_of (inv_org i) actor ?ms = Some (k, ?m)"
    by (rule membership_of_update [OF _ d m(1)]) (use key in simp_all)
  ultimately show ?thesis using run by simp
qed

theorem accept_can_lose_owner_witness:
  "active_owner_count 0 (memberships demo_org_db) = 1 \<and>
   (\<exists>t r. accept_invite demo_env 8 ''o'' ''t8'' demo_org_db = (Inr r, t) \<and> active_owner_count 0 (memberships t) = 0)"
proof -
  have "\<exists>t. accept_invite demo_env 8 ''o'' ''t8'' demo_org_db =
      (Inr \<lparr>iar_membership = 0, iar_invite = 1, already_accepted = False\<rparr>, t) \<and>
    membership_of 0 8 (memberships t) =
      Some (0, \<lparr>mem_org = 0, mem_user = 8, mem_role = Owner, mem_status = MActive\<rparr>\<lparr>mem_role := Viewer\<rparr>) \<and>
    active_owner_count 0 (memberships t) = 0"
    using accept_can_lose_owner [OF demo_team_ok demo_unique, where tok = "''t8''" and env = demo_env and actor = 8
        and pk = 1 and i = "demo_invite ''o'' InviteViewer ''ht8''" and email = "''o''" and k = 0
        and m = "\<lparr>mem_org = 0, mem_user = 8, mem_role = Owner, mem_status = MActive\<rparr>"]
    by (simp add: demo_invite_def membership_of_def)
  then show ?thesis by (auto simp: active_owner_count_def)
qed

end
