(* ===== verification/Snapshot.thy ===== *)
theory Snapshot
  imports Deposits "HOL-Library.Char_ord" "HOL-Library.List_Lexorder"
begin

text \<open>
  The purchase-time product snapshot, \<^verbatim>\<open>orders/product_snapshot.py\<close>: what an order keeps of the catalog
  package, and the normalization of the provider's coverage JSON into a sorted list of countries with
  their operators. A column that may be null in an old order is an option. Names compare by \<^verbatim>\<open>casefold\<close>, which on ASCII is \<open>lower\<close>; strings and codes are ordered
  as Python orders them, by code point. \<open>str_of\<close> is Python's \<^verbatim>\<open>str\<close> on a JSON number, list or object.
\<close>

section \<open>The code\<close>

definition dict_get :: "string \<Rightarrow> (string \<times> json) list \<Rightarrow> json" where
  "dict_get k kvs = (case map_of kvs k of None \<Rightarrow> JNull | Some v \<Rightarrow> v)"

fun json_str :: "(json \<Rightarrow> string) \<Rightarrow> json \<Rightarrow> string" where
  "json_str str_of (JText s) = s"
| "json_str str_of JNull = ''None''"
| "json_str str_of (JBool b) = (if b then ''True'' else ''False'')"
| "json_str str_of v = str_of v"

definition is_capital :: "char \<Rightarrow> bool" where
  "is_capital c \<longleftrightarrow> 65 \<le> (of_char c :: nat) \<and> (of_char c :: nat) \<le> 90"

text \<open>\<^verbatim>\<open>_COUNTRY_CODE_RE.fullmatch\<close>.\<close>

definition country_code_ok :: "string \<Rightarrow> bool" where
  "country_code_ok s \<longleftrightarrow> length s = 2 \<and> list_all is_capital s"

record coverage =
  cov_code :: string
  cov_name :: "string option"
  cov_operators :: "string list"

fun dedupe :: "string list \<Rightarrow> string list \<Rightarrow> string list" where
  "dedupe seen [] = []"
| "dedupe seen (x # xs) =
     (if lower x \<in> set seen then dedupe seen xs else x # dedupe (lower x # seen) xs)"

text \<open>The name of one element of \<^verbatim>\<open>networks\<close>; \<open>None\<close> where the loop continues.\<close>

fun network_name :: "(json \<Rightarrow> string) \<Rightarrow> json \<Rightarrow> string option" where
  "network_name str_of (JObj kvs) =
     (let n = dict_get ''name'' kvs in blank_none (strip (if truthy n then json_str str_of n else [])))"
| "network_name str_of (JText s) = blank_none (strip s)"
| "network_name str_of v = None"

definition normalize_operators :: "(json \<Rightarrow> string) \<Rightarrow> json \<Rightarrow> string list" where
  "normalize_operators str_of networks =
     (case networks of
        JList ns \<Rightarrow> sort_key lower (dedupe [] (List.map_filter (network_name str_of) ns))
      | _ \<Rightarrow> [])"

definition merge_operators :: "string list \<Rightarrow> string list \<Rightarrow> string list" where
  "merge_operators left right = sort_key lower (dedupe [] (left @ right))"

definition entry_code :: "(json \<Rightarrow> string) \<Rightarrow> (string \<times> json) list \<Rightarrow> string" where
  "entry_code str_of kvs =
     (let raw = (case dict_get ''code'' kvs of JNull \<Rightarrow> dict_get ''country_code'' kvs | v \<Rightarrow> v)
      in upper (strip (if truthy raw then json_str str_of raw else [])))"

definition entry_name :: "(json \<Rightarrow> string) \<Rightarrow> (string \<times> json) list \<Rightarrow> string option" where
  "entry_name str_of kvs =
     (let raw = (case dict_get ''name'' kvs of JNull \<Rightarrow> dict_get ''country_name'' kvs | v \<Rightarrow> v)
      in case raw of JNull \<Rightarrow> None | v \<Rightarrow> blank_none (strip (json_str str_of v)))"

text \<open>One turn of the loop over the raw entries.\<close>

fun coverage_step :: "(json \<Rightarrow> string) \<Rightarrow> json \<Rightarrow> (string \<times> coverage) list \<Rightarrow> (string \<times> coverage) list" where
  "coverage_step str_of (JObj kvs) by_code =
     (let code = entry_code str_of kvs; name = entry_name str_of kvs;
          operators = normalize_operators str_of (dict_get ''networks'' kvs)
      in if \<not> country_code_ok code then by_code
         else case map_of by_code code of
           Some c \<Rightarrow>
             AList.update code
               (c\<lparr>cov_name := (if cov_name c = None \<and> name \<noteq> None then name else cov_name c),
                  cov_operators := merge_operators (cov_operators c) operators\<rparr>) by_code
         | None \<Rightarrow> AList.update code \<lparr>cov_code = code, cov_name = name, cov_operators = operators\<rparr> by_code)"
| "coverage_step str_of v by_code = by_code"

definition coverage_codes :: "(json \<Rightarrow> string) \<Rightarrow> json list \<Rightarrow> (string \<times> coverage) list" where
  "coverage_codes str_of entries = fold (coverage_step str_of) entries []"

definition normalize_coverage_snapshot :: "(json \<Rightarrow> string) \<Rightarrow> json \<Rightarrow> coverage list" where
  "normalize_coverage_snapshot str_of raw =
     (case raw of
        JList entries \<Rightarrow>
          (let by_code = coverage_codes str_of entries
           in map (\<lambda>code. the (map_of by_code code)) (sort (map fst by_code)))
      | _ \<Rightarrow> [])"

definition LEDGER_CURRENCY :: string where "LEDGER_CURRENCY = ''USD''"

record product_snapshot =
  snp_external_id :: string
  snp_title :: string
  snp_operator :: string
  snp_location :: string
  snp_country :: string
  snp_coverage_type :: string
  snp_coverage :: "coverage list option"
  snp_data :: string
  snp_validity :: "nat option"
  snp_retail :: "rat option"
  snp_currency :: string
  snp_net :: "rat option"

definition product_snapshot_kwargs :: "(json \<Rightarrow> string) \<Rightarrow> package \<Rightarrow> product_snapshot" where
  "product_snapshot_kwargs str_of p =
     \<lparr>snp_external_id = pkg_external_id p, snp_title = pkg_title p, snp_operator = pkg_operator_title p,
      snp_location = (case pkg_location p of None \<Rightarrow> [] | Some l \<Rightarrow> loc_title l),
      snp_country = (case pkg_location p of
          None \<Rightarrow> pkg_country_code p
        | Some l \<Rightarrow> if pkg_country_code p = [] then loc_country_code l else pkg_country_code p),
      snp_coverage_type = (case pkg_location p of None \<Rightarrow> [] | Some l \<Rightarrow> loc_coverage_type l),
      snp_coverage = Some (case pkg_location p of None \<Rightarrow> [] | Some l \<Rightarrow> normalize_coverage_snapshot str_of (loc_coverages l)),
      snp_data = pkg_data_allowance p, snp_validity = Some (pkg_validity_days p), snp_retail = Some (price_usd p),
      snp_currency = LEDGER_CURRENCY, snp_net = net_price_usd p\<rparr>"

section \<open>Operators\<close>

lemma dedupe_seen: "x \<in> set (dedupe seen xs) \<Longrightarrow> x \<in> set xs \<and> lower x \<notin> set seen"
  by (induction seen xs rule: dedupe.induct) (auto split: if_splits)

lemma distinct_dedupe: "distinct (map lower (dedupe seen xs))"
  by (induction seen xs rule: dedupe.induct) (auto dest: dedupe_seen)

lemma lower_dedupe: "lower ` set (dedupe seen xs) \<union> set seen = lower ` set xs \<union> set seen"
  by (induction seen xs rule: dedupe.induct) auto

definition operators_ok :: "string list \<Rightarrow> bool" where
  "operators_ok xs \<longleftrightarrow> sorted (map lower xs) \<and> distinct (map lower xs) \<and> [] \<notin> set xs"

lemma distinct_map_sort_key: "distinct (map f (sort_key g xs)) = distinct (map f xs)"
  by (simp add: distinct_map)

lemma operators_ok_dedupe:
  "[] \<notin> set xs \<Longrightarrow> operators_ok (sort_key lower (dedupe [] xs))"
  using distinct_dedupe [of "[]" xs] by (auto simp: operators_ok_def distinct_map dest: dedupe_seen)

lemma network_name_nonblank: "network_name f v = Some s \<Longrightarrow> s \<noteq> []"
  by (induction f v rule: network_name.induct) (auto simp: Let_def blank_none_def split: if_splits)

lemma normalize_operators_ok: "operators_ok (normalize_operators f networks)"
proof -
  have "operators_ok (sort_key lower (dedupe [] (List.map_filter (network_name f) ns)))" for ns
    by (rule operators_ok_dedupe) (auto simp: map_filter_def dest: network_name_nonblank)
  then show ?thesis by (simp add: normalize_operators_def operators_ok_def split: json.splits)
qed

lemma merge_operators_ok: "[] \<notin> set l \<Longrightarrow> [] \<notin> set r \<Longrightarrow> operators_ok (merge_operators l r)"
  unfolding merge_operators_def by (rule operators_ok_dedupe) simp

lemma lower_merge: "lower ` set (merge_operators l r) = lower ` set l \<union> lower ` set r"
  using lower_dedupe [of "[]" "l @ r"] by (simp add: merge_operators_def image_Un)

lemma lower_normalize:
  "lower ` set (normalize_operators f (JList ns)) = lower ` set (List.map_filter (network_name f) ns)"
  using lower_dedupe [of "[]" "List.map_filter (network_name f) ns"] by (simp add: normalize_operators_def)

section \<open>The table of countries\<close>

definition coverage_ok :: "coverage \<Rightarrow> bool" where
  "coverage_ok c \<longleftrightarrow> country_code_ok (cov_code c) \<and> cov_name c \<noteq> Some [] \<and> operators_ok (cov_operators c)"

definition table_ok :: "(string \<times> coverage) list \<Rightarrow> bool" where
  "table_ok t \<longleftrightarrow> distinct (map fst t) \<and> (\<forall>(k, c) \<in> set t. k = cov_code c \<and> coverage_ok c)"

lemma entry_name_nonblank: "entry_name f kvs \<noteq> Some []"
  by (simp add: entry_name_def Let_def blank_none_def split: json.splits)

lemma coverage_step_ok: "table_ok t \<Longrightarrow> table_ok (coverage_step f v t)"
proof (cases v)
  case (JObj kvs)
  assume ok: "table_ok t"
  then have d: "distinct (map fst t)" and rows: "\<And>k c. (k, c) \<in> set t \<Longrightarrow> k = cov_code c \<and> coverage_ok c"
    by (auto simp: table_ok_def)
  let ?code = "entry_code f kvs"
  have upd: "table_ok (AList.update ?code c t)" if "cov_code c = ?code" "coverage_ok c" for c
    using ok that by (auto simp: table_ok_def distinct_update set_AList_update)
  show ?thesis
  proof (cases "country_code_ok ?code")
    case good: True
    show ?thesis
    proof (cases "map_of t ?code")
      case None
      then show ?thesis
        using good upd normalize_operators_ok entry_name_nonblank
        by (simp add: JObj Let_def coverage_ok_def)
    next
      case (Some c)
      have c: "cov_code c = ?code" "coverage_ok c" using rows [OF map_of_SomeD [OF Some]] by simp_all
      have "[] \<notin> set (cov_operators c)" using c(2) by (simp add: coverage_ok_def operators_ok_def)
      moreover have "[] \<notin> set (normalize_operators f (dict_get ''networks'' kvs))"
        using normalize_operators_ok by (metis operators_ok_def)
      ultimately show ?thesis
        using good Some c upd merge_operators_ok entry_name_nonblank
        by (simp add: JObj Let_def coverage_ok_def)
    qed
  qed (use ok in \<open>simp add: JObj Let_def\<close>)
qed simp_all

lemma fold_ok: "table_ok t \<Longrightarrow> table_ok (fold (coverage_step f) es t)"
  by (induction es arbitrary: t) (simp_all add: coverage_step_ok)

lemma coverage_codes_ok: "table_ok (coverage_codes f es)"
  unfolding coverage_codes_def by (rule fold_ok) (simp add: table_ok_def)

text \<open>Which country codes, and which operators of a country, the entries name.\<close>

fun names_country :: "(json \<Rightarrow> string) \<Rightarrow> string \<Rightarrow> json \<Rightarrow> bool" where
  "names_country f code (JObj kvs) = (entry_code f kvs = code \<and> country_code_ok code)"
| "names_country f code v = False"

fun entry_operators :: "(json \<Rightarrow> string) \<Rightarrow> json \<Rightarrow> string list" where
  "entry_operators f (JObj kvs) = normalize_operators f (dict_get ''networks'' kvs)"
| "entry_operators f v = []"

lemma coverage_step_codes:
  "fst ` set (coverage_step f v t) = fst ` set t \<union> {code. names_country f code v}"
proof (cases v)
  case (JObj kvs)
  have u: "fst ` set (AList.update k c t) = insert k (fst ` set t)" for k and c :: coverage
    by (induction t) auto
  have n: "{code. names_country f code v} = (if country_code_ok (entry_code f kvs) then {entry_code f kvs} else {})"
    by (auto simp: JObj)
  show ?thesis
    unfolding n by (cases "map_of t (entry_code f kvs)") (simp_all add: JObj Let_def u)
qed simp_all

lemma coverage_step_operators:
  assumes "table_ok t"
  shows "(case map_of (coverage_step f v t) code of None \<Rightarrow> {} | Some c \<Rightarrow> lower ` set (cov_operators c)) =
    (case map_of t code of None \<Rightarrow> {} | Some c \<Rightarrow> lower ` set (cov_operators c)) \<union>
    (if names_country f code v then lower ` set (entry_operators f v) else {})"
proof (cases v)
  case (JObj kvs)
  show ?thesis
  proof (cases "country_code_ok (entry_code f kvs)")
    case True
    then show ?thesis
      by (cases "map_of t (entry_code f kvs)"; cases "code = entry_code f kvs") (simp_all add: JObj Let_def lower_merge)
  next
    case False
    then have "\<not> names_country f code v" by (auto simp: JObj)
    then show ?thesis using False by (simp add: JObj Let_def del: names_country.simps)
  qed
qed simp_all

lemma fold_codes: "fst ` set (fold (coverage_step f) es t) = fst ` set t \<union> {code. \<exists>v \<in> set es. names_country f code v}"
  by (induction es arbitrary: t) (auto simp: coverage_step_codes)

lemma fold_operators:
  "table_ok t \<Longrightarrow>
   (case map_of (fold (coverage_step f) es t) code of None \<Rightarrow> {} | Some c \<Rightarrow> lower ` set (cov_operators c)) =
   (case map_of t code of None \<Rightarrow> {} | Some c \<Rightarrow> lower ` set (cov_operators c)) \<union>
   (\<Union>v \<in> {v \<in> set es. names_country f code v}. lower ` set (entry_operators f v))"
proof (induction es arbitrary: t)
  case (Cons v es)
  show ?case
    using Cons.IH [OF coverage_step_ok [OF Cons.prems], of f v] coverage_step_operators [OF Cons.prems, of f v code]
    by (auto simp del: coverage_step.simps split: if_splits)
qed simp

section \<open>Properties\<close>

text \<open>C14. The shape of a coverage snapshot, whatever JSON the catalog holds: country codes are two capital letters
  in strictly increasing order, a name is not blank, and a country's operators are non-blank, sorted and
  distinct without regard to case.\<close>

theorem coverage_snapshot_shape:
  "sorted (map cov_code (normalize_coverage_snapshot str_of raw)) \<and>
   distinct (map cov_code (normalize_coverage_snapshot str_of raw)) \<and>
   (\<forall>c \<in> set (normalize_coverage_snapshot str_of raw).
      country_code_ok (cov_code c) \<and> cov_name c \<noteq> Some [] \<and> operators_ok (cov_operators c))"
proof (cases raw)
  case (JList es)
  let ?t = "coverage_codes str_of es"
  have ok: "table_ok ?t" by (rule coverage_codes_ok)
  have row: "the (map_of ?t k) = c \<and> cov_code c = k \<and> coverage_ok c" if "(k, c) \<in> set ?t" for k c
    using ok that by (auto simp: table_ok_def)
  have codes: "map cov_code (normalize_coverage_snapshot str_of raw) = sort (map fst ?t)"
    using row by (simp add: JList normalize_coverage_snapshot_def Let_def) (intro map_idI, force)
  have "coverage_ok c" if "c \<in> set (normalize_coverage_snapshot str_of raw)" for c
    using that row by (force simp: JList normalize_coverage_snapshot_def Let_def)
  then show ?thesis using ok unfolding codes by (simp add: coverage_ok_def table_ok_def)
qed (simp_all add: normalize_coverage_snapshot_def)

definition demo_coverage :: json where
  "demo_coverage = JObj [(''code'', JText '' us''), (''networks'', JList [JText ''B'', JText ''a'', JText ''b''])]"

lemma demo_country: "names_country str_of ''US'' demo_coverage"
proof -
  have "upper (strip '' us'') = ''US''" "country_code_ok ''US''" by code_simp+
  then show ?thesis by (simp add: demo_coverage_def entry_code_def dict_get_def)
qed

theorem coverage_snapshot_shape_witness:
  "sorted (map cov_code (normalize_coverage_snapshot (\<lambda>_. []) (JList [demo_coverage, JNull])))"
  using coverage_snapshot_shape [of "\<lambda>_. []" "JList [demo_coverage, JNull]"] by blast

text \<open>A coverage snapshot loses and invents nothing: its countries are exactly the ones some entry names with a
  valid code, and the operators of a country are, up to case, those of all entries that name it.\<close>

theorem coverage_snapshot_complete:
  "cov_code ` set (normalize_coverage_snapshot str_of (JList es)) = {code. \<exists>v \<in> set es. names_country str_of code v} \<and>
   (\<forall>c \<in> set (normalize_coverage_snapshot str_of (JList es)).
      lower ` set (cov_operators c) =
        (\<Union>v \<in> {v \<in> set es. names_country str_of (cov_code c) v}. lower ` set (entry_operators str_of v)))"
proof -
  let ?t = "coverage_codes str_of es"
  have ok: "table_ok ?t" by (rule coverage_codes_ok)
  have row: "map_of ?t k = Some c \<and> cov_code c = k" if "(k, c) \<in> set ?t" for k c
    using ok that by (auto simp: table_ok_def)
  have set: "set (normalize_coverage_snapshot str_of (JList es)) = snd ` set ?t"
    using row by (force simp: normalize_coverage_snapshot_def Let_def image_iff)
  have "cov_code ` snd ` set ?t = fst ` set ?t" using row by force
  then have codes: "cov_code ` set (normalize_coverage_snapshot str_of (JList es)) = {code. \<exists>v \<in> set es. names_country str_of code v}"
    unfolding set by (simp add: coverage_codes_def fold_codes)
  have "lower ` set (cov_operators c) =
      (\<Union>v \<in> {v \<in> set es. names_country str_of (cov_code c) v}. lower ` set (entry_operators str_of v))"
    if "c \<in> snd ` set ?t" for c
    using that row fold_operators [of "[]" str_of es "cov_code c"] by (force simp: coverage_codes_def table_ok_def)
  then show ?thesis using codes by (simp add: set)
qed

theorem coverage_snapshot_complete_witness:
  "''US'' \<in> cov_code ` set (normalize_coverage_snapshot (\<lambda>_. []) (JList [JNull, demo_coverage]))"
  using coverage_snapshot_complete [of "\<lambda>_. []" "[JNull, demo_coverage]"] demo_country by fastforce

end
