(* ===== verification/Inventory.thy ===== *)
theory Inventory
  imports Members Snapshot
begin

text \<open>
  Orders, eSIMs, top-ups and subscriptions as rows: \<^verbatim>\<open>orders/models.py\<close>, \<^verbatim>\<open>esims/models.py\<close>, the
  \<^verbatim>\<open>Subscription\<close> of \<^verbatim>\<open>billing/models.py\<close> and the \<^verbatim>\<open>SubscriptionRenewalCycle\<close> of \<^verbatim>\<open>partner_channel.py\<close>, with
  the constraints an insert can break, and \<^verbatim>\<open>esims/services/initial_credit.py\<close>. A service that got a row
  from the database holds a Python object of it; where the code saves only some columns of a possibly
  stale object, the model passes the object and writes those columns into the stored row.
\<close>

section \<open>Tables\<close>

datatype order_status = ODraft | OPendingPayment | OPaid | OFulfilling | OFulfilled | OFailed | OCancelled

text \<open>\<^verbatim>\<open>retail_price_usd\<close> is \<open>snp_retail\<close> of the product columns and \<open>col_charged\<close> of the pricing columns.\<close>

record order_row =
  ord_account :: nat
  ord_package :: nat
  ord_status :: order_status
  ord_external :: string
  ord_ref :: string
  ord_key :: "string option"
  ord_product :: product_snapshot
  ord_pricing :: pricing_columns
  ord_created :: int
  ord_updated :: int

datatype esim_status =
  Purchased | InstallationStarted | Installed | Activated | InUse | Exhausted | EsimExpired | StatusUnknown

fun esim_status_value :: "esim_status \<Rightarrow> string" where
  "esim_status_value Purchased = ''purchased''"
| "esim_status_value InstallationStarted = ''installation_started''"
| "esim_status_value Installed = ''installed''"
| "esim_status_value Activated = ''activated''"
| "esim_status_value InUse = ''in_use''"
| "esim_status_value Exhausted = ''exhausted''"
| "esim_status_value EsimExpired = ''expired''"
| "esim_status_value StatusUnknown = ''unknown''"

record install_data =
  ins_lpa :: string
  ins_matching_id :: string
  ins_qrcode :: string
  ins_qrcode_url :: string
  ins_apple_url :: string
  ins_manual :: string
  ins_qrcode_steps :: string
  ins_guide_url :: string

record usage_cache =
  use_remaining :: "int option"
  use_total :: "int option"
  use_status :: string
  use_unlimited :: "bool option"
  use_expired :: "int option"
  use_synced :: "int option"

record esim =
  es_account :: nat
  es_user :: nat
  es_assigned :: "nat option"
  es_order :: nat
  es_iccid :: string
  es_install :: install_data
  es_status :: esim_status
  es_policy :: string
  es_operator :: string
  es_setup_version :: string
  es_resume :: "int option"
  es_completed :: "int option"
  es_skipped :: "int option"
  es_usage :: usage_cache
  es_note :: string
  es_archived :: "int option"
  es_created :: int
  es_updated :: int

datatype topup_status = TFulfilling | TFulfilled | TFailed

record topup_row =
  tu_account :: nat
  tu_esim :: nat
  tu_package :: string
  tu_amount :: rat
  tu_pricing :: pricing_columns
  tu_net :: "rat option"
  tu_status :: topup_status
  tu_sequence :: "nat option"
  tu_provider_status :: string
  tu_external :: string
  tu_key :: "string option"
  tu_created :: int
  tu_updated :: int

datatype event_source = FromClient | FromSystem | FromProvider

record lifecycle_event =
  le_esim :: nat
  le_user :: nat
  le_type :: string
  le_source :: event_source
  le_schema :: int
  le_key :: string
  le_session :: "string option"
  le_payload :: json
  le_agent :: string
  le_at :: int

datatype subscription_status = SubActive | SubPaused | SubExpired

record subscription =
  sub_account :: nat
  sub_esim :: nat
  sub_price :: rat
  sub_next :: int
  sub_status :: subscription_status

datatype cycle_status = CyclePending | CycleRenewed | CyclePaused | CycleFailed

record renewal_cycle =
  cyc_subscription :: nat
  cyc_date :: int
  cyc_list :: rat
  cyc_net :: "rat option"
  cyc_status :: cycle_status

datatype policy_status = PActive | PPaused | PBlocked | PDisabled
datatype policy_reason =
  NoReason | InsufficientFunds | PackageUnavailable | UsageUnknown | ProviderTrouble | ManualPause | CountExhausted | ScheduleEnded
datatype usage_mode = UsageDisabled | UsageThreshold | UsageZero
datatype renew_mode = UntilFunds | FixedCount

record topup_policy =
  pol_account :: nat
  pol_esim :: nat
  pol_package :: string
  pol_enabled :: bool
  pol_status :: policy_status
  pol_reason :: policy_reason
  pol_expiry :: bool
  pol_usage :: usage_mode
  pol_threshold :: "nat option"
  pol_renew :: renew_mode
  pol_remaining :: "nat option"
  pol_until :: "int option"
  pol_cooldown :: "int option"
  pol_last_at :: "int option"
  pol_last_topup :: "nat option"
  pol_last_key :: string
  pol_version :: nat
  pol_created :: int

record order_db = org_db +
  packages :: "(nat \<times> package) list"
  orders :: "(nat \<times> order_row) list"
  esims :: "(nat \<times> esim) list"
  topups :: "(nat \<times> topup_row) list"
  lifecycle_events :: "(nat \<times> lifecycle_event) list"
  subscriptions :: "(nat \<times> subscription) list"
  renewal_cycles :: "(nat \<times> renewal_cycle) list"
  policies :: "(nat \<times> topup_policy) list"

type_synonym ('x, 'a) order_txn = "('x order_db_scheme, 'a) txn"

section \<open>Inserts and updates\<close>

text \<open>\<^verbatim>\<open>numeric(10,2)\<close>, \<^verbatim>\<open>numeric(5,2)\<close> and nullable columns.\<close>

definition numeric_10_2 :: "rat \<Rightarrow> exc + rat" where
  "numeric_10_2 x = (let r = quantize_half_up MONEY_QUANTUM x
     in if 100000000 \<le> \<bar>r\<bar> then Inl (EPy DataError) else Inr r)"

definition numeric_5_2 :: "rat \<Rightarrow> exc + rat" where
  "numeric_5_2 x = (let r = quantize_half_up MONEY_QUANTUM x
     in if 1000 \<le> \<bar>r\<bar> then Inl (EPy DataError) else Inr r)"

definition nullable :: "(rat \<Rightarrow> exc + rat) \<Rightarrow> rat option \<Rightarrow> exc + rat option" where
  "nullable f v = (case v of None \<Rightarrow> Inr None | Some x \<Rightarrow> (case f x of Inl e \<Rightarrow> Inl e | Inr r \<Rightarrow> Inr (Some r)))"

definition stored_key :: "string option \<Rightarrow> ('s, unit) txn" where
  "stored_key k = guardE (case k of None \<Rightarrow> True | Some s \<Rightarrow> length s \<le> 128) (EPy DataError)"

definition key_taken :: "string option \<Rightarrow> string option list \<Rightarrow> bool" where
  "key_taken k ks \<longleftrightarrow> k \<noteq> None \<and> k \<in> set ks"

text \<open>\<^verbatim>\<open>Order.objects.create\<close>: the money columns as they are stored.\<close>

definition stored_order :: "order_row \<Rightarrow> rat option \<Rightarrow> rat option \<Rightarrow> rat option \<Rightarrow> rat option \<Rightarrow> order_row" where
  "stored_order row retail net lp disc =
     row\<lparr>ord_product := (ord_product row)\<lparr>snp_retail := retail, snp_net := net\<rparr>,
         ord_pricing := (ord_pricing row)\<lparr>col_charged := retail, col_list_price := lp, col_discount := disc\<rparr>\<rparr>"

definition insert_order :: "nat \<Rightarrow> order_row \<Rightarrow> ('x, unit) order_txn" where
  "insert_order pk row =
     bindE (liftE (nullable numeric_10_2 (snp_retail (ord_product row)))) (\<lambda>retail.
     bindE (liftE (nullable numeric_10_2 (snp_net (ord_product row)))) (\<lambda>net.
     bindE (liftE (nullable numeric_10_2 (col_list_price (ord_pricing row)))) (\<lambda>lp.
     bindE (liftE (nullable numeric_5_2 (col_discount (ord_pricing row)))) (\<lambda>disc.
     thenE (stored_key (ord_key row))
     (thenE (guardE (length (ord_ref row) \<le> 255) (EPy DataError))
     (bindE (getsE (\<lambda>db. map (\<lambda>r. ord_key (snd r)) (orders db))) (\<lambda>keys.
      if key_taken (ord_key row) keys then raiseE (EPy IntegrityError)
      else modifyE (\<lambda>db. db\<lparr>orders := AList.update pk (stored_order row retail net lp disc) (orders db)\<rparr>))))))))"

text \<open>\<^verbatim>\<open>row.save(update_fields=...)\<close>: the columns \<open>f\<close> sets, on the stored row, which has to be there.\<close>

definition update_order :: "nat \<Rightarrow> (order_row \<Rightarrow> order_row) \<Rightarrow> ('x, unit) order_txn" where
  "update_order pk f =
     bindE (getsE (\<lambda>db. map_of (orders db) pk)) (\<lambda>row.
     bindE (get_or_raise (EPy DatabaseError) row) (\<lambda>r.
     modifyE (\<lambda>db. db\<lparr>orders := AList.update pk (f r) (orders db)\<rparr>)))"

definition update_esim :: "nat \<Rightarrow> (esim \<Rightarrow> esim) \<Rightarrow> ('x, unit) order_txn" where
  "update_esim pk f =
     bindE (getsE (\<lambda>db. map_of (esims db) pk)) (\<lambda>row.
     bindE (get_or_raise (EPy DatabaseError) row) (\<lambda>r.
     modifyE (\<lambda>db. db\<lparr>esims := AList.update pk (f r) (esims db)\<rparr>)))"

definition update_topup :: "nat \<Rightarrow> (topup_row \<Rightarrow> topup_row) \<Rightarrow> ('x, unit) order_txn" where
  "update_topup pk f =
     bindE (getsE (\<lambda>db. map_of (topups db) pk)) (\<lambda>row.
     bindE (get_or_raise (EPy DatabaseError) row) (\<lambda>r.
     modifyE (\<lambda>db. db\<lparr>topups := AList.update pk (f r) (topups db)\<rparr>)))"

text \<open>\<^verbatim>\<open>Esim.objects.create\<close>: a unique ICCID, a unique matching id where there is one, and the column widths.\<close>

definition esim_fits :: "esim \<Rightarrow> bool" where
  "esim_fits e \<longleftrightarrow> length (es_iccid e) \<le> 32 \<and> length (ins_lpa (es_install e)) \<le> 255 \<and>
     length (ins_matching_id (es_install e)) \<le> 128 \<and> length (ins_qrcode_url (es_install e)) \<le> 512 \<and>
     length (ins_apple_url (es_install e)) \<le> 1024 \<and> length (ins_guide_url (es_install e)) \<le> 512 \<and>
     length (es_operator e) \<le> 255"

definition insert_esim :: "nat \<Rightarrow> esim \<Rightarrow> ('x, unit) order_txn" where
  "insert_esim pk e =
     bindE (getsE esims) (\<lambda>rows.
     if \<not> esim_fits e then raiseE (EPy DataError)
     else if es_iccid e \<in> set (map (\<lambda>r. es_iccid (snd r)) rows) \<or>
        ins_matching_id (es_install e) \<noteq> [] \<and>
        ins_matching_id (es_install e) \<in> set (map (\<lambda>r. ins_matching_id (es_install (snd r))) rows)
     then raiseE (EPy IntegrityError)
     else modifyE (\<lambda>db. db\<lparr>esims := AList.update pk e (esims db)\<rparr>))"

text \<open>\<^verbatim>\<open>Topup.save()\<close> of a new row numbers it within its eSIM.\<close>

definition highest_sequence :: "nat \<Rightarrow> (nat \<times> topup_row) list \<Rightarrow> nat option" where
  "highest_sequence e rows =
     (case List.map_filter (\<lambda>r. if tu_esim (snd r) = e then tu_sequence (snd r) else None) rows of
        [] \<Rightarrow> None | n # ns \<Rightarrow> Some (fold max ns n))"

definition next_sequence :: "nat \<Rightarrow> (nat \<times> topup_row) list \<Rightarrow> nat" where
  "next_sequence e rows = (case highest_sequence e rows of None \<Rightarrow> 1 | Some n \<Rightarrow> n + 1)"

definition insert_topup :: "nat \<Rightarrow> topup_row \<Rightarrow> ('x, unit) order_txn" where
  "insert_topup pk row =
     bindE (getsE topups) (\<lambda>rows.
     let sequence = (case tu_sequence row of None \<Rightarrow> next_sequence (tu_esim row) rows | Some n \<Rightarrow> n)
     in bindE (liftE (numeric_20_6 (tu_amount row))) (\<lambda>amount.
        bindE (liftE (nullable numeric_10_2 (col_list_price (tu_pricing row)))) (\<lambda>lp.
        bindE (liftE (nullable numeric_5_2 (col_discount (tu_pricing row)))) (\<lambda>disc.
        bindE (liftE (nullable numeric_20_6 (tu_net row))) (\<lambda>net.
        thenE (stored_key (tu_key row))
        (thenE (guardE (length (tu_package row) \<le> 64) (EPy DataError))
        (if amount \<le> 0 \<or> key_taken (tu_key row) (map (\<lambda>r. tu_key (snd r)) rows) \<or>
            (\<exists>r \<in> set rows. tu_esim (snd r) = tu_esim row \<and> tu_sequence (snd r) = Some sequence)
         then raiseE (EPy IntegrityError)
         else modifyE (\<lambda>db. db\<lparr>topups := AList.update pk
                (row\<lparr>tu_sequence := Some sequence, tu_amount := amount, tu_net := net,
                     tu_pricing := (tu_pricing row)\<lparr>col_charged := Some amount, col_list_price := lp, col_discount := disc\<rparr>\<rparr>)
                (topups db)\<rparr>))))))))"

section \<open>The initial credit\<close>

definition initial_credit_key :: "nat \<Rightarrow> string" where
  "initial_credit_key pk = ''initial-credit:'' @ str_nat pk"

definition first_nonempty :: "string \<Rightarrow> string \<Rightarrow> string" where
  "first_nonempty a b = (if a = [] then b else a)"

text \<open>The pricing columns of a row that no price resolution filled.\<close>

definition no_pricing :: pricing_columns where
  "no_pricing = \<lparr>col_list_price = None, col_charged = None, col_discount = None, col_reason = [], col_floor = [],
     col_profile_id = None, col_profile_version = None, col_slug = [], col_name = [], col_hash = [], col_schema = None\<rparr>"

text \<open>\<open>order\<close> and \<open>package\<close> are the objects \<^verbatim>\<open>esim.order\<close> and \<^verbatim>\<open>esim.order.package\<close>.\<close>

definition initial_amount :: "order_row \<Rightarrow> package \<Rightarrow> rat" where
  "initial_amount order package =
     (case snp_retail (ord_product order) of
        Some r \<Rightarrow> if r \<le> 0 then price_usd package else r
      | None \<Rightarrow> price_usd package)"

definition ensure_initial_credit_topup :: "nat \<times> esim \<Rightarrow> order_row \<Rightarrow> package \<Rightarrow> ('x, nat) order_txn" where
  "ensure_initial_credit_topup esim order package =
     bindE (getsE (\<lambda>db. find (\<lambda>r. tu_key (snd r) = Some (initial_credit_key (fst esim))) (topups db))) (\<lambda>existing.
     case existing of
       Some r \<Rightarrow> ret (fst r)
     | None \<Rightarrow>
         (let amount = initial_amount order package
          in if amount \<le> 0 then raiseE (EPy ValueError)
             else
               bindE uuid4 (\<lambda>pk.
               bindE (getsE clock) (\<lambda>now.
               thenE (insert_topup pk
                        \<lparr>tu_account = es_account (snd esim), tu_esim = fst esim,
                         tu_package = first_nonempty (strip (snp_external_id (ord_product order))) (pkg_external_id package),
                         tu_amount = amount,
                         tu_pricing = no_pricing\<lparr>col_list_price := col_list_price (ord_pricing order)\<rparr>,
                         tu_net = snp_net (ord_product order), tu_status = TFulfilled, tu_sequence = Some 0,
                         tu_provider_status = [], tu_external = take 64 (ord_external order),
                         tu_key = Some (initial_credit_key (fst esim)), tu_created = now, tu_updated = now\<rparr>)
               (thenE (update_topup pk (\<lambda>r. r\<lparr>tu_created := ord_created order\<rparr>)) (ret pk))))))"

end
