(* ===== verification/Lifecycle.thy ===== *)
theory Lifecycle
  imports Inventory
begin

text \<open>
  \<^verbatim>\<open>esims/services/lifecycle_service.py\<close>, the only writer of \<^verbatim>\<open>Esim.status\<close>, and \<^verbatim>\<open>usage_service.py\<close>. The guarded
  transitions are a table (\<open>allowed_targets\<close>); as a relation they are \<open>status_step\<close>, which \<open>transition\<close>
  implements. Client events move the installation forward; the provider's usage report overwrites the
  status. Events that the code publishes inside its transaction are published by the model in the same
  place, so the model drops them when that transaction fails.
\<close>

section \<open>The status machine\<close>

fun allowed_targets :: "esim_status \<Rightarrow> esim_status list" where
  "allowed_targets Purchased = [InstallationStarted, Installed]"
| "allowed_targets InstallationStarted = [Installed]"
| "allowed_targets Installed = [Activated, Exhausted, EsimExpired]"
| "allowed_targets Activated = [InUse, Exhausted, EsimExpired]"
| "allowed_targets InUse = [Exhausted, EsimExpired]"
| "allowed_targets Exhausted = [EsimExpired, Activated, InUse]"
| "allowed_targets EsimExpired = [Activated, InUse]"
| "allowed_targets StatusUnknown = [Purchased, InstallationStarted, Installed, Activated, InUse, Exhausted, EsimExpired]"

definition SETUP_VERSION :: string where "SETUP_VERSION = ''1''"

definition CLIENT_EVENT_ALLOWLIST :: "string list" where
  "CLIENT_EVENT_ALLOWLIST =
     [''install.opened'', ''install.qr_rendered'', ''install.qr_zoomed'', ''install.apple_install_clicked'',
      ''install.manual_install_clicked'', ''install.completed'', ''install.roaming_checklist_viewed'',
      ''install.setup_confirmed'', ''install.setup_skipped'']"

text \<open>\<^verbatim>\<open>_PROVIDER_USAGE_STATUS\<close>.\<close>

definition provider_usage_status :: "(string \<times> esim_status) list" where
  "provider_usage_status =
     [(''ACTIVE'', InUse), (''FINISHED'', Exhausted), (''EXPIRED'', EsimExpired), (''NOT_ACTIVE'', Purchased),
      (''UNKNOWN'', StatusUnknown), ([], Purchased)]"

section \<open>Events\<close>

definition find_lifecycle_event :: "nat \<Rightarrow> string \<Rightarrow> (nat \<times> lifecycle_event) list \<Rightarrow> (nat \<times> lifecycle_event) option" where
  "find_lifecycle_event e key rows = find (\<lambda>r. le_esim (snd r) = e \<and> le_key (snd r) = key) rows"

definition insert_lifecycle_event :: "nat \<Rightarrow> lifecycle_event \<Rightarrow> ('x, unit) order_txn" where
  "insert_lifecycle_event pk row =
     bindE (getsE lifecycle_events) (\<lambda>rows.
     if 128 < length (le_key row) \<or> 64 < length (le_type row) then raiseE (EPy DataError)
     else if find_lifecycle_event (le_esim row) (le_key row) rows \<noteq> None then raiseE (EPy IntegrityError)
     else modifyE (\<lambda>db. db\<lparr>lifecycle_events := lifecycle_events db @ [(pk, row)]\<rparr>))"

text \<open>\<^verbatim>\<open>_record_system_event\<close> and \<^verbatim>\<open>_record_provider_event\<close>: \<^verbatim>\<open>get_or_create\<close> by eSIM and key.\<close>

definition record_event :: "event_source \<Rightarrow> nat \<times> esim \<Rightarrow> string \<Rightarrow> string \<Rightarrow> json \<Rightarrow> ('x, unit) order_txn" where
  "record_event source esim event_type key payload =
     bindE (getsE (\<lambda>db. find_lifecycle_event (fst esim) key (lifecycle_events db))) (\<lambda>existing.
     case existing of
       Some _ \<Rightarrow> ret ()
     | None \<Rightarrow>
         bindE uuid4 (\<lambda>pk.
         bindE (getsE clock) (\<lambda>now.
         insert_lifecycle_event pk
           \<lparr>le_esim = fst esim, le_user = es_user (snd esim), le_type = event_type, le_source = source, le_schema = 1,
            le_key = key, le_session = None, le_payload = payload, le_agent = [], le_at = now\<rparr>)))"

section \<open>Transitions\<close>

definition status_payload :: "esim_status \<Rightarrow> esim_status \<Rightarrow> string \<Rightarrow> json" where
  "status_payload old new reason =
     JObj [(''from'', JText (esim_status_value old)), (''to'', JText (esim_status_value new)), (''reason'', JText reason)]"

text \<open>The part \<^verbatim>\<open>transition\<close> and \<^verbatim>\<open>_overwrite_provider_status\<close> share: the object with its new status, and
  its \<^verbatim>\<open>updated_at\<close>, which the event's key names.\<close>

definition write_status :: "env \<Rightarrow> nat \<times> esim \<Rightarrow> esim_status \<Rightarrow> string \<Rightarrow> ('x, esim) order_txn" where
  "write_status env esim target reason =
     bindE (getsE clock) (\<lambda>now.
     let set_status = (\<lambda>e. e\<lparr>es_status := target, es_updated := now\<rparr>); e' = set_status (snd esim);
         name = ''system.status.'' @ esim_status_value target
     in thenE (update_esim (fst esim) set_status)
        (thenE (record_event FromSystem (fst esim, e') name (name @ '':'' @ str_nat (fst esim) @ '':'' @ isoformat env now)
                  (status_payload (es_status (snd esim)) target reason))
        (ret e')))"

definition transition :: "env \<Rightarrow> nat \<times> esim \<Rightarrow> esim_status \<Rightarrow> string \<Rightarrow> ('x, esim) order_txn" where
  "transition env esim target reason =
     (let current = es_status (snd esim)
      in if current = target then ret (snd esim)
         else if target \<notin> set (allowed_targets current)
         then raiseE (EEsim (InvalidLifecycleTransitionError (esim_status_value current) (esim_status_value target)))
         else write_status env esim target reason)"

definition create_purchased ::
  "env \<Rightarrow> nat \<Rightarrow> nat option \<Rightarrow> nat \<times> order_row \<Rightarrow> package \<Rightarrow> string \<Rightarrow> install_data \<Rightarrow> string \<Rightarrow> ('x, nat) order_txn" where
  "create_purchased env user account order package iccid data activation_policy =
     (let policy = (if activation_policy \<in> {''first_usage'', ''installation'', ''unknown''} then activation_policy else ''unknown'')
      in bindE (case account of Some a \<Rightarrow> ret a | None \<Rightarrow> ensure_billing_account user) (\<lambda>a.
         let operator = first_nonempty (strip (snp_operator (ord_product (snd order)))) (strip (pkg_operator_title package))
         in atomic (
              bindE uuid4 (\<lambda>pk.
              bindE (getsE clock) (\<lambda>now.
              let e = \<lparr>es_account = a, es_user = user, es_assigned = None, es_order = fst order, es_iccid = iccid,
                       es_install = data\<lparr>ins_matching_id := strip (ins_matching_id data)\<rparr>, es_status = Purchased,
                       es_policy = policy, es_operator = operator, es_setup_version = [], es_resume = None,
                       es_completed = None, es_skipped = None,
                       es_usage = \<lparr>use_remaining = None, use_total = None, use_status = [], use_unlimited = None,
                                   use_expired = None, use_synced = None\<rparr>,
                       es_note = [], es_archived = None, es_created = now, es_updated = now\<rparr>
              in thenE (insert_esim pk e)
                 (bindE (ensure_initial_credit_topup (pk, e) (snd order) package) (\<lambda>_.
                  thenE (record_event FromSystem (pk, e) ''system.purchased'' (''system.purchased:'' @ str_nat pk)
                           (JObj [(''activation_policy'', JText policy)]))
                    (ret pk))))))))"

section \<open>Client events\<close>

text \<open>The status a client event asks for, and the columns it sets.\<close>

definition client_target :: "string \<Rightarrow> esim_status \<Rightarrow> esim_status option" where
  "client_target event_type status =
     (if event_type = ''install.opened'' \<and> status = Purchased then Some InstallationStarted
      else if event_type = ''install.completed'' \<and> status \<in> {Purchased, InstallationStarted} then Some Installed
      else None)"

definition client_fields :: "string \<Rightarrow> int option \<Rightarrow> int \<Rightarrow> esim \<Rightarrow> (esim \<Rightarrow> esim) list" where
  "client_fields event_type resume_step now e =
     (case resume_step of
        Some k \<Rightarrow> if 1 \<le> k \<and> k \<le> 4 then [\<lambda>r. r\<lparr>es_resume := Some k\<rparr>] else []
      | None \<Rightarrow> []) @
     (if event_type = ''install.opened'' then [\<lambda>r. r\<lparr>es_setup_version := SETUP_VERSION\<rparr>]
      else if event_type = ''install.setup_confirmed'' \<and> es_completed e = None then [\<lambda>r. r\<lparr>es_completed := Some now\<rparr>]
      else if event_type = ''install.setup_skipped'' \<and> es_skipped e = None then [\<lambda>r. r\<lparr>es_skipped := Some now\<rparr>]
      else [])"

definition apply_client_side_effects :: "env \<Rightarrow> nat \<times> esim \<Rightarrow> string \<Rightarrow> int option \<Rightarrow> ('x, unit) order_txn" where
  "apply_client_side_effects env esim event_type resume_step =
     thenE (case client_target event_type (es_status (snd esim)) of
              None \<Rightarrow> ret ()
            | Some target \<Rightarrow> bindE (transition env esim target event_type) (\<lambda>_. ret ()))
     (thenE (if event_type = ''install.completed''
             then publish [EsimInstalled (str_nat (fst esim)) (es_iccid (snd esim)) (str_nat (es_user (snd esim)))]
             else ret ())
     (bindE (getsE clock) (\<lambda>now.
      let fields = client_fields event_type resume_step now (snd esim)
      in if fields = [] then ret ()
         else update_esim (fst esim) (\<lambda>r. (fold id fields r)\<lparr>es_updated := now\<rparr>))))"

text \<open>\<open>seen\<close> is the event table that the lookup reads, outside the transaction.\<close>

definition record_client_event_seen ::
  "(nat \<times> lifecycle_event) list \<Rightarrow> env \<Rightarrow> nat \<times> esim \<Rightarrow> string \<Rightarrow> string \<Rightarrow> int \<Rightarrow> string option \<Rightarrow> json \<Rightarrow> string \<Rightarrow>
   int option \<Rightarrow> ('x, nat \<times> bool) order_txn" where
  "record_client_event_seen seen env esim event_type key schema session payload agent resume_step =
     (if event_type \<notin> set CLIENT_EVENT_ALLOWLIST then raiseE (EEsim (UnknownLifecycleEventTypeError event_type))
      else case find_lifecycle_event (fst esim) key seen of
        Some r \<Rightarrow> ret (fst r, False)
      | None \<Rightarrow>
          bindE (atomic (
            bindE uuid4 (\<lambda>pk.
            bindE (getsE clock) (\<lambda>now.
            thenE (insert_lifecycle_event pk
                     \<lparr>le_esim = fst esim, le_user = es_user (snd esim), le_type = event_type, le_source = FromClient,
                      le_schema = schema, le_key = key, le_session = session, le_payload = payload, le_agent = agent,
                      le_at = now\<rparr>)
            (thenE (apply_client_side_effects env esim event_type resume_step) (ret pk)))))) (\<lambda>pk.
          ret (pk, True)))"

definition record_client_event ::
  "env \<Rightarrow> nat \<times> esim \<Rightarrow> string \<Rightarrow> string \<Rightarrow> int \<Rightarrow> string option \<Rightarrow> json \<Rightarrow> string \<Rightarrow> int option \<Rightarrow> ('x, nat \<times> bool) order_txn" where
  "record_client_event env esim event_type key schema session payload agent resume_step =
     bindE (getsE lifecycle_events) (\<lambda>seen.
       record_client_event_seen seen env esim event_type key schema session payload agent resume_step)"

section \<open>Provider usage\<close>

record usage_dto =
  dto_remaining :: int
  dto_total :: int
  dto_expired :: "string option"
  dto_unlimited :: "bool option"
  dto_status :: string

text \<open>\<^verbatim>\<open>esim.refresh_from_db(fields=["status", "updated_at", "created_at"])\<close>, and the two events of a first use.\<close>

definition refresh_status :: "nat \<times> esim \<Rightarrow> ('x, esim) order_txn" where
  "refresh_status esim =
     bindE (getsE (\<lambda>db. map_of (esims db) (fst esim))) (\<lambda>row.
     bindE (get_or_raise (EPy ObjectDoesNotExist) row) (\<lambda>r.
     ret ((snd esim)\<lparr>es_status := es_status r, es_updated := es_updated r, es_created := es_created r\<rparr>)))"

definition announce_use :: "nat \<times> esim \<Rightarrow> esim_status \<Rightarrow> ('x, unit) order_txn" where
  "announce_use esim previous =
     (let pk = fst esim; e = snd esim
      in bindE (getsE clock) (\<lambda>now.
         thenE (if es_status e \<in> {Activated, InUse} \<and> previous \<notin> {Activated, InUse, Exhausted, EsimExpired}
                then publish [EsimActivated (str_nat pk) (es_iccid e) (str_nat (es_user e))
                       (of_int (now - es_created e) / 1000000)]
                else ret ())
         (if es_status e = InUse \<and> previous \<notin> {InUse, Exhausted, EsimExpired}
          then publish [EsimFirstUsageDetected (str_nat pk) (es_iccid e) (str_nat (es_user e))]
          else ret ())))"

definition apply_provider_usage :: "env \<Rightarrow> nat \<times> esim \<Rightarrow> string \<Rightarrow> ('x, esim) order_txn" where
  "apply_provider_usage env esim usage_status =
     (let provider_status = upper (strip usage_status); previous = es_status (snd esim)
      in case map_of provider_usage_status provider_status of
        None \<Rightarrow> ret (snd esim)
      | Some target \<Rightarrow>
          if previous = target then ret (snd esim)
          else
            bindE (write_status env esim target (''provider:'' @ first_nonempty provider_status ''EMPTY'')) (\<lambda>e.
            thenE (if provider_status = ''UNKNOWN''
                   then record_event FromProvider (fst esim, e) ''provider.usage_unknown''
                          (''provider.usage_unknown:'' @ str_nat (fst esim) @ '':'' @ isoformat env (es_updated e))
                          (JObj [(''provider_status'', JText provider_status)])
                   else ret ())
            (bindE (refresh_status (fst esim, e)) (\<lambda>e'.
             thenE (announce_use (fst esim, e') previous) (ret e')))))"

text \<open>\<^verbatim>\<open>_parse_expired_at\<close>; \<open>parse\<close> is Django's \<^verbatim>\<open>parse_datetime\<close> followed by \<^verbatim>\<open>make_aware\<close>.\<close>

fun replace_first_space :: "string \<Rightarrow> string" where
  "replace_first_space [] = []"
| "replace_first_space (c # cs) = (if c = CHR '' '' then CHR ''T'' # cs else c # replace_first_space cs)"

definition parse_expired_at :: "(string \<Rightarrow> exc + int option) \<Rightarrow> string option \<Rightarrow> exc + int option" where
  "parse_expired_at parse value =
     (case value of
        None \<Rightarrow> Inr None
      | Some s \<Rightarrow>
          if s = [] then Inr None
          else
            (let normalized = strip s
             in parse (if CHR '' '' \<in> set normalized \<and> CHR ''T'' \<notin> set normalized
                       then replace_first_space normalized else normalized)))"

definition update_cache :: "(string \<Rightarrow> exc + int option) \<Rightarrow> nat \<times> esim \<Rightarrow> usage_dto \<Rightarrow> ('x, esim) order_txn" where
  "update_cache parse esim usage =
     bindE (liftE (parse_expired_at parse (dto_expired usage))) (\<lambda>expired.
     bindE (getsE clock) (\<lambda>now.
     let cache = \<lparr>use_remaining = Some (dto_remaining usage), use_total = Some (dto_total usage),
                  use_status = dto_status usage, use_unlimited = dto_unlimited usage, use_expired = expired,
                  use_synced = Some now\<rparr>;
         set_cache = (\<lambda>e. e\<lparr>es_usage := cache, es_updated := now\<rparr>)
     in if 64 < length (dto_status usage) then raiseE (EPy DataError)
        else thenE (update_esim (fst esim) set_cache) (ret (set_cache (snd esim)))))"

text \<open>\<open>provider\<close> is \<^verbatim>\<open>TopupProvider.get_usage\<close>.\<close>

definition get_usage ::
  "env \<Rightarrow> (string \<Rightarrow> exc + int option) \<Rightarrow> (string \<Rightarrow> exc + usage_dto) \<Rightarrow> nat \<times> esim \<Rightarrow> ('x, usage_dto) order_txn" where
  "get_usage env parse provider esim =
     bindE (liftE (provider (es_iccid (snd esim)))) (\<lambda>usage.
     bindE (update_cache parse esim usage) (\<lambda>e.
     bindE (apply_provider_usage env (fst esim, e) (dto_status usage)) (\<lambda>_. ret usage)))"

section \<open>The lifecycle as a relation\<close>

inductive status_step :: "esim_status \<Rightarrow> esim_status \<Rightarrow> bool" where
  start: "status_step Purchased InstallationStarted"
| install: "s \<in> {Purchased, InstallationStarted} \<Longrightarrow> status_step s Installed"
| activate: "s \<in> {Installed, Exhausted, EsimExpired} \<Longrightarrow> status_step s Activated"
| use: "s \<in> {Activated, Exhausted, EsimExpired} \<Longrightarrow> status_step s InUse"
| exhaust: "s \<in> {Installed, Activated, InUse} \<Longrightarrow> status_step s Exhausted"
| expire: "s \<in> {Installed, Activated, InUse, Exhausted} \<Longrightarrow> status_step s EsimExpired"
| resolve: "t \<noteq> StatusUnknown \<Longrightarrow> status_step StatusUnknown t"

inductive_simps status_step_simps: "status_step s t"
inductive_cases status_step_to_unknown: "status_step s StatusUnknown"
inductive_cases status_step_to_purchased: "status_step s Purchased"

lemma allowed_targets_step: "t \<in> set (allowed_targets s) \<longleftrightarrow> status_step s t"
  unfolding status_step_simps by (cases s; cases t) simp_all

definition funnel_rank :: "esim_status \<Rightarrow> nat" where
  "funnel_rank s = (case s of Purchased \<Rightarrow> 0 | InstallationStarted \<Rightarrow> 1 | _ \<Rightarrow> 2)"

lemma status_step_forward: "status_step s t \<Longrightarrow> s \<noteq> StatusUnknown \<Longrightarrow> t \<noteq> StatusUnknown \<and> funnel_rank s \<le> funnel_rank t"
  unfolding status_step_simps by (cases s; cases t) (simp_all add: funnel_rank_def)

lemma status_steps_forward:
  "status_step\<^sup>*\<^sup>* s t \<Longrightarrow> s \<noteq> StatusUnknown \<Longrightarrow> t \<noteq> StatusUnknown \<and> funnel_rank s \<le> funnel_rank t"
  by (induction rule: rtranclp_induct) (auto dest: status_step_forward)

section \<open>What the steps write\<close>

lemma update_esim_run:
  "map_of (esims db) pk = Some r \<Longrightarrow> update_esim pk f db = (Inr (), db\<lparr>esims := AList.update pk (f r) (esims db)\<rparr>)"
  by (simp add: update_esim_def txn_defs)

lemma find_append_new:
  "find_lifecycle_event e key (rows @ [(pk, row)]) =
     (case find_lifecycle_event e key rows of
        Some r \<Rightarrow> Some r
      | None \<Rightarrow> if le_esim row = e \<and> le_key row = key then Some (pk, row) else None)"
  by (induction rows) (auto simp: find_lifecycle_event_def)

text \<open>\<open>record_event\<close> adds at most one event, and fails only on a key or a type wider than its column.\<close>

lemma find_append_old:
  "find_lifecycle_event e key rows = Some r \<Longrightarrow> find_lifecycle_event e key (rows @ xs) = Some r"
  by (induction rows) (auto simp: find_lifecycle_event_def)

lemma record_event_run:
  assumes "record_event source esim ty key payload db = (r, t)"
  shows "esims t = esims db \<and> events t = events db \<and> clock t = clock db \<and>
     (\<exists>xs. lifecycle_events t = lifecycle_events db @ xs) \<and>
     (r = Inl (EPy DataError) \<and> (128 < length key \<or> 64 < length ty) \<or>
      r = Inr () \<and> find_lifecycle_event (fst esim) key (lifecycle_events t) \<noteq> None)"
  using assms
  by (auto simp: record_event_def insert_lifecycle_event_def txn_iff find_append_new uuid4_def txn_defs
      split: option.splits if_splits prod.splits sum.splits)

lemma write_status_run:
  assumes "write_status env (pk, e) target reason db = (r, t)" "map_of (esims db) pk = Some stored"
  shows "esims t = AList.update pk (stored\<lparr>es_status := target, es_updated := clock db\<rparr>) (esims db) \<and>
     events t = events db \<and> clock t = clock db \<and> (\<exists>xs. lifecycle_events t = lifecycle_events db @ xs) \<and>
     (r = Inl (EPy DataError) \<or> r = Inr (e\<lparr>es_status := target, es_updated := clock db\<rparr>))"
  using assms
  by (auto simp: write_status_def Let_def txn_iff update_esim_run dest!: record_event_run)

text \<open>The key of a status event, and what a status write leaves of the rest of the database.\<close>

definition status_key :: "env \<Rightarrow> nat \<Rightarrow> esim_status \<Rightarrow> int \<Rightarrow> string" where
  "status_key env pk target now =
     ''system.status.'' @ esim_status_value target @ '':'' @ str_nat pk @ '':'' @ isoformat env now"

lemma record_event_frame:
  assumes "record_event source esim ty key payload db = (r, t)"
  shows "t = db\<lparr>next_uuid := next_uuid t, lifecycle_events := lifecycle_events t\<rparr>"
  using assms
  by (auto simp: record_event_def insert_lifecycle_event_def txn_iff uuid4_def txn_defs
      split: option.splits if_splits prod.splits sum.splits)

lemma write_status_exact:
  assumes "write_status env (pk, e) target reason db = (r, t)" "map_of (esims db) pk = Some stored"
  shows "t = db\<lparr>esims := AList.update pk (stored\<lparr>es_status := target, es_updated := clock db\<rparr>) (esims db),
        next_uuid := next_uuid t, lifecycle_events := lifecycle_events t\<rparr> \<and>
     (\<exists>xs. lifecycle_events t = lifecycle_events db @ xs) \<and>
     (r = Inl (EPy DataError) \<and> 128 < length (status_key env pk target (clock db)) \<or>
      r = Inr (e\<lparr>es_status := target, es_updated := clock db\<rparr>) \<and>
      find_lifecycle_event pk (status_key env pk target (clock db)) (lifecycle_events t) \<noteq> None)"
proof -
  let ?db = "db\<lparr>esims := AList.update pk (stored\<lparr>es_status := target, es_updated := clock db\<rparr>) (esims db)\<rparr>"
  let ?e = "e\<lparr>es_status := target, es_updated := clock db\<rparr>"
  obtain q where rec: "record_event FromSystem (pk, ?e) (''system.status.'' @ esim_status_value target)
      (status_key env pk target (clock db)) (status_payload (es_status e) target reason) ?db = (q, t)"
    and r: "r = (case q of Inl x \<Rightarrow> Inl x | Inr _ \<Rightarrow> Inr ?e)"
    using assms
    by (auto simp: write_status_def Let_def txn_iff update_esim_run status_key_def)
  have "length (''system.status.'' @ esim_status_value target) \<le> 64" by (cases target) simp_all
  then have "q = Inl (EPy DataError) \<and> 128 < length (status_key env pk target (clock db)) \<or>
      q = Inr () \<and> find_lifecycle_event pk (status_key env pk target (clock db)) (lifecycle_events t) \<noteq> None"
    and "\<exists>xs. lifecycle_events t = lifecycle_events db @ xs"
    using record_event_run [OF rec] by auto
  then show ?thesis using r by (intro conjI record_event_frame [OF rec]) auto
qed

lemma transition_run:
  assumes "transition env (pk, e) target reason db = (r, t)" "map_of (esims db) pk = Some stored"
  shows "r = Inr e \<and> target = es_status e \<and> t = db \<or>
     r = Inl (EEsim (InvalidLifecycleTransitionError (esim_status_value (es_status e)) (esim_status_value target))) \<and>
       target \<noteq> es_status e \<and> \<not> status_step (es_status e) target \<and> t = db \<or>
     target \<noteq> es_status e \<and> status_step (es_status e) target \<and>
       (r = Inl (EPy DataError) \<or> r = Inr (e\<lparr>es_status := target, es_updated := clock db\<rparr>)) \<and>
       esims t = AList.update pk (stored\<lparr>es_status := target, es_updated := clock db\<rparr>) (esims db) \<and>
       events t = events db \<and> clock t = clock db \<and> (\<exists>xs. lifecycle_events t = lifecycle_events db @ xs)"
proof (cases "target \<noteq> es_status e \<and> status_step (es_status e) target")
  case True
  then have "write_status env (pk, e) target reason db = (r, t)"
    using assms(1) by (auto simp: transition_def Let_def allowed_targets_step)
  from write_status_run [OF this assms(2)] True show ?thesis by blast
next
  case False
  show ?thesis
  proof (cases "target = es_status e")
    case True
    then have "(Inr e, db) = (r, t)" using assms(1) by (simp add: transition_def ret_def)
    then show ?thesis using True by simp
  next
    case ne: False
    with False have "target \<notin> set (allowed_targets (es_status e))" by (simp add: allowed_targets_step)
    with ne have "(Inl (EEsim (InvalidLifecycleTransitionError (esim_status_value (es_status e)) (esim_status_value target))), db)
       = (r, t)"
      using assms(1) by (simp add: transition_def Let_def raiseE_def eq_commute [of target])
    then show ?thesis using False ne by blast
  qed
qed

definition demo_install :: install_data where
  "demo_install = \<lparr>ins_lpa = [], ins_matching_id = [], ins_qrcode = [], ins_qrcode_url = [], ins_apple_url = [],
     ins_manual = [], ins_qrcode_steps = [], ins_guide_url = []\<rparr>"

definition demo_esim :: "nat \<Rightarrow> esim" where
  "demo_esim a = \<lparr>es_account = a, es_user = 1, es_assigned = None, es_order = 1, es_iccid = ''89'',
     es_install = demo_install, es_status = Purchased, es_policy = ''unknown'', es_operator = [],
     es_setup_version = [], es_resume = None, es_completed = None, es_skipped = None,
     es_usage = \<lparr>use_remaining = None, use_total = None, use_status = [], use_unlimited = None,
                 use_expired = None, use_synced = None\<rparr>,
     es_note = [], es_archived = None, es_created = 0, es_updated = 0\<rparr>"

definition demo_order_db :: order_db where
  "demo_order_db = org_db.extend demo_org_db
     \<lparr>packages = [], orders = [], esims = [(7, demo_esim 1)], topups = [], lifecycle_events = [], subscriptions = [],
      renewal_cycles = [], policies = []\<rparr>"

lemma demo_order_db_esims [simp]:
  "esims demo_order_db = [(7, demo_esim 1)]" "es_status (demo_esim a) = Purchased"
  "lifecycle_events demo_order_db = []" "orders demo_order_db = []" "topups demo_order_db = []"
  by (simp_all add: demo_order_db_def demo_esim_def org_db.extend_def)

text \<open>C15. \<open>transition\<close> implements the abstract status machine. For a stored eSIM it has exactly these
  outcomes. It returns the object as it is when that has the target already, without a change. It
  refuses a move the machine does not have, without a change. Otherwise the move is one step of the
  machine: the row gets the status and the time, no other eSIM and no other table changes but for the
  events, and either the event of the step is recorded and the updated object returned, or the event's
  key is wider than its column and \<open>DataError\<close> is raised, the row being written already (the method
  opens no transaction of its own). From any known status no sequence of steps reaches \<open>unknown\<close> or
  goes back in the installation funnel. Steps from exhausted and expired to activated and in use are
  in the table, so \<open>transition\<close> takes them for any caller, although the comment above the table
  reserves them to \<^verbatim>\<open>apply_provider_usage\<close>.\<close>

theorem transition_refines:
  assumes "transition env (pk, e) target reason (db :: order_db) = (r, t)" "map_of (esims db) pk = Some stored"
  shows "(if target = es_status e then r = Inr e \<and> t = db
     else if \<not> status_step (es_status e) target
     then r = Inl (EEsim (InvalidLifecycleTransitionError (esim_status_value (es_status e)) (esim_status_value target))) \<and>
       t = db
     else t = db\<lparr>esims := AList.update pk (stored\<lparr>es_status := target, es_updated := clock db\<rparr>) (esims db),
          next_uuid := next_uuid t, lifecycle_events := lifecycle_events t\<rparr> \<and>
       (\<exists>xs. lifecycle_events t = lifecycle_events db @ xs) \<and>
       (r = Inr (e\<lparr>es_status := target, es_updated := clock db\<rparr>) \<and>
          find_lifecycle_event pk (status_key env pk target (clock db)) (lifecycle_events t) \<noteq> None \<or>
        r = Inl (EPy DataError) \<and> 128 < length (status_key env pk target (clock db)))) \<and>
    (es_status e \<noteq> StatusUnknown \<longrightarrow> status_step\<^sup>*\<^sup>* (es_status e) s \<longrightarrow>
       s \<noteq> StatusUnknown \<and> funnel_rank (es_status e) \<le> funnel_rank s)"
proof -
  have "write_status env (pk, e) target reason db = (r, t)"
    if "target \<noteq> es_status e" "status_step (es_status e) target"
    using that assms(1) by (auto simp: transition_def Let_def allowed_targets_step)
  note W = write_status_exact [OF this assms(2)]
  note F = status_steps_forward [of "es_status e" s]
  show ?thesis
  proof (cases "target \<noteq> es_status e \<and> status_step (es_status e) target")
    case True
    then show ?thesis using W F by (simp only: if_False if_True simp_thms) blast
  next
    case False
    then show ?thesis using transition_run [OF assms] F by auto
  qed
qed

theorem transition_refines_witness:
  "(\<exists>t. transition demo_env (7, demo_esim 1) Installed [] demo_order_db =
       (Inr ((demo_esim 1)\<lparr>es_status := Installed, es_updated := clock demo_order_db\<rparr>), t) \<and>
     es_status (snd (hd (esims t))) = Installed) \<and>
   InUse \<noteq> StatusUnknown"
proof -
  define r t where "r = fst (transition demo_env (7, demo_esim 1) Installed [] demo_order_db)"
    and "t = snd (transition demo_env (7, demo_esim 1) Installed [] demo_order_db)"
  have run: "transition demo_env (7, demo_esim 1) Installed [] demo_order_db = (r, t)"
    by (simp add: r_def t_def)
  have row: "map_of (esims demo_order_db) 7 = Some (demo_esim 1)" by simp
  have "r = Inr ((demo_esim 1)\<lparr>es_status := Installed, es_updated := clock demo_order_db\<rparr>)"
    unfolding r_def by (simp add: transition_def write_status_def update_esim_def record_event_def
      find_lifecycle_event_def insert_lifecycle_event_def uuid4_def txn_defs Let_def demo_env_def str_nat.simps [of 7])
  moreover have "status_step Purchased Installed" by (simp add: status_step.install)
  then have "esims t = [(7, (demo_esim 1)\<lparr>es_status := Installed, es_updated := clock demo_order_db\<rparr>)]"
    using transition_refines [OF run row, THEN conjunct1] by (auto dest: arg_cong [where f = esims])
  then have "es_status (snd (hd (esims t))) = Installed" by simp
  moreover have "status_step\<^sup>*\<^sup>* Purchased InUse"
    using status_step.install [of Purchased] status_step.activate [of Installed] status_step.use [of Activated]
    by (simp add: rtranclp.rtrancl_into_rtrancl)
  then have "InUse \<noteq> StatusUnknown" using transition_refines [OF run row, of InUse] by simp
  ultimately show ?thesis using run by auto
qed


section \<open>Client events\<close>

lemma client_target_step: "client_target ty s = Some t \<Longrightarrow> status_step s t \<and> t \<noteq> s"
  by (auto simp: client_target_def intro: status_step.intros split: if_splits)

lemma client_fields_status:
  "es_status (fold id (client_fields ty k now e) r) = es_status r"
  by (auto simp: client_fields_def split: option.splits)

lemma client_effects_run:
  assumes "apply_client_side_effects env (pk, e) ty k db = (Inr (), t)" "map_of (esims db) pk = Some stored"
  obtains row xs where "map_of (esims t) pk = Some row" "\<And>j. j \<noteq> pk \<Longrightarrow> map_of (esims t) j = map_of (esims db) j"
    "lifecycle_events t = lifecycle_events db @ xs"
    "es_status row = (case client_target ty (es_status e) of None \<Rightarrow> es_status stored | Some s \<Rightarrow> s)"
proof -
  obtain u w where u: "(case client_target ty (es_status e) of
              None \<Rightarrow> ret ()
            | Some target \<Rightarrow> bindE (transition env (pk, e) target ty) (\<lambda>_. ret ())) db = (Inr (), u)"
    and w: "(if ty = ''install.completed'' then publish [EsimInstalled (str_nat pk) (es_iccid e) (str_nat (es_user e))]
             else ret ()) u = (Inr (), w)"
    and rest: "(let fields = client_fields ty k (clock w) e
      in if fields = [] then ret ()
         else update_esim pk (\<lambda>r. (fold id fields r)\<lparr>es_updated := clock w\<rparr>)) w = (Inr (), t)"
    using assms(1) unfolding apply_client_side_effects_def combinators_ok fst_conv snd_conv by clarsimp
  have w': "esims w = esims u" "lifecycle_events w = lifecycle_events u"
    using w by (auto simp: publish_def txn_defs split: if_splits)
  let ?s = "case client_target ty (es_status e) of None \<Rightarrow> es_status stored | Some s \<Rightarrow> s"
  have "(\<exists>row. map_of (esims u) pk = Some row \<and> es_status row = ?s) \<and> (\<forall>j. j \<noteq> pk \<longrightarrow> map_of (esims u) j = map_of (esims db) j) \<and>
      (\<exists>xs. lifecycle_events u = lifecycle_events db @ xs)"
  proof (cases "client_target ty (es_status e)")
    case None
    with u assms(2) show ?thesis by (simp add: ret_def)
  next
    case (Some s)
    with u obtain e' where "transition env (pk, e) s ty db = (Inr e', u)" by (auto simp: txn_ok)
    from transition_run [OF this assms(2)] show ?thesis using Some assms(2) client_target_step [OF Some] by auto
  qed
  then obtain row xs where u': "map_of (esims u) pk = Some row" "es_status row = ?s"
      "\<And>j. j \<noteq> pk \<Longrightarrow> map_of (esims u) j = map_of (esims db) j" "lifecycle_events u = lifecycle_events db @ xs"
    by blast
  show ?thesis
  proof (cases "client_fields ty k (clock w) e = []")
    case True
    with rest u' w' show ?thesis by (intro that [of row xs]) (auto simp: ret_def)
  next
    case False
    with rest u'(1) w' have t: "esims t = AList.update pk ((fold id (client_fields ty k (clock w) e) row)\<lparr>es_updated := clock w\<rparr>) (esims w)"
      "lifecycle_events t = lifecycle_events u"
      by (auto simp: Let_def update_esim_run)
    with u' w' show ?thesis
      by (intro that [of "(fold id (client_fields ty k (clock w) e) row)\<lparr>es_updated := clock w\<rparr>" xs])
         (simp_all add: client_fields_status)
  qed
qed

text \<open>A client event is recorded once: a call that returns answers with the event stored under its
  key; only a call that created it changed the database; the eSIM's stored status is the old one or one
  step of the lifecycle further, no other eSIM changes, and every later call with the key returns the
  same event and changes nothing.\<close>

theorem client_event_recorded_once:
  assumes "record_client_event env (pk, e) ty key v sess payload agent k (db :: order_db) = (Inr (ev, created), t)"
    and "map_of (esims db) pk = Some e"
  shows "find_lifecycle_event pk key (lifecycle_events t) \<noteq> None \<and>
     fst (the (find_lifecycle_event pk key (lifecycle_events t))) = ev \<and>
     (created \<longleftrightarrow> find_lifecycle_event pk key (lifecycle_events db) = None) \<and>
     (\<not> created \<longrightarrow> t = db) \<and>
     (\<exists>row. map_of (esims t) pk = Some row \<and> (es_status row = es_status e \<or> status_step (es_status e) (es_status row))) \<and>
     (\<forall>j. j \<noteq> pk \<longrightarrow> map_of (esims t) j = map_of (esims db) j) \<and>
     record_client_event env (pk, e') ty key v' sess' payload' agent' k' t = (Inr (ev, False), t)"
proof -
  have known: "ty \<in> set CLIENT_EVENT_ALLOWLIST"
    using assms(1) by (auto simp: record_client_event_def record_client_event_seen_def txn_ok)
  have again: "record_client_event env (pk, e') ty key v' sess' payload' agent' k' t = (Inr (ev, False), t)"
    if "find_lifecycle_event pk key (lifecycle_events t) = Some (ev, row)" for row
    using known that by (simp add: record_client_event_def record_client_event_seen_def txn_defs)
  show ?thesis
  proof (cases "find_lifecycle_event pk key (lifecycle_events db)")
    case (Some r)
    then have "t = db" "ev = fst r" "\<not> created"
      using assms(1) known by (auto simp: record_client_event_def record_client_event_seen_def txn_ok)
    with Some assms(2) again [of "snd r"] show ?thesis by simp
  next
    case None
    obtain u where u: "insert_lifecycle_event (next_uuid db)
        \<lparr>le_esim = pk, le_user = es_user e, le_type = ty, le_source = FromClient, le_schema = v, le_key = key,
         le_session = sess, le_payload = payload, le_agent = agent, le_at = clock db\<rparr>
        (db\<lparr>next_uuid := Suc (next_uuid db)\<rparr>) = (Inr (), u)"
      and eff: "apply_client_side_effects env (pk, e) ty k u = (Inr (), t)" and ev: "ev = next_uuid db" "created"
      using assms(1) known None
      by (auto simp: record_client_event_def record_client_event_seen_def uuid4_def txn_ok)
    from u None have u': "esims u = esims db" "find_lifecycle_event pk key (lifecycle_events u) \<noteq> None"
        "fst (the (find_lifecycle_event pk key (lifecycle_events u))) = ev"
      by (auto simp: insert_lifecycle_event_def txn_ok find_append_new ev)
    with assms(2) have "map_of (esims u) pk = Some e" by simp
    from client_effects_run [OF eff this] obtain row xs where row: "map_of (esims t) pk = Some row"
        "\<And>j. j \<noteq> pk \<Longrightarrow> map_of (esims t) j = map_of (esims u) j" "lifecycle_events t = lifecycle_events u @ xs"
        "es_status row = (case client_target ty (es_status e) of None \<Rightarrow> es_status e | Some s \<Rightarrow> s)" by blast
    have "find_lifecycle_event pk key (lifecycle_events t) = find_lifecycle_event pk key (lifecycle_events u)"
      using u'(2) row(3) by (auto simp: find_append_old)
    with u' have found: "\<exists>r. find_lifecycle_event pk key (lifecycle_events t) = Some (ev, r)" by auto
    have "es_status row = es_status e \<or> status_step (es_status e) (es_status row)"
      using row(4) by (auto dest: client_target_step split: option.splits)
    with found again None u'(1) row ev show ?thesis by auto
  qed
qed

lemma demo_client_event:
  "\<exists>t. record_client_event demo_env (7, demo_esim 1) ''install.qr_zoomed'' ''k'' 1 None (JObj []) [] None demo_order_db =
     (Inr (next_uuid demo_order_db, True), t)"
  by (simp add: record_client_event_def record_client_event_seen_def CLIENT_EVENT_ALLOWLIST_def find_lifecycle_event_def
      insert_lifecycle_event_def uuid4_def apply_client_side_effects_def client_target_def client_fields_def txn_defs)

theorem client_event_recorded_once_witness:
  "\<exists>t. record_client_event demo_env (7, demo_esim 1) ''install.qr_zoomed'' ''k'' 2 None (JObj []) [] None (t :: order_db) =
     (Inr (next_uuid demo_order_db, False), t)"
proof -
  obtain t where t: "record_client_event demo_env (7, demo_esim 1) ''install.qr_zoomed'' ''k'' 1 None (JObj []) [] None
      demo_order_db = (Inr (next_uuid demo_order_db, True), t)" using demo_client_event by blast
  have "map_of (esims demo_order_db) 7 = Some (demo_esim 1)" by simp
  from client_event_recorded_once [OF t this, of "demo_esim 1" 2 None "JObj []" "[]" None] show ?thesis by blast
qed

section \<open>Provider usage\<close>

text \<open>The provider's report decides the status, whatever it was: a mapped report leaves the object and
  the stored row in the mapped status, an unlisted one changes nothing; the activation events are published
  exactly when the eSIM comes into use for the first time; and the same report again changes nothing.\<close>

theorem provider_usage_decides:
  assumes "apply_provider_usage env (pk, e) report (db :: order_db) = (Inr e', t)" "map_of (esims db) pk = Some stored"
    and "es_status stored = es_status e"
  shows "(case map_of provider_usage_status (upper (strip report)) of
        None \<Rightarrow> e' = e \<and> t = db
      | Some target \<Rightarrow> es_status e' = target \<and> map_option es_status (map_of (esims t) pk) = Some target \<and>
          (\<exists>secs. events t = events db @
             (if target = InUse \<and> es_status e \<notin> {Activated, InUse, Exhausted, EsimExpired}
              then [EsimActivated (str_nat pk) (es_iccid e) (str_nat (es_user e)) secs] else []) @
             (if target = InUse \<and> es_status e \<notin> {InUse, Exhausted, EsimExpired}
              then [EsimFirstUsageDetected (str_nat pk) (es_iccid e) (str_nat (es_user e))] else []))) \<and>
     apply_provider_usage env (pk, e') report t = (Inr e', t)"
proof (cases "map_of provider_usage_status (upper (strip report))")
  case None
  with assms(1) have "e' = e \<and> t = db" by (simp add: apply_provider_usage_def Let_def ret_def)
  with None show ?thesis by (simp add: apply_provider_usage_def Let_def ret_def)
next
  case (Some target)
  have again: "apply_provider_usage env (pk, e') report t = (Inr e', t)" if "es_status e' = target"
    using Some that by (simp add: apply_provider_usage_def Let_def ret_def)
  show ?thesis
  proof (cases "es_status e = target")
    case True
    with assms Some have "e' = e" "t = db" by (auto simp: apply_provider_usage_def Let_def ret_def)
    with again True Some assms(2,3) show ?thesis by (auto intro!: exI [of _ "[]"])
  next
    case False
    obtain e1 u where w: "write_status env (pk, e) target
        (''provider:'' @ first_nonempty (upper (strip report)) ''EMPTY'') db = (Inr e1, u)"
      using assms(1) Some False by (auto simp: apply_provider_usage_def Let_def txn_ok)
    from write_status_run [OF w assms(2)] have e1: "e1 = e\<lparr>es_status := target, es_updated := clock db\<rparr>"
      and u: "map_of (esims u) pk = Some (stored\<lparr>es_status := target, es_updated := clock db\<rparr>)" "events u = events db"
      by auto
    let ?key = "''provider.usage_unknown:'' @ str_nat pk @ '':'' @ isoformat env (es_updated e1)"
    obtain x where x: "(if upper (strip report) = ''UNKNOWN''
          then record_event FromProvider (pk, e1) ''provider.usage_unknown'' ?key
                 (JObj [(''provider_status'', JText (upper (strip report)))]) else ret ()) u = (Inr (), x)"
      and r: "refresh_status (pk, e1) x = (Inr e', x)" and y: "announce_use (pk, e') (es_status e) x = (Inr (), t)"
      using assms(1) Some False w
      by (clarsimp simp: apply_provider_usage_def Let_def combinators_ok) (auto simp: refresh_status_def txn_ok)
    have x': "esims x = esims u" "events x = events u"
      using x by (auto simp: ret_def dest: record_event_run split: if_splits)
    have "target \<noteq> Activated" using Some by (auto simp: provider_usage_status_def split: if_splits)
    have st: "es_status e' = target" "es_iccid e' = es_iccid e" "es_user e' = es_user e"
      using r u x' e1 by (auto simp: refresh_status_def txn_ok)
    define secs :: rat where "secs = of_int (clock x - es_created e') / 1000000"
    have "esims t = esims x" "events t = events x @
             (if target = InUse \<and> es_status e \<notin> {Activated, InUse, Exhausted, EsimExpired}
              then [EsimActivated (str_nat pk) (es_iccid e) (str_nat (es_user e)) secs]
              else []) @
             (if target = InUse \<and> es_status e \<notin> {InUse, Exhausted, EsimExpired}
              then [EsimFirstUsageDetected (str_nat pk) (es_iccid e) (str_nat (es_user e))] else [])"
      using y st \<open>target \<noteq> Activated\<close> by (auto simp: announce_use_def publish_def txn_defs secs_def split: if_splits)
    moreover have "map_option es_status (map_of (esims t) pk) = Some target" using calculation(1) x' u by simp
    ultimately show ?thesis using Some x'(2) u(2) again st(1) by auto
  qed
qed

theorem provider_usage_decides_witness:
  "\<exists>t e'. apply_provider_usage demo_env (7, demo_esim 1) ''ACTIVE'' demo_order_db = (Inr e', t) \<and>
     es_status e' = InUse \<and> apply_provider_usage demo_env (7, e') ''ACTIVE'' t = (Inr e', t)"
proof -
  have up: "upper (strip ''ACTIVE'') = ''ACTIVE''" by code_simp
  have "\<exists>t e'. apply_provider_usage demo_env (7, demo_esim 1) ''ACTIVE'' demo_order_db = (Inr e', t)"
    by (simp add: apply_provider_usage_def up Let_def provider_usage_status_def write_status_def update_esim_def record_event_def
      find_lifecycle_event_def insert_lifecycle_event_def uuid4_def publish_def refresh_status_def announce_use_def txn_defs demo_env_def str_nat.simps [of 7])
  then obtain t e' where t: "apply_provider_usage demo_env (7, demo_esim 1) ''ACTIVE'' demo_order_db = (Inr e', t)" by blast
  have "map_of (esims demo_order_db) 7 = Some (demo_esim 1)" by simp
  from provider_usage_decides [OF t this] t show ?thesis
    by (auto simp: up provider_usage_status_def)
qed

end
