(* ===== verification/Spending.thy ===== *)
theory Spending
  imports Inventory
begin

text \<open>
  What orders and top-ups have in common: a row is stored and debited in one transaction, the provider is
  called outside it, and the row is then settled or, when the provider failed, refunded. The phases are the
  specification the two services implement; the locale states the contract between the row tables and the
  ledger, and it is interpreted on orders and on top-ups.
\<close>

datatype spend_phase = Reserved | Settled | Refunded

text \<open>What the ledger holds under a key: the account and the signed amount.\<close>

definition posting :: "ledger_entry list \<Rightarrow> string \<Rightarrow> (nat \<times> rat) option" where
  "posting es key = map_option (\<lambda>e. (entry_account e, delta e)) (find_entry key es)"

lemma posting_append: "posting (es @ fs) key = (case posting es key of None \<Rightarrow> posting fs key | Some p \<Rightarrow> Some p)"
  by (simp add: posting_def find_entry_append split: option.splits)

lemma posting_one [simp]:
  "posting [] key = None"
  "posting [e] key = (if entry_key e = key then Some (entry_account e, delta e) else None)"
  by (simp_all add: posting_def find_entry_def)

text \<open>A posting adds at most the entry of its key, with the amount the call was given.\<close>

lemma apply_posting_other:
  assumes "apply_credit a amount rt rid key sign db = (r, db')" "k \<noteq> key"
  shows "posting (ledger db') k = posting (ledger db) k"
proof (cases r)
  case (Inl e)
  with assms show ?thesis by (auto dest: apply_error_unchanged)
next
  case (Inr e)
  with assms have run: "apply_credit a amount rt rid key sign db = (Inr e, db')" by simp
  from apply_Inr [OF run] assms(2) show ?thesis
    by (auto simp: post_simps posting_append) (auto simp: post_def Let_def new_entry_def split: option.splits)
qed

lemmas credit_posting_other = apply_posting_other [of _ _ _ _ _ 1, folded credit_def]
lemmas debit_posting_other = apply_posting_other [of _ _ _ _ _ "- 1", folded debit_def]

lemma apply_posts_entry:
  assumes "apply_credit a amount rt rid key sign db = (Inr e, db')" "posting (ledger db) key = None"
  shows "\<exists>x. normalize_amount amount = Inr x \<and> ledger db' = ledger db @ [e] \<and> entry_key e = key \<and>
     entry_account e = a \<and> delta e = signed sign x \<and> next_uuid db < next_uuid db'"
  using apply_Inr [OF assms(1)] assms(2)
  by (auto simp: post_simps posting_def) (auto simp: post_def Let_def new_entry_def)

lemma cents_micro: "on_grid MONEY_QUANTUM x \<Longrightarrow> on_grid MONEY_QUANT x"
  by (erule cent.on_gridE) (rule micro.on_gridI [of _ "10000 * k" for k], simp add: MONEY_QUANTUM_def MONEY_QUANT_def)

lemma normalize_cents:
  assumes "normalize_amount (DecimalArg (Finite x)) = Inr y" "on_grid MONEY_QUANTUM x"
  shows "y = x"
  using normalize_amount_Inr(4) [OF assms(1)] micro.quantize_fixes_grid [OF cents_micro [OF assms(2)]] by auto

text \<open>A row has at most one debit and one refund in the ledger, of its amount and on its account, and a paid
  row has the refund exactly in the phase \<open>Refunded\<close>. No row, no posting.\<close>

definition row_paid :: "(nat \<times> rat \<times> spend_phase) option \<Rightarrow> (nat \<times> rat) option \<Rightarrow> (nat \<times> rat) option \<Rightarrow> bool" where
  "row_paid v debited refunded \<longleftrightarrow>
     debited = None \<and> refunded = None \<or>
     (\<exists>a x ph. v = Some (a, x, ph) \<and> debited = Some (a, - x) \<and>
        refunded = (if ph = Refunded then Some (a, x) else None))"

text \<open>\<open>rows\<close> is the table and \<open>spend\<close> the account, the charged amount and the phase of a row.\<close>

locale spending =
  fixes rows :: "'x order_db_scheme \<Rightarrow> (nat \<times> 'r) list" and spend :: "'r \<Rightarrow> nat \<times> rat \<times> spend_phase"
    and dkey rkey :: "nat \<Rightarrow> string"
  assumes keys_differ: "dkey m \<noteq> rkey n" "dkey m = dkey n \<Longrightarrow> m = n" "rkey m = rkey n \<Longrightarrow> m = n"
    and rows_frame:
      "rows (db\<lparr>accounts := acs\<rparr>) = rows db" "rows (db\<lparr>ledger := es\<rparr>) = rows db" "rows (db\<lparr>next_uuid := n\<rparr>) = rows db"
      "rows (db\<lparr>events := evs\<rparr>) = rows db" "rows (db\<lparr>accruals := acr\<rparr>) = rows db" "rows (db\<lparr>esims := sims\<rparr>) = rows db"
      "rows (db\<lparr>lifecycle_events := les\<rparr>) = rows db"
begin

definition view :: "'x order_db_scheme \<Rightarrow> nat \<Rightarrow> (nat \<times> rat \<times> spend_phase) option" where
  "view db pk = map_option spend (map_of (rows db) pk)"

definition spend_ok :: "'x order_db_scheme \<Rightarrow> bool" where
  "spend_ok db \<longleftrightarrow>
     (\<forall>pk. row_paid (view db pk) (posting (ledger db) (dkey pk)) (posting (ledger db) (rkey pk))) \<and>
     (\<forall>pk. view db pk \<noteq> None \<longrightarrow> pk < next_uuid db)"

lemmas rows_frames [simp] = rows_frame

text \<open>What a step does that is none of the table's business.\<close>

definition untouched :: "'x order_db_scheme \<Rightarrow> 'x order_db_scheme \<Rightarrow> bool" where
  "untouched db t \<longleftrightarrow> rows t = rows db \<and> next_uuid db \<le> next_uuid t \<and>
     (\<forall>pk. posting (ledger t) (dkey pk) = posting (ledger db) (dkey pk) \<and>
           posting (ledger t) (rkey pk) = posting (ledger db) (rkey pk))"

definition foreign :: "string \<Rightarrow> bool" where
  "foreign key \<longleftrightarrow> (\<forall>pk. key \<noteq> dkey pk \<and> key \<noteq> rkey pk)"

lemma untouched_refl [simp]: "untouched db db"
  by (simp add: untouched_def)

lemma untouched_trans: "untouched a b \<Longrightarrow> untouched b c \<Longrightarrow> untouched a c"
  by (auto simp: untouched_def)

lemma untouched_spend_ok: "spend_ok db \<Longrightarrow> untouched db t \<Longrightarrow> spend_ok t"
  unfolding spend_ok_def untouched_def view_def by (metis less_le_trans)

lemma untouched_same: "rows t = rows s \<Longrightarrow> ledger t = ledger s \<Longrightarrow> next_uuid t = next_uuid s \<Longrightarrow> untouched db s \<Longrightarrow> untouched db t"
  by (simp add: untouched_def)

lemma keeps_untouched_uuid4 [keeps_intros]: "keeps (untouched db) uuid4"
  by (auto simp: keeps_def uuid4_def untouched_def)

lemma keeps_untouched_publish [keeps_intros]: "keeps (untouched db) (publish evs)"
  by (auto simp: keeps_def publish_def txn_defs untouched_def)

lemma keeps_untouched_ensure [keeps_intros]: "keeps (untouched db) (ensure_billing_account u)"
  by (auto simp: keeps_def ensure_billing_account_def save_account_def uuid4_def txn_defs untouched_def split: option.splits)

lemma keeps_untouched_apply:
  assumes "foreign key"
  shows "keeps (untouched db) (apply_credit a m rt rid key sign)"
proof (rule keepsI)
  fix s r t
  assume s: "untouched db s" and run: "apply_credit a m rt rid key sign s = (r, t)"
  have "rows t = rows s" "next_uuid s \<le> next_uuid t" using apply_frame [OF run] by auto
  moreover have "dkey pk \<noteq> key" "rkey pk \<noteq> key" for pk using assms by (auto simp: foreign_def)
  ultimately show "untouched db t" using s by (simp add: untouched_def apply_posting_other [OF run])
qed

lemma keeps_untouched_credit [keeps_intros]: "foreign key \<Longrightarrow> keeps (untouched db) (credit a m rt rid key)"
  by (simp add: credit_def keeps_untouched_apply)

lemma keeps_untouched_accrue [keeps_intros]:
  assumes "foreign (accrual_key st sid)"
  shows "keeps (untouched db) (accrue env st sid lp np customer)"
  unfolding accrue_def accrue_share_def insert_accrual_def Let_def
  by (intro keeps_intros assms) (simp_all add: untouched_def)

lemma keeps_untouched_esim [keeps_intros]: "keeps (untouched db) (update_esim pk f)"
  unfolding update_esim_def by (intro keeps_intros) (simp_all add: untouched_def)

lemma keeps_untouched_insert_esim [keeps_intros]: "keeps (untouched db) (insert_esim pk e)"
  unfolding insert_esim_def by (intro keeps_intros) (simp_all add: untouched_def)

lemma spend_ok_fresh:
  "spend_ok db \<Longrightarrow> next_uuid db \<le> pk \<Longrightarrow>
     view db pk = None \<and> posting (ledger db) (dkey pk) = None \<and> posting (ledger db) (rkey pk) = None"
  unfolding spend_ok_def row_paid_def by (metis leD option.distinct(1))

text \<open>A fresh row with or without its debit; a row that is settled; a row that is refunded.\<close>

lemma spend_ok_row:
  assumes "spend_ok db" "next_uuid db \<le> next_uuid db'" "pk < next_uuid db'"
    and "\<And>p. p \<noteq> pk \<Longrightarrow> view db' p = view db p"
    and "ledger db' = ledger db @ es" "\<And>e. e \<in> set es \<Longrightarrow> entry_key e \<in> {dkey pk, rkey pk}"
    and "row_paid (view db' pk) (posting (ledger db') (dkey pk)) (posting (ledger db') (rkey pk))"
  shows "spend_ok db'"
  unfolding spend_ok_def
proof (intro conjI allI impI)
  fix p
  have "posting es (dkey p) = None \<and> posting es (rkey p) = None" if "p \<noteq> pk"
    using assms(6) that keys_differ [of p pk] keys_differ [of pk p]
    by (fastforce simp: posting_def find_entry_None)
  then have "posting (ledger db') (dkey p) = posting (ledger db) (dkey p) \<and>
      posting (ledger db') (rkey p) = posting (ledger db) (rkey p)" if "p \<noteq> pk"
    using that by (simp add: assms(5) posting_append split: option.splits)
  then show "row_paid (view db' p) (posting (ledger db') (dkey p)) (posting (ledger db') (rkey p))"
    using assms(1,4,7) by (cases "p = pk") (simp_all add: spend_ok_def)
  assume "view db' p \<noteq> None"
  then show "p < next_uuid db'"
    using assms(1-4) unfolding spend_ok_def by (cases "p = pk") (simp, metis less_le_trans)
qed

end

end
