(* ===== verification/Orders.thy ===== *)
theory Orders
  imports Lifecycle Spending
begin

text \<open>
  \<^verbatim>\<open>orders/services/order_service.py\<close>: the row is stored and debited in one transaction, the provider is
  called outside it, and then the eSIMs are stored or the charge is refunded. The provider is the argument
  \<open>create\<close> (\<^verbatim>\<open>OrderProvider.create_order\<close>), whose exceptions are values. The lookup of the idempotency key
  takes no lock that an insert would wait for, so it reads the table \<open>seen\<close>; a second request that inserts
  first makes the insert fail, and since that happens inside the transaction, the code's second lookup
  is refused by Django (\<^verbatim>\<open>TransactionManagementError\<close>).
\<close>

section \<open>The service\<close>

record ordered_sim =
  sim_iccid :: string
  sim_lpa :: string
  sim_matching_id :: string
  sim_qrcode :: string
  sim_qrcode_url :: string
  sim_apple_url :: string

record order_result =
  or_external :: string
  or_manual :: string
  or_qrcode_steps :: string
  or_guide_url :: string
  or_sims :: "ordered_sim list"

definition find_order :: "string \<Rightarrow> (nat \<times> order_row) list \<Rightarrow> (nat \<times> order_row) option" where
  "find_order key rows = find (\<lambda>r. ord_key (snd r) = Some key) rows"

definition key_given :: "string option \<Rightarrow> string option" where
  "key_given k = (case k of Some (c # cs) \<Rightarrow> Some (c # cs) | _ \<Rightarrow> None)"

definition order_debit_key :: "nat \<Rightarrow> string" where "order_debit_key pk = ''order-debit:'' @ str_nat pk"
definition order_refund_key :: "nat \<Rightarrow> string" where "order_refund_key pk = ''order-refund:'' @ str_nat pk"

text \<open>The product and pricing columns of a new order.\<close>

definition order_columns :: "(json \<Rightarrow> string) \<Rightarrow> package \<Rightarrow> pricing_columns option \<Rightarrow> product_snapshot \<times> pricing_columns" where
  "order_columns str_of package kwargs =
     (let product = product_snapshot_kwargs str_of package
      in case kwargs of
           Some c \<Rightarrow> (product\<lparr>snp_retail := col_charged c\<rparr>, c)
         | None \<Rightarrow> (product\<lparr>snp_retail := Some (price_usd package)\<rparr>,
                    no_pricing\<lparr>col_list_price := Some (price_usd package), col_charged := Some (price_usd package)\<rparr>))"

definition new_order ::
  "nat \<Rightarrow> package \<Rightarrow> string option \<Rightarrow> string option \<Rightarrow> product_snapshot \<times> pricing_columns \<Rightarrow> int \<Rightarrow> order_row" where
  "new_order account package customer_ref key columns now =
     \<lparr>ord_account = account, ord_package = pkg_id package, ord_status = OFulfilling, ord_external = [],
      ord_ref = (case customer_ref of None \<Rightarrow> [] | Some s \<Rightarrow> s), ord_key = key_given key,
      ord_product = fst columns, ord_pricing = snd columns, ord_created = now, ord_updated = now\<rparr>"

text \<open>The order in hand after \<^verbatim>\<open>customer_ref\<close> was filled in.\<close>

definition with_ref :: "nat \<Rightarrow> int \<Rightarrow> order_row \<Rightarrow> order_row" where
  "with_ref pk now row = (if ord_ref row = [] then row\<lparr>ord_ref := ''rk-'' @ str_nat pk, ord_updated := now\<rparr> else row)"

definition place_order ::
  "env \<Rightarrow> nat \<Rightarrow> package \<Rightarrow> string option \<Rightarrow> bool \<Rightarrow> string option \<Rightarrow> product_snapshot \<times> pricing_columns \<Rightarrow>
   ('x, (nat \<times> order_row) \<times> ledger_entry option \<times> bool) order_txn" where
  "place_order env account package customer_ref skip_payment key columns =
     bindE uuid4 (\<lambda>pk.
     bindE (getsE clock) (\<lambda>now.
     let order = new_order account package customer_ref key columns now;
         order' = with_ref pk now order
     in thenE (catchE (insert_order pk order) (\<lambda>e.
          if e = EPy IntegrityError then raiseE (EPy TransactionManagementError) else raiseE e))
        (thenE (if ord_ref order = []
                then update_order pk (\<lambda>r. r\<lparr>ord_ref := ord_ref order', ord_updated := now\<rparr>) else ret ())
        (if skip_payment then ret ((pk, order'), None, False)
         else if \<not> BILLING_ENABLED env then raiseE (EDeposit BillingDisabledError)
         else case snp_retail (ord_product order') of
           None \<Rightarrow> raiseE (EPy RuntimeError)
         | Some amount \<Rightarrow>
             bindE (debit account (DecimalArg (Finite amount)) (RefEnum ORDER) (str_nat pk)
                      (order_debit_key pk)) (\<lambda>entry.
             ret ((pk, order'), Some entry, False))))))"

definition reserve_and_debit ::
  "(nat \<times> order_row) list \<Rightarrow> env \<Rightarrow> (json \<Rightarrow> string) \<Rightarrow> nat \<Rightarrow> package \<Rightarrow> string option \<Rightarrow> bool \<Rightarrow> string option \<Rightarrow>
   ('x, (nat \<times> order_row) \<times> ledger_entry option \<times> bool) order_txn" where
  "reserve_and_debit seen env str_of account package customer_ref skip_payment key =
     atomic (
       case (case key_given key of None \<Rightarrow> None | Some k \<Rightarrow> find_order k seen) of
         Some existing \<Rightarrow>
           if ord_status (snd existing) = OFulfilling then raiseE (ESpend SpendInProgressError)
           else ret (existing, None, True)
       | None \<Rightarrow>
           bindE (resolve_package_charge env account package) (\<lambda>(_, kwargs).
           place_order env account package customer_ref skip_payment key (order_columns str_of package kwargs)))"

definition refund_events :: "nat \<Rightarrow> rat \<Rightarrow> ledger_reference_type \<Rightarrow> nat \<Rightarrow> ledger_entry \<Rightarrow> event list" where
  "refund_events account amount kind pk entry =
     [CreditGranted (str_nat account) amount (balance_after entry) (reference_value REFUND) (str_nat pk)
        (str_nat (entry_id entry)) (entry_created_at entry),
      FulfillmentRefunded (str_nat account) amount (balance_after entry) (reference_value kind) (str_nat pk)
        (str_nat (entry_id entry)) ''provider_fulfillment_failed'' (entry_created_at entry)]"

text \<open>The transaction of \<^verbatim>\<open>_compensate_failed\<close>, and the events it leaves to publish.\<close>

definition refund_order :: "nat \<Rightarrow> nat \<Rightarrow> bool \<Rightarrow> ('x, event list) order_txn" where
  "refund_order pk account skip_payment =
     bindE (getsE (\<lambda>db. map_of (orders db) pk)) (\<lambda>row.
     bindE (get_or_raise (EPy ObjectDoesNotExist) row) (\<lambda>locked.
     if ord_status locked = OFailed then ret []
     else
       bindE (getsE clock) (\<lambda>now.
       thenE (update_order pk (\<lambda>r. r\<lparr>ord_status := OFailed, ord_updated := now\<rparr>))
       (if skip_payment then ret []
        else case snp_retail (ord_product locked) of
          None \<Rightarrow> raiseE (EPy RuntimeError)
        | Some amount \<Rightarrow>
            bindE (credit account (DecimalArg (Finite amount)) (RefEnum REFUND) (str_nat pk) (order_refund_key pk)) (\<lambda>entry.
            ret (refund_events account amount ORDER pk entry))))))"

definition compensate_failed :: "nat \<Rightarrow> nat \<Rightarrow> bool \<Rightarrow> ('x, unit) order_txn" where
  "compensate_failed pk account skip_payment = bindE (atomic (refund_order pk account skip_payment)) publish"

definition create_sim ::
  "env \<Rightarrow> nat \<Rightarrow> nat \<times> order_row \<Rightarrow> package \<Rightarrow> order_result \<Rightarrow> ordered_sim \<Rightarrow> ('x, string) order_txn" where
  "create_sim env actor order package result sim =
     bindE (create_purchased env actor (Some (ord_account (snd order))) order package (sim_iccid sim)
              \<lparr>ins_lpa = sim_lpa sim, ins_matching_id = sim_matching_id sim, ins_qrcode = sim_qrcode sim,
               ins_qrcode_url = sim_qrcode_url sim, ins_apple_url = sim_apple_url sim, ins_manual = or_manual result,
               ins_qrcode_steps = or_qrcode_steps result, ins_guide_url = or_guide_url result\<rparr>
              (first_nonempty (pkg_activation_policy package) ''unknown'')) (\<lambda>_.
     ret (sim_iccid sim))"

fun each :: "('a \<Rightarrow> ('s, 'b) txn) \<Rightarrow> 'a list \<Rightarrow> ('s, 'b list) txn" where
  "each f [] = ret []"
| "each f (x # xs) = bindE (f x) (\<lambda>y. bindE (each f xs) (\<lambda>ys. ret (y # ys)))"

definition fulfilled_row :: "string \<Rightarrow> int \<Rightarrow> order_row \<Rightarrow> order_row" where
  "fulfilled_row external now row = row\<lparr>ord_external := external, ord_status := OFulfilled, ord_updated := now\<rparr>"

definition persist_fulfillment ::
  "env \<Rightarrow> nat \<times> order_row \<Rightarrow> package \<Rightarrow> order_result \<Rightarrow> nat \<Rightarrow> ('x, (nat \<times> order_row) \<times> string list) order_txn" where
  "persist_fulfillment env order package result actor =
     atomic (
       bindE (getsE clock) (\<lambda>now.
       let order' = (fst order, fulfilled_row (or_external result) now (snd order))
       in thenE (guardE (length (or_external result) \<le> 64) (EPy DataError))
          (thenE (update_order (fst order) (fulfilled_row (or_external result) now))
          (bindE (each (create_sim env actor order' package result) (or_sims result)) (\<lambda>iccids.
           bindE (liftE (build_source_id SOrder (fst order) None)) (\<lambda>source_id.
           bindE (accrue env SOrder source_id (col_list_price (ord_pricing (snd order)))
                    (snp_net (ord_product (snd order))) (Some actor)) (\<lambda>_.
           ret (order', iccids))))))))"

definition fulfill_seen ::
  "(nat \<times> order_row) list \<Rightarrow> env \<Rightarrow> (json \<Rightarrow> string) \<Rightarrow> (string \<Rightarrow> string \<Rightarrow> exc + order_result) \<Rightarrow> nat \<Rightarrow> package \<Rightarrow>
   string option \<Rightarrow> bool \<Rightarrow> string option \<Rightarrow> nat \<Rightarrow> ('x, nat \<times> order_row) order_txn" where
  "fulfill_seen seen env str_of create user package customer_ref skip_payment key account =
     (if \<not> skip_payment \<and> key_given key = None then raiseE (ESpend IdempotencyKeyRequiredError)
      else
        bindE (reserve_and_debit seen env str_of account package customer_ref skip_payment key)
          (\<lambda>(order, debit_entry, replayed).
        if replayed then ret order
        else case snp_retail (ord_product (snd order)) of
          None \<Rightarrow> raiseE (EPy RuntimeError)
        | Some amount \<Rightarrow>
            thenE (case debit_entry of
                None \<Rightarrow> ret ()
              | Some e \<Rightarrow> publish [CreditDebited (str_nat account) amount (balance_after e) (reference_value ORDER)
                            (str_nat (fst order)) (str_nat (entry_id e)) (entry_created_at e)])
            (case create (pkg_external_id package) (ord_ref (snd order)) of
               Inl e \<Rightarrow> thenE (compensate_failed (fst order) account skip_payment) (raiseE e)
             | Inr result \<Rightarrow>
                 bindE (persist_fulfillment env order package result user) (\<lambda>(order', iccids).
                 thenE (publish (map (\<lambda>i. AiraloOrderCreated (str_nat (fst order)) i (str_nat user)) iccids))
                   (ret order')))))"

definition fulfill ::
  "env \<Rightarrow> (json \<Rightarrow> string) \<Rightarrow> (string \<Rightarrow> string \<Rightarrow> exc + order_result) \<Rightarrow> nat \<Rightarrow> package \<Rightarrow>
   string option \<Rightarrow> bool \<Rightarrow> string option \<Rightarrow> nat option \<Rightarrow> ('x, nat \<times> order_row) order_txn" where
  "fulfill env str_of create user package customer_ref skip_payment key account =
     bindE (case account of Some a \<Rightarrow> ret a | None \<Rightarrow> ensure_billing_account user) (\<lambda>a.
     bindE (getsE orders) (\<lambda>seen.
     fulfill_seen seen env str_of create user package customer_ref skip_payment key a))"

section \<open>Orders as spends\<close>

fun order_phase :: "order_status \<Rightarrow> spend_phase" where
  "order_phase OFulfilled = Settled"
| "order_phase OFailed = Refunded"
| "order_phase _ = Reserved"

lemma order_phase_Reserved: "order_phase s = Reserved \<Longrightarrow> s \<noteq> OFailed \<and> s \<noteq> OFulfilled"
  by (cases s) simp_all

definition the_amount :: "rat option \<Rightarrow> rat" where
  "the_amount x = (case x of None \<Rightarrow> 0 | Some a \<Rightarrow> a)"

definition order_spend :: "order_row \<Rightarrow> nat \<times> rat \<times> spend_phase" where
  "order_spend r = (ord_account r, the_amount (snp_retail (ord_product r)), order_phase (ord_status r))"

interpretation ord: spending orders order_spend order_debit_key order_refund_key
  by unfold_locales (auto simp: order_debit_key_def order_refund_key_def)

lemma ord_untouched_topup [keeps_intros]: "keeps (ord.untouched db) (insert_topup pk row)"
  unfolding insert_topup_def Let_def stored_key_def by (intro keeps_intros) (simp_all add: ord.untouched_def)

lemma ord_untouched_update_topup [keeps_intros]: "keeps (ord.untouched db) (update_topup pk f)"
  unfolding update_topup_def by (intro keeps_intros) (simp_all add: ord.untouched_def)

lemma ord_untouched_initial [keeps_intros]: "keeps (ord.untouched db) (ensure_initial_credit_topup e o' p)"
  unfolding ensure_initial_credit_topup_def Let_def by (intro keeps_intros)

lemma ord_untouched_record [keeps_intros]: "keeps (ord.untouched db) (record_event src e ty key payload)"
  unfolding record_event_def insert_lifecycle_event_def
  by (intro keeps_intros) (simp_all add: ord.untouched_def)

lemma ord_untouched_create [keeps_intros]: "keeps (ord.untouched db) (create_purchased env u a o' p iccid d pol)"
  unfolding create_purchased_def Let_def by (intro keeps_intros)

lemma ord_untouched_sim [keeps_intros]: "keeps (ord.untouched db) (create_sim env actor o' p res sim)"
  unfolding create_sim_def by (intro keeps_intros)

lemma keeps_each [keeps_intros]: "(\<And>x. keeps I (f x)) \<Longrightarrow> keeps I (each f xs)"
  by (induction xs) (auto intro!: keeps_intros)

lemma order_keys_foreign: "ord.foreign (accrual_key st sid)"
  by (auto simp: ord.foreign_def accrual_key_def order_debit_key_def order_refund_key_def)

lemma update_order_run:
  "map_of (orders db) pk = Some r \<Longrightarrow> update_order pk f db = (Inr (), db\<lparr>orders := AList.update pk (f r) (orders db)\<rparr>)"
  by (simp add: update_order_def txn_defs)

text \<open>Settling touches no other order and no order's postings.\<close>

lemma persist_run:
  assumes "persist_fulfillment env (pk, o') package result actor db = (r, t)" "map_of (orders db) pk = Some row"
  shows "case r of
      Inl _ \<Rightarrow> t = db
    | Inr (q, iccids) \<Rightarrow> q = (pk, fulfilled_row (or_external result) (clock db) o') \<and>
        iccids = map sim_iccid (or_sims result) \<and>
        ord.untouched (db\<lparr>orders := AList.update pk (fulfilled_row (or_external result) (clock db) row) (orders db)\<rparr>) t"
proof (cases r)
  case (Inl e)
  then show ?thesis using assms(1) by (auto simp: persist_fulfillment_def atomic_iff)
next
  case (Inr x)
  let ?u = "db\<lparr>orders := AList.update pk (fulfilled_row (or_external result) (clock db) row) (orders db)\<rparr>"
  let ?o = "(pk, fulfilled_row (or_external result) (clock db) o')"
  obtain v iccids acc src where v: "each (create_sim env actor ?o package result) (or_sims result) ?u = (Inr iccids, v)"
    and a: "accrue env SOrder src (col_list_price (ord_pricing o')) (snp_net (ord_product o')) (Some actor) v = (Inr acc, t)"
    and x: "x = (?o, iccids)"
    using assms Inr by (auto simp: persist_fulfillment_def Let_def combinators_ok update_order_run)
  have "keeps (ord.untouched ?u) (each (create_sim env actor ?o package result) (or_sims result))" by (intro keeps_intros)
  from keepsD [OF this ord.untouched_refl v] have v': "ord.untouched ?u v" .
  have "keeps (ord.untouched ?u) (accrue env SOrder src (col_list_price (ord_pricing o')) (snp_net (ord_product o')) (Some actor))"
    by (intro keeps_intros order_keys_foreign)
  from keepsD [OF this v' a] have "ord.untouched ?u t" .
  moreover have "iccids' = map sim_iccid sims"
    if "each (create_sim env actor ?o package result) sims w = (Inr iccids', w')" for sims iccids' w w'
    using that by (induction sims arbitrary: iccids' w w') (auto simp: create_sim_def combinators_ok)
  from this [OF v] have "iccids = map sim_iccid (or_sims result)" .
  ultimately show ?thesis using Inr x by simp
qed

text \<open>The stored columns of a fresh order: prices on the cent grid are stored as they are.\<close>

lemma numeric_10_2_grid: "on_grid MONEY_QUANTUM x \<Longrightarrow> numeric_10_2 x = Inr y \<Longrightarrow> y = x"
  by (auto simp: numeric_10_2_def Let_def cent.quantize_fixes_grid split: if_splits)

lemma insert_order_run:
  assumes "insert_order pk row db = (Inr (), t)"
  obtains row' where "orders t = AList.update pk row' (orders db)" "ledger t = ledger db" "accounts t = accounts db"
    "next_uuid t = next_uuid db" "clock t = clock db" "ord_account row' = ord_account row"
    "ord_status row' = ord_status row" "ord_key row' = ord_key row" "ord_ref row' = ord_ref row"
    "nullable numeric_10_2 (snp_retail (ord_product row)) = Inr (snp_retail (ord_product row'))"
    "\<not> key_taken (ord_key row) (map (\<lambda>r. ord_key (snd r)) (orders db))"
proof -
  obtain retail net lp disc where "nullable numeric_10_2 (snp_retail (ord_product row)) = Inr retail"
    "t = db\<lparr>orders := AList.update pk (stored_order row retail net lp disc) (orders db)\<rparr>"
    "\<not> key_taken (ord_key row) (map (\<lambda>r. ord_key (snd r)) (orders db))"
    using assms unfolding insert_order_def stored_key_def combinators_ok cases_ok(1) by blast
  then show thesis by (intro that [of "stored_order row retail net lp disc"]) (simp_all add: stored_order_def)
qed

lemma insert_order_error: "insert_order pk row db = (Inl e, t) \<Longrightarrow> t = db"
  by (auto simp: insert_order_def txn_iff stored_key_def split: if_splits)

lemma resolve_customer_grid: "on_grid MONEY_QUANTUM (customer_price (resolve env ctx))"
  using resolve_cases [of env ctx]
  by (auto simp: money_round_grid legacy_percent_off_list_def margin_share_customer_def Let_def)

lemma package_charge_grid:
  assumes "resolve_package_charge env a p db = (Inr (x, kwargs), t)" "on_grid MONEY_QUANTUM (price_usd p)"
  shows "\<exists>amount. snp_retail (fst (order_columns str_of p kwargs)) = Some amount \<and> on_grid MONEY_QUANTUM amount"
  using assms resolve_customer_grid
  by (auto simp: resolve_package_charge_def txn_ok Let_def order_columns_def quote_to_order_snapshot_kwargs_def)

text \<open>A reservation answers with an earlier order, or stores one new row with its debit (none when payment
  is skipped).\<close>

definition placed ::
  "nat \<Rightarrow> bool \<Rightarrow> string option \<Rightarrow> nat \<times> order_row \<Rightarrow> ledger_entry option \<Rightarrow> rat \<Rightarrow> 'x order_db_scheme \<Rightarrow> 'x order_db_scheme \<Rightarrow> bool" where
  "placed account skip key order entry amount db t \<longleftrightarrow>
     fst order = next_uuid db \<and> snp_retail (ord_product (snd order)) = Some amount \<and>
     (\<exists>row. orders t = AList.update (fst order) row (orders db) \<and> ord_status row = OFulfilling \<and>
        ord_key row = key_given key \<and> ord_account row = account \<and> snp_retail (ord_product row) = Some amount) \<and>
     \<not> key_taken (key_given key) (map (\<lambda>r. ord_key (snd r)) (orders db)) \<and> next_uuid db < next_uuid t \<and>
     (if skip then entry = None \<and> ledger t = ledger db \<and> accounts t = accounts db
      else \<exists>e u. entry = Some e \<and> accounts u = accounts db \<and> ledger u = ledger db \<and>
        debit account (DecimalArg (Finite amount)) (RefEnum ORDER) (str_nat (fst order))
          (order_debit_key (fst order)) u = (Inr e, t))"

lemma place_order_run:
  assumes run: "place_order env account package customer_ref skip key columns db = (Inr (order, entry, replayed), t)"
    and amount: "snp_retail (fst columns) = Some amount" "on_grid MONEY_QUANTUM amount"
  shows "\<not> replayed \<and> placed account skip key order entry amount db t \<and> ord_account (snd order) = account"
proof -
  let ?pk = "next_uuid db"
  let ?o = "new_order account package customer_ref key columns (clock db)"
  let ?o' = "with_ref ?pk (clock db) ?o"
  let ?db1 = "db\<lparr>next_uuid := Suc ?pk\<rparr>"
  obtain u v where ins: "insert_order ?pk ?o ?db1 = (Inr (), u)"
    and ref: "(if ord_ref ?o = [] then update_order ?pk (\<lambda>r. r\<lparr>ord_ref := ord_ref ?o', ord_updated := clock db\<rparr>)
        else ret ()) u = (Inr (), v)"
    and pay: "(if skip then ret ((?pk, ?o'), None, False)
               else if \<not> BILLING_ENABLED env then raiseE (EDeposit BillingDisabledError)
               else case snp_retail (ord_product ?o') of
                 None \<Rightarrow> raiseE (EPy RuntimeError)
               | Some amount \<Rightarrow>
                   bindE (debit account (DecimalArg (Finite amount)) (RefEnum ORDER) (str_nat ?pk)
                            (order_debit_key ?pk)) (\<lambda>entry.
                   ret ((?pk, ?o'), Some entry, False))) v = (Inr (order, entry, replayed), t)"
    using run unfolding place_order_def Let_def
    by (clarsimp simp: combinators_ok uuid4_def catchE_iff) (auto simp: txn_ok split: if_splits)
  from insert_order_run [OF ins] obtain row where row: "orders u = AList.update ?pk row (orders db)"
      "ledger u = ledger db" "accounts u = accounts db" "next_uuid u = Suc ?pk"
      "ord_account row = account" "ord_status row = OFulfilling" "ord_key row = key_given key"
      "nullable numeric_10_2 (Some amount) = Inr (snp_retail (ord_product row))"
      "\<not> key_taken (key_given key) (map (\<lambda>r. ord_key (snd r)) (orders db))"
    by (auto simp: new_order_def amount(1))
  have "snp_retail (ord_product row) = Some amount"
    using row(8) numeric_10_2_grid [OF amount(2)] by (auto simp: nullable_def split: sum.splits)
  moreover have "ord_account ?o' = account" "snp_retail (ord_product ?o') = Some amount"
    by (simp_all add: with_ref_def new_order_def amount(1))
  moreover obtain row' where "orders v = AList.update ?pk row' (orders db)" "ledger v = ledger db" "accounts v = accounts db"
      "next_uuid v = Suc ?pk" "ord_account row' = account" "ord_status row' = OFulfilling" "ord_key row' = key_given key"
      "snp_retail (ord_product row') = snp_retail (ord_product row)"
  proof (cases "ord_ref ?o = []")
    case True
    have "map_of (orders u) ?pk = Some row" by (simp add: row(1))
    from update_order_run [OF this] ref True row show thesis
      by (intro that [of "row\<lparr>ord_ref := ord_ref ?o', ord_updated := clock db\<rparr>"]) (auto simp: AList.update_conv' update_Some_unfold)
  next
    case False
    with ref row show thesis by (intro that [of row]) (auto simp: ret_def)
  qed
  ultimately have v: "orders v = AList.update ?pk row' (orders db)" "ledger v = ledger db" "accounts v = accounts db"
      "next_uuid v = Suc ?pk" "ord_account row' = account" "ord_status row' = OFulfilling" "ord_key row' = key_given key"
      "snp_retail (ord_product row') = Some amount"
    and o': "ord_account ?o' = account" "snp_retail (ord_product ?o') = Some amount" by simp_all
  show ?thesis
  proof (cases skip)
    case True
    with pay have "order = (?pk, ?o')" "entry = None" "\<not> replayed" "t = v" by (auto simp: ret_def)
    with True v o' row(9) show ?thesis by (auto simp: placed_def)
  next
    case False
    with pay o'(2) obtain e where e: "debit account (DecimalArg (Finite amount)) (RefEnum ORDER) (str_nat ?pk)
        (order_debit_key ?pk) v = (Inr e, t)" "order = (?pk, ?o')" "entry = Some e" "\<not> replayed"
      by (auto simp: txn_ok)
    from debit_frame [OF e(1)] v(1,4) have "orders t = orders v" "next_uuid v \<le> next_uuid t" by auto
    with e v o' row(9) False show ?thesis unfolding placed_def by auto
  qed
qed

text \<open>A reservation answers with an earlier order, or places one new order with its debit.\<close>

lemma reserve_run:
  assumes run: "reserve_and_debit seen env str_of account package customer_ref skip key db
      = (Inr (order, entry, replayed), t)"
    and grid: "on_grid MONEY_QUANTUM (price_usd package)"
  shows "replayed \<and> t = db \<and> entry = None \<and> ord_status (snd order) \<noteq> OFulfilling \<and>
      (\<exists>k. key_given key = Some k \<and> find_order k seen = Some order) \<or>
     \<not> replayed \<and> (\<exists>amount. placed account skip key order entry amount db t \<and> on_grid MONEY_QUANTUM amount) \<and> ord_account (snd order) = account"
proof (cases "case key_given key of None \<Rightarrow> None | Some k \<Rightarrow> find_order k seen")
  case (Some existing)
  with run show ?thesis
    by (auto simp: reserve_and_debit_def txn_ok split: option.splits)
next
  case None
  obtain x kwargs w where charge: "resolve_package_charge env account package db = (Inr (x, kwargs), w)"
    and place: "place_order env account package customer_ref skip key (order_columns str_of package kwargs) w
       = (Inr (order, entry, replayed), t)"
    using run None by (clarsimp simp: reserve_and_debit_def combinators_ok)
  have "w = db" using resolve_charge_reads(1) [OF charge] .
  moreover obtain amount where "snp_retail (fst (order_columns str_of package kwargs)) = Some amount"
      "on_grid MONEY_QUANTUM amount"
    using package_charge_grid [OF charge grid, where str_of = str_of] by blast
  ultimately show ?thesis using place_order_run [OF place] by blast
qed

lemma reserve_error: "reserve_and_debit seen env str_of account package customer_ref skip key db = (Inl e, t) \<Longrightarrow> t = db"
  by (auto simp: reserve_and_debit_def atomic_iff)

lemma placed_spend_ok:
  assumes "placed account skip key order entry amount db t" "ord.spend_ok db" "on_grid MONEY_QUANTUM amount"
  shows "ord.spend_ok t \<and> ord.view t (fst order) = Some (account, amount, Reserved) \<and>
     (skip \<or> (\<exists>e. entry = Some e \<and> posting (ledger t) (order_debit_key (fst order)) = Some (account, - amount))) \<and>
     (skip \<longrightarrow> posting (ledger t) (order_debit_key (fst order)) = None) \<and>
     posting (ledger t) (order_refund_key (fst order)) = None"
proof -
  let ?pk = "fst order"
  have pk: "?pk = next_uuid db" using assms(1) by (simp add: placed_def)
  then have free: "posting (ledger db) (order_debit_key ?pk) = None" "posting (ledger db) (order_refund_key ?pk) = None"
    using ord.spend_ok_fresh [OF assms(2)] by auto
  obtain row where row: "orders t = AList.update ?pk row (orders db)" "order_spend row = (account, amount, Reserved)"
    using assms(1) by (auto simp: placed_def order_spend_def the_amount_def)
  then have view: "ord.view t ?pk = Some (account, amount, Reserved)" "\<And>p. p \<noteq> ?pk \<Longrightarrow> ord.view t p = ord.view db p"
    by (simp_all add: ord.view_def)
  obtain es where es: "ledger t = ledger db @ es"
    "if skip then es = [] else \<exists>e. entry = Some e \<and> es = [e] \<and> entry_key e = order_debit_key ?pk \<and>
        entry_account e = account \<and> delta e = - amount"
  proof (cases skip)
    case True
    with assms(1) show thesis by (intro that [of "[]"]) (auto simp: placed_def)
  next
    case False
    with assms(1) obtain e u where e: "entry = Some e" "ledger u = ledger db"
      "debit account (DecimalArg (Finite amount)) (RefEnum ORDER) (str_nat ?pk) (order_debit_key ?pk) u = (Inr e, t)"
      by (auto simp: placed_def)
    from apply_posts_entry [OF e(3) [unfolded debit_def]] free(1) e(2) obtain x where
      "normalize_amount (DecimalArg (Finite amount)) = Inr x" "ledger t = ledger db @ [e]"
      "entry_key e = order_debit_key ?pk" "entry_account e = account" "delta e = - x" by auto
    with normalize_cents [OF _ assms(3)] e(1) False show thesis by (intro that [of "[e]"]) auto
  qed
  have post: "posting (ledger t) (order_debit_key ?pk) = (if skip then None else Some (account, - amount))"
    "posting (ledger t) (order_refund_key ?pk) = None"
    using es free ord.keys_differ(1) [of ?pk ?pk] by (auto simp: posting_append split: if_splits)
  have "ord.spend_ok t"
  proof (rule ord.spend_ok_row [OF assms(2)])
    show "next_uuid db \<le> next_uuid t" "?pk < next_uuid t" using assms(1) by (auto simp: placed_def)
    show "entry_key e \<in> {order_debit_key ?pk, order_refund_key ?pk}" if "e \<in> set es" for e
      using es(2) that by (auto split: if_splits)
  qed (use view es post in \<open>auto simp: row_paid_def\<close>)
  with view post es(2) show ?thesis by (auto split: if_splits)
qed

section \<open>Settling and refunding\<close>

lemma publish_iff: "publish evs s = (r, t) \<longleftrightarrow> r = Inr () \<and> t = s\<lparr>events := events s @ evs\<rparr>"
  by (auto simp: publish_def txn_defs)

text \<open>A paid order that is still reserved is refunded with exactly what was debited.\<close>

lemma compensate_run:
  assumes run: "compensate_failed pk account skip (db :: 'x order_db_scheme) = (r, t)" and ok: "ord.spend_ok db"
    and view: "ord.view db pk = Some (account, amount, Reserved)" and grid: "on_grid MONEY_QUANTUM amount"
    and retail: "\<And>row. map_of (orders db) pk = Some row \<Longrightarrow> snp_retail (ord_product row) = Some amount"
    and paid: "if skip then posting (ledger db) (order_debit_key pk) = None
       else posting (ledger db) (order_debit_key pk) = Some (account, - amount)"
  shows "(case r of
      Inl _ \<Rightarrow> t = db
    | Inr _ \<Rightarrow> ord.view t pk = Some (account, amount, Refunded) \<and>
        map_of (orders t) pk = map_option (\<lambda>r. r\<lparr>ord_status := OFailed, ord_updated := clock db\<rparr>) (map_of (orders db) pk) \<and>
        (if skip then ledger t = ledger db \<and> accounts t = accounts db
         else \<exists>e (u :: 'x order_db_scheme) v. balance_of u = balance_of db \<and> ledger u = ledger db \<and> balance_of v = balance_of t \<and> ledger v = ledger t \<and>
           credit account (DecimalArg (Finite amount)) (RefEnum REFUND) (str_nat pk) (order_refund_key pk) u = (Inr e, v))) \<and>
     ord.spend_ok t"
proof -
  obtain row where row: "map_of (orders db) pk = Some row" "ord_account row = account" "ord_status row \<noteq> OFailed"
      "snp_retail (ord_product row) = Some amount"
    using view retail by (auto simp: ord.view_def order_spend_def dest: order_phase_Reserved)
  define row' where "row' = row\<lparr>ord_status := OFailed, ord_updated := clock db\<rparr>"
  define u where "u = db\<lparr>orders := AList.update pk row' (orders db)\<rparr>"
  have refund_free: "posting (ledger db) (order_refund_key pk) = None"
    using ok view by (auto simp: ord.spend_ok_def row_paid_def dest!: spec [of _ pk])
  have fresh: "pk < next_uuid db" using ok view by (auto simp: ord.spend_ok_def)
  have row': "order_spend row' = (account, amount, Refunded)"
    using row by (simp add: row'_def order_spend_def the_amount_def)
  show ?thesis
  proof (cases r)
    case (Inl e)
    then have "t = db" using run by (auto simp: compensate_failed_def bindE_iff [of "atomic m" publish for m] atomic_iff publish_iff)
    with ok Inl show ?thesis by simp
  next
    case (Inr x)
    obtain evs v where "refund_order pk account skip db = (Inr evs, v)" and t: "t = v\<lparr>events := events v @ evs\<rparr>"
      using run [unfolded Inr compensate_failed_def combinators_ok publish_iff] by blast
    then have v: "if skip then v = u else
        \<exists>e. credit account (DecimalArg (Finite amount)) (RefEnum REFUND) (str_nat pk) (order_refund_key pk) u = (Inr e, v)"
      using row by (auto simp: refund_order_def txn_ok update_order_run u_def row'_def split: if_splits)
    have frame: "orders v = orders u" "next_uuid db \<le> next_uuid v"
      using v by (auto simp: u_def dest!: credit_frame split: if_splits)
    have u: "ledger u = ledger db" "balance_of u = balance_of db" "accounts u = accounts db"
      by (simp_all add: u_def balance_of_def fun_eq_iff)
    obtain es where es: "ledger v = ledger db @ es" "if skip then es = [] else \<exists>e. es = [e] \<and>
        entry_key e = order_refund_key pk \<and> entry_account e = account \<and> delta e = amount"
    proof (cases skip)
      case True
      with v u show thesis by (intro that [of "[]"]) simp_all
    next
      case False
      with v obtain e where "credit account (DecimalArg (Finite amount)) (RefEnum REFUND) (str_nat pk) (order_refund_key pk) u = (Inr e, v)"
        by auto
      from apply_posts_entry [OF this [unfolded credit_def]] u refund_free normalize_cents [OF _ grid] False
      show thesis by (intro that [of "[e]"]) auto
    qed
    have view': "ord.view t pk = Some (account, amount, Refunded)" "\<And>p. p \<noteq> pk \<Longrightarrow> ord.view t p = ord.view db p"
      by (simp_all add: t ord.view_def frame u_def row')
    have "ord.spend_ok t"
    proof (rule ord.spend_ok_row [OF ok])
      show "ledger t = ledger db @ es" using es(1) by (simp add: t)
      show "next_uuid db \<le> next_uuid t" "pk < next_uuid t" using frame fresh by (auto simp: t)
      show "entry_key e \<in> {order_debit_key pk, order_refund_key pk}" if "e \<in> set es" for e
        using es(2) that by (auto split: if_splits)
      show "row_paid (ord.view t pk) (posting (ledger t) (order_debit_key pk)) (posting (ledger t) (order_refund_key pk))"
        using es refund_free paid view' ord.keys_differ(1) [of pk pk]
        by (auto simp: t row_paid_def posting_append split: if_splits)
    qed (rule view'(2))
    moreover have "map_of (orders t) pk = Some row'" by (simp add: t frame u_def)
    moreover have "if skip then ledger t = ledger db \<and> accounts t = accounts db
         else \<exists>e (u :: 'x order_db_scheme) v. balance_of u = balance_of db \<and> ledger u = ledger db \<and> balance_of v = balance_of t \<and> ledger v = ledger t \<and>
           credit account (DecimalArg (Finite amount)) (RefEnum REFUND) (str_nat pk) (order_refund_key pk) u = (Inr e, v)"
    proof (cases skip)
      case True
      with v u show ?thesis by (simp add: t)
    next
      case False
      with v obtain e where "credit account (DecimalArg (Finite amount)) (RefEnum REFUND) (str_nat pk) (order_refund_key pk) u = (Inr e, v)"
        by auto
      moreover have "balance_of v = balance_of t" "ledger v = ledger t" by (simp_all add: t balance_of_def fun_eq_iff)
      ultimately show ?thesis using False u(1,2) by (simp only: if_False) blast
    qed
    ultimately show ?thesis using view' row(1) Inr by (simp add: row'_def)
  qed
qed

lemma compensate_succeeds:
  assumes row: "map_of (orders db) pk = Some row" "ord_status row = OFulfilling" "snp_retail (ord_product row) = Some amount"
    and free: "posting (ledger db) (order_refund_key pk) = None"
    and money: "map_of (accounts db) account = Some acc" "normalize_amount (DecimalArg (Finite amount)) = Inr amount"
      "0 \<le> balance acc" "balance acc + amount < NUMERIC_20_6"
  shows "\<exists>t. compensate_failed pk account skip db = (Inr (), t)"
proof -
  let ?u = "db\<lparr>orders := AList.update pk (row\<lparr>ord_status := OFailed, ord_updated := clock db\<rparr>) (orders db)\<rparr>"
  have "find_entry (order_refund_key pk) (ledger ?u) = None" using free by (simp add: posting_def)
  moreover have "order_refund_key pk \<noteq> []" by (simp add: order_refund_key_def)
  moreover have "0 < amount" using normalize_amount_Inr(1) [OF money(2)] .
  ultimately have "\<exists>e v. credit account (DecimalArg (Finite amount)) (RefEnum REFUND) (str_nat pk) (order_refund_key pk) ?u = (Inr e, v)"
    using money by (simp add: credit_def apply_posts split: prod.splits)
  then show ?thesis using row
    by (auto simp: compensate_failed_def refund_order_def txn_defs update_order_run publish_def)
qed

lemma publish_some:
  "thenE (case entry of None \<Rightarrow> ret () | Some e \<Rightarrow> publish (f e)) m u =
     m (u\<lparr>events := events u @ (case entry of None \<Rightarrow> [] | Some e \<Rightarrow> f e)\<rparr>)"
  by (cases entry) (simp_all add: thenE_def bindE_def publish_def modifyE_def ret_def)

text \<open>What a request with a fresh key does after its order was placed.\<close>

lemma fulfill_cases:
  assumes run: "fulfill_seen seen env str_of create user package customer_ref skip key account db = (r, t)"
    and grid: "on_grid MONEY_QUANTUM (price_usd package)"
  obtains (refused) e where "r = Inl e" "t = db"
  | (replayed) order k where "r = Inr order" "t = db" "key_given key = Some k" "find_order k seen = Some order"
      "ord_status (snd order) \<noteq> OFulfilling"
  | (placed) order entry amount u evs where "placed account skip key order entry amount db u" "ord_account (snd order) = account"
      "on_grid MONEY_QUANTUM amount"
      "(case create (pkg_external_id package) (ord_ref (snd order)) of
          Inl e \<Rightarrow> thenE (compensate_failed (fst order) account skip) (raiseE e)
        | Inr result \<Rightarrow>
            bindE (persist_fulfillment env order package result user) (\<lambda>(order', iccids).
            thenE (publish (map (\<lambda>i. AiraloOrderCreated (str_nat (fst order)) i (str_nat user)) iccids))
              (ret order'))) (u\<lparr>events := evs\<rparr>) = (r, t)"
proof -
  consider (key) "r = Inl (ESpend IdempotencyKeyRequiredError)" "t = db"
    | (err) e where "reserve_and_debit seen env str_of account package customer_ref skip key db = (Inl e, t)" "r = Inl e"
    | (ok) order entry replayed u where "reserve_and_debit seen env str_of account package customer_ref skip key db = (Inr (order, entry, replayed), u)"
        "(if replayed then ret order
        else case snp_retail (ord_product (snd order)) of
          None \<Rightarrow> raiseE (EPy RuntimeError)
        | Some amount \<Rightarrow>
            thenE (case entry of
                None \<Rightarrow> ret ()
              | Some e \<Rightarrow> publish [CreditDebited (str_nat account) amount (balance_after e) (reference_value ORDER)
                            (str_nat (fst order)) (str_nat (entry_id e)) (entry_created_at e)])
            (case create (pkg_external_id package) (ord_ref (snd order)) of
               Inl e \<Rightarrow> thenE (compensate_failed (fst order) account skip) (raiseE e)
             | Inr result \<Rightarrow>
                 bindE (persist_fulfillment env order package result user) (\<lambda>(order', iccids).
                 thenE (publish (map (\<lambda>i. AiraloOrderCreated (str_nat (fst order)) i (str_nat user)) iccids))
                   (ret order')))) u = (r, t)"
    using run unfolding fulfill_seen_def
    by (auto simp: bindE_iff raiseE_def split: if_splits)
  then show thesis
  proof cases
    case ok
    from reserve_run [OF ok(1) grid] show thesis
    proof (elim disjE conjE exE)
      fix k assume "replayed" "u = db" "ord_status (snd order) \<noteq> OFulfilling" "key_given key = Some k" "find_order k seen = Some order"
      with ok(2) show thesis by (intro replayed) (auto simp: ret_def)
    next
      fix amount assume new: "\<not> replayed" "placed account skip key order entry amount db u" "on_grid MONEY_QUANTUM amount"
        "ord_account (snd order) = account"
      then have "snp_retail (ord_product (snd order)) = Some amount" by (simp add: placed_def)
      with ok(2) new(1) \<open>snp_retail (ord_product (snd order)) = Some amount\<close> show thesis
        by (intro placed [OF new(2,4,3)]) (simp add: publish_some)
    qed
  qed (auto intro: refused dest: reserve_error)
qed


lemma fulfill_keeps_spend_ok:
  assumes ok: "ord.spend_ok db" and grid: "on_grid MONEY_QUANTUM (price_usd package)"
    and run: "fulfill_seen seen env str_of create user package customer_ref skip key account db = (r, t)"
  shows "ord.spend_ok t"
  using run grid
proof (cases rule: fulfill_cases)
  case (placed order entry amount u evs)
  let ?pk = "fst order"
  from placed_spend_ok [OF placed(1) ok placed(3)] have u: "ord.spend_ok u" "ord.view u ?pk = Some (account, amount, Reserved)"
    "if skip then posting (ledger u) (order_debit_key ?pk) = None else posting (ledger u) (order_debit_key ?pk) = Some (account, - amount)"
    by auto
  let ?v = "u\<lparr>events := evs\<rparr>"
  obtain row where row: "map_of (orders ?v) ?pk = Some row" "snp_retail (ord_product row) = Some amount"
    using placed(1) by (auto simp: placed_def)
  have v: "ord.spend_ok ?v" using u(1) by (rule ord.untouched_spend_ok) (simp add: ord.untouched_def)
  show ?thesis
  proof (cases "create (pkg_external_id package) (ord_ref (snd order))")
    case (Inl e)
    with placed(4) obtain r' where "compensate_failed ?pk account skip ?v = (r', t)" by (auto simp: thenE_iff raiseE_def)
    then show ?thesis by (rule compensate_run [THEN conjunct2]) (use v u row placed(3) in \<open>auto simp: ord.view_def\<close>)
  next
    case (Inr result)
    with placed(4) obtain r' w where p: "persist_fulfillment env (?pk, snd order) package result user ?v = (r', w)"
      and t: "ledger t = ledger w" "orders t = orders w" "next_uuid t = next_uuid w"
      by (auto simp: bindE_iff thenE_iff publish_iff ret_def split: prod.splits)
    have "ord.spend_ok w"
    proof (cases r')
      case (Inl e)
      with persist_run [OF p row(1)] v show ?thesis by simp
    next
      case (Inr x)
      let ?v' = "?v\<lparr>orders := AList.update ?pk (fulfilled_row (or_external result) (clock ?v) row) (orders ?v)\<rparr>"
      have "ord.spend_ok ?v'"
      proof (rule ord.spend_ok_row [OF v, where es = "[]"])
        have "ord.view ?v' ?pk = Some (account, amount, Settled)"
          using u(2) row by (simp add: ord.view_def order_spend_def fulfilled_row_def)
        moreover have "posting (ledger ?v) (order_refund_key ?pk) = None"
          using u(1,2) by (auto simp: ord.spend_ok_def row_paid_def dest!: spec [of _ ?pk])
        ultimately show "row_paid (ord.view ?v' ?pk) (posting (ledger ?v') (order_debit_key ?pk)) (posting (ledger ?v') (order_refund_key ?pk))"
          using u(3) by (auto simp: row_paid_def split: if_splits)
        show "?pk < next_uuid ?v'" using u(1,2) by (auto simp: ord.spend_ok_def)
      qed (simp_all add: ord.view_def)
      moreover have "ord.untouched ?v' w" using persist_run [OF p row(1)] Inr by (auto split: prod.splits)
      ultimately show ?thesis by (rule ord.untouched_spend_ok)
    qed
    then show ?thesis by (rule ord.untouched_spend_ok) (simp add: ord.untouched_def t)
  qed
qed (use ok in simp_all)

section \<open>Looking an order up by its key\<close>

lemma not_taken_find: "\<not> key_taken (Some k) (map (\<lambda>r. ord_key (snd r)) rows) \<Longrightarrow> find_order k rows = None"
  by (force simp: key_taken_def find_order_def find_None_iff)

lemma key_given_nonempty: "key_given key = Some k \<Longrightarrow> key_given key \<noteq> None"
  by simp

lemma find_order_fresh:
  assumes "placed account skip key order entry amount db u" "ord.spend_ok db" "key_given key = Some k"
    and "map_of (orders u) (fst order) = Some row0" "orders t = AList.update (fst order) row (orders u)" "ord_key row = ord_key row0"
  shows "find_order k (orders t) = Some (fst order, row)"
proof -
  obtain row1 where row1: "orders u = AList.update (fst order) row1 (orders db)" "ord_key row1 = Some k"
    and none: "find_order k (orders db) = None" and pk: "fst order = next_uuid db"
    using assms(1,3) by (auto simp: placed_def dest: not_taken_find)
  have "map_of (orders db) (fst order) = None"
    using ord.spend_ok_fresh [OF assms(2), of "fst order"] pk by (simp add: ord.view_def)
  then have "fst order \<notin> fst ` set (orders db)" by (simp add: map_of_eq_None_iff)
  then have "orders t = orders db @ [(fst order, row)]"
    using row1(1) assms(5) by (simp add: AList_update_new AList_update_last)
  moreover have "ord_key row = Some k" using assms(4,6) row1 by simp
  ultimately show ?thesis using none by (simp add: find_order_def find_append)
qed

lemma fulfill_seen_again:
  assumes "key_given key = Some k" "find_order k seen = Some q"
  shows "fulfill_seen seen env str_of create user package customer_ref skip key account t =
     (if ord_status (snd q) = OFulfilling then (Inl (ESpend SpendInProgressError), t) else (Inr q, t))"
  using assms by (simp add: fulfill_seen_def reserve_and_debit_def txn_defs)

section \<open>Properties\<close>

text \<open>C16. Whatever a purchase request returns or raises, afterwards every order has at most one debit and one
  refund in the ledger, of its charged amount and on its account, and a paid order is refunded exactly when
  it is FAILED.\<close>

theorem order_ledger_exact:
  assumes "ord.spend_ok db" "on_grid MONEY_QUANTUM (price_usd package)"
    and "fulfill env str_of create user package customer_ref skip key account db = (r, t)"
  shows "ord.spend_ok t"
proof -
  let ?I = "ord.untouched db"
  obtain q u where a: "(case account of Some a \<Rightarrow> ret a | None \<Rightarrow> ensure_billing_account user) db = (q, u)" by fastforce
  have "keeps ?I (case account of Some a \<Rightarrow> ret a | None \<Rightarrow> ensure_billing_account user)" by (intro keeps_intros)
  from keepsD [OF this ord.untouched_refl a] assms(1) have "ord.spend_ok u" by (rule ord.untouched_spend_ok [rotated])
  then show ?thesis
    using assms(2,3) by (cases q) (auto simp: fulfill_def bindE_def a getsE_def dest: fulfill_keeps_spend_ok)
qed

text \<open>A provider that fails costs nothing: the call raises, every balance is what it was, and the request,
  if it was accepted, has left one new order, FAILED, under its key.\<close>

theorem order_provider_failure_neutral:
  assumes "fulfill_seen seen env str_of create user package customer_ref False key account (db :: 'x order_db_scheme) = (r, t)"
    and "ord.spend_ok db" "on_grid MONEY_QUANTUM (price_usd package)"
    and "\<And>ref. create (pkg_external_id package) ref = Inl e"
    and "\<And>acc. map_of (accounts db) account = Some acc \<Longrightarrow> 0 \<le> balance acc \<and> balance acc < NUMERIC_20_6"
  shows "balance_of t = balance_of db \<and>
    (t = db \<or> r = Inl e \<and> (\<exists>row. map_of (orders t) (next_uuid db) = Some row \<and> map_of (orders db) (next_uuid db) = None \<and>
       ord_status row = OFailed \<and> ord_account row = account \<and> ord_key row = key_given key))"
  using assms(1,3)
proof (cases rule: fulfill_cases)
  case (placed order entry amount u evs)
  let ?pk = "fst order" let ?v = "u\<lparr>events := evs\<rparr>"
  from placed_spend_ok [OF placed(1) assms(2) placed(3)] have u: "ord.spend_ok u" "ord.view u ?pk = Some (account, amount, Reserved)"
    "posting (ledger u) (order_debit_key ?pk) = Some (account, - amount)" "posting (ledger u) (order_refund_key ?pk) = None" by auto
  obtain row where row: "map_of (orders u) ?pk = Some row" "snp_retail (ord_product row) = Some amount" "ord_status row = OFulfilling"
      "ord_account row = account" "ord_key row = key_given key"
    using placed(1) by (auto simp: placed_def)
  obtain d w where debit: "accounts w = accounts db" "ledger w = ledger db"
      "debit account (DecimalArg (Finite amount)) (RefEnum ORDER) (str_nat ?pk) (order_debit_key ?pk) w = (Inr d, u)"
    and pk: "?pk = next_uuid db"
    using placed(1) by (auto simp: placed_def)
  have "posting (ledger db) (order_debit_key ?pk) = None" using ord.spend_ok_fresh [OF assms(2)] pk by simp
  then have fresh: "\<not> key_used w (order_debit_key ?pk)" "find_entry (order_debit_key ?pk) (ledger w) = None"
    by (simp_all add: key_used_def posting_def debit(2))
  from apply_Inr [OF debit(3) [unfolded debit_def]] fresh(2) obtain acc x where acc: "map_of (accounts db) account = Some acc"
      "normalize_amount (DecimalArg (Finite amount)) = Inr x" "0 \<le> balance acc - x"
      "\<exists>rt. (d, u) = post account acc (- x) rt (str_nat ?pk) (order_debit_key ?pk) w"
    by (auto simp: debit(1))
  have x: "x = amount" using normalize_cents [OF acc(2) placed(3)] .
  have acc': "map_of (accounts ?v) account = Some (acc\<lparr>balance := balance acc - amount, version := version acc + 1\<rparr>)"
    using acc(4) x by (auto simp: post_def Let_def)
  have v: "ord.spend_ok ?v" using u(1) by (rule ord.untouched_spend_ok) (simp add: ord.untouched_def)
  obtain c where c: "compensate_failed ?pk account False ?v = (Inr (), c)"
    using compensate_succeeds [of ?v ?pk row amount account _ False, OF _ row(3,2) _ acc'] row(1) u(4) acc x assms(5) [OF acc(1)]
    by (auto simp: )
  with placed(4) assms(4) have t: "r = Inl e" "t = c" by (auto simp: thenE_def bindE_def raiseE_def)
  have "ord.view ?v ?pk = Some (account, amount, Reserved)" using u(2) by (simp add: ord.view_def)
  from compensate_run [OF c v this placed(3)] row u(3) obtain e' and u' v' :: "'x order_db_scheme" where
    credit: "balance_of u' = balance_of ?v" "ledger u' = ledger ?v" "balance_of v' = balance_of t" 
      "credit account (DecimalArg (Finite amount)) (RefEnum REFUND) (str_nat ?pk) (order_refund_key ?pk) u' = (Inr e', v')"
    and failed: "map_of (orders t) ?pk = Some (row\<lparr>ord_status := OFailed, ord_updated := clock ?v\<rparr>)"
    using t by auto
  have "\<not> key_used u' (order_refund_key ?pk)" using u(4) credit(2) by (simp add: key_used_def posting_def)
  from port.charge_refund_neutral [OF debit(3) credit(4) fresh(1) this] credit(1,3) debit(1)
  have "balance_of t = balance_of db" by (simp add: balance_of_def fun_eq_iff)
  moreover have "map_of (orders db) ?pk = None"
    using ord.spend_ok_fresh [OF assms(2), of ?pk] pk by (simp add: ord.view_def)
  ultimately show ?thesis using t failed row(4,5) pk by simp
qed auto

text \<open>A request is answered once: after a call that returned an order, every later call with the same key
  returns that order as it is stored and changes nothing, whatever else the call says and whatever the
  provider would answer.\<close>

theorem order_replays:
  assumes "fulfill_seen (orders db) env str_of create user package customer_ref skip key account db = (Inr order, t)"
    and "ord.spend_ok db" "on_grid MONEY_QUANTUM (price_usd package)" "key_given key = Some k"
  shows "\<exists>row. find_order k (orders t) = Some (fst order, row) \<and> ord_status row \<noteq> OFulfilling \<and>
     fulfill_seen (orders t) env' str_of' create' user' package' customer_ref' skip' key account' t = (Inr (fst order, row), t)"
  using assms(1,3)
proof (cases rule: fulfill_cases)
  case (replayed q k')
  with assms(4) fulfill_seen_again [of key k "orders t" q] show ?thesis by (cases q) auto
next
  case (placed q entry amount u evs)
  let ?v = "u\<lparr>events := evs\<rparr>"
  from placed(1) obtain row where row: "map_of (orders ?v) (fst q) = Some row" by (auto simp: placed_def)
  obtain result where result: "create (pkg_external_id package) (ord_ref (snd q)) = Inr result"
    using placed(4) by (cases "create (pkg_external_id package) (ord_ref (snd q))") (auto simp: txn_ok)
  with placed(4) obtain iccids w where w: "persist_fulfillment env (fst q, snd q) package result user ?v = (Inr (order, iccids), w)"
      "orders t = orders w" by (auto simp: txn_ok publish_iff)
  from persist_run [OF w(1) row] have order: "fst order = fst q"
    and t: "orders t = AList.update (fst q) (fulfilled_row (or_external result) (clock ?v) row) (orders u)"
    by (auto simp: w(2) ord.untouched_def)
  have "find_order k (orders t) = Some (fst q, fulfilled_row (or_external result) (clock ?v) row)"
    by (rule find_order_fresh [OF placed(1) assms(2,4) _ t]) (use row in \<open>simp_all add: fulfilled_row_def\<close>)
  with fulfill_seen_again [OF assms(4) this] order show ?thesis by (simp add: fulfilled_row_def)
qed simp

text \<open>C17. When the provider delivered but the eSIMs could not be stored, the customer stays charged: the order is
  still in progress, the debit is in the ledger and not refunded, and every retry under the key is refused.\<close>

theorem order_unstored_stays_charged:
  assumes "fulfill_seen seen env str_of create user package customer_ref False key account db = (Inl e, t)"
    and "ord.spend_ok db" "on_grid MONEY_QUANTUM (price_usd package)" "key_given key = Some k"
    and "\<And>ref. create (pkg_external_id package) ref = Inr result" "orders t \<noteq> orders db"
  shows "\<exists>row amount. find_order k (orders t) = Some (next_uuid db, row) \<and> ord_status row = OFulfilling \<and>
     snp_retail (ord_product row) = Some amount \<and>
     posting (ledger t) (order_debit_key (next_uuid db)) = Some (account, - amount) \<and>
     posting (ledger t) (order_refund_key (next_uuid db)) = None \<and>
     fulfill_seen (orders t) env' str_of' create' user' package' customer_ref' skip' key account' t =
       (Inl (ESpend SpendInProgressError), t)"
  using assms(1,3)
proof (cases rule: fulfill_cases)
  case (placed q entry amount u evs)
  let ?v = "u\<lparr>events := evs\<rparr>"
  obtain row where row: "map_of (orders u) (fst q) = Some row" "ord_status row = OFulfilling" "snp_retail (ord_product row) = Some amount"
      and pk: "fst q = next_uuid db"
    using placed(1) by (auto simp: placed_def)
  have "persist_fulfillment env (fst q, snd q) package result user ?v = (Inl e, t)"
    using placed(4) assms(5) by (auto simp: bindE_iff thenE_iff publish_iff ret_def split: prod.splits)
  from persist_run [OF this] row(1) have t: "t = ?v" by simp
  have same: "orders t = AList.update (fst q) row (orders u)" using row(1) by (simp add: t AList.update_triv)
  from placed_spend_ok [OF placed(1) assms(2) placed(3)]
  have "posting (ledger t) (order_debit_key (fst q)) = Some (account, - amount)" "posting (ledger t) (order_refund_key (fst q)) = None"
    by (auto simp: t)
  moreover have find: "find_order k (orders t) = Some (fst q, row)"
    by (rule find_order_fresh [OF placed(1) assms(2,4) row(1) same]) simp
  ultimately show ?thesis using row fulfill_seen_again [OF assms(4) find] pk by simp
qed (use assms(6) in simp_all)

section \<open>Examples\<close>

definition demo_shop_env :: env where
  "demo_shop_env = demo_env\<lparr>PRICING_PROFILES_ENABLED := False, PARTNER_CHANNEL_ENABLED := False\<rparr>"

definition demo_result :: "string \<Rightarrow> order_result" where
  "demo_result external = \<lparr>or_external = external, or_manual = [], or_qrcode_steps = [], or_guide_url = [], or_sims = []\<rparr>"

lemma demo_order_db_money:
  "accounts demo_order_db = accounts demo_partner_db" "ledger demo_order_db = ledger demo_partner_db"
  "next_uuid demo_order_db = 3" "clock demo_order_db = 1000"
  by (simp_all add: demo_order_db_def org_db.extend_def demo_org_db_simps [unfolded org_db.extend_def])

lemma demo_orders_ok: "ord.spend_ok demo_order_db"
  by (simp add: ord.spend_ok_def ord.view_def row_paid_def posting_def find_entry_def demo_order_db_money
      order_debit_key_def order_refund_key_def new_entry_def)

lemma demo_price_grid: "on_grid MONEY_QUANTUM (price_usd demo_package)"
  by (simp add: on_grid_def MONEY_QUANTUM_def demo_package_def)

lemmas order_eval = fulfill_seen_def reserve_and_debit_def place_order_def key_given_def find_order_def txn_defs
  resolve_package_charge_def demo_shop_env_def order_columns_def demo_package_def
  product_snapshot_kwargs_def uuid4_def new_order_def with_ref_def insert_order_def nullable_def numeric_10_2_def
  numeric_5_2_def no_pricing_def stored_key_def key_taken_def update_order_def debit_def apply_credit_def apply_seen_def apply_locked_def
  normalize_eval find_entry_def insert_entry_def save_account_def new_entry_def demo_order_db_money publish_def
  stored_order_def MONEY_QUANTUM_def quantize_half_up_def Let_def str_nat.simps [of 3] order_debit_key_def

lemma demo_shop_billing: "BILLING_ENABLED demo_shop_env" "BILLING_ENABLED demo_env"
  by (simp_all add: demo_shop_env_def demo_env_def)

lemma demo_fulfill_ok:
  "\<exists>order t. fulfill_seen [] demo_shop_env (\<lambda>_. []) (\<lambda>_ _. Inr (demo_result ''x'')) 8 demo_package None False (Some ''k'') 2
     demo_order_db = (Inr order, t)"
  by (simp add: order_eval persist_fulfillment_def demo_result_def build_source_id_def accrue_def fulfilled_row_def
      demo_shop_billing)

lemma demo_fulfill_failed:
  "\<exists>t. fulfill_seen [] demo_shop_env (\<lambda>_. []) (\<lambda>_ _. Inl (EProvider (ProviderFailed []))) 8 demo_package None False (Some ''k'') 2
     demo_order_db = (Inl (EProvider (ProviderFailed [])), t) \<and> orders t \<noteq> []"
  by (simp add: order_eval compensate_failed_def refund_order_def credit_def order_refund_key_def NUMERIC_20_6_def demo_shop_billing)

lemma demo_fulfill_unstored:
  "\<exists>t. fulfill_seen [] demo_shop_env (\<lambda>_. []) (\<lambda>_ _. Inr (demo_result (replicate 65 (CHR ''x'')))) 8 demo_package None False
     (Some ''k'') 2 demo_order_db = (Inl (EPy DataError), t) \<and> orders t \<noteq> []"
  by (simp add: order_eval persist_fulfillment_def demo_result_def demo_shop_billing)

theorem order_ledger_exact_witness:
  "ord.spend_ok (snd (fulfill demo_shop_env (\<lambda>_. []) (\<lambda>_ _. Inr (demo_result ''x'')) 8 demo_package None False (Some ''k'')
     (Some 2) demo_order_db))"
  by (rule order_ledger_exact [OF demo_orders_ok demo_price_grid surjective_pairing])

theorem order_provider_failure_neutral_witness:
  "\<exists>t. fulfill_seen [] demo_shop_env (\<lambda>_. []) (\<lambda>_ _. Inl (EProvider (ProviderFailed []))) 8 demo_package None False (Some ''k'') 2
     demo_order_db = (Inl (EProvider (ProviderFailed [])), t) \<and> balance_of t 2 = 50 \<and>
     map_option ord_status (map_of (orders t) 3) = Some OFailed"
proof -
  obtain t where t: "fulfill_seen [] demo_shop_env (\<lambda>_. []) (\<lambda>_ _. Inl (EProvider (ProviderFailed []))) 8 demo_package None False
      (Some ''k'') 2 demo_order_db = (Inl (EProvider (ProviderFailed [])), t)" "orders t \<noteq> []"
    using demo_fulfill_failed by blast
  have bal: "0 \<le> balance acc \<and> balance acc < NUMERIC_20_6" if "map_of (accounts demo_order_db) 2 = Some acc" for acc
    using that by (auto simp: demo_order_db_money NUMERIC_20_6_def)
  have "balance_of demo_order_db 2 = 50" by (simp add: balance_of_def demo_order_db_money)
  with order_provider_failure_neutral [OF t(1) demo_orders_ok demo_price_grid, of "EProvider (ProviderFailed [])"] bal t
  show ?thesis by (auto simp: demo_order_db_money)
qed

theorem order_replays_witness:
  "\<exists>(order :: nat \<times> order_row) t row. fulfill_seen (orders t) demo_shop_env (\<lambda>_. []) (\<lambda>_ _. Inl (EPy RuntimeError)) 9 demo_package (Some ''r'') False
     (Some ''k'') 1 t = (Inr (fst order, row), t :: order_db) \<and> ord_status row \<noteq> OFulfilling"
proof -
  obtain order t where t: "fulfill_seen (orders demo_order_db) demo_shop_env (\<lambda>_. []) (\<lambda>_ _. Inr (demo_result ''x'')) 8 demo_package None
      False (Some ''k'') 2 demo_order_db = (Inr order, t)" using demo_fulfill_ok by auto
  have key: "key_given (Some ''k'') = Some ''k''" by (simp add: key_given_def)
  from order_replays [OF t demo_orders_ok demo_price_grid key, of demo_shop_env "\<lambda>_. []" "\<lambda>_ _. Inl (EPy RuntimeError)" 9
      demo_package "Some ''r''" False 1] show ?thesis by blast
qed

theorem order_unstored_stays_charged_witness:
  "\<exists>(t :: order_db) amount. posting (ledger t) (order_debit_key 3) = Some (2, - amount) \<and>
     fulfill_seen (orders t) demo_shop_env (\<lambda>_. []) (\<lambda>_ _. Inl (EPy RuntimeError)) 9 demo_package None False (Some ''k'') 1 t =
       (Inl (ESpend SpendInProgressError), t)"
proof -
  obtain t where t: "fulfill_seen [] demo_shop_env (\<lambda>_. []) (\<lambda>_ _. Inr (demo_result (replicate 65 (CHR ''x'')))) 8 demo_package None
      False (Some ''k'') 2 demo_order_db = (Inl (EPy DataError), t)" "orders t \<noteq> orders demo_order_db"
    using demo_fulfill_unstored by auto
  have key: "key_given (Some ''k'') = Some ''k''" by (simp add: key_given_def)
  from order_unstored_stays_charged [OF t(1) demo_orders_ok demo_price_grid key refl t(2), of demo_shop_env "\<lambda>_. []"
      "\<lambda>_ _. Inl (EPy RuntimeError)" 9 demo_package None False 1]
  show ?thesis by (auto simp: demo_order_db_money)
qed

end
