(* ===== verification/Topups.thy ===== *)
theory Topups
  imports Orders
begin

text \<open>
  \<^verbatim>\<open>esims/services/topup_service.py\<close>: the purchase of a top-up, with the ownership of the eSIM checked again
  under its row lock. The provider is two arguments: \<open>offers\<close> is \<^verbatim>\<open>list_topups\<close> and \<open>submit\<close> is
  \<^verbatim>\<open>submit_topup\<close>, whose result is the external order id. The phases, the debit and the refund are the ones
  of theory \<open>Spending\<close>, interpreted on the top-ups.
\<close>

section \<open>The service\<close>

definition topup_debit_key :: "nat \<Rightarrow> string" where "topup_debit_key pk = ''topup-debit:'' @ str_nat pk"
definition topup_refund_key :: "nat \<Rightarrow> string" where "topup_refund_key pk = ''topup-refund:'' @ str_nat pk"

definition find_topup :: "string \<Rightarrow> (nat \<times> topup_row) list \<Rightarrow> (nat \<times> topup_row) option" where
  "find_topup key rows = find (\<lambda>r. tu_key (snd r) = Some key) rows"

definition resolve_offer :: "(string \<Rightarrow> exc + topup_package list) \<Rightarrow> string \<Rightarrow> string \<Rightarrow> exc + topup_package" where
  "resolve_offer offers iccid package_id =
     (case offers iccid of
        Inl e \<Rightarrow> Inl e
      | Inr available \<Rightarrow>
          (case find (\<lambda>p. tp_external_id p = package_id) available of
             None \<Rightarrow> Inl (ESpend TopupPackageNotFoundError)
           | Some p \<Rightarrow> Inr p))"

text \<open>List and wholesale price are the package's, whatever the pricing profile says.\<close>

definition topup_columns :: "topup_package \<Rightarrow> pricing_columns option \<Rightarrow> rat \<times> pricing_columns" where
  "topup_columns package kwargs =
     (case kwargs of
        Some c \<Rightarrow> (the_amount (col_charged c), c\<lparr>col_list_price := Some (tp_price_usd package)\<rparr>)
      | None \<Rightarrow> (tp_price_usd package, no_pricing\<lparr>col_list_price := Some (tp_price_usd package)\<rparr>))"

definition new_topup ::
  "nat \<Rightarrow> nat \<Rightarrow> topup_package \<Rightarrow> string \<Rightarrow> rat \<times> pricing_columns \<Rightarrow> nat \<Rightarrow> int \<Rightarrow> topup_row" where
  "new_topup account esim package key columns sequence now =
     \<lparr>tu_account = account, tu_esim = esim, tu_package = tp_external_id package, tu_amount = fst columns,
      tu_pricing = snd columns, tu_net = tp_net_price_usd package, tu_status = TFulfilling, tu_sequence = Some sequence,
      tu_provider_status = [], tu_external = [], tu_key = Some key, tu_created = now, tu_updated = now\<rparr>"

definition place_topup ::
  "nat \<Rightarrow> nat \<Rightarrow> topup_package \<Rightarrow> string \<Rightarrow> rat \<times> pricing_columns \<Rightarrow>
   ('x, (nat \<times> topup_row) \<times> ledger_entry option \<times> bool) order_txn" where
  "place_topup account esim package key columns =
     bindE (getsE (\<lambda>db. next_sequence esim (topups db))) (\<lambda>sequence.
     bindE uuid4 (\<lambda>pk.
     bindE (getsE clock) (\<lambda>now.
     let topup = new_topup account esim package key columns sequence now
     in thenE (catchE (insert_topup pk topup) (\<lambda>e.
          if e = EPy IntegrityError then raiseE (EPy TransactionManagementError) else raiseE e))
        (bindE (debit account (DecimalArg (Finite (tu_amount topup))) (RefEnum TOPUP) (str_nat pk) (topup_debit_key pk)) (\<lambda>entry.
         ret ((pk, topup), Some entry, False))))))"

definition reserve_topup ::
  "(nat \<times> topup_row) list \<Rightarrow> env \<Rightarrow> nat \<Rightarrow> nat \<Rightarrow> topup_package \<Rightarrow> string \<Rightarrow>
   ('x, (nat \<times> topup_row) \<times> ledger_entry option \<times> bool) order_txn" where
  "reserve_topup seen env account esim package key =
     (if \<not> BILLING_ENABLED env then raiseE (EDeposit BillingDisabledError)
      else atomic (
        case find_topup key seen of
          Some existing \<Rightarrow>
            if tu_status (snd existing) = TFulfilling then raiseE (ESpend SpendInProgressError)
            else ret (existing, None, True)
        | None \<Rightarrow>
            bindE (getsE (\<lambda>db. map_of (esims db) esim)) (\<lambda>row.
            bindE (get_or_raise (EPy ObjectDoesNotExist) row) (\<lambda>locked.
            if es_account locked \<noteq> account then raiseE (ESpend EsimOwnershipChanged)
            else
              bindE (resolve_topup_charge env account package) (\<lambda>(_, kwargs).
              place_topup account esim package key (topup_columns package kwargs))))))"

definition refund_topup :: "nat \<Rightarrow> nat \<Rightarrow> ('x, event list) order_txn" where
  "refund_topup pk account =
     bindE (getsE (\<lambda>db. map_of (topups db) pk)) (\<lambda>row.
     bindE (get_or_raise (EPy ObjectDoesNotExist) row) (\<lambda>locked.
     if tu_status locked = TFailed then ret []
     else
       bindE (getsE clock) (\<lambda>now.
       thenE (update_topup pk (\<lambda>r. r\<lparr>tu_status := TFailed, tu_updated := now\<rparr>))
       (bindE (credit account (DecimalArg (Finite (tu_amount locked))) (RefEnum REFUND) (str_nat pk) (topup_refund_key pk)) (\<lambda>entry.
        ret (refund_events account (tu_amount locked) TOPUP pk entry))))))"

definition compensate_topup :: "nat \<Rightarrow> nat \<Rightarrow> ('x, unit) order_txn" where
  "compensate_topup pk account = bindE (atomic (refund_topup pk account)) publish"

definition fulfilled_topup :: "string \<Rightarrow> int \<Rightarrow> topup_row \<Rightarrow> topup_row" where
  "fulfilled_topup external now row = row\<lparr>tu_external := external, tu_status := TFulfilled, tu_updated := now\<rparr>"

text \<open>\<^verbatim>\<open>topup.account.user\<close>.\<close>

definition account_user :: "nat \<Rightarrow> 'x credit_db_scheme \<Rightarrow> nat option" where
  "account_user a db = Option.bind (map_of (accounts db) a) acc_user"

definition store_topup :: "env \<Rightarrow> nat \<times> topup_row \<Rightarrow> string \<Rightarrow> ('x, topup_row) order_txn" where
  "store_topup env topup external =
     bindE (getsE clock) (\<lambda>now.
     thenE (guardE (length external \<le> 64) (EPy DataError))
     (thenE (update_topup (fst topup) (fulfilled_topup external now))
     (bindE (liftE (build_source_id STopup (fst topup) None)) (\<lambda>source_id.
      bindE (getsE (account_user (tu_account (snd topup)))) (\<lambda>customer.
      bindE (accrue env STopup source_id (col_list_price (tu_pricing (snd topup))) (tu_net (snd topup)) customer) (\<lambda>_.
      ret (fulfilled_topup external now (snd topup))))))))"

definition persist_topup :: "env \<Rightarrow> nat \<times> topup_row \<Rightarrow> string \<Rightarrow> ledger_entry \<Rightarrow> ('x, nat \<times> topup_row) order_txn" where
  "persist_topup env topup external entry =
     bindE (atomic (store_topup env topup external)) (\<lambda>row.
     thenE (publish [TopupCompleted (str_nat (fst topup)) (str_nat (tu_esim row)) (str_nat (tu_account row)) (tu_package row)
              (tu_amount (snd topup)) external (balance_after entry) (str_nat (entry_id entry)) (tu_updated row)])
       (ret (fst topup, row)))"

definition purchase_seen ::
  "(nat \<times> topup_row) list \<Rightarrow> env \<Rightarrow> (string \<Rightarrow> exc + topup_package list) \<Rightarrow> (string \<Rightarrow> string \<Rightarrow> exc + string) \<Rightarrow>
   nat \<times> esim \<Rightarrow> string \<Rightarrow> string \<Rightarrow> nat option \<Rightarrow> ('x, nat \<times> topup_row) order_txn" where
  "purchase_seen seen env offers submit esim package_id key account =
     (let a = (case account of None \<Rightarrow> es_account (snd esim) | Some a \<Rightarrow> a)
      in if key = [] then raiseE (ESpend IdempotencyKeyRequiredError)
         else if a \<noteq> es_account (snd esim) \<and> find_topup key seen = None then raiseE (ESpend EsimOwnershipChanged)
         else
           bindE (liftE (resolve_offer offers (es_iccid (snd esim)) package_id)) (\<lambda>package.
           bindE (reserve_topup seen env a (fst esim) package key) (\<lambda>(topup, debit_entry, replayed).
           if replayed then ret topup
           else case debit_entry of
             None \<Rightarrow> raiseE (EPy AttributeError)
           | Some e \<Rightarrow>
               thenE (publish [CreditDebited (str_nat a) (tu_amount (snd topup)) (balance_after e) (reference_value TOPUP)
                        (str_nat (fst topup)) (str_nat (entry_id e)) (entry_created_at e)])
               (case submit (es_iccid (snd esim)) (tp_external_id package) of
                  Inl _ \<Rightarrow> thenE (compensate_topup (fst topup) a) (raiseE (ESpend ProviderFulfillmentError))
                | Inr external \<Rightarrow> persist_topup env topup external e))))"

definition purchase ::
  "env \<Rightarrow> (string \<Rightarrow> exc + topup_package list) \<Rightarrow> (string \<Rightarrow> string \<Rightarrow> exc + string) \<Rightarrow>
   nat \<times> esim \<Rightarrow> string \<Rightarrow> string \<Rightarrow> nat option \<Rightarrow> ('x, nat \<times> topup_row) order_txn" where
  "purchase env offers submit esim package_id key account =
     bindE (getsE topups) (\<lambda>seen. purchase_seen seen env offers submit esim package_id key account)"

section \<open>Top-ups as spends\<close>

fun topup_phase :: "topup_status \<Rightarrow> spend_phase" where
  "topup_phase TFulfilled = Settled"
| "topup_phase TFailed = Refunded"
| "topup_phase TFulfilling = Reserved"

definition topup_spend :: "topup_row \<Rightarrow> nat \<times> rat \<times> spend_phase" where
  "topup_spend r = (tu_account r, tu_amount r, topup_phase (tu_status r))"

interpretation top: spending topups topup_spend topup_debit_key topup_refund_key
  by unfold_locales (auto simp: topup_debit_key_def topup_refund_key_def)

lemma topup_keys_foreign: "top.foreign (accrual_key st sid)"
  by (auto simp: top.foreign_def accrual_key_def topup_debit_key_def topup_refund_key_def)

lemma update_topup_run:
  "map_of (topups db) pk = Some r \<Longrightarrow> update_topup pk f db = (Inr (), db\<lparr>topups := AList.update pk (f r) (topups db)\<rparr>)"
  by (simp add: update_topup_def txn_defs)

lemma top_untouched_record [keeps_intros]: "keeps (top.untouched db) (record_event src e ty key payload)"
  unfolding record_event_def insert_lifecycle_event_def
  by (intro keeps_intros) (simp_all add: top.untouched_def)

text \<open>The stored row of a new top-up: the amount is rounded to six places, which is what the debit takes.\<close>

lemma insert_topup_run:
  assumes "insert_topup pk row db = (Inr (), t)" "tu_sequence row = Some n"
  obtains row' where "topups t = AList.update pk row' (topups db)" "ledger t = ledger db" "accounts t = accounts db"
    "next_uuid t = next_uuid db" "tu_account row' = tu_account row" "tu_esim row' = tu_esim row"
    "tu_status row' = tu_status row" "tu_key row' = tu_key row" "tu_sequence row' = Some n"
    "tu_amount row' = quantize_half_up MONEY_QUANT (tu_amount row)"
    "\<not> key_taken (tu_key row) (map (\<lambda>r. tu_key (snd r)) (topups db))"
    "\<forall>r \<in> set (topups db). tu_esim (snd r) = tu_esim row \<longrightarrow> tu_sequence (snd r) \<noteq> Some n"
proof -
  obtain amount lp disc net where a: "numeric_20_6 (tu_amount row) = Inr amount"
    and t: "t = db\<lparr>topups := AList.update pk (row\<lparr>tu_sequence := Some n, tu_amount := amount, tu_net := net,
              tu_pricing := (tu_pricing row)\<lparr>col_charged := Some amount, col_list_price := lp, col_discount := disc\<rparr>\<rparr>)
            (topups db)\<rparr>"
    and rest: "\<not> key_taken (tu_key row) (map (\<lambda>r. tu_key (snd r)) (topups db))"
      "\<forall>r \<in> set (topups db). tu_esim (snd r) = tu_esim row \<longrightarrow> tu_sequence (snd r) \<noteq> Some n"
    using assms unfolding insert_topup_def Let_def stored_key_def combinators_ok cases_ok(1) by auto
  have "amount = quantize_half_up MONEY_QUANT (tu_amount row)"
    using a by (auto simp: numeric_20_6_def Let_def split: if_splits)
  with t rest show thesis
    by (intro that [of "row\<lparr>tu_sequence := Some n, tu_amount := amount, tu_net := net,
              tu_pricing := (tu_pricing row)\<lparr>col_charged := Some amount, col_list_price := lp, col_discount := disc\<rparr>\<rparr>"]) auto
qed

definition topup_placed ::
  "nat \<Rightarrow> nat \<Rightarrow> string \<Rightarrow> nat \<times> topup_row \<Rightarrow> ledger_entry \<Rightarrow> rat \<Rightarrow> 'x order_db_scheme \<Rightarrow> 'x order_db_scheme \<Rightarrow> bool" where
  "topup_placed account esim key topup entry amount db t \<longleftrightarrow>
     fst topup = next_uuid db \<and> tu_account (snd topup) = account \<and> tu_esim (snd topup) = esim \<and> tu_key (snd topup) = Some key \<and>
     (\<exists>row. topups t = AList.update (fst topup) row (topups db) \<and> tu_status row = TFulfilling \<and> tu_key row = Some key \<and>
        tu_account row = account \<and> tu_esim row = esim \<and> tu_amount row = amount \<and>
        tu_sequence row = Some (next_sequence esim (topups db))) \<and>
     \<not> key_taken (Some key) (map (\<lambda>r. tu_key (snd r)) (topups db)) \<and> next_uuid db < next_uuid t \<and>
     normalize_amount (DecimalArg (Finite (tu_amount (snd topup)))) = Inr amount \<and>
     (\<exists>u. accounts u = accounts db \<and> ledger u = ledger db \<and>
        debit account (DecimalArg (Finite (tu_amount (snd topup)))) (RefEnum TOPUP) (str_nat (fst topup))
          (topup_debit_key (fst topup)) u = (Inr entry, t))"

lemma place_topup_run:
  assumes run: "place_topup account esim package key columns db = (Inr (topup, entry, replayed), t)" and ok: "top.spend_ok db"
  shows "\<not> replayed \<and> (\<exists>e amount. entry = Some e \<and> topup_placed account esim key topup e amount db t)"
proof -
  let ?pk = "next_uuid db"
  let ?r = "new_topup account esim package key columns (next_sequence esim (topups db)) (clock db)"
  let ?db1 = "db\<lparr>next_uuid := Suc ?pk\<rparr>"
  obtain u e where ins: "insert_topup ?pk ?r ?db1 = (Inr (), u)"
    and pay: "debit account (DecimalArg (Finite (tu_amount ?r))) (RefEnum TOPUP) (str_nat ?pk) (topup_debit_key ?pk) u = (Inr e, t)"
    and res: "topup = (?pk, ?r)" "entry = Some e" "\<not> replayed"
    using run unfolding place_topup_def Let_def
    by (clarsimp simp: combinators_ok uuid4_def catchE_iff) (auto simp: txn_ok split: if_splits)
  have "tu_sequence ?r = Some (next_sequence esim (topups db))" by (simp add: new_topup_def)
  from insert_topup_run [OF ins this] obtain row where row: "topups u = AList.update ?pk row (topups db)" "ledger u = ledger db"
      "accounts u = accounts db" "next_uuid u = Suc ?pk" "tu_account row = account" "tu_esim row = esim" "tu_status row = TFulfilling"
      "tu_key row = Some key" "tu_sequence row = Some (next_sequence esim (topups db))"
      "tu_amount row = quantize_half_up MONEY_QUANT (tu_amount ?r)"
      "\<not> key_taken (Some key) (map (\<lambda>r. tu_key (snd r)) (topups db))"
    by (auto simp: new_topup_def)
  have "posting (ledger u) (topup_debit_key ?pk) = None" using top.spend_ok_fresh [OF ok, of ?pk] row(2) by simp
  from apply_posts_entry [OF pay [unfolded debit_def] this] obtain x where
    "normalize_amount (DecimalArg (Finite (tu_amount ?r))) = Inr x" by auto
  with normalize_amount_Inr(4) [OF this] row(10) have x: "normalize_amount (DecimalArg (Finite (tu_amount ?r))) = Inr (tu_amount row)" by auto
  from debit_frame [OF pay] row have "topups t = topups u" "next_uuid u \<le> next_uuid t" by auto
  with row x pay res show ?thesis unfolding topup_placed_def
    by (intro conjI exI [of _ e] exI [of _ "tu_amount row"]) (auto simp: new_topup_def)
qed

text \<open>A reservation answers with an earlier top-up, or places one on an eSIM its account owns.\<close>

lemma reserve_topup_run:
  assumes run: "reserve_topup seen env account esim package key db = (Inr (topup, entry, replayed), t)" and ok: "top.spend_ok db"
  shows "replayed \<and> t = db \<and> entry = None \<and> tu_status (snd topup) \<noteq> TFulfilling \<and> find_topup key seen = Some topup \<or>
     \<not> replayed \<and> find_topup key seen = None \<and> map_option es_account (map_of (esims db) esim) = Some account \<and>
       (\<exists>e amount. entry = Some e \<and> topup_placed account esim key topup e amount db t)"
proof (cases "find_topup key seen")
  case (Some existing)
  with run show ?thesis by (auto simp: reserve_topup_def txn_ok)
next
  case None
  obtain locked x kwargs w where "map_of (esims db) esim = Some locked" "es_account locked = account"
    and charge: "resolve_topup_charge env account package db = (Inr (x, kwargs), w)"
    and place: "place_topup account esim package key (topup_columns package kwargs) w = (Inr (topup, entry, replayed), t)"
    using run None by (auto simp: reserve_topup_def txn_ok)
  moreover have "w = db" using resolve_charge_reads(2) [OF charge] .
  ultimately show ?thesis using place_topup_run ok None by simp blast
qed

lemma reserve_topup_error: "reserve_topup seen env account esim package key db = (Inl e, t) \<Longrightarrow> t = db"
  by (auto simp: reserve_topup_def atomic_iff raiseE_def split: if_splits)

lemma topup_placed_row:
  assumes "topup_placed account esim key topup e amount db t"
  obtains row where "map_of (topups t) (fst topup) = Some row" "tu_status row = TFulfilling" "tu_account row = account"
    "tu_esim row = esim" "tu_amount row = amount" "tu_key row = Some key" "topups t = AList.update (fst topup) row (topups db)"
  using assms by (auto simp: topup_placed_def)

lemma topup_placed_spend_ok:
  assumes "topup_placed account esim key topup e amount db t" "top.spend_ok db"
  shows "top.spend_ok t \<and> top.view t (fst topup) = Some (account, amount, Reserved) \<and>
     posting (ledger t) (topup_debit_key (fst topup)) = Some (account, - amount) \<and>
     posting (ledger t) (topup_refund_key (fst topup)) = None"
proof -
  let ?pk = "fst topup"
  have pk: "?pk = next_uuid db" using assms(1) by (simp add: topup_placed_def)
  then have free: "posting (ledger db) (topup_debit_key ?pk) = None" "posting (ledger db) (topup_refund_key ?pk) = None"
    using top.spend_ok_fresh [OF assms(2)] by auto
  obtain row where row: "topups t = AList.update ?pk row (topups db)" "topup_spend row = (account, amount, Reserved)"
    using assms(1) by (auto simp: topup_placed_def topup_spend_def)
  then have view: "top.view t ?pk = Some (account, amount, Reserved)" "\<And>p. p \<noteq> ?pk \<Longrightarrow> top.view t p = top.view db p"
    by (simp_all add: top.view_def)
  obtain u where u: "ledger u = ledger db" and n: "normalize_amount (DecimalArg (Finite (tu_amount (snd topup)))) = Inr amount"
    and d: "debit account (DecimalArg (Finite (tu_amount (snd topup)))) (RefEnum TOPUP) (str_nat ?pk) (topup_debit_key ?pk) u = (Inr e, t)"
    using assms(1) by (auto simp: topup_placed_def)
  from apply_posts_entry [OF d [unfolded debit_def]] free u n have es: "ledger t = ledger db @ [e]" "entry_key e = topup_debit_key ?pk"
    "entry_account e = account" "delta e = - amount" by auto
  have post: "posting (ledger t) (topup_debit_key ?pk) = Some (account, - amount)" "posting (ledger t) (topup_refund_key ?pk) = None"
    using es free top.keys_differ(1) [of ?pk ?pk] by (auto simp: posting_append)
  have "top.spend_ok t"
  proof (rule top.spend_ok_row [OF assms(2)])
    show "next_uuid db \<le> next_uuid t" "?pk < next_uuid t" using assms(1) by (auto simp: topup_placed_def)
    show "ledger t = ledger db @ [e]" by (rule es(1))
    show "entry_key x \<in> {topup_debit_key ?pk, topup_refund_key ?pk}" if "x \<in> set [e]" for x using es(2) that by simp
  qed (use view post in \<open>auto simp: row_paid_def\<close>)
  with view post show ?thesis by simp
qed

section \<open>Settling and refunding\<close>

lemma store_topup_run:
  assumes "store_topup env (pk, o') external db = (Inr row', t)" "map_of (topups db) pk = Some row"
  shows "row' = fulfilled_topup external (clock db) o' \<and>
     top.untouched (db\<lparr>topups := AList.update pk (fulfilled_topup external (clock db) row) (topups db)\<rparr>) t"
proof -
  let ?u = "db\<lparr>topups := AList.update pk (fulfilled_topup external (clock db) row) (topups db)\<rparr>"
  obtain src cust acc where a: "accrue env STopup src (col_list_price (tu_pricing o')) (tu_net o') cust ?u = (Inr acc, t)"
    and r: "row' = fulfilled_topup external (clock db) o'"
    using assms by (auto simp: store_topup_def Let_def combinators_ok update_topup_run)
  have "keeps (top.untouched ?u) (accrue env STopup src (col_list_price (tu_pricing o')) (tu_net o') cust)"
    by (intro keeps_intros topup_keys_foreign)
  from keepsD [OF this top.untouched_refl a] r show ?thesis by simp
qed

lemma compensate_topup_run:
  assumes run: "compensate_topup pk account (db :: 'x order_db_scheme) = (r, t)" and ok: "top.spend_ok db"
    and row: "map_of (topups db) pk = Some row" "tu_status row = TFulfilling" "tu_account row = account" "tu_amount row = amount"
    and paid: "posting (ledger db) (topup_debit_key pk) = Some (account, - amount)" "normalize_amount (DecimalArg (Finite amount)) = Inr amount"
  shows "(case r of
      Inl _ \<Rightarrow> t = db
    | Inr _ \<Rightarrow> topups t = AList.update pk (row\<lparr>tu_status := TFailed, tu_updated := clock db\<rparr>) (topups db) \<and>
        (\<exists>e (u :: 'x order_db_scheme) v. balance_of u = balance_of db \<and> ledger u = ledger db \<and> balance_of v = balance_of t \<and>
           credit account (DecimalArg (Finite amount)) (RefEnum REFUND) (str_nat pk) (topup_refund_key pk) u = (Inr e, v))) \<and>
     top.spend_ok t"
proof (cases r)
  case (Inl e)
  then have "t = db" using run by (auto simp: compensate_topup_def bindE_iff [of "atomic m" publish for m] atomic_iff publish_iff)
  with ok Inl show ?thesis by simp
next
  case (Inr x)
  define row' where "row' = row\<lparr>tu_status := TFailed, tu_updated := clock db\<rparr>"
  define u where "u = db\<lparr>topups := AList.update pk row' (topups db)\<rparr>"
  have view0: "top.view db pk = Some (account, amount, Reserved)" using row by (simp add: top.view_def topup_spend_def)
  have free: "posting (ledger db) (topup_refund_key pk) = None" and fresh: "pk < next_uuid db"
    using ok view0 by (auto simp: top.spend_ok_def row_paid_def dest!: spec [of _ pk])
  obtain evs v where "refund_topup pk account db = (Inr evs, v)" and t: "t = v\<lparr>events := events v @ evs\<rparr>"
    using run [unfolded Inr compensate_topup_def combinators_ok publish_iff] by blast
  then obtain e where c: "credit account (DecimalArg (Finite amount)) (RefEnum REFUND) (str_nat pk) (topup_refund_key pk) u = (Inr e, v)"
    using row by (auto simp: refund_topup_def txn_ok update_topup_run u_def row'_def)
  have frame: "topups v = topups u" "next_uuid db \<le> next_uuid v" using credit_frame [OF c] by (auto simp: u_def)
  have u: "ledger u = ledger db" "balance_of u = balance_of db" by (simp_all add: u_def balance_of_def fun_eq_iff)
  from apply_posts_entry [OF c [unfolded credit_def]] u(1) free paid(2) have es: "ledger v = ledger db @ [e]"
    "entry_key e = topup_refund_key pk" "entry_account e = account" "delta e = amount" by auto
  have view: "top.view t pk = Some (account, amount, Refunded)" "\<And>p. p \<noteq> pk \<Longrightarrow> top.view t p = top.view db p"
    using row by (simp_all add: t top.view_def frame u_def row'_def topup_spend_def)
  have "top.spend_ok t"
  proof (rule top.spend_ok_row [OF ok])
    show "ledger t = ledger db @ [e]" using es(1) by (simp add: t)
    show "next_uuid db \<le> next_uuid t" "pk < next_uuid t" using frame fresh by (auto simp: t)
    show "entry_key x \<in> {topup_debit_key pk, topup_refund_key pk}" if "x \<in> set [e]" for x using es(2) that by simp
    show "row_paid (top.view t pk) (posting (ledger t) (topup_debit_key pk)) (posting (ledger t) (topup_refund_key pk))"
      using es free paid(1) view top.keys_differ(1) [of pk pk] by (auto simp: t row_paid_def posting_append)
  qed (rule view(2))
  moreover have "balance_of v = balance_of t" by (simp add: t balance_of_def fun_eq_iff)
  moreover have "topups t = AList.update pk row' (topups db)" by (simp add: t frame u_def)
  ultimately show ?thesis using Inr c u by (auto simp: row'_def)
qed

lemma compensate_topup_succeeds:
  assumes row: "map_of (topups db) pk = Some row" "tu_status row = TFulfilling" "tu_amount row = amount"
    and free: "posting (ledger db) (topup_refund_key pk) = None"
    and money: "map_of (accounts db) account = Some acc" "normalize_amount (DecimalArg (Finite amount)) = Inr amount"
      "0 \<le> balance acc" "balance acc + amount < NUMERIC_20_6"
  shows "\<exists>t. compensate_topup pk account db = (Inr (), t)"
proof -
  let ?u = "db\<lparr>topups := AList.update pk (row\<lparr>tu_status := TFailed, tu_updated := clock db\<rparr>) (topups db)\<rparr>"
  have "find_entry (topup_refund_key pk) (ledger ?u) = None" using free by (simp add: posting_def)
  moreover have "topup_refund_key pk \<noteq> []" by (simp add: topup_refund_key_def)
  moreover have "0 < amount" using normalize_amount_Inr(1) [OF money(2)] .
  ultimately have "\<exists>e v. credit account (DecimalArg (Finite amount)) (RefEnum REFUND) (str_nat pk) (topup_refund_key pk) ?u = (Inr e, v)"
    using money by (simp add: credit_def apply_posts split: prod.splits)
  then show ?thesis using row
    by (auto simp: compensate_topup_def refund_topup_def txn_defs update_topup_run publish_def)
qed

lemma bindE_run:
  "m s = (Inr x, u) \<Longrightarrow> bindE m f s = f x u" "m s = (Inl e, u) \<Longrightarrow> bindE m f s = (Inl e, u)"
  by (simp_all add: bindE_def)

lemma purchase_cases:
  assumes run: "purchase_seen seen env offers submit (pk, e) package_id key account db = (r, t)" and ok: "top.spend_ok db"
  defines "a \<equiv> (case account of None \<Rightarrow> es_account e | Some a \<Rightarrow> a)"
  obtains (refused) x where "r = Inl x" "t = db"
  | (replayed) topup where "r = Inr topup" "t = db" "find_topup key seen = Some topup" "tu_status (snd topup) \<noteq> TFulfilling" "key \<noteq> []"
  | (placed) package topup entry amount u evs where "topup_placed a pk key topup entry amount db u" "find_topup key seen = None" "key \<noteq> []"
      "map_option es_account (map_of (esims db) pk) = Some a" "resolve_offer offers (es_iccid e) package_id = Inr package"
      "(case submit (es_iccid e) (tp_external_id package) of
          Inl _ \<Rightarrow> thenE (compensate_topup (fst topup) a) (raiseE (ESpend ProviderFulfillmentError))
        | Inr external \<Rightarrow> persist_topup env topup external entry) (u\<lparr>events := evs\<rparr>) = (r, t)"
proof -
  note run' = run [unfolded purchase_seen_def Let_def fst_conv snd_conv, folded a_def]
  consider (err) x where "r = Inl x" "t = db"
    | (ok) package topup entry replayed u where "reserve_topup seen env a pk package key db = (Inr (topup, entry, replayed), u)"
        "key \<noteq> []" "resolve_offer offers (es_iccid e) package_id = Inr package"
        "(if replayed then ret topup
           else case entry of
             None \<Rightarrow> raiseE (EPy AttributeError)
           | Some e' \<Rightarrow>
               thenE (publish [CreditDebited (str_nat a) (tu_amount (snd topup)) (balance_after e') (reference_value TOPUP)
                        (str_nat (fst topup)) (str_nat (entry_id e')) (entry_created_at e')])
               (case submit (es_iccid e) (tp_external_id package) of
                  Inl _ \<Rightarrow> thenE (compensate_topup (fst topup) a) (raiseE (ESpend ProviderFulfillmentError))
                | Inr external \<Rightarrow> persist_topup env topup external e')) u = (r, t)"
  proof (cases "key = [] \<or> a \<noteq> es_account e \<and> find_topup key seen = None")
    case True
    have "\<exists>x. r = Inl x \<and> t = db"
    proof (cases "key = []")
      case True
      with run' show ?thesis by (auto simp: raiseE_def)
    next
      case False
      with \<open>key = [] \<or> a \<noteq> es_account e \<and> find_topup key seen = None\<close>
      have "a \<noteq> es_account e \<and> find_topup key seen = None" by simp
      from run' [unfolded if_not_P [OF False] if_P [OF this]] show ?thesis by (auto simp: raiseE_def)
    qed
    then show thesis using err by blast
  next
    case False
    then have key: "\<not> key = []" and own: "\<not> (a \<noteq> es_account e \<and> find_topup key seen = None)" by blast+
    note run2 = run' [unfolded if_not_P [OF key] if_not_P [OF own]]
    show thesis
    proof (cases "resolve_offer offers (es_iccid e) package_id")
      case (Inl x)
      then have "liftE (resolve_offer offers (es_iccid e) package_id) db = (Inl x, db)" by (simp add: liftE_def)
      from run2 [unfolded bindE_run(2) [of "liftE _", OF this]] show thesis by (intro err [of x]) auto
    next
      case (Inr package)
      then have "liftE (resolve_offer offers (es_iccid e) package_id) db = (Inr package, db)" by (simp add: liftE_def)
      note run3 = run2 [unfolded bindE_run(1) [of "liftE _", OF this]]
      obtain res u where res: "reserve_topup seen env a pk package key db = (res, u)" by fastforce
      show thesis
      proof (cases res)
        case (Inl x)
        with res have "reserve_topup seen env a pk package key db = (Inl x, u)" by simp
        from reserve_topup_error [OF this] run3 [unfolded bindE_run(2) [of "reserve_topup _ _ _ _ _ _", OF this]]
        show thesis by (intro err [of x]) auto
      next
        case inr: (Inr y)
        obtain topup entry replayed where y: "y = (topup, entry, replayed)" by (cases y) auto
        with res inr have res': "reserve_topup seen env a pk package key db = (Inr (topup, entry, replayed), u)" by simp
        show thesis
          using ok [OF res' key Inr] run3 [unfolded bindE_run(1) [of "reserve_topup _ _ _ _ _ _", OF res']] by simp
      qed
    qed
  qed
  then show thesis
  proof cases
    case ok': ok
    from reserve_topup_run [OF ok'(1) ok] show thesis
    proof (elim disjE conjE exE)
      assume "replayed" "u = db" "tu_status (snd topup) \<noteq> TFulfilling" "find_topup key seen = Some topup"
      with ok'(2,4) show thesis by (intro replayed) (auto simp: ret_def)
    next
      fix e' amount assume new: "\<not> replayed" "entry = Some e'" "topup_placed a pk key topup e' amount db u" "find_topup key seen = None"
        "map_option es_account (map_of (esims db) pk) = Some a"
      with ok'(4) show thesis
        by (intro placed [OF new(3,4) ok'(2) new(5) ok'(3)]) (auto simp: thenE_def bindE_def publish_def modifyE_def)
    qed
  qed (rule refused)
qed

section \<open>Looking a top-up up by its key\<close>

lemma not_taken_find_topup: "\<not> key_taken (Some k) (map (\<lambda>r. tu_key (snd r)) rows) \<Longrightarrow> find_topup k rows = None"
  by (force simp: key_taken_def find_topup_def find_None_iff)

lemma find_topup_fresh:
  assumes "topup_placed account esim key topup entry amount db u" "top.spend_ok db"
    and "map_of (topups u) (fst topup) = Some row0" "topups t = AList.update (fst topup) row (topups u)" "tu_key row = tu_key row0"
  shows "find_topup key (topups t) = Some (fst topup, row)"
proof -
  obtain row1 where row1: "topups u = AList.update (fst topup) row1 (topups db)" "tu_key row1 = Some key"
    and none: "find_topup key (topups db) = None" and pk: "fst topup = next_uuid db"
    using assms(1) by (auto simp: topup_placed_def dest: not_taken_find_topup)
  have "map_of (topups db) (fst topup) = None"
    using top.spend_ok_fresh [OF assms(2), of "fst topup"] pk by (simp add: top.view_def)
  then have "fst topup \<notin> fst ` set (topups db)" by (simp add: map_of_eq_None_iff)
  then have "topups t = topups db @ [(fst topup, row)]"
    using row1(1) assms(4) by (simp add: AList_update_new AList_update_last)
  moreover have "tu_key row = Some key" using assms(3,5) row1 by simp
  ultimately show ?thesis using none by (simp add: find_topup_def find_append)
qed

section \<open>Properties\<close>

lemma purchase_keeps_spend_ok:
  assumes run: "purchase_seen seen env offers submit (pk, e) package_id key account db = (r, t)" and ok: "top.spend_ok db"
  shows "top.spend_ok t"
  using run ok
proof (cases rule: purchase_cases)
  case (placed package topup entry amount u evs)
  let ?pk = "fst topup" let ?v = "u\<lparr>events := evs\<rparr>" let ?a = "case account of None \<Rightarrow> es_account e | Some a \<Rightarrow> a"
  from topup_placed_spend_ok [OF placed(1) ok] have u: "top.spend_ok u" "top.view u ?pk = Some (?a, amount, Reserved)"
    "posting (ledger u) (topup_debit_key ?pk) = Some (?a, - amount)" "posting (ledger u) (topup_refund_key ?pk) = None" by auto
  obtain row where row: "map_of (topups ?v) ?pk = Some row" "tu_status row = TFulfilling" "tu_account row = ?a" "tu_amount row = amount"
    by (rule topup_placed_row [OF placed(1)]) auto
  have norm: "normalize_amount (DecimalArg (Finite amount)) = Inr amount"
    using placed(1) normalize_fixed by (auto simp: topup_placed_def)
  have v: "top.spend_ok ?v" using u(1) by (rule top.untouched_spend_ok) (simp add: top.untouched_def)
  show ?thesis
  proof (cases "submit (es_iccid e) (tp_external_id package)")
    case (Inl x)
    with placed(6) obtain r' where "compensate_topup ?pk ?a ?v = (r', t)" by (auto simp: thenE_iff raiseE_def)
    then show ?thesis by (rule compensate_topup_run [THEN conjunct2]) (use v row u(3) norm in auto)
  next
    case (Inr external)
    with placed(6) obtain r' w where p: "atomic (store_topup env (?pk, snd topup) external) ?v = (r', w)"
      and t: "ledger t = ledger w" "topups t = topups w" "next_uuid t = next_uuid w"
      by (auto simp: persist_topup_def bindE_iff thenE_iff publish_iff ret_def)
    have "top.spend_ok w"
    proof (cases r')
      case (Inl x)
      with p v show ?thesis by (simp add: atomic_iff)
    next
      case (Inr row')
      let ?v' = "?v\<lparr>topups := AList.update ?pk (fulfilled_topup external (clock ?v) row) (topups ?v)\<rparr>"
      have "top.spend_ok ?v'"
      proof (rule top.spend_ok_row [OF v, where es = "[]"])
        have "top.view ?v' ?pk = Some (?a, amount, Settled)"
          using row by (simp add: top.view_def topup_spend_def fulfilled_topup_def)
        then show "row_paid (top.view ?v' ?pk) (posting (ledger ?v') (topup_debit_key ?pk)) (posting (ledger ?v') (topup_refund_key ?pk))"
          using u(3,4) by (auto simp: row_paid_def)
        show "?pk < next_uuid ?v'" using u(1,2) by (auto simp: top.spend_ok_def)
      qed (simp_all add: top.view_def)
      moreover have "top.untouched ?v' w" using p Inr store_topup_run [of env ?pk "snd topup" external ?v row' w row] row(1)
        by (auto simp: atomic_iff)
      ultimately show ?thesis by (rule top.untouched_spend_ok)
    qed
    then show ?thesis by (rule top.untouched_spend_ok) (simp add: top.untouched_def t)
  qed
qed (use ok in simp_all)

text \<open>C18. Whatever a top-up purchase returns or raises, afterwards every top-up has at most one debit and one
  refund in the ledger, of its amount and on its account, and a paid top-up is refunded exactly when it is FAILED.\<close>

theorem topup_ledger_exact:
  assumes run: "purchase_seen seen env offers submit (pk, e) package_id key account db = (r, t)" and ok: "top.spend_ok db"
  shows "top.spend_ok t"
  by (rule purchase_keeps_spend_ok [OF run ok])

text \<open>Only the owner pays, and only for an eSIM it owns at the time of the debit: when the account that the
  eSIM belongs to in the database is not the one the request resolved (the eSIM was transferred in the
  meantime), the request is refused and nothing changes, unless its key was used before.\<close>

theorem topup_owner_pays:
  assumes "purchase_seen seen env offers submit (pk, e) package_id key account db = (r, t)" "top.spend_ok db"
    and "map_option es_account (map_of (esims db) pk) \<noteq> Some (case account of None \<Rightarrow> es_account e | Some a \<Rightarrow> a)"
  shows "t = db \<and> ((\<exists>x. r = Inl x) \<or> (\<exists>topup. r = Inr topup \<and> find_topup key seen = Some topup))"
  using assms(1,2)
proof (cases rule: purchase_cases)
  case placed
  with assms(3) show ?thesis by simp
qed auto

text \<open>A provider that refuses a top-up costs nothing: every balance is what it was and the new top-up, if the
  request was accepted, is FAILED.\<close>

theorem topup_provider_failure_neutral:
  assumes "purchase_seen seen env offers submit (pk, e) package_id key account (db :: 'x order_db_scheme) = (r, t)"
    and "top.spend_ok db" "\<And>i p. submit i p = Inl x"
    and "\<And>a acc. map_of (accounts db) a = Some acc \<Longrightarrow> 0 \<le> balance acc \<and> balance acc < NUMERIC_20_6"
  shows "balance_of t = balance_of db \<and>
    (t = db \<or> r = Inl (ESpend ProviderFulfillmentError) \<and>
      (\<exists>row. map_of (topups t) (next_uuid db) = Some row \<and> map_of (topups db) (next_uuid db) = None \<and>
        tu_status row = TFailed \<and> tu_esim row = pk \<and> tu_key row = Some key))"
  using assms(1,2)
proof (cases rule: purchase_cases)
  case (placed package topup entry amount u evs)
  let ?pk = "fst topup" let ?v = "u\<lparr>events := evs\<rparr>" let ?a = "case account of None \<Rightarrow> es_account e | Some a \<Rightarrow> a"
  from topup_placed_spend_ok [OF placed(1) assms(2)] have u: "top.spend_ok u"
    "posting (ledger u) (topup_debit_key ?pk) = Some (?a, - amount)" "posting (ledger u) (topup_refund_key ?pk) = None" by auto
  obtain row where row: "map_of (topups ?v) ?pk = Some row" "tu_status row = TFulfilling" "tu_account row = ?a" "tu_amount row = amount"
      "tu_esim row = pk" "tu_key row = Some key"
    by (rule topup_placed_row [OF placed(1)]) auto
  obtain w where debit: "accounts w = accounts db" "ledger w = ledger db"
      "debit ?a (DecimalArg (Finite (tu_amount (snd topup)))) (RefEnum TOPUP) (str_nat ?pk) (topup_debit_key ?pk) w = (Inr entry, u)"
    and pk: "?pk = next_uuid db" and norm0: "normalize_amount (DecimalArg (Finite (tu_amount (snd topup)))) = Inr amount"
    using placed(1) by (auto simp: topup_placed_def)
  note norm = normalize_fixed [OF norm0]
  have "posting (ledger db) (topup_debit_key ?pk) = None" using top.spend_ok_fresh [OF assms(2)] pk by simp
  then have fresh: "\<not> key_used w (topup_debit_key ?pk)" "find_entry (topup_debit_key ?pk) (ledger w) = None"
    by (simp_all add: key_used_def posting_def debit(2))
  from apply_Inr [OF debit(3) [unfolded debit_def]] fresh(2) norm0 obtain acc where acc: "map_of (accounts db) ?a = Some acc"
      "0 \<le> balance acc - amount" "\<exists>rt. (entry, u) = post ?a acc (- amount) rt (str_nat ?pk) (topup_debit_key ?pk) w"
    by (auto simp: debit(1))
  have acc': "map_of (accounts ?v) ?a = Some (acc\<lparr>balance := balance acc - amount, version := version acc + 1\<rparr>)"
    using acc(3) by (auto simp: post_def Let_def)
  have v: "top.spend_ok ?v" using u(1) by (rule top.untouched_spend_ok) (simp add: top.untouched_def)
  obtain c where c: "compensate_topup ?pk ?a ?v = (Inr (), c)"
    using compensate_topup_succeeds [OF row(1,2,4) _ acc' norm] u(3) acc assms(4) [OF acc(1)] by auto
  with placed(6) assms(3) have t: "r = Inl (ESpend ProviderFulfillmentError)" "t = c" by (auto simp: thenE_def bindE_def raiseE_def)
  have paid: "posting (ledger ?v) (topup_debit_key ?pk) = Some (?a, - amount)" using u(2) by simp
  from compensate_topup_run [OF c v row(1-4) paid norm] obtain e' and u' v' :: "'x order_db_scheme" where
    credit: "balance_of u' = balance_of ?v" "ledger u' = ledger ?v" "balance_of v' = balance_of t"
      "credit ?a (DecimalArg (Finite amount)) (RefEnum REFUND) (str_nat ?pk) (topup_refund_key ?pk) u' = (Inr e', v')"
    and failed: "map_of (topups t) ?pk = Some (row\<lparr>tu_status := TFailed, tu_updated := clock ?v\<rparr>)"
    using t by auto
  have "\<not> key_used u' (topup_refund_key ?pk)" using u(3) credit(2) by (simp add: key_used_def posting_def)
  have "debit ?a (DecimalArg (Finite amount)) (RefEnum TOPUP) (str_nat ?pk) (topup_debit_key ?pk) w = (Inr entry, u)"
    using debit(3) norm norm0 by (simp add: debit_def apply_credit_def apply_seen_def liftE_def bindE_def getsE_def)
  from port.charge_refund_neutral [OF this credit(4) fresh(1) \<open>\<not> key_used u' (topup_refund_key ?pk)\<close>] credit(1,3) debit(1)
  have "balance_of t = balance_of db" by (simp add: balance_of_def fun_eq_iff)
  moreover have "map_of (topups db) ?pk = None"
    using top.spend_ok_fresh [OF assms(2), of ?pk] pk by (simp add: top.view_def)
  ultimately show ?thesis using t failed row(5,6) pk by simp
qed auto

section \<open>Examples\<close>

definition demo_topup_db :: order_db where
  "demo_topup_db = demo_order_db\<lparr>esims := [(7, demo_esim 2)]\<rparr>"

lemma demo_topup_db_money:
  "accounts demo_topup_db = accounts demo_partner_db" "ledger demo_topup_db = ledger demo_partner_db"
  "next_uuid demo_topup_db = 3" "clock demo_topup_db = 1000" "topups demo_topup_db = []" "esims demo_topup_db = [(7, demo_esim 2)]"
  by (simp_all add: demo_topup_db_def demo_order_db_money)

lemma demo_topups_ok: "top.spend_ok demo_topup_db"
  by (simp add: top.spend_ok_def top.view_def row_paid_def posting_def find_entry_def demo_topup_db_money
      topup_debit_key_def topup_refund_key_def new_entry_def)

lemma demo_topup_failed:
  "\<exists>t. purchase_seen [] demo_shop_env (\<lambda>_. Inr [demo_topup_package]) (\<lambda>_ _. Inl (EProvider (ProviderFailed []))) (7, demo_esim 2)
     ''topup-7'' ''k'' None demo_topup_db = (Inl (ESpend ProviderFulfillmentError), t) \<and> topups t \<noteq> []"
  by (simp add: purchase_seen_def reserve_topup_def place_topup_def find_topup_def resolve_offer_def demo_topup_package_def
      resolve_topup_charge_def demo_shop_env_def demo_shop_billing topup_columns_def new_topup_def insert_topup_def next_sequence_def
      highest_sequence_def numeric_20_6_def nullable_def numeric_10_2_def numeric_5_2_def no_pricing_def stored_key_def key_taken_def
      uuid4_def debit_def credit_def apply_credit_def apply_seen_def apply_locked_def normalize_eval find_entry_def insert_entry_def
      save_account_def new_entry_def demo_topup_db_money publish_def MONEY_QUANTUM_def NUMERIC_20_6_def Let_def
      str_nat.simps [of 3] topup_debit_key_def topup_refund_key_def compensate_topup_def refund_topup_def update_topup_def txn_defs
      demo_esim_def List.map_filter_def)

theorem topup_ledger_exact_witness:
  "top.spend_ok (snd (purchase_seen [] demo_shop_env (\<lambda>_. Inr [demo_topup_package]) (\<lambda>_ _. Inr ''x'') (7, demo_esim 2)
     ''topup-7'' ''k'' None demo_topup_db))"
  by (rule topup_ledger_exact [OF surjective_pairing demo_topups_ok])

theorem topup_owner_pays_witness:
  "snd (purchase_seen [] demo_shop_env (\<lambda>_. Inr [demo_topup_package]) (\<lambda>_ _. Inr ''x'') (7, demo_esim 1) ''topup-7'' ''k'' None
     demo_topup_db) = demo_topup_db"
proof -
  have "map_option es_account (map_of (esims demo_topup_db) 7) \<noteq> Some (case None of None \<Rightarrow> es_account (demo_esim 1) | Some a \<Rightarrow> a)"
    by (simp add: demo_topup_db_money demo_esim_def)
  from topup_owner_pays [OF surjective_pairing demo_topups_ok this] show ?thesis by simp
qed

theorem topup_provider_failure_neutral_witness:
  "\<exists>t. purchase_seen [] demo_shop_env (\<lambda>_. Inr [demo_topup_package]) (\<lambda>_ _. Inl (EProvider (ProviderFailed []))) (7, demo_esim 2)
     ''topup-7'' ''k'' None demo_topup_db = (Inl (ESpend ProviderFulfillmentError), t) \<and> balance_of t 2 = 50 \<and>
     map_option tu_status (map_of (topups t) 3) = Some TFailed"
proof -
  obtain t where t: "purchase_seen [] demo_shop_env (\<lambda>_. Inr [demo_topup_package]) (\<lambda>_ _. Inl (EProvider (ProviderFailed [])))
      (7, demo_esim 2) ''topup-7'' ''k'' None demo_topup_db = (Inl (ESpend ProviderFulfillmentError), t)" "topups t \<noteq> []"
    using demo_topup_failed by blast
  have bal: "0 \<le> balance acc \<and> balance acc < NUMERIC_20_6" if "map_of (accounts demo_topup_db) a = Some acc" for a acc
    using that by (auto simp: demo_topup_db_money NUMERIC_20_6_def split: if_splits)
  have "balance_of demo_topup_db 2 = 50" by (simp add: balance_of_def demo_topup_db_money)
  with topup_provider_failure_neutral [OF t(1) demo_topups_ok, of "EProvider (ProviderFailed [])"] bal t
  show ?thesis by (auto simp: demo_topup_db_money)
qed

end
