(* ===== verification/Subscriptions.thy ===== *)
theory Subscriptions
  imports Topups
begin

text \<open>
  Renewal of subscriptions: \<^verbatim>\<open>billing/services/subscription.py\<close> and the constraints of
  \<^verbatim>\<open>SubscriptionRenewalCycle\<close> (\<^verbatim>\<open>billing/partner_channel.py\<close>). One renewal reads the subscription without
  a lock, commits a pending cycle for its billing date, and then debits, advances the date and settles the
  cycle in one transaction. The unlocked reads are the arguments \<open>seen\<close> and \<open>seen_cycles\<close>.
\<close>

section \<open>The service\<close>

definition SUBSCRIPTION_PERIOD_DAYS :: int where "SUBSCRIPTION_PERIOD_DAYS = 30"

datatype renewal = Renewed | Paused | Skipped

definition renewal_key :: "nat \<Rightarrow> int \<Rightarrow> string" where
  "renewal_key pk d = ''subscription-renew:'' @ str_nat pk @ '':'' @ date_iso d"

definition deposit_url :: "env \<Rightarrow> string" where
  "deposit_url env = rev (dropWhile (\<lambda>c. c = CHR ''/'') (rev (FRONTEND_BASE_URL env))) @ ''/me/deposit''"

definition require_enabled :: "env \<Rightarrow> ('s, unit) txn" where
  "require_enabled env =
     thenE (guardE (BILLING_ENABLED env) (EDeposit BillingDisabledError))
       (guardE (SUBSCRIPTIONS_ENABLED env) (ECredit SubscriptionsDisabledError))"

subsection \<open>Cycles\<close>

definition find_cycle :: "nat \<Rightarrow> int \<Rightarrow> (nat \<times> renewal_cycle) list \<Rightarrow> (nat \<times> renewal_cycle) option" where
  "find_cycle pk d rows = find (\<lambda>r. cyc_subscription (snd r) = pk \<and> cyc_date (snd r) = d) rows"

definition unfinished :: "renewal_cycle \<Rightarrow> bool" where
  "unfinished c \<longleftrightarrow> cyc_status c \<in> {CyclePending, CyclePaused, CycleFailed}"

text \<open>An insert: one cycle for a subscription and date, one unfinished cycle for a subscription.\<close>

definition insert_cycle :: "nat \<Rightarrow> renewal_cycle \<Rightarrow> ('x, unit) order_txn" where
  "insert_cycle pk c =
     bindE (liftE (numeric_20_6 (cyc_list c))) (\<lambda>l.
     bindE (liftE (nullable numeric_20_6 (cyc_net c))) (\<lambda>n.
     bindE (getsE renewal_cycles) (\<lambda>rows.
     if find_cycle (cyc_subscription c) (cyc_date c) rows \<noteq> None \<or>
        unfinished c \<and> (\<exists>r \<in> set rows. cyc_subscription (snd r) = cyc_subscription c \<and> unfinished (snd r))
     then raiseE (EPy IntegrityError)
     else modifyE (\<lambda>db. db\<lparr>renewal_cycles := renewal_cycles db @ [(pk, c\<lparr>cyc_list := l, cyc_net := n\<rparr>)]\<rparr>))))"

text \<open>\<^verbatim>\<open>cycle.save(update_fields=["status"])\<close>, with the checks of \<^verbatim>\<open>SubscriptionRenewalCycle.save\<close>.\<close>

definition save_cycle_status :: "nat \<times> renewal_cycle \<Rightarrow> cycle_status \<Rightarrow> ('x, unit) order_txn" where
  "save_cycle_status c status =
     bindE (getsE (\<lambda>db. map_of (renewal_cycles db) (fst c))) (\<lambda>previous.
     bindE (get_or_raise (EPy AppendOnlyViolation) previous) (\<lambda>row.
     if cyc_status row = CycleRenewed \<or> cyc_subscription row \<noteq> cyc_subscription (snd c) \<or>
        cyc_date row \<noteq> cyc_date (snd c) \<or> cyc_list row \<noteq> cyc_list (snd c) \<or> cyc_net row \<noteq> cyc_net (snd c)
     then raiseE (EPy AppendOnlyViolation)
     else modifyE (\<lambda>db. db\<lparr>renewal_cycles := AList.update (fst c) (row\<lparr>cyc_status := status\<rparr>) (renewal_cycles db)\<rparr>)))"

text \<open>The package behind \<^verbatim>\<open>esim__order__package\<close>; the joins are inner joins.\<close>

definition renewal_package :: "'x order_db_scheme \<Rightarrow> subscription \<Rightarrow> package option" where
  "renewal_package db sub =
     (case map_of (esims db) (sub_esim sub) of None \<Rightarrow> None
      | Some e \<Rightarrow> (case map_of (orders db) (es_order e) of None \<Rightarrow> None
        | Some order \<Rightarrow> map_of (packages db) (ord_package order)))"

definition pending_cycle :: "nat \<Rightarrow> int \<Rightarrow> package \<Rightarrow> renewal_cycle" where
  "pending_cycle pk d package =
     \<lparr>cyc_subscription = pk, cyc_date = d, cyc_list = price_usd package, cyc_net = net_price_usd package,
      cyc_status = CyclePending\<rparr>"

definition get_or_create_renewal_cycle ::
  "(nat \<times> renewal_cycle) list \<Rightarrow> nat \<Rightarrow> int \<Rightarrow> package \<Rightarrow> ('x, unit) order_txn" where
  "get_or_create_renewal_cycle seen_cycles pk d package =
     (case find_cycle pk d seen_cycles of
        Some _ \<Rightarrow> ret ()
      | None \<Rightarrow>
          catchE (atomic (bindE uuid4 (\<lambda>cpk. insert_cycle cpk (pending_cycle pk d package)))) (\<lambda>e.
            if e = EPy IntegrityError
            then bindE (getsE (\<lambda>db. find_cycle pk d (renewal_cycles db))) (\<lambda>raced.
                 case raced of None \<Rightarrow> raiseE e | Some _ \<Rightarrow> ret ())
            else raiseE e))"

subsection \<open>One renewal\<close>

text \<open>\<^verbatim>\<open>subscription.save(update_fields=...)\<close> on the locked row.\<close>

definition save_subscription :: "nat \<Rightarrow> subscription \<Rightarrow> ('x, unit) order_txn" where
  "save_subscription pk sub = modifyE (\<lambda>db. db\<lparr>subscriptions := AList.update pk sub (subscriptions db)\<rparr>)"

definition renewed_events :: "nat \<Rightarrow> subscription \<Rightarrow> ledger_entry \<Rightarrow> event list" where
  "renewed_events pk sub entry =
     [CreditDebited (str_nat (sub_account sub)) (sub_price sub) (balance_after entry) (reference_value SUBSCRIPTION)
        (str_nat pk) (str_nat (entry_id entry)) (entry_created_at entry),
      SubscriptionRenewed (str_nat pk) (str_nat (sub_account sub)) (str_nat (sub_esim sub)) (sub_price sub)
        (balance_after entry) (sub_next sub) (str_nat (entry_id entry)) (entry_created_at entry)]"

definition settle_renewal ::
  "env \<Rightarrow> nat \<Rightarrow> subscription \<Rightarrow> account \<Rightarrow> nat \<times> renewal_cycle \<Rightarrow> int \<Rightarrow> ledger_entry \<Rightarrow>
   ('x, renewal \<times> event list) order_txn" where
  "settle_renewal env pk sub account cycle d entry =
     bindE (liftE (add_days d SUBSCRIPTION_PERIOD_DAYS)) (\<lambda>next.
     thenE (save_subscription pk (sub\<lparr>sub_next := next\<rparr>))
     (thenE (save_cycle_status cycle CycleRenewed)
     (bindE (liftE (build_source_id SSubscription pk (Some d))) (\<lambda>source.
      bindE (accrue env SSubscription source (Some (cyc_list (snd cycle))) (cyc_net (snd cycle)) (acc_user account)) (\<lambda>_.
      ret (Renewed, renewed_events pk (sub\<lparr>sub_next := next\<rparr>) entry))))))"

definition pause_renewal ::
  "env \<Rightarrow> nat \<Rightarrow> subscription \<Rightarrow> nat \<times> renewal_cycle \<Rightarrow> rat \<Rightarrow> ('x, renewal \<times> event list) order_txn" where
  "pause_renewal env pk sub cycle available =
     thenE (save_cycle_status cycle CyclePaused)
     (thenE (save_subscription pk (sub\<lparr>sub_status := SubPaused\<rparr>))
     (bindE (getsE clock) (\<lambda>now.
      ret (Paused, [SubscriptionPaused (str_nat pk) (str_nat (sub_account sub)) (str_nat (sub_esim sub))
             (sub_price sub) available (deposit_url env) (sub_next sub) now]))))"

text \<open>The debit: \<open>Inl\<close> the balance that was too small, \<open>Inr\<close> the ledger row.\<close>

definition charge_renewal :: "nat \<Rightarrow> subscription \<Rightarrow> int \<Rightarrow> ('x, rat + ledger_entry) order_txn" where
  "charge_renewal pk sub d =
     catchE (bindE (debit (sub_account sub) (DecimalArg (Finite (sub_price sub))) (RefEnum SUBSCRIPTION) (str_nat pk)
                      (renewal_key pk d)) (\<lambda>entry. ret (Inr entry)))
       (\<lambda>e. case e of ECredit (InsufficientFundsError available required) \<Rightarrow> ret (Inl available) | _ \<Rightarrow> raiseE e)"

definition renew_charged ::
  "env \<Rightarrow> nat \<Rightarrow> subscription \<Rightarrow> account \<Rightarrow> nat \<times> renewal_cycle \<Rightarrow> int \<Rightarrow> ('x, renewal \<times> event list) order_txn" where
  "renew_charged env pk sub account cycle d =
     bindE (charge_renewal pk sub d) (\<lambda>charged.
     case charged of
       Inl available \<Rightarrow> pause_renewal env pk sub cycle available
     | Inr entry \<Rightarrow> settle_renewal env pk sub account cycle d entry)"

text \<open>The rows \<^verbatim>\<open>select_related("account", "esim")\<close> joins.\<close>

definition locked_subscription :: "nat \<Rightarrow> 'x order_db_scheme \<Rightarrow> (subscription \<times> account) option" where
  "locked_subscription pk db =
     (case map_of (subscriptions db) pk of None \<Rightarrow> None
      | Some sub \<Rightarrow> (case map_of (accounts db) (sub_account sub) of None \<Rightarrow> None
        | Some account \<Rightarrow> if map_of (esims db) (sub_esim sub) = None then None else Some (sub, account)))"

definition renew_locked :: "env \<Rightarrow> nat \<Rightarrow> int \<Rightarrow> ('x, renewal \<times> event list) order_txn" where
  "renew_locked env pk d =
     bindE (getsE (\<lambda>db. find_cycle pk d (renewal_cycles db))) (\<lambda>row.
     bindE (get_or_raise (EPy ObjectDoesNotExist) row) (\<lambda>cycle.
     bindE (getsE (locked_subscription pk)) (\<lambda>locked.
     case locked of
       None \<Rightarrow> ret (Skipped, [])
     | Some (sub, account) \<Rightarrow>
         if cyc_subscription (snd cycle) \<noteq> pk \<or> cyc_date (snd cycle) \<noteq> d then raiseE (EPy RuntimeError)
         else if cyc_status (snd cycle) = CycleRenewed then ret (Renewed, [])
         else if sub_status sub \<noteq> SubActive \<or> sub_next sub \<noteq> d then ret (Skipped, [])
         else renew_charged env pk sub account cycle d)))"

definition renew_seen ::
  "(nat \<times> subscription) list \<Rightarrow> (nat \<times> renewal_cycle) list \<Rightarrow> env \<Rightarrow> int option \<Rightarrow> nat \<Rightarrow> ('x, renewal) order_txn" where
  "renew_seen seen seen_cycles env as_of pk =
     thenE (require_enabled env)
     (bindE (getsE (\<lambda>db. case as_of of None \<Rightarrow> localdate (clock db) | Some d \<Rightarrow> d)) (\<lambda>today.
      case map_of seen pk of
        None \<Rightarrow> ret Skipped
      | Some current \<Rightarrow>
          bindE (getsE (\<lambda>db. renewal_package db current)) (\<lambda>package.
          case package of
            None \<Rightarrow> ret Skipped
          | Some p \<Rightarrow>
              if sub_status current \<noteq> SubActive \<or> today < sub_next current then ret Skipped
              else
                thenE (get_or_create_renewal_cycle seen_cycles pk (sub_next current) p)
                (bindE (atomic (renew_locked env pk (sub_next current))) (\<lambda>(outcome, evs).
                 thenE (publish evs) (ret outcome))))))"

definition renew_one :: "env \<Rightarrow> int option \<Rightarrow> nat \<Rightarrow> ('x, renewal) order_txn" where
  "renew_one env as_of pk =
     bindE (getsE subscriptions) (\<lambda>seen.
     bindE (getsE renewal_cycles) (\<lambda>seen_cycles.
     renew_seen seen seen_cycles env as_of pk))"

subsection \<open>The batch\<close>

definition is_due :: "int \<Rightarrow> subscription \<Rightarrow> bool" where
  "is_due today sub \<longleftrightarrow> sub_status sub = SubActive \<and> sub_next sub \<le> today"

text \<open>\<^verbatim>\<open>order_by("next_billing_date", "pk")\<close>.\<close>

definition due_ids :: "int \<Rightarrow> (nat \<times> subscription) list \<Rightarrow> nat list" where
  "due_ids today rows =
     map snd (sort_key fst (sort_key snd
       (map (\<lambda>r. (sub_next (snd r), fst r)) (filter (\<lambda>r. is_due today (snd r)) rows))))"

record renewal_stats =
  st_renewed :: nat
  st_paused :: nat
  st_skipped :: nat

fun count_result :: "renewal \<Rightarrow> renewal_stats \<Rightarrow> renewal_stats" where
  "count_result Renewed s = s\<lparr>st_renewed := st_renewed s + 1\<rparr>"
| "count_result Paused s = s\<lparr>st_paused := st_paused s + 1\<rparr>"
| "count_result Skipped s = s\<lparr>st_skipped := st_skipped s + 1\<rparr>"

fun renew_each :: "env \<Rightarrow> int \<Rightarrow> nat list \<Rightarrow> renewal_stats \<Rightarrow> ('x, renewal_stats) order_txn" where
  "renew_each env today [] s = ret s"
| "renew_each env today (pk # pks) s =
     bindE (renew_one env (Some today) pk) (\<lambda>result. renew_each env today pks (count_result result s))"

definition renew_due :: "env \<Rightarrow> int option \<Rightarrow> ('x, renewal_stats) order_txn" where
  "renew_due env as_of =
     thenE (require_enabled env)
     (bindE (getsE (\<lambda>db. case as_of of None \<Rightarrow> localdate (clock db) | Some d \<Rightarrow> d)) (\<lambda>today.
      bindE (getsE (\<lambda>db. due_ids today (subscriptions db))) (\<lambda>ids.
      renew_each env today ids \<lparr>st_renewed = 0, st_paused = 0, st_skipped = 0\<rparr>)))"


section \<open>The invariant of renewals\<close>

text \<open>
  A cycle is renewed exactly when the ledger holds its charge, and then the subscription has moved past
  its date; there is one cycle for a subscription and date and at most one unfinished one for a
  subscription, as the constraints demand.
\<close>

definition row_renewal :: "'x order_db_scheme \<Rightarrow> nat \<times> renewal_cycle \<Rightarrow> bool" where
  "row_renewal db r \<longleftrightarrow> fst r < next_uuid db \<and> valid_date (cyc_date (snd r)) \<and>
     (cyc_status (snd r) = CycleRenewed \<longrightarrow>
        (\<exists>sub. map_of (subscriptions db) (cyc_subscription (snd r)) = Some sub \<and> cyc_date (snd r) < sub_next sub))"

definition subscription_ok :: "subscription \<Rightarrow> bool" where
  "subscription_ok sub \<longleftrightarrow> valid_date (sub_next sub) \<and> 0 < sub_price sub \<and> on_grid MONEY_QUANT (sub_price sub)"

definition cycle_pair :: "nat \<times> renewal_cycle \<Rightarrow> nat \<times> int" where
  "cycle_pair r = (cyc_subscription (snd r), cyc_date (snd r))"

definition renewed_at :: "nat \<Rightarrow> int \<Rightarrow> (nat \<times> renewal_cycle) list \<Rightarrow> bool" where
  "renewed_at pk d rows \<longleftrightarrow> (\<exists>r \<in> set rows. cycle_pair r = (pk, d) \<and> cyc_status (snd r) = CycleRenewed)"

definition unfinished_rows :: "(nat \<times> renewal_cycle) list \<Rightarrow> (nat \<times> renewal_cycle) set" where
  "unfinished_rows rows = {r \<in> set rows. unfinished (snd r)}"

definition renewal_ok :: "'x order_db_scheme \<Rightarrow> bool" where
  "renewal_ok db \<longleftrightarrow>
     distinct (map fst (renewal_cycles db)) \<and> inj_on cycle_pair (set (renewal_cycles db)) \<and>
     inj_on (\<lambda>r. cyc_subscription (snd r)) (unfinished_rows (renewal_cycles db)) \<and>
     (\<forall>r \<in> set (renewal_cycles db). row_renewal db r) \<and>
     (\<forall>r \<in> set (subscriptions db). subscription_ok (snd r)) \<and>
     (\<forall>pk d. valid_date d \<longrightarrow>
        (posting (ledger db) (renewal_key pk d) \<noteq> None \<longleftrightarrow> renewed_at pk d (renewal_cycles db)))"

lemma renewal_okD:
  assumes "renewal_ok db"
  shows "distinct (map fst (renewal_cycles db))" "inj_on cycle_pair (set (renewal_cycles db))"
    and "inj_on (\<lambda>r. cyc_subscription (snd r)) (unfinished_rows (renewal_cycles db))"
    and "r \<in> set (renewal_cycles db) \<Longrightarrow> row_renewal db r"
    and "map_of (subscriptions db) pk = Some sub \<Longrightarrow> subscription_ok sub"
    and "valid_date d \<Longrightarrow> posting (ledger db) (renewal_key pk d) \<noteq> None \<longleftrightarrow> renewed_at pk d (renewal_cycles db)"
  using assms by (simp_all add: renewal_ok_def del: not_None_eq) (metis map_of_SomeD snd_conv)

lemma renewal_key_inject:
  assumes "valid_date d" "valid_date d'"
  shows "renewal_key pk d = renewal_key pk' d' \<longleftrightarrow> pk = pk' \<and> d = d'"
  using assms date_iso_inject [of d d'] by (auto simp: renewal_key_def valid_date_def colon_split)

lemma renewed_at_cycle:
  assumes "renewal_ok db" "c \<in> set (renewal_cycles db)" "cycle_pair c = (pk, d)"
  shows "renewed_at pk d (renewal_cycles db) \<longleftrightarrow> cyc_status (snd c) = CycleRenewed"
  using assms(2,3) inj_onD [OF renewal_okD(2) [OF assms(1)]] unfolding renewed_at_def by metis

lemma unfinished_iff: "unfinished c \<longleftrightarrow> cyc_status c \<noteq> CycleRenewed"
  by (cases "cyc_status c") (simp_all add: unfinished_def)

lemma find_cycle_Some: "find_cycle pk d rows = Some c \<Longrightarrow> c \<in> set rows \<and> cycle_pair c = (pk, d)"
  by (auto simp: find_cycle_def cycle_pair_def dest: find_in)

lemma find_cycle_None: "find_cycle pk d rows = None \<longleftrightarrow> (pk, d) \<notin> cycle_pair ` set rows"
  unfolding find_cycle_def cycle_pair_def find_None_iff by force

lemma find_cycle_append:
  "find_cycle pk d (xs @ ys) = (case find_cycle pk d xs of None \<Rightarrow> find_cycle pk d ys | Some x \<Rightarrow> Some x)"
  unfolding find_cycle_def by (rule find_append)

lemma valid_add_days: "add_days d n = Inr d' \<longleftrightarrow> d' = d + n \<and> valid_date d'"
  by (auto simp: add_days_def)

text \<open>A step that leaves the subscriptions, the cycles and the charges alone.\<close>

definition renewals_same :: "'x order_db_scheme \<Rightarrow> 'x order_db_scheme \<Rightarrow> bool" where
  "renewals_same db t \<longleftrightarrow> subscriptions t = subscriptions db \<and> renewal_cycles t = renewal_cycles db \<and>
     next_uuid db \<le> next_uuid t \<and>
     (\<forall>pk d. posting (ledger t) (renewal_key pk d) = posting (ledger db) (renewal_key pk d))"

lemma renewals_same_refl: "renewals_same db db"
  by (simp add: renewals_same_def)

lemma renewals_same_ok: "renewals_same db t \<Longrightarrow> renewal_ok db \<Longrightarrow> renewal_ok t"
  by (auto simp: renewals_same_def renewal_ok_def row_renewal_def simp del: not_None_eq intro: less_le_trans)

lemma keeps_renewals_uuid4 [keeps_intros]: "keeps (renewals_same db) uuid4"
  by (auto simp: keeps_def uuid4_def renewals_same_def)

lemma keeps_renewals_credit [keeps_intros]:
  assumes "\<And>pk d. key \<noteq> renewal_key pk d"
  shows "keeps (renewals_same db) (credit a m rt rid key)"
proof (rule keepsI)
  fix s r t
  assume s: "renewals_same db s" and run: "credit a m rt rid key s = (r, t)"
  have "subscriptions t = subscriptions s" "renewal_cycles t = renewal_cycles s" "next_uuid s \<le> next_uuid t"
    using credit_frame [OF run] by auto
  with s credit_posting_other [OF run] assms show "renewals_same db t" unfolding renewals_same_def by (metis le_trans)
qed

lemma keeps_renewals_accrue [keeps_intros]: "keeps (renewals_same db) (accrue env st sid lp np customer)"
  unfolding accrue_def accrue_share_def insert_accrual_def Let_def
  by (intro keeps_intros) (simp_all add: renewals_same_def accrual_key_def renewal_key_def)

section \<open>What a renewal does\<close>

text \<open>A pending cycle for a date that has none.\<close>

lemma renewed_at_append [simp]:
  "renewed_at pk d (rows @ [r]) \<longleftrightarrow> renewed_at pk d rows \<or> cycle_pair r = (pk, d) \<and> cyc_status (snd r) = CycleRenewed"
  by (auto simp: renewed_at_def)

lemma insert_cycle_ok:
  assumes ok: "renewal_ok db" and d: "valid_date d"
    and run: "bindE uuid4 (\<lambda>cpk. insert_cycle cpk (pending_cycle pk d package)) db = (Inr x, t)"
  shows "renewal_ok t \<and> subscriptions t = subscriptions db \<and> ledger t = ledger db \<and> accounts t = accounts db \<and>
     (\<exists>r. renewal_cycles t = renewal_cycles db @ [r] \<and> cycle_pair r = (pk, d) \<and> cyc_status (snd r) = CyclePending)"
proof -
  let ?n = "next_uuid db"
  obtain c where t: "t = db\<lparr>next_uuid := Suc ?n, renewal_cycles := renewal_cycles db @ [(?n, c)]\<rparr>"
    and c: "cyc_subscription c = pk" "cyc_date c = d" "cyc_status c = CyclePending"
    and new: "find_cycle pk d (renewal_cycles db) = None"
      "\<forall>r \<in> set (renewal_cycles db). cyc_subscription (snd r) = pk \<longrightarrow> \<not> unfinished (snd r)"
  proof -
    obtain l n where "numeric_20_6 (cyc_list (pending_cycle pk d package)) = Inr l"
        "nullable numeric_20_6 (cyc_net (pending_cycle pk d package)) = Inr n"
        "\<not> (find_cycle pk d (renewal_cycles db) \<noteq> None \<or> (\<exists>r \<in> set (renewal_cycles db). cyc_subscription (snd r) = pk \<and> unfinished (snd r)))"
        "t = db\<lparr>next_uuid := Suc ?n, renewal_cycles := renewal_cycles db @ [(?n, (pending_cycle pk d package)\<lparr>cyc_list := l, cyc_net := n\<rparr>)]\<rparr>"
      using run unfolding insert_cycle_def combinators_ok cases_ok(1)
      by (clarsimp simp: uuid4_def combinators_ok pending_cycle_def unfinished_def simp del: not_None_eq)
    then show thesis by (intro that [of "(pending_cycle pk d package)\<lparr>cyc_list := l, cyc_net := n\<rparr>"]) (auto simp: pending_cycle_def simp del: not_None_eq split_paired_All)
  qed
  have u: "unfinished c" using c by (simp add: unfinished_def)
  have rows: "renewal_cycles t = renewal_cycles db @ [(?n, c)]" by (simp add: t)
  have "?n \<notin> fst ` set (renewal_cycles db)" using renewal_okD(4) [OF ok] by (force simp: row_renewal_def)
  then have "distinct (map fst (renewal_cycles t))" using renewal_okD(1) [OF ok] by (simp add: rows)
  moreover have "cycle_pair (?n, c) \<notin> cycle_pair ` set (renewal_cycles db)"
    using new(1) c by (simp add: find_cycle_None cycle_pair_def [of "(?n, c)"])
  then have "inj_on cycle_pair (set (renewal_cycles t))" using renewal_okD(2) [OF ok] by (auto simp: rows)
  moreover have "unfinished_rows (renewal_cycles t) = insert (?n, c) (unfinished_rows (renewal_cycles db))"
    using u by (auto simp: unfinished_rows_def rows)
  moreover have "cyc_subscription c \<notin> (\<lambda>r. cyc_subscription (snd r)) ` unfinished_rows (renewal_cycles db)"
    using new(2) c(1) by (auto simp: unfinished_rows_def)
  then have "inj_on (\<lambda>r. cyc_subscription (snd r)) (insert (?n, c) (unfinished_rows (renewal_cycles db)))"
    using renewal_okD(3) [OF ok] by auto
  moreover have "row_renewal t r" if "r \<in> set (renewal_cycles t)" for r
    using that renewal_okD(4) [OF ok, of r] c d unfolding rows by (auto simp: row_renewal_def t)
  moreover have "renewed_at p d' (renewal_cycles t) \<longleftrightarrow> renewed_at p d' (renewal_cycles db)" for p d'
    using c(3) by (simp add: rows)
  ultimately have "renewal_ok t"
    using ok unfolding renewal_ok_def by (simp add: t)
  with t c show ?thesis by (simp add: cycle_pair_def)
qed


text \<open>The charge: a balance that is too small changes nothing; otherwise the key holds the price.\<close>

lemma charge_renewal_run:
  assumes "charge_renewal pk sub d db = (Inr charged, t)"
  shows "case charged of
      Inl _ \<Rightarrow> t = db
    | Inr entry \<Rightarrow> debit (sub_account sub) (DecimalArg (Finite (sub_price sub))) (RefEnum SUBSCRIPTION) (str_nat pk)
        (renewal_key pk d) db = (Inr entry, t)"
proof (cases "debit (sub_account sub) (DecimalArg (Finite (sub_price sub))) (RefEnum SUBSCRIPTION) (str_nat pk)
    (renewal_key pk d) db")
  case (Pair r u)
  show ?thesis
  proof (cases r)
    case (Inl e)
    with Pair have "u = db" by (auto simp: debit_def dest: apply_error_unchanged)
    with assms Pair Inl show ?thesis
      unfolding charge_renewal_def by (cases e) (auto simp: txn_defs split: credit_error.splits)
  next
    case (Inr e)
    with assms Pair show ?thesis by (auto simp: charge_renewal_def txn_defs)
  qed
qed

lemma renewal_charge_new:
  assumes "debit a (DecimalArg (Finite x)) (RefEnum SUBSCRIPTION) (str_nat pk) (renewal_key pk d) db = (Inr e, t)"
    and "posting (ledger db) (renewal_key pk d) = None" "on_grid MONEY_QUANT x"
  shows "posting (ledger t) (renewal_key pk d) = Some (a, - x)"
    and "k \<noteq> renewal_key pk d \<Longrightarrow> posting (ledger t) k = posting (ledger db) k"
    and "subscriptions t = subscriptions db" "renewal_cycles t = renewal_cycles db" "next_uuid db \<le> next_uuid t"
proof -
  from apply_posts_entry [OF assms(1) [unfolded debit_def] assms(2)] obtain y where
    y: "normalize_amount (DecimalArg (Finite x)) = Inr y" "ledger t = ledger db @ [e]" "entry_key e = renewal_key pk d"
      "entry_account e = a" "delta e = - y" by auto
  have "y = x" using normalize_amount_Inr(4) [OF y(1)] micro.quantize_fixes_grid [OF assms(3)] by auto
  with y assms(2) show "posting (ledger t) (renewal_key pk d) = Some (a, - x)"
    and "k \<noteq> renewal_key pk d \<Longrightarrow> posting (ledger t) k = posting (ledger db) k"
    by (auto simp: posting_append split: option.splits)
  show "subscriptions t = subscriptions db" "renewal_cycles t = renewal_cycles db" "next_uuid db \<le> next_uuid t"
    using debit_frame [OF assms(1)] by auto
qed

lemma save_cycle_status_run:
  "save_cycle_status c st db = (Inr u, t) \<longleftrightarrow>
   (\<exists>row. map_of (renewal_cycles db) (fst c) = Some row \<and> cyc_status row \<noteq> CycleRenewed \<and>
      cyc_subscription row = cyc_subscription (snd c) \<and> cyc_date row = cyc_date (snd c) \<and>
      cyc_list row = cyc_list (snd c) \<and> cyc_net row = cyc_net (snd c) \<and>
      t = db\<lparr>renewal_cycles := AList.update (fst c) (row\<lparr>cyc_status := st\<rparr>) (renewal_cycles db)\<rparr>)"
  by (auto simp: save_cycle_status_def combinators_ok cases_ok)

text \<open>The end of a renewal in the tables: the cycle's status and the subscription's row.\<close>

definition settled :: "nat \<Rightarrow> nat \<times> renewal_cycle \<Rightarrow> cycle_status \<Rightarrow> subscription \<Rightarrow> 'x order_db_scheme \<Rightarrow> 'x order_db_scheme \<Rightarrow> bool" where
  "settled pk c st sub db t \<longleftrightarrow>
     subscriptions t = AList.update pk sub (subscriptions db) \<and>
     renewal_cycles t = AList.update (fst c) ((snd c)\<lparr>cyc_status := st\<rparr>) (renewal_cycles db) \<and> next_uuid db \<le> next_uuid t"

lemma set_update_subset: "set (AList.update k v rows) \<subseteq> insert (k, v) (set rows)"
  by (induction rows) auto

lemma inj_on_replace:
  assumes "inj_on f S" "c \<in> S" "f c' = f c" "T \<subseteq> insert c' (S - {c})"
  shows "inj_on f T"
proof (rule inj_on_subset [OF _ assms(4)])
  have "f c \<notin> f ` (S - {c})" using inj_onD [OF assms(1)] assms(2) by blast
  then show "inj_on f (insert c' (S - {c}))" using assms(3) inj_on_diff [OF assms(1)] by auto
qed

lemma settled_ok:
  assumes ok: "renewal_ok db" and set: "settled pk c st sub' db t"
    and c: "c \<in> set (renewal_cycles db)" "cycle_pair c = (pk, d)" "unfinished (snd c)"
    and sub: "map_of (subscriptions db) pk = Some sub" "subscription_ok sub'" "sub_next sub \<le> sub_next sub'"
    and st: "st = CycleRenewed \<Longrightarrow> d < sub_next sub'"
    and charge: "posting (ledger t) (renewal_key pk d) \<noteq> None \<longleftrightarrow> st = CycleRenewed"
      "\<And>p d'. valid_date d' \<Longrightarrow> (p, d') \<noteq> (pk, d) \<Longrightarrow> posting (ledger t) (renewal_key p d') = posting (ledger db) (renewal_key p d')"
  shows "renewal_ok t"
proof -
  let ?c = "(fst c, (snd c)\<lparr>cyc_status := st\<rparr>)"
  have keys: "map_of (renewal_cycles db) (fst c) = Some (snd c)"
    using c(1) map_of_eq_Some_iff [OF renewal_okD(1) [OF ok], of "fst c" "snd c"] by simp
  have rows: "set (renewal_cycles t) = insert ?c {r \<in> set (renewal_cycles db). fst r \<noteq> fst c}"
    using set set_AList_update [OF renewal_okD(1) [OF ok]] by (simp add: settled_def)
  have other: "r = c" if "r \<in> set (renewal_cycles db)" "fst r = fst c" for r
    using that keys map_of_eq_Some_iff [OF renewal_okD(1) [OF ok], of "fst r" "snd r"]
    by (metis option.inject prod.collapse)
  have pair: "cycle_pair ?c = (pk, d)" using c(2) by (simp add: cycle_pair_def)
  have rest: "set (renewal_cycles t) = insert ?c (set (renewal_cycles db) - {c})"
    unfolding rows using other by blast
  have "inj_on cycle_pair (set (renewal_cycles t))"
    by (rule inj_on_replace [OF renewal_okD(2) [OF ok] c(1), of ?c]) (use rest pair c(2) in simp_all)
  moreover have "unfinished_rows (renewal_cycles t) \<subseteq> insert ?c (unfinished_rows (renewal_cycles db) - {c})"
    unfolding unfinished_rows_def rest by blast
  then have "inj_on (\<lambda>r. cyc_subscription (snd r)) (unfinished_rows (renewal_cycles t))"
    by (rule inj_on_replace [OF renewal_okD(3) [OF ok], of c ?c, rotated 2]) (use c in \<open>simp_all add: unfinished_rows_def\<close>)
  moreover have "row_renewal t r" if "r \<in> set (renewal_cycles t)" for r
  proof (cases "r = ?c")
    case True
    with renewal_okD(4) [OF ok c(1)] st set c(2) show ?thesis by (auto simp: row_renewal_def settled_def cycle_pair_def)
  next
    case False
    with that rows have r: "r \<in> set (renewal_cycles db)" by auto
    from renewal_okD(4) [OF ok r] set sub(1,3) show ?thesis
      by (auto simp: row_renewal_def settled_def)
  qed
  moreover have "\<forall>r \<in> set (subscriptions t). subscription_ok (snd r)"
    using ok sub(2) set_update_subset [of pk sub' "subscriptions db"] set
    by (auto simp: renewal_ok_def settled_def)
  moreover have "posting (ledger t) (renewal_key p d') \<noteq> None \<longleftrightarrow> renewed_at p d' (renewal_cycles t)"
    if "valid_date d'" for p d'
  proof (cases "(p, d') = (pk, d)")
    case True
    have "cycle_pair r \<noteq> (pk, d)" if "r \<in> set (renewal_cycles db)" "fst r \<noteq> fst c" for r
      using that c renewal_okD(2) [OF ok] by (auto simp: inj_on_def)
    with True charge(1) rows pair show ?thesis by (auto simp: renewed_at_def)
  next
    case False
    have "renewed_at p d' (renewal_cycles t) \<longleftrightarrow> renewed_at p d' (renewal_cycles db)"
    proof -
      have "cycle_pair c \<noteq> (p, d')" "cycle_pair ?c \<noteq> (p, d')" using pair c(2) False by auto
      then show ?thesis unfolding renewed_at_def rest by (metis DiffD1 DiffI insertE insertI2 singletonD)
    qed
    with charge(2) [OF that False] renewal_okD(6) [OF ok that, of p] show ?thesis by simp
  qed
  moreover have "distinct (map fst (renewal_cycles t))"
    using set keys_AList_update_old [OF keys] renewal_okD(1) [OF ok] by (simp add: settled_def)
  ultimately show ?thesis unfolding renewal_ok_def by blast
qed


text \<open>The transaction of one renewal.\<close>

lemma renew_locked_run:
  assumes run: "renew_locked env pk d db = (Inr (outcome, evs), t)" and ok: "renewal_ok db" and d: "valid_date d"
  shows "renewal_ok t \<and>
    (case outcome of
       Skipped \<Rightarrow> t = db \<and> evs = [] \<and>
         (locked_subscription pk db = None \<or> (\<exists>sub account. locked_subscription pk db = Some (sub, account) \<and>
            (sub_status sub \<noteq> SubActive \<or> sub_next sub \<noteq> d)))
     | Renewed \<Rightarrow>
         t = db \<and> evs = [] \<and> renewed_at pk d (renewal_cycles db) \<or>
         (\<exists>sub. map_of (subscriptions db) pk = Some sub \<and> sub_status sub = SubActive \<and> sub_next sub = d \<and>
            map_of (subscriptions t) pk = Some (sub\<lparr>sub_next := d + SUBSCRIPTION_PERIOD_DAYS\<rparr>) \<and>
            posting (ledger db) (renewal_key pk d) = None \<and>
            posting (ledger t) (renewal_key pk d) = Some (sub_account sub, - sub_price sub))
     | Paused \<Rightarrow> ledger t = ledger db \<and> accounts t = accounts db \<and>
         (\<exists>sub. map_of (subscriptions db) pk = Some sub \<and> sub_next sub = d \<and>
            map_of (subscriptions t) pk = Some (sub\<lparr>sub_status := SubPaused\<rparr>))) \<and>
    (\<forall>p. p \<noteq> pk \<longrightarrow> map_of (subscriptions t) p = map_of (subscriptions db) p) \<and>
    (\<forall>p d'. valid_date d' \<longrightarrow> (p, d') \<noteq> (pk, d) \<longrightarrow>
       posting (ledger t) (renewal_key p d') = posting (ledger db) (renewal_key p d'))"
proof -
  obtain c where c: "find_cycle pk d (renewal_cycles db) = Some c"
    and body: "(case locked_subscription pk db of
       None \<Rightarrow> ret (Skipped, [])
     | Some (sub, account) \<Rightarrow>
         if cyc_subscription (snd c) \<noteq> pk \<or> cyc_date (snd c) \<noteq> d then raiseE (EPy RuntimeError)
         else if cyc_status (snd c) = CycleRenewed then ret (Renewed, [])
         else if sub_status sub \<noteq> SubActive \<or> sub_next sub \<noteq> d then ret (Skipped, [])
         else renew_charged env pk sub account c d) db = (Inr (outcome, evs), t)"
    using run unfolding renew_locked_def combinators_ok by blast
  note c' = conjunct1 [OF find_cycle_Some [OF c]] conjunct2 [OF find_cycle_Some [OF c]]
  show ?thesis
  proof (cases "locked_subscription pk db")
    case None
    with body ok show ?thesis by (simp add: ret_def)
  next
    case (Some sa)
    obtain sub account where sa: "sa = (sub, account)" by (cases sa)
    with Some have sub: "map_of (subscriptions db) pk = Some sub"
      by (auto simp: locked_subscription_def split: option.splits if_splits)
    show ?thesis
    proof (cases "cyc_status (snd c) = CycleRenewed \<or> sub_status sub \<noteq> SubActive \<or> sub_next sub \<noteq> d")
      case True
      with body Some sa ok c' show ?thesis by (auto simp: ret_def raiseE_def renewed_at_def split: if_splits)
    next
      case False
      with body Some sa c' have charged: "renew_charged env pk sub account c d db = (Inr (outcome, evs), t)"
        by (auto simp: raiseE_def cycle_pair_def split: if_splits)
      have uc: "unfinished (snd c)" using False by (simp add: unfinished_iff)
      have free: "posting (ledger db) (renewal_key pk d) = None"
        using renewal_okD(6) [OF ok d, of pk] renewed_at_cycle [OF ok c'] False by blast
      have row: "map_of (renewal_cycles db) (fst c) = Some (snd c)"
        using c' map_of_eq_Some_iff [OF renewal_okD(1) [OF ok], of "fst c" "snd c"] by simp
      have sok: "subscription_ok sub" by (rule renewal_okD(5) [OF ok sub])
      obtain q u where q: "charge_renewal pk sub d db = (Inr q, u)"
        and rest: "(case q of Inl available \<Rightarrow> pause_renewal env pk sub c available
            | Inr entry \<Rightarrow> settle_renewal env pk sub account c d entry) u = (Inr (outcome, evs), t)"
        using charged unfolding renew_charged_def combinators_ok by blast
      show ?thesis
      proof (cases q)
        case (Inl available)
        with charge_renewal_run [OF q] rest row have "outcome = Paused" and u: "u = db"
          and t: "settled pk c CyclePaused (sub\<lparr>sub_status := SubPaused\<rparr>) db t" "ledger t = ledger db" "accounts t = accounts db"
          by (auto simp: pause_renewal_def combinators_ok save_cycle_status_run save_subscription_def settled_def)
        moreover have "renewal_ok t"
          by (rule settled_ok [OF ok t(1) c' uc sub]) (use sok free t(2) in \<open>simp_all add: subscription_ok_def\<close>)
        ultimately show ?thesis using sub False by (auto simp: settled_def)
      next
        case (Inr entry)
        let ?sub = "sub\<lparr>sub_next := d + SUBSCRIPTION_PERIOD_DAYS\<rparr>"
        have paid: "debit (sub_account sub) (DecimalArg (Finite (sub_price sub))) (RefEnum SUBSCRIPTION) (str_nat pk)
            (renewal_key pk d) db = (Inr entry, u)"
          using charge_renewal_run [OF q] Inr by simp
        note new = renewal_charge_new [OF paid free]
        have grid: "on_grid MONEY_QUANT (sub_price sub)" using sok by (simp add: subscription_ok_def)
        obtain v src acc where outcome: "outcome = Renewed" and nd: "valid_date (d + SUBSCRIPTION_PERIOD_DAYS)"
          and v: "v = u\<lparr>subscriptions := AList.update pk ?sub (subscriptions u),
              renewal_cycles := AList.update (fst c) ((snd c)\<lparr>cyc_status := CycleRenewed\<rparr>) (renewal_cycles u)\<rparr>"
          and a: "accrue env SSubscription src (Some (cyc_list (snd c))) (cyc_net (snd c)) (acc_user account) v = (Inr acc, t)"
          using rest Inr row new(4) [OF grid]
          by (auto simp: settle_renewal_def combinators_ok save_cycle_status_run save_subscription_def valid_add_days)
        have "keeps (renewals_same v) (accrue env SSubscription src (Some (cyc_list (snd c))) (cyc_net (snd c)) (acc_user account))"
          by (intro keeps_intros)
        from keepsD [OF this renewals_same_refl a] have same: "renewals_same v t" .
        have t: "settled pk c CycleRenewed ?sub db t"
          using same v new(3-5) [OF grid] by (simp add: settled_def renewals_same_def)
        have post: "posting (ledger t) (renewal_key pk d) = Some (sub_account sub, - sub_price sub)"
          "valid_date d' \<Longrightarrow> (p, d') \<noteq> (pk, d) \<Longrightarrow>
             posting (ledger t) (renewal_key p d') = posting (ledger db) (renewal_key p d')" for p d'
          using same v new(1,2) [OF grid] renewal_key_inject [OF _ d, of d' p pk] by (auto simp: renewals_same_def)
        have "renewal_ok t"
          by (rule settled_ok [OF ok t c' uc sub])
            (use sok nd post False in \<open>auto simp: subscription_ok_def SUBSCRIPTION_PERIOD_DAYS_def\<close>)
        with t post outcome sub False free show ?thesis by (auto simp: settled_def)
      qed
    qed
  qed
qed


text \<open>Opening the cycle touches no subscription and no money.\<close>

lemma get_or_create_run:
  assumes run: "get_or_create_renewal_cycle seen pk d package db = (r, t)" and ok: "renewal_ok db" and d: "valid_date d"
  shows "renewal_ok t \<and> subscriptions t = subscriptions db \<and> ledger t = ledger db \<and> accounts t = accounts db \<and>
     (\<forall>p d'. renewed_at p d' (renewal_cycles t) = renewed_at p d' (renewal_cycles db))"
proof (cases "find_cycle pk d seen")
  case (Some c)
  with run ok show ?thesis by (simp add: get_or_create_renewal_cycle_def ret_def)
next
  case None
  show ?thesis
  proof (cases "bindE uuid4 (\<lambda>cpk. insert_cycle cpk (pending_cycle pk d package)) db")
    case (Pair q u)
    show ?thesis
    proof (cases q)
      case (Inl e)
      with None Pair run have "(if e = EPy IntegrityError
          then bindE (getsE (\<lambda>db. find_cycle pk d (renewal_cycles db)))
             (\<lambda>raced. case raced of None \<Rightarrow> raiseE e | Some _ \<Rightarrow> ret ())
          else raiseE e) db = (r, t)"
        by (simp add: get_or_create_renewal_cycle_def catchE_def atomic_def)
      then have "t = db" by (auto simp: txn_iff split: if_splits option.splits)
      with ok show ?thesis by simp
    next
      case (Inr x)
      with None Pair run have "t = u" by (simp add: get_or_create_renewal_cycle_def catchE_def atomic_def)
      with insert_cycle_ok [OF ok d, of pk package x u] Pair Inr show ?thesis by auto
    qed
  qed
qed

lemma renew_seen_cases:
  assumes run: "renew_seen seen seen_cycles env as_of pk db = (r, t)"
  obtains (nothing) "t = db" "r \<noteq> Inr Renewed" "r \<noteq> Inr Paused"
      "\<And>current. r = Inr Skipped \<Longrightarrow> map_of seen pk = Some current \<Longrightarrow> renewal_package db current \<noteq> None \<Longrightarrow>
         sub_status current \<noteq> SubActive \<or> (case as_of of None \<Rightarrow> localdate (clock db) | Some today \<Rightarrow> today) < sub_next current"
  | (refused) current p e where "map_of seen pk = Some current" "r = Inl e"
      "get_or_create_renewal_cycle seen_cycles pk (sub_next current) p db = (Inl e, t)"
  | (failed) current p u e v where "map_of seen pk = Some current" "r = Inl e" "t = u"
      "get_or_create_renewal_cycle seen_cycles pk (sub_next current) p db = (Inr (), u)"
      "renew_locked env pk (sub_next current) u = (Inl e, v)"
  | (finished) current p u outcome evs v where "map_of seen pk = Some current" "r = Inr outcome"
      "get_or_create_renewal_cycle seen_cycles pk (sub_next current) p db = (Inr (), u)"
      "renew_locked env pk (sub_next current) u = (Inr (outcome, evs), v)" "t = v\<lparr>events := events v @ evs\<rparr>"
proof (cases "BILLING_ENABLED env \<and> SUBSCRIPTIONS_ENABLED env")
  case False
  then show thesis
    by - (rule nothing; use run in \<open>auto simp: renew_seen_def require_enabled_def txn_defs split: if_splits\<close>)
next
  case enabled: True
  show thesis
  proof (cases "map_of seen pk")
    case None
    then show thesis
      by - (rule nothing; use run enabled in \<open>auto simp: renew_seen_def require_enabled_def txn_defs\<close>)
  next
    case (Some cur)
    show thesis
    proof (cases "renewal_package db cur")
      case None
      then show thesis
        by - (rule nothing; use run enabled Some in \<open>auto simp: renew_seen_def require_enabled_def txn_defs\<close>)
    next
      case package: (Some p)
      let ?today = "case as_of of None \<Rightarrow> localdate (clock db) | Some today \<Rightarrow> today"
      show thesis
      proof (cases "sub_status cur \<noteq> SubActive \<or> ?today < sub_next cur")
        case True
        then show thesis
          by - (rule nothing; use run enabled Some package in \<open>auto simp: renew_seen_def require_enabled_def txn_defs split: if_splits\<close>)
      next
        case False
        with run enabled Some package have body:
          "thenE (get_or_create_renewal_cycle seen_cycles pk (sub_next cur) p)
             (bindE (atomic (renew_locked env pk (sub_next cur))) (\<lambda>(outcome, evs). thenE (publish evs) (ret outcome))) db = (r, t)"
          by (auto simp: renew_seen_def require_enabled_def txn_defs split: if_splits)
        obtain q u where q: "get_or_create_renewal_cycle seen_cycles pk (sub_next cur) p db = (q, u)" by fastforce
        show thesis
        proof (cases q)
          case (Inl e)
          then show thesis
            by - (rule refused [of cur e p]; use body q Some in \<open>auto simp: thenE_iff\<close>)
        next
          case (Inr y)
          obtain w v where w: "renew_locked env pk (sub_next cur) u = (w, v)" by fastforce
          show thesis
          proof (cases w)
            case (Inl e)
            then show thesis
              by - (rule failed [of cur e u p v]; use body q Inr w Some in \<open>auto simp: thenE_iff bindE_iff atomic_iff\<close>)
          next
            case wr: (Inr oe)
            obtain outcome evs where "oe = (outcome, evs)" by (cases oe)
            then show thesis
              by - (rule finished [of cur outcome p u evs v]; use body q Inr w Some wr in \<open>auto simp: thenE_iff bindE_iff atomic_iff publish_iff txn_iff\<close>)
          qed
        qed
      qed
    qed
  qed
qed

text \<open>C19. Whatever a renewal read before it took its locks and whatever it answers, each billing date is charged
  once, with the price of the stored subscription and on its account, exactly when the date moves 30 days
  on; a refused or failed renewal charges nothing and leaves the subscription alone, and a pause charges
  nothing.\<close>

theorem renewal_charged_once:
  assumes "renew_seen seen seen_cycles env as_of pk (db :: order_db) = (r, t)" "renewal_ok db"
    and "\<forall>(p, sub) \<in> set seen. valid_date (sub_next sub)"
  shows "renewal_ok t \<and>
    (\<forall>p d. valid_date d \<longrightarrow> posting (ledger db) (renewal_key p d) \<noteq> None \<longrightarrow>
       posting (ledger t) (renewal_key p d) = posting (ledger db) (renewal_key p d)) \<and>
    (case r of
       Inl e \<Rightarrow> subscriptions t = subscriptions db \<and> ledger t = ledger db \<and> accounts t = accounts db
     | Inr Skipped \<Rightarrow> subscriptions t = subscriptions db \<and> ledger t = ledger db \<and> accounts t = accounts db
     | Inr Paused \<Rightarrow> ledger t = ledger db \<and> accounts t = accounts db \<and>
         map_option sub_status (map_of (subscriptions t) pk) = Some SubPaused
     | Inr Renewed \<Rightarrow>
         (\<exists>current d. map_of seen pk = Some current \<and> d = sub_next current \<and>
            posting (ledger t) (renewal_key pk d) \<noteq> None \<and>
            (if posting (ledger db) (renewal_key pk d) = None
             then \<exists>sub. map_of (subscriptions db) pk = Some sub \<and> sub_next sub = d \<and>
               posting (ledger t) (renewal_key pk d) = Some (sub_account sub, - sub_price sub) \<and>
               map_of (subscriptions t) pk = Some (sub\<lparr>sub_next := d + SUBSCRIPTION_PERIOD_DAYS\<rparr>)
             else subscriptions t = subscriptions db \<and> ledger t = ledger db)))"
  using assms(1)
proof (cases rule: renew_seen_cases)
  case nothing
  with assms(2) show ?thesis by (auto split: sum.splits renewal.splits)
next
  case (refused current p e)
  then have "valid_date (sub_next current)" using assms(3) by (auto dest!: map_of_SomeD)
  from get_or_create_run [OF refused(3) assms(2) this] refused(2) show ?thesis by simp
next
  case (failed current p u e v)
  then have "valid_date (sub_next current)" using assms(3) by (auto dest!: map_of_SomeD)
  from get_or_create_run [OF failed(4) assms(2) this] failed(2,3) show ?thesis by simp
next
  case (finished current p u outcome evs v)
  then have d: "valid_date (sub_next current)" using assms(3) by (auto dest!: map_of_SomeD)
  let ?d = "sub_next current"
  have u: "renewal_ok u" "subscriptions u = subscriptions db" "ledger u = ledger db" "accounts u = accounts db"
    using get_or_create_run [OF finished(3) assms(2) d] by auto
  note run = renew_locked_run [OF finished(4) u(1) d]
  have ok: "renewal_ok t" using run by (simp add: finished(5) renewal_ok_def row_renewal_def)
  have keep: "posting (ledger t) (renewal_key p d') = posting (ledger db) (renewal_key p d')"
    if "valid_date d'" "posting (ledger db) (renewal_key p d') \<noteq> None" for p d'
    using that run u(3) by (cases "(p, d') = (pk, ?d)") (auto simp: finished(5) split: renewal.splits)
  show ?thesis
  proof (cases outcome)
    case Renewed
    with run u(2,3) renewal_okD(6) [OF u(1) d, of pk] finished(1)
    have "\<exists>current d. map_of seen pk = Some current \<and> d = sub_next current \<and>
        posting (ledger t) (renewal_key pk d) \<noteq> None \<and>
        (if posting (ledger db) (renewal_key pk d) = None
         then \<exists>sub. map_of (subscriptions db) pk = Some sub \<and> sub_next sub = d \<and>
           posting (ledger t) (renewal_key pk d) = Some (sub_account sub, - sub_price sub) \<and>
           map_of (subscriptions t) pk = Some (sub\<lparr>sub_next := d + SUBSCRIPTION_PERIOD_DAYS\<rparr>)
         else subscriptions t = subscriptions db \<and> ledger t = ledger db)"
      by (auto simp: finished(5))
    with ok keep Renewed show ?thesis unfolding finished(2) by simp
  next
    case Paused
    with run u ok keep show ?thesis by (auto simp: finished(2,5))
  next
    case Skipped
    with run u ok keep show ?thesis by (auto simp: finished(2,5))
  qed
qed


section \<open>The batch\<close>

text \<open>What the joins read stays: the eSIMs, orders and packages, and which accounts there are.\<close>

definition joins_same :: "'x order_db_scheme \<Rightarrow> 'x order_db_scheme \<Rightarrow> bool" where
  "joins_same db t \<longleftrightarrow> esims t = esims db \<and> orders t = orders db \<and> packages t = packages db \<and>
     map fst (accounts t) = map fst (accounts db)"

lemma keeps_joins_apply [keeps_intros]: "keeps (joins_same db) (apply_credit a m rt rid key sign)"
proof (rule keepsI)
  fix s r t
  assume "joins_same db s" "apply_credit a m rt rid key sign s = (r, t)"
  then show "joins_same db t" using apply_frame [of a m rt rid key sign s r t] by (auto simp: joins_same_def)
qed

lemma keeps_joins_money [keeps_intros]:
  "keeps (joins_same db) uuid4" "keeps (joins_same db) (publish evs)" "keeps (joins_same db) (credit a m rt rid key)"
  "keeps (joins_same db) (debit a m rt rid key)"
  by (simp_all add: keeps_joins_apply credit_def debit_def) (auto simp: keeps_def uuid4_def publish_def txn_defs joins_same_def)

lemma keeps_joins_accrual [keeps_intros]: "keeps (joins_same db) (insert_accrual pk acr)"
  unfolding insert_accrual_def by (intro keeps_intros) (simp add: joins_same_def)

lemma keeps_joins_cycle [keeps_intros]: "keeps (joins_same db) (insert_cycle pk c)"
  unfolding insert_cycle_def by (intro keeps_intros) (simp add: joins_same_def)

lemma keeps_joins_status [keeps_intros]: "keeps (joins_same db) (save_cycle_status cy st)"
  unfolding save_cycle_status_def by (intro keeps_intros) (simp add: joins_same_def)

lemma keeps_joins_subscription [keeps_intros]: "keeps (joins_same db) (save_subscription pk sub)"
  unfolding save_subscription_def by (intro keeps_intros) (simp add: joins_same_def)

lemma keeps_joins_accrue [keeps_intros]: "keeps (joins_same db) (accrue env st sid lp np customer)"
  unfolding accrue_def accrue_share_def Let_def by (intro keeps_intros)

lemma keeps_joins_renew: "keeps (joins_same db) (renew_one env as_of pk)"
proof -
  have "keeps (joins_same db) (charge_renewal pk sub d)" for sub d
    unfolding charge_renewal_def
    by (rule keeps_catch, intro keeps_intros) (auto simp: keeps_def txn_defs split: exc.split credit_error.split)
  then have "keeps (joins_same db) (renew_charged env pk sub account cycle d)" for sub account cycle d
    unfolding renew_charged_def settle_renewal_def pause_renewal_def
    by (rule keeps_bind) (auto intro!: keeps_intros split: sum.split)
  then show ?thesis
    unfolding renew_one_def renew_seen_def require_enabled_def get_or_create_renewal_cycle_def renew_locked_def
    by (intro keeps_intros)
qed

definition joined :: "'x order_db_scheme \<Rightarrow> subscription \<Rightarrow> bool" where
  "joined db sub \<longleftrightarrow> renewal_package db sub \<noteq> None \<and> sub_account sub \<in> set (map fst (accounts db))"

lemma joined_same: "joins_same db t \<Longrightarrow> joined t sub = joined db sub"
  by (simp add: joins_same_def joined_def renewal_package_def split: option.splits)

lemma joined_locked:
  assumes "map_of (subscriptions db) pk = Some sub" "joined db sub"
  shows "\<exists>account. locked_subscription pk db = Some (sub, account)"
proof -
  obtain account where "map_of (accounts db) (sub_account sub) = Some account"
    using assms(2) by (auto simp: joined_def map_of_eq_None_iff dest: weak_map_of_SomeI)
  moreover have "map_of (esims db) (sub_esim sub) \<noteq> None"
    using assms(2) by (auto simp: joined_def renewal_package_def split: option.splits)
  ultimately show ?thesis using assms(1) by (simp add: locked_subscription_def)
qed

text \<open>What a day's renewal makes of a due subscription.\<close>

definition processed :: "subscription \<Rightarrow> subscription option \<Rightarrow> bool" where
  "processed sub now \<longleftrightarrow>
     now = Some (sub\<lparr>sub_next := sub_next sub + SUBSCRIPTION_PERIOD_DAYS\<rparr>) \<or> now = Some (sub\<lparr>sub_status := SubPaused\<rparr>)"

lemma renew_one_due:
  assumes run: "renew_one env (Some today) pk db = (Inr outcome, t)" and ok: "renewal_ok db"
    and sub: "map_of (subscriptions db) pk = Some sub" "is_due today sub" "joined db sub"
  shows "outcome \<noteq> Skipped \<and> processed sub (map_of (subscriptions t) pk) \<and> renewal_ok t \<and> joins_same db t \<and>
     (renewed_at pk (sub_next sub) (renewal_cycles t) \<or> map_of (subscriptions t) pk = Some (sub\<lparr>sub_status := SubPaused\<rparr>)) \<and>
     (\<forall>p. p \<noteq> pk \<longrightarrow> map_of (subscriptions t) p = map_of (subscriptions db) p)"
proof -
  have "joins_same db db" by (simp add: joins_same_def)
  from keepsD [OF keeps_joins_renew this run] have joins: "joins_same db t" .
  have d: "valid_date (sub_next sub)" using renewal_okD(5) [OF ok sub(1)] by (simp add: subscription_ok_def)
  have "renew_seen (subscriptions db) (renewal_cycles db) env (Some today) pk db = (Inr outcome, t)"
    using run by (simp add: renew_one_def txn_defs)
  then show ?thesis
  proof (cases rule: renew_seen_cases)
    case nothing
    with sub show ?thesis by (cases outcome) (auto simp: joined_def is_due_def)
  next
    case (finished current p u outcome' evs v)
    with sub have cur: "current = sub" and outcome: "outcome' = outcome" by simp_all
    from get_or_create_run [OF finished(3) ok] d cur have u: "renewal_ok u" "subscriptions u = subscriptions db"
        "accounts u = accounts db" "\<And>p d'. renewed_at p d' (renewal_cycles u) = renewed_at p d' (renewal_cycles db)" by auto
    note run' = renew_locked_run [OF finished(4) u(1), unfolded cur outcome, OF d]
    have "keeps (joins_same db) (get_or_create_renewal_cycle (renewal_cycles db) pk (sub_next sub) p)"
      unfolding get_or_create_renewal_cycle_def by (intro keeps_intros)
    from keepsD [OF this _ finished(3) [unfolded cur]] have "joins_same db u" by (simp add: joins_same_def)
    with sub(3) have "joined u sub" by (simp add: joined_same)
    with sub(1) u(2) obtain account where "locked_subscription pk u = Some (sub, account)"
      using joined_locked [of u pk sub] by auto
    with run' sub(2) have "outcome \<noteq> Skipped" by (auto simp: is_due_def)
    moreover have "\<not> renewed_at pk (sub_next sub) (renewal_cycles u)"
      using renewal_okD(4) [OF ok] sub(1) unfolding u(4) by (fastforce simp: renewed_at_def row_renewal_def cycle_pair_def)
    ultimately have "processed sub (map_of (subscriptions t) pk)"
      using run' sub(1) u(2) by (cases outcome) (auto simp: processed_def finished(5))
    moreover have ok': "renewal_ok t" using run' by (simp add: finished(5) renewal_ok_def row_renewal_def)
    moreover have "renewed_at pk (sub_next sub) (renewal_cycles t) \<or> map_of (subscriptions t) pk = Some (sub\<lparr>sub_status := SubPaused\<rparr>)"
      using run' \<open>outcome \<noteq> Skipped\<close> \<open>\<not> renewed_at pk (sub_next sub) (renewal_cycles u)\<close> renewal_okD(6) [OF ok' d, of pk] sub(1) u(2)
      by (cases outcome) (auto simp: finished(5))
    ultimately show ?thesis using \<open>outcome \<noteq> Skipped\<close> joins run' u(2) by (auto simp: finished(5))
  qed simp_all
qed


text \<open>A renewal changes no cycle but its own.\<close>

definition cycles_within :: "nat \<Rightarrow> int \<Rightarrow> 'x order_db_scheme \<Rightarrow> 'x order_db_scheme \<Rightarrow> bool" where
  "cycles_within pk d db t \<longleftrightarrow> (\<forall>r \<in> set (renewal_cycles t). r \<in> set (renewal_cycles db) \<or> cycle_pair r = (pk, d))"

lemma keeps_within_money [keeps_intros]:
  "keeps (cycles_within pk d db) uuid4" "keeps (cycles_within pk d db) (publish evs)"
  "keeps (cycles_within pk d db) (save_subscription p sub)"
  by (simp_all add: keeps_def uuid4_def publish_def save_subscription_def txn_defs cycles_within_def)

lemma keeps_within_apply [keeps_intros]: "keeps (cycles_within pk d db) (apply_credit a m rt rid key sign)"
proof (rule keepsI)
  fix s r t
  assume "cycles_within pk d db s" "apply_credit a m rt rid key sign s = (r, t)"
  then show "cycles_within pk d db t" using apply_frame [of a m rt rid key sign s r t] by (auto simp: cycles_within_def)
qed

lemma keeps_within_accrue [keeps_intros]: "keeps (cycles_within pk d db) (accrue env st sid lp np customer)"
  unfolding accrue_def accrue_share_def insert_accrual_def credit_def Let_def
  by (intro keeps_intros) (simp add: cycles_within_def)

lemma keeps_within_insert [keeps_intros]: "keeps (cycles_within pk d db) (insert_cycle cpk (pending_cycle pk d package))"
  unfolding insert_cycle_def by (intro keeps_intros) (auto simp: cycles_within_def cycle_pair_def pending_cycle_def)

lemma keeps_within_status [keeps_intros]:
  assumes "cyc_subscription (snd c) = pk" "cyc_date (snd c) = d"
  shows "keeps (cycles_within pk d db) (save_cycle_status c st)"
proof (rule keepsI)
  fix s r t
  assume s: "cycles_within pk d db s" and run: "save_cycle_status c st s = (r, t)"
  show "cycles_within pk d db t"
  proof (cases r)
    case (Inl e)
    with run s show ?thesis by (auto simp: save_cycle_status_def txn_iff split: if_splits)
  next
    case (Inr u)
    with run obtain row where "t = s\<lparr>renewal_cycles := AList.update (fst c) (row\<lparr>cyc_status := st\<rparr>) (renewal_cycles s)\<rparr>"
        "cyc_subscription row = pk" "cyc_date row = d"
      using assms by (auto simp: save_cycle_status_run)
    with s set_update_subset [of "fst c" "row\<lparr>cyc_status := st\<rparr>" "renewal_cycles s"] show ?thesis
      by (auto simp: cycles_within_def cycle_pair_def)
  qed
qed

lemma keeps_within_charge [keeps_intros]: "keeps (cycles_within pk d db) (charge_renewal p sub d')"
  unfolding charge_renewal_def debit_def
  by (rule keeps_catch, intro keeps_intros) (auto simp: keeps_def txn_defs split: exc.split credit_error.split)

lemma keeps_within_charged:
  assumes "cyc_subscription (snd c) = pk" "cyc_date (snd c) = d"
  shows "keeps (cycles_within pk d db) (renew_charged env pk sub account c d)"
  unfolding renew_charged_def settle_renewal_def pause_renewal_def
  by (rule keeps_bind) (auto intro!: keeps_intros assms split: sum.split)

lemma keeps_within_locked: "keeps (cycles_within pk d db) (renew_locked env pk d)"
proof -
  have body: "keeps (cycles_within pk d db) (if cyc_subscription (snd c) \<noteq> pk \<or> cyc_date (snd c) \<noteq> d then m
      else if b then m' else if b' then m'' else renew_charged env pk sub account c d)"
    if "keeps (cycles_within pk d db) m" "keeps (cycles_within pk d db) m'" "keeps (cycles_within pk d db) m''"
    for c m b m' b' m'' sub account
    using that keeps_within_charged [of c pk d db env sub account] by auto
  show ?thesis
    unfolding renew_locked_def
    by (intro keeps_bind keeps_case_option keeps_case_prod keeps_reads) (rule body; intro keeps_reads)
qed

text \<open>When nothing in the tables is in the way, a renewal returns.\<close>

lemma ledger_sum_bound:
  assumes "running_ok es" "\<forall>e \<in> set es. balance_after e < B" "0 < B"
  shows "ledger_sum es a < B"
  using assms(1,2)
proof (induction es rule: rev_induct)
  case (snoc e es)
  then show ?case by (cases "entry_account e = a") (auto simp: running_ok_snoc)
qed (simp add: assms(3))

lemma balance_bound:
  assumes "ledger_ok db" "map_of (accounts db) a = Some row"
  shows "balance row < NUMERIC_20_6"
proof -
  have "balance row = ledger_sum (ledger db) a"
    using ledger_okD(6) [OF assms(1) map_of_SomeD [OF assms(2)]] by (simp add: account_ok_def)
  moreover have "ledger_sum (ledger db) a < NUMERIC_20_6"
    by (rule ledger_sum_bound [OF ledger_okD(4) [OF assms(1)]])
      (use ledger_okD(5) [OF assms(1)] in \<open>auto simp: entry_ok_def NUMERIC_20_6_def\<close>)
  ultimately show ?thesis by simp
qed

lemma normalize_price: "subscription_ok sub \<Longrightarrow> sub_price sub < NUMERIC_20_6 \<Longrightarrow>
    normalize_amount (DecimalArg (Finite (sub_price sub))) = Inr (sub_price sub)"
  using micro.quantize_fixes_grid [of "sub_price sub"]
  by (auto simp: subscription_ok_def normalize_amount_def py_quantize_def NUMERIC_20_6_def MONEY_QUANT_def DECIMAL_PREC_def)

lemma charge_returns:
  assumes "ledger_ok db" "subscription_ok sub" "sub_price sub < NUMERIC_20_6"
    and "map_of (accounts db) (sub_account sub) = Some row" "posting (ledger db) (renewal_key pk d) = None"
  shows "\<exists>q t. charge_renewal pk sub d db = (Inr q, t)"
proof -
  have free: "find_entry (renewal_key pk d) (ledger db) = None" using assms(5) by (simp add: posting_def)
  have key: "renewal_key pk d \<noteq> []" by (simp add: renewal_key_def)
  have "balance row + signed (- 1) (sub_price sub) < NUMERIC_20_6"
    using balance_bound [OF assms(1,4)] assms(2) by (simp add: signed_def subscription_ok_def)
  then show ?thesis
    using apply_posts [OF free assms(4) key normalize_price [OF assms(2,3)] normalize_reference_enum, where sign = "- 1"]
      apply_insufficient [OF free assms(4) key normalize_price [OF assms(2,3)] normalize_reference_enum, where sign = "- 1"]
    by (cases "balance row + signed (- 1) (sub_price sub) < 0")
      (auto simp: charge_renewal_def debit_def txn_defs split: prod.splits)
qed


text \<open>The rows a subscription needs, prices that fit their columns, and no cycle left over from another date.\<close>

definition renewable :: "'x order_db_scheme \<Rightarrow> nat \<times> subscription \<Rightarrow> bool" where
  "renewable db r \<longleftrightarrow> joined db (snd r) \<and> sub_price (snd r) < NUMERIC_20_6 \<and>
     (\<forall>p. renewal_package db (snd r) = Some p \<longrightarrow>
        (\<exists>x. numeric_20_6 (price_usd p) = Inr x) \<and> (\<exists>y. nullable numeric_20_6 (net_price_usd p) = Inr y)) \<and>
     (\<forall>c \<in> unfinished_rows (renewal_cycles db). cyc_subscription (snd c) = fst r \<longrightarrow> cyc_date (snd c) = sub_next (snd r))"

lemma get_or_create_returns:
  assumes fresh: "\<forall>c \<in> unfinished_rows (renewal_cycles db). cyc_subscription (snd c) = pk \<longrightarrow> cyc_date (snd c) = d"
    and fits: "numeric_20_6 (price_usd p) = Inr x" "nullable numeric_20_6 (net_price_usd p) = Inr y"
  shows "\<exists>t c. get_or_create_renewal_cycle (renewal_cycles db) pk d p db = (Inr (), t) \<and>
     find_cycle pk d (renewal_cycles t) = Some c"
proof (cases "find_cycle pk d (renewal_cycles db)")
  case (Some c)
  then show ?thesis by (simp add: get_or_create_renewal_cycle_def ret_def)
next
  case None
  have "\<not> (\<exists>r \<in> set (renewal_cycles db). cyc_subscription (snd r) = pk \<and> unfinished (snd r))"
  proof
    assume "\<exists>r \<in> set (renewal_cycles db). cyc_subscription (snd r) = pk \<and> unfinished (snd r)"
    then obtain r where r: "r \<in> set (renewal_cycles db)" "cyc_subscription (snd r) = pk" "unfinished (snd r)" by blast
    with fresh have "cycle_pair r = (pk, d)" by (fastforce simp: unfinished_rows_def cycle_pair_def)
    with r None show False by (force simp: find_cycle_None)
  qed
  with None fits show ?thesis
    by (simp add: get_or_create_renewal_cycle_def catchE_def atomic_def bindE_def uuid4_def insert_cycle_def
        liftE_def getsE_def modifyE_def pending_cycle_def find_cycle_append) (auto simp: find_cycle_def)
qed

lemma ledger_ok_renewal [simp]:
  "ledger_ok (db\<lparr>subscriptions := subs\<rparr>) = ledger_ok db" "ledger_ok (db\<lparr>renewal_cycles := cs\<rparr>) = ledger_ok db"
  by (simp_all add: ledger_ok_def entry_ok_def account_ok_def)

lemma keeps_ledger_subscription [keeps_intros]: "keeps ledger_ok (save_subscription pk sub)"
  unfolding save_subscription_def by (intro keeps_intros) simp

lemma keeps_ledger_insert_cycle [keeps_intros]: "keeps ledger_ok (insert_cycle cpk cy)"
  unfolding insert_cycle_def by (intro keeps_intros) simp

lemma keeps_ledger_status [keeps_intros]: "keeps ledger_ok (save_cycle_status c st)"
  unfolding save_cycle_status_def by (intro keeps_intros) simp

lemma keeps_ledger_renew: "keeps ledger_ok (renew_one env as_of pk)"
proof -
  have "keeps ledger_ok (charge_renewal pk sub d)" for sub d
    unfolding charge_renewal_def
    by (rule keeps_catch, intro keeps_intros) (auto simp: keeps_def txn_defs split: exc.split credit_error.split)
  then have "keeps ledger_ok (renew_charged env pk sub account cycle d)" for sub account cycle d
    unfolding renew_charged_def settle_renewal_def pause_renewal_def
    by (rule keeps_bind) (auto intro!: keeps_intros split: sum.split)
  then show ?thesis
    unfolding renew_one_def renew_seen_def require_enabled_def get_or_create_renewal_cycle_def renew_locked_def
    by (intro keeps_intros)
qed

lemma renew_locked_returns:
  assumes ok: "renewal_ok db" "ledger_ok db" and d: "valid_date d"
    and cycle: "find_cycle pk d (renewal_cycles db) = Some c" "cyc_status (snd c) \<noteq> CycleRenewed"
    and sub: "map_of (subscriptions db) pk = Some sub" "locked_subscription pk db = Some (sub, account)"
      "sub_status sub = SubActive" "sub_next sub = d" "sub_price sub < NUMERIC_20_6"
    and env: "\<not> PARTNER_CHANNEL_ENABLED env" "valid_date (d + SUBSCRIPTION_PERIOD_DAYS)"
  shows "\<exists>outcome evs t. renew_locked env pk d db = (Inr (outcome, evs), t)"
proof -
  note c = conjunct1 [OF find_cycle_Some [OF cycle(1)]] conjunct2 [OF find_cycle_Some [OF cycle(1)]]
  have row: "map_of (renewal_cycles db) (fst c) = Some (snd c)"
    using c map_of_eq_Some_iff [OF renewal_okD(1) [OF ok(1)], of "fst c" "snd c"] by simp
  have free: "posting (ledger db) (renewal_key pk d) = None"
    using renewal_okD(6) [OF ok(1) d, of pk] renewed_at_cycle [OF ok(1) c] cycle(2) by blast
  have sok: "subscription_ok sub" by (rule renewal_okD(5) [OF ok(1) sub(1)])
  have account: "map_of (accounts db) (sub_account sub) = Some account"
    using sub(1,2) by (auto simp: locked_subscription_def split: option.splits if_splits)
  from charge_returns [OF ok(2) sok sub(5) account free] obtain q u where q: "charge_renewal pk sub d db = (Inr q, u)" by blast
  have "renewal_cycles u = renewal_cycles db"
    using charge_renewal_run [OF q] by (auto dest!: debit_frame split: sum.splits)
  then have "\<exists>out t. renew_charged env pk sub account c d db = (Inr out, t)"
    using q row cycle(2) env
    by (cases q) (auto simp: renew_charged_def pause_renewal_def settle_renewal_def save_cycle_status_def
        save_subscription_def txn_defs add_days_def build_source_id_def accrue_def)
  then show ?thesis
    using cycle sub c by (auto simp: renew_locked_def txn_defs cycle_pair_def)
qed


lemma renew_one_returns:
  assumes ok: "renewal_ok db" "ledger_ok db" and sub: "map_of (subscriptions db) pk = Some sub" "is_due today sub"
    and fits: "renewable db (pk, sub)" and env: "BILLING_ENABLED env" "SUBSCRIPTIONS_ENABLED env"
      "\<not> PARTNER_CHANNEL_ENABLED env" "today + SUBSCRIPTION_PERIOD_DAYS \<le> MAXORDINAL"
  shows "\<exists>outcome t. renew_one env (Some today) pk db = (Inr outcome, t)"
proof -
  let ?d = "sub_next sub"
  have d: "valid_date ?d" "valid_date (?d + SUBSCRIPTION_PERIOD_DAYS)"
    using renewal_okD(5) [OF ok(1) sub(1)] sub(2) env(4)
    by (auto simp: subscription_ok_def valid_date_def is_due_def SUBSCRIPTION_PERIOD_DAYS_def)
  obtain p where p: "renewal_package db sub = Some p" using fits by (auto simp: renewable_def joined_def)
  with fits obtain x y where xy: "numeric_20_6 (price_usd p) = Inr x" "nullable numeric_20_6 (net_price_usd p) = Inr y"
    by (auto simp: renewable_def)
  obtain u c where u: "get_or_create_renewal_cycle (renewal_cycles db) pk ?d p db = (Inr (), u)"
    and c: "find_cycle pk ?d (renewal_cycles u) = Some c"
    using get_or_create_returns [OF _ xy, of db pk ?d] fits by (force simp: renewable_def)
  from get_or_create_run [OF u ok(1) d(1)] have same: "renewal_ok u" "subscriptions u = subscriptions db"
      "renewed_at pk ?d (renewal_cycles u) = renewed_at pk ?d (renewal_cycles db)" by auto
  have "keeps ledger_ok (get_or_create_renewal_cycle (renewal_cycles db) pk ?d p)"
    "keeps (joins_same db) (get_or_create_renewal_cycle (renewal_cycles db) pk ?d p)"
    unfolding get_or_create_renewal_cycle_def by (intro keeps_intros)+
  from keepsD [OF this(1) ok(2) u] keepsD [OF this(2) _ u] have frames: "ledger_ok u" "joins_same db u"
    by (simp_all add: joins_same_def)
  obtain account where account: "locked_subscription pk u = Some (sub, account)"
    using joined_locked [of u pk sub] joined_same [OF frames(2)] fits sub(1) same(2) by (auto simp: renewable_def)
  have "\<not> renewed_at pk ?d (renewal_cycles u)"
    using renewal_okD(4) [OF ok(1)] sub(1) unfolding same(3) by (fastforce simp: renewed_at_def row_renewal_def cycle_pair_def)
  then have "cyc_status (snd c) \<noteq> CycleRenewed"
    using renewed_at_cycle [OF same(1)] find_cycle_Some [OF c] by blast
  then obtain outcome evs v where "renew_locked env pk ?d u = (Inr (outcome, evs), v)"
    using renew_locked_returns [OF same(1) frames(1) d(1) c _ _ account, where env = env] sub same(2) fits env(3) d(2)
    by (auto simp: is_due_def renewable_def)
  then show ?thesis
    using u p sub env by (auto simp: renew_one_def renew_seen_def require_enabled_def txn_defs is_due_def publish_def)
qed

lemma renewable_after:
  assumes run: "renew_one env (Some today) pk db = (Inr outcome, t)" and ok: "renewal_ok db"
    and sub: "map_of (subscriptions db) pk = Some sub" "is_due today sub" and fits: "renewable db (pk, sub)"
  shows "\<And>p s. p \<noteq> pk \<Longrightarrow> renewable db (p, s) \<Longrightarrow> renewable t (p, s)"
    and "\<And>s. map_of (subscriptions t) pk = Some s \<Longrightarrow> sub_status s = SubActive \<Longrightarrow> renewable t (pk, s)"
proof -
  have j: "joined db sub" using fits by (simp add: renewable_def)
  note one = renew_one_due [OF run ok sub j]
  have joins: "joins_same db t" using one by blast
  then have package: "renewal_package t s = renewal_package db s" for s by (simp add: joins_same_def renewal_package_def split: option.split)
  have within: "cycles_within pk (sub_next sub) db t"
  proof -
    have base: "cycles_within pk (sub_next sub) db db" by (simp add: cycles_within_def)
    have "renew_seen (subscriptions db) (renewal_cycles db) env (Some today) pk db = (Inr outcome, t)"
      using run by (simp add: renew_one_def txn_defs)
    then show ?thesis
    proof (cases rule: renew_seen_cases)
      case nothing
      with base show ?thesis by simp
    next
      case (finished current p u outcome' evs v)
      with sub(1) have cur: "current = sub" by simp
      have "keeps (cycles_within pk (sub_next sub) db) (get_or_create_renewal_cycle (renewal_cycles db) pk (sub_next sub) p)"
        unfolding get_or_create_renewal_cycle_def by (intro keeps_intros)
      from keepsD [OF this base finished(3) [unfolded cur]] have "cycles_within pk (sub_next sub) db u" .
      from keepsD [OF keeps_within_locked this finished(4) [unfolded cur]] show ?thesis
        by (simp add: finished(5) cycles_within_def)
    qed simp_all
  qed
  show "renewable t (p, s)" if "p \<noteq> pk" "renewable db (p, s)" for p s
    using that within joined_same [OF joins] unfolding renewable_def package
    by (auto simp: cycles_within_def unfinished_rows_def cycle_pair_def)
  show "renewable t (pk, s)" if s: "map_of (subscriptions t) pk = Some s" "sub_status s = SubActive" for s
  proof -
    from one s have moved: "s = sub\<lparr>sub_next := sub_next sub + SUBSCRIPTION_PERIOD_DAYS\<rparr>" by (auto simp: processed_def)
    have "\<not> (c \<in> unfinished_rows (renewal_cycles t) \<and> cyc_subscription (snd c) = pk)" for c
    proof
      assume c: "c \<in> unfinished_rows (renewal_cycles t) \<and> cyc_subscription (snd c) = pk"
      then have "cycle_pair c = (pk, sub_next sub)"
        using within fits by (cases "c \<in> set (renewal_cycles db)")
          (auto simp: cycles_within_def unfinished_rows_def renewable_def cycle_pair_def simp del: split_paired_All)
      moreover have "renewed_at pk (sub_next sub) (renewal_cycles t)" using one s by auto
      ultimately show False using renewed_at_cycle [of t c] one c by (auto simp: unfinished_rows_def unfinished_iff)
    qed
    then show ?thesis
      using fits joined_same [OF joins] unfolding renewable_def package moved
      by (auto simp: joined_def renewal_package_def split: option.splits)
  qed
qed


text \<open>A day's batch, subscription by subscription.\<close>

definition day_ready :: "env \<Rightarrow> int \<Rightarrow> 'x order_db_scheme \<Rightarrow> bool" where
  "day_ready env today db \<longleftrightarrow> renewal_ok db \<and> ledger_ok db \<and>
     (\<forall>pk sub. map_of (subscriptions db) pk = Some sub \<longrightarrow> sub_status sub = SubActive \<longrightarrow> renewable db (pk, sub)) \<and>
     BILLING_ENABLED env \<and> SUBSCRIPTIONS_ENABLED env \<and> \<not> PARTNER_CHANNEL_ENABLED env \<and>
     today + SUBSCRIPTION_PERIOD_DAYS \<le> MAXORDINAL"

lemma day_ready_step:
  assumes ready: "day_ready env today db" and sub: "map_of (subscriptions db) pk = Some sub" "is_due today sub"
  obtains outcome t where "renew_one env (Some today) pk db = (Inr outcome, t)" "outcome \<noteq> Skipped"
    "day_ready env today t" "processed sub (map_of (subscriptions t) pk)"
    "\<And>p. p \<noteq> pk \<Longrightarrow> map_of (subscriptions t) p = map_of (subscriptions db) p"
proof -
  have fits: "renewable db (pk, sub)" using ready sub by (auto simp: day_ready_def is_due_def)
  obtain outcome t where run: "renew_one env (Some today) pk db = (Inr outcome, t)"
    using renew_one_returns [of db pk sub today env] fits ready sub unfolding day_ready_def by blast
  have ok: "renewal_ok db" "ledger_ok db" using ready by (simp_all add: day_ready_def)
  have one: "outcome \<noteq> Skipped" "processed sub (map_of (subscriptions t) pk)" "renewal_ok t"
    "\<And>p. p \<noteq> pk \<Longrightarrow> map_of (subscriptions t) p = map_of (subscriptions db) p"
    using renew_one_due [OF run ok(1) sub] fits by (simp_all add: renewable_def)
  have "renewable t (p, s)" if "map_of (subscriptions t) p = Some s" "sub_status s = SubActive" for p s
    using that renewable_after [OF run ok(1) sub fits] one(4) ready by (cases "p = pk") (auto simp: day_ready_def)
  moreover have "ledger_ok t" by (rule keepsD [OF keeps_ledger_renew ok(2) run])
  ultimately have "day_ready env today t" using one(3) ready by (simp add: day_ready_def)
  then show thesis by (rule that [OF run one(1) _ one(2,4)])
qed

lemma renew_each_run:
  assumes "day_ready env today db" "distinct pks"
    and "\<And>pk. pk \<in> set pks \<Longrightarrow> \<exists>sub. map_of (subscriptions db) pk = Some sub \<and> is_due today sub"
  shows "\<exists>stats t. renew_each env today pks s db = (Inr stats, t) \<and> day_ready env today t \<and>
     st_skipped stats = st_skipped s \<and>
     st_renewed stats + st_paused stats = st_renewed s + st_paused s + length pks \<and>
     (\<forall>pk sub. pk \<in> set pks \<longrightarrow> map_of (subscriptions db) pk = Some sub \<longrightarrow> processed sub (map_of (subscriptions t) pk)) \<and>
     (\<forall>p. p \<notin> set pks \<longrightarrow> map_of (subscriptions t) p = map_of (subscriptions db) p)"
  using assms
proof (induction pks arbitrary: db s)
  case Nil
  then show ?case by (simp add: ret_def)
next
  case (Cons pk pks)
  from Cons.prems(3) [of pk] obtain sub where sub: "map_of (subscriptions db) pk = Some sub" "is_due today sub" by auto
  obtain outcome u where one: "renew_one env (Some today) pk db = (Inr outcome, u)" "outcome \<noteq> Skipped"
    "day_ready env today u" "processed sub (map_of (subscriptions u) pk)"
    "\<And>p. p \<noteq> pk \<Longrightarrow> map_of (subscriptions u) p = map_of (subscriptions db) p"
    by (rule day_ready_step [OF Cons.prems(1) sub]) (rule that)
  have other: "map_of (subscriptions u) p = map_of (subscriptions db) p" if "p \<in> set pks" for p
    using Cons.prems(2) by (intro one(5)) (use that in auto)
  obtain stats t where rest: "renew_each env today pks (count_result outcome s) u = (Inr stats, t)" "day_ready env today t"
    "st_skipped stats = st_skipped (count_result outcome s)"
    "st_renewed stats + st_paused stats = st_renewed (count_result outcome s) + st_paused (count_result outcome s) + length pks"
    "\<forall>pk sub. pk \<in> set pks \<longrightarrow> map_of (subscriptions u) pk = Some sub \<longrightarrow> processed sub (map_of (subscriptions t) pk)"
    "\<forall>p. p \<notin> set pks \<longrightarrow> map_of (subscriptions t) p = map_of (subscriptions u) p"
    using Cons.IH [OF one(3), of "count_result outcome s"] Cons.prems(2,3) other by auto
  have "renew_each env today (pk # pks) s db = (Inr stats, t)" using one(1) rest(1) by (simp add: bindE_def)
  moreover have "pk \<notin> set pks" using Cons.prems(2) by simp
  ultimately show ?case
    using rest one(2,4,5) sub(1) other Cons.prems(2) by (cases outcome) auto
qed

lemma due_ids_set: "set (due_ids today rows) = {pk. \<exists>sub. (pk, sub) \<in> set rows \<and> is_due today sub}"
  by (force simp: due_ids_def)

lemma distinct_due_ids:
  assumes "distinct (map fst rows)"
  shows "distinct (due_ids today rows)"
  using assms distinct_map_filter [OF assms, of "\<lambda>r. is_due today (snd r)"]
  by (auto simp: due_ids_def distinct_map inj_on_def) force

lemma renew_due_run:
  assumes "day_ready env today db" "distinct (map fst (subscriptions db))"
  shows "\<exists>stats t. renew_due env (Some today) db = (Inr stats, t) \<and> day_ready env today t \<and> st_skipped stats = 0 \<and>
     st_renewed stats + st_paused stats = length (due_ids today (subscriptions db)) \<and>
     (\<forall>pk sub. map_of (subscriptions db) pk = Some sub \<longrightarrow>
        (if is_due today sub then processed sub (map_of (subscriptions t) pk) else map_of (subscriptions t) pk = Some sub)) \<and>
     (\<forall>pk. map_of (subscriptions db) pk = None \<longrightarrow> map_of (subscriptions t) pk = None)"
proof -
  let ?ids = "due_ids today (subscriptions db)"
  have in_ids: "pk \<in> set ?ids \<longleftrightarrow> (\<exists>sub. map_of (subscriptions db) pk = Some sub \<and> is_due today sub)" for pk
    using map_of_eq_Some_iff [OF assms(2)] by (auto simp: due_ids_set)
  obtain stats t where t: "renew_each env today ?ids \<lparr>st_renewed = 0, st_paused = 0, st_skipped = 0\<rparr> db = (Inr stats, t)"
      "day_ready env today t" "st_skipped stats = 0" "st_renewed stats + st_paused stats = length ?ids"
      "\<forall>pk sub. pk \<in> set ?ids \<longrightarrow> map_of (subscriptions db) pk = Some sub \<longrightarrow> processed sub (map_of (subscriptions t) pk)"
      "\<forall>p. p \<notin> set ?ids \<longrightarrow> map_of (subscriptions t) p = map_of (subscriptions db) p"
    using renew_each_run [OF assms(1) distinct_due_ids [OF assms(2), of today], of "\<lparr>st_renewed = 0, st_paused = 0, st_skipped = 0\<rparr>"]
      in_ids by auto
  have "renew_due env (Some today) db = (Inr stats, t)"
    using t(1) assms(1) by (simp add: renew_due_def require_enabled_def day_ready_def txn_defs)
  with t in_ids show ?thesis by auto
qed

text \<open>C20. When nothing in the tables is in the way, the day's batch returns, skips nothing, and every subscription
  that was due has either moved 30 days on or is paused; no other subscription is changed.\<close>

theorem due_subscriptions_processed:
  assumes "day_ready env today (db :: order_db)" "distinct (map fst (subscriptions db))"
  shows "\<exists>stats t. renew_due env (Some today) db = (Inr stats, t) \<and> day_ready env today t \<and> st_skipped stats = 0 \<and>
     st_renewed stats + st_paused stats = length (due_ids today (subscriptions db)) \<and>
     (\<forall>pk sub. map_of (subscriptions db) pk = Some sub \<longrightarrow>
        (if is_due today sub then processed sub (map_of (subscriptions t) pk) else map_of (subscriptions t) pk = Some sub))"
  using renew_due_run [OF assms] by blast

text \<open>How many periods a subscription is behind.\<close>

definition backlog :: "int \<Rightarrow> subscription \<Rightarrow> nat" where
  "backlog today sub = (if is_due today sub then nat ((today - sub_next sub) div SUBSCRIPTION_PERIOD_DAYS) + 1 else 0)"

fun renew_repeatedly :: "nat \<Rightarrow> env \<Rightarrow> int \<Rightarrow> ('x, unit) order_txn" where
  "renew_repeatedly 0 env today = ret ()"
| "renew_repeatedly (Suc n) env today = bindE (renew_due env (Some today)) (\<lambda>_. renew_repeatedly n env today)"

lemma processed_backlog:
  assumes "is_due today sub" "processed sub (Some sub')"
  shows "backlog today sub' < backlog today sub"
proof (cases "is_due today sub'")
  case True
  with assms have "sub' = sub\<lparr>sub_next := sub_next sub + SUBSCRIPTION_PERIOD_DAYS\<rparr>"
    by (auto simp: processed_def is_due_def)
  moreover have "(today - (sub_next sub + 30)) div 30 = (today - sub_next sub) div 30 - 1"
    by (simp add: diff_diff_eq [symmetric])
  ultimately show ?thesis using True assms(1)
    by (auto simp: backlog_def is_due_def SUBSCRIPTION_PERIOD_DAYS_def)
qed (use assms in \<open>simp add: backlog_def\<close>)


definition one_row_each :: "'x order_db_scheme \<Rightarrow> bool" where
  "one_row_each db \<longleftrightarrow> distinct (map fst (subscriptions db))"

lemma keeps_one_row_apply [keeps_intros]: "keeps one_row_each (apply_credit a m rt rid key sign)"
proof (rule keepsI)
  fix s r t
  assume "one_row_each s" "apply_credit a m rt rid key sign s = (r, t)"
  then show "one_row_each t" using apply_frame [of a m rt rid key sign s r t] by (auto simp: one_row_each_def)
qed

lemma keeps_one_row_rows [keeps_intros]:
  "keeps one_row_each uuid4" "keeps one_row_each (publish evs)" "keeps one_row_each (save_subscription pk sub)"
  by (simp_all add: keeps_def uuid4_def publish_def save_subscription_def txn_defs one_row_each_def distinct_update)

lemma keeps_one_row_cycle [keeps_intros]: "keeps one_row_each (insert_cycle cpk cy)"
  unfolding insert_cycle_def by (intro keeps_intros) (simp add: one_row_each_def)

lemma keeps_one_row_status [keeps_intros]: "keeps one_row_each (save_cycle_status c st)"
  unfolding save_cycle_status_def by (intro keeps_intros) (simp add: one_row_each_def)

lemma keeps_one_row_accrue [keeps_intros]: "keeps one_row_each (accrue env st sid lp np customer)"
  unfolding accrue_def accrue_share_def insert_accrual_def credit_def Let_def
  by (intro keeps_intros) (simp add: one_row_each_def)

lemma keeps_one_row_due: "keeps one_row_each (renew_due env as_of)"
proof -
  have "keeps one_row_each (charge_renewal pk sub d)" for pk sub d
    unfolding charge_renewal_def debit_def
    by (rule keeps_catch, intro keeps_intros) (auto simp: keeps_def txn_defs split: exc.split credit_error.split)
  then have "keeps one_row_each (renew_charged env pk sub account cycle d)" for pk sub account cycle d
    unfolding renew_charged_def settle_renewal_def pause_renewal_def
    by (rule keeps_bind) (auto intro!: keeps_intros split: sum.split)
  then have one: "keeps one_row_each (renew_one env as_of pk)" for as_of pk
    unfolding renew_one_def renew_seen_def require_enabled_def get_or_create_renewal_cycle_def renew_locked_def
    by (intro keeps_intros)
  have "keeps one_row_each (renew_each env today pks s)" for today pks s
    by (induction pks arbitrary: s) (auto intro!: keeps_intros one)
  then show ?thesis unfolding renew_due_def require_enabled_def by (intro keeps_intros)
qed

text \<open>C21. A subscription that is several periods behind catches up, where nothing stands in the batch's way:
  the subscription books are consistent, billing and subscriptions are on, the partner channel is off,
  the day is not at the end of the calendar, and every active subscription has its rows, prices that
  fit their columns and no unfinished cycle of another date (one such cycle stops the whole batch).
  Then the batch, run for one day as many times as the longest backlog, returns every time and leaves
  nothing due.\<close>

theorem renewals_catch_up:
  assumes "day_ready env today (db :: order_db)" "distinct (map fst (subscriptions db))"
    and "\<forall>(pk, sub) \<in> set (subscriptions db). backlog today sub \<le> n"
  shows "\<exists>t. renew_repeatedly n env today db = (Inr (), t) \<and> due_ids today (subscriptions t) = []"
  using assms
proof (induction n arbitrary: db)
  case 0
  then have "set (due_ids today (subscriptions db)) = {}" by (auto simp: due_ids_set backlog_def)
  then show ?case by (simp add: ret_def)
next
  case (Suc n)
  obtain stats u where u: "renew_due env (Some today) db = (Inr stats, u)" "day_ready env today u"
    and rows: "\<forall>pk sub. map_of (subscriptions db) pk = Some sub \<longrightarrow>
        (if is_due today sub then processed sub (map_of (subscriptions u) pk) else map_of (subscriptions u) pk = Some sub)"
    and none: "\<forall>pk. map_of (subscriptions db) pk = None \<longrightarrow> map_of (subscriptions u) pk = None"
    using renew_due_run [OF Suc.prems(1,2)] by auto
  have "one_row_each u" using keepsD [OF keeps_one_row_due _ u(1)] Suc.prems(2) by (simp add: one_row_each_def)
  then have distinct: "distinct (map fst (subscriptions u))" by (simp add: one_row_each_def)
  have "backlog today s \<le> n" if s: "(pk, s) \<in> set (subscriptions u)" for pk s
  proof -
    have now: "map_of (subscriptions u) pk = Some s" using s distinct by simp
    with none obtain sub where sub: "map_of (subscriptions db) pk = Some sub" by fastforce
    then have "backlog today sub \<le> Suc n" using Suc.prems(3) by (auto dest: map_of_SomeD)
    show ?thesis
    proof (cases "is_due today sub")
      case True
      with rows sub now have "processed sub (Some s)" by force
      from processed_backlog [OF True this] \<open>backlog today sub \<le> Suc n\<close> show ?thesis by simp
    next
      case False
      with rows sub now have "s = sub" by force
      with False show ?thesis by (simp add: backlog_def)
    qed
  qed
  then obtain t where "renew_repeatedly n env today u = (Inr (), t)" "due_ids today (subscriptions t) = []"
    using Suc.IH [OF u(2) distinct] by auto
  with u(1) show ?case by (simp add: bindE_def)
qed


text \<open>C22. A cycle that was left unfinished at another date blocks the batch: when the first due subscription has one
  (it was paused, and made active again with a new date), \<^verbatim>\<open>renew_due\<close> raises before any renewal and changes
  nothing, so nobody's subscription is renewed that day, nor on any later one.\<close>

theorem leftover_cycle_blocks_batch:
  assumes "BILLING_ENABLED env" "SUBSCRIPTIONS_ENABLED env" "due_ids today (subscriptions db) = pk # pks"
    and "map_of (subscriptions db) pk = Some sub" "is_due today sub" "joined db sub"
    and "c \<in> set (renewal_cycles db)" "cyc_subscription (snd c) = pk" "cyc_status (snd c) \<noteq> CycleRenewed"
    and "find_cycle pk (sub_next sub) (renewal_cycles db) = None"
  shows "\<exists>e. renew_due env (Some today) (db :: order_db) = (Inl e, db)"
proof -
  obtain p where p: "renewal_package db sub = Some p" using assms(6) by (auto simp: joined_def)
  have "unfinished (pending_cycle pk (sub_next sub) p)" by (simp add: unfinished_def pending_cycle_def)
  moreover have "\<exists>r \<in> set (renewal_cycles db). cyc_subscription (snd r) = pk \<and> unfinished (snd r)"
    using assms(7-9) by (auto simp: unfinished_iff)
  ultimately have "\<exists>e. get_or_create_renewal_cycle (renewal_cycles db) pk (sub_next sub) p db = (Inl e, db)"
    using assms(10) unfolding get_or_create_renewal_cycle_def insert_cycle_def
    by (auto simp: txn_defs uuid4_def pending_cycle_def split: sum.splits)
  then show ?thesis
    using assms(1-5) p by (auto simp: renew_due_def renew_one_def renew_seen_def require_enabled_def txn_defs is_due_def)
qed

section \<open>An example\<close>

text \<open>Account 2 holds 50: a subscription for 20 that is renewed, and one for 40 that is paused.\<close>

definition demo_order :: order_row where
  "demo_order = \<lparr>ord_account = 2, ord_package = 5, ord_status = OFulfilled, ord_external = [], ord_ref = [], ord_key = None,
     ord_product = product_snapshot_kwargs (\<lambda>_. []) demo_package, ord_pricing = no_pricing, ord_created = 0, ord_updated = 0\<rparr>"

definition demo_sub :: "rat \<Rightarrow> int \<Rightarrow> subscription" where
  "demo_sub price d = \<lparr>sub_account = 2, sub_esim = 7, sub_price = price, sub_next = d, sub_status = SubActive\<rparr>"

definition demo_subs_db :: order_db where
  "demo_subs_db = demo_order_db\<lparr>packages := [(5, demo_package)], orders := [(1, demo_order)],
     subscriptions := [(5, demo_sub 20 738946), (6, demo_sub 40 738946)]\<rparr>"

lemma demo_subs_simps [simp]:
  "subscriptions demo_subs_db = [(5, demo_sub 20 738946), (6, demo_sub 40 738946)]" "renewal_cycles demo_subs_db = []"
  "packages demo_subs_db = [(5, demo_package)]" "orders demo_subs_db = [(1, demo_order)]" "esims demo_subs_db = [(7, demo_esim 1)]"
  "accounts demo_subs_db = accounts demo_partner_db" "ledger demo_subs_db = ledger demo_partner_db" "next_uuid demo_subs_db = 3"
  by (simp_all add: demo_subs_db_def demo_order_db_money) (simp add: demo_order_db_def org_db.extend_def)

lemma demo_subs_ok: "renewal_ok demo_subs_db" "ledger_ok demo_subs_db"
proof -
  have "on_grid MONEY_QUANT 20" "on_grid MONEY_QUANT 40" by (simp_all add: on_grid_def MONEY_QUANT_def)
  then show "renewal_ok demo_subs_db"
    by (simp add: renewal_ok_def demo_sub_def subscription_ok_def valid_date_def MAXORDINAL_def unfinished_rows_def
        renewed_at_def new_entry_def renewal_key_def)
  have "ledger_ok demo_partner_db" using demo_partner_ok by (simp add: partner_ok_def)
  then show "ledger_ok demo_subs_db" by (simp add: ledger_ok_def entry_ok_def account_ok_def)
qed

lemma demo_joined: "joined demo_subs_db (demo_sub x d)" "renewal_package demo_subs_db (demo_sub x d) = Some demo_package"
  by (simp_all add: joined_def renewal_package_def demo_sub_def demo_esim_def demo_order_def)

lemma demo_ready: "day_ready demo_shop_env 738946 demo_subs_db"
  using demo_subs_ok demo_joined
  by (auto simp: day_ready_def renewable_def unfinished_rows_def demo_shop_env_def demo_env_def MAXORDINAL_def
      SUBSCRIPTION_PERIOD_DAYS_def demo_package_def numeric_20_6_def nullable_def NUMERIC_20_6_def quantize_half_up_def
      MONEY_QUANT_def Let_def demo_sub_def)

theorem renewal_charged_once_witness:
  "\<exists>outcome t. renew_seen (subscriptions demo_subs_db) [] demo_shop_env (Some 738946) 5 demo_subs_db = (Inr outcome, t) \<and>
     renewal_ok t \<and> outcome \<noteq> Skipped"
proof -
  have due: "map_of (subscriptions demo_subs_db) 5 = Some (demo_sub 20 738946)" "is_due 738946 (demo_sub 20 738946)"
    by (simp_all add: is_due_def demo_sub_def)
  obtain outcome t where "renew_one demo_shop_env (Some 738946) 5 demo_subs_db = (Inr outcome, t)" "outcome \<noteq> Skipped"
    by (rule day_ready_step [OF demo_ready due]) (rule that)
  then have "renew_seen (subscriptions demo_subs_db) [] demo_shop_env (Some 738946) 5 demo_subs_db = (Inr outcome, t)" "outcome \<noteq> Skipped"
    by (simp_all add: renew_one_def txn_defs)
  with renewal_charged_once [OF this(1) demo_subs_ok(1)] show ?thesis
    by (auto simp: demo_sub_def valid_date_def MAXORDINAL_def)
qed

theorem due_subscriptions_processed_witness:
  "\<exists>stats t. renew_due demo_shop_env (Some 738946) demo_subs_db = (Inr stats, t) \<and> st_skipped stats = 0 \<and>
     st_renewed stats + st_paused stats = 2"
proof -
  have "length (due_ids 738946 (subscriptions demo_subs_db)) = 2"
    by (simp add: due_ids_def is_due_def demo_sub_def)
  then show ?thesis using due_subscriptions_processed [OF demo_ready] by fastforce
qed

theorem renewals_catch_up_witness:
  "\<exists>t. renew_repeatedly 1 demo_shop_env 738946 demo_subs_db = (Inr (), t) \<and> due_ids 738946 (subscriptions t) = []"
  by (rule renewals_catch_up [OF demo_ready]) (simp_all add: backlog_def is_due_def demo_sub_def SUBSCRIPTION_PERIOD_DAYS_def)

theorem leftover_cycle_blocks_batch_witness:
  "\<exists>e. renew_due demo_shop_env (Some 738946) (demo_subs_db\<lparr>renewal_cycles := [(2, (pending_cycle 5 738900 demo_package)\<lparr>cyc_status := CyclePaused\<rparr>)]\<rparr>) =
     (Inl e, demo_subs_db\<lparr>renewal_cycles := [(2, (pending_cycle 5 738900 demo_package)\<lparr>cyc_status := CyclePaused\<rparr>)]\<rparr>)"
  by (rule leftover_cycle_blocks_batch [where pk = 5 and pks = "[6]" and sub = "demo_sub 20 738946" and
        c = "(2, (pending_cycle 5 738900 demo_package)\<lparr>cyc_status := CyclePaused\<rparr>)"])
    (use demo_joined in \<open>simp_all add: demo_shop_env_def demo_env_def due_ids_def is_due_def demo_sub_def pending_cycle_def find_cycle_def
       joined_def renewal_package_def demo_order_def demo_esim_def\<close>)

end
