(* ===== verification/Transfers.thy ===== *)
theory Transfers
  imports Subscriptions
begin

text \<open>
  The auto top-up policy row (\<^verbatim>\<open>EsimAutoTopupPolicy\<close> of \<^verbatim>\<open>esims/models.py\<close>) and the transfer of an eSIM to
  another user's personal account, \<^verbatim>\<open>esims/services/inventory_transfer.py\<close>. The column \<^verbatim>\<open>updated_at\<close> of a
  policy is not kept.
\<close>

definition update_policy :: "nat \<Rightarrow> (topup_policy \<Rightarrow> topup_policy) \<Rightarrow> ('x, unit) order_txn" where
  "update_policy pk f =
     bindE (getsE (\<lambda>db. map_of (policies db) pk)) (\<lambda>row.
     bindE (get_or_raise (EPy DatabaseError) row) (\<lambda>r.
     modifyE (\<lambda>db. db\<lparr>policies := AList.update pk (f r) (policies db)\<rparr>)))"

text \<open>A policy belongs to one eSIM: \<^verbatim>\<open>filter(esim_id=...).first()\<close>.\<close>

definition policy_of :: "nat \<Rightarrow> (nat \<times> topup_policy) list \<Rightarrow> (nat \<times> topup_policy) option" where
  "policy_of esim rows = find (\<lambda>r. pol_esim (snd r) = esim) rows"

definition fulfilling :: "nat \<Rightarrow> (nat \<times> topup_row) list \<Rightarrow> bool" where
  "fulfilling esim rows \<longleftrightarrow> (\<exists>r \<in> set rows. tu_esim (snd r) = esim \<and> tu_status (snd r) = TFulfilling)"

record transfer_result =
  tr_old :: nat
  tr_new :: nat
  tr_transferred :: bool
  tr_disabled :: bool

definition personal_account_of :: "nat \<Rightarrow> 'x credit_db_scheme \<Rightarrow> (nat \<times> account) option" where
  "personal_account_of user db =
     (case account_of_user user (accounts db) of
        None \<Rightarrow> None
      | Some a \<Rightarrow> if acc_kind (snd a) = PERSONAL then Some a else None)"

definition disable_policy :: "nat \<Rightarrow> topup_policy \<Rightarrow> topup_policy" where
  "disable_policy account p =
     p\<lparr>pol_account := account, pol_enabled := False, pol_status := PDisabled, pol_reason := ManualPause,
       pol_version := pol_version p + 1\<rparr>"

definition move_esim :: "nat \<Rightarrow> nat \<Rightarrow> nat \<Rightarrow> ('x, bool) order_txn" where
  "move_esim pk user account =
     bindE (getsE (\<lambda>db. policy_of pk (policies db))) (\<lambda>policy.
     bindE (getsE clock) (\<lambda>now.
     thenE (update_esim pk (\<lambda>e. e\<lparr>es_account := account, es_user := user, es_assigned := Some user, es_updated := now\<rparr>))
     (case policy of
        None \<Rightarrow> ret False
      | Some p \<Rightarrow> thenE (update_policy (fst p) (disable_policy account)) (ret True))))"

definition transfer_esim_inventory :: "nat \<Rightarrow> nat option \<Rightarrow> ('x, transfer_result) order_txn" where
  "transfer_esim_inventory pk destination =
     (case destination of
        None \<Rightarrow> raiseE (EEsim EsimTransferDestinationError)
      | Some user \<Rightarrow>
          atomic (
            bindE (getsE (\<lambda>db. map_of (esims db) pk)) (\<lambda>row.
            bindE (get_or_raise (EPy ObjectDoesNotExist) row) (\<lambda>esim.
            bindE (getsE (\<lambda>db. map_of (users db) user)) (\<lambda>u.
            bindE (get_or_raise (EEsim EsimTransferDestinationError) u) (\<lambda>_.
            bindE (getsE (personal_account_of user)) (\<lambda>a.
            bindE (get_or_raise (EEsim EsimTransferDestinationError) a) (\<lambda>account.
            if es_account esim = fst account
            then ret \<lparr>tr_old = es_account esim, tr_new = fst account, tr_transferred = False, tr_disabled = False\<rparr>
            else
              bindE (getsE (\<lambda>db. fulfilling pk (topups db))) (\<lambda>busy.
              if busy then raiseE (EEsim EsimTransferInProgressError)
              else
                bindE (move_esim pk user (fst account)) (\<lambda>disabled.
                ret \<lparr>tr_old = es_account esim, tr_new = fst account, tr_transferred = True, tr_disabled = disabled\<rparr>))))))))))"


section \<open>A transfer moves the eSIM and stops its policy\<close>

lemma policy_of_update:
  assumes "policy_of e rows = Some (pk, p)" "pol_esim p' = e"
  shows "policy_of e (AList.update pk p' rows) = Some (pk, p')"
  using assms by (induction rows) (auto simp: policy_of_def split: if_splits)

lemma policy_of_row: "policy_of e rows = Some (pk, p) \<Longrightarrow> (pk, p) \<in> set rows \<and> pol_esim p = e"
  by (auto simp: policy_of_def dest: find_in)

lemma update_policy_run: "map_of (policies db) pk = Some p \<Longrightarrow>
    update_policy pk f db = (Inr (), db\<lparr>policies := AList.update pk (f p) (policies db)\<rparr>)"
  by (simp add: update_policy_def txn_defs)

lemma move_esim_run:
  assumes "move_esim pk user a db = (Inr disabled, t)" "map_of (esims db) pk = Some e"
    and "distinct (map fst (policies db))"
  shows "t = db\<lparr>esims := AList.update pk (e\<lparr>es_account := a, es_user := user, es_assigned := Some user, es_updated := clock db\<rparr>) (esims db),
       policies := (case policy_of pk (policies db) of None \<Rightarrow> policies db
         | Some (k, p) \<Rightarrow> AList.update k (disable_policy a p) (policies db))\<rparr> \<and>
    disabled = (policy_of pk (policies db) \<noteq> None)"
proof (cases "policy_of pk (policies db)")
  case None
  with assms show ?thesis by (auto simp: move_esim_def combinators_ok update_esim_run ret_def)
next
  case (Some r)
  obtain k p where r: "r = (k, p)" by (cases r)
  with Some have row: "map_of (policies db) k = Some p"
    using policy_of_row [of pk "policies db" k p] assms(3) by auto
  let ?u = "db\<lparr>esims := AList.update pk (e\<lparr>es_account := a, es_user := user, es_assigned := Some user, es_updated := clock db\<rparr>) (esims db)\<rparr>"
  show ?thesis
    using assms(1,2) Some r row update_policy_run [of ?u k p "disable_policy a"]
    by (auto simp: move_esim_def combinators_ok update_esim_run ret_def)
qed

text \<open>C23. A transfer that raises changes nothing. One that returns names an existing user with a personal
  account. If that account owns the eSIM already, nothing changes. Otherwise no top-up of the eSIM was
  in progress, and exactly two rows change: the eSIM's owner, user and assignment become those of the
  destination, and the eSIM's auto top-up policy, where there is one, is disabled, paused by hand and
  pointed at the new account with the next version. Every other eSIM, policy and table, the money
  included, is as it was. Repeating the transfer changes nothing.\<close>

theorem transfer_moves_ownership:
  assumes "transfer_esim_inventory pk destination (db :: order_db) = (r, t)" "distinct (map fst (policies db))"
  shows "case r of
      Inl x \<Rightarrow> t = db
    | Inr result \<Rightarrow>
        (\<exists>user u acc e. destination = Some user \<and> map_of (users db) user = Some u \<and>
           personal_account_of user db = Some (tr_new result, acc) \<and>
           map_of (esims db) pk = Some e \<and> tr_old result = es_account e \<and>
           (if es_account e = tr_new result
            then \<not> tr_transferred result \<and> \<not> tr_disabled result \<and> t = db
            else tr_transferred result \<and> tr_disabled result = (policy_of pk (policies db) \<noteq> None) \<and>
              \<not> fulfilling pk (topups db) \<and>
              t = db\<lparr>esims := AList.update pk (e\<lparr>es_account := tr_new result, es_user := user,
                    es_assigned := Some user, es_updated := clock db\<rparr>) (esims db),
                  policies := (case policy_of pk (policies db) of
                      None \<Rightarrow> policies db
                    | Some (k, p) \<Rightarrow> AList.update k (p\<lparr>pol_account := tr_new result, pol_enabled := False,
                        pol_status := PDisabled, pol_reason := ManualPause, pol_version := pol_version p + 1\<rparr>)
                        (policies db))\<rparr>)) \<and>
        transfer_esim_inventory pk destination t =
          (Inr \<lparr>tr_old = tr_new result, tr_new = tr_new result, tr_transferred = False, tr_disabled = False\<rparr>, t)"
proof (cases r)
  case (Inl e)
  with assms show ?thesis by (auto simp: transfer_esim_inventory_def atomic_iff raiseE_def split: option.splits)
next
  case (Inr result)
  obtain user e u acc busy where d: "destination = Some user" and e: "map_of (esims db) pk = Some e"
    and u: "map_of (users db) user = Some u" and a: "personal_account_of user db = Some acc"
    and rest: "(if es_account e = fst acc
        then ret \<lparr>tr_old = es_account e, tr_new = fst acc, tr_transferred = False, tr_disabled = False\<rparr>
        else bindE (getsE (\<lambda>db. fulfilling pk (topups db))) (\<lambda>busy.
             if busy then raiseE (EEsim EsimTransferInProgressError)
             else bindE (move_esim pk user (fst acc)) (\<lambda>disabled.
                  ret \<lparr>tr_old = es_account e, tr_new = fst acc, tr_transferred = True, tr_disabled = disabled\<rparr>))) db
        = (Inr result, t)"
    using assms(1) Inr by (cases destination) (auto simp: transfer_esim_inventory_def combinators_ok)
  have same: "personal_account_of user s = personal_account_of user db" if "accounts s = accounts db" for s :: order_db
    using that by (simp add: personal_account_of_def)
  show ?thesis
  proof (cases "es_account e = fst acc")
    case True
    with rest have "t = db" "result = \<lparr>tr_old = fst acc, tr_new = fst acc, tr_transferred = False, tr_disabled = False\<rparr>"
      by (auto simp: ret_def)
    with True Inr d e u a show ?thesis by (cases acc) (simp add: transfer_esim_inventory_def txn_defs)
  next
    case False
    with rest obtain disabled where move: "move_esim pk user (fst acc) db = (Inr disabled, t)"
      and res: "result = \<lparr>tr_old = es_account e, tr_new = fst acc, tr_transferred = True, tr_disabled = disabled\<rparr>"
      and busy: "\<not> fulfilling pk (topups db)"
      by (auto simp: combinators_ok cases_ok split: if_splits)
    obtain aid arow where acc: "acc = (aid, arow)" by (cases acc)
    note m = move_esim_run [OF move e assms(2), unfolded disable_policy_def acc fst_conv]
    have t: "map_of (esims t) pk = Some (e\<lparr>es_account := fst acc, es_user := user, es_assigned := Some user, es_updated := clock db\<rparr>)"
        "users t = users db" "accounts t = accounts db"
      using m by (simp_all add: acc)
    with d u a same [of t] have again: "transfer_esim_inventory pk destination t =
        (Inr \<lparr>tr_old = aid, tr_new = aid, tr_transferred = False, tr_disabled = False\<rparr>, t)"
      by (auto simp: transfer_esim_inventory_def txn_defs acc)
    have flags: "tr_old result = es_account e" "tr_new result = aid" "tr_transferred result"
        "tr_disabled result = (policy_of pk (policies db) \<noteq> None)"
      using res m by (simp_all only: acc fst_conv transfer_result.simps)
    have own: "es_account e \<noteq> aid" using False by (simp add: acc)
    have pa: "personal_account_of user db = Some (aid, arow)" using a by (simp add: acc)
    show ?thesis
      unfolding Inr sum.case flags(2)
      by (intro conjI exI [of _ user] exI [of _ u] exI [of _ arow] exI [of _ e] d u pa e flags(1) again,
          simp only: if_not_P [OF own], intro conjI flags(3,4) busy m [THEN conjunct1])
  qed
qed

theorem transfer_moves_ownership_witness:
  "\<exists>t. transfer_esim_inventory 7 (Some 7) demo_topup_db =
      (Inr \<lparr>tr_old = 2, tr_new = 1, tr_transferred = True, tr_disabled = False\<rparr>, t) \<and>
    transfer_esim_inventory 7 (Some 7) t = (Inr \<lparr>tr_old = 1, tr_new = 1, tr_transferred = False, tr_disabled = False\<rparr>, t)"
proof -
  have rows: "policies demo_topup_db = []" "topups demo_topup_db = []" "users demo_topup_db = users demo_org_db"
      "esims demo_topup_db = [(7, demo_esim 2)]"
    by (simp_all add: demo_topup_db_def) (simp_all add: demo_order_db_def org_db.extend_def)
  then obtain t where t: "transfer_esim_inventory 7 (Some 7) demo_topup_db =
      (Inr \<lparr>tr_old = 2, tr_new = 1, tr_transferred = True, tr_disabled = False\<rparr>, t)"
    by (simp add: transfer_esim_inventory_def txn_defs personal_account_of_def account_of_user_def demo_topup_db_money
        move_esim_def policy_of_def fulfilling_def update_esim_def demo_esim_def)
  have "distinct (map fst (policies demo_topup_db))" by (simp add: rows)
  from transfer_moves_ownership [OF t this, unfolded sum.case, THEN conjunct2] show ?thesis using t by auto
qed

end
