(* ===== verification/AutoTopups.thy ===== *)
theory AutoTopups
  imports Transfers
begin

text \<open>
  \<^verbatim>\<open>esims/services/auto_topup_service.py\<close>: policies that buy a top-up when the eSIM's data or validity runs
  out. An evaluation is a sequence of transactions (check, refresh of the usage, decision, purchase,
  bookkeeping), one definition each. Metrics are not kept; publishing cannot fail in the model, so
  \<^verbatim>\<open>_safe_publish\<close> is \<open>publish\<close>. The provider and two functions of the standard library are a record of
  arguments: \<open>from_iso\<close> is \<^verbatim>\<open>datetime.fromisoformat\<close> (\<open>None\<close> for its \<^verbatim>\<open>ValueError\<close>), \<open>sv_parse\<close> Django's
  \<^verbatim>\<open>parse_datetime\<close>.
\<close>

record services =
  sv_offers :: "string \<Rightarrow> exc + topup_package list"
  sv_submit :: "string \<Rightarrow> string \<Rightarrow> exc + string"
  sv_usage :: "string \<Rightarrow> exc + usage_dto"
  sv_parse :: "string \<Rightarrow> exc + int option"
  from_iso :: "string \<Rightarrow> int option"

section \<open>Row values\<close>

fun policy_status_value :: "policy_status \<Rightarrow> string" where
  "policy_status_value PActive = ''active''"
| "policy_status_value PPaused = ''paused''"
| "policy_status_value PBlocked = ''blocked''"
| "policy_status_value PDisabled = ''disabled''"

fun policy_reason_value :: "policy_reason \<Rightarrow> string" where
  "policy_reason_value NoReason = []"
| "policy_reason_value InsufficientFunds = ''insufficient_funds''"
| "policy_reason_value PackageUnavailable = ''package_unavailable''"
| "policy_reason_value UsageUnknown = ''usage_unknown''"
| "policy_reason_value ProviderTrouble = ''provider_error''"
| "policy_reason_value ManualPause = ''manual_pause''"
| "policy_reason_value CountExhausted = ''count_exhausted''"
| "policy_reason_value ScheduleEnded = ''schedule_ended''"

fun usage_mode_value :: "usage_mode \<Rightarrow> string" where
  "usage_mode_value UsageDisabled = ''disabled''"
| "usage_mode_value UsageThreshold = ''threshold''"
| "usage_mode_value UsageZero = ''zero''"

fun renew_mode_value :: "renew_mode \<Rightarrow> string" where
  "renew_mode_value UntilFunds = ''until_funds''"
| "renew_mode_value FixedCount = ''fixed_count''"

datatype fire = FireExpiry | FireThreshold | FireZero

fun fire_value :: "fire \<Rightarrow> string" where
  "fire_value FireExpiry = ''expiry''"
| "fire_value FireThreshold = ''usage_threshold''"
| "fire_value FireZero = ''usage_zero''"

definition legacy_trigger_mode :: "topup_policy \<Rightarrow> fire" where
  "legacy_trigger_mode p =
     (if pol_expiry p then FireExpiry
      else case pol_usage p of UsageThreshold \<Rightarrow> FireThreshold | UsageZero \<Rightarrow> FireZero | UsageDisabled \<Rightarrow> FireExpiry)"

section \<open>Rollout\<close>

definition master_enabled :: "env \<Rightarrow> bool" where
  "master_enabled env \<longleftrightarrow> AUTO_TOPUP_ENABLED env \<and> BILLING_ENABLED env"

text \<open>\<^verbatim>\<open>int(text, 16)\<close> of hexadecimal digits.\<close>

definition hex_digit :: "char \<Rightarrow> nat option" where
  "hex_digit c = (let n = of_char c in if 48 \<le> n \<and> n \<le> 57 then Some (n - 48) else if 97 \<le> n \<and> n \<le> 102 then Some (n - 87)
     else if 65 \<le> n \<and> n \<le> 70 then Some (n - 55) else None)"

fun read_hex :: "nat \<Rightarrow> string \<Rightarrow> nat option" where
  "read_hex v [] = Some v"
| "read_hex v (c # cs) = (case hex_digit c of None \<Rightarrow> None | Some d \<Rightarrow> read_hex (16 * v + d) cs)"

definition in_rollout_bucket :: "env \<Rightarrow> nat \<Rightarrow> exc + bool" where
  "in_rollout_bucket env a =
     (let percent = AUTO_TOPUP_ROLLOUT_PERCENT env
      in if percent \<le> 0 then Inr False
         else if 100 \<le> percent then Inr True
         else case take 8 (sha256_hex env (str_nat a)) of
                [] \<Rightarrow> Inl (EPy ValueError)
              | digest \<Rightarrow> (case read_hex 0 digest of
                   None \<Rightarrow> Inl (EPy ValueError) | Some n \<Rightarrow> Inr (int (n mod 100) < percent)))"

text \<open>\<open>user\<close> is \<^verbatim>\<open>account.user\<close>; an organization's account has none, and \<^verbatim>\<open>None.is_staff\<close> raises.\<close>

definition rollout_allows_account :: "env \<Rightarrow> nat \<Rightarrow> user_row option \<Rightarrow> exc + bool" where
  "rollout_allows_account env a user =
     (let mode = lower (AUTO_TOPUP_ROLLOUT_MODE env)
      in if \<not> master_enabled env then Inr False
         else if mode = [] \<or> mode = ''off'' then Inr False
         else if mode = ''all'' then Inr True
         else if mode = ''staff''
         then (case user of None \<Rightarrow> Inl (EPy AttributeError) | Some u \<Rightarrow> Inr (usr_staff u))
         else if mode = ''allowlist'' then Inr (str_nat a \<in> set (AUTO_TOPUP_ALLOWLIST_ACCOUNT_IDS env))
         else if mode = ''percent'' then in_rollout_bucket env a
         else Inr False)"

definition user_of_account :: "account \<Rightarrow> 'x order_db_scheme \<Rightarrow> user_row option" where
  "user_of_account acc db = (case acc_user acc of None \<Rightarrow> None | Some u \<Rightarrow> map_of (users db) u)"

section \<open>One evaluation\<close>

datatype outcome = TopSuccess | TopSkipped | TopPaused | TopBlocked | TopFailed

text \<open>What \<^verbatim>\<open>_prepare\<close> answers: an outcome, or the purchase to make (eSIM, package, key, reason, account).\<close>

datatype prepared = Outcome outcome | ScheduleOver | Buy "nat \<times> esim" string string fire nat

text \<open>The policy with the rows \<^verbatim>\<open>select_related("account", "esim")\<close> joins.\<close>

definition joined_policy :: "nat \<Rightarrow> 'x order_db_scheme \<Rightarrow> (topup_policy \<times> account \<times> esim) option" where
  "joined_policy pk db =
     (case map_of (policies db) pk of None \<Rightarrow> None
      | Some p \<Rightarrow> (case (map_of (accounts db) (pol_account p), map_of (esims db) (pol_esim p)) of
          (Some a, Some e) \<Rightarrow> Some (p, a, e) | _ \<Rightarrow> None))"

definition check_policy :: "env \<Rightarrow> nat \<Rightarrow> ('x, (nat \<times> esim) option) order_txn" where
  "check_policy env pk =
     bindE (getsE (joined_policy pk)) (\<lambda>found.
     case found of
       None \<Rightarrow> ret None
     | Some (p, a, e) \<Rightarrow>
         if \<not> pol_enabled p \<or> pol_status p \<noteq> PActive then ret None
         else
           bindE (getsE (user_of_account a)) (\<lambda>user.
           bindE (liftE (rollout_allows_account env (pol_account p) user)) (\<lambda>allowed.
           ret (if allowed then Some (pol_esim p, e) else None))))"

definition usage_fresh :: "env \<Rightarrow> int option \<Rightarrow> int \<Rightarrow> bool" where
  "usage_fresh env synced now \<longleftrightarrow>
     (case synced of None \<Rightarrow> False | Some s \<Rightarrow> now - s \<le> AUTO_TOPUP_USAGE_MAX_AGE_SECONDS env * SECOND)"

definition ensure_fresh_usage :: "env \<Rightarrow> services \<Rightarrow> nat \<times> esim \<Rightarrow> ('x, bool) order_txn" where
  "ensure_fresh_usage env sv esim =
     bindE (getsE clock) (\<lambda>now.
     if usage_fresh env (use_synced (es_usage (snd esim))) now then ret True
     else
       bindE (catchE (bindE (get_usage env (sv_parse sv) (sv_usage sv) esim) (\<lambda>_. ret True)) (\<lambda>_. ret False)) (\<lambda>refreshed.
       if \<not> refreshed then ret False
       else
         bindE (getsE (\<lambda>db. map_of (esims db) (fst esim))) (\<lambda>row.
         bindE (get_or_raise (EPy ObjectDoesNotExist) row) (\<lambda>e.
         bindE (getsE clock) (\<lambda>now'.
         ret (usage_fresh env (use_synced (es_usage e)) now'))))))"

definition past_minimum_age :: "env \<Rightarrow> esim \<Rightarrow> int \<Rightarrow> bool" where
  "past_minimum_age env e now \<longleftrightarrow>
     (let anchor = (case es_completed e of Some c \<Rightarrow> c | None \<Rightarrow> es_created e)
      in AUTO_TOPUP_MINIMUM_AGE_SECONDS env * SECOND \<le> now - anchor)"

definition expiry_met :: "esim \<Rightarrow> int \<Rightarrow> bool" where
  "expiry_met e now \<longleftrightarrow> (case use_expired (es_usage e) of None \<Rightarrow> False | Some x \<Rightarrow> x \<le> now)"

definition usage_reason :: "topup_policy \<Rightarrow> esim \<Rightarrow> fire option" where
  "usage_reason p e =
     (if use_unlimited (es_usage e) = Some True then None
      else case use_remaining (es_usage e) of
        None \<Rightarrow> None
      | Some remaining \<Rightarrow>
          (case pol_usage p of
             UsageThreshold \<Rightarrow>
               if remaining < int (case pol_threshold p of None \<Rightarrow> 0 | Some n \<Rightarrow> n) then Some FireThreshold else None
           | UsageZero \<Rightarrow> if remaining \<le> 0 then Some FireZero else None
           | UsageDisabled \<Rightarrow> None))"

definition select_fire_reason :: "topup_policy \<Rightarrow> esim \<Rightarrow> int \<Rightarrow> fire option" where
  "select_fire_reason p e now = (if pol_expiry p \<and> expiry_met e now then Some FireExpiry else usage_reason p e)"

text \<open>\<^verbatim>\<open>canonical_utc_stamp\<close>: the ISO text of the second.\<close>

definition canonical_utc_stamp :: "env \<Rightarrow> int \<Rightarrow> string" where
  "canonical_utc_stamp env t = isoformat env (t div SECOND * SECOND)"

definition policy_key :: "nat \<Rightarrow> fire \<Rightarrow> string \<Rightarrow> string" where
  "policy_key pk reason stamp = ''auto-topup:'' @ str_nat pk @ '':'' @ fire_value reason @ '':'' @ stamp"

definition idempotency_key :: "env \<Rightarrow> nat \<Rightarrow> esim \<Rightarrow> fire \<Rightarrow> exc + string" where
  "idempotency_key env pk e reason =
     (case reason of
        FireExpiry \<Rightarrow>
          (case use_expired (es_usage e) of
             None \<Rightarrow> Inl (EPy ValueError)
           | Some x \<Rightarrow> Inr (policy_key pk reason (canonical_utc_stamp env x)))
      | _ \<Rightarrow>
          Inr (policy_key pk reason
            (case use_synced (es_usage e) of None \<Rightarrow> ''unknown'' | Some s \<Rightarrow> isoformat env s)))"

definition same_expiry_episode :: "env \<Rightarrow> services \<Rightarrow> nat \<Rightarrow> topup_policy \<Rightarrow> esim \<Rightarrow> bool" where
  "same_expiry_episode env sv pk p e \<longleftrightarrow>
     (case use_expired (es_usage e) of
        None \<Rightarrow> False
      | Some x \<Rightarrow>
          (let last = pol_last_key p; prefix = policy_key pk FireExpiry []; stamp = drop (length prefix) last
           in starts_with prefix last \<and> stamp \<noteq> [] \<and> stamp \<noteq> ''unknown'' \<and>
              (case from_iso sv stamp of
                 None \<Rightarrow> False
               | Some previous \<Rightarrow> canonical_utc_stamp env previous = canonical_utc_stamp env x)))"

text \<open>The second transaction of \<^verbatim>\<open>_prepare\<close>.\<close>

definition decide :: "env \<Rightarrow> services \<Rightarrow> nat \<Rightarrow> ('x, prepared) order_txn" where
  "decide env sv pk =
     bindE (getsE (joined_policy pk)) (\<lambda>found.
     bindE (get_or_raise (EPy ObjectDoesNotExist) found) (\<lambda>(p, a, e).
     bindE (getsE clock) (\<lambda>now.
     if \<not> pol_enabled p \<or> pol_status p \<noteq> PActive then ret (Outcome TopSkipped)
     else if (case pol_cooldown p of None \<Rightarrow> False | Some c \<Rightarrow> now < c) then ret (Outcome TopSkipped)
     else if \<not> past_minimum_age env e now then ret (Outcome TopSkipped)
     else if (case pol_until p of None \<Rightarrow> False | Some u \<Rightarrow> u \<le> now)
     then thenE (update_policy pk (\<lambda>r. r\<lparr>pol_status := PPaused, pol_reason := ScheduleEnded\<rparr>)) (ret ScheduleOver)
     else case select_fire_reason p e now of
       None \<Rightarrow> ret (Outcome TopSkipped)
     | Some reason \<Rightarrow>
         if reason = FireExpiry \<and> same_expiry_episode env sv pk p e then ret (Outcome TopSkipped)
         else
           bindE (liftE (idempotency_key env pk e reason)) (\<lambda>key.
           ret (Buy (pol_esim p, e) (pol_package p) key reason (pol_account p))))))"

definition prepare :: "env \<Rightarrow> services \<Rightarrow> nat \<Rightarrow> ('x, prepared) order_txn" where
  "prepare env sv pk =
     bindE (atomic (check_policy env pk)) (\<lambda>checked.
     case checked of
       None \<Rightarrow> ret (Outcome TopSkipped)
     | Some esim \<Rightarrow>
         bindE (ensure_fresh_usage env sv esim) (\<lambda>fresh.
         if \<not> fresh then ret (Outcome TopSkipped) else atomic (decide env sv pk)))"

subsection \<open>After the purchase\<close>

definition spend_count :: "topup_policy \<Rightarrow> topup_policy" where
  "spend_count p =
     (if pol_renew p = FixedCount
      then (let after = (case pol_remaining p of None \<Rightarrow> 0 | Some n \<Rightarrow> n) - 1;
                q = p\<lparr>pol_remaining := Some after\<rparr>
            in if after = 0 then q\<lparr>pol_status := PPaused, pol_reason := CountExhausted\<rparr> else q)
      else p)"

definition locked_policy :: "nat \<Rightarrow> ('x, topup_policy) order_txn" where
  "locked_policy pk =
     bindE (getsE (\<lambda>db. map_of (policies db) pk)) (\<lambda>row. get_or_raise (EPy ObjectDoesNotExist) row)"

definition record_success :: "env \<Rightarrow> nat \<Rightarrow> nat \<times> topup_row \<Rightarrow> string \<Rightarrow> ('x, event) order_txn" where
  "record_success env pk topup key =
     bindE (locked_policy pk) (\<lambda>p.
     bindE (getsE clock) (\<lambda>now.
     let p' = spend_count (p\<lparr>pol_cooldown := Some (now + AUTO_TOPUP_COOLDOWN_SECONDS env * SECOND), pol_last_at := Some now,
                             pol_last_topup := Some (fst topup), pol_last_key := key\<rparr>)
     in thenE (update_policy pk (\<lambda>_. p'))
          (ret (AutoTopupSucceeded (str_nat pk) (str_nat (fst topup)) (pol_package p') (tu_amount (snd topup))
                  (pol_remaining p') (str_nat (pol_account p')) (str_nat (pol_esim p')) now))))"

definition on_success :: "env \<Rightarrow> nat \<Rightarrow> nat \<times> topup_row \<Rightarrow> string \<Rightarrow> ('x, outcome) order_txn" where
  "on_success env pk topup key =
     bindE (atomic (record_success env pk topup key)) (\<lambda>succeeded. thenE (publish [succeeded]) (ret TopSuccess))"

definition pause_funds :: "env \<Rightarrow> nat \<Rightarrow> rat \<Rightarrow> rat \<Rightarrow> ('x, outcome) order_txn" where
  "pause_funds env pk available required =
     bindE (atomic (
       bindE (locked_policy pk) (\<lambda>p.
       bindE (getsE clock) (\<lambda>now.
       thenE (update_policy pk (\<lambda>r. r\<lparr>pol_status := PPaused, pol_reason := InsufficientFunds\<rparr>))
         (ret (AutoTopupPausedFunds (str_nat pk) (str_nat (pol_account p)) (str_nat (pol_esim p)) (pol_package p)
                 (Some required) (Some available) (deposit_url env) now)))))) (\<lambda>paused.
     thenE (publish [paused]) (ret TopPaused))"

definition block_package :: "nat \<Rightarrow> ('x, outcome) order_txn" where
  "block_package pk =
     thenE (atomic (thenE (locked_policy pk)
       (update_policy pk (\<lambda>r. r\<lparr>pol_status := PBlocked, pol_reason := PackageUnavailable\<rparr>)))) (ret TopBlocked)"

definition policy_event :: "bool \<Rightarrow> string \<Rightarrow> topup_policy \<Rightarrow> string \<Rightarrow> int \<Rightarrow> event" where
  "policy_event created pk p actor now =
     (if created then AutoTopupPolicyCreated else AutoTopupPolicyUpdated)
       pk (str_nat (pol_account p)) (str_nat (pol_esim p)) (pol_package p) (pol_enabled p)
       (policy_status_value (pol_status p)) (policy_reason_value (pol_reason p)) (fire_value (legacy_trigger_mode p))
       (renew_mode_value (pol_renew p)) (pol_version p) actor now"

definition finalize_schedule_ended :: "nat \<Rightarrow> ('x, outcome) order_txn" where
  "finalize_schedule_ended pk =
     bindE (getsE (joined_policy pk)) (\<lambda>found.
     bindE (get_or_raise (EPy ObjectDoesNotExist) found) (\<lambda>(p, a, e).
     bindE (getsE clock) (\<lambda>now.
     thenE (publish [policy_event False (str_nat pk) p ''system'' now]) (ret TopPaused))))"

definition spend_failed :: "env \<Rightarrow> nat \<Rightarrow> exc \<Rightarrow> ('x, outcome) order_txn" where
  "spend_failed env pk e =
     (case e of
        ESpend EsimOwnershipChanged \<Rightarrow> ret TopSkipped
      | ECredit (InsufficientFundsError available required) \<Rightarrow> pause_funds env pk available required
      | ESpend TopupPackageNotFoundError \<Rightarrow> block_package pk
      | ESpend SpendInProgressError \<Rightarrow> ret TopFailed
      | ESpend ProviderFulfillmentError \<Rightarrow> ret TopFailed
      | _ \<Rightarrow> raiseE e)"

text \<open>\<^verbatim>\<open>try: purchase\<close>; the handlers do not cover \<^verbatim>\<open>_on_success\<close>, so the purchase is a sum here.\<close>

definition attempt :: "('s, 'a) txn \<Rightarrow> ('s, exc + 'a) txn" where
  "attempt m = catchE (bindE m (\<lambda>x. ret (Inr x))) (\<lambda>e. ret (Inl e))"

definition buy :: "env \<Rightarrow> services \<Rightarrow> nat \<Rightarrow> nat \<times> esim \<Rightarrow> string \<Rightarrow> string \<Rightarrow> nat \<Rightarrow> ('x, outcome) order_txn" where
  "buy env sv pk esim package_id key account =
     bindE (attempt (purchase env (sv_offers sv) (sv_submit sv) esim package_id key (Some account))) (\<lambda>bought.
     case bought of
       Inl e \<Rightarrow> spend_failed env pk e
     | Inr topup \<Rightarrow> on_success env pk topup key)"

definition evaluate_one :: "env \<Rightarrow> services \<Rightarrow> nat \<Rightarrow> ('x, outcome) order_txn" where
  "evaluate_one env sv pk =
     bindE (prepare env sv pk) (\<lambda>prepared.
     case prepared of
       Outcome x \<Rightarrow> ret x
     | ScheduleOver \<Rightarrow> finalize_schedule_ended pk
     | Buy esim package_id key reason account \<Rightarrow> buy env sv pk esim package_id key account)"

text \<open>The beat: every enabled active policy, oldest first; \<open>None\<close> when the feature is off.\<close>

definition evaluate_due :: "env \<Rightarrow> services \<Rightarrow> ('x, outcome list option) order_txn" where
  "evaluate_due env sv =
     (if \<not> master_enabled env then ret None
      else
        bindE (getsE (\<lambda>db. map fst (sort_key (\<lambda>r. pol_created (snd r))
                 (filter (\<lambda>r. pol_enabled (snd r) \<and> pol_status (snd r) = PActive) (policies db))))) (\<lambda>ids.
        bindE (each (evaluate_one env sv) ids) (\<lambda>outcomes. ret (Some outcomes))))"


section \<open>Changing a policy\<close>

record policy_request =
  rq_package :: string
  rq_expiry :: bool
  rq_usage :: usage_mode
  rq_renew :: renew_mode
  rq_threshold :: "nat option"
  rq_remaining :: "nat option"
  rq_until :: "int option"
  rq_enabled :: bool

definition request_threshold :: "policy_request \<Rightarrow> nat option" where
  "request_threshold q = (if rq_usage q = UsageThreshold then rq_threshold q else None)"

text \<open>The checks before the transaction; \<open>package\<close> is the offer the request names.\<close>

definition valid_request :: "policy_request \<Rightarrow> topup_package \<Rightarrow> esim \<Rightarrow> int \<Rightarrow> bool" where
  "valid_request q package e now \<longleftrightarrow>
     \<not> (rq_usage q \<noteq> UsageDisabled \<and> (tp_is_unlimited package \<or> use_unlimited (es_usage e) = Some True)) \<and>
     \<not> (rq_usage q = UsageThreshold \<and> rq_threshold q = None) \<and>
     \<not> (rq_enabled q \<and> \<not> rq_expiry q \<and> rq_usage q = UsageDisabled) \<and>
     \<not> (rq_renew q = FixedCount \<and> rq_remaining q = None) \<and>
     \<not> (rq_enabled q \<and> (case rq_until q of None \<Rightarrow> False | Some u \<Rightarrow> u \<le> now))"

definition configure :: "policy_request \<Rightarrow> topup_policy \<Rightarrow> topup_policy" where
  "configure q p =
     p\<lparr>pol_package := rq_package q, pol_expiry := rq_expiry q, pol_usage := rq_usage q,
       pol_threshold := request_threshold q, pol_renew := rq_renew q, pol_remaining := rq_remaining q,
       pol_until := rq_until q, pol_enabled := rq_enabled q,
       pol_status := (if rq_enabled q then PActive else PDisabled),
       pol_reason := (if rq_enabled q then NoReason else ManualPause)\<rparr>"

definition trigger_config :: "topup_policy \<Rightarrow> bool \<times> usage_mode \<times> nat option" where
  "trigger_config p = (pol_expiry p, pol_usage p, pol_threshold p)"

definition new_policy :: "nat \<Rightarrow> nat \<Rightarrow> policy_request \<Rightarrow> int \<Rightarrow> topup_policy" where
  "new_policy account esim q now =
     configure q \<lparr>pol_account = account, pol_esim = esim, pol_package = [], pol_enabled = True, pol_status = PActive,
       pol_reason = NoReason, pol_expiry = False, pol_usage = UsageDisabled, pol_threshold = None, pol_renew = UntilFunds,
       pol_remaining = None, pol_until = None, pol_cooldown = None, pol_last_at = None, pol_last_topup = None,
       pol_last_key = [], pol_version = 0, pol_created = now\<rparr>"

definition changed_policy :: "policy_request \<Rightarrow> nat \<Rightarrow> topup_policy \<Rightarrow> topup_policy" where
  "changed_policy q ver p =
     (let p' = (configure q p)\<lparr>pol_version := ver + 1\<rparr>
      in if trigger_config p' \<noteq> trigger_config p then p'\<lparr>pol_cooldown := None\<rparr> else p')"

definition insert_policy :: "nat \<Rightarrow> topup_policy \<Rightarrow> ('x, unit) order_txn" where
  "insert_policy pk p =
     bindE (getsE policies) (\<lambda>rows.
     if 64 < length (pol_package p) then raiseE (EPy DataError)
     else if policy_of (pol_esim p) rows \<noteq> None then raiseE (EPy IntegrityError)
     else modifyE (\<lambda>db. db\<lparr>policies := policies db @ [(pk, p)]\<rparr>))"

text \<open>\<^verbatim>\<open>_is_manual_funds_resume\<close>; the evaluation it enqueues after the commit runs in another process.\<close>

definition is_manual_funds_resume :: "topup_policy \<Rightarrow> topup_policy \<Rightarrow> bool" where
  "is_manual_funds_resume before after \<longleftrightarrow>
     pol_status before = PPaused \<and> pol_reason before = InsufficientFunds \<and> pol_enabled after \<and>
     pol_status after = PActive \<and> pol_reason after = NoReason"

text \<open>The transaction: the policy's key, the row before it (none for a new policy) and the row after it.\<close>

definition store_request ::
  "(nat \<times> topup_policy) list \<Rightarrow> nat \<Rightarrow> nat \<Rightarrow> policy_request \<Rightarrow> nat option \<Rightarrow>
   ('x, nat \<times> topup_policy option \<times> topup_policy) order_txn" where
  "store_request seen account esim q expected =
     bindE (getsE (\<lambda>db. if policy_of esim seen = None then None else policy_of esim (policies db))) (\<lambda>existing.
     case existing of
       None \<Rightarrow>
         if expected \<noteq> None then raiseE (EPy LookupError)
         else
           bindE uuid4 (\<lambda>pk.
           bindE (getsE clock) (\<lambda>now.
           let p = new_policy account esim q now
           in thenE (insert_policy pk p) (ret (pk, None, p))))
     | Some (pk, p) \<Rightarrow>
         (case expected of
            None \<Rightarrow> raiseE (EPy LookupError)
          | Some ver \<Rightarrow>
              if pol_version p \<noteq> ver then raiseE (EPy LookupError)
              else if 64 < length (rq_package q) then raiseE (EPy DataError)
              else thenE (update_policy pk (\<lambda>_. changed_policy q ver p)) (ret (pk, Some p, changed_policy q ver p))))"

definition config_event :: "nat \<Rightarrow> topup_policy \<Rightarrow> topup_policy \<Rightarrow> string \<Rightarrow> int \<Rightarrow> event list" where
  "config_event pk before after actor now =
     (if trigger_config before = trigger_config after then []
      else [AutoTopupConfigurationChanged (str_nat pk) (str_nat (pol_account after)) (str_nat (pol_esim after))
              (pol_expiry before, usage_mode_value (pol_usage before), pol_threshold before)
              (pol_expiry after, usage_mode_value (pol_usage after), pol_threshold after) (pol_version after) actor now])"

text \<open>The answer is the policy and whether an evaluation was enqueued.\<close>

definition upsert_policy ::
  "(nat \<times> topup_policy) list \<Rightarrow> env \<Rightarrow> services \<Rightarrow> nat \<times> esim \<Rightarrow> nat \<Rightarrow> user_row option \<Rightarrow> policy_request \<Rightarrow>
   nat option \<Rightarrow> string \<Rightarrow> ('x, (nat \<times> topup_policy) \<times> bool) order_txn" where
  "upsert_policy seen env sv esim account user q expected actor =
     bindE (liftE (rollout_allows_account env account user)) (\<lambda>allowed.
     if \<not> allowed then raiseE (EPy PermissionError)
     else
       bindE (liftE (resolve_offer (sv_offers sv) (es_iccid (snd esim)) (rq_package q))) (\<lambda>package.
       bindE (getsE clock) (\<lambda>now.
       if \<not> valid_request q package (snd esim) now then raiseE (EPy ValueError)
       else
         bindE (getsE (\<lambda>db. fulfilling (fst esim) (topups db))) (\<lambda>busy.
         if busy then raiseE (ESpend SpendInProgressError)
         else
           bindE (atomic (store_request seen account (fst esim) q expected)) (\<lambda>(pk, before, p).
           thenE (publish (case before of
                    None \<Rightarrow> [policy_event True (str_nat pk) p actor now]
                  | Some b \<Rightarrow> policy_event False (str_nat pk) p actor now # config_event pk b p actor now))
             (ret ((pk, p), (case before of None \<Rightarrow> False | Some b \<Rightarrow> is_manual_funds_resume b p))))))))"

text \<open>Django sets the primary key of a deleted object to \<^verbatim>\<open>None\<close>, which the event then renders.\<close>

definition delete_policy :: "nat \<Rightarrow> nat option \<Rightarrow> string \<Rightarrow> ('x, unit) order_txn" where
  "delete_policy esim expected actor =
     bindE (atomic (
       bindE (getsE (\<lambda>db. policy_of esim (policies db))) (\<lambda>found.
       bindE (get_or_raise (EPy ObjectDoesNotExist) found) (\<lambda>existing.
       if expected \<noteq> Some (pol_version (snd existing)) then raiseE (EPy LookupError)
       else thenE (modifyE (\<lambda>db. db\<lparr>policies := AList.delete (fst existing) (policies db)\<rparr>)) (ret existing))))) (\<lambda>(pk, p).
     bindE (getsE clock) (\<lambda>now.
     publish [policy_event False ''None'' p actor now]))"


section \<open>What an evaluation reads and writes\<close>

text \<open>Refreshing the usage moves no money and touches no top-up and no policy.\<close>

definition usage_frame :: "'x order_db_scheme \<Rightarrow> 'x order_db_scheme \<Rightarrow> bool" where
  "usage_frame db s \<longleftrightarrow> policies s = policies db \<and> topups s = topups db \<and> ledger s = ledger db \<and>
     accounts s = accounts db \<and> clock s = clock db \<and> users s = users db \<and> next_uuid db \<le> next_uuid s"

lemma usage_frame_refl [simp]: "usage_frame db db"
  by (simp add: usage_frame_def)

lemma usage_frame_ok: "usage_frame db s \<Longrightarrow> top.spend_ok db \<Longrightarrow> top.spend_ok s"
  by (rule top.untouched_spend_ok [of db]) (simp_all add: top.untouched_def usage_frame_def)

lemma keeps_usage_rows [keeps_intros]:
  "keeps (usage_frame db) uuid4" "keeps (usage_frame db) (publish evs)"
  by (simp_all add: keeps_def uuid4_def publish_def txn_defs usage_frame_def)

lemma keeps_usage_esim [keeps_intros]: "keeps (usage_frame db) (update_esim pk f)"
  unfolding update_esim_def by (intro keeps_intros) (simp add: usage_frame_def)

lemma keeps_usage_record [keeps_intros]: "keeps (usage_frame db) (record_event src e ty key payload)"
  unfolding record_event_def insert_lifecycle_event_def by (intro keeps_intros) (simp add: usage_frame_def)

lemma keeps_usage_get [keeps_intros]: "keeps (usage_frame db) (get_usage env parse provider esim)"
  unfolding get_usage_def update_cache_def apply_provider_usage_def write_status_def refresh_status_def announce_use_def Let_def
  by (intro keeps_intros)

lemma keeps_usage_fresh [keeps_intros]: "keeps (usage_frame db) (ensure_fresh_usage env sv esim)"
  unfolding ensure_fresh_usage_def by (intro keeps_intros)

text \<open>It leaves of every eSIM what the decision dates and pays by: owner, ICCID, creation, completion.\<close>

definition esim_core :: "esim \<Rightarrow> nat \<times> string \<times> int \<times> int option" where
  "esim_core e = (es_account e, es_iccid e, es_created e, es_completed e)"

definition same_esims :: "'x order_db_scheme \<Rightarrow> 'x order_db_scheme \<Rightarrow> bool" where
  "same_esims db s \<longleftrightarrow> (\<forall>k. map_option esim_core (map_of (esims s) k) = map_option esim_core (map_of (esims db) k))"

lemma keeps_esims_update: "(\<And>e. esim_core (f e) = esim_core e) \<Longrightarrow> keeps (same_esims db) (update_esim pk f)"
  unfolding keeps_def update_esim_def same_esims_def
  by (auto simp: txn_defs split: option.splits) (metis option.simps(9))

lemma keeps_esims_rows [keeps_intros]:
  "keeps (same_esims db) uuid4" "keeps (same_esims db) (publish evs)"
  by (simp_all add: keeps_def uuid4_def publish_def txn_defs same_esims_def)

lemma keeps_esims_record [keeps_intros]: "keeps (same_esims db) (record_event src e ty key payload)"
  unfolding record_event_def insert_lifecycle_event_def by (intro keeps_intros) (simp add: same_esims_def)

lemma keeps_esims_fresh: "keeps (same_esims db) (ensure_fresh_usage env sv esim)"
  unfolding ensure_fresh_usage_def get_usage_def update_cache_def apply_provider_usage_def write_status_def refresh_status_def
    announce_use_def Let_def
  by (intro keeps_intros keeps_esims_update) (simp_all add: esim_core_def)

text \<open>A purchase changes no policy.\<close>

definition policy_frame :: "'x order_db_scheme \<Rightarrow> 'x order_db_scheme \<Rightarrow> bool" where
  "policy_frame db s \<longleftrightarrow> policies s = policies db \<and> clock s = clock db \<and> users s = users db"

lemma policy_frame_refl [simp]: "policy_frame db db"
  by (simp add: policy_frame_def)

lemma keeps_policy_apply [keeps_intros]: "keeps (policy_frame db) (apply_credit a m rt rid key sign)"
proof (rule keepsI)
  fix s r t
  assume "policy_frame db s" "apply_credit a m rt rid key sign s = (r, t)"
  then show "policy_frame db t" using apply_frame [of a m rt rid key sign s r t] by (auto simp: policy_frame_def)
qed

lemma keeps_policy_rows [keeps_intros]:
  "keeps (policy_frame db) uuid4" "keeps (policy_frame db) (publish evs)"
  by (simp_all add: keeps_def uuid4_def publish_def txn_defs policy_frame_def)

lemma keeps_policy_accrue [keeps_intros]: "keeps (policy_frame db) (accrue env st sid lp np customer)"
  unfolding accrue_def accrue_share_def insert_accrual_def credit_def Let_def
  by (intro keeps_intros) (simp add: policy_frame_def)

lemma keeps_policy_update_topup [keeps_intros]: "keeps (policy_frame db) (update_topup pk f)"
  unfolding update_topup_def by (intro keeps_intros) (simp add: policy_frame_def)

lemma keeps_policy_insert_topup [keeps_intros]: "keeps (policy_frame db) (insert_topup pk row)"
  unfolding insert_topup_def stored_key_def Let_def by (intro keeps_intros) (simp add: policy_frame_def)

lemma keeps_policy_place [keeps_intros]: "keeps (policy_frame db) (place_topup account esim package key columns)"
  unfolding place_topup_def debit_def Let_def by (intro keeps_intros)

lemma keeps_policy_reserve [keeps_intros]: "keeps (policy_frame db) (reserve_topup seen env account esim package key)"
  unfolding reserve_topup_def resolve_topup_charge_def load_priced_account_def Let_def by (intro keeps_intros)

lemma keeps_policy_compensate [keeps_intros]: "keeps (policy_frame db) (compensate_topup pk a)"
  unfolding compensate_topup_def refund_topup_def credit_def by (intro keeps_intros)

lemma keeps_policy_persist [keeps_intros]: "keeps (policy_frame db) (persist_topup env topup external entry)"
  unfolding persist_topup_def store_topup_def by (intro keeps_intros)

lemma keeps_policy_purchase: "keeps (policy_frame db) (purchase env offers submit esim package_id key account)"
  unfolding purchase_def purchase_seen_def Let_def by (intro keeps_intros)

text \<open>What holds when the decision is to buy; \<open>db\<close> is the state the evaluation started in, \<open>u\<close> the state of the
  decision.\<close>

definition buy_guard ::
  "env \<Rightarrow> services \<Rightarrow> nat \<Rightarrow> topup_policy \<Rightarrow> esim \<Rightarrow> int \<Rightarrow> fire \<Rightarrow> string \<Rightarrow> bool" where
  "buy_guard env sv pk p e now reason key \<longleftrightarrow> pol_enabled p \<and> pol_status p = PActive \<and>
     (case pol_cooldown p of None \<Rightarrow> True | Some c \<Rightarrow> c \<le> now) \<and>
     (case pol_until p of None \<Rightarrow> True | Some until \<Rightarrow> now < until) \<and>
     past_minimum_age env e now \<and> select_fire_reason p e now = Some reason \<and>
     idempotency_key env pk e reason = Inr key \<and> \<not> (reason = FireExpiry \<and> same_expiry_episode env sv pk p e)"

lemma joined_policy_Some: "joined_policy pk db = Some (p, a, e) \<longleftrightarrow>
    map_of (policies db) pk = Some p \<and> map_of (accounts db) (pol_account p) = Some a \<and> map_of (esims db) (pol_esim p) = Some e"
  by (auto simp: joined_policy_def split: option.splits)

lemma check_policy_run:
  "check_policy env pk db = (Inr (Some esim), t) \<longleftrightarrow> t = db \<and> (\<exists>p a e. joined_policy pk db = Some (p, a, e) \<and>
     esim = (pol_esim p, e) \<and> pol_enabled p \<and> pol_status p = PActive \<and>
     rollout_allows_account env (pol_account p) (user_of_account a db) = Inr True)"
  by (auto simp: check_policy_def combinators_ok cases_ok split: option.splits)

lemma check_policy_reads: "check_policy env pk db = (r, t) \<Longrightarrow> t = db"
  by (auto simp: check_policy_def txn_iff split: option.splits prod.splits if_splits)

lemma decide_run:
  assumes "decide env sv pk u = (Inr prepared, t)"
  shows "case prepared of
      Outcome x \<Rightarrow> x = TopSkipped \<and> t = u
    | ScheduleOver \<Rightarrow> \<exists>p. map_of (policies u) pk = Some p \<and>
        t = u\<lparr>policies := AList.update pk (p\<lparr>pol_status := PPaused, pol_reason := ScheduleEnded\<rparr>) (policies u)\<rparr>
    | Buy esim package_id key reason account \<Rightarrow> t = u \<and>
        (case joined_policy pk u of
           None \<Rightarrow> False
         | Some (p, a, e) \<Rightarrow> esim = (pol_esim p, e) \<and> account = pol_account p \<and> package_id = pol_package p \<and>
             buy_guard env sv pk p e (clock u) reason key)"
proof -
  obtain p a e where j: "joined_policy pk u = Some (p, a, e)"
    and body: "(if \<not> pol_enabled p \<or> pol_status p \<noteq> PActive then ret (Outcome TopSkipped)
     else if (case pol_cooldown p of None \<Rightarrow> False | Some c \<Rightarrow> clock u < c) then ret (Outcome TopSkipped)
     else if \<not> past_minimum_age env e (clock u) then ret (Outcome TopSkipped)
     else if (case pol_until p of None \<Rightarrow> False | Some until \<Rightarrow> until \<le> clock u)
     then thenE (update_policy pk (\<lambda>r. r\<lparr>pol_status := PPaused, pol_reason := ScheduleEnded\<rparr>)) (ret ScheduleOver)
     else case select_fire_reason p e (clock u) of
       None \<Rightarrow> ret (Outcome TopSkipped)
     | Some reason \<Rightarrow>
         if reason = FireExpiry \<and> same_expiry_episode env sv pk p e then ret (Outcome TopSkipped)
         else bindE (liftE (idempotency_key env pk e reason)) (\<lambda>key.
              ret (Buy (pol_esim p, e) (pol_package p) key reason (pol_account p)))) u = (Inr prepared, t)"
    using assms by (auto simp: decide_def combinators_ok)
  have row: "map_of (policies u) pk = Some p" using j by (simp add: joined_policy_Some)
  show ?thesis
  proof (cases "(case pol_until p of None \<Rightarrow> False | Some until \<Rightarrow> until \<le> clock u)")
    case True
    with body row show ?thesis
      by (auto simp: ret_def combinators_ok update_policy_run split: if_splits)
  next
    case False
    with body j show ?thesis
      by (auto simp: ret_def combinators_ok buy_guard_def split: if_splits option.splits)
  qed
qed

text \<open>The first two steps of an evaluation.\<close>

lemma prepare_run:
  assumes "prepare env sv pk db = (r, t)"
  shows "case r of
      Inl e \<Rightarrow> usage_frame db t
    | Inr (Outcome x) \<Rightarrow> x = TopSkipped \<and> usage_frame db t
    | Inr ScheduleOver \<Rightarrow> \<exists>u p. usage_frame db u \<and> map_of (policies db) pk = Some p \<and>
        t = u\<lparr>policies := AList.update pk (p\<lparr>pol_status := PPaused, pol_reason := ScheduleEnded\<rparr>) (policies u)\<rparr>
    | Inr (Buy esim package_id key reason account) \<Rightarrow> usage_frame db t \<and>
        (\<exists>p a e0 e. map_of (policies db) pk = Some p \<and> map_of (accounts db) (pol_account p) = Some a \<and>
           map_of (esims db) (pol_esim p) = Some e0 \<and> ensure_fresh_usage env sv (pol_esim p, e0) db = (Inr True, t) \<and>
           map_of (esims t) (pol_esim p) = Some e \<and> esim = (pol_esim p, e) \<and> account = pol_account p \<and>
           package_id = pol_package p \<and> buy_guard env sv pk p e (clock db) reason key \<and>
           rollout_allows_account env (pol_account p) (user_of_account a db) = Inr True)"
proof -
  obtain c u where c: "check_policy env pk db = (c, u)" by fastforce
  then have u: "u = db" by (rule check_policy_reads)
  show ?thesis
  proof (cases "c = Inr None \<or> (\<exists>x. c = Inl x)")
    case True
    with assms c u show ?thesis by (auto simp: prepare_def bindE_iff atomic_iff ret_def)
  next
    case False
    then obtain esim where esim: "c = Inr (Some esim)" by (cases c) auto
    with c u obtain p a e where j: "joined_policy pk db = Some (p, a, e)"
      and rollout: "rollout_allows_account env (pol_account p) (user_of_account a db) = Inr True"
      by (auto simp: check_policy_run)
    obtain f v where f: "ensure_fresh_usage env sv esim db = (f, v)" by fastforce
    have v: "usage_frame db v" using keepsD [OF keeps_usage_fresh usage_frame_refl f] .
    show ?thesis
    proof (cases "f = Inr True")
      case False
      with assms c u esim f v show ?thesis by (cases f) (auto simp: prepare_def bindE_iff atomic_iff ret_def)
    next
      case True
      with assms c u esim f have d: "atomic (decide env sv pk) v = (r, t)"
        by (auto simp: prepare_def bindE_iff atomic_iff)
      show ?thesis
      proof (cases r)
        case (Inl x)
        with d v show ?thesis by (simp add: atomic_iff)
      next
        case (Inr prepared)
        with d have "decide env sv pk v = (Inr prepared, t)" by (simp add: atomic_iff)
        from c u esim j have "esim = (pol_esim p, e)" by (auto simp: check_policy_run)
        with f True have "ensure_fresh_usage env sv (pol_esim p, e) db = (Inr True, v)" by simp
        with decide_run [OF \<open>decide env sv pk v = (Inr prepared, t)\<close>] v j rollout Inr show ?thesis
          by (cases prepared) (auto simp: usage_frame_def joined_policy_Some split: option.splits)
      qed
    qed
  qed
qed


section \<open>An evaluation\<close>

text \<open>The bookkeeping after the purchase changes the policies and publishes; it moves no money.\<close>

definition books_frame :: "'x order_db_scheme \<Rightarrow> 'x order_db_scheme \<Rightarrow> bool" where
  "books_frame db s \<longleftrightarrow> topups s = topups db \<and> ledger s = ledger db \<and> accounts s = accounts db \<and>
     next_uuid s = next_uuid db \<and> clock s = clock db"

lemma books_frame_refl [simp]: "books_frame db db"
  by (simp add: books_frame_def)

lemma keeps_books_publish [keeps_intros]: "keeps (books_frame db) (publish evs)"
  by (simp add: keeps_def publish_def txn_defs books_frame_def)

lemma keeps_books_policy [keeps_intros]: "keeps (books_frame db) (update_policy pk f)"
  unfolding update_policy_def by (intro keeps_intros) (simp add: books_frame_def)

lemma keeps_books_success [keeps_intros]: "keeps (books_frame db) (on_success env pk topup key)"
  unfolding on_success_def record_success_def locked_policy_def Let_def by (intro keeps_intros)

lemma keeps_books_failed [keeps_intros]: "keeps (books_frame db) (spend_failed env pk e)"
  unfolding spend_failed_def pause_funds_def block_package_def locked_policy_def
  by (auto intro!: keeps_intros split: exc.split credit_error.split spend_error.split)

lemma keeps_books_schedule [keeps_intros]: "keeps (books_frame db) (finalize_schedule_ended pk)"
  unfolding finalize_schedule_ended_def by (intro keeps_intros)

lemma attempt_run: "attempt m s = (r, t) \<longleftrightarrow> (\<exists>q. r = Inr q \<and> m s = (q, t))"
  by (auto simp: attempt_def txn_defs split: prod.splits sum.splits)

lemma buy_run:
  assumes "buy env sv pk esim package_id key account u = (r, t)"
  obtains q v where "purchase env (sv_offers sv) (sv_submit sv) esim package_id key (Some account) u = (q, v)"
    "books_frame v t"
    "(case q of Inl e \<Rightarrow> spend_failed env pk e | Inr topup \<Rightarrow> on_success env pk topup key) v = (r, t)"
proof -
  obtain q v where q: "purchase env (sv_offers sv) (sv_submit sv) esim package_id key (Some account) u = (q, v)" by fastforce
  with assms have rest: "(case q of Inl e \<Rightarrow> spend_failed env pk e | Inr topup \<Rightarrow> on_success env pk topup key) v = (r, t)"
    by (auto simp: buy_def bindE_iff attempt_run)
  have "keeps (books_frame v) (case q of Inl e \<Rightarrow> spend_failed env pk e | Inr topup \<Rightarrow> on_success env pk topup key)"
    by (auto intro!: keeps_intros split: sum.split)
  from keepsD [OF this books_frame_refl rest] show thesis by (rule that [OF q _ rest])
qed

lemma books_frame_ok: "books_frame db s \<Longrightarrow> top.spend_ok db \<Longrightarrow> top.spend_ok s"
  by (rule top.untouched_spend_ok [of db]) (simp_all add: top.untouched_def books_frame_def)

text \<open>One top-up, of one account, is added and settled; the others stay.\<close>

definition topup_core :: "topup_row \<Rightarrow> nat \<times> nat \<times> string option" where
  "topup_core row = (tu_account row, tu_esim row, tu_key row)"

definition ours :: "nat \<times> nat \<times> string option \<Rightarrow> nat \<Rightarrow> 'x order_db_scheme \<Rightarrow> 'x order_db_scheme \<Rightarrow> bool" where
  "ours a pk db s \<longleftrightarrow> map_option topup_core (map_of (topups s) pk) = Some a \<and>
     (\<forall>row. row \<noteq> pk \<longrightarrow> map_of (topups s) row = map_of (topups db) row)"

lemma keeps_ours_apply [keeps_intros]: "keeps (ours a pk db) (apply_credit b m rt rid key sign)"
proof (rule keepsI)
  fix s r t
  assume "ours a pk db s" "apply_credit b m rt rid key sign s = (r, t)"
  then show "ours a pk db t" using apply_frame [of b m rt rid key sign s r t] by (auto simp: ours_def)
qed

lemma keeps_ours_rows [keeps_intros]:
  "keeps (ours a pk db) uuid4" "keeps (ours a pk db) (publish evs)"
  by (simp_all add: keeps_def uuid4_def publish_def txn_defs ours_def)

lemma keeps_ours_accrue [keeps_intros]: "keeps (ours a pk db) (accrue env st sid lp np customer)"
  unfolding accrue_def accrue_share_def insert_accrual_def credit_def Let_def
  by (intro keeps_intros) (simp add: ours_def)

lemma keeps_ours_update: "(\<And>r. topup_core (f r) = topup_core r) \<Longrightarrow> keeps (ours a pk db) (update_topup pk f)"
  unfolding keeps_def update_topup_def by (auto simp: txn_defs ours_def split: option.splits)

lemma keeps_ours_compensate [keeps_intros]: "keeps (ours a pk db) (compensate_topup pk b)"
  unfolding compensate_topup_def refund_topup_def credit_def by (intro keeps_intros keeps_ours_update) (simp add: topup_core_def)

lemma keeps_ours_persist [keeps_intros]: "fst topup = pk \<Longrightarrow> keeps (ours a pk db) (persist_topup env topup external entry)"
  unfolding persist_topup_def store_topup_def
  by (intro keeps_intros) (simp_all add: keeps_ours_update fulfilled_topup_def topup_core_def)

lemma purchase_ours:
  assumes "purchase env offers submit (pk, e) package_id key (Some a) (db :: order_db) = (r, t)" "top.spend_ok db"
  shows "topups t = topups db \<and> ledger t = ledger db \<or>
    map_option es_account (map_of (esims db) pk) = Some a \<and> find_topup key (topups db) = None \<and>
      (\<exists>k. map_of (topups db) k = None \<and> ours (a, pk, Some key) k db t)"
proof -
  have run: "purchase_seen (topups db) env offers submit (pk, e) package_id key (Some a) db = (r, t)"
    using assms(1) by (simp add: purchase_def txn_defs)
  from run assms(2) show ?thesis
  proof (cases rule: purchase_cases)
    case (placed package topup entry amount u evs)
    let ?k = "fst topup"
    have start: "ours (a, pk, Some key) ?k db (u\<lparr>events := evs\<rparr>)"
      using placed(1) by (auto simp: ours_def topup_placed_def topup_core_def)
    have settle: "keeps (ours (a, pk, Some key) ?k db) (case submit (es_iccid e) (tp_external_id package) of
          Inl _ \<Rightarrow> thenE (compensate_topup (fst topup) (case Some a of None \<Rightarrow> es_account e | Some a \<Rightarrow> a))
             (raiseE (ESpend ProviderFulfillmentError))
        | Inr external \<Rightarrow> persist_topup env topup external entry)"
      by (auto intro!: keeps_intros split: sum.split)
    have "ours (a, pk, Some key) ?k db t" by (rule keepsD [OF settle start placed(6)])
    moreover have "map_of (topups db) ?k = None"
      using top.spend_ok_fresh [OF assms(2), of ?k] placed(1) by (simp add: top.view_def topup_placed_def)
    ultimately show ?thesis using placed(2,4) by auto
  qed auto
qed

text \<open>C24. Auto top-up keeps every top-up paid at most once and refunded exactly when it failed, and it spends, or
  reports a success, only for a policy that was enabled, active and rolled out to its account, out of its
  cooldown, not past its end, whose eSIM, as the usage refresh left it, is past its minimum age and meets
  the trigger. The refresh keeps the eSIM's owner and the dates the age is measured by. What is bought is
  one top-up of that eSIM under the key of this policy, eSIM and reason, which no top-up had; it is
  charged to the policy's account, which owned the eSIM, and every other top-up is as it was.\<close>

theorem auto_topup_guarded:
  assumes run: "evaluate_one env sv pk (db :: order_db) = (r, t)" and ok: "top.spend_ok db"
  shows "top.spend_ok t \<and>
    (ledger t \<noteq> ledger db \<or> topups t \<noteq> topups db \<or> r = Inr TopSuccess \<longrightarrow>
       (\<exists>p acc e0 e u reason key. map_of (policies db) pk = Some p \<and> map_of (accounts db) (pol_account p) = Some acc \<and>
          rollout_allows_account env (pol_account p) (user_of_account acc db) = Inr True \<and>
          map_of (esims db) (pol_esim p) = Some e0 \<and> ensure_fresh_usage env sv (pol_esim p, e0) db = (Inr True, u) \<and>
          map_of (esims u) (pol_esim p) = Some e \<and> es_account e = es_account e0 \<and> es_created e = es_created e0 \<and>
          es_completed e = es_completed e0 \<and>
          buy_guard env sv pk p e (clock db) reason key \<and>
          (ledger t \<noteq> ledger db \<or> topups t \<noteq> topups db \<longrightarrow>
             es_account e0 = pol_account p \<and> find_topup key (topups db) = None \<and>
             (\<exists>k row. map_of (topups db) k = None \<and> map_of (topups t) k = Some row \<and>
                tu_account row = pol_account p \<and> tu_esim row = pol_esim p \<and> tu_key row = Some key \<and>
                (\<forall>j. j \<noteq> k \<longrightarrow> map_of (topups t) j = map_of (topups db) j)))))"
proof -
  obtain q u where q: "prepare env sv pk db = (q, u)" by fastforce
  note prep = prepare_run [OF q]
  consider (error) x where "q = Inl x" | (outcome) x where "q = Inr (Outcome x)" | (over) "q = Inr ScheduleOver"
    | (buy) esim package_id key reason account where "q = Inr (Buy esim package_id key reason account)"
  proof (cases q)
    case (Inr y)
    then show thesis using outcome over buy by (cases y) blast+
  qed (rule error)
  then show ?thesis
  proof cases
    case error
    with run q prep have "usage_frame db t" "r \<noteq> Inr TopSuccess" by (auto simp: evaluate_one_def bindE_iff)
    with ok usage_frame_ok [of db t] show ?thesis by (auto simp: usage_frame_def)
  next
    case outcome
    with run q prep have "usage_frame db t" "r \<noteq> Inr TopSuccess" by (auto simp: evaluate_one_def bindE_iff ret_def)
    with ok usage_frame_ok [of db t] show ?thesis by (auto simp: usage_frame_def)
  next
    case over
    with prep obtain v p where v: "usage_frame db v"
      and u: "u = v\<lparr>policies := AList.update pk (p\<lparr>pol_status := PPaused, pol_reason := ScheduleEnded\<rparr>) (policies v)\<rparr>" by auto
    have f: "finalize_schedule_ended pk u = (r, t)" using run q over by (auto simp: evaluate_one_def bindE_iff)
    have "books_frame u t" using keepsD [OF keeps_books_schedule books_frame_refl f] .
    then have "books_frame v t" by (simp add: u books_frame_def)
    moreover have "r \<noteq> Inr TopSuccess" using f by (auto simp: finalize_schedule_ended_def txn_iff split: prod.splits)
    ultimately show ?thesis using v books_frame_ok [of v t] usage_frame_ok [OF v ok] by (simp add: books_frame_def usage_frame_def)
  next
    case buy
    with run q have b: "buy env sv pk esim package_id key account u = (r, t)" by (auto simp: evaluate_one_def bindE_iff)
    from prep buy obtain p acc e0 e where p: "usage_frame db u" "map_of (policies db) pk = Some p"
      "map_of (accounts db) (pol_account p) = Some acc" "map_of (esims u) (pol_esim p) = Some e" "esim = (pol_esim p, e)"
      "account = pol_account p" "buy_guard env sv pk p e (clock db) reason key"
      "rollout_allows_account env (pol_account p) (user_of_account acc db) = Inr True"
      and e0: "map_of (esims db) (pol_esim p) = Some e0" "ensure_fresh_usage env sv (pol_esim p, e0) db = (Inr True, u)" by auto
    have "same_esims db u" by (rule keepsD [OF keeps_esims_fresh _ e0(2)]) (simp add: same_esims_def)
    then have "map_option esim_core (map_of (esims u) (pol_esim p)) = map_option esim_core (map_of (esims db) (pol_esim p))"
      unfolding same_esims_def by blast
    then have core: "es_account e = es_account e0" "es_created e = es_created e0" "es_completed e = es_completed e0"
      using p(4) e0(1) by (simp_all add: esim_core_def)
    have uok: "top.spend_ok u" by (rule usage_frame_ok [OF p(1) ok])
    from b obtain q' v where v: "purchase env (sv_offers sv) (sv_submit sv) esim package_id key (Some account) u = (q', v)"
      "books_frame v t" by (rule buy_run)
    have "top.spend_ok v"
      using v(1) purchase_keeps_spend_ok [of "topups u" env "sv_offers sv" "sv_submit sv" "pol_esim p" e package_id key
          "Some account" u q' v] uok p(5) by (simp add: purchase_def txn_defs)
    then have "top.spend_ok t" by (rule books_frame_ok [OF v(2)])
    moreover have "topups t = topups db \<and> ledger t = ledger db \<or>
        es_account e0 = pol_account p \<and> find_topup key (topups db) = None \<and>
        (\<exists>k row. map_of (topups db) k = None \<and> map_of (topups t) k = Some row \<and>
          tu_account row = pol_account p \<and> tu_esim row = pol_esim p \<and> tu_key row = Some key \<and>
          (\<forall>j. j \<noteq> k \<longrightarrow> map_of (topups t) j = map_of (topups db) j))"
    proof -
      have tu: "topups u = topups db" "ledger u = ledger db" using p(1) by (simp_all add: usage_frame_def)
      have tv: "topups t = topups v" "ledger t = ledger v" using v(2) by (simp_all add: books_frame_def)
      from purchase_ours [OF v(1) [unfolded p(5,6)] uok] show ?thesis
      proof (elim disjE conjE exE)
        fix k assume own: "map_option es_account (map_of (esims u) (pol_esim p)) = Some (pol_account p)"
          and none: "find_topup key (topups u) = None" "map_of (topups u) k = None"
          and o': "ours (pol_account p, pol_esim p, Some key) k u v"
        from o' obtain row where "map_of (topups v) k = Some row" "topup_core row = (pol_account p, pol_esim p, Some key)"
          by (auto simp: ours_def)
        then show ?thesis using own none o' p(4) core(1) tu tv
          by (intro disjI2 conjI exI [of _ k] exI [of _ row]) (simp_all add: topup_core_def ours_def)
      qed (use tu tv in simp)
    qed
    ultimately show ?thesis using p e0 core by blast
  qed
qed


section \<open>A failed purchase counts as a success\<close>

text \<open>The next evaluation of the same episode finds the failed top-up under its key.\<close>

lemma buy_replay:
  assumes "find_topup key (topups u) = Some topup" "tu_status (snd topup) \<noteq> TFulfilling" "key \<noteq> []"
    and "resolve_offer (sv_offers sv) (es_iccid (snd esim)) package_id = Inr package" "BILLING_ENABLED env"
  shows "buy env sv pk esim package_id key account u = on_success env pk topup key u"
proof -
  have "purchase env (sv_offers sv) (sv_submit sv) esim package_id key (Some account) u = (Inr topup, u)"
    using assms by (simp add: purchase_def purchase_seen_def reserve_topup_def txn_defs Let_def)
  then show ?thesis by (simp add: buy_def attempt_def txn_defs)
qed

lemma on_success_run:
  assumes "map_of (policies u) pk = Some p"
  shows "on_success env pk topup key u =
    (let p' = spend_count (p\<lparr>pol_cooldown := Some (clock u + AUTO_TOPUP_COOLDOWN_SECONDS env * SECOND),
                            pol_last_at := Some (clock u), pol_last_topup := Some (fst topup), pol_last_key := key\<rparr>)
     in (Inr TopSuccess, u\<lparr>policies := AList.update pk p' (policies u),
           events := events u @ [AutoTopupSucceeded (str_nat pk) (str_nat (fst topup)) (pol_package p') (tu_amount (snd topup))
             (pol_remaining p') (str_nat (pol_account p')) (str_nat (pol_esim p')) (clock u)]\<rparr>))"
  using assms by (simp add: on_success_def record_success_def locked_policy_def txn_defs update_policy_def publish_def Let_def)

lemma same_episode_recorded:
  assumes "pol_last_key q = policy_key pk FireExpiry (canonical_utc_stamp env x)" "use_expired (es_usage e) = Some x"
    and "\<And>y. from_iso sv (isoformat env y) = Some y" "\<And>y. isoformat env y \<noteq> []" "\<And>y. isoformat env y \<noteq> ''unknown''"
  shows "same_expiry_episode env sv pk q e"
proof -
  have last: "pol_last_key q = policy_key pk FireExpiry [] @ isoformat env (x div SECOND * SECOND)"
    unfolding assms(1) by (simp add: policy_key_def canonical_utc_stamp_def)
  define s where "s = x div SECOND * SECOND"
  have stamp: "canonical_utc_stamp env s = canonical_utc_stamp env x"
    by (simp add: canonical_utc_stamp_def s_def SECOND_def)
  have "starts_with (policy_key pk FireExpiry []) (pol_last_key q)"
    "drop (length (policy_key pk FireExpiry [])) (pol_last_key q) = isoformat env s"
    by (simp_all add: last s_def starts_with_def)
  then show ?thesis
    unfolding same_expiry_episode_def Let_def assms(2) by (simp add: assms(3-5) stamp)
qed

text \<open>C26. A failed purchase is reported as a success by the next evaluation: when the key of the episode already
  belongs to a top-up that failed (and was refunded), the evaluation buys nothing and moves no money, but it
  announces \<^verbatim>\<open>AutoTopupSucceeded\<close>, uses up one of a fixed number of top-ups, starts the cooldown, and records
  the key; an expiry episode is then closed, and no later evaluation buys for it.\<close>

theorem failed_purchase_reported_success:
  assumes prep: "prepare env sv pk (db :: order_db) = (Inr (Buy esim package_id key reason account), u)"
    and failed: "find_topup key (topups u) = Some topup" "tu_status (snd topup) = TFailed"
    and offer: "resolve_offer (sv_offers sv) (es_iccid (snd esim)) package_id = Inr package"
    and billing: "BILLING_ENABLED env" and iso: "\<And>x. from_iso sv (isoformat env x) = Some x"
      "\<And>x. isoformat env x \<noteq> []" "\<And>x. isoformat env x \<noteq> ''unknown''"
  shows "\<exists>t p p'. evaluate_one env sv pk db = (Inr TopSuccess, t) \<and> ledger t = ledger db \<and> topups t = topups db \<and>
    map_of (policies db) pk = Some p \<and> map_of (policies t) pk = Some p' \<and> pol_last_key p' = key \<and>
    pol_cooldown p' = Some (clock db + AUTO_TOPUP_COOLDOWN_SECONDS env * SECOND) \<and>
    (pol_renew p = FixedCount \<longrightarrow> pol_remaining p' = Some ((case pol_remaining p of None \<Rightarrow> 0 | Some n \<Rightarrow> n) - 1)) \<and>
    (\<exists>remaining. events t = events u @ [AutoTopupSucceeded (str_nat pk) (str_nat (fst topup)) (pol_package p)
       (tu_amount (snd topup)) remaining (str_nat (pol_account p)) (str_nat (pol_esim p)) (clock db)]) \<and>
    (reason = FireExpiry \<longrightarrow> (\<forall>e. use_expired (es_usage e) = use_expired (es_usage (snd esim)) \<longrightarrow>
       same_expiry_episode env sv pk p' e))"
proof -
  from prepare_run [OF prep] obtain p a e where p: "usage_frame db u" "map_of (policies db) pk = Some p" "esim = (pol_esim p, e)"
    and guard: "buy_guard env sv pk p e (clock db) reason key" by auto
  have key: "idempotency_key env pk e reason = Inr key" using guard by (simp add: buy_guard_def)
  then have "key \<noteq> []" by (auto simp: idempotency_key_def policy_key_def split: fire.splits option.splits)
  note b = buy_replay [OF failed(1) _ this offer billing, of pk account]
  let ?p = "spend_count (p\<lparr>pol_cooldown := Some (clock u + AUTO_TOPUP_COOLDOWN_SECONDS env * SECOND),
      pol_last_at := Some (clock u), pol_last_topup := Some (fst topup), pol_last_key := key\<rparr>)"
  have row: "map_of (policies u) pk = Some p" using p by (simp add: usage_frame_def)
  have count: "pol_last_key ?p = key" "pol_cooldown ?p = Some (clock u + AUTO_TOPUP_COOLDOWN_SECONDS env * SECOND)"
    "pol_package ?p = pol_package p" "pol_account ?p = pol_account p" "pol_esim ?p = pol_esim p"
    "pol_renew p = FixedCount \<Longrightarrow> pol_remaining ?p = Some ((case pol_remaining p of None \<Rightarrow> 0 | Some n \<Rightarrow> n) - 1)"
    by (simp_all add: spend_count_def Let_def)
  have closed: "same_expiry_episode env sv pk ?p e'"
    if expiry: "reason = FireExpiry" and same: "use_expired (es_usage e') = use_expired (es_usage e)" for e'
  proof -
    obtain x where x: "use_expired (es_usage e) = Some x" "key = policy_key pk FireExpiry (canonical_utc_stamp env x)"
      using key expiry by (auto simp: idempotency_key_def split: option.splits)
    have "pol_last_key ?p = policy_key pk FireExpiry (canonical_utc_stamp env x)" using count(1) x(2) by simp
    then show ?thesis using same_episode_recorded iso x(1) same by simp
  qed
  have "evaluate_one env sv pk db = on_success env pk topup key u"
    using prep b failed(2) by (simp add: evaluate_one_def bindE_def)
  then have run: "evaluate_one env sv pk db =
      (Inr TopSuccess, u\<lparr>policies := AList.update pk ?p (policies u),
         events := events u @ [AutoTopupSucceeded (str_nat pk) (str_nat (fst topup)) (pol_package ?p) (tu_amount (snd topup))
           (pol_remaining ?p) (str_nat (pol_account ?p)) (str_nat (pol_esim ?p)) (clock u)]\<rparr>)"
    by (simp only: on_success_run [OF row] Let_def)
  define q where "q = ?p"
  define t where "t = u\<lparr>policies := AList.update pk q (policies u),
         events := events u @ [AutoTopupSucceeded (str_nat pk) (str_nat (fst topup)) (pol_package q) (tu_amount (snd topup))
           (pol_remaining q) (str_nat (pol_account q)) (str_nat (pol_esim q)) (clock u)]\<rparr>"
  have "evaluate_one env sv pk db = (Inr TopSuccess, t)" unfolding run t_def q_def ..
  moreover have "ledger t = ledger db" "topups t = topups db" "map_of (policies t) pk = Some q" "clock u = clock db"
    using p(1) by (simp_all add: t_def usage_frame_def)
  moreover have "events t = events u @ [AutoTopupSucceeded (str_nat pk) (str_nat (fst topup)) (pol_package p) (tu_amount (snd topup))
      (pol_remaining q) (str_nat (pol_account p)) (str_nat (pol_esim p)) (clock db)]"
    using p(1) count(3-5) [folded q_def] by (simp add: t_def usage_frame_def)
  ultimately show ?thesis
    using p(2,3) count(1,2,6) [folded q_def] closed [folded q_def] by (intro exI [of _ t] exI [of _ p] exI [of _ q]) auto
qed


section \<open>A fixed number of top-ups\<close>

definition remaining :: "topup_policy \<Rightarrow> nat" where
  "remaining p = (case pol_remaining p of None \<Rightarrow> 0 | Some n \<Rightarrow> n)"

text \<open>What an evaluation makes of a counted policy.\<close>

definition counted :: "topup_policy \<Rightarrow> topup_policy \<Rightarrow> exc + outcome \<Rightarrow> bool" where
  "counted p p' r \<longleftrightarrow> pol_renew p' = pol_renew p \<and>
     (if r = Inr TopSuccess
      then pol_status p = PActive \<and>
        (pol_renew p = FixedCount \<longrightarrow> remaining p' = remaining p - 1 \<and> (remaining p \<le> 1 \<longrightarrow> pol_status p' \<noteq> PActive))
      else remaining p' = remaining p \<and> (pol_status p \<noteq> PActive \<longrightarrow> pol_status p' \<noteq> PActive))"

lemma spend_failed_run:
  assumes "spend_failed env pk e u = (r, t)" "map_of (policies u) pk = Some p"
  shows "\<exists>p'. map_of (policies t) pk = Some p' \<and> counted p p' r"
proof -
  have "counted p p (Inr x)" if "x \<noteq> TopSuccess" for x using that by (simp add: counted_def)
  moreover have "counted p p (Inl x)" for x by (simp add: counted_def)
  moreover have "counted p (p\<lparr>pol_status := PPaused, pol_reason := InsufficientFunds\<rparr>) (Inr TopPaused)"
    "counted p (p\<lparr>pol_status := PBlocked, pol_reason := PackageUnavailable\<rparr>) (Inr TopBlocked)"
    by (simp_all add: counted_def remaining_def)
  ultimately show ?thesis
    using assms unfolding spend_failed_def
    by (auto simp: ret_def raiseE_def pause_funds_def block_package_def locked_policy_def update_policy_def publish_def txn_defs
        split: exc.splits credit_error.splits spend_error.splits)
qed

lemma on_success_counted:
  assumes "on_success env pk topup key u = (r, t)" "map_of (policies u) pk = Some p" "pol_status p = PActive"
  shows "\<exists>p'. map_of (policies t) pk = Some p' \<and> counted p p' r"
  using assms by (auto simp: on_success_run Let_def counted_def spend_count_def remaining_def)

lemma evaluate_counted:
  assumes run: "evaluate_one env sv pk (db :: order_db) = (r, t)" and row: "map_of (policies db) pk = Some p"
  shows "\<exists>p'. map_of (policies t) pk = Some p' \<and> counted p p' r"
proof -
  obtain q u where q: "prepare env sv pk db = (q, u)" by fastforce
  note prep = prepare_run [OF q]
  consider (error) x where "q = Inl x" | (outcome) x where "q = Inr (Outcome x)" | (over) "q = Inr ScheduleOver"
    | (buy) esim package_id key reason account where "q = Inr (Buy esim package_id key reason account)"
  proof (cases q)
    case (Inr y)
    then show thesis using outcome over buy by (cases y) blast+
  qed (rule error)
  then show ?thesis
  proof cases
    case error
    with run q prep row show ?thesis by (auto simp: evaluate_one_def bindE_iff usage_frame_def counted_def)
  next
    case outcome
    with run q prep row show ?thesis by (auto simp: evaluate_one_def bindE_iff ret_def usage_frame_def counted_def)
  next
    case over
    let ?p = "p\<lparr>pol_status := PPaused, pol_reason := ScheduleEnded\<rparr>"
    from over prep row have u: "map_of (policies u) pk = Some ?p" by auto
    have f: "finalize_schedule_ended pk u = (r, t)" using run q over by (auto simp: evaluate_one_def bindE_iff)
    then have "r \<noteq> Inr TopSuccess" "policies t = policies u"
      by (auto simp: finalize_schedule_ended_def txn_iff publish_iff split: prod.splits)
    with u show ?thesis by (simp add: counted_def remaining_def)
  next
    case buy
    with run q have b: "buy env sv pk esim package_id key account u = (r, t)" by (auto simp: evaluate_one_def bindE_iff)
    from prep buy row have active: "pol_status p = PActive" and u: "map_of (policies u) pk = Some p"
      by (auto simp: buy_guard_def usage_frame_def)
    from b obtain q' v where v: "purchase env (sv_offers sv) (sv_submit sv) esim package_id key (Some account) u = (q', v)"
      "(case q' of Inl e \<Rightarrow> spend_failed env pk e | Inr topup \<Rightarrow> on_success env pk topup key) v = (r, t)" by (rule buy_run)
    have "map_of (policies v) pk = Some p"
      using keepsD [OF keeps_policy_purchase policy_frame_refl v(1)] u by (simp add: policy_frame_def)
    with v(2) active show ?thesis
      using spend_failed_run on_success_counted by (cases q') auto
  qed
qed

text \<open>C25. A policy for a fixed number of top-ups buys at most that many, however often it is evaluated, and is then
  paused (with a stored count of zero it still buys once).\<close>

theorem fixed_count_bounds_purchases:
  assumes "each (evaluate_one env sv) (replicate k pk) (db :: order_db) = (Inr outcomes, t)"
    and "map_of (policies db) pk = Some p" "pol_renew p = FixedCount"
  shows "count_list outcomes TopSuccess \<le> max 1 (remaining p) \<and>
    (pol_status p \<noteq> PActive \<longrightarrow> count_list outcomes TopSuccess = 0)"
  using assms
proof (induction k arbitrary: db p outcomes)
  case 0
  then show ?case by (simp add: ret_def)
next
  case (Suc k)
  obtain x u rest where x: "evaluate_one env sv pk db = (Inr x, u)"
    and rest: "each (evaluate_one env sv) (replicate k pk) u = (Inr rest, t)" "outcomes = x # rest"
    using Suc.prems(1) by (auto simp: combinators_ok)
  from evaluate_counted [OF x Suc.prems(2)] obtain p' where p': "map_of (policies u) pk = Some p'" "counted p p' (Inr x)" by blast
  have "pol_renew p' = FixedCount" using p'(2) Suc.prems(3) by (simp add: counted_def)
  from Suc.IH [OF rest(1) p'(1) this] p'(2) Suc.prems(3) rest(2) show ?case
    by (auto simp: counted_def split: if_splits)
qed


section \<open>Concurrent changes\<close>

lemma policy_of_added: "policy_of esim rows = None \<Longrightarrow> pol_esim p = esim \<Longrightarrow> policy_of esim (rows @ [(pk, p)]) = Some (pk, p)"
  by (induction rows) (auto simp: policy_of_def split: if_splits)

lemma new_policy_simps [simp]:
  "pol_esim (new_policy account esim q now) = esim" "pol_version (new_policy account esim q now) = 0"
  "pol_package (new_policy account esim q now) = rq_package q"
  by (simp_all add: new_policy_def configure_def)

text \<open>A request that names another version than the stored one is refused.\<close>

definition stale :: "nat \<Rightarrow> nat option \<Rightarrow> 'x order_db_scheme \<Rightarrow> bool" where
  "stale esim expected db \<longleftrightarrow>
     (case policy_of esim (policies db) of None \<Rightarrow> expected \<noteq> None | Some (pk, p) \<Rightarrow> expected \<noteq> Some (pol_version p))"

lemma store_request_stale:
  assumes "stale esim expected db"
  shows "\<exists>e. atomic (store_request seen account esim q expected) db = (Inl e, db)"
  using assms
  by (auto simp: stale_def store_request_def insert_policy_def uuid4_def txn_defs Let_def split: option.splits)

lemma upsert_stale:
  assumes "stale (fst esim) expected db"
  shows "\<exists>e. upsert_policy seen env sv esim account user q expected actor db = (Inl e, db)"
  using store_request_stale [OF assms, of seen account q]
  by (auto simp: upsert_policy_def txn_defs split: sum.splits)

lemma delete_stale:
  assumes "stale esim expected db"
  shows "\<exists>e. delete_policy esim expected actor db = (Inl e, db)"
  using assms by (auto simp: stale_def delete_policy_def txn_defs split: option.splits)

lemma store_request_bumps:
  assumes run: "store_request seen account esim q expected db = (Inr (pk, before, p), t)"
  shows "stale esim expected t \<and> policy_of esim (policies t) = Some (pk, p) \<and>
    pol_version p = (case expected of None \<Rightarrow> 0 | Some v \<Rightarrow> v + 1)"
proof (cases "if policy_of esim seen = None then None else policy_of esim (policies db)")
  case None
  let ?p = "new_policy account esim q (clock db)"
  from None run have "expected = None" "policy_of esim (policies db) = None" "p = ?p" "policies t = policies db @ [(pk, ?p)]"
    by (auto simp: store_request_def insert_policy_def uuid4_def txn_defs Let_def
        simp del: not_None_eq split: if_splits)
  then show ?thesis by (simp add: stale_def policy_of_added)
next
  case (Some row)
  obtain k r where row: "row = (k, r)" by fastforce
  with Some have found: "policy_of esim (policies db) = Some (k, r)" by (simp split: if_splits)
  have esim: "pol_esim (changed_policy q v r) = esim" for v
    using policy_of_row [OF found] by (simp add: changed_policy_def configure_def Let_def)
  have stored: "policy_of esim (AList.update k (changed_policy q v r) (policies db)) = Some (k, changed_policy q v r)" for v
    by (rule policy_of_update [OF found esim])
  have ver: "pol_version (changed_policy q v r) = v + 1" for v
    by (simp add: changed_policy_def Let_def)
  from run Some row obtain v where "expected = Some v" "p = changed_policy q v r" "pk = k"
    "policies t = AList.update k (changed_policy q v r) (policies db)"
    by (auto simp: store_request_def update_policy_def txn_defs split: if_splits option.splits)
  then show ?thesis using stored ver by (simp add: stale_def)
qed

lemma upsert_stored:
  assumes "upsert_policy seen env sv esim account user q expected actor db = (Inr ((pk, p), resumed), t)"
  shows "\<exists>before u. store_request seen account (fst esim) q expected db = (Inr (pk, before, p), u) \<and> policies t = policies u"
proof -
  obtain r u where r: "store_request seen account (fst esim) q expected db = (r, u)" by fastforce
  show ?thesis
  proof (cases r)
    case (Inl e)
    then show ?thesis using assms r by (simp add: upsert_policy_def txn_defs split: if_splits sum.splits)
  next
    case (Inr x)
    then show ?thesis using assms r
      by (cases x) (auto simp: upsert_policy_def txn_defs publish_def split: if_splits sum.splits)
  qed
qed

text \<open>Policies are changed under optimistic locking: after a successful create or update, no other request
  that names the version it started from goes through, whether it creates, updates or deletes the policy and
  whatever it had read of the table; it raises and changes nothing.\<close>

theorem policy_change_single_winner:
  assumes run: "upsert_policy seen env sv esim account user q expected actor (db :: order_db) = (Inr ((pk, p), resumed), t)"
  shows "policy_of (fst esim) (policies t) = Some (pk, p) \<and> pol_version p = (case expected of None \<Rightarrow> 0 | Some v \<Rightarrow> v + 1) \<and>
    (\<forall>s :: order_db. policies s = policies t \<longrightarrow>
       (\<exists>e. delete_policy (fst esim) expected actor' s = (Inl e, s)) \<and>
       (\<exists>e. upsert_policy seen' env' sv' (fst esim, e') account' user' q' expected actor' s = (Inl e, s)))"
proof -
  obtain before u where u: "store_request seen account (fst esim) q expected db = (Inr (pk, before, p), u)" "policies t = policies u"
    using upsert_stored [OF run] by blast
  note bump = store_request_bumps [OF u(1)]
  have stale: "stale (fst esim) expected s" if "policies s = policies t" for s :: order_db
    using bump that u(2) unfolding stale_def by (elim conjE) (simp only:)
  show ?thesis
  proof (intro conjI allI impI)
    show "policy_of (fst esim) (policies t) = Some (pk, p)" using bump u(2) by simp
    show "pol_version p = (case expected of None \<Rightarrow> 0 | Some v \<Rightarrow> v + 1)" using bump by blast
    fix s :: order_db
    assume "policies s = policies t"
    then have s: "stale (fst (fst esim, e')) expected s" by (simp add: stale)
    show "\<exists>e. delete_policy (fst esim) expected actor' s = (Inl e, s)" using delete_stale s by simp
    show "\<exists>e. upsert_policy seen' env' sv' (fst esim, e') account' user' q' expected actor' s = (Inl e, s)"
      by (rule upsert_stale [OF s])
  qed
qed

section \<open>Examples\<close>

definition demo_auto_env :: env where
  "demo_auto_env = demo_shop_env\<lparr>isoformat := (\<lambda>t. (if t < 0 then CHR ''n'' else CHR ''p'') # replicate (nat \<bar>t\<bar>) (CHR ''0''))\<rparr>"

definition demo_services :: services where
  "demo_services = \<lparr>sv_offers = (\<lambda>_. Inr [demo_topup_package]), sv_submit = (\<lambda>_ _. Inr ''x''),
     sv_usage = (\<lambda>_. Inl (EProvider (ProviderFailed []))), sv_parse = (\<lambda>_. Inr None),
     from_iso = (\<lambda>s. case s of [] \<Rightarrow> None | c # cs \<Rightarrow> Some (if c = CHR ''n'' then - int (length cs) else int (length cs)))\<rparr>"

definition demo_expired :: esim where
  "demo_expired = (demo_esim 2)\<lparr>es_created := - 10000000000, es_usage := (es_usage (demo_esim 2))\<lparr>use_expired := Some 500, use_synced := Some 0\<rparr>\<rparr>"

definition demo_request :: policy_request where
  "demo_request = \<lparr>rq_package = ''topup-7'', rq_expiry = True, rq_usage = UsageDisabled, rq_renew = FixedCount,
     rq_threshold = None, rq_remaining = Some 2, rq_until = None, rq_enabled = True\<rparr>"

definition demo_key :: string where
  "demo_key = policy_key 9 FireExpiry (canonical_utc_stamp demo_auto_env 500)"

definition demo_auto_db :: order_db where
  "demo_auto_db = demo_topup_db\<lparr>esims := [(7, demo_expired)], policies := [(9, new_policy 2 7 demo_request 0)]\<rparr>"

lemma demo_auto_ok: "top.spend_ok demo_auto_db"
  using demo_topups_ok by (simp add: top.spend_ok_def top.view_def demo_auto_db_def)

lemma demo_iso: "from_iso demo_services (isoformat demo_auto_env x) = Some x" "isoformat demo_auto_env x \<noteq> []"
  "isoformat demo_auto_env x \<noteq> ''unknown''"
  by (simp_all add: demo_services_def demo_auto_env_def)

definition demo_replay_db :: order_db where
  "demo_replay_db = demo_auto_db\<lparr>topups := [(5, (new_topup 2 7 demo_topup_package demo_key (1, no_pricing) 1 0)\<lparr>tu_status := TFailed\<rparr>)],
     next_uuid := 6\<rparr>"

lemma demo_replay_rows:
  "policies demo_replay_db = [(9, new_policy 2 7 demo_request 0)]" "esims demo_replay_db = [(7, demo_expired)]"
  "accounts demo_replay_db = accounts demo_partner_db" "clock demo_replay_db = 1000"
  "policies demo_auto_db = [(9, new_policy 2 7 demo_request 0)]"
  by (simp_all add: demo_replay_db_def demo_auto_db_def demo_topup_db_money)

lemma demo_auto_settings: "BILLING_ENABLED demo_auto_env" "AUTO_TOPUP_ENABLED demo_auto_env"
  "AUTO_TOPUP_ROLLOUT_MODE demo_auto_env = ''all''" "AUTO_TOPUP_USAGE_MAX_AGE_SECONDS demo_auto_env = 900"
  "AUTO_TOPUP_MINIMUM_AGE_SECONDS demo_auto_env = 3600" "AUTO_TOPUP_COOLDOWN_SECONDS demo_auto_env = 600"
  by (simp_all add: demo_auto_env_def demo_shop_env_def demo_env_def)

lemma demo_lower: "lower ''all'' = ''all''"
  by code_simp

lemma demo_prepare:
  "prepare demo_auto_env demo_services 9 demo_replay_db =
    (Inr (Buy (7, demo_expired) ''topup-7'' demo_key FireExpiry 2), demo_replay_db)"
  by (simp add: prepare_def check_policy_def ensure_fresh_usage_def decide_def joined_policy_def demo_replay_rows txn_defs
      new_policy_def configure_def demo_request_def rollout_allows_account_def master_enabled_def demo_auto_settings
      usage_fresh_def demo_expired_def past_minimum_age_def demo_esim_def select_fire_reason_def expiry_met_def
      same_expiry_episode_def policy_key_def starts_with_def idempotency_key_def demo_key_def SECOND_def demo_lower Let_def)

lemma demo_replayed:
  "find_topup demo_key (topups demo_replay_db) = Some (5, (new_topup 2 7 demo_topup_package demo_key (1, no_pricing) 1 0)\<lparr>tu_status := TFailed\<rparr>)"
  "resolve_offer (sv_offers demo_services) (es_iccid demo_expired) ''topup-7'' = Inr demo_topup_package"
  by (simp_all add: demo_replay_db_def find_topup_def new_topup_def resolve_offer_def demo_services_def demo_topup_package_def)

lemma demo_replay_ok: "top.spend_ok demo_replay_db"
  by (simp add: top.spend_ok_def top.view_def row_paid_def posting_def find_entry_def demo_replay_db_def demo_auto_db_def
      demo_topup_db_money topup_debit_key_def topup_refund_key_def new_entry_def new_topup_def topup_spend_def)

theorem auto_topup_guarded_witness:
  "\<exists>t p e reason key. evaluate_one demo_auto_env demo_services 9 demo_replay_db = (Inr TopSuccess, t) \<and>
     map_of (policies demo_replay_db) 9 = Some p \<and>
     buy_guard demo_auto_env demo_services 9 p e (clock demo_replay_db) reason key \<and> top.spend_ok t"
proof -
  have key: "demo_key \<noteq> []" by (simp add: demo_key_def policy_key_def)
  note replay = buy_replay [OF demo_replayed(1) _ key _ demo_auto_settings(1), of demo_services "(7, demo_expired)" "''topup-7''" demo_topup_package 9 2]
  define t where "t = snd (evaluate_one demo_auto_env demo_services 9 demo_replay_db)"
  have run: "evaluate_one demo_auto_env demo_services 9 demo_replay_db = (Inr TopSuccess, t)"
    using replay demo_replayed(2)
    by (simp add: t_def evaluate_one_def bindE_def demo_prepare on_success_run demo_replay_rows Let_def)
  from auto_topup_guarded [OF run demo_replay_ok] run obtain p e reason key where
    "map_of (policies demo_replay_db) 9 = Some p" "buy_guard demo_auto_env demo_services 9 p e (clock demo_replay_db) reason key"
    "top.spend_ok t" by blast
  with run show ?thesis by blast
qed

theorem failed_purchase_reported_success_witness:
  "\<exists>t p'. evaluate_one demo_auto_env demo_services 9 demo_replay_db = (Inr TopSuccess, t) \<and> ledger t = ledger demo_replay_db \<and>
     map_of (policies t) 9 = Some p' \<and> pol_remaining p' = Some 1 \<and> same_expiry_episode demo_auto_env demo_services 9 p' demo_expired"
proof -
  have renew: "pol_renew (new_policy 2 7 demo_request 0) = FixedCount" "pol_remaining (new_policy 2 7 demo_request 0) = Some 2"
    by (simp_all add: new_policy_def configure_def demo_request_def)
  note claim = failed_purchase_reported_success [OF demo_prepare demo_replayed(1) _ _ demo_auto_settings(1) demo_iso]
  show ?thesis
    using claim [of demo_topup_package] demo_replayed(2) renew by (auto simp: demo_replay_rows)
qed

theorem fixed_count_bounds_purchases_witness:
  "\<exists>outcomes t. each (evaluate_one demo_auto_env demo_services) (replicate 2 9) demo_replay_db = (Inr outcomes, t) \<and>
     count_list outcomes TopSuccess \<le> 2"
proof -
  have p: "prepare demo_auto_env demo_services 9 demo_replay_db =
    (Inr (Buy (7, demo_expired) ''topup-7'' demo_key FireExpiry 2), demo_replay_db)" by (rule demo_prepare)
  define u where "u = snd (evaluate_one demo_auto_env demo_services 9 demo_replay_db)"
  define q where "q = spend_count ((new_policy 2 7 demo_request 0)\<lparr>pol_cooldown := Some 600001000, pol_last_at := Some 1000,
    pol_last_topup := Some 5, pol_last_key := demo_key\<rparr>)"
  have key: "demo_key \<noteq> []" by (simp add: demo_key_def policy_key_def)
  note replay = buy_replay [OF demo_replayed(1) _ key _ demo_auto_settings(1), of demo_services "(7, demo_expired)" "''topup-7''" demo_topup_package 9 2]
  have once: "evaluate_one demo_auto_env demo_services 9 demo_replay_db = (Inr TopSuccess, u)" and u: "policies u = [(9, q)]"
    "accounts u = accounts demo_replay_db" "users u = users demo_replay_db" "esims u = esims demo_replay_db" "clock u = 1000"
    using replay demo_replayed(2)
    by (simp_all add: u_def evaluate_one_def bindE_def p on_success_run demo_replay_rows Let_def q_def demo_auto_settings SECOND_def)
  have "prepare demo_auto_env demo_services 9 u = (Inr (Outcome TopSkipped), u)"
    by (simp add: prepare_def check_policy_def ensure_fresh_usage_def decide_def joined_policy_def u demo_replay_rows txn_defs
      q_def spend_count_def new_policy_def configure_def demo_request_def rollout_allows_account_def master_enabled_def
      demo_auto_settings usage_fresh_def demo_expired_def demo_esim_def SECOND_def demo_lower Let_def)
  then have "evaluate_one demo_auto_env demo_services 9 u = (Inr TopSkipped, u)" by (simp add: evaluate_one_def txn_defs)
  with once have run: "each (evaluate_one demo_auto_env demo_services) (replicate 2 9) demo_replay_db = (Inr [TopSuccess, TopSkipped], u)"
    by (simp add: numeral_2_eq_2 txn_defs)
  have row: "map_of (policies demo_replay_db) 9 = Some (new_policy 2 7 demo_request 0)"
    "pol_renew (new_policy 2 7 demo_request 0) = FixedCount" "remaining (new_policy 2 7 demo_request 0) = 2"
    by (simp_all add: demo_replay_rows new_policy_def configure_def demo_request_def remaining_def)
  from fixed_count_bounds_purchases [OF run row(1,2)] row(3) run show ?thesis by auto
qed

theorem policy_change_single_winner_witness:
  "\<exists>t p. upsert_policy [] demo_auto_env demo_services (7, demo_expired) 2 None demo_request None ''user'' (demo_auto_db\<lparr>policies := []\<rparr>)
      = (Inr ((3, p), False), t) \<and> pol_version p = 0 \<and>
     (\<exists>e. upsert_policy [] demo_auto_env demo_services (7, demo_expired) 2 None demo_request None ''user'' t = (Inl e, t))"
proof -
  let ?db = "demo_auto_db\<lparr>policies := []\<rparr>" and ?p = "new_policy 2 7 demo_request 1000"
  define t where "t = snd (upsert_policy [] demo_auto_env demo_services (7, demo_expired) 2 None demo_request None ''user'' ?db)"
  have run: "upsert_policy [] demo_auto_env demo_services (7, demo_expired) 2 None demo_request None ''user'' ?db = (Inr ((3, ?p), False), t)"
    unfolding t_def
    by (simp add: upsert_policy_def rollout_allows_account_def master_enabled_def demo_auto_settings demo_lower txn_defs Let_def
      demo_request_def demo_replayed(2) valid_request_def fulfilling_def demo_auto_db_def demo_topup_db_money store_request_def
      policy_of_def uuid4_def insert_policy_def publish_def)
  from policy_change_single_winner [OF run, where seen' = "[]" and env' = demo_auto_env and sv' = demo_services
      and e' = demo_expired and account' = 2 and user' = None and q' = demo_request and actor' = "''user''"]
  have "pol_version ?p = 0" "\<exists>e. upsert_policy [] demo_auto_env demo_services (7, demo_expired) 2 None demo_request None ''user'' t = (Inl e, t)"
    by simp_all
  with run show ?thesis by blast
qed

end
