(* ===== verification/Attribution.thy ===== *)
theory Attribution
  imports Spending
begin

text \<open>
  How a customer comes to a partner (ADR 023): invite links and their clicks (\<^verbatim>\<open>partner_invite.py\<close>,
  \<^verbatim>\<open>partner_invite_visit.py\<close>), the signed cookie between a click and a registration (\<^verbatim>\<open>partner_pending.py\<close>),
  and the attribution with its registration bonus (\<^verbatim>\<open>partner_attribution.py\<close>), over the rows of
  \<^verbatim>\<open>billing/partner_channel.py\<close>. Django's \<^verbatim>\<open>TimestampSigner\<close>, \<^verbatim>\<open>json\<close> and the parsers of UUIDs and dates are the
  record \<open>signer\<close>; the tokens of \<^verbatim>\<open>secrets.token_urlsafe\<close> are a list, in the order they were drawn. Log lines are
  not kept.
\<close>

section \<open>The signed cookie\<close>

record signer =
  sg_sign :: "int \<Rightarrow> string \<Rightarrow> string"
  sg_unsign :: "int \<Rightarrow> string \<Rightarrow> string option"
  sg_dumps :: "(string \<times> json) list \<Rightarrow> string"
  sg_loads :: "string \<Rightarrow> json option"
  sg_str :: "json \<Rightarrow> string"
  sg_uuid :: "string \<Rightarrow> nat option"
  sg_datetime :: "string \<Rightarrow> int option"

definition DAY :: int where "DAY = 24 * 60 * 60 * SECOND"
definition ATTRIBUTION_WINDOW :: int where "ATTRIBUTION_WINDOW = 30 * DAY"
definition PENDING_ROW_MAX_AGE :: int where "PENDING_ROW_MAX_AGE = DAY"

text \<open>\<open>now\<close> is the time \<^verbatim>\<open>TimestampSigner\<close> reads; \<open>sg_unsign\<close> refuses a signature older than thirty days.\<close>

definition sign_partner_pending :: "env \<Rightarrow> signer \<Rightarrow> nat \<Rightarrow> int \<Rightarrow> int \<Rightarrow> string" where
  "sign_partner_pending env sg visit_id issued_at now =
     sg_sign sg now (sg_dumps sg [(''visit_id'', JText (str_nat visit_id)), (''issued_at'', JText (isoformat env issued_at))])"

definition unsign_partner_pending :: "signer \<Rightarrow> int \<Rightarrow> string \<Rightarrow> (nat \<times> int) option" where
  "unsign_partner_pending sg now cookie =
     (if cookie = [] then None
      else case sg_unsign sg now cookie of
        None \<Rightarrow> None
      | Some raw \<Rightarrow> (case sg_loads sg raw of
          Some (JObj kvs) \<Rightarrow>
            (case (map_of kvs ''visit_id'', map_of kvs ''issued_at'') of
               (Some v, Some i) \<Rightarrow>
                 (case (sg_uuid sg (json_str (sg_str sg) v), sg_datetime sg (json_str (sg_str sg) i)) of
                    (Some visit_id, Some issued_at) \<Rightarrow>
                      if set (map fst kvs) \<subseteq> {''visit_id'', ''issued_at''} then Some (visit_id, issued_at) else None
                  | _ \<Rightarrow> None)
             | _ \<Rightarrow> None)
        | _ \<Rightarrow> None))"

definition pending_expires_at :: "int \<Rightarrow> int" where
  "pending_expires_at start = start + PENDING_ROW_MAX_AGE"

section \<open>Clicks\<close>

datatype utm_value = UtmText string | UtmMany "string list"

definition UTM_MAX_LENGTH :: nat where "UTM_MAX_LENGTH = 128"

definition UTM_FIELDS :: "string list" where
  "UTM_FIELDS = [''utm_source'', ''utm_medium'', ''utm_campaign'', ''utm_content'']"

definition normalize_utm_value :: "utm_value option \<Rightarrow> string" where
  "normalize_utm_value v =
     take UTM_MAX_LENGTH (case v of None \<Rightarrow> [] | Some (UtmText s) \<Rightarrow> s | Some (UtmMany []) \<Rightarrow> [] | Some (UtmMany (s # _)) \<Rightarrow> s)"

definition normalize_utm :: "(string \<rightharpoonup> utm_value) \<Rightarrow> string list" where
  "normalize_utm params = map (\<lambda>field. normalize_utm_value (params field)) UTM_FIELDS"

definition partner_invite_token_is_usable :: "string \<Rightarrow> bool" where
  "partner_invite_token_is_usable token \<longleftrightarrow> strip token \<noteq> []"

definition link_of_token :: "string \<Rightarrow> (nat \<times> invite_link) list \<Rightarrow> (nat \<times> invite_link) option" where
  "link_of_token token rows = find (\<lambda>r. link_token (snd r) = token) rows"

definition insert_visit :: "nat \<Rightarrow> visit \<Rightarrow> ('x, unit) org_txn" where
  "insert_visit pk row =
     (if (\<exists>v \<in> set (vis_utm row). UTM_MAX_LENGTH < length v) then raiseE (EPy DataError)
      else modifyE (\<lambda>db. db\<lparr>visits := visits db @ [(pk, row)]\<rparr>))"

definition record_visit :: "env \<Rightarrow> signer \<Rightarrow> string \<Rightarrow> (string \<rightharpoonup> utm_value) \<Rightarrow> ('x, ((nat \<times> visit) \<times> string) option) org_txn" where
  "record_visit env sg token utm =
     (if \<not> partner_invite_token_is_usable token \<or> \<not> PARTNER_CHANNEL_ENABLED env then ret None
      else
        atomic (
          bindE (getsE (\<lambda>db. link_of_token token (invite_links db))) (\<lambda>found.
          case found of
            None \<Rightarrow> ret None
          | Some (lpk, link) \<Rightarrow>
              if \<not> link_active link then ret None
              else
                bindE uuid4 (\<lambda>pk.
                bindE (getsE clock) (\<lambda>now.
                let row = \<lparr>vis_link = lpk, vis_utm = normalize_utm utm, vis_created = now\<rparr>
                in thenE (insert_visit pk row)
                     (ret (Some ((pk, row), sign_partner_pending env sg pk now now))))))))"

definition issue_join_signature :: "env \<Rightarrow> signer \<Rightarrow> string \<Rightarrow> (string \<rightharpoonup> utm_value) \<Rightarrow> ('x, string option) org_txn" where
  "issue_join_signature env sg token utm =
     bindE (record_visit env sg token utm) (\<lambda>recorded. ret (map_option snd recorded))"

definition visit_predates_regeneration :: "visit \<Rightarrow> invite_link \<Rightarrow> bool" where
  "visit_predates_regeneration v link \<longleftrightarrow> (case link_regenerated link of None \<Rightarrow> False | Some t \<Rightarrow> vis_created v < t)"

text \<open>A visit that may still be used, with the link it clicked.\<close>

definition validate_invite_visit :: "nat \<Rightarrow> bool \<Rightarrow> 'x org_db_scheme \<Rightarrow> (visit \<times> nat \<times> invite_link) option" where
  "validate_invite_visit visit_id check_window db =
     (case map_of (visits db) visit_id of
        None \<Rightarrow> None
      | Some v \<Rightarrow> (case map_of (invite_links db) (vis_link v) of
          None \<Rightarrow> None
        | Some link \<Rightarrow>
            if \<not> link_active link \<or> visit_predates_regeneration v link \<or>
               check_window \<and> vis_created v < clock db - ATTRIBUTION_WINDOW
            then None
            else Some (v, vis_link v, link)))"

section \<open>Attributions\<close>

text \<open>The strings copied from the link and the click, in the order of the columns.\<close>

definition invite_snapshot_from_visit :: "visit \<Rightarrow> invite_link \<Rightarrow> string list" where
  "invite_snapshot_from_visit v link =
     [link_name link, link_source link, link_campaign link, link_content link] @ vis_utm v"

definition insert_attribution :: "nat \<Rightarrow> attribution \<Rightarrow> ('x, unit) org_txn" where
  "insert_attribution pk row =
     bindE (getsE attributions) (\<lambda>rows.
     if attribution_of (att_user row) rows \<noteq> None then raiseE (EPy IntegrityError)
     else modifyE (\<lambda>db. db\<lparr>attributions := attributions db @ [(pk, row)]\<rparr>))"

text \<open>\<^verbatim>\<open>_insert_attribution\<close>: from a click.\<close>

definition attribute_visit ::
  "nat \<Rightarrow> nat \<Rightarrow> visit \<times> nat \<times> invite_link \<Rightarrow> bool \<Rightarrow> ('x, nat \<times> attribution) org_txn" where
  "attribute_visit user visit_id = (\<lambda>(v, lpk, link) registered.
     bindE (getsE (\<lambda>db. map_of (channels db) (link_channel link))) (\<lambda>found.
     bindE (get_or_raise (EPy ObjectDoesNotExist) found) (\<lambda>ch.
     thenE (ensure_current_attribution_allowed user ch)
     (bindE (getsE clock) (\<lambda>now.
      bindE uuid4 (\<lambda>pk.
      let row = \<lparr>att_user = user, att_channel = link_channel link, att_source = SourceInviteLink, att_link = Some lpk,
                 att_visit = Some visit_id, att_token = Some (link_token link), att_registered = registered,
                 att_snapshot = invite_snapshot_from_visit v link,
                 att_bonus = (if registered then Some (link_bonus link) else None), att_at = now\<rparr>
      in thenE (insert_attribution pk row) (ret (pk, row))))))))"

definition bonus_key :: "nat \<Rightarrow> string" where
  "bonus_key user = ''invite-registration-bonus:'' @ str_nat user"

definition credit_registration_invite_bonus :: "nat \<times> attribution \<Rightarrow> ('x, unit) org_txn" where
  "credit_registration_invite_bonus att =
     (if \<not> att_registered (snd att) then ret ()
      else case att_bonus (snd att) of
        None \<Rightarrow> ret ()
      | Some amount \<Rightarrow>
          if amount \<le> 0 then ret ()
          else
            bindE (getsE (\<lambda>db. account_of_user (att_user (snd att)) (accounts db))) (\<lambda>found.
            bindE (get_or_raise (EPy ObjectDoesNotExist) found) (\<lambda>account.
            thenE (credit (fst account) (DecimalArg (Finite amount)) (RefEnum PARTNER_INVITE_BONUS) (str_nat (fst att))
                     (bonus_key (att_user (snd att)))) (ret ()))))"

subsection \<open>Pending rows\<close>

definition pending_of :: "nat \<Rightarrow> (nat \<times> pending) list \<Rightarrow> (nat \<times> pending) option" where
  "pending_of user rows = find (\<lambda>r. pen_user (snd r) = user) rows"

definition delete_pending :: "nat \<Rightarrow> ('x, unit) org_txn" where
  "delete_pending pk = modifyE (\<lambda>db. db\<lparr>pendings := AList.delete pk (pendings db)\<rparr>)"

definition insert_pending :: "nat \<Rightarrow> pending \<Rightarrow> ('x, unit) org_txn" where
  "insert_pending pk row =
     bindE (getsE pendings) (\<lambda>rows.
     if pending_of (pen_user row) rows \<noteq> None then raiseE (EPy IntegrityError)
     else modifyE (\<lambda>db. db\<lparr>pendings := pendings db @ [(pk, row)]\<rparr>))"

text \<open>\<open>active\<close> is \<^verbatim>\<open>user.is_active\<close> of the object in memory; \<open>cookie\<close> the cookie, \<open>None\<close> or empty when there is none.\<close>

definition record_pending_for_new_user :: "env \<Rightarrow> signer \<Rightarrow> nat \<Rightarrow> bool \<Rightarrow> string \<Rightarrow> ('x, unit) org_txn" where
  "record_pending_for_new_user env sg user active cookie =
     (if cookie = [] \<or> \<not> PARTNER_CHANNEL_ENABLED env \<or> active then ret ()
      else
        bindE (getsE (\<lambda>db. attribution_of user (attributions db) \<noteq> None \<or> pending_of user (pendings db) \<noteq> None)) (\<lambda>known.
        if known then ret ()
        else
          bindE (getsE (\<lambda>db. unsign_partner_pending sg (clock db) cookie)) (\<lambda>payload.
          case payload of
            None \<Rightarrow> ret ()
          | Some (visit_id, _) \<Rightarrow>
              atomic (
                bindE (getsE (validate_invite_visit visit_id True)) (\<lambda>found.
                case found of
                  None \<Rightarrow> ret ()
                | Some (v, lpk, link) \<Rightarrow>
                    bindE (getsE clock) (\<lambda>now.
                    bindE uuid4 (\<lambda>pk.
                    insert_pending pk \<lparr>pen_user = user, pen_channel = link_channel link, pen_token = link_token link,
                      pen_visit = Some visit_id, pen_expires = pending_expires_at now\<rparr>)))))))"

text \<open>The canonical link of a channel: the smallest \<^verbatim>\<open>(created_at, id)\<close>.\<close>

definition canonical_invite_link :: "nat \<Rightarrow> (nat \<times> invite_link) list \<Rightarrow> (nat \<times> invite_link) option" where
  "canonical_invite_link ch rows =
     find (\<lambda>r. link_channel (snd r) = ch) (sort_key (\<lambda>r. link_created (snd r)) (sort_key fst rows))"

text \<open>\<^verbatim>\<open>except PartnerSelfReferralConflict: return\<close>; the pending row stays.\<close>

definition unless_self_referral :: "('x, unit) org_txn \<Rightarrow> ('x, 'a) org_txn \<Rightarrow> ('a \<Rightarrow> ('x, unit) org_txn) \<Rightarrow> ('x, unit) org_txn" where
  "unless_self_referral kept m k =
     bindE (catchE (bindE m (\<lambda>x. ret (Some x)))
              (\<lambda>e. if e = EPartner PartnerSelfReferralConflict then ret None else raiseE e)) (\<lambda>r.
     case r of None \<Rightarrow> kept | Some x \<Rightarrow> k x)"

definition locked_user :: "nat \<Rightarrow> ('x, user_row) org_txn" where
  "locked_user user =
     bindE (getsE (\<lambda>db. map_of (users db) user)) (\<lambda>row. get_or_raise (EPy ObjectDoesNotExist) row)"

text \<open>The last step of \<^verbatim>\<open>_apply_legacy_pending\<close>: an attribution without a click.\<close>

definition settle_legacy :: "nat \<Rightarrow> nat \<Rightarrow> nat \<Rightarrow> pending \<Rightarrow> channel \<Rightarrow> ('x, unit) org_txn" where
  "settle_legacy user ppk lpk locked ch =
     unless_self_referral (ret ()) (ensure_current_attribution_allowed user ch) (\<lambda>_.
     bindE (getsE clock) (\<lambda>now.
     bindE uuid4 (\<lambda>pk.
     thenE (insert_attribution pk \<lparr>att_user = user, att_channel = pen_channel locked, att_source = SourceInviteLink,
              att_link = Some lpk, att_visit = None, att_token = Some (pen_token locked), att_registered = False,
              att_snapshot = replicate 8 [], att_bonus = None, att_at = now\<rparr>)
       (delete_pending ppk))))"

definition apply_legacy_pending :: "nat \<Rightarrow> nat \<times> pending \<Rightarrow> ('x, unit) org_txn" where
  "apply_legacy_pending user pending =
     bindE (getsE (\<lambda>db. canonical_invite_link (pen_channel (snd pending)) (invite_links db))) (\<lambda>found.
     case found of
       None \<Rightarrow> delete_pending (fst pending)
     | Some (lpk, link) \<Rightarrow>
         if \<not> link_active link \<or> link_token link \<noteq> pen_token (snd pending) then delete_pending (fst pending)
         else
           atomic (
             thenE (locked_user user)
             (bindE (getsE (\<lambda>db. map_of (pendings db) (fst pending))) (\<lambda>row.
              case row of
                None \<Rightarrow> ret ()
              | Some locked \<Rightarrow>
                  bindE (getsE (\<lambda>db. attribution_of user (attributions db))) (\<lambda>known.
                  if known \<noteq> None then delete_pending (fst pending)
                  else
                    bindE (getsE (\<lambda>db. map_of (channels db) (pen_channel locked))) (\<lambda>found.
                    bindE (get_or_raise (EPy ObjectDoesNotExist) found) (\<lambda>ch.
                    settle_legacy user (fst pending) lpk locked ch)))))))"

text \<open>The last step of each block of \<^verbatim>\<open>apply_pending_on_activation\<close>, once the checks have passed.\<close>

definition settle_click :: "nat \<Rightarrow> nat \<Rightarrow> nat \<times> visit \<times> nat \<times> invite_link \<Rightarrow> ('x, unit) org_txn" where
  "settle_click user ppk = (\<lambda>(visit_id, visit).
     unless_self_referral (ret ()) (attribute_visit user visit_id visit True) (\<lambda>att.
     thenE (credit_registration_invite_bonus att) (delete_pending ppk)))"

definition apply_visit_pending :: "nat \<Rightarrow> nat \<Rightarrow> ('x, unit) org_txn" where
  "apply_visit_pending user ppk =
     atomic (
       thenE (locked_user user)
       (bindE (getsE (\<lambda>db. map_of (pendings db) ppk)) (\<lambda>row.
        case row of
          None \<Rightarrow> ret ()
        | Some locked \<Rightarrow>
            bindE (getsE clock) (\<lambda>now.
            if pen_expires locked \<le> now then delete_pending ppk
            else
              bindE (getsE (\<lambda>db. attribution_of user (attributions db))) (\<lambda>known.
              if known \<noteq> None then delete_pending ppk
              else
                bindE (getsE (\<lambda>db. case pen_visit locked of None \<Rightarrow> None
                               | Some v \<Rightarrow> map_option (Pair v) (validate_invite_visit v False db))) (\<lambda>found.
                case found of
                  None \<Rightarrow> delete_pending ppk
                | Some visit \<Rightarrow> settle_click user ppk visit))))))"

definition apply_pending_on_activation :: "env \<Rightarrow> nat \<Rightarrow> ('x, unit) org_txn" where
  "apply_pending_on_activation env user =
     bindE (getsE (\<lambda>db. pending_of user (pendings db))) (\<lambda>found.
     case found of
       None \<Rightarrow> ret ()
     | Some (ppk, p) \<Rightarrow>
         bindE (getsE clock) (\<lambda>now.
         if pen_expires p \<le> now then delete_pending ppk
         else
           bindE (getsE (\<lambda>db. attribution_of user (attributions db))) (\<lambda>known.
           if known \<noteq> None then delete_pending ppk
           else if \<not> PARTNER_CHANNEL_ENABLED env then ret ()
           else case pen_visit p of
             None \<Rightarrow> apply_legacy_pending user (ppk, p)
           | Some _ \<Rightarrow> apply_visit_pending user ppk)))"

subsection \<open>Attribution without a pending row\<close>

definition attribute_created_invite :: "env \<Rightarrow> signer \<Rightarrow> nat \<Rightarrow> string \<Rightarrow> ('x, unit) org_txn" where
  "attribute_created_invite env sg user cookie =
     (if cookie = [] \<or> \<not> PARTNER_CHANNEL_ENABLED env then ret ()
      else
        bindE (getsE (\<lambda>db. unsign_partner_pending sg (clock db) cookie)) (\<lambda>payload.
        case payload of
          None \<Rightarrow> ret ()
        | Some (visit_id, _) \<Rightarrow>
            atomic (
              thenE (locked_user user)
              (bindE (getsE (\<lambda>db. attribution_of user (attributions db))) (\<lambda>known.
               if known \<noteq> None then ret ()
               else
                 bindE (getsE (validate_invite_visit visit_id True)) (\<lambda>found.
                 case found of
                   None \<Rightarrow> ret ()
                 | Some visit \<Rightarrow>
                     bindE (attribute_visit user visit_id visit True) credit_registration_invite_bonus))))))"

datatype consumed = Created | Noop | Ignored

definition consume_partner_pending :: "env \<Rightarrow> signer \<Rightarrow> nat \<Rightarrow> string \<Rightarrow> ('x, consumed) org_txn" where
  "consume_partner_pending env sg user cookie =
     bindE (getsE (\<lambda>db. attribution_of user (attributions db))) (\<lambda>known.
     if known \<noteq> None then ret Noop
     else if cookie = [] \<or> \<not> PARTNER_CHANNEL_ENABLED env then ret Ignored
     else
       bindE (getsE (\<lambda>db. unsign_partner_pending sg (clock db) cookie)) (\<lambda>payload.
       case payload of
         None \<Rightarrow> ret Ignored
       | Some (visit_id, _) \<Rightarrow>
           catchE (atomic (
             thenE (locked_user user)
             (bindE (getsE (\<lambda>db. attribution_of user (attributions db))) (\<lambda>known.
              if known \<noteq> None then ret Noop
              else
                bindE (getsE (\<lambda>db. pending_of user (pendings db))) (\<lambda>pending.
                if pending \<noteq> None then ret Ignored
                else
                  bindE (getsE (validate_invite_visit visit_id True)) (\<lambda>found.
                  case found of
                    None \<Rightarrow> ret Ignored
                  | Some visit \<Rightarrow> thenE (attribute_visit user visit_id visit False) (ret Created)))))))
             (\<lambda>e. if e = EPy IntegrityError then ret Noop else raiseE e)))"

subsection \<open>Staff\<close>

definition assign_customer_attribution :: "nat \<Rightarrow> nat \<times> channel \<Rightarrow> nat option \<Rightarrow> ('x, nat) org_txn" where
  "assign_customer_attribution user ch actor =
     (if actor = None then raiseE (EPy ValueError)
      else
        atomic (
          thenE (locked_user user)
          (bindE (getsE (\<lambda>db. attribution_of user (attributions db))) (\<lambda>known.
           if known \<noteq> None then raiseE (EPartner CustomerAttributionExists)
           else
             thenE (ensure_current_attribution_allowed user (snd ch))
             (bindE (getsE clock) (\<lambda>now.
              bindE uuid4 (\<lambda>pk.
              thenE (insert_attribution pk \<lparr>att_user = user, att_channel = fst ch, att_source = SourceAdmin, att_link = None,
                       att_visit = None, att_token = None, att_registered = False, att_snapshot = replicate 8 [],
                       att_bonus = None, att_at = now\<rparr>)
                (ret pk))))))))"

definition transfer_customer_attribution :: "nat \<Rightarrow> nat \<times> channel \<Rightarrow> ('x, nat) org_txn" where
  "transfer_customer_attribution user ch =
     atomic (
       thenE (locked_user user)
       (bindE (getsE (\<lambda>db. attribution_of user (attributions db))) (\<lambda>found.
        bindE (get_or_raise (EPy ObjectDoesNotExist) found) (\<lambda>att.
        if att_channel (snd att) = fst ch then ret (fst att)
        else
          thenE (lock_self_referral_rows user)
          (thenE (ensure_current_attribution_allowed user (snd ch))
          (thenE (modifyE (\<lambda>db. db\<lparr>attributions := AList.update (fst att) ((snd att)\<lparr>att_channel := fst ch\<rparr>) (attributions db)\<rparr>))
            (ret (fst att))))))))"

section \<open>Invite links and channels\<close>

text \<open>\<^verbatim>\<open>PartnerInviteLink.save\<close>: a usable token, and fields that are frozen once the link was clicked. With
  \<^verbatim>\<open>update_fields\<close> the callers write the columns they changed in the locked row, which is the same row.\<close>

definition frozen_values_changed :: "invite_link \<Rightarrow> invite_link \<Rightarrow> bool" where
  "frozen_values_changed old new \<longleftrightarrow> link_channel new \<noteq> link_channel old \<or> link_source new \<noteq> link_source old \<or>
     link_campaign new \<noteq> link_campaign old \<or> link_content new \<noteq> link_content old"

definition save_invite_link :: "nat \<Rightarrow> invite_link \<Rightarrow> ('x, unit) org_txn" where
  "save_invite_link pk row =
     (if \<not> partner_invite_token_is_usable (link_token row) then raiseE (EPy ValidationError)
      else
        bindE (getsE (\<lambda>db. (map_of (invite_links db) pk, \<exists>v \<in> set (visits db). vis_link (snd v) = pk))) (\<lambda>(old, visited).
        if visited \<and> (case old of None \<Rightarrow> False | Some o' \<Rightarrow> frozen_values_changed o' row) then raiseE (EPy AppendOnlyViolation)
        else
          bindE (liftE (numeric_20_6 (link_bonus row))) (\<lambda>bonus.
          bindE (getsE (\<lambda>db. \<exists>r \<in> set (invite_links db). fst r \<noteq> pk \<and> link_token (snd r) = link_token row)) (\<lambda>taken.
          if 64 < length (link_token row) \<or> 128 < length (link_name row) \<or> 64 < length (link_source row) \<or>
             64 < length (link_campaign row) \<or> 64 < length (link_content row)
          then raiseE (EPy DataError)
          else if taken \<or> bonus < 0 then raiseE (EPy IntegrityError)
          else modifyE (\<lambda>db. db\<lparr>invite_links := AList.update pk (row\<lparr>link_bonus := bonus\<rparr>) (invite_links db)\<rparr>)))))"

text \<open>\<open>draw n\<close> is the token drawn when \<open>n\<close> attempts are left after it.\<close>

fun persist_with_unique_invite_token :: "nat \<Rightarrow> (nat \<Rightarrow> string) \<Rightarrow> (string \<Rightarrow> ('x, unit) org_txn) \<Rightarrow> ('x, string) org_txn" where
  "persist_with_unique_invite_token 0 draw persist = raiseE (EPartner PartnerInviteError)"
| "persist_with_unique_invite_token (Suc n) draw persist =
     catchE (thenE (atomic (persist (draw n))) (ret (draw n)))
       (\<lambda>e. if e = EPy IntegrityError then persist_with_unique_invite_token n draw persist else raiseE e)"

definition INVITE_TOKEN_ATTEMPTS :: nat where "INVITE_TOKEN_ATTEMPTS = 5"

definition regenerate_invite_link :: "(nat \<Rightarrow> string) \<Rightarrow> nat \<Rightarrow> ('x, nat \<times> invite_link) org_txn" where
  "regenerate_invite_link draw ch =
     atomic (
       bindE (getsE (\<lambda>db. canonical_invite_link ch (invite_links db))) (\<lambda>found.
       bindE (get_or_raise (EPy ObjectDoesNotExist) found) (\<lambda>(pk, link).
       bindE (getsE clock) (\<lambda>now.
       let fresh = (\<lambda>token. link\<lparr>link_token := token, link_regenerated := Some now\<rparr>)
       in bindE (persist_with_unique_invite_token INVITE_TOKEN_ATTEMPTS draw (\<lambda>token. save_invite_link pk (fresh token))) (\<lambda>token.
          thenE (modifyE (\<lambda>db. db\<lparr>pendings := filter (\<lambda>r. \<not> (pen_channel (snd r) = ch \<and> pen_token (snd r) = link_token link)) (pendings db)\<rparr>))
            (ret (pk, fresh token)))))))"

definition set_invite_active :: "nat \<Rightarrow> bool \<Rightarrow> ('x, nat \<times> invite_link) org_txn" where
  "set_invite_active ch active =
     atomic (
       bindE (getsE (\<lambda>db. canonical_invite_link ch (invite_links db))) (\<lambda>found.
       bindE (get_or_raise (EPy ObjectDoesNotExist) found) (\<lambda>(pk, link).
       if link_active link = active then ret (pk, link)
       else thenE (save_invite_link pk (link\<lparr>link_active := active\<rparr>)) (ret (pk, link\<lparr>link_active := active\<rparr>)))))"

record invite_link_view =
  view_url :: string
  view_active :: bool
  view_created :: int
  view_regenerated :: "int option"

definition link_view :: "env \<Rightarrow> invite_link \<Rightarrow> invite_link_view" where
  "link_view env link =
     \<lparr>view_url = rev (dropWhile (\<lambda>c. c = CHR ''/'') (rev (PARTNER_JOIN_BASE_URL env))) @ ''/join/'' @ link_token link, view_active = link_active link,
      view_created = link_created link, view_regenerated = link_regenerated link\<rparr>"

definition invite_link_for :: "env \<Rightarrow> nat \<Rightarrow> ('x, invite_link_view) org_txn" where
  "invite_link_for env ch =
     bindE (getsE (\<lambda>db. canonical_invite_link ch (invite_links db))) (\<lambda>found.
     bindE (get_or_raise (EPy ObjectDoesNotExist) found) (\<lambda>link. ret (link_view env (snd link))))"

text \<open>The constraints of \<^verbatim>\<open>PartnerChannel\<close>: share, ownership, one channel per owner.\<close>

definition save_channel :: "nat \<Rightarrow> channel \<Rightarrow> ('x, unit) org_txn" where
  "save_channel pk row =
     bindE (liftE (numeric_5_2 (revenue_share_percent row))) (\<lambda>share.
     bindE (getsE (\<lambda>db. \<exists>r \<in> set (channels db). fst r \<noteq> pk \<and>
              (ch_owner row \<noteq> None \<and> ch_owner (snd r) = ch_owner row \<or> ch_org row \<noteq> None \<and> ch_org (snd r) = ch_org row))) (\<lambda>taken.
     let row' = row\<lparr>revenue_share_percent := share\<rparr>
     in if taken \<or> \<not> channel_ok row' then raiseE (EPy IntegrityError)
        else modifyE (\<lambda>db. db\<lparr>channels := AList.update pk row' (channels db)\<rparr>)))"

text \<open>An attempt that draws tokens ends the loop: running out of them is not an \<^verbatim>\<open>IntegrityError\<close>.\<close>

definition create_channel_and_link ::
  "(nat \<Rightarrow> string) \<Rightarrow> channel_kind \<Rightarrow> nat option \<Rightarrow> nat option \<Rightarrow> rat \<Rightarrow> ('x, nat) org_txn" where
  "create_channel_and_link draw kind owner org share =
     retry 5
       (atomic (
          bindE uuid4 (\<lambda>pk.
          thenE (save_channel pk \<lparr>ch_kind = kind, ch_owner = owner, ch_org = org, revenue_share_percent = share, ch_active = True\<rparr>)
          (bindE uuid4 (\<lambda>lpk.
           bindE (getsE clock) (\<lambda>now.
           thenE (persist_with_unique_invite_token INVITE_TOKEN_ATTEMPTS draw (\<lambda>token.
                    save_invite_link lpk \<lparr>link_channel = pk, link_token = token, link_name = [], link_bonus = 0, link_source = [],
                      link_campaign = [], link_content = [], link_active = True, link_created = now, link_regenerated = None\<rparr>))
             (ret pk)))))))
       (raiseE (EPartner PartnerInviteError))"

definition create_individual_partner_channel :: "(nat \<Rightarrow> string) \<Rightarrow> nat \<Rightarrow> rat \<Rightarrow> ('x, nat) org_txn" where
  "create_individual_partner_channel draw owner share =
     bindE (getsE (\<lambda>db. account_of_user owner (accounts db))) (\<lambda>found.
     case found of
       None \<Rightarrow> raiseE (EPartner PartnerInviteError)
     | Some a \<Rightarrow>
         if acc_kind (snd a) \<noteq> PERSONAL then raiseE (EPartner PartnerInviteError)
         else create_channel_and_link draw KindIndividual (Some owner) None share)"

text \<open>\<open>team_account\<close> is \<^verbatim>\<open>organization.account_id\<close>, which an unsaved organization does not have.\<close>

definition create_partner_channel :: "(nat \<Rightarrow> string) \<Rightarrow> nat \<Rightarrow> nat option \<Rightarrow> rat \<Rightarrow> ('x, nat) org_txn" where
  "create_partner_channel draw org team_account share =
     (if team_account = None then raiseE (EPartner PartnerInviteError)
      else create_channel_and_link draw KindTeam None (Some org) share)"

definition update_partner_channel_settings :: "nat \<Rightarrow> bool \<Rightarrow> rat \<Rightarrow> ('x, nat) org_txn" where
  "update_partner_channel_settings pk active share =
     atomic (
       bindE (getsE (\<lambda>db. map_of (channels db) pk)) (\<lambda>found.
       bindE (get_or_raise (EPy ObjectDoesNotExist) found) (\<lambda>row.
       thenE (save_channel pk (row\<lparr>ch_active := active, revenue_share_percent := share\<rparr>)) (ret pk))))"

section \<open>The invariant\<close>

declare not_None_eq [simp del] split_paired_All [simp del] split_paired_Ex [simp del]

text \<open>What the ledger owes the new customer of a registration through an invite.\<close>

definition bonus_due :: "attribution \<Rightarrow> rat option" where
  "bonus_due a =
     (if att_registered a then (case att_bonus a of None \<Rightarrow> None | Some x \<Rightarrow> if 0 < x then Some x else None) else None)"

definition bonus_paid :: "'x org_db_scheme \<Rightarrow> nat \<Rightarrow> bool" where
  "bonus_paid db u \<longleftrightarrow>
     (case attribution_of u (attributions db) of
        None \<Rightarrow> posting (ledger db) (bonus_key u) = None
      | Some a \<Rightarrow>
          (case bonus_due (snd a) of
             None \<Rightarrow> posting (ledger db) (bonus_key u) = None
           | Some x \<Rightarrow> (\<exists>q. find (\<lambda>q. fst (snd q) = Some u) (owners db) = Some q \<and>
                 posting (ledger db) (bonus_key u) = Some (fst q, x))))"

definition attributions_ok :: "'x org_db_scheme \<Rightarrow> bool" where
  "attributions_ok db \<longleftrightarrow>
     distinct (map fst (attributions db)) \<and> distinct (map (\<lambda>r. att_user (snd r)) (attributions db)) \<and>
     (\<forall>r \<in> set (attributions db). fst r < next_uuid db) \<and> (\<forall>u. bonus_paid db u)"

definition links_ok :: "'x org_db_scheme \<Rightarrow> bool" where
  "links_ok db \<longleftrightarrow>
     distinct (map fst (invite_links db)) \<and> distinct (map (\<lambda>r. link_token (snd r)) (invite_links db)) \<and>
     (\<forall>r \<in> set (invite_links db). fst r < next_uuid db \<and> partner_invite_token_is_usable (link_token (snd r)) \<and>
        on_grid MONEY_QUANT (link_bonus (snd r)) \<and> 0 \<le> link_bonus (snd r)) \<and>
     (\<forall>c \<in> set (channels db). \<exists>l \<in> set (invite_links db). link_channel (snd l) = fst c)"

definition joins_ok :: "'x org_db_scheme \<Rightarrow> bool" where
  "joins_ok db \<longleftrightarrow> team_base db \<and> attributions_ok db \<and> links_ok db"

text \<open>Rows are never removed, and of a row only the channel changes.\<close>

definition kept_attributions :: "'x org_db_scheme \<Rightarrow> 'x org_db_scheme \<Rightarrow> bool" where
  "kept_attributions db t \<longleftrightarrow>
     (\<forall>pk a. map_of (attributions db) pk = Some a \<longrightarrow> (\<exists>c. map_of (attributions t) pk = Some (a\<lparr>att_channel := c\<rparr>)))"

definition entry_since :: "'x org_db_scheme \<Rightarrow> 'x org_db_scheme \<Rightarrow> bool" where
  "entry_since db t \<longleftrightarrow> joins_ok t \<and> kept_attributions db t"

lemma kept_refl [simp]: "kept_attributions db db"
proof (unfold kept_attributions_def, intro allI impI)
  fix pk a
  assume "map_of (attributions db) pk = Some a"
  then show "\<exists>c. map_of (attributions db) pk = Some (a\<lparr>att_channel := c\<rparr>)" by (intro exI [of _ "att_channel a"]) simp
qed

lemma kept_added: "kept_attributions db s \<Longrightarrow> attributions t = attributions s @ rows \<Longrightarrow> kept_attributions db t"
proof (unfold kept_attributions_def, intro allI impI)
  fix pk a
  assume s: "\<forall>pk a. map_of (attributions db) pk = Some a \<longrightarrow> (\<exists>c. map_of (attributions s) pk = Some (a\<lparr>att_channel := c\<rparr>))"
    and t: "attributions t = attributions s @ rows" and a: "map_of (attributions db) pk = Some a"
  then obtain c where "map_of (attributions s) pk = Some (a\<lparr>att_channel := c\<rparr>)" by blast
  then have "map_of (attributions t) pk = Some (a\<lparr>att_channel := c\<rparr>)" by (simp add: t map_add_Some_iff)
  then show "\<exists>c. map_of (attributions t) pk = Some (a\<lparr>att_channel := c\<rparr>)" ..
qed

lemma attribution_of_added: "attribution_of u (rows @ [(pk, row)]) =
    (case attribution_of u rows of None \<Rightarrow> if att_user row = u then Some (pk, row) else None | Some a \<Rightarrow> Some a)"
  by (induction rows) (auto simp: attribution_of_def)

lemma attribution_of_Some: "attribution_of u rows = Some a \<Longrightarrow> a \<in> set rows \<and> att_user (snd a) = u"
  by (auto simp: attribution_of_def dest: find_in)

lemma attribution_of_None: "attribution_of u rows = None \<longleftrightarrow> u \<notin> (\<lambda>r. att_user (snd r)) ` set rows"
  by (auto simp: attribution_of_def find_None_iff)

lemma bonus_key_inject [simp]: "bonus_key u = bonus_key v \<longleftrightarrow> u = v"
  by (simp add: bonus_key_def)

text \<open>Tables the invariant does not read.\<close>

lemma bonus_paid_cong:
  "attributions t = attributions db \<Longrightarrow> ledger t = ledger db \<Longrightarrow> owners t = owners db \<Longrightarrow> bonus_paid t = bonus_paid db"
  unfolding bonus_paid_def [abs_def] by (simp only:)

lemma entry_cong:
  assumes "attributions t = attributions db" "ledger t = ledger db" "owners t = owners db" "channels t = channels db"
    "memberships t = memberships db" "organizations t = organizations db" "invite_links t = invite_links db" "next_uuid t = next_uuid db"
  shows "joins_ok t = joins_ok db"
  using assms bonus_paid_cong [of t db]
  by (simp add: joins_ok_def team_base_def no_self_referral_def attributed_to_def own_channel_def active_member_def
      attributions_ok_def links_ok_def)

lemma entry_frame [simp]:
  "joins_ok (db\<lparr>visits := vs\<rparr>) = joins_ok db" "joins_ok (db\<lparr>pendings := ps\<rparr>) = joins_ok db"
  "entry_since db' (db\<lparr>visits := vs\<rparr>) = entry_since db' db" "entry_since db' (db\<lparr>pendings := ps\<rparr>) = entry_since db' db"
proof -
  show ok: "joins_ok (db\<lparr>visits := vs\<rparr>) = joins_ok db" "joins_ok (db\<lparr>pendings := ps\<rparr>) = joins_ok db"
    by (rule entry_cong; simp add: owners_def)+
  show "entry_since db' (db\<lparr>visits := vs\<rparr>) = entry_since db' db" "entry_since db' (db\<lparr>pendings := ps\<rparr>) = entry_since db' db"
    by (simp_all add: entry_since_def kept_attributions_def ok)
qed

lemma entry_next: "joins_ok db \<Longrightarrow> joins_ok (db\<lparr>next_uuid := Suc (next_uuid db)\<rparr>)"
  using team_base_next [of db] bonus_paid_cong [of "db\<lparr>next_uuid := Suc (next_uuid db)\<rparr>" db]
  by (auto simp: joins_ok_def attributions_ok_def links_ok_def less_SucI)

lemma keeps_entry_uuid4 [keeps_intros]: "keeps (entry_since db) uuid4"
  by (auto simp: keeps_def uuid4_def entry_since_def entry_next kept_attributions_def)

lemma keeps_entry_rows [keeps_intros]:
  "keeps (entry_since db) (insert_visit pk v)" "keeps (entry_since db) (insert_pending pk p)" "keeps (entry_since db) (delete_pending pk)"
  unfolding insert_visit_def insert_pending_def delete_pending_def by (intro keeps_intros; simp)+

lemma ensure_allowed_run:
  assumes "ensure_current_attribution_allowed user ch db = (r, t)"
  shows "t = db \<and> (r = Inr () \<longrightarrow> \<not> own_channel db user ch)"
  using assms
  by (auto simp: ensure_current_attribution_allowed_def lock_self_referral_rows_def own_channel_def txn_iff
      split: if_splits channel_kind.splits option.splits)

lemma keeps_entry_ensure [keeps_intros]: "keeps I (ensure_current_attribution_allowed user ch)"
  by (rule keepsI) (auto dest!: ensure_allowed_run)

text \<open>A new attribution, with what was posted for it.\<close>

lemma attribution_added:
  assumes ok: "joins_ok db" and new: "attribution_of (att_user row) (attributions db) = None"
    and ch: "map_of (channels db) (att_channel row) = Some ch" "\<not> own_channel db (att_user row) ch"
    and t: "attributions t = attributions db @ [(next_uuid db, row)]" "next_uuid db < next_uuid t"
      "channels t = channels db" "memberships t = memberships db" "organizations t = organizations db"
      "invite_links t = invite_links db" "owners t = owners db"
    and posted: "\<And>u. u \<noteq> att_user row \<Longrightarrow> posting (ledger t) (bonus_key u) = posting (ledger db) (bonus_key u)"
      "case bonus_due row of None \<Rightarrow> posting (ledger t) (bonus_key (att_user row)) = None
       | Some x \<Rightarrow> \<exists>q. find (\<lambda>q. fst (snd q) = Some (att_user row)) (owners db) = Some q \<and>
           posting (ledger t) (bonus_key (att_user row)) = Some (fst q, x)"
  shows "joins_ok t"
proof -
  have base: "team_base db" and att: "attributions_ok db" and links: "links_ok db" using ok by (simp_all add: joins_ok_def)
  have own: "own_channel t = own_channel db" by (simp add: own_channel_def [abs_def] active_member_def [abs_def] t)
  have "attributed_to t u c \<longleftrightarrow> attributed_to db u c \<or> u = att_user row \<and> c = ch" for u c
    using ch(1) by (auto simp: attributed_to_def t)
  then have "no_self_referral t" using base ch(2) by (auto simp: team_base_def no_self_referral_def own)
  then have "team_base t"
    using base map_of_in_keys [OF ch(1)] t(2) unfolding team_base_def t(1,3-5) by (auto intro: less_trans)
  moreover have "bonus_paid t u" for u
  proof (cases "u = att_user row")
    case True
    with new posted(2) show ?thesis by (auto simp: bonus_paid_def t(1,7) attribution_of_added split: option.splits)
  next
    case False
    with att posted(1) show ?thesis
      by (auto simp: bonus_paid_def t(1,7) attribution_of_added attributions_ok_def split: option.splits)
  qed
  then have "attributions_ok t"
    using att t(2) new unfolding attributions_ok_def t(1) by (auto simp: attribution_of_None image_iff intro: less_trans)
  moreover have "links_ok t" using links t(2) unfolding links_ok_def t(3,6) by (auto intro: less_trans)
  ultimately show ?thesis by (simp add: joins_ok_def)
qed

lemma attribute_visit_run:
  assumes "attribute_visit user vid (v, lpk, link) registered db = (Inr (pk, row), t)"
  shows "attribution_of user (attributions db) = None \<and> pk = next_uuid db \<and>
    (\<exists>ch. map_of (channels db) (link_channel link) = Some ch \<and> \<not> own_channel db user ch) \<and>
    row = \<lparr>att_user = user, att_channel = link_channel link, att_source = SourceInviteLink, att_link = Some lpk,
      att_visit = Some vid, att_token = Some (link_token link), att_registered = registered,
      att_snapshot = invite_snapshot_from_visit v link, att_bonus = (if registered then Some (link_bonus link) else None),
      att_at = clock db\<rparr> \<and>
    t = db\<lparr>next_uuid := Suc (next_uuid db), attributions := attributions db @ [(pk, row)]\<rparr>"
  using assms
  by (auto simp: attribute_visit_def txn_ok insert_attribution_def uuid4_def Let_def split: if_splits dest!: ensure_allowed_run)

lemma bonus_run:
  assumes run: "credit_registration_invite_bonus (pk, row) db = (Inr x, t)"
    and fresh: "posting (ledger db) (bonus_key (att_user row)) = None"
    and grid: "\<And>b. att_bonus row = Some b \<Longrightarrow> on_grid MONEY_QUANT b"
  shows "(\<exists>as es n. t = db\<lparr>accounts := as, ledger := es, next_uuid := n\<rparr> \<and> next_uuid db \<le> n) \<and> owners t = owners db \<and>
    (case bonus_due row of
       None \<Rightarrow> t = db
     | Some b \<Rightarrow> \<exists>acc e. account_of_user (att_user row) (accounts db) = Some acc \<and> ledger t = ledger db @ [e] \<and>
         entry_key e = bonus_key (att_user row) \<and> entry_account e = fst acc \<and> delta e = b)"
proof (cases "bonus_due row")
  case None
  then have "t = db" using run
    by (auto simp: bonus_due_def credit_registration_invite_bonus_def txn_ok split: if_splits option.splits)
  then show ?thesis using None
    by simp (intro exI [of _ "accounts db"] exI [of _ "ledger db"] exI [of _ "next_uuid db"], simp)
next
  case (Some b)
  then have b: "att_registered row" "att_bonus row = Some b" "0 < b"
    by (auto simp: bonus_due_def split: if_splits option.splits)
  with run obtain acc e where acc: "account_of_user (att_user row) (accounts db) = Some acc"
    and c: "credit (fst acc) (DecimalArg (Finite b)) (RefEnum PARTNER_INVITE_BONUS) (str_nat pk) (bonus_key (att_user row)) db = (Inr e, t)"
    by (auto simp: credit_registration_invite_bonus_def txn_ok)
  from apply_posts_entry [OF c [unfolded credit_def] fresh] obtain y where
    y: "normalize_amount (DecimalArg (Finite b)) = Inr y" "ledger t = ledger db @ [e]" "entry_key e = bonus_key (att_user row)"
      "entry_account e = fst acc" "delta e = y" by auto
  have "y = b" using normalize_amount_Inr(4) [OF y(1)] micro.quantize_fixes_grid [OF grid [OF b(2)]] by auto
  with y acc Some credit_frame [OF c] owners_apply [OF c [unfolded credit_def]] show ?thesis by auto
qed

text \<open>A registration through a click, paid.\<close>

lemma registered_run:
  assumes ok: "joins_ok db" and visit: "validate_invite_visit vid window db = Some (v, lpk, link)"
    and run: "attribute_visit user vid (v, lpk, link) True db = (Inr (pk, row), u)" "credit_registration_invite_bonus (pk, row) u = (Inr x, t)"
  shows "joins_ok t \<and> attributions t = attributions db @ [(pk, row)]"
proof -
  note a = attribute_visit_run [OF run(1)]
  have link: "(lpk, link) \<in> set (invite_links db)"
    using visit by (auto simp: validate_invite_visit_def split: option.splits if_splits dest: map_of_SomeD)
  then have grid: "on_grid MONEY_QUANT (link_bonus link)" using ok by (auto simp: joins_ok_def links_ok_def)
  have fresh: "posting (ledger db) (bonus_key user) = None"
    using ok a by (auto simp: joins_ok_def attributions_ok_def bonus_paid_def dest!: spec [of _ user])
  have user: "att_user row = user" "att_bonus row = Some (link_bonus link)" "att_channel row = link_channel link" using a by auto
  have fresh': "posting (ledger u) (bonus_key (att_user row)) = None" using fresh a user(1) by auto
  have grid': "on_grid MONEY_QUANT b" if "att_bonus row = Some b" for b using that grid user(2) by simp
  from bonus_run [OF run(2) fresh' grid'] have b:
    "\<exists>as es n. t = u\<lparr>accounts := as, ledger := es, next_uuid := n\<rparr> \<and> next_uuid u \<le> n" "owners t = owners u"
    "case bonus_due row of
       None \<Rightarrow> t = u
     | Some b \<Rightarrow> \<exists>acc e. account_of_user user (accounts u) = Some acc \<and> ledger t = ledger u @ [e] \<and>
         entry_key e = bonus_key user \<and> entry_account e = fst acc \<and> delta e = b"
    unfolding user(1) by blast+
  obtain ch where ch: "map_of (channels db) (link_channel link) = Some ch" "\<not> own_channel db user ch" using a by auto
  have u: "attributions u = attributions db @ [(pk, row)]" "next_uuid u = Suc (next_uuid db)" "pk = next_uuid db"
    "ledger u = ledger db" "accounts u = accounts db" "owners u = owners db" using a by (auto simp: owners_def)
  have "joins_ok t"
  proof (rule attribution_added [OF ok, where row = row and ch = ch])
    show "attribution_of (att_user row) (attributions db) = None" using a user by simp
    show "map_of (channels db) (att_channel row) = Some ch" "\<not> own_channel db (att_user row) ch" using ch user by simp_all
    show "attributions t = attributions db @ [(next_uuid db, row)]" "next_uuid db < next_uuid t" "channels t = channels db"
      "memberships t = memberships db" "organizations t = organizations db" "invite_links t = invite_links db" "owners t = owners db"
      using b(1,2) u a by (auto simp: owners_def)
    show "posting (ledger t) (bonus_key v) = posting (ledger db) (bonus_key v)" if "v \<noteq> att_user row" for v
      using b(3) u(4) that user by (auto simp: posting_append split: option.splits)
    show "case bonus_due row of None \<Rightarrow> posting (ledger t) (bonus_key (att_user row)) = None
       | Some x \<Rightarrow> \<exists>q. find (\<lambda>q. fst (snd q) = Some (att_user row)) (owners db) = Some q \<and>
           posting (ledger t) (bonus_key (att_user row)) = Some (fst q, x)"
      using b(3) u(4,5) fresh user by (auto simp: posting_append find_owner split: option.splits)
  qed
  then show ?thesis using b(1) u(1) by auto
qed

text \<open>An attribution without a bonus.\<close>

lemma unpaid_added:
  assumes ok: "joins_ok db" and new: "attribution_of (att_user row) (attributions db) = None" and due: "bonus_due row = None"
    and ch: "map_of (channels db) (att_channel row) = Some ch" "\<not> own_channel db (att_user row) ch"
  shows "joins_ok (db\<lparr>next_uuid := Suc (next_uuid db), attributions := attributions db @ [(next_uuid db, row)]\<rparr>)"
proof (rule attribution_added [OF ok new ch])
  have "posting (ledger db) (bonus_key (att_user row)) = None"
    using ok new by (auto simp: joins_ok_def attributions_ok_def bonus_paid_def dest!: spec [of _ "att_user row"])
  then show "case bonus_due row of None \<Rightarrow> posting (ledger (db\<lparr>next_uuid := Suc (next_uuid db), attributions := attributions db @ [(next_uuid db, row)]\<rparr>)) (bonus_key (att_user row)) = None
       | Some x \<Rightarrow> \<exists>q. find (\<lambda>q. fst (snd q) = Some (att_user row)) (owners db) = Some q \<and>
           posting (ledger (db\<lparr>next_uuid := Suc (next_uuid db), attributions := attributions db @ [(next_uuid db, row)]\<rparr>)) (bonus_key (att_user row)) = Some (fst q, x)"
    by (simp add: due)
qed (simp_all add: owners_def)

section \<open>Every operation keeps it\<close>

lemma unless_self_referral_ok:
  "unless_self_referral kept m k s = (Inr y, t) \<longleftrightarrow>
     (\<exists>x u. m s = (Inr x, u) \<and> k x u = (Inr y, t)) \<or>
     (\<exists>u. m s = (Inl (EPartner PartnerSelfReferralConflict), u) \<and> kept u = (Inr y, t))"
  by (auto simp: unless_self_referral_def txn_defs split: if_splits sum.splits prod.splits)

lemma attribute_visit_conflict:
  assumes "attribute_visit user vid (v, lpk, link) registered db = (Inl (EPartner PartnerSelfReferralConflict), t)"
  shows "t = db"
  using assms by (auto simp: attribute_visit_def txn_iff insert_attribution_def uuid4_def Let_def split: if_splits dest!: ensure_allowed_run)

lemma entry_since_trans:
  "entry_since db s \<Longrightarrow> joins_ok t \<Longrightarrow> attributions t = attributions s @ rows \<Longrightarrow> entry_since db t"
  by (auto simp: entry_since_def intro: kept_added)

lemma settle_click_since:
  assumes s: "entry_since db s" and visit: "validate_invite_visit vid window s = Some (v, lpk, link)"
    and run: "settle_click user ppk (vid, v, lpk, link) s = (Inr x, t)"
  shows "entry_since db t"
proof -
  from run consider "t = s"
    | pk row u y w where "attribute_visit user vid (v, lpk, link) True s = (Inr (pk, row), u)"
      "credit_registration_invite_bonus (pk, row) u = (Inr y, w)" "t = w\<lparr>pendings := AList.delete ppk (pendings w)\<rparr>"
    unfolding settle_click_def prod.case unless_self_referral_ok
    by (auto simp: combinators_ok delete_pending_def dest: attribute_visit_conflict)
  then show ?thesis
  proof cases
    case 2
    from registered_run [OF _ visit 2(1,2)] s have w: "joins_ok w" "attributions w = attributions s @ [(pk, row)]" by (auto simp: entry_since_def)
    show ?thesis using entry_since_trans [OF s w] 2(3) by simp
  qed (use s in simp_all)
qed

lemma keeps_entry_visit_pending [keeps_intros]: "keeps (entry_since db) (apply_visit_pending user ppk)"
  unfolding apply_visit_pending_def
proof (intro keeps_atomic_ok, goal_cases)
  case (1 s x t)
  then consider "t = s" | "t = s\<lparr>pendings := AList.delete ppk (pendings s)\<rparr>"
    | vid v lpk link where "validate_invite_visit vid False s = Some (v, lpk, link)" "settle_click user ppk (vid, v, lpk, link) s = (Inr x, t)"
    by (auto simp: txn_ok locked_user_def delete_pending_def split: option.splits)
  then show ?case by cases (use 1(1) settle_click_since in auto)
qed

lemma keeps_entry_created [keeps_intros]: "keeps (entry_since db) (attribute_created_invite env sg user cookie)"
  unfolding attribute_created_invite_def
proof (intro keeps_if keeps_reads keeps_bind keeps_case_option keeps_case_prod keeps_atomic_ok)
  fix payload visit_id issued s x t
  assume s: "entry_since db s"
  assume "(thenE (locked_user user) (bindE (getsE (\<lambda>db. attribution_of user (attributions db))) (\<lambda>known. if known \<noteq> None then ret ()
      else bindE (getsE (validate_invite_visit visit_id True)) (\<lambda>found. case found of None \<Rightarrow> ret ()
        | Some visit \<Rightarrow> bindE (attribute_visit user visit_id visit True) credit_registration_invite_bonus)))) s = (Inr x, t)"
  then consider "t = s"
    | v lpk link pk row u where "validate_invite_visit visit_id True s = Some (v, lpk, link)"
      "attribute_visit user visit_id (v, lpk, link) True s = (Inr (pk, row), u)" "credit_registration_invite_bonus (pk, row) u = (Inr x, t)"
    by (auto simp: txn_ok locked_user_def split: option.splits if_splits)
  then show "entry_since db t"
  proof cases
    case 2
    from registered_run [OF _ 2] s have w: "joins_ok t" "attributions t = attributions s @ [(pk, row)]" by (auto simp: entry_since_def)
    show ?thesis using entry_since_trans [OF s w] .
  qed (use s in simp_all)
qed

lemma unpaid_since:
  assumes "entry_since db s" "attribution_of (att_user row) (attributions s) = None" "bonus_due row = None"
    and "map_of (channels s) (att_channel row) = Some ch" "\<not> own_channel s (att_user row) ch"
  shows "entry_since db (s\<lparr>next_uuid := Suc (next_uuid s), attributions := attributions s @ [(next_uuid s, row)]\<rparr>)"
proof -
  have "joins_ok s" using assms(1) by (simp add: entry_since_def)
  from unpaid_added [OF this assms(2-5)] show ?thesis by (rule entry_since_trans [OF assms(1)]) simp
qed

lemma keeps_entry_consume [keeps_intros]: "keeps (entry_since db) (consume_partner_pending env sg user cookie)"
  unfolding consume_partner_pending_def
proof (intro keeps_if keeps_reads keeps_bind keeps_catch keeps_case_option keeps_case_prod keeps_atomic_ok)
  fix known payload visit_id issued s x t
  assume s: "entry_since db s"
  assume "(thenE (locked_user user) (bindE (getsE (\<lambda>db. attribution_of user (attributions db))) (\<lambda>known. if known \<noteq> None then ret Noop
      else bindE (getsE (\<lambda>db. pending_of user (pendings db))) (\<lambda>pending. if pending \<noteq> None then ret Ignored
        else bindE (getsE (validate_invite_visit visit_id True)) (\<lambda>found. case found of None \<Rightarrow> ret Ignored
          | Some visit \<Rightarrow> thenE (attribute_visit user visit_id visit False) (ret Created)))))) s = (Inr x, t)"
  then consider "t = s" | v lpk link pk row where "attribute_visit user visit_id (v, lpk, link) False s = (Inr (pk, row), t)"
    by (auto simp: txn_ok locked_user_def split: option.splits if_splits)
  then show "entry_since db t"
  proof cases
    case 2
    note a = attribute_visit_run [OF 2]
    then show ?thesis using unpaid_since [OF s, of row] by (auto simp: bonus_due_def)
  qed (use s in simp_all)
qed

lemma settle_legacy_run:
  assumes "settle_legacy user ppk lpk locked ch s = (Inr x, t)"
  shows "t = s \<or> \<not> own_channel s user ch \<and> attribution_of user (attributions s) = None \<and>
    t = s\<lparr>next_uuid := Suc (next_uuid s), attributions := attributions s @ [(next_uuid s,
        \<lparr>att_user = user, att_channel = pen_channel locked, att_source = SourceInviteLink,
         att_link = Some lpk, att_visit = None, att_token = Some (pen_token locked), att_registered = False,
         att_snapshot = replicate 8 [], att_bonus = None, att_at = clock s\<rparr>)], pendings := AList.delete ppk (pendings s)\<rparr>"
  using assms unfolding settle_legacy_def unless_self_referral_ok
  by (auto simp: txn_ok insert_attribution_def uuid4_def delete_pending_def dest!: ensure_allowed_run)

lemma settle_legacy_since:
  assumes s: "entry_since db s" and ch: "map_of (channels s) (pen_channel locked) = Some ch"
    and run: "settle_legacy user ppk lpk locked ch s = (Inr x, t)"
  shows "entry_since db t"
proof -
  let ?row = "\<lparr>att_user = user, att_channel = pen_channel locked, att_source = SourceInviteLink,
              att_link = Some lpk, att_visit = None, att_token = Some (pen_token locked), att_registered = False,
              att_snapshot = replicate 8 [], att_bonus = None, att_at = clock s\<rparr>"
  from run consider "t = s"
    | "\<not> own_channel s user ch" "attribution_of user (attributions s) = None"
      "t = s\<lparr>next_uuid := Suc (next_uuid s), attributions := attributions s @ [(next_uuid s, ?row)], pendings := AList.delete ppk (pendings s)\<rparr>"
    unfolding settle_legacy_def unless_self_referral_ok
    by (auto simp: txn_ok insert_attribution_def uuid4_def delete_pending_def dest!: ensure_allowed_run)
  then show ?thesis
  proof cases
    case 2
    show ?thesis unfolding 2(3) using unpaid_since [OF s, of ?row ch] 2(1,2) ch by (simp add: bonus_due_def)
  qed (use s in simp_all)
qed

lemma keeps_entry_legacy [keeps_intros]: "keeps (entry_since db) (apply_legacy_pending user pending)"
  unfolding apply_legacy_pending_def
proof (intro keeps_if keeps_reads keeps_bind keeps_case_option keeps_case_prod keeps_entry_rows keeps_atomic_ok, goal_cases)
  case (1 found row lpk link s x t)
  then consider "t = s" | "t = s\<lparr>pendings := AList.delete (fst pending) (pendings s)\<rparr>"
    | locked ch where "map_of (channels s) (pen_channel locked) = Some ch" "settle_legacy user (fst pending) lpk locked ch s = (Inr x, t)"
    by (auto simp: txn_ok locked_user_def delete_pending_def split: option.splits)
  then show ?case by cases (use 1(1) settle_legacy_since in auto)
qed

lemma keeps_entry_assign [keeps_intros]:
  "keeps (entry_since db) (bindE (getsE (\<lambda>db. map_of (channels db) pk)) (\<lambda>found.
     bindE (get_or_raise (EPy ObjectDoesNotExist) found) (\<lambda>ch. assign_customer_attribution user (pk, ch) actor)))"
proof (rule keepsI)
  fix s r t
  assume s: "entry_since db s" and run: "bindE (getsE (\<lambda>db. map_of (channels db) pk)) (\<lambda>found.
     bindE (get_or_raise (EPy ObjectDoesNotExist) found) (\<lambda>ch. assign_customer_attribution user (pk, ch) actor)) s = (r, t)"
  show "entry_since db t"
  proof (cases r)
    case (Inl e)
    then have "t = s" using run by (auto simp: assign_customer_attribution_def txn_iff split: if_splits)
    then show ?thesis using s by simp
  next
    case (Inr y)
    let ?row = "\<lparr>att_user = user, att_channel = pk, att_source = SourceAdmin, att_link = None,
                       att_visit = None, att_token = None, att_registered = False, att_snapshot = replicate 8 [],
                       att_bonus = None, att_at = clock s\<rparr>"
    from run Inr obtain ch where "attribution_of user (attributions s) = None" "map_of (channels s) pk = Some ch" "\<not> own_channel s user ch"
      "t = s\<lparr>next_uuid := Suc (next_uuid s), attributions := attributions s @ [(next_uuid s, ?row)]\<rparr>"
      by (auto simp: txn_ok assign_customer_attribution_def locked_user_def insert_attribution_def uuid4_def dest!: ensure_allowed_run)
    then show ?thesis using unpaid_since [OF s, of ?row ch] by (simp add: bonus_due_def)
  qed
qed

lemma keeps_entry_pending [keeps_intros]: "keeps (entry_since db) (apply_pending_on_activation env user)"
  unfolding apply_pending_on_activation_def by (intro keeps_intros)

lemma keeps_entry_record [keeps_intros]: "keeps (entry_since db) (record_pending_for_new_user env sg user active cookie)"
  unfolding record_pending_for_new_user_def by (intro keeps_intros)

lemma keeps_entry_join [keeps_intros]: "keeps (entry_since db) (issue_join_signature env sg token utm)"
  unfolding issue_join_signature_def record_visit_def Let_def by (intro keeps_intros)

subsection \<open>Transfers\<close>

lemma attribution_of_update:
  "distinct (map fst rows) \<Longrightarrow> map_of rows pk = Some a \<Longrightarrow> att_user a' = att_user a \<Longrightarrow>
   attribution_of u (AList.update pk a' rows) =
     map_option (\<lambda>r. if fst r = pk then (pk, a') else r) (attribution_of u rows)"
proof (induction rows)
  case (Cons r rows)
  obtain k b where r: "r = (k, b)" by (cases r)
  show ?case
  proof (cases "k = pk")
    case True
    have "fst x \<noteq> pk" if "attribution_of u rows = Some x" for x
      using attribution_of_Some [OF that] Cons.prems(1) True r by (auto simp: image_iff)
    then have "map_option (\<lambda>r. if fst r = pk then (pk, a') else r) (attribution_of u rows) = attribution_of u rows"
      by (cases "attribution_of u rows") auto
    with True r Cons.prems show ?thesis by (simp add: attribution_of_def)
  next
    case False
    with r Cons show ?thesis by (simp add: attribution_of_def)
  qed
qed (simp add: attribution_of_def)

lemma transferred:
  assumes ok: "joins_ok db" and att: "attribution_of user (attributions db) = Some (pk, a)"
    and ch: "map_of (channels db) c = Some ch" "\<not> own_channel db user ch"
  shows "joins_ok (db\<lparr>attributions := AList.update pk (a\<lparr>att_channel := c\<rparr>) (attributions db)\<rparr>)" (is "joins_ok ?db")
proof -
  note row = attribution_of_Some [OF att]
  have base: "team_base db" and links: "links_ok db" and aok: "attributions_ok db" using ok by (simp_all add: joins_ok_def)
  have keys: "distinct (map fst (attributions db))" using aok by (simp add: attributions_ok_def)
  have old: "map_of (attributions db) pk = Some a" using row keys by simp
  note set = set_AList_update [OF keys, of pk "a\<lparr>att_channel := c\<rparr>"]
  have own: "own_channel ?db = own_channel db" by (simp add: own_channel_def [abs_def] active_member_def [abs_def])
  have "attributed_to ?db u k \<Longrightarrow> attributed_to db u k \<or> u = user \<and> k = ch" for u k
    using ch(1) row by (auto simp: attributed_to_def set)
  then have "no_self_referral ?db" using base ch(2) unfolding no_self_referral_def own team_base_def by blast
  moreover have "att_channel (snd r) \<in> fst ` set (channels db)" if "r \<in> set (attributions ?db)" for r
    using that [simplified] base map_of_in_keys [OF ch(1)] unfolding set team_base_def by (cases "r = (pk, a\<lparr>att_channel := c\<rparr>)") simp_all
  ultimately have "team_base ?db" using base unfolding team_base_def by simp
  moreover have due: "bonus_due (a\<lparr>att_channel := c\<rparr>) = bonus_due a" by (simp add: bonus_due_def)
  have found: "attribution_of u (attributions ?db) = (if u = user then Some (pk, a\<lparr>att_channel := c\<rparr>) else attribution_of u (attributions db))" for u
  proof (cases "u = user")
    case True
    then show ?thesis using attribution_of_update [OF keys old, of "a\<lparr>att_channel := c\<rparr>" u] att by simp
  next
    case False
    have "fst x \<noteq> pk" if x: "attribution_of u (attributions db) = Some x" for x
    proof
      assume "fst x = pk"
      then have "map_of (attributions db) pk = Some (snd x)" using attribution_of_Some [OF x] keys by (cases x) simp
      with old attribution_of_Some [OF x] row False show False by simp
    qed
    then show ?thesis
      using attribution_of_update [OF keys old, of "a\<lparr>att_channel := c\<rparr>" u] False by (cases "attribution_of u (attributions db)") simp_all
  qed
  have "owners ?db = owners db" "ledger ?db = ledger db" by (simp_all add: owners_def)
  then have "bonus_paid ?db u = bonus_paid db u" for u
    using att due unfolding bonus_paid_def found by (cases "u = user") (simp_all only: if_True if_False option.case snd_conv simp_thms)
  then have "attributions_ok ?db"
    using aok row map_AList_update_same [OF old, of att_user "a\<lparr>att_channel := c\<rparr>"] keys_AList_update_old [OF old]
    by (auto simp: attributions_ok_def set)
  moreover have "links_ok ?db" using links by (simp add: links_ok_def)
  ultimately show ?thesis by (simp add: joins_ok_def)
qed

lemma kept_transferred:
  assumes "kept_attributions db s" "map_of (attributions s) pk = Some a"
  shows "kept_attributions db (s\<lparr>attributions := AList.update pk (a\<lparr>att_channel := c\<rparr>) (attributions s)\<rparr>)"
  unfolding kept_attributions_def
proof (intro allI impI)
  fix k b
  assume "map_of (attributions db) k = Some b"
  then obtain d where "map_of (attributions s) k = Some (b\<lparr>att_channel := d\<rparr>)" using assms(1) by (auto simp: kept_attributions_def)
  then show "\<exists>e. map_of (attributions (s\<lparr>attributions := AList.update pk (a\<lparr>att_channel := c\<rparr>) (attributions s)\<rparr>)) k = Some (b\<lparr>att_channel := e\<rparr>)"
    using assms(2) by (cases "k = pk") (auto intro: exI [of _ c] exI [of _ d])
qed

lemma keeps_entry_transfer [keeps_intros]:
  "keeps (entry_since db) (bindE (getsE (\<lambda>db. map_of (channels db) c)) (\<lambda>found.
     bindE (get_or_raise (EPy ObjectDoesNotExist) found) (\<lambda>ch. transfer_customer_attribution user (c, ch))))"
proof (rule keepsI)
  fix s r t
  assume s: "entry_since db s" and run: "bindE (getsE (\<lambda>db. map_of (channels db) c)) (\<lambda>found.
     bindE (get_or_raise (EPy ObjectDoesNotExist) found) (\<lambda>ch. transfer_customer_attribution user (c, ch))) s = (r, t)"
  show "entry_since db t"
  proof (cases r)
    case (Inl e)
    then have "t = s" using run by (auto simp: transfer_customer_attribution_def txn_iff)
    then show ?thesis using s by simp
  next
    case (Inr y)
    from run Inr consider "t = s" | pk a ch where "attribution_of user (attributions s) = Some (pk, a)" "map_of (channels s) c = Some ch"
        "\<not> own_channel s user ch" "t = s\<lparr>attributions := AList.update pk (a\<lparr>att_channel := c\<rparr>) (attributions s)\<rparr>"
      by (auto simp: txn_ok transfer_customer_attribution_def locked_user_def lock_self_referral_rows_def dest!: ensure_allowed_run)
    then show ?thesis
    proof cases
      case 2
      have "map_of (attributions s) pk = Some a"
        using attribution_of_Some [OF 2(1)] s by (simp add: entry_since_def joins_ok_def attributions_ok_def)
      with transferred [OF _ 2(1-3)] kept_transferred [of db s pk a c] s show ?thesis by (simp add: entry_since_def 2(4))
    qed (use s in simp)
  qed
qed

subsection \<open>Links and channels\<close>

lemma persist_token_run:
  assumes "persist_with_unique_invite_token n draw persist s = (r, t)"
  shows "case r of Inl e \<Rightarrow> t = s | Inr token \<Rightarrow> persist token s = (Inr (), t)"
  using assms
proof (induction n)
  case (Suc n)
  from Suc.prems consider "atomic (persist (draw n)) s = (Inr (), t)" "r = Inr (draw n)"
    | e where "atomic (persist (draw n)) s = (Inl e, s)"
      "(if e = EPy IntegrityError then persist_with_unique_invite_token n draw persist else raiseE e) s = (r, t)"
    by (auto simp: txn_iff)
  then show ?case
  proof cases
    case 1
    then show ?thesis by (simp add: combinators_ok)
  next
    case 2
    then show ?thesis using Suc.IH by (cases "e = EPy IntegrityError") (auto simp: raiseE_def)
  qed
qed (auto simp: raiseE_def)

lemma persist_drawn: "persist_with_unique_invite_token n draw persist s = (Inr token, t) \<Longrightarrow> token \<in> range draw"
  by (induction n arbitrary: s) (auto simp: txn_ok split: if_splits)

lemma save_invite_link_run:
  assumes "save_invite_link pk row s = (r, t)"
  shows "case r of Inl e \<Rightarrow> t = s
    | Inr _ \<Rightarrow> partner_invite_token_is_usable (link_token row) \<and>
        \<not> (\<exists>l \<in> set (invite_links s). fst l \<noteq> pk \<and> link_token (snd l) = link_token row) \<and>
        \<not> ((\<exists>v \<in> set (visits s). vis_link (snd v) = pk) \<and>
           (case map_of (invite_links s) pk of None \<Rightarrow> False | Some old \<Rightarrow> frozen_values_changed old row)) \<and>
        (\<exists>b. on_grid MONEY_QUANT b \<and> 0 \<le> b \<and> numeric_20_6 (link_bonus row) = Inr b \<and>
           t = s\<lparr>invite_links := AList.update pk (row\<lparr>link_bonus := b\<rparr>) (invite_links s)\<rparr>)"
  using assms
  by (auto simp: save_invite_link_def txn_iff numeric_20_6_def Let_def micro.quantize_on_grid split: if_splits)

lemma distinct_update_names:
  "distinct (map (\<lambda>r. f (snd r)) rows) \<Longrightarrow> distinct (map fst rows) \<Longrightarrow>
   (\<And>l. l \<in> set rows \<Longrightarrow> fst l \<noteq> pk \<Longrightarrow> f (snd l) \<noteq> f row) \<Longrightarrow> distinct (map (\<lambda>r. f (snd r)) (AList.update pk row rows))"
proof (induction rows)
  case (Cons r rows)
  obtain k b where r: "r = (k, b)" by (cases r)
  show ?case
  proof (cases "k = pk")
    case True
    have "fst l \<noteq> pk" if "l \<in> set rows" for l using that Cons.prems(2) True r by (auto simp: image_iff)
    then have "f (snd l) \<noteq> f row" if "l \<in> set rows" for l using that Cons.prems(3) [of l] by simp
    then have "f row \<notin> (\<lambda>r. f (snd r)) ` set rows" by force
    with True r Cons.prems(1) show ?thesis by simp
  next
    case False
    then have "f b \<noteq> f row" using Cons.prems(3) [of r] r by simp
    moreover have "f b \<notin> (\<lambda>r. f (snd r)) ` set rows" using Cons.prems(1) r by simp
    ultimately have "f b \<notin> (\<lambda>r. f (snd r)) ` set (AList.update pk row rows)"
      using Cons.prems(2) by (auto simp: set_AList_update)
    moreover have "distinct (map (\<lambda>r. f (snd r)) (AList.update pk row rows))"
      using Cons.prems by (intro Cons.IH) simp_all
    ultimately show ?thesis using False r by simp
  qed
qed simp

lemma link_saved:
  assumes ok: "links_ok db" and pk: "pk < next_uuid db"
    and old: "\<And>old. map_of (invite_links db) pk = Some old \<Longrightarrow> link_channel row = link_channel old"
    and row: "partner_invite_token_is_usable (link_token row)" "on_grid MONEY_QUANT (link_bonus row)" "0 \<le> link_bonus row"
      "\<not> (\<exists>l \<in> set (invite_links db). fst l \<noteq> pk \<and> link_token (snd l) = link_token row)"
  shows "links_ok (db\<lparr>invite_links := AList.update pk row (invite_links db)\<rparr>)"
proof -
  have keys: "distinct (map fst (invite_links db))" and names: "distinct (map (\<lambda>r. link_token (snd r)) (invite_links db))"
    using ok by (simp_all add: links_ok_def)
  note set = set_AList_update [OF keys, of pk row]
  have "distinct (map (\<lambda>r. link_token (snd r)) (AList.update pk row (invite_links db)))"
    by (rule distinct_update_names [OF names keys]) (use row(4) in blast)
  moreover have "\<exists>l \<in> set (AList.update pk row (invite_links db)). link_channel (snd l) = fst c" if c: "c \<in> set (channels db)" for c
  proof -
    obtain l where l: "l \<in> set (invite_links db)" "link_channel (snd l) = fst c" using ok c by (auto simp: links_ok_def)
    show ?thesis
    proof (cases "fst l = pk")
      case True
      then have "map_of (invite_links db) pk = Some (snd l)" using l(1) keys by (cases l) simp
      from old [OF this] l(2) show ?thesis unfolding set by simp
    next
      case False
      with l show ?thesis unfolding set by blast
    qed
  qed
  ultimately show ?thesis
    using ok pk row(1-3) distinct_update [OF keys, of pk row] unfolding links_ok_def by (auto simp: set)
qed

lemma entry_links: "joins_ok db \<Longrightarrow> links_ok (db\<lparr>invite_links := ls\<rparr>) \<Longrightarrow> joins_ok (db\<lparr>invite_links := ls\<rparr>)"
  using bonus_paid_cong [of "db\<lparr>invite_links := ls\<rparr>" db]
  by (simp add: joins_ok_def attributions_ok_def owners_def team_base_def no_self_referral_def attributed_to_def own_channel_def active_member_def)

lemma entry_since_links:
  "entry_since db s \<Longrightarrow> links_ok (s\<lparr>invite_links := ls\<rparr>) \<Longrightarrow> entry_since db (s\<lparr>invite_links := ls\<rparr>)"
  by (simp add: entry_since_def entry_links kept_attributions_def)

lemma canonical_Some: "canonical_invite_link ch rows = Some (pk, link) \<Longrightarrow> (pk, link) \<in> set rows \<and> link_channel link = ch"
  by (auto simp: canonical_invite_link_def dest: find_in)

lemma save_link_since:
  assumes s: "entry_since db s" and link: "canonical_invite_link ch (invite_links s) = Some (pk, link)"
    and row: "link_channel row = link_channel link" and run: "save_invite_link pk row s = (Inr x, t)"
  shows "entry_since db t"
proof -
  have ok: "links_ok s" using s by (simp add: entry_since_def joins_ok_def)
  then have old: "map_of (invite_links s) pk = Some link" "pk < next_uuid s" using canonical_Some [OF link] by (auto simp: links_ok_def)
  from save_invite_link_run [OF run] obtain b where b: "on_grid MONEY_QUANT b" "0 \<le> b"
    "t = s\<lparr>invite_links := AList.update pk (row\<lparr>link_bonus := b\<rparr>) (invite_links s)\<rparr>"
    and t: "partner_invite_token_is_usable (link_token row)" "\<not> (\<exists>l \<in> set (invite_links s). fst l \<noteq> pk \<and> link_token (snd l) = link_token row)"
    by auto
  have "links_ok t" unfolding b(3) by (rule link_saved [OF ok old(2)]) (use old(1) row b t in auto)
  then show ?thesis using entry_since_links [OF s] b(3) by simp
qed

lemma keeps_entry_regenerate [keeps_intros]: "keeps (entry_since db) (regenerate_invite_link draw ch)"
  unfolding regenerate_invite_link_def Let_def
proof (intro keeps_atomic_ok, goal_cases)
  case (1 s x t)
  then obtain pk link token u where link: "canonical_invite_link ch (invite_links s) = Some (pk, link)"
    and p: "persist_with_unique_invite_token INVITE_TOKEN_ATTEMPTS draw
        (\<lambda>token. save_invite_link pk (link\<lparr>link_token := token, link_regenerated := Some (clock s)\<rparr>)) s = (Inr token, u)"
    and t: "t = u\<lparr>pendings := filter (\<lambda>r. \<not> (pen_channel (snd r) = ch \<and> pen_token (snd r) = link_token link)) (pendings u)\<rparr>"
    by (auto simp: txn_ok)
  from persist_token_run [OF p] have "entry_since db u" by (intro save_link_since [OF 1(1) link]) auto
  then show ?case by (simp add: t)
qed

lemma keeps_entry_active [keeps_intros]: "keeps (entry_since db) (set_invite_active ch active)"
  unfolding set_invite_active_def
proof (intro keeps_atomic_ok, goal_cases)
  case (1 s x t)
  then obtain pk link where link: "canonical_invite_link ch (invite_links s) = Some (pk, link)"
    and "t = s \<or> save_invite_link pk (link\<lparr>link_active := active\<rparr>) s = (Inr (), t)"
    by (auto simp: txn_ok)
  then show ?case using 1(1) save_link_since [OF 1(1) link, of "link\<lparr>link_active := active\<rparr>" "()" t] by auto
qed

text \<open>A new channel comes with a link of its own.\<close>

lemma save_channel_run:
  assumes "save_channel pk row s = (r, t)"
  shows "case r of Inl e \<Rightarrow> t = s
    | Inr _ \<Rightarrow> (\<exists>share. numeric_5_2 (revenue_share_percent row) = Inr share \<and> channel_ok (row\<lparr>revenue_share_percent := share\<rparr>) \<and>
        t = s\<lparr>channels := AList.update pk (row\<lparr>revenue_share_percent := share\<rparr>) (channels s)\<rparr>) \<and>
        (\<forall>c \<in> set (channels s). fst c = pk \<or> ch_org row = None \<or> ch_org (snd c) \<noteq> ch_org row)"
  using assms by (auto simp: save_channel_def txn_iff Let_def split: if_splits) force

lemma channel_added:
  assumes base: "team_base db" and fresh: "next_uuid db \<le> pk" "pk < next_uuid t"
    and org: "\<And>o'. ch_org row = Some o' \<Longrightarrow> o' \<in> fst ` set (organizations db) \<and> (\<forall>c \<in> set (channels db). ch_org (snd c) \<noteq> Some o')"
    and t: "channels t = channels db @ [(pk, row)]" "next_uuid db \<le> next_uuid t" "memberships t = memberships db"
      "organizations t = organizations db" "attributions t = attributions db"
  shows "team_base t"
proof -
  have new: "pk \<notin> fst ` set (channels db)" using base fresh by (auto simp: team_base_def)
  have "map_of (channels t) (att_channel (snd a)) = map_of (channels db) (att_channel (snd a))" if "a \<in> set (attributions db)" for a
  proof -
    have "att_channel (snd a) \<in> fst ` set (channels db)" using base that by (simp add: team_base_def)
    then obtain c where "map_of (channels db) (att_channel (snd a)) = Some c" by (metis map_of_eq_None_iff option.exhaust)
    then show ?thesis by (simp add: t(1) map_add_Some_iff)
  qed
  then have same: "attributed_to t = attributed_to db" by (auto simp: attributed_to_def fun_eq_iff t(5))
  have own: "own_channel t = own_channel db" by (simp add: own_channel_def [abs_def] active_member_def [abs_def] t)
  have "no_self_referral t" using base by (simp add: team_base_def no_self_referral_def same own)
  moreover have "fst r < next_uuid t \<and> (\<forall>o'. ch_org (snd r) = Some o' \<longrightarrow> o' \<in> fst ` set (organizations db) \<and>
      (\<forall>q \<in> set (channels t). ch_org (snd q) = Some o' \<longrightarrow> q = r))" if r: "r \<in> set (channels t)" for r
  proof (cases "r = (pk, row)")
    case True
    then show ?thesis using org fresh unfolding t(1) by auto
  next
    case False
    then have "r \<in> set (channels db)" using r by (simp add: t(1))
    with base have old: "fst r < next_uuid db" "\<forall>o'. ch_org (snd r) = Some o' \<longrightarrow> o' \<in> fst ` set (organizations db) \<and>
        (\<forall>q \<in> set (channels db). ch_org (snd q) = Some o' \<longrightarrow> q = r)"
      unfolding team_base_def by blast+
    moreover have "ch_org row \<noteq> Some o'" if "ch_org (snd r) = Some o'" for o' using org that \<open>r \<in> set (channels db)\<close> by blast
    ultimately show ?thesis using t(2) unfolding t(1) by auto
  qed
  ultimately show ?thesis
    using base new t(2) unfolding team_base_def t by (auto intro: order_less_le_trans)
qed

lemma create_attempt_since:
  assumes s: "entry_since db s" and org: "\<And>o'. org = Some o' \<Longrightarrow> o' \<in> fst ` set (organizations s)"
    and c: "save_channel (next_uuid s) \<lparr>ch_kind = kind, ch_owner = owner, ch_org = org, revenue_share_percent = share, ch_active = True\<rparr>
        (s\<lparr>next_uuid := Suc (next_uuid s)\<rparr>) = (Inr x, u)"
    and l: "save_invite_link (Suc (next_uuid s)) \<lparr>link_channel = next_uuid s, link_token = token, link_name = [], link_bonus = 0, link_source = [],
                      link_campaign = [], link_content = [], link_active = True, link_created = now, link_regenerated = None\<rparr>
        (u\<lparr>next_uuid := Suc (Suc (next_uuid s))\<rparr>) = (Inr y, t)"
  shows "entry_since db t"
proof -
  let ?pk = "next_uuid s"
  have ok: "joins_ok s" and base: "team_base s" and lok: "links_ok s" and aok: "attributions_ok s"
    using s by (simp_all add: entry_since_def joins_ok_def)
  have new: "?pk \<notin> fst ` set (channels s)" using base by (auto simp: team_base_def)
  from save_channel_run [OF c] obtain percent where percent:
      "u = s\<lparr>next_uuid := Suc ?pk, channels := channels s @ [(?pk, \<lparr>ch_kind = kind, ch_owner = owner, ch_org = org, revenue_share_percent = percent, ch_active = True\<rparr>)]\<rparr>"
      "\<forall>c \<in> set (channels s). fst c = ?pk \<or> org = None \<or> ch_org (snd c) \<noteq> org"
    using new by (auto simp: AList_update_new)
  define row where "row = \<lparr>ch_kind = kind, ch_owner = owner, ch_org = org, revenue_share_percent = percent, ch_active = True\<rparr>"
  have row: "ch_org row = org" "u = s\<lparr>next_uuid := Suc ?pk, channels := channels s @ [(?pk, row)]\<rparr>"
    and free: "\<forall>c \<in> set (channels s). org = None \<or> ch_org (snd c) \<noteq> org"
    using percent new by (simp_all add: row_def image_iff) metis
  let ?u = "u\<lparr>next_uuid := Suc (Suc ?pk)\<rparr>"
  have newlink: "Suc ?pk \<notin> fst ` set (invite_links s)" using lok by (auto simp: links_ok_def)
  from save_invite_link_run [OF l] obtain b where b: "on_grid MONEY_QUANT b" "0 \<le> b" "partner_invite_token_is_usable token"
      "\<forall>l \<in> set (invite_links s). fst l = Suc ?pk \<or> link_token (snd l) \<noteq> token"
      "t = ?u\<lparr>invite_links := AList.update (Suc ?pk) \<lparr>link_channel = ?pk, link_token = token, link_name = [], link_bonus = b, link_source = [],
         link_campaign = [], link_content = [], link_active = True, link_created = now, link_regenerated = None\<rparr> (invite_links s)\<rparr>"
    using row(2) by auto
  define link where "link = \<lparr>link_channel = ?pk, link_token = token, link_name = [], link_bonus = b, link_source = [],
         link_campaign = [], link_content = [], link_active = True, link_created = now, link_regenerated = None\<rparr>"
  have link: "link_channel link = ?pk" "link_token link = token"
      "on_grid MONEY_QUANT (link_bonus link)" "0 \<le> link_bonus link" "partner_invite_token_is_usable token"
      "\<forall>l \<in> set (invite_links s). fst l = Suc ?pk \<or> link_token (snd l) \<noteq> token"
      "t = ?u\<lparr>invite_links := AList.update (Suc ?pk) link (invite_links s)\<rparr>"
    using b by (simp_all add: link_def)
  have t: "t = s\<lparr>next_uuid := Suc (Suc ?pk), channels := channels s @ [(?pk, row)], invite_links := invite_links s @ [(Suc ?pk, link)]\<rparr>"
    using link(7) row(2) newlink by (simp add: AList_update_new)
  have "team_base t"
    by (rule channel_added [OF base, where pk = ?pk and row = row]) (use org free row(1) in \<open>auto simp: t\<close>)
  moreover have "attributions_ok t" using aok bonus_paid_cong [of t s] by (auto simp: attributions_ok_def t owners_def less_SucI)
  moreover have "link_token (snd l) \<noteq> token" if "l \<in> set (invite_links s)" for l
    using link(6) newlink that by force
  then have "token \<notin> (\<lambda>r. link_token (snd r)) ` set (invite_links s)" by auto
  then have "links_ok t"
    using lok newlink link(1-5) unfolding links_ok_def t
    by (auto simp: less_SucI)
  ultimately show ?thesis using s by (simp add: entry_since_def joins_ok_def kept_attributions_def t)
qed

lemma create_channel_since:
  assumes s: "entry_since db s" and org: "\<And>o'. org = Some o' \<Longrightarrow> o' \<in> fst ` set (organizations s)"
    and run: "create_channel_and_link draw kind owner org share s = (r, t)"
  shows "entry_since db t"
proof -
  let ?attempt = "atomic (bindE uuid4 (\<lambda>pk. thenE (save_channel pk \<lparr>ch_kind = kind, ch_owner = owner, ch_org = org, revenue_share_percent = share, ch_active = True\<rparr>)
          (bindE uuid4 (\<lambda>lpk. bindE (getsE clock) (\<lambda>now.
           thenE (persist_with_unique_invite_token INVITE_TOKEN_ATTEMPTS draw (\<lambda>token.
                    save_invite_link lpk \<lparr>link_channel = pk, link_token = token, link_name = [], link_bonus = 0, link_source = [],
                      link_campaign = [], link_content = [], link_active = True, link_created = now, link_regenerated = None\<rparr>))
             (ret pk))))))"
  have one: "entry_since db w" if "?attempt s = (q, w)" for q w
  proof (cases q)
    case (Inl e)
    with that s show ?thesis by (simp add: atomic_iff)
  next
    case (Inr x)
    with that obtain u token v where c: "save_channel (next_uuid s) \<lparr>ch_kind = kind, ch_owner = owner, ch_org = org, revenue_share_percent = share, ch_active = True\<rparr>
        (s\<lparr>next_uuid := Suc (next_uuid s)\<rparr>) = (Inr x', u)" and p: "persist_with_unique_invite_token INVITE_TOKEN_ATTEMPTS draw (\<lambda>token.
          save_invite_link (next_uuid u) \<lparr>link_channel = next_uuid s, link_token = token, link_name = [], link_bonus = 0, link_source = [],
            link_campaign = [], link_content = [], link_active = True, link_created = clock u, link_regenerated = None\<rparr>)
        (u\<lparr>next_uuid := Suc (next_uuid u)\<rparr>) = (Inr token, w)" for x'
      by (auto simp: combinators_ok uuid4_def)
    have "next_uuid u = Suc (next_uuid s)" using save_channel_run [OF c] by auto
    with persist_token_run [OF p] show ?thesis using create_attempt_since [OF s org c] by simp
  qed
  have "entry_since db w" if "retry n ?attempt (raiseE (EPartner PartnerInviteError)) s = (q, w)" for n q w
    using that
  proof (induction n)
    case 0
    with s show ?case by (simp add: raiseE_def)
  next
    case (Suc n)
    then consider y where "?attempt s = (Inr y, w)" | e where "e = EPy IntegrityError" "retry n ?attempt (raiseE (EPartner PartnerInviteError)) s = (q, w)"
      | "w = s"
      by (auto simp: catchE_iff atomic_iff raiseE_def split: if_splits)
    then show ?case using one Suc.IH s by cases blast+
  qed
  with run show ?thesis by (simp add: create_channel_and_link_def)
qed

lemma settings_since:
  assumes s: "entry_since db s" and old: "map_of (channels s) pk = Some old"
    and row: "ch_kind row = ch_kind old" "ch_owner row = ch_owner old" "ch_org row = ch_org old"
  shows "entry_since db (s\<lparr>channels := AList.update pk row (channels s)\<rparr>)"
proof -
  let ?t = "s\<lparr>channels := AList.update pk row (channels s)\<rparr>"
  have base: "team_base s" and aok: "attributions_ok s" and lok: "links_ok s" using s by (simp_all add: entry_since_def joins_ok_def)
  have keys: "distinct (map fst (channels s))" using base by (simp add: team_base_def)
  note set = set_AList_update [OF keys, of pk row]
  have own: "own_channel ?t u c = own_channel s u c" for u c by (simp add: own_channel_def active_member_def)
  have origin: "\<exists>c'. attributed_to s u c' \<and> ch_kind c' = ch_kind c \<and> ch_owner c' = ch_owner c \<and> ch_org c' = ch_org c"
    if "attributed_to ?t u c" for u c
    using that old row unfolding attributed_to_def by (auto split: if_splits)
  have "no_self_referral ?t"
    unfolding no_self_referral_def own
  proof (intro allI impI)
    fix u c
    assume "attributed_to ?t u c"
    from origin [OF this] obtain c' where c': "attributed_to s u c'" "ch_kind c' = ch_kind c" "ch_owner c' = ch_owner c" "ch_org c' = ch_org c"
      by blast
    have "\<not> own_channel s u c'" using base c'(1) by (simp add: team_base_def no_self_referral_def)
    then show "\<not> own_channel s u c" by (simp add: own_channel_def c'(2-4))
  qed
  moreover have "fst ` set (channels ?t) = fst ` set (channels s)"
    using keys_AList_update_old [OF old, of row] by (simp flip: set_map)
  moreover have "fst r < next_uuid s \<and> (\<forall>o'. ch_org (snd r) = Some o' \<longrightarrow> o' \<in> fst ` set (organizations s) \<and>
      (\<forall>q \<in> set (channels ?t). ch_org (snd q) = Some o' \<longrightarrow> q = r))" if r: "r \<in> set (channels ?t)" for r
  proof -
    define prev where "prev q = (if fst q = pk then (pk, old) else q)" for q :: "nat \<times> channel"
    have prev: "prev q \<in> set (channels s)" "fst (prev q) = fst q" "ch_org (snd (prev q)) = ch_org (snd q)" if "q \<in> set (channels ?t)" for q
    proof -
      from that consider "q = (pk, row)" | "q \<in> set (channels s)" "fst q \<noteq> pk" by (auto simp: set)
      then show "prev q \<in> set (channels s)" "fst (prev q) = fst q" "ch_org (snd (prev q)) = ch_org (snd q)"
        using map_of_SomeD [OF old] row(3) by (cases; simp add: prev_def)+
    qed
    have inj: "q = q'" if "prev q = prev q'" "q \<in> set (channels ?t)" "q' \<in> set (channels ?t)" for q q'
      using that by (auto simp: prev_def set split: if_splits)
    from base prev [OF r] have "fst r < next_uuid s" "\<forall>o'. ch_org (snd r) = Some o' \<longrightarrow> o' \<in> fst ` set (organizations s) \<and>
        (\<forall>q \<in> set (channels s). ch_org (snd q) = Some o' \<longrightarrow> q = prev r)"
      unfolding team_base_def by metis+
    then show ?thesis using prev inj [OF _ _ r] by (metis (no_types))
  qed
  ultimately have "team_base ?t"
    using base keys_AList_update_old [OF old, of row] unfolding team_base_def by simp
  moreover have "attributions_ok ?t" using aok bonus_paid_cong [of ?t s] by (simp add: attributions_ok_def owners_def)
  moreover have "links_ok ?t"
  proof -
    have "\<exists>l \<in> set (invite_links s). link_channel (snd l) = k" if "k \<in> fst ` set (channels s)" for k
      using lok that by (auto simp: links_ok_def)
    then have "\<exists>l \<in> set (invite_links s). link_channel (snd l) = fst c" if "c \<in> set (channels ?t)" for c
      using that \<open>fst ` set (channels ?t) = fst ` set (channels s)\<close> by blast
    then show ?thesis using lok by (simp add: links_ok_def)
  qed
  ultimately show ?thesis using s by (simp add: entry_since_def joins_ok_def kept_attributions_def)
qed

lemma keeps_entry_settings [keeps_intros]: "keeps (entry_since db) (update_partner_channel_settings pk active share)"
  unfolding update_partner_channel_settings_def
proof (intro keeps_atomic_ok, goal_cases)
  case (1 s x t)
  then obtain old where old: "map_of (channels s) pk = Some old"
    and run: "save_channel pk (old\<lparr>ch_active := active, revenue_share_percent := share\<rparr>) s = (Inr (), t)"
    by (auto simp: txn_ok)
  from save_channel_run [OF run] show ?case using settings_since [OF 1(1) old] by auto
qed

section \<open>Runs of the partner entry\<close>

text \<open>The calls the views, the admin and the registration make; staff choose a channel that is read from the table.\<close>

datatype partner_call =
  Join string "string \<rightharpoonup> utm_value"
| Register nat bool string
| Activate nat
| CreatedInvite nat string
| Consume nat string
| Assign nat nat "nat option"
| Transfer nat nat
| Regenerate "nat \<Rightarrow> string" nat
| SetActive nat bool
| NewIndividual "nat \<Rightarrow> string" nat rat
| NewTeam "nat \<Rightarrow> string" nat rat
| Settings nat bool rat

definition row_of :: "('x org_db_scheme \<Rightarrow> (nat \<times> 'r) list) \<Rightarrow> nat \<Rightarrow> ('x, 'r) org_txn" where
  "row_of table pk = bindE (getsE (\<lambda>db. map_of (table db) pk)) (\<lambda>row. get_or_raise (EPy ObjectDoesNotExist) row)"

definition finished :: "('x, 'a) org_txn \<Rightarrow> ('x, unit) org_txn" where
  "finished m = thenE m (ret ())"

fun perform :: "env \<Rightarrow> signer \<Rightarrow> partner_call \<Rightarrow> ('x, unit) org_txn" where
  "perform env sg (Join token utm) = finished (issue_join_signature env sg token utm)"
| "perform env sg (Register user active cookie) = record_pending_for_new_user env sg user active cookie"
| "perform env sg (Activate user) = apply_pending_on_activation env user"
| "perform env sg (CreatedInvite user cookie) = attribute_created_invite env sg user cookie"
| "perform env sg (Consume user cookie) = finished (consume_partner_pending env sg user cookie)"
| "perform env sg (Assign user ch actor) =
     finished (bindE (row_of channels ch) (\<lambda>row. assign_customer_attribution user (ch, row) actor))"
| "perform env sg (Transfer user ch) =
     finished (bindE (row_of channels ch) (\<lambda>row. transfer_customer_attribution user (ch, row)))"
| "perform env sg (Regenerate draw ch) = finished (regenerate_invite_link draw ch)"
| "perform env sg (SetActive ch active) = finished (set_invite_active ch active)"
| "perform env sg (NewIndividual draw owner share) = finished (create_individual_partner_channel draw owner share)"
| "perform env sg (NewTeam draw org share) =
     finished (bindE (row_of organizations org) (\<lambda>row. create_partner_channel draw org (Some (org_account row)) share))"
| "perform env sg (Settings ch active share) = finished (update_partner_channel_settings ch active share)"

text \<open>A reachable state: time passes between the calls, and each call returns or raises.\<close>

inductive partner_run :: "env \<Rightarrow> signer \<Rightarrow> 'x org_db_scheme \<Rightarrow> 'x org_db_scheme \<Rightarrow> bool" for env sg where
  start: "partner_run env sg db db"
| tick: "partner_run env sg db s \<Longrightarrow> clock s \<le> now \<Longrightarrow> partner_run env sg db (s\<lparr>clock := now\<rparr>)"
| call: "partner_run env sg db s \<Longrightarrow> perform env sg c s = (r, t) \<Longrightarrow> partner_run env sg db t"

lemma keeps_finished [keeps_intros]: "keeps I m \<Longrightarrow> keeps I (finished m)"
  unfolding finished_def by (intro keeps_intros)

lemma entry_clock [simp]: "entry_since db (s\<lparr>clock := now\<rparr>) = entry_since db s"
proof -
  have "joins_ok (s\<lparr>clock := now\<rparr>) = joins_ok s" by (rule entry_cong) (simp_all add: owners_def)
  then show ?thesis by (simp add: entry_since_def kept_attributions_def)
qed

lemma keeps_entry_new_team:
  "keeps (entry_since db) (bindE (row_of organizations org) (\<lambda>row. create_partner_channel draw org (Some (org_account row)) share))"
proof (rule keepsI)
  fix s r t
  assume s: "entry_since db s"
    and run: "bindE (row_of organizations org) (\<lambda>row. create_partner_channel draw org (Some (org_account row)) share) s = (r, t)"
  then consider "t = s" | row where "map_of (organizations s) org = Some row" "create_channel_and_link draw KindTeam None (Some org) share s = (r, t)"
    by (auto simp: row_of_def create_partner_channel_def txn_iff)
  then show "entry_since db t"
  proof cases
    case 2
    then show ?thesis using create_channel_since [OF s _ 2(2)] map_of_in_keys [OF 2(1)] by simp
  qed (use s in simp)
qed

lemma keeps_entry_new_individual: "keeps (entry_since db) (create_individual_partner_channel draw owner share)"
proof (rule keepsI)
  fix s r t
  assume s: "entry_since db s" and run: "create_individual_partner_channel draw owner share s = (r, t)"
  then consider "t = s" | "create_channel_and_link draw KindIndividual (Some owner) None share s = (r, t)"
    by (auto simp: create_individual_partner_channel_def txn_iff split: option.splits if_splits)
  then show "entry_since db t" using s create_channel_since [OF s, of None] by cases auto
qed

lemma keeps_entry_call: "keeps (entry_since db) (perform env sg c)"
proof (cases c)
  case (Assign user ch actor)
  then show ?thesis using keeps_finished [OF keeps_entry_assign [of db ch user actor]]
    by (simp add: row_of_def bindE_def txn_defs keeps_def split: option.splits)
next
  case (Transfer user ch)
  then show ?thesis using keeps_finished [OF keeps_entry_transfer [of db ch user]]
    by (simp add: row_of_def bindE_def txn_defs keeps_def split: option.splits)
qed (simp_all, (intro keeps_intros keeps_entry_new_team keeps_entry_new_individual)+)

lemma partner_run_since: "partner_run env sg db s \<Longrightarrow> joins_ok db \<Longrightarrow> entry_since db s"
proof (induction rule: partner_run.induct)
  case (call db s c r t)
  then show ?case using keepsD [OF keeps_entry_call] by blast
next
  case (tick db s now)
  then show ?case by simp
qed (simp add: entry_since_def)

section \<open>Properties\<close>

text \<open>C27. However clicks, registrations, activations, staff assignments, transfers, link and channel changes follow
  one another: a customer has at most one attribution and is never a customer of the own channel; the
  registration bonus is in the ledger exactly for the customers who registered through an invite with a bonus,
  once, with the amount recorded and on the customer's account; no attribution is removed and only its channel
  ever changes; every channel has an invite link and no two links share a token.\<close>

theorem partner_entry_invariant:
  assumes "partner_run env sg (db :: org_db) t" "joins_ok db"
  shows "team_base t \<and> distinct (map (\<lambda>r. att_user (snd r)) (attributions t)) \<and>
    (\<forall>u. case attribution_of u (attributions t) of
       None \<Rightarrow> posting (ledger t) (bonus_key u) = None
     | Some a \<Rightarrow> (case bonus_due (snd a) of
           None \<Rightarrow> posting (ledger t) (bonus_key u) = None
         | Some x \<Rightarrow> \<exists>acc. account_of_user u (accounts t) = Some acc \<and> posting (ledger t) (bonus_key u) = Some (fst acc, x))) \<and>
    kept_attributions db t \<and> invite_drift t = [] \<and> distinct (map (\<lambda>r. link_token (snd r)) (invite_links t))"
proof -
  have s: "joins_ok t" "kept_attributions db t" using partner_run_since [OF assms] by (simp_all add: entry_since_def)
  have "case attribution_of u (attributions t) of
       None \<Rightarrow> posting (ledger t) (bonus_key u) = None
     | Some a \<Rightarrow> (case bonus_due (snd a) of
           None \<Rightarrow> posting (ledger t) (bonus_key u) = None
         | Some x \<Rightarrow> \<exists>acc. account_of_user u (accounts t) = Some acc \<and> posting (ledger t) (bonus_key u) = Some (fst acc, x))" for u
  proof -
    have "bonus_paid t u" using s(1) by (simp add: joins_ok_def attributions_ok_def)
    then show ?thesis by (auto simp: bonus_paid_def find_owner split: option.splits)
  qed
  moreover have "invite_drift t = []" using s(1) by (auto simp: joins_ok_def links_ok_def invite_drift_def filter_empty_conv)
  ultimately show ?thesis using s by (simp add: joins_ok_def attributions_ok_def links_ok_def)
qed

subsection \<open>Clicks\<close>

definition click_row :: "nat \<Rightarrow> nat \<Rightarrow> visit \<Rightarrow> invite_link \<Rightarrow> bool \<Rightarrow> int \<Rightarrow> attribution" where
  "click_row user vid v link registered now =
     \<lparr>att_user = user, att_channel = link_channel link, att_source = SourceInviteLink, att_link = Some (vis_link v),
      att_visit = Some vid, att_token = Some (link_token link), att_registered = registered,
      att_snapshot = [link_name link, link_source link, link_campaign link, link_content link] @ vis_utm v,
      att_bonus = (if registered then Some (link_bonus link) else None), att_at = now\<rparr>"

definition by_click :: "nat \<Rightarrow> nat \<Rightarrow> bool \<Rightarrow> bool \<Rightarrow> 'x org_db_scheme \<Rightarrow> 'x org_db_scheme \<Rightarrow> bool" where
  "by_click user vid registered window db t \<longleftrightarrow>
     (\<exists>v link ch. map_of (visits db) vid = Some v \<and> map_of (invite_links db) (vis_link v) = Some link \<and> link_active link \<and>
        \<not> visit_predates_regeneration v link \<and> (window \<longrightarrow> clock db - ATTRIBUTION_WINDOW \<le> vis_created v) \<and>
        map_of (channels db) (link_channel link) = Some ch \<and> \<not> own_channel db user ch \<and>
        attribution_of user (attributions db) = None \<and>
        attributions t = attributions db @ [(next_uuid db, click_row user vid v link registered (clock db))])"

lemma by_clickI:
  assumes "validate_invite_visit vid window db = Some (v, lpk, link)"
    and "attribute_visit user vid (v, lpk, link) registered db = (Inr (pk, row), u)" "attributions t = attributions u"
  shows "by_click user vid registered window db t"
  using assms(1,3) attribute_visit_run [OF assms(2)]
  by (auto simp: by_click_def validate_invite_visit_def click_row_def invite_snapshot_from_visit_def split: option.splits if_splits)

lemma keeps_attributions_bonus: "keeps (\<lambda>s. attributions s = as) (credit_registration_invite_bonus att)"
  unfolding credit_registration_invite_bonus_def
  by (intro keeps_intros) (auto intro!: keepsI dest!: credit_frame)

lemma atomic_InlD: "atomic m s = (Inl e, t) \<Longrightarrow> t = s"
  by (simp add: atomic_iff)

lemma created_by_click:
  assumes "attribute_created_invite env sg user cookie db = (r, t)"
  shows "attributions t = attributions db \<or>
    (\<exists>vid i. unsign_partner_pending sg (clock db) cookie = Some (vid, i) \<and> by_click user vid True True db t)"
proof (cases r)
  case (Inl e)
  with assms have "t = db"
    unfolding attribute_created_invite_def
    by (auto simp: bindE_iff simple_txn_iff split: if_splits option.splits dest: atomic_InlD)
  then show ?thesis by simp
next
  case (Inr x)
  from assms [unfolded Inr attribute_created_invite_def] consider "t = db"
    | vid i v lpk link pk row u where "unsign_partner_pending sg (clock db) cookie = Some (vid, i)"
      "validate_invite_visit vid True db = Some (v, lpk, link)" "attribute_visit user vid (v, lpk, link) True db = (Inr (pk, row), u)"
      "credit_registration_invite_bonus (pk, row) u = (Inr x, t)"
    by (auto simp: txn_ok locked_user_def)
  then show ?thesis
  proof cases
    case 2
    have "attributions t = attributions u" using keepsD [OF keeps_attributions_bonus _ 2(4)] by simp
    with by_clickI [OF 2(2,3)] 2(1) show ?thesis by blast
  qed simp
qed

lemma consumed_by_click:
  assumes "consume_partner_pending env sg user cookie db = (r, t)"
  shows "attributions t = attributions db \<or>
    (\<exists>vid i. unsign_partner_pending sg (clock db) cookie = Some (vid, i) \<and> by_click user vid False True db t)"
proof (cases "r = Inr Created")
  case False
  with assms have "t = db"
    unfolding consume_partner_pending_def
    by (auto simp: bindE_iff simple_txn_iff catchE_iff split: if_splits option.splits dest: atomic_InlD)
      (auto simp: txn_ok locked_user_def split: if_splits dest: atomic_InlD)
  then show ?thesis by simp
next
  case True
  from assms [unfolded True consume_partner_pending_def] obtain vid i v lpk link pk row where
      "unsign_partner_pending sg (clock db) cookie = Some (vid, i)" "validate_invite_visit vid True db = Some (v, lpk, link)"
      "attribute_visit user vid (v, lpk, link) False db = (Inr (pk, row), t)"
    by (auto simp: txn_ok locked_user_def split: if_splits)
  with by_clickI show ?thesis by blast
qed

text \<open>A pending row of the old kind, without a click, attributes to its channel when the channel's link is
  active and still has the token of the row; it takes no names and no bonus.\<close>

definition by_legacy :: "nat \<Rightarrow> pending \<Rightarrow> 'x org_db_scheme \<Rightarrow> 'x org_db_scheme \<Rightarrow> bool" where
  "by_legacy user p db t \<longleftrightarrow>
     (\<exists>lpk link ch. canonical_invite_link (pen_channel p) (invite_links db) = Some (lpk, link) \<and> link_active link \<and>
        link_token link = pen_token p \<and> map_of (channels db) (pen_channel p) = Some ch \<and> \<not> own_channel db user ch \<and>
        attribution_of user (attributions db) = None \<and>
        attributions t = attributions db @ [(next_uuid db, \<lparr>att_user = user, att_channel = pen_channel p,
          att_source = SourceInviteLink, att_link = Some lpk, att_visit = None, att_token = Some (pen_token p),
          att_registered = False, att_snapshot = replicate 8 [], att_bonus = None, att_at = clock db\<rparr>)])"

lemma legacy_attributes:
  assumes run: "apply_legacy_pending user (ppk, p) db = (r, t)" and row: "map_of (pendings db) ppk = Some p"
  shows "attributions t = attributions db \<or> by_legacy user p db t"
proof (cases r)
  case (Inl e)
  with run have "t = db"
    unfolding apply_legacy_pending_def
    by (auto simp: bindE_iff simple_txn_iff delete_pending_def modifyE_def split: if_splits option.splits dest: atomic_InlD)
  then show ?thesis by simp
next
  case (Inr x)
  from run [unfolded Inr apply_legacy_pending_def] row consider "t = db" | "t = db\<lparr>pendings := AList.delete ppk (pendings db)\<rparr>"
    | lpk link ch where "canonical_invite_link (pen_channel p) (invite_links db) = Some (lpk, link)" "link_active link"
        "link_token link = pen_token p" "map_of (channels db) (pen_channel p) = Some ch"
        "settle_legacy user ppk lpk p ch db = (Inr x, t)"
    by (auto simp: txn_ok locked_user_def delete_pending_def split: option.splits)
  then show ?thesis
  proof cases
    case 3
    from settle_legacy_run [OF 3(5)] 3(1-4) show ?thesis unfolding by_legacy_def by fastforce
  qed simp_all
qed

lemma activated_by_click:
  assumes run: "apply_pending_on_activation env user db = (r, t)" and pks: "distinct (map fst (pendings db))"
  shows "attributions t = attributions db \<or>
    (\<exists>ppk p vid. map_of (pendings db) ppk = Some p \<and> pen_visit p = Some vid \<and> clock db < pen_expires p \<and> by_click user vid True False db t) \<or>
    (\<exists>ppk p. pending_of user (pendings db) = Some (ppk, p) \<and> pen_visit p = None \<and> clock db < pen_expires p \<and> by_legacy user p db t)"
proof -
  consider "t = db" | ppk where "t = db\<lparr>pendings := AList.delete ppk (pendings db)\<rparr>"
    | ppk where "apply_visit_pending user ppk db = (r, t)"
    | ppk p where "pending_of user (pendings db) = Some (ppk, p)" "pen_visit p = None" "clock db < pen_expires p"
      "apply_legacy_pending user (ppk, p) db = (r, t)"
  proof (cases "pending_of user (pendings db)")
    case None
    then show thesis using run that(1) by (simp add: apply_pending_on_activation_def txn_defs)
  next
    case (Some row)
    obtain ppk p where row: "row = (ppk, p)" by (cases row)
    with Some have eq: "apply_pending_on_activation env user db =
      (if pen_expires p \<le> clock db \<or> attribution_of user (attributions db) \<noteq> None then delete_pending ppk db
       else if PARTNER_CHANNEL_ENABLED env
         then (if pen_visit p = None then apply_legacy_pending user (ppk, p) db else apply_visit_pending user ppk db)
         else (Inr (), db))"
      by (auto simp: apply_pending_on_activation_def txn_defs split: option.split)
    show thesis
    proof (cases "pen_expires p \<le> clock db \<or> attribution_of user (attributions db) \<noteq> None")
      case True
      then have "delete_pending ppk db = (r, t)" using run eq by simp
      then show thesis by (intro that(2)) (auto simp: delete_pending_def txn_defs)
    next
      case False
      with run eq have "(if PARTNER_CHANNEL_ENABLED env
          then (if pen_visit p = None then apply_legacy_pending user (ppk, p) db else apply_visit_pending user ppk db)
          else (Inr (), db)) = (r, t)" by simp
      then show thesis using that(1,3) that(4) [of ppk p] Some row False
        by (cases "PARTNER_CHANNEL_ENABLED env"; cases "pen_visit p = None") simp_all
    qed
  qed
  then show ?thesis
  proof cases
    case 3
    show ?thesis
    proof (cases r)
      case (Inl e)
      then have "t = db" using 3 by (auto simp: apply_visit_pending_def dest: atomic_InlD)
      then show ?thesis by simp
    next
      case (Inr x)
      from 3 [unfolded Inr apply_visit_pending_def] consider "t = db" | "t = db\<lparr>pendings := AList.delete ppk (pendings db)\<rparr>"
        | p vid v lpk link where "map_of (pendings db) ppk = Some p" "pen_visit p = Some vid" "clock db < pen_expires p"
          "validate_invite_visit vid False db = Some (v, lpk, link)" "settle_click user ppk (vid, v, lpk, link) db = (Inr x, t)"
        by (auto simp: txn_ok locked_user_def delete_pending_def split: option.splits)
      then show ?thesis
      proof cases
        case 3
        from 3(5) consider "t = db"
          | pk row u y w where "attribute_visit user vid (v, lpk, link) True db = (Inr (pk, row), u)"
            "credit_registration_invite_bonus (pk, row) u = (Inr y, w)" "t = w\<lparr>pendings := AList.delete ppk (pendings w)\<rparr>"
          unfolding settle_click_def prod.case unless_self_referral_ok
          by (auto simp: combinators_ok delete_pending_def dest: attribute_visit_conflict)
        then show ?thesis
        proof cases
          case 2
          have "attributions w = attributions u" using keepsD [OF keeps_attributions_bonus _ 2(2)] by simp
          then have "by_click user vid True False db t" using by_clickI [OF 3(4) 2(1)] 2(3) by simp
          with 3(1-3) show ?thesis by blast
        qed simp
      qed simp_all
    qed
  next
    case 4
    have "map_of (pendings db) ppk = Some p" using 4(1) pks by (auto simp: pending_of_def dest: find_in)
    from legacy_attributes [OF 4(4) this] 4(1-3) show ?thesis by blast
  qed simp_all
qed

text \<open>C28. A click brings a customer only while its link is live. When an activation, a first sign-in or a
  consumed cookie adds an attribution, it adds one row, for that user, who had none and does not own the
  channel. For a sign-in or a cookie the click is the one the cookie names and is at most thirty days
  old. For an activation it is the one a pending row names that has not expired, however old the click is by then.
  In both cases the click's link is active and was not regenerated since; the row carries the link's
  channel, token and names, the click's parameters, and the link's bonus exactly when the user is new. The one
  attribution without a click is that of an activation whose unexpired pending row is of the old kind,
  which names none: it needs the channel's link active with the row's token, and brings no bonus.\<close>

theorem attribution_from_live_click:
  assumes run: "perform env sg c (db :: org_db) = (r, t)" and c: "c \<in> {Activate user, CreatedInvite user cookie, Consume user cookie}"
    and pks: "distinct (map fst (pendings db))"
  shows "attributions t = attributions db \<or>
    (\<exists>vid. by_click user vid (c \<noteq> Consume user cookie) (c \<noteq> Activate user) db t \<and>
       (if c = Activate user then \<exists>ppk p. map_of (pendings db) ppk = Some p \<and> pen_visit p = Some vid \<and> clock db < pen_expires p
        else \<exists>i. unsign_partner_pending sg (clock db) cookie = Some (vid, i))) \<or>
    c = Activate user \<and> (\<exists>ppk p. pending_of user (pendings db) = Some (ppk, p) \<and> pen_visit p = None \<and>
       clock db < pen_expires p \<and> by_legacy user p db t)"
proof -
  consider "c = Activate user" | "c = CreatedInvite user cookie" | "c = Consume user cookie" using c by blast
  then show ?thesis
  proof cases
    case 1
    then show ?thesis using activated_by_click [of env user db r t] run pks by auto
  next
    case 2
    then show ?thesis using created_by_click [of env sg user cookie db r t] run by auto
  next
    case 3
    then obtain q where "consume_partner_pending env sg user cookie db = (q, t)" using run by (auto simp: finished_def txn_iff)
    from consumed_by_click [OF this] 3 show ?thesis by auto
  qed
qed

subsection \<open>Regenerated links and cookies\<close>

text \<open>C29. Regenerating the link of a channel retires everything the old token led to: no earlier click of the link is
  valid any more, with or without the thirty days' window, the old token opens no new click, and the pending
  rows of the channel that hold it are gone; no attribution and no money changes.\<close>

theorem regenerate_retires_old_link:
  assumes run: "regenerate_invite_link draw ch (db :: org_db) = (Inr (pk, link), t)" and ok: "joins_ok db"
    and old: "canonical_invite_link ch (invite_links db) = Some (pk', before)" and draw: "\<And>n. draw n \<noteq> link_token before"
  shows "pk = pk' \<and>
    (\<forall>vid v window. map_of (visits t) vid = Some v \<and> vis_link v = pk \<and> vis_created v < clock db \<longrightarrow>
       validate_invite_visit vid window t = None) \<and>
    record_visit env sg (link_token before) utm t = (Inr None, t) \<and>
    \<not> (\<exists>r \<in> set (pendings t). pen_channel (snd r) = ch \<and> pen_token (snd r) = link_token before) \<and>
    attributions t = attributions db \<and> ledger t = ledger db"
proof -
  obtain token u where p: "persist_with_unique_invite_token INVITE_TOKEN_ATTEMPTS draw
        (\<lambda>token. save_invite_link pk (before\<lparr>link_token := token, link_regenerated := Some (clock db)\<rparr>)) db = (Inr token, u)"
    and t: "t = u\<lparr>pendings := filter (\<lambda>r. \<not> (pen_channel (snd r) = ch \<and> pen_token (snd r) = link_token before)) (pendings u)\<rparr>"
    and pk: "pk = pk'"
    using run old by (auto simp: regenerate_invite_link_def Let_def txn_ok)
  have "token \<noteq> link_token before" using persist_drawn [OF p] draw by auto
  from persist_token_run [OF p] obtain b where u: "u = db\<lparr>invite_links := AList.update pk
      (before\<lparr>link_token := token, link_regenerated := Some (clock db), link_bonus := b\<rparr>) (invite_links db)\<rparr>"
    by (auto dest!: save_invite_link_run)
  have keys: "distinct (map fst (invite_links db))" and names: "distinct (map (\<lambda>r. link_token (snd r)) (invite_links db))"
    using ok by (simp_all add: joins_ok_def links_ok_def)
  have row: "(pk, before) \<in> set (invite_links db)" using canonical_Some [OF old] pk by simp
  have "link_token (snd l) \<noteq> link_token before" if "l \<in> set (invite_links t)" for l
  proof (cases "fst l = pk")
    case True
    with that \<open>token \<noteq> link_token before\<close> show ?thesis by (auto simp: t u set_AList_update [OF keys])
  next
    case False
    then have "l \<in> set (invite_links db)" using that by (auto simp: t u set_AList_update [OF keys])
    with names row False show ?thesis by (auto simp: distinct_map inj_on_def)
  qed
  then have none: "link_of_token (link_token before) (invite_links t) = None" by (auto simp: link_of_token_def find_None_iff)
  have "record_visit env sg (link_token before) utm t = (Inr None, t)" by (simp add: record_visit_def none txn_defs)
  moreover have "validate_invite_visit vid window t = None"
    if "map_of (visits t) vid = Some v" "vis_link v = pk" "vis_created v < clock db" for vid v window
    using that by (simp add: validate_invite_visit_def t u visit_predates_regeneration_def)
  ultimately show ?thesis using pk by (auto simp: t u)
qed

text \<open>The cookie of a click leads back to it: within thirty days of the click, the signed cookie that following a
  live link answered with is read back as the stored click and its time, the click carries the normalized
  parameters, and it is valid for an attribution to the link's channel. The signer, the JSON encoding and the
  parsers of identifiers and times are assumed to undo each other.\<close>

theorem join_cookie_roundtrip:
  assumes run: "issue_join_signature env sg token utm (db :: org_db) = (Inr (Some cookie), t)" and ok: "joins_ok db"
    and rows: "\<forall>r \<in> set (visits db). fst r < next_uuid db"
      "\<forall>r \<in> set (invite_links db). case link_regenerated (snd r) of None \<Rightarrow> True | Some x \<Rightarrow> x \<le> clock db"
    and time: "clock db \<le> now" "now \<le> clock db + ATTRIBUTION_WINDOW"
    and signer: "\<And>x. sg_sign sg (clock db) x \<noteq> []" "\<And>x. sg_unsign sg now (sg_sign sg (clock db) x) = Some x"
    and json: "\<And>v i. sg_loads sg (sg_dumps sg [(''visit_id'', JText v), (''issued_at'', JText i)]) =
        Some (JObj [(''visit_id'', JText v), (''issued_at'', JText i)])"
    and parsers: "\<And>n. sg_uuid sg (str_nat n) = Some n" "\<And>x. sg_datetime sg (isoformat env x) = Some x"
  shows "\<exists>vid v lpk link. unsign_partner_pending sg now cookie = Some (vid, clock db) \<and> map_of (visits t) vid = Some v \<and>
    vis_utm v = normalize_utm utm \<and> link_of_token token (invite_links db) = Some (lpk, link) \<and>
    validate_invite_visit vid True (t\<lparr>clock := now\<rparr>) = Some (v, lpk, link)"
proof -
  let ?vid = "next_uuid db"
  from run obtain lpk link where link: "link_of_token token (invite_links db) = Some (lpk, link)" "link_active link"
    and t: "t = db\<lparr>next_uuid := Suc ?vid, visits := visits db @ [(?vid, \<lparr>vis_link = lpk, vis_utm = normalize_utm utm, vis_created = clock db\<rparr>)]\<rparr>"
    and cookie: "cookie = sign_partner_pending env sg ?vid (clock db) (clock db)"
    by (auto simp: issue_join_signature_def record_visit_def txn_ok insert_visit_def uuid4_def Let_def)
  have row: "(lpk, link) \<in> set (invite_links db)" using link(1) by (auto simp: link_of_token_def dest: find_in)
  have key: "map_of (invite_links db) lpk = Some link" using row ok by (simp add: joins_ok_def links_ok_def)
  have fresh: "map_of (visits db) ?vid = None" using rows(1) by (force simp: map_of_eq_None_iff)
  have "\<not> visit_predates_regeneration \<lparr>vis_link = lpk, vis_utm = normalize_utm utm, vis_created = clock db\<rparr> link"
    using rows(2) row by (auto simp: visit_predates_regeneration_def split: option.splits)
  then have "validate_invite_visit ?vid True (t\<lparr>clock := now\<rparr>) =
      Some (\<lparr>vis_link = lpk, vis_utm = normalize_utm utm, vis_created = clock db\<rparr>, lpk, link)"
    using link(2) key fresh time by (simp add: validate_invite_visit_def t map_add_def)
  moreover have "unsign_partner_pending sg now cookie = Some (?vid, clock db)"
    using signer json parsers by (simp add: unsign_partner_pending_def cookie sign_partner_pending_def)
  ultimately show ?thesis using link(1) fresh
    by (intro exI [of _ ?vid] exI [of _ "\<lparr>vis_link = lpk, vis_utm = normalize_utm utm, vis_created = clock db\<rparr>"]
        exI [of _ lpk] exI [of _ link]) (simp add: t map_add_def)
qed

section \<open>Examples\<close>

definition demo_join_env :: env where
  "demo_join_env = demo_env\<lparr>isoformat := (\<lambda>t. (if t < 0 then CHR ''n'' else CHR ''p'') # replicate (nat \<bar>t\<bar>) (CHR ''0''))\<rparr>"

definition demo_signer :: signer where
  "demo_signer = \<lparr>sg_sign = (\<lambda>_ s. CHR ''s'' # s), sg_unsign = (\<lambda>_ s. Some (tl s)),
     sg_dumps = (\<lambda>kvs. case kvs of [(_, JText v), (_, JText i)] \<Rightarrow> replicate (length v) (CHR ''x'') @ ''.'' @ v @ i | _ \<Rightarrow> []),
     sg_loads = (\<lambda>s. let n = length (takeWhile (\<lambda>c. c = CHR ''x'') s); r = drop (Suc n) s
       in Some (JObj [(''visit_id'', JText (take n r)), (''issued_at'', JText (drop n r))])),
     sg_str = (\<lambda>_. []), sg_uuid = (\<lambda>s. Some (read_nat s)),
     sg_datetime = (\<lambda>s. case s of [] \<Rightarrow> None | c # cs \<Rightarrow> Some (if c = CHR ''n'' then - int (length cs) else int (length cs)))\<rparr>"

lemma demo_signer_laws:
  "sg_sign demo_signer now x \<noteq> []" "sg_unsign demo_signer now (sg_sign demo_signer t x) = Some x"
  "sg_loads demo_signer (sg_dumps demo_signer [(''visit_id'', JText v), (''issued_at'', JText i)]) =
        Some (JObj [(''visit_id'', JText v), (''issued_at'', JText i)])"
  "sg_uuid demo_signer (str_nat n) = Some n" "sg_datetime demo_signer (isoformat demo_join_env y) = Some y"
proof -
  have "takeWhile (\<lambda>c. c = CHR ''x'') (replicate k (CHR ''x'') @ CHR ''.'' # r) = replicate k (CHR ''x'')" for k r
    by (induction k) simp_all
  then show "sg_loads demo_signer (sg_dumps demo_signer [(''visit_id'', JText v), (''issued_at'', JText i)]) =
        Some (JObj [(''visit_id'', JText v), (''issued_at'', JText i)])"
    by (simp add: demo_signer_def Let_def)
qed (simp_all add: demo_signer_def demo_join_env_def)

lemma demo_links: "invite_links demo_org_db = [(0, \<lparr>link_channel = 1, link_token = ''t'', link_name = [], link_bonus = 0, link_source = [],
         link_campaign = [], link_content = [], link_active = True, link_created = 100, link_regenerated = None\<rparr>)]"
  by (simp add: demo_org_db_def demo_partner_db_def partner_db.defs deposit_db.defs)

lemma demo_usable: "partner_invite_token_is_usable ''t''"
  by (simp add: partner_invite_token_is_usable_def) code_simp

lemma demo_joins_ok: "joins_ok demo_org_db"
proof -
  have "posting (ledger demo_org_db) (bonus_key u) = None" for u
    by (simp add: bonus_key_def new_entry_def)
  then have "bonus_paid demo_org_db u" for u
    by (simp add: bonus_paid_def attribution_of_def demo_attribution_def bonus_due_def)
  then have "attributions_ok demo_org_db" by (simp add: attributions_ok_def)
  moreover have "links_ok demo_org_db"
    by (simp add: links_ok_def demo_links demo_usable on_grid_def)
  ultimately show ?thesis using demo_team_ok by (simp add: joins_ok_def team_ok_def)
qed

lemma demo_join:
  "issue_join_signature demo_join_env demo_signer ''t'' (\<lambda>_. None) demo_org_db =
    (Inr (Some (sign_partner_pending demo_join_env demo_signer 3 1000 1000)),
     demo_org_db\<lparr>next_uuid := 4, visits := [(3, \<lparr>vis_link = 0, vis_utm = normalize_utm (\<lambda>_. None), vis_created = 1000\<rparr>)]\<rparr>)"
  by (simp add: issue_join_signature_def record_visit_def demo_usable demo_join_env_def demo_env_def link_of_token_def demo_links
      txn_defs uuid4_def Let_def insert_visit_def normalize_utm_def normalize_utm_value_def UTM_FIELDS_def)

theorem partner_entry_invariant_witness:
  "invite_drift (snd (perform demo_join_env demo_signer (Join ''t'' (\<lambda>_. None)) demo_org_db)) = []"
proof -
  have "partner_run demo_join_env demo_signer demo_org_db (snd (perform demo_join_env demo_signer (Join ''t'' (\<lambda>_. None)) demo_org_db))"
    by (rule partner_run.call [OF partner_run.start surjective_pairing])
  from partner_entry_invariant [OF this demo_joins_ok] show ?thesis by simp
qed

theorem join_cookie_roundtrip_witness:
  "\<exists>vid. unsign_partner_pending demo_signer 2000 (sign_partner_pending demo_join_env demo_signer 3 1000 1000) = Some (vid, 1000)"
  using join_cookie_roundtrip [OF demo_join demo_joins_ok _ _ _ _ demo_signer_laws, of 2000]
  by (auto simp: demo_links ATTRIBUTION_WINDOW_def DAY_def SECOND_def)

definition demo_clicked :: org_db where
  "demo_clicked = demo_org_db\<lparr>next_uuid := 4, visits := [(3, \<lparr>vis_link = 0, vis_utm = replicate 4 [], vis_created = 1000\<rparr>)]\<rparr>"

lemma demo_created:
  "\<exists>t row. perform demo_join_env demo_signer (CreatedInvite 9 (sign_partner_pending demo_join_env demo_signer 3 1000 1000)) demo_clicked
     = (Inr (), t) \<and> attributions t = attributions demo_clicked @ [(4, row)]"
proof -
  let ?cookie = "sign_partner_pending demo_join_env demo_signer 3 1000 1000"
  have c: "unsign_partner_pending demo_signer 1000 ?cookie = Some (3, 1000)" "?cookie \<noteq> []"
    using demo_signer_laws by (simp_all add: unsign_partner_pending_def sign_partner_pending_def)
  have on: "PARTNER_CHANNEL_ENABLED demo_join_env" by (simp add: demo_join_env_def demo_env_def)
  show ?thesis
    by (simp add: attribute_created_invite_def c on txn_defs demo_clicked_def locked_user_def
        attribution_of_def demo_attribution_def validate_invite_visit_def demo_links visit_predates_regeneration_def
        attribute_visit_def ensure_current_attribution_allowed_def lock_self_referral_rows_def demo_channel_def active_member_def
        uuid4_def insert_attribution_def credit_registration_invite_bonus_def ATTRIBUTION_WINDOW_def DAY_def SECOND_def Let_def)
qed

theorem attribution_from_live_click_witness:
  "\<exists>t vid. perform demo_join_env demo_signer (CreatedInvite 9 (sign_partner_pending demo_join_env demo_signer 3 1000 1000)) demo_clicked
      = (Inr (), t) \<and> by_click 9 vid True True demo_clicked t"
proof -
  obtain t row where t: "perform demo_join_env demo_signer (CreatedInvite 9 (sign_partner_pending demo_join_env demo_signer 3 1000 1000)) demo_clicked
     = (Inr (), t)" "attributions t = attributions demo_clicked @ [(4, row)]" using demo_created by blast
  have "distinct (map fst (pendings demo_clicked))" by (simp add: demo_clicked_def)
  from attribution_from_live_click [OF t(1), of 9 "sign_partner_pending demo_join_env demo_signer 3 1000 1000", OF _ this] t
  show ?thesis by auto
qed

definition demo_later :: org_db where
  "demo_later = demo_clicked\<lparr>clock := 2000\<rparr>"

lemma demo_later_ok: "joins_ok demo_later"
proof -
  have "joins_ok (demo_org_db\<lparr>next_uuid := Suc (next_uuid demo_org_db)\<rparr>)" by (rule entry_next [OF demo_joins_ok])
  then have "joins_ok (demo_org_db\<lparr>next_uuid := 4, visits := vs, clock := c\<rparr>)" for vs c
    by (subst entry_cong [of _ "demo_org_db\<lparr>next_uuid := Suc (next_uuid demo_org_db)\<rparr>"]) (simp_all add: owners_def)
  then show ?thesis by (simp add: demo_later_def demo_clicked_def)
qed

lemma demo_later_links: "invite_links demo_later = invite_links demo_org_db" "pendings demo_later = []" "clock demo_later = 2000"
  "visits demo_later = [(3, \<lparr>vis_link = 0, vis_utm = replicate 4 [], vis_created = 1000\<rparr>)]"
  by (simp_all add: demo_later_def demo_clicked_def)

lemma demo_usable_new: "partner_invite_token_is_usable ''new''"
  by (simp add: partner_invite_token_is_usable_def) code_simp

lemma demo_regenerated: "\<exists>link t. regenerate_invite_link (\<lambda>_. ''new'') 1 demo_later = (Inr (0, link), t) \<and> visits t = visits demo_later"
proof -
  let ?link = "snd (hd (invite_links demo_org_db))"
  let ?row = "?link\<lparr>link_token := ''new'', link_regenerated := Some 2000\<rparr>"
  have num: "numeric_20_6 0 = Inr 0" by (simp add: numeric_20_6_def quantize_half_up_def MONEY_QUANT_def NUMERIC_20_6_def)
  have save: "save_invite_link 0 ?row demo_later = (Inr (), demo_later\<lparr>invite_links := [(0, ?row)]\<rparr>)"
    by (simp add: save_invite_link_def demo_later_links demo_links demo_usable_new frozen_values_changed_def num txn_defs)
  have persist: "persist_with_unique_invite_token INVITE_TOKEN_ATTEMPTS (\<lambda>_. ''new'') (\<lambda>token. save_invite_link 0 (?link\<lparr>link_token := token, link_regenerated := Some 2000\<rparr>)) demo_later
      = (Inr ''new'', demo_later\<lparr>invite_links := [(0, ?row)]\<rparr>)"
  proof -
    have n: "INVITE_TOKEN_ATTEMPTS = Suc 4" by (simp add: INVITE_TOKEN_ATTEMPTS_def)
    show ?thesis unfolding n
      by (simp only: persist_with_unique_invite_token.simps catchE_def thenE_def bindE_def atomic_def ret_def save prod.case sum.case)
  qed
  have old: "canonical_invite_link 1 (invite_links demo_later) = Some (0, ?link)"
    by (simp add: demo_later_links demo_links canonical_invite_link_def)
  show ?thesis
    using persist by (simp add: regenerate_invite_link_def old [unfolded One_nat_def] bindE_def thenE_def atomic_def getsE_def get_or_raise_def modifyE_def ret_def
        demo_later_links(3) Let_def)
qed

theorem regenerate_retires_old_link_witness:
  "\<exists>link t. regenerate_invite_link (\<lambda>_. ''new'') 1 demo_later = (Inr (0, link), t) \<and>
     validate_invite_visit 3 False demo_later \<noteq> None \<and> validate_invite_visit 3 False t = None"
proof -
  obtain link t where run: "regenerate_invite_link (\<lambda>_. ''new'') 1 demo_later = (Inr (0, link), t)" and v: "visits t = visits demo_later"
    using demo_regenerated by blast
  have old: "canonical_invite_link 1 (invite_links demo_later) = Some (0, snd (hd (invite_links demo_org_db)))"
    by (simp add: demo_later_links demo_links canonical_invite_link_def)
  have "validate_invite_visit 3 False demo_later \<noteq> None"
    by (simp add: validate_invite_visit_def demo_later_links demo_links visit_predates_regeneration_def)
  moreover have "validate_invite_visit 3 False t = None"
    using regenerate_retires_old_link [OF run demo_later_ok old] v by (simp add: demo_links demo_later_links)
  ultimately show ?thesis using run by blast
qed

end
