(* ===== verification/Accounts.thy ===== *)
theory Accounts
  imports Attribution
begin

text \<open>
  The accounts app: registration and activation (\<^verbatim>\<open>services/registration.py\<close>), mobile signup with a mailed code
  (\<^verbatim>\<open>services/signup.py\<close>), password reset, the transactional mails (\<^verbatim>\<open>services/email.py\<close>), the token check of
  \<^verbatim>\<open>tokens.py\<close> and the Google login (\<^verbatim>\<open>providers/google/\<close>). \<open>auths\<close> holds the columns of \<^verbatim>\<open>User\<close> that only this app
  uses; an unusable password is \<open>None\<close>. Django's and google-auth's functions (password hashers and validators,
  \<^verbatim>\<open>normalize_email\<close>, base64, the token digest, SMTP, the verification of a Google token) are the record
  \<open>auth_lib\<close>. Mails that went out and the cache survive a rollback. A mail is kept by its kind and its link or code;
  log lines, metrics and the auth events are not kept, nor is \<^verbatim>\<open>last_login\<close>, which no service writes.
\<close>

section \<open>State\<close>

record user_auth =
  ua_password :: "string option"
  ua_display_name :: string
  ua_google_sub :: "string option"
  ua_google_name :: string
  ua_google_picture :: string
  ua_login_provider :: string
  ua_google_login :: "int option"

record signup_code =
  sc_hash :: string
  sc_expires :: int
  sc_attempts :: nat

datatype mail_kind = ActivationMail string | ResetMail string | CodeMail string | ExistsMail

record mail =
  mail_to :: string
  mail_user :: nat
  mail_body :: mail_kind
  mail_at :: int

record auth_db = org_db +
  auths :: "nat \<Rightarrow> user_auth"
  signup_codes :: "(nat \<times> signup_code) list"
  mail_cache :: "string \<Rightarrow> int option"
  outbox :: "mail list"

type_synonym ('x, 'a) auth_txn = "('x auth_db_scheme, 'a) txn"

datatype google_answer = Claims "(string \<times> json) list" | BadToken | VerifyUnavailable

text \<open>\<open>lib_token\<close> takes the key salt, the secret, the user's pk, email and password and the timestamp.\<close>

record auth_lib =
  lib_normalize_email :: "string \<Rightarrow> string"
  lib_make_password :: "string \<Rightarrow> string"
  lib_check_password :: "string \<Rightarrow> string \<Rightarrow> bool"
  lib_valid_password :: "string \<Rightarrow> bool"
  lib_uid_encode :: "string \<Rightarrow> string"
  lib_uid_text :: "string \<Rightarrow> string option"
  lib_secrets :: "string list"
  lib_token :: "string \<Rightarrow> string \<Rightarrow> nat \<Rightarrow> string \<Rightarrow> string option \<Rightarrow> int \<Rightarrow> string"
  lib_base36 :: "string \<Rightarrow> int option"
  lib_smtp :: "mail \<Rightarrow> exc option"
  lib_google_client :: string
  lib_google_verify :: "string \<Rightarrow> google_answer"

text \<open>\<^verbatim>\<open>transaction.atomic()\<close>: the database is restored, the outbox and the cache are not.\<close>

definition db_atomic :: "('x, 'a) auth_txn \<Rightarrow> ('x, 'a) auth_txn" where
  "db_atomic m = (\<lambda>s. case m s of
     (Inl e, s') \<Rightarrow> (Inl e, s\<lparr>outbox := outbox s', mail_cache := mail_cache s'\<rparr>)
   | (Inr x, s') \<Rightarrow> (Inr x, s'))"

section \<open>Users\<close>

definition user_of_email :: "string \<Rightarrow> (nat \<times> user_row) list \<Rightarrow> (nat \<times> user_row) option" where
  "user_of_email email rows = find (\<lambda>r. usr_email (snd r) = email) rows"

definition user_of_sub :: "string \<Rightarrow> 'x auth_db_scheme \<Rightarrow> (nat \<times> user_row) option" where
  "user_of_sub sub db = find (\<lambda>r. ua_google_sub (auths db (fst r)) = Some sub) (users db)"

definition auth_fits :: "user_auth \<Rightarrow> bool" where
  "auth_fits a \<longleftrightarrow> length (ua_display_name a) \<le> 255 \<and> length (ua_google_name a) \<le> 255 \<and> length (ua_google_picture a) \<le> 2048 \<and>
     (case ua_google_sub a of None \<Rightarrow> True | Some s \<Rightarrow> length s \<le> 255)"

definition sub_taken :: "nat \<Rightarrow> user_auth \<Rightarrow> 'x auth_db_scheme \<Rightarrow> bool" where
  "sub_taken pk a db \<longleftrightarrow> ua_google_sub a \<noteq> None \<and>
     (\<exists>r \<in> set (users db). fst r \<noteq> pk \<and> ua_google_sub (auths db (fst r)) = ua_google_sub a)"

text \<open>\<^verbatim>\<open>User(...).save()\<close>: unique email and Google subject.\<close>

definition insert_user :: "string \<Rightarrow> bool \<Rightarrow> user_auth \<Rightarrow> ('x, nat) auth_txn" where
  "insert_user email active a =
     bindE uuid4 (\<lambda>pk.
     bindE (getsE (\<lambda>db. user_of_email email (users db) \<noteq> None \<or> sub_taken pk a db)) (\<lambda>taken.
     if 254 < length email \<or> \<not> auth_fits a then raiseE (EPy DataError)
     else if taken then raiseE (EPy IntegrityError)
     else thenE (modifyE (\<lambda>db. db\<lparr>users := users db @ [(pk, \<lparr>usr_email = email, usr_active = active, usr_staff = False\<rparr>)],
                    auths := (auths db)(pk := a)\<rparr>))
            (ret pk)))"

text \<open>\<^verbatim>\<open>user.save(update_fields=...)\<close> of a row just read.\<close>

definition save_user :: "nat \<Rightarrow> bool \<Rightarrow> user_auth \<Rightarrow> ('x, unit) auth_txn" where
  "save_user pk active a =
     bindE (getsE (\<lambda>db. map_of (users db) pk)) (\<lambda>found.
     bindE (get_or_raise (EPy DatabaseError) found) (\<lambda>row.
     bindE (getsE (sub_taken pk a)) (\<lambda>taken.
     if \<not> auth_fits a then raiseE (EPy DataError)
     else if taken then raiseE (EPy IntegrityError)
     else modifyE (\<lambda>db. db\<lparr>users := AList.update pk (row\<lparr>usr_active := active\<rparr>) (users db), auths := (auths db)(pk := a)\<rparr>))))"

definition blank_auth :: user_auth where
  "blank_auth = \<lparr>ua_password = None, ua_display_name = [], ua_google_sub = None, ua_google_name = [], ua_google_picture = [],
     ua_login_provider = [], ua_google_login = None\<rparr>"

definition has_usable_password :: "user_auth \<Rightarrow> bool" where
  "has_usable_password a \<longleftrightarrow> ua_password a \<noteq> None"

section \<open>Tokens\<close>

definition ACTIVATION_SALT :: string where "ACTIVATION_SALT = ''apps.accounts.tokens.AccountActivationTokenGenerator''"
definition RESET_SALT :: string where "RESET_SALT = ''apps.accounts.tokens.PasswordResetTokenGeneratorForEmail''"
definition ACTIVATION_TIMEOUT :: int where "ACTIVATION_TIMEOUT = 60 * 60 * 24"
definition RESET_TIMEOUT :: int where "RESET_TIMEOUT = 60 * 60"

text \<open>Whole seconds since 2001.\<close>

definition num_seconds :: "int \<Rightarrow> int" where
  "num_seconds t = t div SECOND - 978307200"

definition user_token :: "auth_lib \<Rightarrow> string \<Rightarrow> string \<Rightarrow> nat \<Rightarrow> user_row \<Rightarrow> user_auth \<Rightarrow> int \<Rightarrow> string" where
  "user_token lib salt secret pk row a ts = lib_token lib salt secret pk (usr_email row) (ua_password a) ts"

definition check_token :: "auth_lib \<Rightarrow> string \<Rightarrow> int \<Rightarrow> nat \<Rightarrow> user_row \<Rightarrow> user_auth \<Rightarrow> string \<Rightarrow> int \<Rightarrow> bool" where
  "check_token lib salt timeout pk row a token now =
     (if token = [] then False
      else case split_on CHR ''-'' token of
        [ts36, _] \<Rightarrow> (case lib_base36 lib ts36 of
            None \<Rightarrow> False
          | Some ts \<Rightarrow> (\<exists>secret \<in> set (lib_secrets lib). user_token lib salt secret pk row a ts = token) \<and>
              num_seconds now - ts \<le> timeout)
      | _ \<Rightarrow> False)"

definition make_token :: "auth_lib \<Rightarrow> string \<Rightarrow> nat \<Rightarrow> user_row \<Rightarrow> user_auth \<Rightarrow> int \<Rightarrow> string" where
  "make_token lib salt pk row a now =
     (case lib_secrets lib of [] \<Rightarrow> [] | secret # _ \<Rightarrow> user_token lib salt secret pk row a (num_seconds now))"

section \<open>Mails\<close>

definition build_frontend_link :: "env \<Rightarrow> string \<Rightarrow> string \<Rightarrow> string \<Rightarrow> string" where
  "build_frontend_link env path uid token =
     rev (dropWhile (\<lambda>c. c = CHR ''/'') (rev (FRONTEND_BASE_URL env))) @ path @ ''?uid='' @ uid @ ''&token='' @ token"

definition uid_for_user :: "auth_lib \<Rightarrow> nat \<Rightarrow> string" where
  "uid_for_user lib pk = lib_uid_encode lib (str_nat pk)"

definition send_mail :: "auth_lib \<Rightarrow> nat \<Rightarrow> string \<Rightarrow> mail_kind \<Rightarrow> ('x, unit) auth_txn" where
  "send_mail lib pk email body =
     bindE (getsE (\<lambda>db. \<lparr>mail_to = email, mail_user = pk, mail_body = body, mail_at = clock db\<rparr>)) (\<lambda>msg.
     case lib_smtp lib msg of
       Some e \<Rightarrow> raiseE e
     | None \<Rightarrow> modifyE (\<lambda>db. db\<lparr>outbox := outbox db @ [msg]\<rparr>))"

text \<open>The user is an object: its pk, row and other columns.\<close>

definition send_activation_email :: "env \<Rightarrow> auth_lib \<Rightarrow> nat \<Rightarrow> ('x, unit) auth_txn" where
  "send_activation_email env lib pk =
     bindE (getsE (\<lambda>db. map_option (\<lambda>row. (row, make_token lib ACTIVATION_SALT pk row (auths db pk) (clock db))) (map_of (users db) pk))) (\<lambda>found.
     bindE (get_or_raise (EPy ObjectDoesNotExist) found) (\<lambda>(row, token).
     send_mail lib pk (usr_email row) (ActivationMail (build_frontend_link env ''/set-password'' (uid_for_user lib pk) token))))"

definition send_password_reset_email :: "env \<Rightarrow> auth_lib \<Rightarrow> nat \<Rightarrow> ('x, unit) auth_txn" where
  "send_password_reset_email env lib pk =
     bindE (getsE (\<lambda>db. map_option (\<lambda>row. (row, make_token lib RESET_SALT pk row (auths db pk) (clock db))) (map_of (users db) pk))) (\<lambda>found.
     bindE (get_or_raise (EPy ObjectDoesNotExist) found) (\<lambda>(row, token).
     send_mail lib pk (usr_email row) (ResetMail (build_frontend_link env ''/reset-password'' (uid_for_user lib pk) token))))"

definition send_signup_account_exists_email :: "auth_lib \<Rightarrow> nat \<Rightarrow> string \<Rightarrow> ('x, unit) auth_txn" where
  "send_signup_account_exists_email lib pk email = send_mail lib pk email ExistsMail"

definition send_signup_code_email :: "auth_lib \<Rightarrow> nat \<Rightarrow> string \<Rightarrow> string \<Rightarrow> ('x, unit) auth_txn" where
  "send_signup_code_email lib pk email code = send_mail lib pk email (CodeMail code)"

section \<open>Registration and activation\<close>

datatype registration_result = RegistrationCreated | RegistrationExisting | AccountExistsForInvite

text \<open>\<open>cookie\<close> is the signed cookie, empty when there is none.\<close>

definition verified_invite_visit :: "env \<Rightarrow> signer \<Rightarrow> string \<Rightarrow> 'x org_db_scheme \<Rightarrow> (visit \<times> nat \<times> invite_link) option" where
  "verified_invite_visit env sg cookie db =
     (if cookie = [] \<or> \<not> PARTNER_CHANNEL_ENABLED env then None
      else case unsign_partner_pending sg (clock db) cookie of
        None \<Rightarrow> None
      | Some (visit_id, _) \<Rightarrow> validate_invite_visit visit_id True db)"

definition active_account_result :: "env \<Rightarrow> auth_lib \<Rightarrow> nat \<Rightarrow> bool \<Rightarrow> ('x, registration_result) auth_txn" where
  "active_account_result env lib pk invited =
     (if invited then ret AccountExistsForInvite
      else
        bindE (getsE (\<lambda>db. has_usable_password (auths db pk))) (\<lambda>usable.
        thenE (if usable then send_password_reset_email env lib pk else ret ()) (ret RegistrationExisting)))"

text \<open>\<open>raced\<close>: the lookup ran before another request inserted the same email. The failed insert has marked the
  transaction for rollback, so the query of the handler is refused by Django.\<close>

definition register_user :: "env \<Rightarrow> auth_lib \<Rightarrow> signer \<Rightarrow> bool \<Rightarrow> string \<Rightarrow> string \<Rightarrow> ('x, registration_result) auth_txn" where
  "register_user env lib sg raced email cookie =
     (let normalized = lib_normalize_email lib email in
      bindE (getsE (\<lambda>db. verified_invite_visit env sg cookie db \<noteq> None)) (\<lambda>invited.
      db_atomic (
        bindE (getsE (\<lambda>db. if raced then None else user_of_email normalized (users db))) (\<lambda>found.
        case found of
          None \<Rightarrow>
            bindE (catchE (bindE (insert_user normalized False blank_auth) (\<lambda>pk. thenE (ensure_billing_account pk) (ret pk)))
                (\<lambda>e. if e = EPy IntegrityError then raiseE (EPy TransactionManagementError) else raiseE e)) (\<lambda>pk.
            thenE (send_activation_email env lib pk)
           (thenE (record_pending_for_new_user env sg pk False cookie) (ret RegistrationCreated)))
        | Some (pk, row) \<Rightarrow>
            if usr_active row then active_account_result env lib pk invited
            else thenE (send_activation_email env lib pk) (ret RegistrationExisting)))))"

definition decode_uid :: "auth_lib \<Rightarrow> string \<Rightarrow> int option" where
  "decode_uid lib uid = Option.bind (lib_uid_text lib uid) (\<lambda>text. py_int_dec (strip text))"

definition user_by_id :: "int \<Rightarrow> 'x org_db_scheme \<Rightarrow> user_row option" where
  "user_by_id user_id db = (if user_id < 0 then None else map_of (users db) (nat user_id))"

definition activate_user :: "env \<Rightarrow> auth_lib \<Rightarrow> string \<Rightarrow> string \<Rightarrow> string \<Rightarrow> string \<Rightarrow> ('x, nat) auth_txn" where
  "activate_user env lib uid token password password_confirm =
     (if password \<noteq> password_confirm then raiseE (EAuth (ActivationError ''password_mismatch''))
      else if \<not> lib_valid_password lib password then raiseE (EAuth (ActivationError ''password_invalid''))
      else case decode_uid lib uid of
        None \<Rightarrow> raiseE (EAuth (ActivationError ''invalid_link''))
      | Some user_id \<Rightarrow>
          bindE (getsE (user_by_id user_id)) (\<lambda>found.
          bindE (get_or_raise (EAuth (ActivationError ''invalid_link'')) found) (\<lambda>row.
          let pk = nat user_id in
          bindE (getsE (\<lambda>db. auths db pk)) (\<lambda>a.
          bindE (getsE clock) (\<lambda>now.
          if usr_active row \<and> has_usable_password a then raiseE (EAuth (ActivationError ''already_active''))
          else if \<not> check_token lib ACTIVATION_SALT ACTIVATION_TIMEOUT pk row a token now
          then raiseE (EAuth (ActivationError ''invalid_token''))
          else
            db_atomic (
              thenE (save_user pk True (a\<lparr>ua_password := Some (lib_make_password lib password)\<rparr>))
             (thenE (apply_pending_on_activation env pk) (ret pk))))))))"

section \<open>Password reset\<close>

definition request_password_reset :: "env \<Rightarrow> auth_lib \<Rightarrow> string \<Rightarrow> ('x, unit) auth_txn" where
  "request_password_reset env lib email =
     bindE (getsE (\<lambda>db. find (\<lambda>r. usr_email (snd r) = lib_normalize_email lib email \<and> usr_active (snd r)) (users db))) (\<lambda>found.
     case found of
       None \<Rightarrow> ret ()
     | Some (pk, _) \<Rightarrow>
         bindE (getsE (\<lambda>db. has_usable_password (auths db pk))) (\<lambda>usable.
         if usable then send_password_reset_email env lib pk else ret ()))"

definition confirm_password_reset :: "auth_lib \<Rightarrow> string \<Rightarrow> string \<Rightarrow> string \<Rightarrow> string \<Rightarrow> ('x, nat) auth_txn" where
  "confirm_password_reset lib uid token password password_confirm =
     (if password \<noteq> password_confirm then raiseE (EAuth (PasswordResetError ''password_mismatch''))
      else if \<not> lib_valid_password lib password then raiseE (EAuth (PasswordResetError ''password_invalid''))
      else case decode_uid lib uid of
        None \<Rightarrow> raiseE (EAuth (PasswordResetError ''invalid_link''))
      | Some user_id \<Rightarrow>
          bindE (getsE (user_by_id user_id)) (\<lambda>found.
          bindE (get_or_raise (EAuth (PasswordResetError ''invalid_link'')) found) (\<lambda>row.
          let pk = nat user_id in
          if \<not> usr_active row then raiseE (EAuth (PasswordResetError ''invalid_link''))
          else
            bindE (getsE (\<lambda>db. auths db pk)) (\<lambda>a.
            bindE (getsE clock) (\<lambda>now.
            if \<not> check_token lib RESET_SALT RESET_TIMEOUT pk row a token now
            then raiseE (EAuth (PasswordResetError ''invalid_token''))
            else thenE (save_user pk True (a\<lparr>ua_password := Some (lib_make_password lib password)\<rparr>)) (ret pk))))))"

section \<open>Mobile signup\<close>

definition CODE_TTL :: int where "CODE_TTL = 10 * 60 * SECOND"
definition MAX_ATTEMPTS :: nat where "MAX_ATTEMPTS = 5"
definition MAIL_GAP :: int where "MAIL_GAP = 10 * 60 * SECOND"
definition MAIL_DAY :: int where "MAIL_DAY = 24 * 60 * 60 * SECOND"
definition MAIL_DAY_MAX :: nat where "MAIL_DAY_MAX = 10"
definition PASSWORD_SYMBOLS :: string where "PASSWORD_SYMBOLS = ''!$%^&*()_-+=[]{}|;:'' @ [CHR 0x27] @ ''\",.<>?/''"

text \<open>ASCII letters and digits.\<close>

definition password_rule_errors :: "string \<Rightarrow> string list" where
  "password_rule_errors password =
     (if length password < 8 then [''Password must be at least 8 characters.''] else []) @
     (if 128 < length password then [''Password must be at most 128 characters.''] else []) @
     (if \<exists>c \<in> set password. 65 \<le> (of_char c :: nat) \<and> of_char c \<le> (90 :: nat) then [] else [''Password must include an uppercase letter.'']) @
     (if \<exists>c \<in> set password. 97 \<le> (of_char c :: nat) \<and> of_char c \<le> (122 :: nat) then [] else [''Password must include a lowercase letter.'']) @
     (if \<exists>c \<in> set password. 48 \<le> (of_char c :: nat) \<and> of_char c \<le> (57 :: nat) then [] else [''Password must include a number.'']) @
     (if \<exists>c \<in> set password. c \<in> set PASSWORD_SYMBOLS then [] else [''Password must include a symbol.''])"

definition display_name_for :: "string \<Rightarrow> string \<Rightarrow> string" where
  "display_name_for first_name last_name = take 255 (strip (strip first_name @ '' '' @ strip last_name))"

text \<open>\<open>drawn\<close> is \<^verbatim>\<open>secrets.randbelow(10000)\<close>.\<close>

definition new_code :: "nat \<Rightarrow> string" where
  "new_code drawn = zfill 4 (str_nat drawn)"

definition mail_digest :: "env \<Rightarrow> auth_lib \<Rightarrow> string \<Rightarrow> string" where
  "mail_digest env lib email = sha256_hex env (lib_normalize_email lib email)"

text \<open>Django's cache: \<open>add\<close> stores a key that is absent or expired, and says whether it did.\<close>

definition cache_live :: "string \<Rightarrow> 'x auth_db_scheme \<Rightarrow> bool" where
  "cache_live key db \<longleftrightarrow> (case mail_cache db key of None \<Rightarrow> False | Some expires \<Rightarrow> clock db < expires)"

definition cache_add :: "string \<Rightarrow> int \<Rightarrow> ('x, bool) auth_txn" where
  "cache_add key timeout =
     bindE (getsE (cache_live key)) (\<lambda>live.
     if live then ret False
     else thenE (modifyE (\<lambda>db. db\<lparr>mail_cache := (mail_cache db)(key := Some (clock db + timeout))\<rparr>)) (ret True))"

definition cache_delete :: "string \<Rightarrow> ('x, unit) auth_txn" where
  "cache_delete key = modifyE (\<lambda>db. db\<lparr>mail_cache := (mail_cache db)(key := None)\<rparr>)"

definition day_key :: "string \<Rightarrow> nat \<Rightarrow> string" where
  "day_key digest i = ''signup-mail:day:'' @ digest @ '':'' @ str_nat i"

definition gap_key :: "string \<Rightarrow> string" where
  "gap_key digest = ''signup-mail:gap:'' @ digest"

fun claim_slot :: "string \<Rightarrow> nat list \<Rightarrow> ('x, string option) auth_txn" where
  "claim_slot digest [] = ret None"
| "claim_slot digest (i # is) =
     bindE (cache_add (day_key digest i) MAIL_DAY) (\<lambda>ok.
     if ok then ret (Some (day_key digest i)) else claim_slot digest is)"

definition claim_signup_mail :: "env \<Rightarrow> auth_lib \<Rightarrow> string \<Rightarrow> ('x, bool) auth_txn" where
  "claim_signup_mail env lib email =
     (let digest = mail_digest env lib email in
      bindE (claim_slot digest [0..<MAIL_DAY_MAX]) (\<lambda>slot.
      case slot of
        None \<Rightarrow> ret False
      | Some key \<Rightarrow>
          bindE (cache_add (gap_key digest) MAIL_GAP) (\<lambda>ok.
          if ok then ret True else thenE (cache_delete key) (ret False))))"

definition save_code :: "auth_lib \<Rightarrow> nat \<Rightarrow> string \<Rightarrow> ('x, unit) auth_txn" where
  "save_code lib pk code =
     modifyE (\<lambda>db. db\<lparr>signup_codes := AList.update pk
       \<lparr>sc_hash = lib_make_password lib code, sc_expires = clock db + CODE_TTL, sc_attempts = 0\<rparr> (signup_codes db)\<rparr>)"

text \<open>Inside \<^verbatim>\<open>start_signup\<close>: the insert in its own savepoint, else the row the other request committed.\<close>

definition insert_or_get ::
  "string \<Rightarrow> user_auth \<Rightarrow> (nat \<times> user_row) option \<Rightarrow> ('x, nat + nat \<times> user_row) auth_txn" where
  "insert_or_get email a found =
     (case found of
        Some r \<Rightarrow> ret (Inr r)
      | None \<Rightarrow>
          catchE (bindE (db_atomic (insert_user email False a)) (\<lambda>pk. ret (Inl pk)))
            (\<lambda>e. if e = EPy IntegrityError
                 then bindE (getsE (\<lambda>db. user_of_email email (users db))) (\<lambda>row.
                      bindE (get_or_raise (EPy ObjectDoesNotExist) row) (\<lambda>r. ret (Inr r)))
                 else raiseE e))"

definition start_signup ::
  "env \<Rightarrow> auth_lib \<Rightarrow> bool \<Rightarrow> nat \<Rightarrow> string \<Rightarrow> string \<Rightarrow> string \<Rightarrow> string \<Rightarrow> ('x, unit) auth_txn" where
  "start_signup env lib raced drawn email password first_name last_name =
     (let normalized = lib_normalize_email lib email;
          name = display_name_for first_name last_name;
          code = new_code drawn;
          hash = lib_make_password lib password
      in bindE (claim_signup_mail env lib normalized) (\<lambda>claimed.
         if \<not> claimed then ret ()
         else db_atomic (
           bindE (getsE (\<lambda>db. if raced then None else user_of_email normalized (users db))) (\<lambda>found.
           bindE (insert_or_get normalized (blank_auth\<lparr>ua_display_name := name, ua_password := Some hash\<rparr>) found) (\<lambda>user.
           case user of
             Inl pk \<Rightarrow>
               thenE (ensure_billing_account pk) (thenE (save_code lib pk code) (send_signup_code_email lib pk normalized code))
           | Inr (pk, row) \<Rightarrow>
               if usr_active row then send_signup_account_exists_email lib pk (usr_email row)
               else
                 bindE (getsE (\<lambda>db. auths db pk)) (\<lambda>a.
                 thenE (save_user pk (usr_active row) (a\<lparr>ua_display_name := name, ua_password := Some hash\<rparr>))
                (thenE (ensure_billing_account pk)
                (thenE (save_code lib pk code) (send_signup_code_email lib pk (usr_email row) code)))))))))"

definition resend_signup_code :: "env \<Rightarrow> auth_lib \<Rightarrow> nat \<Rightarrow> string \<Rightarrow> ('x, unit) auth_txn" where
  "resend_signup_code env lib drawn email =
     (let normalized = lib_normalize_email lib email
      in db_atomic (
        bindE (getsE (\<lambda>db. user_of_email normalized (users db))) (\<lambda>found.
        case found of
          None \<Rightarrow> ret ()
        | Some (pk, row) \<Rightarrow>
            if usr_active row then
              bindE (claim_signup_mail env lib normalized) (\<lambda>claimed.
              if claimed then send_signup_account_exists_email lib pk (usr_email row) else ret ())
            else
              bindE (getsE (\<lambda>db. map_of (signup_codes db) pk)) (\<lambda>pending.
              if pending = None then ret ()
              else
                bindE (claim_signup_mail env lib normalized) (\<lambda>claimed.
                if \<not> claimed then ret ()
                else thenE (save_code lib pk (new_code drawn)) (send_signup_code_email lib pk (usr_email row) (new_code drawn)))))))"

text \<open>A wrong code returns from the transaction, so that its counter is kept, and raises after it.\<close>

definition confirm_signup :: "auth_lib \<Rightarrow> string \<Rightarrow> string \<Rightarrow> ('x, nat) auth_txn" where
  "confirm_signup lib email code =
     (let normalized = lib_normalize_email lib email
      in bindE (db_atomic (
           bindE (getsE (\<lambda>db. user_of_email normalized (users db))) (\<lambda>found.
           case found of
             None \<Rightarrow> raiseE (EAuth SignupCodeError)
           | Some (pk, row) \<Rightarrow>
               if usr_active row then raiseE (EAuth SignupCodeError)
               else
                 bindE (getsE (\<lambda>db. map_of (signup_codes db) pk)) (\<lambda>pending.
                 bindE (get_or_raise (EAuth SignupCodeError) pending) (\<lambda>sc.
                 bindE (getsE clock) (\<lambda>now.
                 if MAX_ATTEMPTS \<le> sc_attempts sc then raiseE (EAuth SignupCodeError)
                 else if sc_expires sc \<le> now then raiseE (EAuth SignupCodeError)
                 else if \<not> lib_check_password lib code (sc_hash sc) then
                   thenE (modifyE (\<lambda>db. db\<lparr>signup_codes := AList.update pk (sc\<lparr>sc_attempts := sc_attempts sc + 1\<rparr>) (signup_codes db)\<rparr>))
                     (ret None)
                 else
                   bindE (getsE (\<lambda>db. auths db pk)) (\<lambda>a.
                   thenE (save_user pk True a)
                  (thenE (modifyE (\<lambda>db. db\<lparr>signup_codes := AList.delete pk (signup_codes db)\<rparr>)) (ret (Some pk)))))))))) (\<lambda>result.
         case result of Some pk \<Rightarrow> ret pk | None \<Rightarrow> raiseE (EAuth SignupCodeError)))"

section \<open>Google\<close>

record google_identity =
  gi_subject :: string
  gi_email :: string
  gi_name :: string
  gi_picture :: string

definition google_fail :: "string \<Rightarrow> ('s, 'a) txn" where
  "google_fail code = raiseE (EAuth (GoogleAuthError code))"

fun text_claim :: "json \<Rightarrow> string" where
  "text_claim (JText s) = s"
| "text_claim _ = []"

text \<open>A list or an object is not hashable, so the test against the set of issuers raises.\<close>

fun known_issuer :: "json \<Rightarrow> exc + bool" where
  "known_issuer (JText s) = Inr (s = ''accounts.google.com'' \<or> s = ''https://accounts.google.com'')"
| "known_issuer (JList _) = Inl (EPy TypeError)"
| "known_issuer (JObj _) = Inl (EPy TypeError)"
| "known_issuer _ = Inr False"

definition verify_google_id_token :: "auth_lib \<Rightarrow> string \<Rightarrow> exc + google_identity" where
  "verify_google_id_token lib credential =
     (if strip (lib_google_client lib) = [] then Inl (EAuth (GoogleAuthError ''google_feature_disabled''))
      else case lib_google_verify lib credential of
        BadToken \<Rightarrow> Inl (EAuth (GoogleAuthError ''google_invalid_token''))
      | VerifyUnavailable \<Rightarrow> Inl (EAuth (GoogleAuthError ''google_verify_unavailable''))
      | Claims kvs \<Rightarrow> (case known_issuer (dict_get ''iss'' kvs) of
          Inl e \<Rightarrow> Inl e
        | Inr known \<Rightarrow>
            let subject = strip (text_claim (dict_get ''sub'' kvs)); email = strip (text_claim (dict_get ''email'' kvs))
            in if \<not> known \<or> subject = [] \<or> email = [] then Inl (EAuth (GoogleAuthError ''google_invalid_token''))
               else if dict_get ''email_verified'' kvs \<noteq> JBool True then Inl (EAuth (GoogleAuthError ''google_email_not_verified''))
               else Inr \<lparr>gi_subject = subject, gi_email = email, gi_name = strip (text_claim (dict_get ''name'' kvs)),
                         gi_picture = strip (text_claim (dict_get ''picture'' kvs))\<rparr>))"

definition apply_profile :: "google_identity \<Rightarrow> user_auth \<Rightarrow> user_auth" where
  "apply_profile g a =
     a\<lparr>ua_google_name := (if gi_name g \<noteq> [] then gi_name g else ua_google_name a),
       ua_google_picture := (if gi_picture g \<noteq> [] then gi_picture g else ua_google_picture a)\<rparr>"

definition google_touch :: "google_identity \<Rightarrow> int \<Rightarrow> user_auth \<Rightarrow> user_auth" where
  "google_touch g now a = (apply_profile g a)\<lparr>ua_login_provider := ''google'', ua_google_login := Some now\<rparr>"

datatype google_outcome = GoogleExisting | GoogleLinked | GoogleCreated

definition touch_login :: "nat \<Rightarrow> user_row \<Rightarrow> google_identity \<Rightarrow> ('x, unit) auth_txn" where
  "touch_login pk row g =
     bindE (getsE (\<lambda>db. google_touch g (clock db) (auths db pk))) (\<lambda>a. save_user pk (usr_active row) a)"

definition link_or_activate :: "env \<Rightarrow> nat \<Rightarrow> user_row \<Rightarrow> google_identity \<Rightarrow> ('x, google_outcome) auth_txn" where
  "link_or_activate env pk row g =
     bindE (getsE (\<lambda>db. auths db pk)) (\<lambda>a.
     let linked = (case ua_google_sub a of None \<Rightarrow> [] | Some s \<Rightarrow> s)
     in if linked \<noteq> [] \<and> linked \<noteq> gi_subject g then google_fail ''google_sub_conflict''
        else if \<not> usr_active row \<and> has_usable_password a then google_fail ''google_account_disabled''
        else
          bindE (getsE clock) (\<lambda>now.
          thenE (save_user pk True (google_touch g now (if linked = [] then a\<lparr>ua_google_sub := Some (gi_subject g)\<rparr> else a)))
         (thenE (if \<not> usr_active row then apply_pending_on_activation env pk else ret ())
           (ret (if linked = [] then GoogleLinked else GoogleExisting)))))"

definition consume_invite :: "env \<Rightarrow> signer \<Rightarrow> nat \<Rightarrow> string \<Rightarrow> ('x, unit) auth_txn" where
  "consume_invite env sg pk cookie =
     (if cookie = [] \<or> \<not> PARTNER_CHANNEL_ENABLED env then ret ()
      else bindE (consume_partner_pending env sg pk cookie) (\<lambda>_. ret ()))"

text \<open>\<open>raced\<close>: both lookups ran before another request inserted or linked the user.\<close>

definition resolve_google_user ::
  "env \<Rightarrow> signer \<Rightarrow> google_identity \<Rightarrow> string \<Rightarrow> string \<Rightarrow> bool \<Rightarrow> ('x, nat \<times> google_outcome) auth_txn" where
  "resolve_google_user env sg g email cookie raced = db_atomic (
     bindE (getsE (\<lambda>db. if raced then (None, None) else (user_of_sub (gi_subject g) db, user_of_email email (users db)))) (\<lambda>(by_sub, by_email).
     case by_sub of
       Some (pk, row) \<Rightarrow>
         if \<not> usr_active row then google_fail ''google_account_disabled''
         else thenE (touch_login pk row g) (thenE (consume_invite env sg pk cookie) (ret (pk, GoogleExisting)))
     | None \<Rightarrow> (case by_email of
         Some (pk, row) \<Rightarrow>
           bindE (link_or_activate env pk row g) (\<lambda>outcome.
           thenE (consume_invite env sg pk cookie) (ret (pk, outcome)))
       | None \<Rightarrow>
           bindE (getsE clock) (\<lambda>now.
           bindE (insert_user email True (google_touch g now (blank_auth\<lparr>ua_google_sub := Some (gi_subject g)\<rparr>))) (\<lambda>pk.
           thenE (ensure_billing_account pk)
          (thenE (attribute_created_invite env sg pk cookie) (ret (pk, GoogleCreated))))))))"

fun google_attempts :: "(bool \<Rightarrow> ('s, 'a) txn) \<Rightarrow> bool list \<Rightarrow> ('s, 'a) txn" where
  "google_attempts m [] = google_fail ''google_sub_conflict''"
| "google_attempts m (raced # others) =
     catchE (m raced) (\<lambda>e. if e = EPy IntegrityError then google_attempts m others else raiseE e)"

text \<open>The user and the outcome; the JWT pair is not kept. \<open>races\<close> says for the three attempts whether they lost one.\<close>

definition authenticate_with_google ::
  "env \<Rightarrow> auth_lib \<Rightarrow> signer \<Rightarrow> bool \<times> bool \<times> bool \<Rightarrow> string \<Rightarrow> string \<Rightarrow> ('x, nat \<times> google_outcome) auth_txn" where
  "authenticate_with_google env lib sg races credential cookie =
     (if strip credential = [] then google_fail ''google_invalid_token''
      else
        bindE (liftE (verify_google_id_token lib (strip credential))) (\<lambda>g.
        google_attempts (resolve_google_user env sg g (lib_normalize_email lib (lower (strip (gi_email g)))) cookie)
          (case races of (r1, r2, r3) \<Rightarrow> [r1, r2, r3])))"

section \<open>What a call leaves alone\<close>

declare split_paired_All [simp del] split_paired_Ex [simp del] not_None_eq [simp del]

definition auth_frame :: "'x auth_db_scheme \<Rightarrow> 'x auth_db_scheme \<Rightarrow> bool" where
  "auth_frame db s \<longleftrightarrow> users s = users db \<and> auths s = auths db \<and> signup_codes s = signup_codes db \<and>
     mail_cache s = mail_cache db \<and> outbox s = outbox db \<and> clock s = clock db \<and> next_uuid db \<le> next_uuid s"

lemma auth_frame_refl [simp]: "auth_frame db db"
  by (simp add: auth_frame_def)

lemma keeps_frame_ensure [keeps_intros]: "keeps (auth_frame db) (ensure_billing_account user)"
  unfolding ensure_billing_account_def save_account_def
  by (intro keeps_intros) (auto simp: keeps_def uuid4_def auth_frame_def)

lemma keeps_frame_uuid4 [keeps_intros]: "keeps (auth_frame db) uuid4"
  by (simp add: keeps_def uuid4_def auth_frame_def)

lemma keeps_auth_rows [keeps_intros]:
  "keeps (auth_frame db) (insert_pending pk p)" "keeps (auth_frame db) (delete_pending pk)"
  "keeps (auth_frame db) (insert_attribution pk row)" "keeps (auth_frame db) (locked_user user)"
  unfolding insert_pending_def delete_pending_def insert_attribution_def locked_user_def
  by (intro keeps_intros; simp add: auth_frame_def)+

lemma keeps_frame_bonus [keeps_intros]: "keeps (auth_frame db) (credit_registration_invite_bonus att)"
  unfolding credit_registration_invite_bonus_def
  by (intro keeps_intros) (auto intro!: keepsI dest!: credit_frame simp: auth_frame_def)

lemma keeps_frame_visit [keeps_intros]: "keeps (auth_frame db) (attribute_visit user visit_id visit registered)"
  unfolding attribute_visit_def Let_def by (cases visit rule: prod_cases3, simp only: prod.case, intro keeps_intros)

lemma keeps_frame_unless [keeps_intros]:
  "keeps I kept \<Longrightarrow> keeps I m \<Longrightarrow> (\<And>x. keeps I (k x)) \<Longrightarrow> keeps I (unless_self_referral kept m k)"
  unfolding unless_self_referral_def by (intro keeps_intros)

lemma keeps_frame_settle [keeps_intros]:
  "keeps (auth_frame db) (settle_legacy user ppk lpk locked ch)" "keeps (auth_frame db) (settle_click user ppk click)"
  unfolding settle_legacy_def settle_click_def by (intro keeps_intros, cases click rule: prod_cases3, simp only: prod.case, intro keeps_intros)

lemma keeps_frame_pending [keeps_intros]:
  "keeps (auth_frame db) (apply_legacy_pending user pending)"
  "keeps (auth_frame db) (apply_visit_pending user ppk)"
  unfolding apply_legacy_pending_def apply_visit_pending_def by (intro keeps_intros)+

lemma keeps_frame_partner [keeps_intros]:
  "keeps (auth_frame db) (apply_pending_on_activation env user)"
  "keeps (auth_frame db) (record_pending_for_new_user env sg user active cookie)"
  "keeps (auth_frame db) (attribute_created_invite env sg user cookie)"
  "keeps (auth_frame db) (consume_partner_pending env sg user cookie)"
  "keeps (auth_frame db) (consume_invite env sg user cookie)"
  unfolding apply_pending_on_activation_def record_pending_for_new_user_def attribute_created_invite_def consume_partner_pending_def
    consume_invite_def
  by (intro keeps_intros)+

lemma keeps_bind_read: "(\<And>s x. I s \<Longrightarrow> x = g s \<Longrightarrow> I (snd (f x s))) \<Longrightarrow> keeps I (bindE (getsE g) f)"
  by (simp add: keeps_def bindE_def getsE_def)

section \<open>Invariants of the user table\<close>

text \<open>A save of an account that is not an active one with a password, and a save of a login. Neither deactivates, and
  a Google subject that is set stays.\<close>

definition quiet_save :: "user_row \<Rightarrow> user_auth \<Rightarrow> bool \<Rightarrow> user_auth \<Rightarrow> bool" where
  "quiet_save row a active a' \<longleftrightarrow> \<not> (usr_active row \<and> has_usable_password a) \<and> ua_google_sub a' = ua_google_sub a \<and> (usr_active row \<longrightarrow> active)"

definition login_save :: "user_row \<Rightarrow> user_auth \<Rightarrow> bool \<Rightarrow> user_auth \<Rightarrow> bool" where
  "login_save row a active a' \<longleftrightarrow> (usr_active row \<longrightarrow> active) \<and>
     (ua_google_sub a \<noteq> None \<and> ua_google_sub a \<noteq> Some [] \<longrightarrow> ua_google_sub a' = ua_google_sub a)"

lemma quiet_login: "quiet_save row a active a' \<Longrightarrow> login_save row a active a'"
  by (simp add: quiet_save_def login_save_def)

lemma user_of_email_Some: "user_of_email email rows = Some r \<Longrightarrow> r \<in> set rows \<and> usr_email (snd r) = email"
  by (auto simp: user_of_email_def find_Some_iff)

lemma insert_user_run: "insert_user email active a s = (r, t) \<Longrightarrow>
  (case r of
     Inl e \<Rightarrow> t = s\<lparr>next_uuid := Suc (next_uuid s)\<rparr>
   | Inr pk \<Rightarrow> pk = next_uuid s \<and> user_of_email email (users s) = None \<and> \<not> sub_taken pk a s \<and> auth_fits a \<and>
       t = s\<lparr>next_uuid := Suc (next_uuid s), users := users s @ [(pk, \<lparr>usr_email = email, usr_active = active, usr_staff = False\<rparr>)],
         auths := (auths s)(pk := a)\<rparr>)"
  by (auto simp: insert_user_def txn_iff uuid4_def sub_taken_def split: if_splits)

lemma save_user_run: "save_user pk active a s = (r, t) \<Longrightarrow>
  (case r of
     Inl e \<Rightarrow> t = s
   | Inr u \<Rightarrow> \<exists>row. map_of (users s) pk = Some row \<and> \<not> sub_taken pk a s \<and>
       t = s\<lparr>users := AList.update pk (row\<lparr>usr_active := active\<rparr>) (users s), auths := (auths s)(pk := a)\<rparr>)"
  by (auto simp: save_user_def txn_iff split: if_splits)

lemma db_atomic_Inr: "db_atomic m s = (Inr x, t) \<longleftrightarrow> m s = (Inr x, t)"
  by (auto simp: db_atomic_def split: prod.splits sum.splits)

lemma db_atomic_Inl: "db_atomic m s = (Inl e, t) \<longleftrightarrow>
  (\<exists>u. m s = (Inl e, u) \<and> t = s\<lparr>outbox := outbox u, mail_cache := mail_cache u\<rparr>)"
  by (auto simp: db_atomic_def split: prod.splits sum.splits)

locale account_invariant =
  fixes I :: "'x auth_db_scheme \<Rightarrow> bool"
  assumes keys: "I s \<Longrightarrow> distinct (map fst (users s))"
    and frame: "I s \<Longrightarrow> users t = users s \<Longrightarrow> auths t = auths s \<Longrightarrow> next_uuid s \<le> next_uuid t \<Longrightarrow> I t"
    and insert: "I s \<Longrightarrow> insert_user email active a s = (Inr pk, t) \<Longrightarrow> I t"
    and quiet: "I s \<Longrightarrow> map_of (users s) pk = Some row \<Longrightarrow> quiet_save row (auths s pk) active a \<Longrightarrow>
      save_user pk active a s = (Inr u, t) \<Longrightarrow> I t"
begin

lemma keeps_framed: "(\<And>s. keeps (auth_frame s) m) \<Longrightarrow> keeps I m"
  using frame by (auto simp: keeps_def auth_frame_def)

lemma keeps_db_atomic: "keeps I m \<Longrightarrow> keeps I (db_atomic m)"
proof (rule keepsI)
  fix s r t
  assume m: "keeps I m" and s: "I s" and run: "db_atomic m s = (r, t)"
  show "I t"
  proof (cases r)
    case (Inl e)
    then show ?thesis using run frame [OF s, of t] by (auto simp: db_atomic_Inl)
  next
    case (Inr x)
    then show ?thesis using run keepsD [OF m s] by (auto simp: db_atomic_Inr)
  qed
qed

lemma keeps_mail: "keeps I (send_mail lib pk email body)"
  unfolding send_mail_def by (intro keeps_intros) (erule frame; simp)

lemma keeps_mails:
  "keeps I (send_activation_email env lib pk)" "keeps I (send_password_reset_email env lib pk)"
  "keeps I (send_signup_account_exists_email lib pk email)" "keeps I (send_signup_code_email lib pk email code)"
  unfolding send_activation_email_def send_password_reset_email_def send_signup_account_exists_email_def send_signup_code_email_def
  by (intro keeps_intros keeps_mail)+

lemma keeps_insert: "keeps I (insert_user email active a)"
proof (rule keepsI)
  fix s r t
  assume s: "I s" and run: "insert_user email active a s = (r, t)"
  show "I t"
  proof (cases r)
    case (Inl e)
    then show ?thesis using insert_user_run [OF run] frame [OF s, of t] by simp
  next
    case (Inr pk)
    then show ?thesis using insert [OF s] run by simp
  qed
qed

lemma keeps_cache: "keeps I (cache_add key timeout)" "keeps I (cache_delete key)" "keeps I (save_code lib pk code)"
  unfolding cache_add_def cache_delete_def save_code_def by (intro keeps_intros; erule frame; simp)+

lemma keeps_slot: "keeps I (claim_slot digest is)"
  by (induction "is") (simp_all, (intro keeps_intros keeps_cache; assumption?)+)

lemma keeps_claim: "keeps I (claim_signup_mail env lib email)"
  unfolding claim_signup_mail_def Let_def by (intro keeps_intros keeps_cache keeps_slot)

lemma keeps_active_result: "keeps I (active_account_result env lib pk invited)"
  unfolding active_account_result_def by (intro keeps_intros keeps_mails)

lemmas keeps_account = keeps_db_atomic keeps_mails keeps_insert keeps_cache keeps_claim keeps_active_result
  keeps_framed [OF keeps_frame_ensure] keeps_framed [OF keeps_frame_partner(1)] keeps_framed [OF keeps_frame_partner(2)]
  keeps_framed [OF keeps_frame_partner(3)] keeps_framed [OF keeps_frame_partner(5)]

lemma keeps_register: "keeps I (register_user env lib sg raced email cookie)"
  unfolding register_user_def Let_def by (intro keeps_intros keeps_account)

lemma keeps_request_reset: "keeps I (request_password_reset env lib email)"
  unfolding request_password_reset_def by (intro keeps_intros keeps_account)

lemma keeps_resend: "keeps I (resend_signup_code env lib drawn email)"
  unfolding resend_signup_code_def Let_def by (intro keeps_intros keeps_account)

lemma keeps_save:
  assumes "I s" "save_user pk active a s = (r, t)" "\<And>row. map_of (users s) pk = Some row \<Longrightarrow> quiet_save row (auths s pk) active a"
  shows "I t"
proof (cases r)
  case (Inl e)
  then show ?thesis using save_user_run [OF assms(2)] assms(1) by simp
next
  case (Inr u)
  then show ?thesis using save_user_run [OF assms(2)] quiet [OF assms(1) _ assms(3)] assms(2) by auto
qed

lemma keeps_activate: "keeps I (activate_user env lib uid token password confirm)"
proof (rule keepsI)
  fix s r t
  assume s: "I s" and run: "activate_user env lib uid token password confirm s = (r, t)"
  have k: "keeps I (thenE (apply_pending_on_activation env pk) (ret pk))" for pk
    by (intro keeps_intros keeps_account)
  from run consider "t = s" | pk row a where "map_of (users s) pk = Some row" "\<not> (usr_active row \<and> has_usable_password (auths s pk))"
      "db_atomic (thenE (save_user pk True ((auths s pk)\<lparr>ua_password := Some a\<rparr>)) (thenE (apply_pending_on_activation env pk) (ret pk))) s = (r, t)"
    by (auto simp: activate_user_def user_by_id_def txn_iff Let_def split: if_splits option.splits)
  then show "I t"
  proof cases
    case 2
    let ?m = "thenE (save_user pk True ((auths s pk)\<lparr>ua_password := Some a\<rparr>)) (thenE (apply_pending_on_activation env pk) (ret pk))"
    have m: "I u" if "?m s = (q, u)" for q u
    proof -
      obtain q1 u1 where u1: "save_user pk True ((auths s pk)\<lparr>ua_password := Some a\<rparr>) s = (q1, u1)" by fastforce
      have "I u1" by (rule keeps_save [OF s u1]) (use 2 in \<open>auto simp: quiet_save_def\<close>)
      then show ?thesis using that u1 keepsD [OF k] by (auto simp: thenE_def bindE_def split: sum.splits)
    qed
    show ?thesis
    proof (cases r)
      case (Inl e)
      then show ?thesis using 2(3) frame [OF s, of t] by (auto simp: db_atomic_Inl)
    next
      case (Inr x)
      then show ?thesis using 2(3) m by (auto simp: db_atomic_Inr)
    qed
  qed (use s in simp)
qed

lemma keeps_confirm: "keeps I (confirm_signup lib email code)"
proof (rule keepsI)
  fix s r t
  assume s: "I s" and run: "confirm_signup lib email code s = (r, t)"
  from run consider "users t = users s" "auths t = auths s" "next_uuid t = next_uuid s"
    | pk row q u where "(pk, row) \<in> set (users s)" "\<not> usr_active row" "save_user pk True (auths s pk) s = (q, u)"
        "users t = users u" "auths t = auths u" "next_uuid t = next_uuid u"
    by (cases "user_of_email (lib_normalize_email lib email) (users s)")
      (auto simp: confirm_signup_def txn_iff db_atomic_Inr db_atomic_Inl Let_def not_None_eq split: if_splits option.splits
        dest!: user_of_email_Some)
  then show "I t"
  proof cases
    case 2
    have "map_of (users s) pk = Some row" using 2(1) keys [OF s] by simp
    then have "I u" by (intro keeps_save [OF s 2(3)]) (use 2(2) in \<open>auto simp: quiet_save_def\<close>)
    then show ?thesis using frame [of u t] 2 by simp
  qed (use frame [OF s, of t] in simp)
qed

lemma insert_or_get_run:
  assumes s: "I s" and run: "insert_or_get email a found s = (r, t)"
    and found: "\<And>x. found = Some x \<Longrightarrow> x \<in> set (users s)"
  shows "I t \<and> (\<forall>pk row. r = Inr (Inr (pk, row)) \<longrightarrow> map_of (users t) pk = Some row)"
proof -
  have k: "keeps I (insert_or_get email a found)"
    unfolding insert_or_get_def by (intro keeps_intros keeps_db_atomic keeps_insert)
  from keepsD [OF k s run] have i: "I t" .
  have "map_of (users t) pk = Some row" if "r = Inr (Inr (pk, row))" for pk row
  proof -
    have "found = Some (pk, row) \<and> t = s \<or> user_of_email email (users t) = Some (pk, row)"
    proof (cases found)
      case None
      obtain q u where q: "db_atomic (insert_user email False a) s = (q, u)" by fastforce
      show ?thesis using run[unfolded that] q unfolding insert_or_get_def None
        by (cases q) (auto simp: catchE_def bindE_def ret_def raiseE_def getsE_def get_or_raise_def split: if_splits option.splits)
    qed (use run that in \<open>simp add: insert_or_get_def ret_def\<close>)
    then have "(pk, row) \<in> set (users t)" using found [of "(pk, row)"] user_of_email_Some [of email "users t" "(pk, row)"] by auto
    then show ?thesis using keys [OF i] by simp
  qed
  then show ?thesis using i by blast
qed

lemma keeps_start: "keeps I (start_signup env lib raced drawn email password first_name last_name)"
proof -
  define hash where "hash = lib_make_password lib password"
  define name where "name = display_name_for first_name last_name"
  define code where "code = new_code drawn"
  define norm where "norm = lib_normalize_email lib email"
  have tail: "I t" if s: "I s" and row: "map_of (users s) pk = Some row" "\<not> usr_active row"
    and run: "bindE (getsE (\<lambda>db. auths db pk)) (\<lambda>a.
                 thenE (save_user pk (usr_active row) (a\<lparr>ua_display_name := name, ua_password := Some hash\<rparr>))
                (thenE (ensure_billing_account pk)
                (thenE (save_code lib pk code) (send_signup_code_email lib pk (usr_email row) code)))) s = (r, t)" for s pk row r t
  proof -
    have k: "keeps I (thenE (ensure_billing_account pk) (thenE (save_code lib pk code) (send_signup_code_email lib pk (usr_email row) code)))"
      by (intro keeps_intros keeps_account)
    obtain q u where u: "save_user pk (usr_active row) ((auths s pk)\<lparr>ua_display_name := name, ua_password := Some hash\<rparr>) s = (q, u)" by fastforce
    have "I u" by (rule keeps_save [OF s u]) (use row in \<open>auto simp: quiet_save_def\<close>)
    then show ?thesis using run u keepsD [OF k] by (auto simp: thenE_def bindE_def getsE_def split: sum.splits)
  qed
  have body: "keeps I (bindE (getsE (\<lambda>db. if raced then None else user_of_email norm (users db))) (\<lambda>found.
           bindE (insert_or_get norm (blank_auth\<lparr>ua_display_name := name, ua_password := Some hash\<rparr>) found) (\<lambda>user.
           case user of
             Inl pk \<Rightarrow>
               thenE (ensure_billing_account pk) (thenE (save_code lib pk code) (send_signup_code_email lib pk norm code))
           | Inr (pk, row) \<Rightarrow>
               if usr_active row then send_signup_account_exists_email lib pk (usr_email row)
               else
                 bindE (getsE (\<lambda>db. auths db pk)) (\<lambda>a.
                 thenE (save_user pk (usr_active row) (a\<lparr>ua_display_name := name, ua_password := Some hash\<rparr>))
                (thenE (ensure_billing_account pk)
                (thenE (save_code lib pk code) (send_signup_code_email lib pk (usr_email row) code)))))))" (is "keeps I (bindE _ ?f)")
  proof (rule keepsI)
    fix s r t
    assume s: "I s" and run: "bindE (getsE (\<lambda>db. if raced then None else user_of_email norm (users db))) ?f s = (r, t)"
    let ?found = "if raced then None else user_of_email norm (users s)"
    obtain q u where u: "insert_or_get norm (blank_auth\<lparr>ua_display_name := name, ua_password := Some hash\<rparr>) ?found s = (q, u)" by fastforce
    have "x \<in> set (users s)" if "?found = Some x" for x
      using that user_of_email_Some [of norm "users s" x] by (cases raced) simp_all
    then have iu: "I u" "\<And>pk row. q = Inr (Inr (pk, row)) \<Longrightarrow> map_of (users u) pk = Some row"
      using insert_or_get_run [OF s u] by blast+
    have k: "keeps I (thenE (ensure_billing_account pk) (thenE (save_code lib pk code) (send_signup_code_email lib pk norm code)))" for pk
      by (intro keeps_intros keeps_account)
    show "I t"
    proof (cases q)
      case (Inl e)
      then show ?thesis using run u iu(1) by (simp add: bindE_def getsE_def)
    next
      case (Inr user)
      show ?thesis
      proof (cases user)
        case (Inl pk)
        then show ?thesis using run u Inr keepsD [OF k iu(1)] by (simp add: bindE_def getsE_def)
      next
        case R: (Inr p)
        obtain pk row where p: "p = (pk, row)" by fastforce
        show ?thesis
        proof (cases "usr_active row")
          case True
          then show ?thesis using run u Inr R p keepsD [OF keeps_mails(3) iu(1)] by (simp add: bindE_def getsE_def)
        next
          case False
          show ?thesis by (rule tail [OF iu(1) iu(2) False, of pk]) (use run u Inr R p False in \<open>simp_all add: bindE_def getsE_def\<close>)
        qed
      qed
    qed
  qed
  show ?thesis unfolding start_signup_def Let_def name_def [symmetric] hash_def [symmetric] code_def [symmetric] norm_def [symmetric]
    by (intro keeps_intros keeps_claim keeps_db_atomic body)
qed

end

locale login_invariant = account_invariant I for I :: "'x auth_db_scheme \<Rightarrow> bool" +
  assumes login: "I s \<Longrightarrow> map_of (users s) pk = Some row \<Longrightarrow> login_save row (auths s pk) active a \<Longrightarrow>
      save_user pk active a s = (Inr u, t) \<Longrightarrow> I t"
begin

lemma keeps_login_save:
  assumes "I s" "save_user pk active a s = (r, t)" "\<And>row. map_of (users s) pk = Some row \<Longrightarrow> login_save row (auths s pk) active a"
  shows "I t"
proof (cases r)
  case (Inl e)
  then show ?thesis using save_user_run [OF assms(2)] assms(1) by simp
next
  case (Inr u)
  then show ?thesis using save_user_run [OF assms(2)] login [OF assms(1) _ assms(3)] assms(2) by auto
qed

lemma keeps_reset: "keeps I (confirm_password_reset lib uid token password confirm)"
proof (rule keepsI)
  fix s r t
  assume s: "I s" and run: "confirm_password_reset lib uid token password confirm s = (r, t)"
  from run consider "t = s" | pk q where
      "save_user pk True ((auths s pk)\<lparr>ua_password := Some (lib_make_password lib password)\<rparr>) s = (q, t)"
    by (auto simp: confirm_password_reset_def user_by_id_def txn_iff Let_def split: if_splits option.splits)
  then show "I t"
  proof cases
    case 2
    show ?thesis by (rule keeps_login_save [OF s 2]) (simp add: login_save_def)
  qed (use s in simp)
qed

lemma keeps_touch: "I s \<Longrightarrow> map_of (users s) pk = Some row \<Longrightarrow> touch_login pk row g s = (r, t) \<Longrightarrow> I t"
  by (rule keeps_login_save [of s pk "usr_active row" "google_touch g (clock s) (auths s pk)"])
    (auto simp: touch_login_def txn_defs login_save_def google_touch_def apply_profile_def)

lemma keeps_link:
  assumes s: "I s" and row: "map_of (users s) pk = Some row" and run: "link_or_activate env pk row g s = (r, t)"
  shows "I t"
proof -
  let ?linked = "case ua_google_sub (auths s pk) of None \<Rightarrow> [] | Some s \<Rightarrow> s"
  define a where "a = google_touch g (clock s) (if ?linked = [] then (auths s pk)\<lparr>ua_google_sub := Some (gi_subject g)\<rparr> else auths s pk)"
  define k :: "('x, google_outcome) auth_txn" where "k = thenE (if \<not> usr_active row then apply_pending_on_activation env pk else ret ())
    (ret (if ?linked = [] then GoogleLinked else GoogleExisting))"
  have keeps_k: "keeps I k" unfolding k_def by (intro keeps_intros keeps_account)
  from run consider "t = s" | "thenE (save_user pk True a) k s = (r, t)"
    by (auto simp: link_or_activate_def google_fail_def a_def k_def bindE_def getsE_def raiseE_def Let_def split: if_splits)
  then show ?thesis
  proof cases
    case 2
    obtain q u where u: "save_user pk True a s = (q, u)" by fastforce
    have "I u" by (rule keeps_login_save [OF s u])
      (auto simp: login_save_def a_def google_touch_def apply_profile_def not_None_eq)
    then show ?thesis using 2 u keepsD [OF keeps_k] by (auto simp: thenE_def bindE_def split: sum.splits)
  qed (use s in simp)
qed

lemma keeps_resolve: "keeps I (resolve_google_user env sg g email cookie raced)"
  unfolding resolve_google_user_def
proof (rule keeps_db_atomic, rule keeps_bind_read)
  fix s p
  assume s: "I s" and p: "p = (if raced then (None, None) else (user_of_sub (gi_subject g) s, user_of_email email (users s)))"
  have row: "map_of (users s) pk = Some row" if "fst p = Some (pk, row) \<or> snd p = Some (pk, row)" for pk row
  proof -
    have "(pk, row) \<in> set (users s)" using that p user_of_email_Some [of email "users s" "(pk, row)"]
      by (auto simp: user_of_sub_def find_Some_iff in_set_conv_nth split: if_splits)
    then show ?thesis using keys [OF s] by simp
  qed
  have kc: "keeps I (thenE (consume_invite env sg pk cookie) (ret x))" for pk and x :: "nat \<times> google_outcome"
    by (intro keeps_intros keeps_account)
  have kn: "keeps I (bindE (getsE clock) (\<lambda>now.
           bindE (insert_user email True (google_touch g now (blank_auth\<lparr>ua_google_sub := Some (gi_subject g)\<rparr>))) (\<lambda>pk.
           thenE (ensure_billing_account pk)
          (thenE (attribute_created_invite env sg pk cookie) (ret (pk, GoogleCreated))))))"
    by (intro keeps_intros keeps_account)
  obtain by_sub by_email where pp: "p = (by_sub, by_email)" by fastforce
  show "I (snd ((case p of (by_sub, by_email) \<Rightarrow> case by_sub of
       Some (pk, row) \<Rightarrow>
         if \<not> usr_active row then google_fail ''google_account_disabled''
         else thenE (touch_login pk row g) (thenE (consume_invite env sg pk cookie) (ret (pk, GoogleExisting)))
     | None \<Rightarrow> (case by_email of
         Some (pk, row) \<Rightarrow>
           bindE (link_or_activate env pk row g) (\<lambda>outcome.
           thenE (consume_invite env sg pk cookie) (ret (pk, outcome)))
       | None \<Rightarrow>
           bindE (getsE clock) (\<lambda>now.
           bindE (insert_user email True (google_touch g now (blank_auth\<lparr>ua_google_sub := Some (gi_subject g)\<rparr>))) (\<lambda>pk.
           thenE (ensure_billing_account pk)
          (thenE (attribute_created_invite env sg pk cookie) (ret (pk, GoogleCreated))))))) s))"
  proof (cases by_sub)
    case (Some q)
    obtain pk u where q: "q = (pk, u)" by fastforce
    have r: "map_of (users s) pk = Some u" using row pp Some q by simp
    obtain x t where t: "touch_login pk u g s = (x, t)" by fastforce
    show ?thesis using keeps_snd [OF kc keeps_touch [OF s r t]] s t keeps_touch [OF s r t]
      by (auto simp: pp Some q google_fail_def raiseE_def thenE_def [of "touch_login pk u g"] bindE_def [of "touch_login pk u g"] split: sum.splits)
  next
    case None
    show ?thesis
    proof (cases by_email)
      case (Some q)
      obtain pk u where q: "q = (pk, u)" by fastforce
      have r: "map_of (users s) pk = Some u" using row pp Some q by simp
      obtain x t where t: "link_or_activate env pk u g s = (x, t)" by fastforce
      show ?thesis using keeps_snd [OF kc keeps_link [OF s r t]] t keeps_link [OF s r t]
        by (auto simp: pp None Some q bindE_def [of "link_or_activate env pk u g"] split: sum.splits)
    next
      case n: None
      show ?thesis using keeps_snd [OF kn s] by (simp add: pp None n)
    qed
  qed
qed

lemma keeps_attempts: "(\<And>raced. keeps I (m raced)) \<Longrightarrow> keeps I (google_attempts m races)"
  by (induction races) (auto simp: google_fail_def intro!: keeps_intros)

lemma keeps_google: "keeps I (authenticate_with_google env lib sg races credential cookie)"
  unfolding authenticate_with_google_def google_fail_def
  by (intro keeps_intros keeps_attempts keeps_resolve)

end

section \<open>Runs\<close>

datatype account_call =
    RegisterUser bool string string | Activate string string string string | RequestReset string
  | ConfirmReset string string string string | StartSignup bool nat string string string string
  | ResendCode nat string | ConfirmCode string string | GoogleSignIn "bool \<times> bool \<times> bool" string string
  | AccountTime nat

fun account_run :: "env \<Rightarrow> auth_lib \<Rightarrow> signer \<Rightarrow> account_call \<Rightarrow> 'x auth_db_scheme \<Rightarrow> 'x auth_db_scheme" where
  "account_run env lib sg (RegisterUser raced email cookie) s = snd (register_user env lib sg raced email cookie s)"
| "account_run env lib sg (Activate uid token pw pw2) s = snd (activate_user env lib uid token pw pw2 s)"
| "account_run env lib sg (RequestReset email) s = snd (request_password_reset env lib email s)"
| "account_run env lib sg (ConfirmReset uid token pw pw2) s = snd (confirm_password_reset lib uid token pw pw2 s)"
| "account_run env lib sg (StartSignup raced drawn email pw given family) s = snd (start_signup env lib raced drawn email pw given family s)"
| "account_run env lib sg (ResendCode drawn email) s = snd (resend_signup_code env lib drawn email s)"
| "account_run env lib sg (ConfirmCode email code) s = snd (confirm_signup lib email code s)"
| "account_run env lib sg (GoogleSignIn races credential cookie) s = snd (authenticate_with_google env lib sg races credential cookie s)"
| "account_run env lib sg (AccountTime d) s = s\<lparr>clock := clock s + int d\<rparr>"

fun is_login :: "account_call \<Rightarrow> bool" where
  "is_login (ConfirmReset _ _ _ _) = True"
| "is_login (GoogleSignIn _ _ _) = True"
| "is_login _ = False"

context account_invariant begin

lemma call_keeps: "\<not> is_login c \<Longrightarrow> I s \<Longrightarrow> I (account_run env lib sg c s)"
  by (cases c) (auto intro: keeps_snd keeps_register keeps_activate keeps_request_reset keeps_start keeps_resend keeps_confirm frame)

lemma calls_keep: "\<forall>c \<in> set cs. \<not> is_login c \<Longrightarrow> I s \<Longrightarrow> I (foldl (\<lambda>s c. account_run env lib sg c s) s cs)"
  by (induction cs arbitrary: s) (auto simp: call_keeps)

end

context login_invariant begin

lemma login_keeps: "I s \<Longrightarrow> I (account_run env lib sg c s)"
  using call_keeps [of c] by (cases c) (auto intro: keeps_snd keeps_reset keeps_google)

lemma logins_keep: "I s \<Longrightarrow> I (foldl (\<lambda>s c. account_run env lib sg c s) s cs)"
  by (induction cs arbitrary: s) (auto simp: login_keeps)

end

section \<open>Identities\<close>

definition users_ok :: "'x auth_db_scheme \<Rightarrow> bool" where
  "users_ok s \<longleftrightarrow> distinct (map fst (users s)) \<and> distinct (map (\<lambda>r. usr_email (snd r)) (users s)) \<and>
     (\<forall>r \<in> set (users s). fst r < next_uuid s) \<and> (\<forall>r \<in> set (users s). \<not> sub_taken (fst r) (auths s (fst r)) s)"

definition same_user :: "user_row \<times> user_auth \<Rightarrow> user_row \<times> user_auth \<Rightarrow> bool" where
  "same_user u u' \<longleftrightarrow> usr_email (fst u') = usr_email (fst u) \<and> usr_staff (fst u') = usr_staff (fst u) \<and>
     (usr_active (fst u) \<longrightarrow> usr_active (fst u')) \<and>
     (ua_google_sub (snd u) \<noteq> None \<and> ua_google_sub (snd u) \<noteq> Some [] \<longrightarrow> ua_google_sub (snd u') = ua_google_sub (snd u))"

definition users_since :: "'x auth_db_scheme \<Rightarrow> 'x auth_db_scheme \<Rightarrow> bool" where
  "users_since db s \<longleftrightarrow> users_ok s \<and>
     (\<forall>pk row. map_of (users db) pk = Some row \<longrightarrow> (\<exists>row'. map_of (users s) pk = Some row' \<and> same_user (row, auths db pk) (row', auths s pk)))"

lemma users_frame:
  "users_ok s \<Longrightarrow> users t = users s \<Longrightarrow> auths t = auths s \<Longrightarrow> next_uuid s \<le> next_uuid t \<Longrightarrow> users_ok t"
  by (auto simp: users_ok_def sub_taken_def)

lemma users_row: "users_ok s \<Longrightarrow> map_of (users s) pk = Some row \<Longrightarrow> (pk, row) \<in> set (users s) \<and> pk < next_uuid s"
  by (force simp: users_ok_def dest: map_of_SomeD)

lemma users_insert:
  assumes ok: "users_ok s" and run: "insert_user email active a s = (Inr pk, t)"
  shows "users_ok t \<and> pk = next_uuid s \<and> users t = users s @ [(pk, \<lparr>usr_email = email, usr_active = active, usr_staff = False\<rparr>)] \<and>
    auths t = (auths s)(pk := a)"
proof -
  have r: "pk = next_uuid s" "user_of_email email (users s) = None" "\<not> sub_taken pk a s"
    and t: "t = s\<lparr>next_uuid := Suc (next_uuid s), users := users s @ [(pk, \<lparr>usr_email = email, usr_active = active, usr_staff = False\<rparr>)],
         auths := (auths s)(pk := a)\<rparr>" using insert_user_run [OF run] by auto
  have fresh: "fst r \<noteq> pk" if "r \<in> set (users s)" for r using ok that r(1) by (auto simp: users_ok_def)
  have mail: "usr_email (snd r) \<noteq> email" if "r \<in> set (users s)" for r
    using r(2) that by (auto simp: user_of_email_def find_None_iff)
  have subs: "\<not> sub_taken (fst r) (((auths s)(pk := a)) (fst r)) t" if "r \<in> set (users t)" for r
    using that fresh r(3) ok unfolding t by (auto simp: sub_taken_def users_ok_def)
  show ?thesis using ok fresh mail subs r(1) unfolding t by (fastforce simp: users_ok_def)
qed

lemma sub_taken_keys: "sub_taken pk a db \<longleftrightarrow> ua_google_sub a \<noteq> None \<and>
    (\<exists>q \<in> fst ` set (users db). q \<noteq> pk \<and> ua_google_sub (auths db q) = ua_google_sub a)"
  by (auto simp: sub_taken_def)

lemma users_save:
  assumes ok: "users_ok s" and row: "map_of (users s) pk = Some row" and run: "save_user pk active a s = (Inr u, t)"
  shows "users_ok t \<and> users t = AList.update pk (row\<lparr>usr_active := active\<rparr>) (users s) \<and> auths t = (auths s)(pk := a) \<and>
    next_uuid t = next_uuid s"
proof -
  have free: "\<not> sub_taken pk a s" and t: "t = s\<lparr>users := AList.update pk (row\<lparr>usr_active := active\<rparr>) (users s), auths := (auths s)(pk := a)\<rparr>"
    using save_user_run [OF run] row by auto
  have keys: "distinct (map fst (users s))" using ok by (simp add: users_ok_def)
  have mem: "(pk, row) \<in> set (users s)" using row by (rule map_of_SomeD)
  have names: "map (\<lambda>r. usr_email (snd r)) (users t) = map (\<lambda>r. usr_email (snd r)) (users s)"
    using map_AList_update_same [OF row, of usr_email "row\<lparr>usr_active := active\<rparr>"] by (simp add: t)
  have keyst: "map fst (users t) = map fst (users s)" using keys_AList_update_old [OF row] by (simp add: t)
  then have pks: "fst ` set (users t) = fst ` set (users s)" by (metis list.set_map)
  have free': "ua_google_sub a = None \<or> (\<forall>q \<in> fst ` set (users s). q \<noteq> pk \<longrightarrow> ua_google_sub (auths s q) \<noteq> ua_google_sub a)"
    using free by (auto simp: sub_taken_keys)
  have others: "ua_google_sub (auths s k) = None \<or> (\<forall>q \<in> fst ` set (users s). q \<noteq> k \<longrightarrow> ua_google_sub (auths s q) \<noteq> ua_google_sub (auths s k))"
    if "k \<in> fst ` set (users s)" for k
  proof -
    obtain r where "r \<in> set (users s)" "k = fst r" using \<open>k \<in> fst ` set (users s)\<close> by blast
    then have "\<not> sub_taken k (auths s k) s" using ok by (simp add: users_ok_def)
    then show ?thesis unfolding sub_taken_keys by blast
  qed
  have "\<not> sub_taken k (auths t k) t" if k: "k \<in> fst ` set (users s)" for k
  proof (cases "k = pk")
    case True
    then show ?thesis using free' unfolding sub_taken_keys pks by (auto simp: t)
  next
    case False
    then show ?thesis using free' others [OF k] k unfolding sub_taken_keys pks by (auto simp: t)
  qed
  then have "\<not> sub_taken (fst r) (auths t (fst r)) t" if "r \<in> set (users t)" for r
    using that pks by blast
  moreover have "fst r < next_uuid t" if "r \<in> set (users t)" for r
  proof -
    have "fst r \<in> fst ` set (users s)" using that pks by blast
    then show ?thesis using ok by (auto simp: users_ok_def t)
  qed
  ultimately have "users_ok t" using ok names keyst unfolding users_ok_def by metis
  then show ?thesis by (simp add: t)
qed

lemma same_user_trans: "same_user u v \<Longrightarrow> same_user v w \<Longrightarrow> same_user u w"
  by (auto simp: same_user_def)

lemma users_since_step:
  assumes "users_since db s" "users_ok t"
    and "\<And>q r. map_of (users s) q = Some r \<Longrightarrow> \<exists>r'. map_of (users t) q = Some r' \<and> same_user (r, auths s q) (r', auths t q)"
  shows "users_since db t"
  unfolding users_since_def
proof (intro conjI allI impI)
  fix q r
  assume "map_of (users db) q = Some r"
  then obtain r1 where r1: "map_of (users s) q = Some r1" "same_user (r, auths db q) (r1, auths s q)"
    using assms(1) unfolding users_since_def by blast
  from assms(3) [OF r1(1)] r1(2) same_user_trans
  show "\<exists>row'. map_of (users t) q = Some row' \<and> same_user (r, auths db q) (row', auths t q)" by blast
qed (rule assms(2))

lemma users_since_save:
  assumes s: "users_since db s" and row: "map_of (users s) pk = Some row" and save: "login_save row (auths s pk) active a"
    and run: "save_user pk active a s = (Inr u, t)"
  shows "users_since db t"
proof -
  have ok: "users_ok s" using s by (simp add: users_since_def)
  note v = users_save [OF ok row run]
  have "\<exists>r'. map_of (users t) q = Some r' \<and> same_user (r, auths s q) (r', auths t q)" if "map_of (users s) q = Some r" for q r
    using that row save v by (cases "q = pk") (auto simp: same_user_def login_save_def)
  then show ?thesis using users_since_step [OF s] v by blast
qed

interpretation identity: login_invariant "users_since db" for db :: "'x auth_db_scheme"
proof (unfold_locales, goal_cases)
  case (1 s)
  then show ?case by (simp add: users_since_def users_ok_def)
next
  case (2 s t)
  then show ?case using users_frame by (auto simp: users_since_def)
next
  case (3 s email active a pk t)
  then have ok: "users_ok s" by (simp add: users_since_def)
  note i = users_insert [OF ok 3(2)]
  have "\<exists>r'. map_of (users t) q = Some r' \<and> same_user (r, auths s q) (r', auths t q)" if "map_of (users s) q = Some r" for q r
    using users_row [OF ok that] i that by (auto simp: same_user_def)
  then show ?case using users_since_step [OF 3(1)] i by blast
next
  case (4 s pk row active a u t)
  then show ?case using users_since_save quiet_login by blast
next
  case (5 s pk row active a u t)
  then show ?case using users_since_save by blast
qed

text \<open>Whatever registrations, activations, signups, codes, resets and Google logins are made, in any order, with lost
  races and failing mails: a user keeps the email, the staff flag and the Google subject once linked, is never
  deactivated, and no two users share an email or a Google subject.\<close>

theorem identities_are_permanent:
  assumes ok: "users_ok db" and t: "t = foldl (\<lambda>s c. account_run env lib sg c s) db cs"
  shows "users_ok t \<and>
    (\<forall>pk row. map_of (users db) pk = Some row \<longrightarrow> (\<exists>row'. map_of (users t) pk = Some row' \<and>
       usr_email row' = usr_email row \<and> usr_staff row' = usr_staff row \<and> (usr_active row \<longrightarrow> usr_active row') \<and>
       (ua_google_sub (auths db pk) \<noteq> None \<and> ua_google_sub (auths db pk) \<noteq> Some [] \<longrightarrow>
          ua_google_sub (auths t pk) = ua_google_sub (auths db pk))))"
proof -
  have "users_since db db" using ok by (auto simp: users_since_def same_user_def)
  then have "users_since db t" unfolding t by (rule identity.logins_keep)
  then show ?thesis by (simp add: users_since_def same_user_def)
qed

definition user_unchanged :: "nat \<Rightarrow> user_row \<Rightarrow> user_auth \<Rightarrow> 'x auth_db_scheme \<Rightarrow> bool" where
  "user_unchanged pk row a s \<longleftrightarrow> users_ok s \<and> map_of (users s) pk = Some row \<and> auths s pk = a \<and> usr_active row \<and> has_usable_password a"

interpretation active: account_invariant "user_unchanged k r b" for k r b
proof (unfold_locales, goal_cases)
  case (1 s)
  then show ?case by (simp add: user_unchanged_def users_ok_def)
next
  case (2 s t)
  then show ?case using users_frame by (auto simp: user_unchanged_def)
next
  case (3 s email active a pk t)
  then have ok: "users_ok s" by (simp add: user_unchanged_def)
  show ?case using users_insert [OF ok 3(2)] users_row [OF ok, of k r] 3(1) by (auto simp: user_unchanged_def)
next
  case (4 s pk row active a u t)
  then have ok: "users_ok s" and ne: "pk \<noteq> k" by (auto simp: user_unchanged_def quiet_save_def)
  show ?case using users_save [OF ok 4(2,4)] 4(1) ne by (simp add: user_unchanged_def)
qed

text \<open>C40. An active account with a password is out of reach of everything that needs no proof of the mailbox or of
  Google: registrations, activation links, signups under its email, codes (right or wrong) and reset requests leave its
  row, its password hash and its other columns exactly as they were.\<close>

theorem active_account_untouched:
  assumes ok: "users_ok db" and row: "map_of (users db) pk = Some row" "usr_active row" "has_usable_password (auths db pk)"
    and calls: "\<forall>c \<in> set cs. \<not> is_login c"
  shows "map_of (users (foldl (\<lambda>s c. account_run env lib sg c s) db cs)) pk = Some row \<and>
    auths (foldl (\<lambda>s c. account_run env lib sg c s) db cs) pk = auths db pk"
proof -
  have "user_unchanged pk row (auths db pk) db" using ok row by (simp add: user_unchanged_def)
  from active.calls_keep [OF calls this] show ?thesis by (simp add: user_unchanged_def)
qed

section \<open>Examples\<close>

definition demo_auth_lib :: auth_lib where
  "demo_auth_lib = \<lparr>lib_normalize_email = (\<lambda>e. e), lib_make_password = (\<lambda>p. CHR ''#'' # p),
     lib_check_password = (\<lambda>p h. h = CHR ''#'' # p), lib_valid_password = (\<lambda>p. 8 \<le> length p),
     lib_uid_encode = (\<lambda>u. u), lib_uid_text = Some, lib_secrets = [''s''],
     lib_token = (\<lambda>salt secret pk email password t. secret @ ''-'' @ email), lib_base36 = (\<lambda>_. None),
     lib_smtp = (\<lambda>_. None), lib_google_client = [], lib_google_verify = (\<lambda>_. BadToken)\<rparr>"

text \<open>User 7 has a password, user 8 none.\<close>

definition demo_auth_db :: auth_db where
  "demo_auth_db = org_db.extend (demo_org_db\<lparr>next_uuid := 20\<rparr>)
     \<lparr>auths = (\<lambda>pk. if pk = 7 then blank_auth\<lparr>ua_password := Some ''#secret''\<rparr> else blank_auth),
      signup_codes = [], mail_cache = (\<lambda>_. None), outbox = []\<rparr>"

lemma demo_auth_simps [simp]:
  "users demo_auth_db = users demo_org_db" "next_uuid demo_auth_db = 20" "clock demo_auth_db = 1000"
  "auths demo_auth_db = (\<lambda>pk. if pk = 7 then blank_auth\<lparr>ua_password := Some ''#secret''\<rparr> else blank_auth)"
  "signup_codes demo_auth_db = []" "mail_cache demo_auth_db = (\<lambda>_. None)" "outbox demo_auth_db = []"
  by (simp_all add: demo_auth_db_def org_db.defs demo_org_db_def partner_db.defs demo_partner_db_def demo_deposit_db_def
      demo_wallet_db_def demo_voucher_db_def demo_pricing_db_def demo_db_def credit_db.defs pricing_db.defs voucher_db.defs
      wallet_db.defs deposit_db.defs)

lemma demo_auth_ok: "users_ok demo_auth_db"
  by (simp add: users_ok_def sub_taken_def blank_auth_def)

text \<open>A registration and a signup under the email of user 7: the owner gets a reset link and a notice.\<close>

definition demo_calls :: "account_call list" where
  "demo_calls = [RegisterUser False ''c'' [], StartSignup False 1 ''c'' ''attack'' ''A'' ''B'', ConfirmCode ''c'' ''0001'']"

lemma demo_mails:
  "map mail_to (outbox (foldl (\<lambda>s c. account_run demo_env demo_auth_lib demo_signer c s) demo_auth_db demo_calls)) = [''c'', ''c'']"
  by (simp add: demo_calls_def demo_auth_lib_def register_user_def start_signup_def confirm_signup_def claim_signup_mail_def
      cache_add_def cache_live_def active_account_result_def send_password_reset_email_def send_mail_def db_atomic_def
      send_signup_account_exists_email_def insert_or_get_def verified_invite_visit_def user_of_email_def has_usable_password_def
      MAIL_DAY_MAX_def MAIL_DAY_def SECOND_def gap_key_def day_key_def upt_rec txn_defs Let_def blank_auth_def)

theorem active_account_untouched_witness:
  "let t = foldl (\<lambda>s c. account_run demo_env demo_auth_lib demo_signer c s) demo_auth_db demo_calls
   in map_of (users t) 7 = Some \<lparr>usr_email = ''c'', usr_active = True, usr_staff = False\<rparr> \<and>
      ua_password (auths t 7) = Some ''#secret'' \<and> length (outbox t) = 2"
proof -
  have calls: "\<forall>c \<in> set demo_calls. \<not> is_login c" by (simp add: demo_calls_def)
  have "has_usable_password (auths demo_auth_db 7)" by (simp add: has_usable_password_def)
  from active_account_untouched [OF demo_auth_ok _ _ this calls, of "\<lparr>usr_email = ''c'', usr_active = True, usr_staff = False\<rparr>"
      demo_env demo_auth_lib demo_signer] arg_cong [OF demo_mails, of length]
  show ?thesis by (simp add: Let_def)
qed

end
