(* ===== verification/VoucherAdmin.thy ===== *)
theory VoucherAdmin
  imports Vouchers Dates
begin

text \<open>
  Issuing, revoking and exporting vouchers: \<^verbatim>\<open>billing/services/voucher_admin.py\<close> with the batch and export
  audit models of \<^verbatim>\<open>billing/models.py\<close>. \<open>voucher_admin_db\<close> adds the two tables. A Python object that the
  admin site loaded earlier is passed by its primary key and, where the code reads it, by the fields read.
  The random part of a code, the outcome of the two non-blocking locks, the measured duration and the
  release settings are arguments. Text is kept to code points below 256, so the Latin-1 encoding of the
  PDF is the identity.
\<close>

section \<open>Data\<close>

datatype batch_status = BCreated | BActive | BRevoked

record voucher_batch =
  bat_campaign :: "nat option"
  bat_size :: int
  bat_status :: batch_status
  bat_issuer :: issuer_type
  bat_issued_by :: string
  generated_at :: "int option"
  generation_duration_ms :: "int option"
  generated_by_version :: string
  bat_created :: int
  bat_updated :: int

datatype export_format = CsvFormat | PdfFormat

record export_audit =
  aud_batch :: nat
  aud_format :: export_format
  exported_by_id :: string
  exported_at :: int

record voucher_admin_db = voucher_db +
  batches :: "(nat \<times> voucher_batch) list"
  export_audits :: "(nat \<times> export_audit) list"

type_synonym ('x, 'a) admin_txn = "('x voucher_admin_db_scheme, 'a) txn"

record revoke_impact =
  affected :: nat
  already_redeemed :: nat
  revoked_now :: nat

record batch_preview =
  pre_size :: int
  pre_reward :: reward_type
  pre_amount :: rat
  pre_expires :: "int option"
  code_prefix :: string
  irreversible_warning :: string

definition VOUCHER_CODE_PREFIX :: string where "VOUCHER_CODE_PREFIX = ''RK-''"
definition CODE_COLLISION_RETRIES :: nat where "CODE_COLLISION_RETRIES = 8"
definition REVOKE_REASONS :: "string list" where
  "REVOKE_REASONS = [''fraud'', ''expired_campaign'', ''manual_revoke'', ''duplicate_issue'']"
definition REVOCABLE :: "voucher_status list" where "REVOCABLE = [VCreated, VActive]"

definition invalid :: "string \<Rightarrow> exc" where
  "invalid text = EVoucherAdmin (VoucherAdminValidationError text)"

definition release_version :: "string \<Rightarrow> string \<Rightarrow> string" where
  "release_version sha tag =
     (if strip sha \<noteq> [] then take 40 (strip sha) else if strip tag \<noteq> [] then take 64 (strip tag) else ''dev'')"

definition actor_text :: "string option \<Rightarrow> string" where
  "actor_text actor = (case actor of None \<Rightarrow> [] | Some a \<Rightarrow> a)"

definition require_revoke_reason :: "string \<Rightarrow> ('s, string) txn" where
  "require_revoke_reason reason =
     (if reason \<in> set REVOKE_REASONS then ret reason else raiseE (invalid ''revoke_reason is required''))"

text \<open>Times are in microseconds; the code allows a difference of a millisecond.\<close>

definition assert_updated_at :: "int \<Rightarrow> int option \<Rightarrow> ('s, unit) txn" where
  "assert_updated_at current expected = (case expected of
     None \<Rightarrow> ret ()
   | Some t \<Rightarrow>
       if \<bar>current - t\<bar> > 1000
       then raiseE (EVoucherAdmin (VoucherAdminConflictError
              ''Reload and retry: the record was changed by another operator.''))
       else ret ())"

fun generate_unique_code :: "env \<Rightarrow> nat \<Rightarrow> (nat \<Rightarrow> string) \<Rightarrow> ('x, string) voucher_txn" where
  "generate_unique_code env 0 hex = raiseE (invalid ''Could not allocate a unique voucher code'')"
| "generate_unique_code env (Suc n) hex =
     catchE (assert_code_available env (VOUCHER_CODE_PREFIX @ upper (hex 0)) None None)
       (\<lambda>e. if e = EPy ValueError then generate_unique_code env n (\<lambda>k. hex (Suc k)) else raiseE e)"

section \<open>Campaigns\<close>

text \<open>\<^verbatim>\<open>campaign.save()\<close>: the columns round and refuse as PostgreSQL does, the table's constraints hold, and
  \<open>updated_at\<close> is set.\<close>

definition MAX_INTEGER :: nat where "MAX_INTEGER = 2147483647"

definition campaign_fits :: "campaign \<Rightarrow> bool" where
  "campaign_fits row \<longleftrightarrow>
     (case cmp_code row of None \<Rightarrow> True | Some c \<Rightarrow> length c \<le> 64) \<and>
     length (cmp_reason row) \<le> 32 \<and> length (cmp_issued_by row) \<le> 64 \<and> length (cmp_revoked_by row) \<le> 64 \<and>
     (case max_total row of None \<Rightarrow> True | Some m \<Rightarrow> m \<le> MAX_INTEGER) \<and>
     (case max_per_account row of None \<Rightarrow> True | Some m \<Rightarrow> m \<le> MAX_INTEGER)"

definition save_campaign_row :: "nat \<Rightarrow> campaign \<Rightarrow> ('x, campaign) voucher_txn" where
  "save_campaign_row pk row =
     bindE (liftE (numeric_20_6 (cmp_amount row))) (\<lambda>amount.
     if \<not> campaign_fits row then raiseE (EPy DataError)
     else
       bindE (getsE (\<lambda>db. cmp_code row \<noteq> None \<and>
           (\<exists>r \<in> set (campaigns db). fst r \<noteq> pk \<and> cmp_code (snd r) = cmp_code row))) (\<lambda>taken.
       if amount \<le> 0 \<or> max_total row = Some 0 \<or> max_per_account row = Some 0 \<or> taken
       then raiseE (EPy IntegrityError)
       else
         bindE (getsE clock) (\<lambda>now.
         let stored = row\<lparr>cmp_amount := amount, cmp_updated := now\<rparr>
         in thenE (modifyE (\<lambda>db. db\<lparr>campaigns := AList.update pk stored (campaigns db)\<rparr>))
              (ret stored))))"

record campaign_args =
  arg_amount :: rat
  arg_code :: "string option"
  arg_mode :: redemption_mode
  arg_type :: voucher_type
  arg_reward :: reward_type
  arg_total :: "nat option"
  arg_per_account :: "nat option"
  arg_starts :: "int option"
  arg_expires :: "int option"
  arg_status :: campaign_status

definition create_campaign :: "env \<Rightarrow> campaign_args \<Rightarrow> string option \<Rightarrow> ('x, nat) voucher_txn" where
  "create_campaign env args actor =
     (if arg_reward args \<noteq> FIXED_CREDIT then raiseE (invalid ''Only fixed_credit is supported in v1'')
      else if arg_amount args \<le> 0 then raiseE (invalid ''credit_amount must be positive'')
      else
        bindE (case arg_code args of
            None \<Rightarrow> ret None
          | Some c \<Rightarrow> if c = [] then ret None
                      else bindE (assert_code_available env c None None) (\<lambda>n. ret (Some n))) (\<lambda>normalized.
        bindE uuid4 (\<lambda>pk.
        bindE (getsE clock) (\<lambda>now.
        thenE (save_campaign_row pk
            \<lparr>cmp_code = normalized, cmp_mode = arg_mode args, cmp_type = arg_type args, cmp_reward = arg_reward args,
             cmp_amount = arg_amount args, max_total = arg_total args, max_per_account = arg_per_account args,
             starts_at = arg_starts args, cmp_expires = arg_expires args, cmp_status = arg_status args,
             cmp_reason = [], cmp_issuer = AdminIssuer, cmp_issued_by = actor_text actor, cmp_revoked = None,
             cmp_revoked_by = [], cmp_created = now, cmp_updated = now\<rparr>)
          (ret pk)))))"

text \<open>\<^verbatim>\<open>setattr(locked, key, value)\<close> for the columns of the form; a protected column has no effect.\<close>

datatype campaign_field =
  FCode "string option" | FMode redemption_mode | FType voucher_type | FReward reward_type | FAmount rat
| FTotal "nat option" | FPerAccount "nat option" | FStarts "int option" | FExpires "int option"
| FStatus campaign_status | FReason string | FProtected string

fun set_campaign_field :: "campaign_field \<Rightarrow> campaign \<Rightarrow> campaign" where
  "set_campaign_field (FCode c) row = row\<lparr>cmp_code := c\<rparr>"
| "set_campaign_field (FMode m) row = row\<lparr>cmp_mode := m\<rparr>"
| "set_campaign_field (FType t) row = row\<lparr>cmp_type := t\<rparr>"
| "set_campaign_field (FReward r) row = row\<lparr>cmp_reward := r\<rparr>"
| "set_campaign_field (FAmount x) row = row\<lparr>cmp_amount := x\<rparr>"
| "set_campaign_field (FTotal m) row = row\<lparr>max_total := m\<rparr>"
| "set_campaign_field (FPerAccount m) row = row\<lparr>max_per_account := m\<rparr>"
| "set_campaign_field (FStarts t) row = row\<lparr>starts_at := t\<rparr>"
| "set_campaign_field (FExpires t) row = row\<lparr>cmp_expires := t\<rparr>"
| "set_campaign_field (FStatus st) row = row\<lparr>cmp_status := st\<rparr>"
| "set_campaign_field (FReason text) row = row\<lparr>cmp_reason := text\<rparr>"
| "set_campaign_field (FProtected _) row = row"

definition normalized_field :: "env \<Rightarrow> nat \<Rightarrow> campaign_field \<Rightarrow> ('x, campaign_field) voucher_txn" where
  "normalized_field env pk field = (case field of
     FCode (Some c) \<Rightarrow>
       if c = [] then ret field
       else bindE (assert_code_available env c None (Some pk)) (\<lambda>n. ret (FCode (Some n)))
   | _ \<Rightarrow> ret field)"

fun set_campaign_fields :: "env \<Rightarrow> nat \<Rightarrow> campaign_field list \<Rightarrow> campaign \<Rightarrow> ('x, campaign) voucher_txn" where
  "set_campaign_fields env pk [] row = ret row"
| "set_campaign_fields env pk (field # rest) row =
     bindE (normalized_field env pk field) (\<lambda>f. set_campaign_fields env pk rest (set_campaign_field f row))"

definition locked_campaign :: "nat \<Rightarrow> int option \<Rightarrow> ('x, campaign) voucher_txn" where
  "locked_campaign pk expected =
     bindE (getsE (\<lambda>db. map_of (campaigns db) pk)) (\<lambda>row.
     bindE (get_or_raise (EPy ObjectDoesNotExist) row) (\<lambda>locked.
     thenE (assert_updated_at (cmp_updated locked) expected) (ret locked)))"

definition save_campaign :: "env \<Rightarrow> nat \<Rightarrow> int option \<Rightarrow> campaign_field list \<Rightarrow> ('x, campaign) voucher_txn" where
  "save_campaign env pk expected changes = atomic (
     bindE (locked_campaign pk expected) (\<lambda>locked.
     if cmp_status locked = CRevoked then raiseE (invalid ''Cannot edit a revoked campaign'')
     else bindE (set_campaign_fields env pk changes locked) (\<lambda>row. save_campaign_row pk row)))"

text \<open>A save of named columns of a locked row; \<open>updated_at\<close> is always among them.\<close>

definition update_campaign :: "nat \<Rightarrow> campaign \<Rightarrow> ('x, campaign) voucher_txn" where
  "update_campaign pk row =
     (if length (cmp_revoked_by row) > 64 then raiseE (EPy DataError)
      else bindE (getsE clock) (\<lambda>now. thenE
        (modifyE (\<lambda>db. db\<lparr>campaigns := AList.update pk (row\<lparr>cmp_updated := now\<rparr>) (campaigns db)\<rparr>))
        (ret (row\<lparr>cmp_updated := now\<rparr>))))"

definition activate_campaign :: "nat \<Rightarrow> int option \<Rightarrow> ('x, campaign) voucher_txn" where
  "activate_campaign pk expected = atomic (
     bindE (locked_campaign pk expected) (\<lambda>locked.
     if cmp_status locked \<noteq> CDraft then raiseE (invalid ''Only DRAFT campaigns can be activated'')
     else update_campaign pk (locked\<lparr>cmp_status := CActive\<rparr>)))"

text \<open>\<open>loaded\<close> are the campaigns as the admin list read them.\<close>

fun activate_campaigns :: "(nat \<times> campaign) list \<Rightarrow> ('x, nat) voucher_txn" where
  "activate_campaigns [] = ret 0"
| "activate_campaigns (r # loaded) =
     (if cmp_status (snd r) \<noteq> CDraft then activate_campaigns loaded
      else thenE (activate_campaign (fst r) (Some (cmp_updated (snd r))))
             (bindE (activate_campaigns loaded) (\<lambda>n. ret (Suc n))))"

section \<open>Revoking\<close>

text \<open>A queryset of vouchers is the predicate of its rows.\<close>

type_synonym voucher_query = "nat \<times> voucher \<Rightarrow> bool"

definition of_campaign :: "nat \<Rightarrow> voucher_query" where
  "of_campaign pk r \<longleftrightarrow> vch_campaign (snd r) = Some pk"

definition of_batch :: "nat \<Rightarrow> voucher_query" where
  "of_batch pk r \<longleftrightarrow> vch_batch (snd r) = Some pk"

definition of_ids :: "nat list \<Rightarrow> voucher_query" where
  "of_ids ids r \<longleftrightarrow> fst r \<in> set ids"

definition revocable :: voucher_query where
  "revocable r \<longleftrightarrow> vch_status (snd r) \<in> set REVOCABLE"

definition voucher_revoke_counts :: "voucher_query \<Rightarrow> (nat \<times> voucher) list \<Rightarrow> revoke_impact" where
  "voucher_revoke_counts qs rows =
     \<lparr>affected = length (filter qs rows),
      already_redeemed = length (filter (\<lambda>r. qs r \<and> vch_status (snd r) = VRedeemed) rows),
      revoked_now = length (filter (\<lambda>r. qs r \<and> revocable r) rows)\<rparr>"

text \<open>\<open>status\<close> is that of the object passed in.\<close>

definition preview_revoke_campaign :: "nat \<Rightarrow> campaign_status \<Rightarrow> ('x, revoke_impact) voucher_txn" where
  "preview_revoke_campaign pk status =
     bindE (getsE (\<lambda>db. voucher_revoke_counts (of_campaign pk) (vouchers db))) (\<lambda>base.
     ret \<lparr>affected = affected base + 1, already_redeemed = already_redeemed base,
          revoked_now = revoked_now base + (if status \<noteq> CRevoked then 1 else 0)\<rparr>)"

definition preview_revoke_batch :: "nat \<Rightarrow> ('x, revoke_impact) voucher_txn" where
  "preview_revoke_batch pk = getsE (\<lambda>db. voucher_revoke_counts (of_batch pk) (vouchers db))"

definition preview_revoke_vouchers :: "nat list \<Rightarrow> ('x, revoke_impact) voucher_txn" where
  "preview_revoke_vouchers ids = getsE (\<lambda>db. voucher_revoke_counts (of_ids ids) (vouchers db))"

definition revoked_row :: "string \<Rightarrow> string \<Rightarrow> int \<Rightarrow> voucher \<Rightarrow> voucher" where
  "revoked_row reason actor now row =
     row\<lparr>vch_status := VRevoked, vch_reason := reason, vch_revoked := Some now, vch_revoked_by := actor,
         vch_updated := now\<rparr>"

definition apply_voucher_revokes :: "voucher_query \<Rightarrow> string \<Rightarrow> string \<Rightarrow> int \<Rightarrow> ('x, nat) voucher_txn" where
  "apply_voucher_revokes qs reason actor now =
     bindE (getsE (\<lambda>db. filter (\<lambda>r. qs r \<and> revocable r) (vouchers db))) (\<lambda>rows.
     if rows \<noteq> [] \<and> length actor > 64 then raiseE (EPy DataError)
     else thenE
       (modifyE (\<lambda>db. db\<lparr>vouchers :=
          map (\<lambda>r. if qs r \<and> revocable r then (fst r, revoked_row reason actor now (snd r)) else r) (vouchers db)\<rparr>))
       (ret (length rows)))"

definition revoke_campaign :: "nat \<Rightarrow> string \<Rightarrow> string option \<Rightarrow> int option \<Rightarrow> ('x, revoke_impact) voucher_txn" where
  "revoke_campaign pk reason actor_id expected = atomic (
     bindE (require_revoke_reason reason) (\<lambda>reason.
     bindE (getsE clock) (\<lambda>now.
     bindE (locked_campaign pk expected) (\<lambda>locked.
     if cmp_status locked = CRevoked then raiseE (invalid ''Campaign is already revoked'')
     else
       bindE (preview_revoke_campaign pk (cmp_status locked)) (\<lambda>preview.
       bindE (apply_voucher_revokes (of_campaign pk) reason (actor_text actor_id) now) (\<lambda>n.
       thenE (update_campaign pk (locked\<lparr>cmp_status := CRevoked, cmp_reason := reason, cmp_revoked := Some now,
           cmp_revoked_by := actor_text actor_id\<rparr>))
         (ret \<lparr>affected = affected preview, already_redeemed = already_redeemed preview, revoked_now = n + 1\<rparr>)))))))"

definition update_batch :: "nat \<Rightarrow> voucher_batch \<Rightarrow> ('x, unit) admin_txn" where
  "update_batch pk row = modifyE (\<lambda>db. db\<lparr>batches := AList.update pk (row\<lparr>bat_updated := clock db\<rparr>) (batches db)\<rparr>)"

definition revoke_batch :: "nat \<Rightarrow> string \<Rightarrow> string option \<Rightarrow> int option \<Rightarrow> ('x, revoke_impact) admin_txn" where
  "revoke_batch pk reason actor_id expected = atomic (
     bindE (require_revoke_reason reason) (\<lambda>reason.
     bindE (getsE clock) (\<lambda>now.
     bindE (getsE (\<lambda>db. map_of (batches db) pk)) (\<lambda>row.
     bindE (get_or_raise (EPy ObjectDoesNotExist) row) (\<lambda>locked.
     thenE (assert_updated_at (bat_updated locked) expected)
       (if bat_status locked = BRevoked then raiseE (invalid ''Batch is already revoked'')
        else
          bindE (preview_revoke_batch pk) (\<lambda>preview.
          bindE (apply_voucher_revokes (of_batch pk) reason (actor_text actor_id) now) (\<lambda>n.
          thenE (update_batch pk (locked\<lparr>bat_status := BRevoked\<rparr>))
            (ret \<lparr>affected = affected preview, already_redeemed = already_redeemed preview, revoked_now = n\<rparr>)))))))))"

definition revoke_vouchers :: "nat list \<Rightarrow> string \<Rightarrow> string option \<Rightarrow> ('x, revoke_impact) voucher_txn" where
  "revoke_vouchers ids reason actor_id = atomic (
     bindE (require_revoke_reason reason) (\<lambda>reason.
     bindE (getsE clock) (\<lambda>now.
     bindE (getsE (\<lambda>db. voucher_revoke_counts (of_ids ids) (vouchers db))) (\<lambda>preview.
     bindE (apply_voucher_revokes (of_ids ids) reason (actor_text actor_id) now) (\<lambda>n.
     ret \<lparr>affected = affected preview, already_redeemed = already_redeemed preview, revoked_now = n\<rparr>)))))"

section \<open>Extending\<close>

definition extend_campaign_expiry :: "nat \<Rightarrow> int \<Rightarrow> int option \<Rightarrow> ('x, campaign) voucher_txn" where
  "extend_campaign_expiry pk expires expected = atomic (
     bindE (locked_campaign pk expected) (\<lambda>locked.
     if cmp_status locked = CRevoked then raiseE (invalid ''Cannot extend a revoked campaign'')
     else if cmp_status locked = CExpired
     then update_campaign pk (locked\<lparr>cmp_expires := Some expires, cmp_status := CActive\<rparr>)
     else update_campaign pk (locked\<lparr>cmp_expires := Some expires\<rparr>)))"

definition update_voucher :: "nat \<Rightarrow> voucher \<Rightarrow> ('x, voucher) voucher_txn" where
  "update_voucher pk row =
     bindE (getsE clock) (\<lambda>now. thenE
       (modifyE (\<lambda>db. db\<lparr>vouchers := AList.update pk (row\<lparr>vch_updated := now\<rparr>) (vouchers db)\<rparr>))
       (ret (row\<lparr>vch_updated := now\<rparr>)))"

definition extend_voucher_expiry :: "nat \<Rightarrow> int \<Rightarrow> int option \<Rightarrow> ('x, voucher) voucher_txn" where
  "extend_voucher_expiry pk expires expected = atomic (
     bindE (getsE (\<lambda>db. map_of (vouchers db) pk)) (\<lambda>row.
     bindE (get_or_raise (EPy ObjectDoesNotExist) row) (\<lambda>locked.
     thenE (assert_updated_at (vch_updated locked) expected)
       (if vch_status locked \<in> {VRedeemed, VRevoked}
        then raiseE (invalid ''Cannot extend expiry on redeemed or revoked vouchers'')
        else if vch_status locked = VExpired
        then update_voucher pk (locked\<lparr>vch_expires := Some expires, vch_status := VActive\<rparr>)
        else update_voucher pk (locked\<lparr>vch_expires := Some expires\<rparr>)))))"

section \<open>Batches\<close>

definition preview_batch :: "int \<Rightarrow> rat \<Rightarrow> reward_type \<Rightarrow> int option \<Rightarrow> exc + batch_preview" where
  "preview_batch n amount reward expires =
     (if n < 1 then Inl (invalid ''size must be >= 1'')
      else if amount \<le> 0 then Inl (invalid ''credit_amount must be positive'')
      else if reward \<noteq> FIXED_CREDIT then Inl (invalid ''Only fixed_credit is supported in v1'')
      else Inr \<lparr>pre_size = n, pre_reward = reward, pre_amount = amount, pre_expires = expires,
        code_prefix = VOUCHER_CODE_PREFIX,
        irreversible_warning = ''This operation cannot be undone. Generated codes can only be revoked, not deleted.''\<rparr>)"

record batch_args =
  req_size :: int
  req_amount :: rat
  req_actor :: "string option"
  req_campaign :: "nat option"
  req_campaign_updated :: "int option"
  req_type :: voucher_type
  req_reward :: reward_type
  req_expires :: "int option"
  req_activate :: bool

text \<open>What the surroundings answer: the row lock without waiting, the advisory lock, the random codes (voucher
  and attempt), the duration and the release settings.\<close>

record generation =
  row_lock_free :: bool
  advisory_lock_free :: bool
  hex_draws :: "nat \<Rightarrow> nat \<Rightarrow> string"
  elapsed_ms :: nat
  git_sha :: string
  image_tag :: string

text \<open>The campaign of a batch, locked, and what the batch takes over from it.\<close>

definition campaign_terms :: "generation \<Rightarrow> batch_args \<Rightarrow> ('x, batch_args) voucher_txn" where
  "campaign_terms g args = (case req_campaign args of
     None \<Rightarrow> ret args
   | Some pk \<Rightarrow>
       if \<not> row_lock_free g then raiseE (EVoucherAdmin VoucherBatchBusyError)
       else
         bindE (locked_campaign pk (req_campaign_updated args)) (\<lambda>locked.
         if \<not> advisory_lock_free g then raiseE (EVoucherAdmin VoucherBatchBusyError)
         else if cmp_status locked = CRevoked
         then raiseE (invalid ''Cannot generate a batch for a revoked campaign'')
         else ret (args\<lparr>req_amount := cmp_amount locked, req_type := cmp_type locked, req_reward := cmp_reward locked,
             req_expires := (case req_expires args of None \<Rightarrow> cmp_expires locked | Some t \<Rightarrow> Some t)\<rparr>)))"

fun draw_codes :: "env \<Rightarrow> nat \<Rightarrow> (nat \<Rightarrow> nat \<Rightarrow> string) \<Rightarrow> ('x, string list) voucher_txn" where
  "draw_codes env 0 hex = ret []"
| "draw_codes env (Suc n) hex =
     bindE (generate_unique_code env CODE_COLLISION_RETRIES (hex 0)) (\<lambda>c.
     bindE (draw_codes env n (\<lambda>k. hex (Suc k))) (\<lambda>cs. ret (c # cs)))"

definition new_batch_voucher :: "batch_args \<Rightarrow> nat \<Rightarrow> rat \<Rightarrow> int \<Rightarrow> string \<Rightarrow> voucher" where
  "new_batch_voucher args batch amount now code =
     \<lparr>vch_code = code, vch_mode = UNIQUE, vch_type = req_type args, vch_reward = req_reward args,
      vch_amount = amount, vch_campaign = req_campaign args, vch_batch = Some batch,
      vch_status = (if req_activate args then VActive else VCreated), vch_expires = req_expires args,
      vch_reason = [], vch_issuer = AdminIssuer, vch_issued_by = actor_text (req_actor args), vch_revoked = None,
      vch_revoked_by = [], vch_created = now, vch_updated = now\<rparr>"

text \<open>\<^verbatim>\<open>bulk_create\<close> is one INSERT: all rows or an error.\<close>

definition bulk_create_vouchers :: "batch_args \<Rightarrow> nat \<Rightarrow> string list \<Rightarrow> ('x, unit) voucher_txn" where
  "bulk_create_vouchers args batch codes =
     bindE (liftE (numeric_20_6 (req_amount args))) (\<lambda>amount.
     if \<exists>c \<in> set codes. 64 < length c then raiseE (EPy DataError)
     else
       bindE (getsE (\<lambda>db. \<exists>r \<in> set (vouchers db). vch_code (snd r) \<in> set codes)) (\<lambda>taken.
       if amount \<le> 0 \<or> taken \<or> \<not> distinct codes then raiseE (EPy IntegrityError)
       else modifyE (\<lambda>db. db\<lparr>
         vouchers := vouchers db @
           zip [next_uuid db ..< next_uuid db + length codes]
             (map (new_batch_voucher args batch amount (clock db)) codes),
         next_uuid := next_uuid db + length codes\<rparr>)))"

definition create_batch :: "batch_args \<Rightarrow> ('x, nat \<times> voucher_batch) admin_txn" where
  "create_batch args =
     bindE uuid4 (\<lambda>pk.
     if int MAX_INTEGER < req_size args \<or> 64 < length (actor_text (req_actor args)) then raiseE (EPy DataError)
     else
       bindE (getsE clock) (\<lambda>now.
       let row = \<lparr>bat_campaign = req_campaign args, bat_size = req_size args,
           bat_status = (if req_activate args then BActive else BCreated), bat_issuer = AdminIssuer,
           bat_issued_by = actor_text (req_actor args), generated_at = None, generation_duration_ms = None,
           generated_by_version = [], bat_created = now, bat_updated = now\<rparr>
       in thenE (modifyE (\<lambda>db. db\<lparr>batches := AList.update pk row (batches db)\<rparr>)) (ret (pk, row))))"

definition generate_batch :: "env \<Rightarrow> generation \<Rightarrow> batch_args \<Rightarrow> ('x, nat) admin_txn" where
  "generate_batch env g args = atomic (
     thenE (liftE (preview_batch (req_size args) (req_amount args) (req_reward args) (req_expires args)))
    (bindE (campaign_terms g args) (\<lambda>terms.
     bindE (create_batch terms) (\<lambda>(pk, row).
     bindE (draw_codes env (nat (req_size terms)) (hex_draws g)) (\<lambda>codes.
     thenE (bulk_create_vouchers terms pk codes)
    (bindE (getsE clock) (\<lambda>now.
     thenE (if MAX_INTEGER < elapsed_ms g then raiseE (EPy DataError)
            else update_batch pk (row\<lparr>generated_at := Some now, generation_duration_ms := Some (int (elapsed_ms g)),
                   generated_by_version := release_version (git_sha g) (image_tag g)\<rparr>))
       (ret pk))))))))"

section \<open>Reachable states\<close>

declare split_paired_All [simp del] split_paired_Ex [simp del]

text \<open>
  A voucher that was redeemed or revoked, and a campaign or batch that was revoked, are final: no call changes
  the row. \<open>final_kept db t\<close> says so between two states, with the payments of final vouchers and campaigns;
  \<open>admin_ok\<close> is what the calls maintain.
\<close>

definition final_voucher :: "voucher \<Rightarrow> bool" where
  "final_voucher row \<longleftrightarrow> vch_status row = VRedeemed \<or> vch_status row = VRevoked"

definition codes_ok :: "'x voucher_db_scheme \<Rightarrow> bool" where
  "codes_ok db \<longleftrightarrow> distinct (map (\<lambda>r. vch_code (snd r)) (vouchers db)) \<and>
     (\<forall>v \<in> set (vouchers db). vch_code (snd v) \<noteq> []) \<and>
     (\<forall>c \<in> set (campaigns db). \<forall>d \<in> set (campaigns db). fst c \<noteq> fst d \<longrightarrow> cmp_code (snd c) \<noteq> None \<longrightarrow>
        cmp_code (snd c) \<noteq> cmp_code (snd d)) \<and>
     (\<forall>v \<in> set (vouchers db). \<forall>c \<in> set (campaigns db). cmp_code (snd c) \<noteq> Some (vch_code (snd v)))"

definition admin_ok :: "'x voucher_admin_db_scheme \<Rightarrow> bool" where
  "admin_ok db \<longleftrightarrow> voucher_base db \<and> codes_ok db \<and> (\<forall>b \<in> set (batches db). fst b < next_uuid db)"

definition final_kept :: "'x voucher_admin_db_scheme \<Rightarrow> 'x voucher_admin_db_scheme \<Rightarrow> bool" where
  "final_kept db t \<longleftrightarrow>
     (\<forall>v row. map_of (vouchers db) v = Some row \<and> final_voucher row \<longrightarrow>
        map_of (vouchers t) v = Some row \<and> voucher_uses v (redemptions t) = voucher_uses v (redemptions db)) \<and>
     (\<forall>c row. map_of (campaigns db) c = Some row \<and> cmp_status row = CRevoked \<longrightarrow>
        map_of (campaigns t) c = Some row \<and> campaign_uses c (redemptions t) = campaign_uses c (redemptions db)) \<and>
     (\<forall>b row. map_of (batches db) b = Some row \<and> bat_status row = BRevoked \<longrightarrow> map_of (batches t) b = Some row)"

definition admin_since :: "'x voucher_admin_db_scheme \<Rightarrow> 'x voucher_admin_db_scheme \<Rightarrow> bool" where
  "admin_since db t \<longleftrightarrow> admin_ok t \<and> final_kept db t"

lemma final_kept_refl [simp]: "final_kept db db"
  by (simp add: final_kept_def)

lemma final_kept_trans:
  assumes "final_kept db s" "final_kept s t"
  shows "final_kept db t"
proof -
  have "map_of (vouchers t) v = Some row \<and> voucher_uses v (redemptions t) = voucher_uses v (redemptions db)"
    if "map_of (vouchers db) v = Some row" "final_voucher row" for v row
    using assms that unfolding final_kept_def by metis
  moreover have "map_of (campaigns t) c = Some row \<and> campaign_uses c (redemptions t) = campaign_uses c (redemptions db)"
    if "map_of (campaigns db) c = Some row" "cmp_status row = CRevoked" for c row
    using assms that unfolding final_kept_def by metis
  moreover have "map_of (batches t) b = Some row" if "map_of (batches db) b = Some row" "bat_status row = BRevoked" for b row
    using assms that unfolding final_kept_def by metis
  ultimately show ?thesis by (simp add: final_kept_def)
qed

lemma admin_since_trans: "admin_since db s \<Longrightarrow> (admin_ok s \<Longrightarrow> admin_since s t) \<Longrightarrow> admin_since db t"
  using final_kept_trans by (auto simp: admin_since_def)

lemma admin_since_refl: "admin_ok db \<Longrightarrow> admin_since db db"
  by (simp add: admin_since_def)

lemma map_filter_codes:
  assumes "distinct (map fst rows)" "set rows \<subseteq> cs"
    and "\<And>c d. c \<in> cs \<Longrightarrow> d \<in> cs \<Longrightarrow> fst c \<noteq> fst d \<Longrightarrow> cmp_code (snd c) \<noteq> None \<Longrightarrow> cmp_code (snd c) \<noteq> cmp_code (snd d)"
  shows "distinct (List.map_filter (cmp_code \<circ> snd) rows)"
  using assms(1,2)
proof (induction rows)
  case (Cons r rows)
  show ?case
  proof (cases "cmp_code (snd r)")
    case (Some c)
    have "cmp_code (snd d) \<noteq> Some c" if "d \<in> set rows" for d
    proof -
      have "fst r \<noteq> fst d" using Cons.prems(1) that by auto
      then show ?thesis using assms(3) [of r d] Cons.prems(2) that Some by auto
    qed
    then have "c \<notin> set (List.map_filter (cmp_code \<circ> snd) rows)" by (force simp: List.map_filter_def)
    with Cons Some show ?thesis by (simp add: List.map_filter_simps comp_def)
  qed (use Cons in \<open>simp add: List.map_filter_simps\<close>)
qed (simp add: List.map_filter_simps)

text \<open>A step that leaves redemptions and batches alone.\<close>

lemma admin_sinceI:
  assumes "admin_ok db" "voucher_base t" "codes_ok t"
    and "redemptions t = redemptions db" "batches t = batches db" "next_uuid db \<le> next_uuid t"
    and "\<And>v row. map_of (vouchers db) v = Some row \<Longrightarrow> final_voucher row \<Longrightarrow> map_of (vouchers t) v = Some row"
    and "\<And>c row. map_of (campaigns db) c = Some row \<Longrightarrow> cmp_status row = CRevoked \<Longrightarrow> map_of (campaigns t) c = Some row"
  shows "admin_since db t"
  using assms unfolding admin_since_def admin_ok_def final_kept_def
  by (simp only:) (meson order_less_le_trans)

lemma codes_ok_distinct:
  assumes ok: "codes_ok db" and keys: "distinct (map fst (campaigns db))"
  shows "distinct (codes_of db)"
proof -
  have "distinct (List.map_filter (cmp_code \<circ> snd) (campaigns db))"
    by (rule map_filter_codes [OF keys, of "set (campaigns db)"]) (use ok in \<open>auto simp only: codes_ok_def\<close>)
  moreover have "set (map (vch_code \<circ> snd) (vouchers db)) \<inter> set (List.map_filter (cmp_code \<circ> snd) (campaigns db)) = {}"
    using ok by (force simp: codes_ok_def List.map_filter_def)
  ultimately show ?thesis using ok by (simp add: codes_of_def codes_ok_def comp_def)
qed

subsection \<open>Table updates\<close>

lemma AList_update_map:
  assumes "map_of t k = Some r0" "distinct (map fst t)"
  shows "AList.update k r t = map (\<lambda>p. if fst p = k then (k, r) else p) t"
  using assms
proof (induction t)
  case (Cons p t)
  show ?case
  proof (cases "fst p = k")
    case True
    with Cons.prems(2) have "map (\<lambda>p. if fst p = k then (k, r) else p) t = t"
      by (intro map_idI) (metis distinct.simps(2) imageI list.set_map list.simps(9))
    with True show ?thesis by (cases p) simp
  qed (use Cons in \<open>cases p; auto\<close>)
qed simp

lemma map_of_map_row:
  assumes "\<And>p. p \<in> set t \<Longrightarrow> fst (f p) = fst p" "map_of t k = Some r"
  shows "map_of (map f t) k = Some (snd (f (k, r)))"
proof -
  have "map_of (map f t) k = map_option (\<lambda>r. snd (f (k, r))) (map_of t k)" if "\<And>p. p \<in> set t \<Longrightarrow> fst (f p) = fst p"
    using that
  proof (induction t)
    case (Cons p t)
    obtain j r where p: "p = (j, r)" by fastforce
    have "f p = (j, snd (f p))" using Cons.prems [of p] p by (metis fst_conv list.set_intros(1) prod.collapse)
    then have "map_of (map f (p # t)) k = (if j = k then Some (snd (f p)) else map_of (map f t) k)"
      by (metis list.simps(9) map_of_Cons_code(2))
    also have "map_of (map f t) k = map_option (\<lambda>r. snd (f (k, r))) (map_of t k)" using Cons by simp
    finally show ?case using p by simp
  qed simp
  with assms show ?thesis by simp
qed

lemma redemption_ok_later:
  "redemption_ok db r \<Longrightarrow> ledger t = ledger db \<Longrightarrow> next_uuid db \<le> next_uuid t \<Longrightarrow> redemption_ok t r"
  unfolding redemption_ok_def by (simp only:) (meson order_less_le_trans)

lemma tag_fresh_later: "tag_fresh tag db \<Longrightarrow> ledger t = ledger db \<Longrightarrow> next_uuid db \<le> next_uuid t \<Longrightarrow> tag_fresh tag t"
  unfolding tag_fresh_def by (simp only:) (meson order_less_le_trans)

text \<open>A state that differs in vouchers, campaigns and the key counter.\<close>

lemma voucher_baseI:
  assumes ok: "voucher_base db" and same: "ledger t = ledger db" "redemptions t = redemptions db" "next_uuid db \<le> next_uuid t"
    and keys: "distinct (map fst (vouchers t))" "distinct (map fst (campaigns t))"
    and v: "\<And>v. v \<in> set (vouchers t) \<Longrightarrow> fst v < next_uuid t \<and> voucher_row_ok (redemptions db) v"
    and c: "\<And>c. c \<in> set (campaigns t) \<Longrightarrow> fst c < next_uuid t"
  shows "voucher_base t"
  unfolding voucher_base_def
  using keys v c voucher_baseD(3) [OF ok] redemption_ok_later [OF voucher_baseD(7) [OF ok] same(1,3)]
    tag_fresh_later [OF voucher_baseD(4) [OF ok] same(1,3)]
  by (simp add: same(2))

lemma admin_vouchers_map:
  assumes ok: "admin_ok db"
    and f: "\<And>p. p \<in> set (vouchers db) \<Longrightarrow> fst (f p) = fst p \<and> vch_code (snd (f p)) = vch_code (snd p) \<and>
      (final_voucher (snd p) \<longrightarrow> f p = p)"
  shows "admin_since db (db\<lparr>vouchers := map f (vouchers db)\<rparr>)"
proof -
  have base: "voucher_base db" using ok by (simp add: admin_ok_def)
  have keys: "map fst (map f (vouchers db)) = map fst (vouchers db)"
    "map (\<lambda>r. vch_code (snd r)) (map f (vouchers db)) = map (\<lambda>r. vch_code (snd r)) (vouchers db)"
    using f by auto
  have "voucher_row_ok (redemptions db) (f p)" if p: "p \<in> set (vouchers db)" for p
  proof (cases "final_voucher (snd p)")
    case False
    then have "voucher_uses (fst p) (redemptions db) = 0"
      using ok p by (auto simp: admin_ok_def voucher_base_def voucher_row_ok_def final_voucher_def)
    then show ?thesis using f [OF p] by (simp add: voucher_row_ok_def)
  qed (use ok p f in \<open>auto simp: admin_ok_def voucher_base_def\<close>)
  then have "voucher_base (db\<lparr>vouchers := map f (vouchers db)\<rparr>)"
    using keys f voucher_baseD [OF base] by (intro voucher_baseI [OF base]) (auto simp del: map_map)
  moreover have "codes_ok (db\<lparr>vouchers := map f (vouchers db)\<rparr>)"
    using ok keys f unfolding admin_ok_def codes_ok_def by (simp del: map_map)
  moreover have "map_of (map f (vouchers db)) v = Some row" if "map_of (vouchers db) v = Some row" "final_voucher row" for v row
    using map_of_map_row [of "vouchers db" f v row] f [of "(v, row)"] f that map_of_SomeD [OF that(1)] by simp
  ultimately show ?thesis using ok by (intro admin_sinceI [of db]) simp_all
qed

lemma admin_voucher_update:
  assumes ok: "admin_ok db" and row: "map_of (vouchers db) pk = Some row" "\<not> final_voucher row"
    and new: "vch_code row' = vch_code row"
  shows "admin_since db (db\<lparr>vouchers := AList.update pk row' (vouchers db)\<rparr>)"
proof -
  have keys: "distinct (map fst (vouchers db))" using ok by (simp add: admin_ok_def voucher_base_def)
  have "p = (pk, row)" if "p \<in> set (vouchers db)" "fst p = pk" for p
    using that row(1) keys by (metis map_of_is_SomeI option.inject prod.collapse)
  then show ?thesis
    unfolding AList_update_map [OF row(1) keys] using row(2) new by (intro admin_vouchers_map [OF ok]) auto
qed

text \<open>One campaign row is written: the other rows are old.\<close>

lemma codes_ok_campaign:
  assumes c: "codes_ok db" and rows: "\<And>x. x \<in> set rows \<Longrightarrow> x = (pk, row) \<or> x \<in> set (campaigns db) \<and> fst x \<noteq> pk"
    and code: "\<And>z. cmp_code row = Some z \<Longrightarrow>
      (\<forall>d \<in> set (campaigns db). fst d \<noteq> pk \<longrightarrow> cmp_code (snd d) \<noteq> Some z) \<and> (\<forall>v \<in> set (vouchers db). vch_code (snd v) \<noteq> z)"
  shows "codes_ok (db\<lparr>campaigns := rows\<rparr>)"
proof -
  have "cmp_code (snd x) \<noteq> cmp_code (snd y)"
    if xy: "x \<in> set rows" "y \<in> set rows" "fst x \<noteq> fst y" "cmp_code (snd x) \<noteq> None" for x y
  proof -
    from xy(4) obtain z where z: "cmp_code (snd x) = Some z" by blast
    from rows [OF xy(1)] rows [OF xy(2)] xy(3) consider "x \<in> set (campaigns db)" "y \<in> set (campaigns db)"
      | "x = (pk, row)" "y \<in> set (campaigns db)" "fst y \<noteq> pk" | "y = (pk, row)" "x \<in> set (campaigns db)" "fst x \<noteq> pk" by auto
    then show ?thesis
    proof cases
      case 1
      then show ?thesis using c xy(3,4) unfolding codes_ok_def by blast
    qed (use z code [of z] in auto)
  qed
  moreover have "cmp_code (snd x) \<noteq> Some (vch_code (snd v))" if "x \<in> set rows" "v \<in> set (vouchers db)" for x v
  proof (cases "x = (pk, row)")
    case True
    then show ?thesis using code [of "vch_code (snd v)"] that(2) by auto
  next
    case False
    then show ?thesis using rows [OF that(1)] that(2) c unfolding codes_ok_def by blast
  qed
  ultimately show ?thesis using c by (simp add: codes_ok_def)
qed

lemma admin_campaign_update:
  assumes ok: "admin_ok db" and row: "map_of (campaigns db) pk = Some row" "cmp_status row \<noteq> CRevoked"
    and code: "\<And>c. cmp_code row' = Some c \<Longrightarrow>
      (\<forall>d \<in> set (campaigns db). fst d \<noteq> pk \<longrightarrow> cmp_code (snd d) \<noteq> Some c) \<and> (\<forall>v \<in> set (vouchers db). vch_code (snd v) \<noteq> c)"
  shows "admin_since db (db\<lparr>campaigns := AList.update pk row' (campaigns db)\<rparr>)"
proof -
  have base: "voucher_base db" using ok by (simp add: admin_ok_def)
  have keys: "distinct (map fst (campaigns db))" by (rule voucher_baseD [OF base])
  have "voucher_base (db\<lparr>campaigns := AList.update pk row' (campaigns db)\<rparr>)"
    using keys_AList_update_old [OF row(1), of row'] voucher_baseD(6) [OF base map_of_SomeD [OF row(1)]] voucher_baseD [OF base]
    by (intro voucher_baseI [OF base]) (auto simp: set_AList_update [OF keys])
  moreover have "codes_ok (db\<lparr>campaigns := AList.update pk row' (campaigns db)\<rparr>)"
    using ok code by (intro codes_ok_campaign [of db _ pk row']) (auto simp: admin_ok_def set_AList_update [OF keys])
  ultimately show ?thesis using row by (intro admin_sinceI [OF ok]) (auto split: if_splits)
qed

lemma admin_next: "admin_ok db \<Longrightarrow> admin_since db (db\<lparr>next_uuid := Suc (next_uuid db)\<rparr>)"
proof -
  assume ok: "admin_ok db"
  have base: "voucher_base db" using ok by (simp add: admin_ok_def)
  have "voucher_base (db\<lparr>next_uuid := Suc (next_uuid db)\<rparr>)"
    using voucher_baseD [OF base] by (intro voucher_baseI [OF base]) (simp_all add: less_Suc_eq)
  moreover have "codes_ok (db\<lparr>next_uuid := Suc (next_uuid db)\<rparr>)" using ok by (simp add: admin_ok_def codes_ok_def)
  ultimately show ?thesis by (intro admin_sinceI [OF ok]) simp_all
qed

lemma admin_clock: "admin_ok db \<Longrightarrow> admin_since db (db\<lparr>clock := now\<rparr>)"
proof -
  assume ok: "admin_ok db"
  have base: "voucher_base db" using ok by (simp add: admin_ok_def)
  have "voucher_base (db\<lparr>clock := now\<rparr>)"
    using voucher_baseD [OF base] by (intro voucher_baseI [OF base]) simp_all
  moreover have "codes_ok (db\<lparr>clock := now\<rparr>)" using ok by (simp add: admin_ok_def codes_ok_def)
  ultimately show ?thesis by (intro admin_sinceI [OF ok]) simp_all
qed

lemma map_of_append_old: "map_of t k = Some r \<Longrightarrow> map_of (t @ rows) k = Some r"
  by (simp add: map_add_Some_iff)

lemma admin_campaign_add:
  assumes ok: "admin_ok db"
    and code: "\<And>c. cmp_code row = Some c \<Longrightarrow>
      (\<forall>d \<in> set (campaigns db). cmp_code (snd d) \<noteq> Some c) \<and> (\<forall>v \<in> set (vouchers db). vch_code (snd v) \<noteq> c)"
  shows "admin_since db (db\<lparr>next_uuid := Suc (next_uuid db), campaigns := campaigns db @ [(next_uuid db, row)]\<rparr>)"
proof -
  let ?t = "db\<lparr>next_uuid := Suc (next_uuid db), campaigns := campaigns db @ [(next_uuid db, row)]\<rparr>"
  have base: "voucher_base db" and c: "codes_ok db" using ok by (simp_all add: admin_ok_def)
  have fresh: "next_uuid db \<notin> fst ` set (campaigns db)" using voucher_baseD(6) [OF base] by force
  have "voucher_base ?t"
    using fresh voucher_baseD [OF base] by (intro voucher_baseI [OF base]) (auto simp: less_Suc_eq)
  moreover have "codes_ok (db\<lparr>campaigns := campaigns db @ [(next_uuid db, row)]\<rparr>)"
    using code fresh by (intro codes_ok_campaign [OF c, of _ "next_uuid db" row]) (force simp: image_iff)+
  then have "codes_ok ?t" by (simp add: codes_ok_def)
  ultimately show ?thesis by (intro admin_sinceI [OF ok]) (auto intro: map_of_append_old)
qed

text \<open>New vouchers with fresh keys and codes.\<close>

lemma admin_vouchers_add:
  assumes ok: "admin_ok db" and n: "n = next_uuid db + length rows"
    and keys: "map fst rows = [next_uuid db ..< n]"
    and codes: "distinct (map (\<lambda>r. vch_code (snd r)) rows)"
      "\<And>r. r \<in> set rows \<Longrightarrow> vch_code (snd r) \<notin> set (codes_of db) \<and> vch_code (snd r) \<noteq> []"
  shows "admin_since db (db\<lparr>vouchers := vouchers db @ rows, next_uuid := n\<rparr>)"
proof -
  let ?t = "db\<lparr>vouchers := vouchers db @ rows, next_uuid := n\<rparr>"
  have base: "voucher_base db" and c: "codes_ok db" using ok by (simp_all add: admin_ok_def)
  have new: "next_uuid db \<le> fst r \<and> fst r < n" if "r \<in> set rows" for r
  proof -
    have "fst r \<in> set (map fst rows)" using that by simp
    then show ?thesis unfolding keys by simp
  qed
  have le: "next_uuid db \<le> n" by (simp add: n)
  have disj: "set (map fst (vouchers db)) \<inter> set (map fst rows) = {}"
    using voucher_baseD(5) [OF base] by (force simp: keys)
  have fresh: "voucher_row_ok (redemptions db) r" if "r \<in> set rows" for r
  proof -
    have "red_voucher (snd x) \<noteq> Some (fst r)" if "x \<in> set (redemptions db)" for x
      using voucher_baseD(7) [OF base that] new [OF \<open>r \<in> set rows\<close>] by (auto simp: redemption_ok_def)
    then show ?thesis by (simp add: voucher_row_ok_def voucher_uses_def filter_empty_conv)
  qed
  have "voucher_base ?t"
  proof (rule voucher_baseI [OF base])
    show "distinct (map fst (vouchers ?t))" using voucher_baseD(1) [OF base] keys disj by simp
    show "fst v < next_uuid ?t \<and> voucher_row_ok (redemptions db) v" if "v \<in> set (vouchers ?t)" for v
      using that new [of v] fresh [of v] voucher_baseD(5,8) [OF base, of v] le by auto
    show "fst v < next_uuid ?t" if "v \<in> set (campaigns ?t)" for v
      using that voucher_baseD(6) [OF base, of v] le by simp
  qed (use le voucher_baseD [OF base] in simp_all)
  moreover have "codes_ok ?t"
  proof -
    have "vch_code (snd r) \<noteq> [] \<and> vch_code (snd r) \<notin> (\<lambda>r. vch_code (snd r)) ` set (vouchers db) \<and>
        (\<forall>d \<in> set (campaigns db). cmp_code (snd d) \<noteq> Some (vch_code (snd r)))" if "r \<in> set rows" for r
      using codes(2) [OF that] by (auto simp: mem_codes_of)
    moreover have "set (map (\<lambda>r. vch_code (snd r)) (vouchers db)) \<inter> set (map (\<lambda>r. vch_code (snd r)) rows) = {}"
      using calculation by (simp add: disjoint_iff) blast
    ultimately show ?thesis using c codes(1) by (auto simp: codes_ok_def)
  qed
  ultimately show ?thesis using le by (intro admin_sinceI [OF ok]) (auto intro: map_of_append_old)
qed

subsection \<open>Every call\<close>

lemma keeps_admin_atomic:
  assumes "\<And>s x t. admin_ok s \<Longrightarrow> m s = (Inr x, t) \<Longrightarrow> admin_since s t"
  shows "keeps (admin_since db) (atomic m)"
  by (rule keeps_atomic_ok) (metis admin_since_def admin_since_trans assms)

lemma assert_updated_run: "assert_updated_at current expected s = (Inr u, t) \<longleftrightarrow>
  t = s \<and> (case expected of None \<Rightarrow> True | Some x \<Rightarrow> \<bar>current - x\<bar> \<le> 1000)"
  by (auto simp: assert_updated_at_def txn_ok split: option.splits)

lemma locked_campaign_run: "locked_campaign pk expected s = (Inr row, t) \<longleftrightarrow>
  t = s \<and> map_of (campaigns s) pk = Some row \<and> (case expected of None \<Rightarrow> True | Some x \<Rightarrow> \<bar>cmp_updated row - x\<bar> \<le> 1000)"
  by (auto simp: locked_campaign_def assert_updated_run txn_ok)

lemma update_campaign_run: "update_campaign pk row s = (Inr r, t) \<longleftrightarrow> length (cmp_revoked_by row) \<le> 64 \<and>
  r = row\<lparr>cmp_updated := clock s\<rparr> \<and> t = s\<lparr>campaigns := AList.update pk r (campaigns s)\<rparr>"
  by (auto simp: update_campaign_def txn_ok)

lemma apply_revokes_run: "apply_voucher_revokes qs reason actor now s = (Inr n, t) \<Longrightarrow>
  n = length (filter (\<lambda>r. qs r \<and> revocable r) (vouchers s)) \<and>
  t = s\<lparr>vouchers := map (\<lambda>r. if qs r \<and> revocable r then (fst r, revoked_row reason actor now (snd r)) else r) (vouchers s)\<rparr>"
  by (auto simp: apply_voucher_revokes_def txn_ok)

lemma save_campaign_row_run: "save_campaign_row pk row s = (Inr r, t) \<Longrightarrow>
  r = row\<lparr>cmp_amount := cmp_amount r, cmp_updated := clock s\<rparr> \<and> cmp_code r = cmp_code row \<and> numeric_20_6 (cmp_amount row) = Inr (cmp_amount r) \<and>
  0 < cmp_amount r \<and> t = s\<lparr>campaigns := AList.update pk r (campaigns s)\<rparr> \<and>
  (\<forall>c. cmp_code row = Some c \<longrightarrow> (\<forall>d \<in> set (campaigns s). fst d \<noteq> pk \<longrightarrow> cmp_code (snd d) \<noteq> Some c))"
  by (auto simp: save_campaign_row_def txn_ok Let_def)

lemma save_campaign_row_error: "save_campaign_row pk row s = (Inl e, t) \<Longrightarrow> t = s"
  by (auto simp: save_campaign_row_def txn_iff Let_def split: if_splits)

lemma admin_campaign_changed:
  assumes "admin_ok s" "map_of (campaigns s) pk = Some row" "cmp_status row \<noteq> CRevoked" "cmp_code row' = cmp_code row"
  shows "admin_since s (s\<lparr>campaigns := AList.update pk row' (campaigns s)\<rparr>)"
proof -
  have keys: "distinct (map fst (campaigns s))" and c: "codes_ok s" using assms(1) by (simp_all add: admin_ok_def voucher_base_def)
  show ?thesis
    using assms map_of_SomeD [OF assms(2)] c by (intro admin_campaign_update) (force simp: codes_ok_def)+
qed

lemma revoke_map_ok: "admin_ok s \<Longrightarrow> admin_since s (s\<lparr>vouchers :=
    map (\<lambda>r. if qs r \<and> revocable r then (fst r, revoked_row reason actor now (snd r)) else r) (vouchers s)\<rparr>)"
  by (rule admin_vouchers_map) (auto simp: revoked_row_def revocable_def REVOCABLE_def final_voucher_def)

lemma assert_code_run: "assert_code_available env code ev ec s = (r, t) \<Longrightarrow>
  t = s \<and> (\<forall>e. r = Inl e \<longrightarrow> e = EPy ValueError) \<and>
  (\<forall>n. r = Inr n \<longrightarrow> n = normalize_voucher_code env code \<and> n \<noteq> [] \<and> \<not> is_reserved_voucher_code env n \<and>
    (\<forall>v \<in> set (vouchers s). ev \<noteq> Some (fst v) \<longrightarrow> vch_code (snd v) \<noteq> n) \<and>
    (\<forall>c \<in> set (campaigns s). ec \<noteq> Some (fst c) \<longrightarrow> cmp_code (snd c) \<noteq> Some n))"
  by (auto simp: assert_code_available_def txn_iff Let_def split: if_splits)

lemma normalized_field_run: "normalized_field env pk field s = (Inr f, t) \<Longrightarrow> codes_ok s \<Longrightarrow>
  t = s \<and> (\<forall>c. f = FCode (Some c) \<longrightarrow> (\<forall>v \<in> set (vouchers s). vch_code (snd v) \<noteq> c))"
  by (auto simp: normalized_field_def txn_ok codes_ok_def dest!: assert_code_run split: campaign_field.splits option.splits if_splits)

lemma set_field_code: "cmp_code (set_campaign_field f row) = cmp_code row \<or> f = FCode (cmp_code (set_campaign_field f row))"
  by (cases f) auto

lemma set_campaign_fields_run:
  assumes "set_campaign_fields env pk changes row s = (Inr row', t)" "codes_ok s"
    and "\<And>c v. cmp_code row = Some c \<Longrightarrow> v \<in> set (vouchers s) \<Longrightarrow> vch_code (snd v) \<noteq> c"
  shows "t = s \<and> (\<forall>c. cmp_code row' = Some c \<longrightarrow> (\<forall>v \<in> set (vouchers s). vch_code (snd v) \<noteq> c))"
  using assms
proof (induction changes arbitrary: row)
  case (Cons field rest)
  then obtain f u where f: "normalized_field env pk field s = (Inr f, u)"
    and r: "set_campaign_fields env pk rest (set_campaign_field f row) u = (Inr row', t)" by (auto simp: txn_ok)
  note n = normalized_field_run [OF f Cons.prems(2)]
  have "vch_code (snd v) \<noteq> c" if "cmp_code (set_campaign_field f row) = Some c" "v \<in> set (vouchers s)" for c v
    using set_field_code [of f row] n that Cons.prems(3) [of c v] by auto
  then show ?case using Cons.IH [OF _ Cons.prems(2)] r n by simp
qed (simp add: txn_ok)

lemma keeps_admin_save [keeps_intros]: "keeps (admin_since db) (save_campaign env pk expected changes)"
  unfolding save_campaign_def
proof (rule keeps_admin_atomic)
  fix s x t
  assume ok: "admin_ok s" and run: "bindE (locked_campaign pk expected) (\<lambda>locked.
     if cmp_status locked = CRevoked then raiseE (invalid ''Cannot edit a revoked campaign'')
     else bindE (set_campaign_fields env pk changes locked) (\<lambda>row. save_campaign_row pk row)) s = (Inr x, t)"
  from run obtain locked row u where l: "map_of (campaigns s) pk = Some locked" "cmp_status locked \<noteq> CRevoked"
    and f: "set_campaign_fields env pk changes locked s = (Inr row, u)" and sv: "save_campaign_row pk row u = (Inr x, t)"
    by (auto simp: txn_ok locked_campaign_run)
  have c: "codes_ok s" using ok by (simp add: admin_ok_def)
  have "vch_code (snd v) \<noteq> z" if "cmp_code locked = Some z" "v \<in> set (vouchers s)" for z v
    using c map_of_SomeD [OF l(1)] that by (force simp: codes_ok_def)
  note fields = set_campaign_fields_run [OF f c this]
  note saved = save_campaign_row_run [OF sv]
  have t: "t = s\<lparr>campaigns := AList.update pk x (campaigns s)\<rparr>" using saved fields by simp
  show "admin_since s t" unfolding t
  proof (rule admin_campaign_update [OF ok l])
    fix z assume "cmp_code x = Some z"
    then show "(\<forall>d \<in> set (campaigns s). fst d \<noteq> pk \<longrightarrow> cmp_code (snd d) \<noteq> Some z) \<and> (\<forall>v \<in> set (vouchers s). vch_code (snd v) \<noteq> z)"
      using saved fields by simp
  qed
qed

lemma keeps_admin_activate [keeps_intros]: "keeps (admin_since db) (activate_campaign pk expected)"
  unfolding activate_campaign_def
  by (rule keeps_admin_atomic) (auto simp: txn_ok locked_campaign_run update_campaign_run intro!: admin_campaign_changed)

lemma keeps_admin_activate_all [keeps_intros]: "keeps (admin_since db) (activate_campaigns loaded)"
  by (induction loaded) (auto intro!: keeps_intros)

lemma keeps_admin_extend_campaign [keeps_intros]: "keeps (admin_since db) (extend_campaign_expiry pk expires expected)"
  unfolding extend_campaign_expiry_def
  by (rule keeps_admin_atomic) (auto simp: txn_ok locked_campaign_run update_campaign_run intro!: admin_campaign_changed)

lemma keeps_admin_extend_voucher [keeps_intros]: "keeps (admin_since db) (extend_voucher_expiry pk expires expected)"
  unfolding extend_voucher_expiry_def
  by (rule keeps_admin_atomic)
    (auto simp: txn_ok update_voucher_def assert_updated_run final_voucher_def intro!: admin_voucher_update)

lemma keeps_admin_revoke_vouchers [keeps_intros]: "keeps (admin_since db) (revoke_vouchers ids reason actor)"
  unfolding revoke_vouchers_def
  by (rule keeps_admin_atomic)
    (auto simp: txn_ok require_revoke_reason_def dest!: apply_revokes_run intro!: revoke_map_ok)

lemma keeps_admin_revoke_campaign [keeps_intros]: "keeps (admin_since db) (revoke_campaign pk reason actor expected)"
  unfolding revoke_campaign_def
proof (rule keeps_admin_atomic, goal_cases)
  case (1 s x t)
  then obtain locked u n where l: "map_of (campaigns s) pk = Some locked" "cmp_status locked \<noteq> CRevoked"
    and a: "apply_voucher_revokes (of_campaign pk) reason (actor_text actor) (clock s) s = (Inr n, u)"
    and t: "t = u\<lparr>campaigns := AList.update pk (locked\<lparr>cmp_status := CRevoked, cmp_reason := reason, cmp_revoked := Some (clock s),
           cmp_revoked_by := actor_text actor, cmp_updated := clock u\<rparr>) (campaigns u)\<rparr>"
    by (auto simp: txn_ok require_revoke_reason_def locked_campaign_run update_campaign_run preview_revoke_campaign_def)
  have u: "admin_since s u" "campaigns u = campaigns s"
    using apply_revokes_run [OF a] revoke_map_ok [OF 1(1)] by auto
  show ?case
    unfolding t using u l by (intro admin_since_trans [OF u(1)] admin_campaign_changed) simp_all
qed

lemma admin_batch_update:
  assumes "admin_ok s" "map_of (batches s) pk = Some row" "bat_status row \<noteq> BRevoked"
  shows "admin_since s (s\<lparr>batches := AList.update pk row' (batches s)\<rparr>)"
proof -
  have base: "voucher_base s" using assms(1) by (simp add: admin_ok_def)
  have "voucher_base (s\<lparr>batches := AList.update pk row' (batches s)\<rparr>)"
    using voucher_baseD [OF base] by (intro voucher_baseI [OF base]) simp_all
  moreover have "codes_ok (s\<lparr>batches := AList.update pk row' (batches s)\<rparr>)" using assms(1) by (simp add: admin_ok_def codes_ok_def)
  moreover have "fst b < next_uuid s" if "b \<in> set (AList.update pk row' (batches s))" for b
  proof -
    have "fst b \<in> set (map fst (AList.update pk row' (batches s)))" using that by simp
    then have "fst b \<in> set (map fst (batches s))" unfolding keys_AList_update_old [OF assms(2)] .
    then show ?thesis using assms(1) by (auto simp: admin_ok_def)
  qed
  moreover have "final_kept s (s\<lparr>batches := AList.update pk row' (batches s)\<rparr>)"
    using assms(2,3) unfolding final_kept_def by simp
  ultimately show ?thesis by (simp add: admin_since_def admin_ok_def)
qed

lemma keeps_admin_revoke_batch [keeps_intros]: "keeps (admin_since db) (revoke_batch pk reason actor expected)"
  unfolding revoke_batch_def
proof (rule keeps_admin_atomic, goal_cases)
  case (1 s x t)
  then obtain locked u n where l: "map_of (batches s) pk = Some locked" "bat_status locked \<noteq> BRevoked"
    and a: "apply_voucher_revokes (of_batch pk) reason (actor_text actor) (clock s) s = (Inr n, u)"
    and t: "t = u\<lparr>batches := AList.update pk (locked\<lparr>bat_status := BRevoked, bat_updated := clock u\<rparr>) (batches u)\<rparr>"
    by (auto simp: txn_ok require_revoke_reason_def update_batch_def preview_revoke_batch_def assert_updated_run)
  have u: "admin_since s u" "batches u = batches s"
    using apply_revokes_run [OF a] revoke_map_ok [OF 1(1)] by auto
  show ?case
    unfolding t using u l by (intro admin_since_trans [OF u(1)] admin_batch_update) simp_all
qed

lemma keeps_admin_create [keeps_intros]: "keeps (admin_since (db :: 'x voucher_admin_db_scheme)) (create_campaign env args actor)"
proof (rule keepsI)
  fix s t :: "'x voucher_admin_db_scheme" and r
  assume since: "admin_since db s" and run: "create_campaign env args actor s = (r, t)"
  then have ok: "admin_ok s" by (simp add: admin_since_def)
  let ?s = "s\<lparr>next_uuid := Suc (next_uuid s)\<rparr>"
  have next_ok: "admin_since s ?s" using ok by (rule admin_next)
  have fresh: "next_uuid s \<notin> fst ` set (campaigns s)" using ok by (force simp: admin_ok_def voucher_base_def)
  have "t = s \<or> t = ?s \<or> (\<exists>row. t = ?s\<lparr>campaigns := campaigns s @ [(next_uuid s, row)]\<rparr> \<and>
     (\<forall>z. cmp_code row = Some z \<longrightarrow> (\<forall>d \<in> set (campaigns s). cmp_code (snd d) \<noteq> Some z) \<and> (\<forall>v \<in> set (vouchers s). vch_code (snd v) \<noteq> z)))"
  proof (cases "arg_reward args \<noteq> FIXED_CREDIT \<or> arg_amount args \<le> 0")
    case False
    define code :: "('x voucher_admin_db_scheme, string option) txn" where "code = (case arg_code args of None \<Rightarrow> ret None
          | Some c \<Rightarrow> if c = [] then ret None else bindE (assert_code_available env c None None) (\<lambda>n. ret (Some n)))"
    obtain q u where q: "code s = (q, u)" by fastforce
    have u: "u = s" "\<And>z. q = Inr (Some z) \<Longrightarrow>
        (\<forall>d \<in> set (campaigns s). cmp_code (snd d) \<noteq> Some z) \<and> (\<forall>v \<in> set (vouchers s). vch_code (snd v) \<noteq> z)"
      using q by (auto simp: code_def txn_iff split: option.splits if_splits dest!: assert_code_run)
    show ?thesis
    proof (cases q)
      case (Inl e)
      then show ?thesis using run False q u(1) by (auto simp: create_campaign_def code_def [symmetric] bindE_def)
    next
      case (Inr c)
      define row where "row = \<lparr>cmp_code = c, cmp_mode = arg_mode args, cmp_type = arg_type args, cmp_reward = arg_reward args,
             cmp_amount = arg_amount args, max_total = arg_total args, max_per_account = arg_per_account args,
             starts_at = arg_starts args, cmp_expires = arg_expires args, cmp_status = arg_status args,
             cmp_reason = [], cmp_issuer = AdminIssuer, cmp_issued_by = actor_text actor, cmp_revoked = None,
             cmp_revoked_by = [], cmp_created = clock s, cmp_updated = clock s\<rparr>"
      obtain q' w where sv: "save_campaign_row (next_uuid s) row ?s = (q', w)" by fastforce
      have "t = w" using run False q u(1) Inr sv
        by (cases q') (auto simp: create_campaign_def code_def [symmetric] bindE_def thenE_def uuid4_def row_def ret_def getsE_def)
      then show ?thesis
      proof (cases q')
        case (Inr row')
        from save_campaign_row_run [OF sv [unfolded Inr]] have "w = ?s\<lparr>campaigns := campaigns s @ [(next_uuid s, row')]\<rparr>"
          "cmp_code row' = c" using AList_update_new [OF fresh] by (simp_all add: row_def)
        with u(2) \<open>q = Inr c\<close> \<open>t = w\<close> show ?thesis by auto
      qed (use sv \<open>t = w\<close> in \<open>auto dest: save_campaign_row_error\<close>)
    qed
  next
    case True
    then have "t = s" using run by (cases "arg_reward args \<noteq> FIXED_CREDIT") (simp_all add: create_campaign_def raiseE_def)
    then show ?thesis by simp
  qed
  then have "admin_since s t"
  proof (elim disjE exE conjE)
    fix row assume t: "t = ?s\<lparr>campaigns := campaigns s @ [(next_uuid s, row)]\<rparr>"
      and "\<forall>z. cmp_code row = Some z \<longrightarrow> (\<forall>d \<in> set (campaigns s). cmp_code (snd d) \<noteq> Some z) \<and> (\<forall>v \<in> set (vouchers s). vch_code (snd v) \<noteq> z)"
    then show ?thesis unfolding t using admin_campaign_add [OF ok, of row] by blast
  qed (use ok next_ok in \<open>simp_all add: admin_since_refl\<close>)
  then show "admin_since db t" using since admin_since_trans by blast
qed

subsection \<open>Batches\<close>

lemma generate_code_run: "generate_unique_code env n hex s = (Inr c, t) \<Longrightarrow>
  t = s \<and> (\<exists>k < n. c = normalize_voucher_code env (VOUCHER_CODE_PREFIX @ upper (hex k))) \<and>
  c \<noteq> [] \<and> \<not> is_reserved_voucher_code env c \<and> c \<notin> set (codes_of s)"
proof (induction n arbitrary: hex)
  case (Suc n)
  from Suc.prems obtain q u where a: "assert_code_available env (VOUCHER_CODE_PREFIX @ upper (hex 0)) None None s = (q, u)" by fastforce
  note a' = assert_code_run [OF a]
  show ?case
  proof (cases q)
    case (Inr c')
    with Suc.prems a have "c = c'" "t = u" by (simp_all add: catchE_def)
    with a' Inr show ?thesis by (auto simp: mem_codes_of intro!: exI [of _ 0])
  next
    case (Inl e)
    with Suc.prems a a' have "generate_unique_code env n (\<lambda>k. hex (Suc k)) s = (Inr c, t)" by (simp add: catchE_def)
    from Suc.IH [OF this] show ?thesis by auto
  qed
qed (simp add: raiseE_def)

lemma generate_code_error: "generate_unique_code env n hex s = (Inl e, t) \<Longrightarrow> t = s"
  by (induction n arbitrary: hex) (auto simp: catchE_iff raiseE_def split: if_splits dest!: assert_code_run)

definition drawn_code :: "env \<Rightarrow> (nat \<Rightarrow> string) \<Rightarrow> string \<Rightarrow> bool" where
  "drawn_code env hex c \<longleftrightarrow> (\<exists>k < CODE_COLLISION_RETRIES. c = normalize_voucher_code env (VOUCHER_CODE_PREFIX @ upper (hex k)))"

lemma draw_codes_run: "draw_codes env n hex s = (Inr cs, t) \<Longrightarrow>
  t = s \<and> length cs = n \<and> (\<forall>i < n. drawn_code env (hex i) (cs ! i)) \<and>
  (\<forall>c \<in> set cs. c \<noteq> [] \<and> \<not> is_reserved_voucher_code env c \<and> c \<notin> set (codes_of s))"
proof (induction n arbitrary: hex cs)
  case (Suc n)
  then obtain c u cs' where c: "generate_unique_code env CODE_COLLISION_RETRIES (hex 0) s = (Inr c, u)"
    and d: "draw_codes env n (\<lambda>k. hex (Suc k)) u = (Inr cs', t)" and cs: "cs = c # cs'" by (auto simp: txn_ok)
  note c' = generate_code_run [OF c]
  then have u: "u = s" by simp
  note IH = Suc.IH [OF d [unfolded u]]
  have "drawn_code env (hex i) (cs ! i)" if "i < Suc n" for i
    using that IH c' by (cases i) (auto simp: cs drawn_code_def)
  then show ?case using IH c' by (simp add: cs)
qed (simp add: txn_ok)

lemma bulk_create_run: "bulk_create_vouchers args batch codes s = (Inr u, t) \<Longrightarrow>
  \<exists>amount. numeric_20_6 (req_amount args) = Inr amount \<and> 0 < amount \<and> distinct codes \<and>
    t = s\<lparr>vouchers := vouchers s @ zip [next_uuid s ..< next_uuid s + length codes]
            (map (new_batch_voucher args batch amount (clock s)) codes),
          next_uuid := next_uuid s + length codes\<rparr>"
  by (auto simp: bulk_create_vouchers_def txn_ok)

lemma campaign_terms_run: "campaign_terms g args s = (Inr terms, t) \<Longrightarrow>
  t = s \<and> req_size terms = req_size args \<and> req_actor terms = req_actor args \<and> req_campaign terms = req_campaign args \<and>
  req_activate terms = req_activate args \<and>
  (case req_campaign args of None \<Rightarrow> terms = args
   | Some pk \<Rightarrow> \<exists>row. map_of (campaigns s) pk = Some row \<and> cmp_status row \<noteq> CRevoked \<and> req_amount terms = cmp_amount row \<and>
       req_type terms = cmp_type row \<and> req_reward terms = cmp_reward row \<and>
       req_expires terms = (case req_expires args of None \<Rightarrow> cmp_expires row | Some x \<Rightarrow> Some x))"
  by (auto simp: campaign_terms_def txn_ok locked_campaign_run split: option.splits)

text \<open>What a generated batch leaves in the two tables.\<close>

lemma generate_run:
  assumes run: "generate_batch env g args s = (Inr pk, t)" and ok: "admin_ok s"
  shows "\<exists>terms codes amount row. campaign_terms g args s = (Inr terms, s) \<and> pk = next_uuid s \<and>
    length codes = nat (req_size args) \<and> distinct codes \<and> numeric_20_6 (req_amount terms) = Inr amount \<and> 0 < amount \<and>
    (\<forall>i < length codes. drawn_code env (hex_draws g i) (codes ! i)) \<and>
    (\<forall>c \<in> set codes. c \<noteq> [] \<and> \<not> is_reserved_voucher_code env c \<and> c \<notin> set (codes_of s)) \<and>
    1 \<le> req_size args \<and> bat_size row = req_size args \<and> bat_campaign row = req_campaign args \<and> bat_status row \<noteq> BRevoked \<and>
    t = s\<lparr>next_uuid := Suc pk + length codes, batches := batches s @ [(pk, row)],
          vouchers := vouchers s @ zip [Suc pk ..< Suc pk + length codes]
            (map (new_batch_voucher terms pk amount (clock s)) codes)\<rparr>"
proof -
  from run obtain terms u p where size: "1 \<le> req_size args" and terms: "campaign_terms g args s = (Inr terms, u)"
    by (auto simp: generate_batch_def txn_ok preview_batch_def split: if_splits)
  note ct = campaign_terms_run [OF terms]
  let ?row = "\<lparr>bat_campaign = req_campaign args, bat_size = req_size args,
           bat_status = (if req_activate args then BActive else BCreated), bat_issuer = AdminIssuer,
           bat_issued_by = actor_text (req_actor args), generated_at = None, generation_duration_ms = None,
           generated_by_version = [], bat_created = clock s, bat_updated = clock s\<rparr>"
  let ?row' = "\<lambda>now. ?row\<lparr>generated_at := Some now, generation_duration_ms := Some (int (elapsed_ms g)),
           generated_by_version := release_version (git_sha g) (image_tag g), bat_updated := now\<rparr>"
  let ?s = "s\<lparr>next_uuid := Suc (next_uuid s), batches := AList.update (next_uuid s) ?row (batches s)\<rparr>"
  from run terms ct obtain codes v w x where pk: "pk = next_uuid s"
    and draws: "draw_codes env (nat (req_size args)) (hex_draws g) ?s = (Inr codes, v)"
    and bulk: "bulk_create_vouchers terms pk codes v = (Inr x, w)" and t: "t = w\<lparr>batches := AList.update pk (?row' (clock w)) (batches w)\<rparr>"
    by (auto simp: generate_batch_def create_batch_def txn_ok uuid4_def update_batch_def Let_def split: if_splits)
  note d = draw_codes_run [OF draws]
  then have v: "v = ?s" by simp
  from bulk_create_run [OF bulk] obtain amount where a: "numeric_20_6 (req_amount terms) = Inr amount" "0 < amount" "distinct codes"
    and w: "w = v\<lparr>vouchers := vouchers v @ zip [next_uuid v ..< next_uuid v + length codes]
            (map (new_batch_voucher terms pk amount (clock v)) codes), next_uuid := next_uuid v + length codes\<rparr>" by blast
  have fresh: "next_uuid s \<notin> fst ` set (batches s)" using ok by (force simp: admin_ok_def)
  have "codes_of ?s = codes_of s" by (simp add: codes_of_def)
  then show ?thesis
    using terms ct pk d a size w t v AList_update_new [OF fresh] AList_update_last [OF fresh]
    by (intro exI [of _ terms] exI [of _ codes] exI [of _ amount] exI [of _ "?row' (clock s)"]) simp
qed


lemma admin_batch_add:
  assumes "admin_ok s"
  shows "admin_since s (s\<lparr>next_uuid := Suc (next_uuid s), batches := batches s @ [(next_uuid s, row)]\<rparr>)"
proof -
  let ?t = "s\<lparr>next_uuid := Suc (next_uuid s), batches := batches s @ [(next_uuid s, row)]\<rparr>"
  have base: "voucher_base s" using assms by (simp add: admin_ok_def)
  have "voucher_base ?t" using voucher_baseD [OF base] by (intro voucher_baseI [OF base]) (simp_all add: less_Suc_eq)
  moreover have "codes_ok ?t" using assms by (simp add: admin_ok_def codes_ok_def)
  moreover have "\<forall>b \<in> set (batches ?t). fst b < next_uuid ?t" using assms by (simp add: admin_ok_def less_Suc_eq)
  moreover have "final_kept s ?t" unfolding final_kept_def by (simp add: map_of_append_old)
  ultimately show ?thesis by (simp add: admin_since_def admin_ok_def)
qed

lemma generated_since:
  assumes run: "generate_batch env g args s = (Inr pk, t)" and ok: "admin_ok s"
  shows "admin_since s t"
proof -
  from generate_run [OF run ok] obtain terms codes amount row where pk: "pk = next_uuid s" and codes: "distinct codes"
      "\<forall>c \<in> set codes. c \<noteq> [] \<and> \<not> is_reserved_voucher_code env c \<and> c \<notin> set (codes_of s)"
    and t: "t = s\<lparr>next_uuid := Suc pk + length codes, batches := batches s @ [(pk, row)],
          vouchers := vouchers s @ zip [Suc pk ..< Suc pk + length codes]
            (map (new_batch_voucher terms pk amount (clock s)) codes)\<rparr>" by blast
  let ?u = "s\<lparr>next_uuid := Suc (next_uuid s), batches := batches s @ [(next_uuid s, row)]\<rparr>"
  let ?rows = "zip [Suc pk ..< Suc pk + length codes] (map (new_batch_voucher terms pk amount (clock s)) codes)"
  have u: "admin_since s ?u" by (rule admin_batch_add [OF ok])
  have names: "map (\<lambda>r. vch_code (snd r)) ?rows = codes"
  proof -
    have "map (\<lambda>r. vch_code (snd r)) ?rows = map vch_code (map snd ?rows)" by simp
    also have "\<dots> = codes" unfolding map_snd_zip_take by (simp add: comp_def new_batch_voucher_def del: upt_Suc)
    finally show ?thesis .
  qed
  have "admin_since ?u (?u\<lparr>vouchers := vouchers ?u @ ?rows, next_uuid := Suc pk + length codes\<rparr>)"
  proof (rule admin_vouchers_add)
    show "admin_ok ?u" using u by (simp add: admin_since_def)
    show "map fst ?rows = [next_uuid ?u ..< Suc pk + length codes]" by (simp add: map_fst_zip_take pk del: upt_Suc)
    show "distinct (map (\<lambda>r. vch_code (snd r)) ?rows)" unfolding names by (rule codes)
    show "vch_code (snd r) \<notin> set (codes_of ?u) \<and> vch_code (snd r) \<noteq> []" if "r \<in> set ?rows" for r
    proof -
      have "vch_code (snd r) \<in> set (map (\<lambda>r. vch_code (snd r)) ?rows)" using that by simp
      then have "vch_code (snd r) \<in> set codes" unfolding names .
      moreover have "codes_of ?u = codes_of s" by (simp add: codes_of_def)
      ultimately show ?thesis using codes(2) by simp
    qed
  qed (simp add: pk del: upt_Suc)
  moreover have "t = ?u\<lparr>vouchers := vouchers ?u @ ?rows, next_uuid := Suc pk + length codes\<rparr>"
    by (simp add: t pk del: upt_Suc)
  ultimately show ?thesis using admin_since_trans [OF u] by metis
qed

lemma keeps_admin_generate [keeps_intros]: "keeps (admin_since (db :: 'x voucher_admin_db_scheme)) (generate_batch env g args)"
proof -
  have "\<exists>m. generate_batch env g args = atomic m" by (auto simp: generate_batch_def)
  then obtain m where m: "(generate_batch env g args :: ('x, nat) admin_txn) = atomic m" by blast
  show ?thesis
    unfolding m
  proof (rule keeps_admin_atomic)
    fix s x and t :: "'x voucher_admin_db_scheme"
    assume ok: "admin_ok s" and "m s = (Inr x, t)"
    then have "generate_batch env g args s = (Inr x, t)" by (simp add: m combinators_ok)
    then show "admin_since s t" using ok by (rule generated_since)
  qed
qed

subsection \<open>Redeeming\<close>

lemma keeps_batches_grant: "keeps (\<lambda>s. batches s = bs) (grant_redemption a amount v c rid ip ua now mark)"
proof -
  have "keeps (\<lambda>s. batches s = bs) (save_redemption pk r)" for pk r
    unfolding save_redemption_def by (intro keeps_intros) simp
  moreover have "keeps (\<lambda>s. batches s = bs) (save_voucher_status k st)" for k st
    unfolding save_voucher_status_def by (intro keeps_intros) simp
  moreover have "keeps (\<lambda>s. batches s = bs) (credit a' m rt rid key)" for a' m rt rid key
    by (rule keepsI) (auto dest: credit_frame)
  moreover have "keeps (\<lambda>s. batches s = bs) uuid4"
    by (simp add: keeps_def uuid4_def)
  ultimately show ?thesis
    unfolding grant_redemption_def Let_def by (intro keeps_intros)
qed

lemma granted_since:
  assumes ok: "admin_ok s" and run: "grant_redemption a amount v c rid ip ua now v s = (Inr (res, evs), t)"
    and v: "\<And>k. v = Some k \<Longrightarrow> \<exists>row. map_of (vouchers s) k = Some row \<and> \<not> final_voucher row"
    and c: "\<And>k. c = Some k \<Longrightarrow> \<exists>row. map_of (campaigns s) k = Some row \<and> cmp_status row \<noteq> CRevoked"
  shows "admin_since s t"
proof -
  have base: "voucher_base s" using ok by (simp add: admin_ok_def)
  have "voucher_uses k (redemptions s) = 0 \<and> k < next_uuid s" if "v = Some k" for k
  proof -
    from v [OF that] obtain row where "(k, row) \<in> set (vouchers s)" "\<not> final_voucher row" by (auto dest: map_of_SomeD)
    with voucher_baseD(5,8) [OF base this(1)] show ?thesis by (simp add: voucher_row_ok_def final_voucher_def)
  qed
  moreover have "k < next_uuid s" if "c = Some k" for k
    using c [OF that] voucher_baseD(6) [OF base] by (auto dest!: map_of_SomeD)
  ultimately have "voucher_base t \<and> campaigns t = campaigns s \<and> vouchers t = marked (clock s) v (vouchers s) \<and>
    next_uuid s \<le> next_uuid t \<and>
    (\<exists>e. redemptions t = redemptions s @ [(next_uuid s, (new_redemption a amount v c rid ip ua now)\<lparr>red_entry := e\<rparr>)])"
    by (intro grant_voucher_base [OF base run]) auto
  then obtain e where base': "voucher_base t" and cs: "campaigns t = campaigns s"
    and vs: "vouchers t = marked (clock s) v (vouchers s)" and n: "next_uuid s \<le> next_uuid t"
    and rs: "redemptions t = redemptions s @ [(next_uuid s, (new_redemption a amount v c rid ip ua now)\<lparr>red_entry := e\<rparr>)]"
    by blast
  have bs: "batches t = batches s" using keepsD [OF keeps_batches_grant _ run] by simp
  have "map (\<lambda>r. vch_code (snd r)) (vouchers t) = map (\<lambda>r. vch_code (snd r)) (vouchers s)"
    by (simp add: vs marked_def comp_def case_prod_unfold)
  moreover have "\<exists>w \<in> set (vouchers s). vch_code (snd w) = vch_code (snd x)" if x: "x \<in> set (vouchers t)" for x
  proof -
    from marked_in [OF x [unfolded vs]] obtain row where "(fst x, row) \<in> set (vouchers s)" "vch_code (snd x) = vch_code row" by auto
    then show ?thesis by (metis snd_conv)
  qed
  moreover have "codes_ok s" using ok by (simp add: admin_ok_def)
  ultimately have "codes_ok t" unfolding codes_ok_def cs by (simp only:) metis
  moreover have "\<forall>b \<in> set (batches t). fst b < next_uuid t" using ok n by (auto simp: admin_ok_def bs dest: order_less_le_trans)
  moreover have "final_kept s t"
  proof -
    have m: "map_of (marked now v rows) k =
        map_option (\<lambda>r. if Some k = v then r\<lparr>vch_status := VRedeemed, vch_updated := now\<rparr> else r) (map_of rows k)" for k rows now
      by (induction rows) (auto simp: marked_def)
    have "map_of (vouchers t) k = Some row \<and> voucher_uses k (redemptions t) = voucher_uses k (redemptions s)"
      if "map_of (vouchers s) k = Some row" "final_voucher row" for k row
      using that v [of k] by (auto simp: vs m voucher_uses_def rs new_redemption_def)
    moreover have "campaign_uses k (redemptions t) = campaign_uses k (redemptions s)"
      if "map_of (campaigns s) k = Some row" "cmp_status row = CRevoked" for k row
      using that c [of k] by (auto simp: campaign_uses_def rs new_redemption_def)
    ultimately show ?thesis by (simp add: final_kept_def cs bs)
  qed
  ultimately show ?thesis using base' by (simp add: admin_since_def admin_ok_def)
qed

lemma request_since: "admin_ok s \<Longrightarrow> admin_since s (request_db rq s)"
  by (simp add: request_db_def admin_next admin_since_refl)

lemma events_since: "admin_ok s \<Longrightarrow> admin_since s (s\<lparr>events := es\<rparr>)"
proof -
  assume ok: "admin_ok s"
  then have base: "voucher_base s" by (simp add: admin_ok_def)
  have "voucher_base (s\<lparr>events := es\<rparr>)" using voucher_baseD [OF base] by (intro voucher_baseI [OF base]) simp_all
  moreover have "codes_ok (s\<lparr>events := es\<rparr>)" using ok by (simp add: admin_ok_def codes_ok_def)
  ultimately show ?thesis by (intro admin_sinceI [OF ok]) simp_all
qed

lemma redeemed_since:
  assumes ok: "admin_ok s" and run: "redeem env a code rq ip ua s = (r, t)"
  shows "admin_since s t"
proof (cases r)
  case (Inl e)
  then show ?thesis using run redeem_Inl request_since [OF ok] by blast
next
  case (Inr res)
  let ?s = "request_db rq s"
  have ok': "admin_ok ?s" using request_since [OF ok] by (simp add: admin_since_def)
  then have base: "voucher_base ?s" by (simp add: admin_ok_def)
  from redeem_Inr [OF run [unfolded Inr]] obtain rid evs u where t: "t = u\<lparr>events := events u @ evs\<rparr>"
    and br: "(\<exists>v row. find_unique (normalize_voucher_code env code) (vouchers s) = Some (v, row) \<and>
        redeem_unique a (v, row) rid ip ua ?s = (Inr (res, evs), u)) \<or>
      (\<exists>c row. find_shared (normalize_voucher_code env code) (campaigns s) = Some (c, row) \<and>
        redeem_shared a (c, row) rid ip ua ?s = (Inr (res, evs), u))" by blast
  have "admin_since ?s u" using br
  proof (elim disjE exE conjE)
    fix v row assume f: "find_unique (normalize_voucher_code env code) (vouchers s) = Some (v, row)"
      and g: "redeem_unique a (v, row) rid ip ua ?s = (Inr (res, evs), u)"
    have "map_of (vouchers ?s) v = Some row" using find_unique_Some [OF f] voucher_baseD(1) [OF base] by simp
    then show ?thesis
      using redeem_unique_Inr [OF g] granted_since [OF ok', of a "vch_amount row" "Some v" None rid ip ua] ok'
      by (auto simp: admin_since_refl final_voucher_def)
  next
    fix c row assume f: "find_shared (normalize_voucher_code env code) (campaigns s) = Some (c, row)"
      and g: "redeem_shared a (c, row) rid ip ua ?s = (Inr (res, evs), u)"
    have "map_of (campaigns ?s) c = Some row" using find_shared_Some [OF f] voucher_baseD(2) [OF base] by simp
    then show ?thesis
      using redeem_shared_Inr [OF g] granted_since [OF ok', of a "cmp_amount row" None "Some c" rid ip ua] ok'
      by (auto simp: admin_since_refl)
  qed
  then have u: "admin_since s u" using admin_since_trans [OF request_since [OF ok]] by blast
  have "admin_ok u" using u by (simp add: admin_since_def)
  from admin_since_trans [OF u events_since [OF this]] show ?thesis by (simp add: t)
qed

section \<open>Runs\<close>

datatype admin_call =
  Create campaign_args "string option"
| SaveCampaign nat "int option" "campaign_field list"
| Activate nat "int option"
| ActivateAll "(nat \<times> campaign) list"
| RevokeCampaign nat string "string option" "int option"
| RevokeBatch nat string "string option" "int option"
| RevokeVouchers "nat list" string "string option"
| ExtendCampaign nat int "int option"
| ExtendVoucher nat int "int option"
| Generate generation batch_args
| Redeem nat string string string string

definition discard :: "('s, 'a) txn \<Rightarrow> ('s, unit) txn" where
  "discard m = thenE m (ret ())"

fun admin_perform :: "env \<Rightarrow> admin_call \<Rightarrow> ('x, unit) admin_txn" where
  "admin_perform env (Create args actor) = discard (create_campaign env args actor)"
| "admin_perform env (SaveCampaign pk t changes) = discard (save_campaign env pk t changes)"
| "admin_perform env (Activate pk t) = discard (activate_campaign pk t)"
| "admin_perform env (ActivateAll loaded) = discard (activate_campaigns loaded)"
| "admin_perform env (RevokeCampaign pk reason actor t) = discard (revoke_campaign pk reason actor t)"
| "admin_perform env (RevokeBatch pk reason actor t) = discard (revoke_batch pk reason actor t)"
| "admin_perform env (RevokeVouchers ids reason actor) = discard (revoke_vouchers ids reason actor)"
| "admin_perform env (ExtendCampaign pk expires t) = discard (extend_campaign_expiry pk expires t)"
| "admin_perform env (ExtendVoucher pk expires t) = discard (extend_voucher_expiry pk expires t)"
| "admin_perform env (Generate g args) = discard (generate_batch env g args)"
| "admin_perform env (Redeem a code rq ip ua) = discard (redeem env a code rq ip ua)"

text \<open>Calls of operators and customers in any order, with time passing between them.\<close>

inductive admin_run :: "env \<Rightarrow> 'x voucher_admin_db_scheme \<Rightarrow> 'x voucher_admin_db_scheme \<Rightarrow> bool" for env db where
  start: "admin_run env db db"
| call: "admin_run env db s \<Longrightarrow> admin_perform env c s = (r, t) \<Longrightarrow> admin_run env db t"
| wait: "admin_run env db s \<Longrightarrow> clock s \<le> now \<Longrightarrow> admin_run env db (s\<lparr>clock := now\<rparr>)"

lemma keeps_admin_redeem [keeps_intros]: "keeps (admin_since db) (redeem env a code rq ip ua)"
  by (rule keepsI) (metis admin_since_def admin_since_trans redeemed_since)

lemma keeps_admin_call: "keeps (admin_since db) (admin_perform env c)"
  by (cases c) (auto simp: discard_def intro!: keeps_intros)

lemma admin_run_since: "admin_run env db t \<Longrightarrow> admin_ok db \<Longrightarrow> admin_since db t"
proof (induction rule: admin_run.induct)
  case (call s c r t)
  then show ?case using keepsD [OF keeps_admin_call] by blast
next
  case (wait s now)
  then have s: "admin_since db s" by simp
  then have "admin_ok s" by (simp add: admin_since_def)
  then show ?case using admin_since_trans [OF s admin_clock] by blast
qed (simp add: admin_since_refl)

section \<open>Properties\<close>

text \<open>C30. Redeemed and revoked are final. However operators create, edit, activate, extend, revoke and generate and
  customers redeem, a voucher that is redeemed or revoked, a campaign and a batch that are revoked keep every
  column; a revoked voucher is never paid, and neither a redeemed voucher nor a revoked campaign is paid again;
  and no two vouchers or campaigns ever share a code.\<close>

theorem revoked_is_final:
  assumes "admin_run env (db :: voucher_admin_db) t" "admin_ok db"
  shows "(\<forall>v row. map_of (vouchers db) v = Some row \<and> vch_status row = VRevoked \<longrightarrow>
      map_of (vouchers t) v = Some row \<and> voucher_uses v (redemptions t) = 0) \<and>
    (\<forall>v row. map_of (vouchers db) v = Some row \<and> vch_status row = VRedeemed \<longrightarrow>
      map_of (vouchers t) v = Some row \<and> voucher_uses v (redemptions t) = voucher_uses v (redemptions db)) \<and>
    (\<forall>c row. map_of (campaigns db) c = Some row \<and> cmp_status row = CRevoked \<longrightarrow>
      map_of (campaigns t) c = Some row \<and> campaign_uses c (redemptions t) = campaign_uses c (redemptions db)) \<and>
    (\<forall>b row. map_of (batches db) b = Some row \<and> bat_status row = BRevoked \<longrightarrow> map_of (batches t) b = Some row) \<and>
    distinct (codes_of t)"
proof -
  have t: "admin_ok t" "final_kept db t" using admin_run_since [OF assms] by (simp_all add: admin_since_def)
  then have "distinct (codes_of t)" by (simp add: admin_ok_def codes_ok_distinct voucher_base_def)
  moreover have V: "map_of (vouchers t) v = Some row \<and> voucher_uses v (redemptions t) = voucher_uses v (redemptions db)"
    if "map_of (vouchers db) v = Some row" "vch_status row = VRedeemed \<or> vch_status row = VRevoked" for v row
    using t(2) that unfolding final_kept_def final_voucher_def by blast
  moreover have "voucher_uses v (redemptions t) = 0" if v: "map_of (vouchers db) v = Some row" "vch_status row = VRevoked" for v row
    using assms(2) voucher_baseD(8) [of db "(v, row)"] map_of_SomeD [OF v(1)] V [of v row] v
    by (auto simp: admin_ok_def voucher_row_ok_def)
  moreover have "map_of (campaigns t) c = Some row \<and> campaign_uses c (redemptions t) = campaign_uses c (redemptions db)"
    if "map_of (campaigns db) c = Some row" "cmp_status row = CRevoked" for c row
    using t(2) that unfolding final_kept_def by blast
  moreover have "map_of (batches t) b = Some row" if "map_of (batches db) b = Some row" "bat_status row = BRevoked" for b row
    using t(2) that unfolding final_kept_def by blast
  ultimately show ?thesis by (intro conjI allI impI) blast+
qed

text \<open>C32. What revoking a campaign does, exactly: it answers with the counts that the preview announced; the vouchers
  of the campaign that were created or active, and no others, become revoked with the reason, the time and the
  actor; the campaign is revoked; and no redemption, balance or ledger row changes. A second call, or one with an
  unknown reason, is refused and changes nothing.\<close>

theorem revoke_campaign_exact:
  assumes run: "revoke_campaign pk reason actor expected (db :: voucher_admin_db) = (Inr impact, t)"
    and row: "map_of (campaigns db) pk = Some row"
  shows "fst (preview_revoke_campaign pk (cmp_status row) db) = Inr impact \<and> reason \<in> set REVOKE_REASONS \<and>
    vouchers t = map (\<lambda>r. if of_campaign pk r \<and> vch_status (snd r) \<in> {VCreated, VActive}
        then (fst r, (snd r)\<lparr>vch_status := VRevoked, vch_reason := reason, vch_revoked := Some (clock db),
              vch_revoked_by := actor_text actor, vch_updated := clock db\<rparr>) else r) (vouchers db) \<and>
    campaigns t = AList.update pk (row\<lparr>cmp_status := CRevoked, cmp_reason := reason, cmp_revoked := Some (clock db),
        cmp_revoked_by := actor_text actor, cmp_updated := clock db\<rparr>) (campaigns db) \<and>
    redemptions t = redemptions db \<and> ledger t = ledger db \<and> accounts t = accounts db \<and>
    (\<forall>reason' actor'. revoke_campaign pk reason' actor' None t = (Inl (invalid
       (if reason' \<in> set REVOKE_REASONS then ''Campaign is already revoked'' else ''revoke_reason is required'')), t))"
proof -
  from run row obtain u n where live: "cmp_status row \<noteq> CRevoked" and reason: "reason \<in> set REVOKE_REASONS"
    and a: "apply_voucher_revokes (of_campaign pk) reason (actor_text actor) (clock db) db = (Inr n, u)"
    and t: "t = u\<lparr>campaigns := AList.update pk (row\<lparr>cmp_status := CRevoked, cmp_reason := reason, cmp_revoked := Some (clock db),
           cmp_revoked_by := actor_text actor, cmp_updated := clock u\<rparr>) (campaigns u)\<rparr>"
    and impact: "impact = (voucher_revoke_counts (of_campaign pk) (vouchers db))\<lparr>affected :=
        Suc (affected (voucher_revoke_counts (of_campaign pk) (vouchers db))), revoked_now := Suc n\<rparr>"
    by (auto simp: revoke_campaign_def txn_ok require_revoke_reason_def locked_campaign_run update_campaign_run
        preview_revoke_campaign_def)
  note r = apply_revokes_run [OF a]
  have "map_of (campaigns t) pk = Some (row\<lparr>cmp_status := CRevoked, cmp_reason := reason, cmp_revoked := Some (clock db),
           cmp_revoked_by := actor_text actor, cmp_updated := clock u\<rparr>)" by (simp add: t)
  then have "revoke_campaign pk reason' actor' None t = (Inl (invalid
       (if reason' \<in> set REVOKE_REASONS then ''Campaign is already revoked'' else ''revoke_reason is required'')), t)" for reason' actor'
    by (simp add: revoke_campaign_def require_revoke_reason_def locked_campaign_def assert_updated_at_def txn_defs)
  moreover have "fst (preview_revoke_campaign pk (cmp_status row) db) = Inr impact"
    using live r by (simp add: preview_revoke_campaign_def txn_defs impact voucher_revoke_counts_def)
  ultimately show ?thesis
    using r reason by (simp add: t revoked_row_def revocable_def REVOCABLE_def cong: if_cong)
qed

text \<open>C31. What a generated batch is: either the call is refused and nothing changes, or it adds one batch and exactly
  as many unique vouchers as asked for, all of the batch and of its campaign (which exists and is not revoked).
  With a campaign, their amount, voucher type and reward are the campaign's, and so is their expiry unless the
  request names one; without, all four are the request's. Their codes are fresh, drawn with the prefix, not
  reserved and pairwise different; no other voucher, no campaign, redemption or ledger row changes.\<close>

theorem generate_batch_exact:
  assumes run: "generate_batch env g args (db :: voucher_admin_db) = (r, t)" and ok: "admin_ok db"
  shows "case r of Inl e \<Rightarrow> t = db | Inr pk \<Rightarrow>
    (\<exists>new row amount vtype reward expires. vouchers t = vouchers db @ new \<and> batches t = batches db @ [(pk, row)] \<and>
       bat_size row = req_size args \<and> bat_campaign row = req_campaign args \<and> int (length new) = req_size args \<and>
       (\<forall>v \<in> set new. vch_batch (snd v) = Some pk \<and> vch_campaign (snd v) = req_campaign args \<and> vch_mode (snd v) = UNIQUE \<and>
          vch_status (snd v) = (if req_activate args then VActive else VCreated) \<and> vch_amount (snd v) = amount \<and>
          vch_type (snd v) = vtype \<and> vch_reward (snd v) = reward \<and> vch_expires (snd v) = expires) \<and>
       (\<forall>v \<in> set new. vch_code (snd v) \<notin> set (codes_of db) \<and> \<not> is_reserved_voucher_code env (vch_code (snd v)) \<and>
          (\<exists>i k. vch_code (snd v) = normalize_voucher_code env (VOUCHER_CODE_PREFIX @ upper (hex_draws g i k)))) \<and>
       distinct (map fst (vouchers t)) \<and> distinct (codes_of t) \<and> 0 < amount \<and>
       (case req_campaign args of
          None \<Rightarrow> numeric_20_6 (req_amount args) = Inr amount \<and> vtype = req_type args \<and> reward = req_reward args \<and>
            expires = req_expires args
        | Some c \<Rightarrow> \<exists>camp. map_of (campaigns db) c = Some camp \<and> cmp_status camp \<noteq> CRevoked \<and>
            numeric_20_6 (cmp_amount camp) = Inr amount \<and> vtype = cmp_type camp \<and> reward = cmp_reward camp \<and>
            expires = (case req_expires args of None \<Rightarrow> cmp_expires camp | Some x \<Rightarrow> Some x)) \<and>
       campaigns t = campaigns db \<and> redemptions t = redemptions db \<and> ledger t = ledger db)"
proof (cases r)
  case (Inl e)
  then show ?thesis using run by (auto simp: generate_batch_def atomic_iff)
next
  case (Inr pk)
  from generate_run [OF run [unfolded Inr] ok] obtain terms codes amount row where
    terms: "campaign_terms g args db = (Inr terms, db)" and codes: "length codes = nat (req_size args)" "distinct codes"
      "\<forall>i < length codes. drawn_code env (hex_draws g i) (codes ! i)"
      "\<forall>c \<in> set codes. c \<noteq> [] \<and> \<not> is_reserved_voucher_code env c \<and> c \<notin> set (codes_of db)"
    and a: "numeric_20_6 (req_amount terms) = Inr amount" "0 < amount"
    and row: "1 \<le> req_size args" "bat_size row = req_size args" "bat_campaign row = req_campaign args"
    and t: "t = db\<lparr>next_uuid := Suc pk + length codes, batches := batches db @ [(pk, row)],
          vouchers := vouchers db @ zip [Suc pk ..< Suc pk + length codes]
            (map (new_batch_voucher terms pk amount (clock db)) codes)\<rparr>" by blast
  let ?new = "zip [Suc pk ..< Suc pk + length codes] (map (new_batch_voucher terms pk amount (clock db)) codes)"
  note ct = campaign_terms_run [OF terms]
  have new: "\<exists>i < length codes. snd v = new_batch_voucher terms pk amount (clock db) (codes ! i)" if "v \<in> set ?new" for v
    using that by (auto simp: set_zip simp del: upt_Suc)
  have t': "admin_ok t" using generated_since [OF run [unfolded Inr] ok] by (simp add: admin_since_def)
  then have "distinct (map fst (vouchers t))" "distinct (codes_of t)"
    by (simp_all add: admin_ok_def codes_ok_distinct voucher_base_def)
  moreover have "vch_code (snd v) \<notin> set (codes_of db) \<and> \<not> is_reserved_voucher_code env (vch_code (snd v)) \<and>
          (\<exists>i k. vch_code (snd v) = normalize_voucher_code env (VOUCHER_CODE_PREFIX @ upper (hex_draws g i k)))" if v: "v \<in> set ?new" for v
  proof -
    from new [OF v] obtain i where i: "i < length codes" "vch_code (snd v) = codes ! i" by (auto simp: new_batch_voucher_def)
    from codes(3) i(1) obtain k where "codes ! i = normalize_voucher_code env (VOUCHER_CODE_PREFIX @ upper (hex_draws g i k))"
      by (auto simp: drawn_code_def)
    then have "\<exists>i k. vch_code (snd v) = normalize_voucher_code env (VOUCHER_CODE_PREFIX @ upper (hex_draws g i k))"
      unfolding i(2) by blast
    moreover have "vch_code (snd v) \<in> set codes" using i by simp
    ultimately show ?thesis using codes(4) by blast
  qed
  moreover have "vch_batch (snd v) = Some pk \<and> vch_campaign (snd v) = req_campaign args \<and> vch_mode (snd v) = UNIQUE \<and>
          vch_status (snd v) = (if req_activate args then VActive else VCreated) \<and> vch_amount (snd v) = amount \<and>
          vch_type (snd v) = req_type terms \<and> vch_reward (snd v) = req_reward terms \<and> vch_expires (snd v) = req_expires terms" if v: "v \<in> set ?new" for v
    using new [OF v] ct by (auto simp: new_batch_voucher_def)
  moreover have "case req_campaign args of
          None \<Rightarrow> numeric_20_6 (req_amount args) = Inr amount \<and> req_type terms = req_type args \<and>
            req_reward terms = req_reward args \<and> req_expires terms = req_expires args
        | Some c \<Rightarrow> \<exists>camp. map_of (campaigns db) c = Some camp \<and> cmp_status camp \<noteq> CRevoked \<and>
            numeric_20_6 (cmp_amount camp) = Inr amount \<and> req_type terms = cmp_type camp \<and>
            req_reward terms = cmp_reward camp \<and>
            req_expires terms = (case req_expires args of None \<Rightarrow> cmp_expires camp | Some x \<Rightarrow> Some x)"
    using ct a(1) by (auto split: option.splits)
  moreover have "int (length ?new) = req_size args" using codes(1) row(1) by (simp del: upt_Suc)
  ultimately show ?thesis
    using row a(2) unfolding Inr sum.case
    by (intro exI [of _ ?new] exI [of _ row] exI [of _ amount] exI [of _ "req_type terms"] exI [of _ "req_reward terms"]
        exI [of _ "req_expires terms"]) (simp add: t del: upt_Suc)
qed

text \<open>The calls that edit a campaign, with the \<open>updated_at\<close> their caller saw.\<close>

definition edits_campaign :: "nat \<Rightarrow> admin_call \<Rightarrow> int option \<Rightarrow> bool" where
  "edits_campaign pk c expected \<longleftrightarrow> (\<exists>changes. c = SaveCampaign pk expected changes) \<or> c = Activate pk expected \<or>
     (\<exists>expires. c = ExtendCampaign pk expires expected) \<or>
     (\<exists>reason actor. reason \<in> set REVOKE_REASONS \<and> c = RevokeCampaign pk reason actor expected)"

lemma edited_campaign:
  assumes edit: "edits_campaign pk c expected" and run: "admin_perform env c s = (Inr u, t)"
  shows "clock t = clock s \<and> (\<exists>row. map_of (campaigns t) pk = Some row \<and> cmp_updated row = clock s)"
proof -
  have fields: "q = s" if "set_campaign_fields env pk changes row s = (Inr row', q)" for changes row row' q
    using that
  proof (induction changes arbitrary: row)
    case (Cons f changes)
    from Cons.prems obtain f' w where "normalized_field env pk f s = (Inr f', w)"
      "set_campaign_fields env pk changes (set_campaign_field f' row) w = (Inr row', q)" by (auto simp: txn_ok)
    moreover from this(1) have "w = s"
      by (auto simp: normalized_field_def txn_ok dest!: assert_code_run split: campaign_field.splits option.splits if_splits)
    ultimately show ?case using Cons.IH by simp
  qed (simp add: txn_ok)
  from edit show ?thesis unfolding edits_campaign_def
  proof (elim disjE exE conjE, goal_cases)
    case (1 changes)
    with run obtain locked row x u' where f: "set_campaign_fields env pk changes locked s = (Inr row, x)"
      and sv: "save_campaign_row pk row x = (Inr u', t)"
      by (auto simp: discard_def save_campaign_def txn_ok locked_campaign_run)
    from save_campaign_row_run [OF sv] have "t = s\<lparr>campaigns := AList.update pk u' (campaigns s)\<rparr>" "cmp_updated u' = clock s"
      using fields [OF f] by (simp_all, metis campaign.select_convs(17) campaign.surjective campaign.update_convs(17))
    then show ?case by simp
  next
    case 2
    with run show ?case by (auto simp: discard_def activate_campaign_def txn_ok locked_campaign_run update_campaign_run)
  next
    case (3 expires)
    with run show ?case by (auto simp: discard_def extend_campaign_expiry_def txn_ok locked_campaign_run update_campaign_run)
  next
    case (4 reason actor)
    with run show ?case
      by (auto simp: discard_def revoke_campaign_def txn_ok require_revoke_reason_def preview_revoke_campaign_def
          locked_campaign_run update_campaign_run dest!: apply_revokes_run)
  qed
qed

text \<open>Two operators who loaded the same campaign: once one of them has edited, activated, extended or revoked it,
  more than a millisecond after it was last changed, every such call of the other one, who still holds the old
  \<open>updated_at\<close>, is a conflict and changes nothing.\<close>

theorem stale_edit_conflicts:
  assumes row: "map_of (campaigns (db :: voucher_admin_db)) pk = Some row" and late: "cmp_updated row + 1000 < clock db"
    and first_edit: "edits_campaign pk c expected" "admin_perform env c db = (Inr u, t)"
    and second_edit: "edits_campaign pk c' (Some (cmp_updated row))"
  shows "admin_perform env c' t = (Inl (EVoucherAdmin (VoucherAdminConflictError
    ''Reload and retry: the record was changed by another operator.'')), t)"
proof -
  from edited_campaign [OF first_edit] obtain row' where "map_of (campaigns t) pk = Some row'" "cmp_updated row' = clock db" by blast
  with late have "locked_campaign pk (Some (cmp_updated row)) t = (Inl (EVoucherAdmin (VoucherAdminConflictError
    ''Reload and retry: the record was changed by another operator.'')), t)"
    by (simp add: locked_campaign_def assert_updated_at_def txn_defs)
  then show ?thesis
    using second_edit unfolding edits_campaign_def
    by (auto simp: discard_def save_campaign_def activate_campaign_def extend_campaign_expiry_def revoke_campaign_def
        require_revoke_reason_def txn_defs)
qed

section \<open>Examples\<close>

definition demo_admin_db :: voucher_admin_db where
  "demo_admin_db = voucher_db.extend demo_voucher_db \<lparr>batches = [], export_audits = []\<rparr>"

lemma demo_admin_db_simps [simp]:
  "vouchers demo_admin_db = [(1, demo_voucher)]" "campaigns demo_admin_db = [(2, demo_campaign)]"
  "redemptions demo_admin_db = []" "ledger demo_admin_db = []" "next_uuid demo_admin_db = 3" "clock demo_admin_db = 1000"
  "batches demo_admin_db = []"
  by (simp_all add: demo_admin_db_def demo_voucher_db_def demo_pricing_db_def demo_db_def credit_db.defs pricing_db.defs voucher_db.defs)

lemma demo_admin_ok: "admin_ok demo_admin_db"
  by (simp add: admin_ok_def voucher_base_def codes_ok_def tag_fresh_def voucher_row_ok_def voucher_uses_def
      demo_voucher_def demo_campaign_def)

lemma demo_revoked: "\<exists>impact t. revoke_campaign 2 ''fraud'' None None demo_admin_db = (Inr impact, t) \<and>
  campaigns t = [(2, demo_campaign\<lparr>cmp_status := CRevoked, cmp_reason := ''fraud'', cmp_revoked := Some 1000, cmp_updated := 1000\<rparr>)]"
  by (simp add: revoke_campaign_def require_revoke_reason_def REVOKE_REASONS_def locked_campaign_def assert_updated_at_def
      preview_revoke_campaign_def apply_voucher_revokes_def update_campaign_def actor_text_def txn_defs demo_campaign_def)

theorem revoke_campaign_exact_witness:
  "\<exists>impact t. revoke_campaign 2 ''fraud'' None None demo_admin_db = (Inr impact, t) \<and> ledger t = [] \<and>
     revoke_campaign 2 ''fraud'' None None t = (Inl (invalid ''Campaign is already revoked''), t)"
proof -
  obtain impact t where run: "revoke_campaign 2 ''fraud'' None None demo_admin_db = (Inr impact, t)" using demo_revoked by blast
  have row: "map_of (campaigns demo_admin_db) 2 = Some demo_campaign" by simp
  have "''fraud'' \<in> set REVOKE_REASONS" by (simp add: REVOKE_REASONS_def)
  with revoke_campaign_exact [OF run row] run show ?thesis by auto
qed

theorem revoked_is_final_witness:
  "\<exists>t row. admin_run demo_env demo_admin_db t \<and> admin_ok t \<and> map_of (campaigns t) 2 = Some row \<and> cmp_status row = CRevoked \<and>
     map_of (campaigns (snd (admin_perform demo_env (Redeem 1 ''summer'' ''q'' [] []) t))) 2 = Some row"
proof -
  obtain impact t where run: "revoke_campaign 2 ''fraud'' None None demo_admin_db = (Inr impact, t)"
    and c: "campaigns t = [(2, demo_campaign\<lparr>cmp_status := CRevoked, cmp_reason := ''fraud'', cmp_revoked := Some 1000, cmp_updated := 1000\<rparr>)]"
    using demo_revoked by blast
  have "admin_perform demo_env (RevokeCampaign 2 ''fraud'' None None) demo_admin_db = (Inr (), t)"
    by (simp add: discard_def thenE_def bindE_def run ret_def)
  then have r: "admin_run demo_env demo_admin_db t" by (rule admin_run.call [OF admin_run.start])
  have ok: "admin_ok t" using admin_run_since [OF r demo_admin_ok] by (simp add: admin_since_def)
  obtain q u where q: "admin_perform demo_env (Redeem 1 ''summer'' ''q'' [] []) t = (q, u)" by fastforce
  from admin_run.call [OF admin_run.start q] have "admin_run demo_env t u" .
  from revoked_is_final [OF this ok] r ok q c show ?thesis by (intro exI [of _ t]) simp
qed

definition demo_generation :: generation where
  "demo_generation = \<lparr>row_lock_free = True, advisory_lock_free = True, hex_draws = (\<lambda>i k. ''0a''), elapsed_ms = 4,
     git_sha = ''abc'', image_tag = []\<rparr>"

definition demo_batch_args :: batch_args where
  "demo_batch_args = \<lparr>req_size = 1, req_amount = 5, req_actor = None, req_campaign = Some 2, req_campaign_updated = Some 900,
     req_type = GIFT, req_reward = FIXED_CREDIT, req_expires = None, req_activate = True\<rparr>"

lemma demo_draws:
  assumes "vouchers s = [(1, demo_voucher)]" "campaigns s = [(2, demo_campaign)]"
  shows "draw_codes demo_env 1 (hex_draws demo_generation) s = (Inr [''RK-0A''], s)"
proof -
  have n: "normalize_voucher_code demo_env ''RK-0A'' = ''RK-0A''" "upper ''0a'' = ''0A''"
    "is_reserved_voucher_code demo_env ''RK-0A'' = False" by code_simp+
  have "assert_code_available demo_env ''RK-0A'' None None s = (Inr ''RK-0A'', s)"
    by (simp add: assert_code_available_def n txn_defs assms demo_voucher_def demo_campaign_def Let_def)
  then have "generate_unique_code demo_env (Suc k) (\<lambda>_. ''0a'') s = (Inr ''RK-0A'', s)" for k
    by (simp add: VOUCHER_CODE_PREFIX_def n catchE_def)
  then show ?thesis
    by (simp add: demo_generation_def CODE_COLLISION_RETRIES_def eval_nat_numeral bindE_def ret_def del: generate_unique_code.simps)
qed

lemma demo_generated: "\<exists>t. generate_batch demo_env demo_generation demo_batch_args demo_admin_db = (Inr 3, t)"
proof -
  let ?terms = "demo_batch_args\<lparr>req_amount := 3, req_type := PROMO, req_reward := FIXED_CREDIT, req_expires := Some 2000\<rparr>"
  have v: "preview_batch (req_size demo_batch_args) (req_amount demo_batch_args) (req_reward demo_batch_args) (req_expires demo_batch_args) \<noteq> Inl e" for e
    by (simp add: preview_batch_def demo_batch_args_def)
  then obtain w where w: "preview_batch (req_size demo_batch_args) (req_amount demo_batch_args) (req_reward demo_batch_args) (req_expires demo_batch_args) = Inr w"
    by (metis sum.exhaust)
  have terms: "campaign_terms demo_generation demo_batch_args demo_admin_db = (Inr ?terms, demo_admin_db)"
    by (simp add: campaign_terms_def demo_batch_args_def demo_generation_def locked_campaign_def assert_updated_at_def txn_defs
        demo_campaign_def)
  obtain row where b: "create_batch ?terms demo_admin_db = (Inr (3, row), demo_admin_db\<lparr>next_uuid := 4, batches := [(3, row)]\<rparr>)"
    by (simp add: create_batch_def uuid4_def txn_defs Let_def demo_batch_args_def MAX_INTEGER_def actor_text_def)
  have num: "numeric_20_6 3 = Inr 3" by (simp add: numeric_20_6_def quantize_half_up_def MONEY_QUANT_def NUMERIC_20_6_def)
  obtain u where c: "bulk_create_vouchers ?terms 3 [''RK-0A''] (demo_admin_db\<lparr>next_uuid := 4, batches := [(3, row)]\<rparr>) = (Inr (), u)"
    by (simp add: bulk_create_vouchers_def num txn_defs demo_voucher_def)
  have d: "draw_codes demo_env 1 (hex_draws demo_generation) (demo_admin_db\<lparr>next_uuid := 4, batches := [(3, row)]\<rparr>) =
      (Inr [''RK-0A''], demo_admin_db\<lparr>next_uuid := 4, batches := [(3, row)]\<rparr>)" by (rule demo_draws) simp_all
  have e: "\<not> MAX_INTEGER < elapsed_ms demo_generation" by (simp add: MAX_INTEGER_def demo_generation_def)
  have size: "nat (req_size ?terms) = 1" by (simp add: demo_batch_args_def)
  show ?thesis
    unfolding generate_batch_def atomic_def thenE_def bindE_def liftE_def w terms
    by (simp only: terms b size d c e split_conv sum.case prod.case if_False) (simp add: getsE_def update_batch_def modifyE_def ret_def)
qed

theorem generate_batch_exact_witness:
  "\<exists>t row. generate_batch demo_env demo_generation demo_batch_args demo_admin_db = (Inr 3, t) \<and>
     batches t = [(3, row)] \<and> length (vouchers t) = 2 \<and> distinct (codes_of t)"
proof -
  obtain t where t: "generate_batch demo_env demo_generation demo_batch_args demo_admin_db = (Inr 3, t)" using demo_generated by blast
  from generate_batch_exact [OF t demo_admin_ok] obtain new row where "vouchers t = vouchers demo_admin_db @ new"
    "batches t = batches demo_admin_db @ [(3, row)]" "int (length new) = req_size demo_batch_args" "distinct (codes_of t)"
    by auto
  with t show ?thesis by (simp add: demo_batch_args_def)
qed

definition demo_edited :: voucher_admin_db where
  "demo_edited = demo_admin_db\<lparr>clock := 5000\<rparr>"

theorem stale_edit_conflicts_witness:
  "\<exists>t. admin_perform demo_env (ExtendCampaign 2 9000 (Some 900)) demo_edited = (Inr (), t) \<and>
     admin_perform demo_env (Activate 2 (Some 900)) t = (Inl (EVoucherAdmin (VoucherAdminConflictError
       ''Reload and retry: the record was changed by another operator.'')), t)"
proof -
  have row: "map_of (campaigns demo_edited) 2 = Some demo_campaign" by (simp add: demo_edited_def)
  have late: "cmp_updated demo_campaign + 1000 < clock demo_edited" by (simp add: demo_campaign_def demo_edited_def)
  have run: "\<exists>t. admin_perform demo_env (ExtendCampaign 2 9000 (Some 900)) demo_edited = (Inr (), t)"
    by (simp add: discard_def extend_campaign_expiry_def locked_campaign_def assert_updated_at_def update_campaign_def
        txn_defs demo_edited_def demo_campaign_def)
  then obtain t where t: "admin_perform demo_env (ExtendCampaign 2 9000 (Some 900)) demo_edited = (Inr (), t)" by blast
  have e: "edits_campaign 2 (ExtendCampaign 2 9000 (Some 900)) (Some 900)" "edits_campaign 2 (Activate 2 (Some 900)) (Some (cmp_updated demo_campaign))"
    by (auto simp: edits_campaign_def demo_campaign_def)
  from stale_edit_conflicts [OF row late e(1) t e(2)] t show ?thesis by blast
qed

end
