(* ===== verification/VoucherExport.thy ===== *)
theory VoucherExport
  imports VoucherAdmin "HOL-Library.Multiset"
begin

text \<open>
  The exports and reports of \<^verbatim>\<open>billing/services/voucher_admin.py\<close>: the CSV and PDF listings of a batch with their
  audit rows, the campaign counters and the warnings of the admin pages. \<open>csv_line\<close> is the row format of
  Python's \<^verbatim>\<open>csv.DictWriter\<close> in its default dialect; \<open>csv_read\<close> is not part of the program, it reads that
  dialect and states what the export is good for.
\<close>

section \<open>CSV\<close>

definition voucher_status_value :: "voucher_status \<Rightarrow> string" where
  "voucher_status_value st = (case st of VCreated \<Rightarrow> ''created'' | VActive \<Rightarrow> ''active'' | VRedeemed \<Rightarrow> ''redeemed''
     | VExpired \<Rightarrow> ''expired'' | VRevoked \<Rightarrow> ''revoked'')"

definition batch_status_value :: "batch_status \<Rightarrow> string" where
  "batch_status_value st = (case st of BCreated \<Rightarrow> ''created'' | BActive \<Rightarrow> ''active'' | BRevoked \<Rightarrow> ''revoked'')"

text \<open>\<^verbatim>\<open>f"{amount:.6f}"\<close> of a column with six places.\<close>

definition fixed6 :: "rat \<Rightarrow> string" where
  "fixed6 x = (let n = \<lfloor>x * 1000000\<rfloor>; a = nat \<bar>n\<bar>
     in (if n < 0 then ''-'' else []) @ str_nat (a div 1000000) @ ''.'' @ zfill 6 (str_nat (a mod 1000000)))"

definition CR :: char where "CR = CHR 0x0D"
definition LF :: char where "LF = CHR 0x0A"
definition QUOTE :: char where "QUOTE = CHR 0x22"

definition csv_special :: "char \<Rightarrow> bool" where
  "csv_special c \<longleftrightarrow> c = CHR '','' \<or> c = QUOTE \<or> c = CR \<or> c = LF"

fun double_quotes :: "string \<Rightarrow> string" where
  "double_quotes [] = []"
| "double_quotes (c # s) = (if c = QUOTE then [QUOTE, QUOTE] else [c]) @ double_quotes s"

definition csv_field :: "string \<Rightarrow> string" where
  "csv_field s = (if \<exists>c \<in> set s. csv_special c then QUOTE # double_quotes s @ [QUOTE] else s)"

fun join_text :: "string \<Rightarrow> string list \<Rightarrow> string" where
  "join_text sep [] = []"
| "join_text sep [s] = s"
| "join_text sep (s # t # rest) = s @ sep @ join_text sep (t # rest)"

definition csv_line :: "string list \<Rightarrow> string" where
  "csv_line cells = join_text '','' (map csv_field cells) @ [CR, LF]"

definition expiry_text :: "env \<Rightarrow> int option \<Rightarrow> string" where
  "expiry_text env t = (case t of None \<Rightarrow> [] | Some t \<Rightarrow> isoformat env t)"

text \<open>The rows of a batch in the order of creation; rows created at one instant keep the table's order.\<close>

definition export_cells :: "env \<Rightarrow> voucher \<Rightarrow> string list" where
  "export_cells env v =
     [vch_code v, fixed6 (vch_amount v), voucher_status_value (vch_status v), expiry_text env (vch_expires v)]"

definition iter_batch_export_rows :: "env \<Rightarrow> nat \<Rightarrow> (nat \<times> voucher) list \<Rightarrow> string list list" where
  "iter_batch_export_rows env batch rows =
     map (\<lambda>r. export_cells env (snd r)) (sort_key (\<lambda>r. vch_created (snd r)) (filter (of_batch batch) rows))"

definition build_batch_csv_text :: "env \<Rightarrow> nat \<Rightarrow> (nat \<times> voucher) list \<Rightarrow> string" where
  "build_batch_csv_text env batch rows =
     csv_line [''code'', ''credit_amount'', ''status'', ''expires_at''] @
     concat (map csv_line (iter_batch_export_rows env batch rows))"

definition id_text :: "nat option \<Rightarrow> string" where
  "id_text k = (case k of None \<Rightarrow> [] | Some n \<Rightarrow> str_nat n)"

definition build_vouchers_csv_text :: "env \<Rightarrow> voucher list \<Rightarrow> string" where
  "build_vouchers_csv_text env vs =
     csv_line [''code'', ''credit_amount'', ''status'', ''expires_at'', ''campaign'', ''batch''] @
     concat (map (\<lambda>v. csv_line (export_cells env v @ [id_text (vch_campaign v), id_text (vch_batch v)])) vs)"

section \<open>PDF\<close>

definition pdf_escape :: "string \<Rightarrow> string" where
  "pdf_escape s = concat (map (\<lambda>c. if c \<in> {CHR 0x5C, CHR ''('', CHR '')''} then [CHR 0x5C, c] else [c]) s)"

text \<open>The text operators: one line every twelve units down from 800, none below 40.\<close>

fun text_commands :: "bool \<Rightarrow> int \<Rightarrow> string list \<Rightarrow> string list" where
  "text_commands is_first y [] = []"
| "text_commands is_first y (line # rest) =
     (if is_first then [] else [''0 -12 Td'']) @ [''('' @ pdf_escape (take 110 line) @ '') Tj''] @
     (if y - 12 < 40 then [] else text_commands False (y - 12) rest)"

definition pdf_stream :: "string list \<Rightarrow> string" where
  "pdf_stream text_lines =
     join_text [LF] ([''BT'', ''/F1 10 Tf'', ''50 800 Td''] @ text_commands True 800 text_lines @ [''ET''])"

definition pdf_objects :: "string \<Rightarrow> string list" where
  "pdf_objects stream =
    [''1 0 obj<< /Type /Catalog /Pages 2 0 R >>endobj'' @ [LF],
     ''2 0 obj<< /Type /Pages /Kids [3 0 R] /Count 1 >>endobj'' @ [LF],
     ''3 0 obj<< /Type /Page /Parent 2 0 R /MediaBox [0 0 612 792] '' @
       ''/Contents 4 0 R /Resources << /Font << /F1 5 0 R >> >> >>endobj'' @ [LF],
     ''4 0 obj<< /Length '' @ str_nat (length stream) @ '' >>stream'' @ [LF] @ stream @ [LF] @ ''endstream'' @ [LF] @
       ''endobj'' @ [LF],
     ''5 0 obj<< /Type /Font /Subtype /Type1 /BaseFont /Helvetica >>endobj'' @ [LF]]"

definition append_object :: "string \<times> nat list \<Rightarrow> string \<Rightarrow> string \<times> nat list" where
  "append_object p obj = (fst p @ obj, snd p @ [length (fst p)])"

definition xref_entry :: "nat \<Rightarrow> string" where
  "xref_entry off = zfill 10 (str_nat off) @ '' 00000 n '' @ [LF]"

definition minimal_pdf_bytes :: "string list \<Rightarrow> string" where
  "minimal_pdf_bytes text_lines =
     (let objects = pdf_objects (pdf_stream text_lines);
          (out, offsets) = foldl append_object (''%PDF-1.4'' @ [LF], [0]) objects;
          xref_pos = length out
      in out @ ''xref'' @ [LF] @ ''0 '' @ str_nat (length objects + 1) @ [LF] @ ''0000000000 65535 f '' @ [LF] @
         concat (map xref_entry (tl offsets)) @
         ''trailer<< /Size '' @ str_nat (length objects + 1) @ '' /Root 1 0 R >>'' @ [LF] @
         ''startxref'' @ [LF] @ str_nat xref_pos @ [LF] @ ''%%EOF'' @ [LF])"

definition pdf_lines :: "env \<Rightarrow> nat \<times> voucher_batch \<Rightarrow> (nat \<times> voucher) list \<Rightarrow> string list" where
  "pdf_lines env batch rows =
     [''RoamKit voucher batch '' @ str_nat (fst batch),
      ''Size='' @ str_nat (nat (bat_size (snd batch))) @ '' status='' @ batch_status_value (bat_status (snd batch)), []] @
     map (\<lambda>cells. cells ! 0 @ ''  '' @ cells ! 1 @ ''  '' @ cells ! 2) (iter_batch_export_rows env (fst batch) rows)"

definition build_batch_pdf_bytes :: "env \<Rightarrow> nat \<times> voucher_batch \<Rightarrow> (nat \<times> voucher) list \<Rightarrow> string" where
  "build_batch_pdf_bytes env batch rows = minimal_pdf_bytes (pdf_lines env batch rows)"

section \<open>Audited exports\<close>

definition record_export :: "nat \<Rightarrow> export_format \<Rightarrow> string option \<Rightarrow> ('x, unit) admin_txn" where
  "record_export batch fmt actor_id =
     bindE uuid4 (\<lambda>pk.
     if 64 < length (actor_text actor_id) then raiseE (EPy DataError)
     else modifyE (\<lambda>db. db\<lparr>export_audits := export_audits db @
       [(pk, \<lparr>aud_batch = batch, aud_format = fmt, exported_by_id = actor_text actor_id, exported_at = clock db\<rparr>)]\<rparr>))"

definition export_batch_csv :: "env \<Rightarrow> nat \<Rightarrow> string option \<Rightarrow> bool \<Rightarrow> ('x, string) admin_txn" where
  "export_batch_csv env batch actor_id record_audit =
     bindE (getsE (\<lambda>db. build_batch_csv_text env batch (vouchers db))) (\<lambda>text.
     thenE (if record_audit then record_export batch CsvFormat actor_id else ret ()) (ret text))"

definition export_batch_pdf :: "env \<Rightarrow> nat \<times> voucher_batch \<Rightarrow> string option \<Rightarrow> bool \<Rightarrow> ('x, string) admin_txn" where
  "export_batch_pdf env batch actor_id record_audit =
     bindE (getsE (\<lambda>db. build_batch_pdf_bytes env batch (vouchers db))) (\<lambda>payload.
     thenE (if record_audit then record_export (fst batch) PdfFormat actor_id else ret ()) (ret payload))"

section \<open>Reports\<close>

record health_stats =
  n_active :: nat
  n_expired :: nat
  n_revoked :: nat
  redeemed_today :: nat

definition campaigns_with :: "campaign_status \<Rightarrow> 'x voucher_db_scheme \<Rightarrow> nat" where
  "campaigns_with st db = length (filter (\<lambda>r. cmp_status (snd r) = st) (campaigns db))"

definition campaign_health_stats :: "'x voucher_db_scheme \<Rightarrow> health_stats" where
  "campaign_health_stats db =
     \<lparr>n_active = campaigns_with CActive db, n_expired = campaigns_with CExpired db, n_revoked = campaigns_with CRevoked db,
      redeemed_today = length (filter (\<lambda>r. localdate (redeemed_at (snd r)) = localdate (clock db)) (redemptions db))\<rparr>"

definition campaign_warnings :: "nat \<times> campaign \<Rightarrow> 'x voucher_db_scheme \<Rightarrow> string list" where
  "campaign_warnings c db =
     (if cmp_status (snd c) = CExpired \<or> (case cmp_expires (snd c) of None \<Rightarrow> False | Some t \<Rightarrow> t \<le> clock db)
      then [''Campaign expired.''] else []) @
     (if cmp_status (snd c) = CRevoked then [''Campaign revoked.''] else []) @
     (case max_total (snd c) of
        None \<Rightarrow> []
      | Some m \<Rightarrow> if m \<le> campaign_uses (fst c) (redemptions db)
                  then [''Vouchers remaining = 0 (campaign total limit reached).''] else [])"

definition batch_warnings :: "nat \<times> voucher_batch \<Rightarrow> 'x voucher_db_scheme \<Rightarrow> string list" where
  "batch_warnings b db =
     (if bat_status (snd b) = BRevoked then [''Batch revoked.''] else []) @
     (if filter (\<lambda>r. of_batch (fst b) r \<and> revocable r) (vouchers db) = [] \<and> 0 < bat_size (snd b)
      then [''Vouchers remaining = 0.''] else [])"

definition collect_admin_warnings ::
  "env \<Rightarrow> (nat \<times> campaign) option \<Rightarrow> (nat \<times> voucher_batch) option \<Rightarrow> 'x voucher_db_scheme \<Rightarrow> string list" where
  "collect_admin_warnings env camp batch db =
     (if VOUCHERS_ENABLED env then [] else [''Redeem disabled (VOUCHERS_ENABLED=false).'']) @
     (case camp of None \<Rightarrow> [] | Some c \<Rightarrow> campaign_warnings c db) @
     (case batch of None \<Rightarrow> [] | Some b \<Rightarrow> batch_warnings b db)"

section \<open>Reading the CSV back\<close>

fun csv_read :: "bool \<Rightarrow> string \<Rightarrow> string list \<Rightarrow> string \<Rightarrow> string list list" where
  "csv_read in_quotes cell row [] = (if cell = [] \<and> row = [] then [] else [row @ [cell]])"
| "csv_read True cell row (c # s) =
     (if c \<noteq> QUOTE then csv_read True (cell @ [c]) row s
      else if s \<noteq> [] \<and> hd s = QUOTE then csv_read True (cell @ [QUOTE]) row (tl s)
      else csv_read False cell row s)"
| "csv_read False cell row (c # s) =
     (if c = QUOTE \<and> cell = [] then csv_read True [] row s
      else if c = CHR '','' then csv_read False [] (row @ [cell]) s
      else if c = CR then csv_read False cell row s
      else if c = LF then (row @ [cell]) # csv_read False [] [] s
      else csv_read False (cell @ [c]) row s)"

lemma csv_chars [simp]: "CR \<noteq> QUOTE" "LF \<noteq> QUOTE" "CR \<noteq> LF" "CHR '','' \<noteq> QUOTE" "CR \<noteq> CHR '',''" "LF \<noteq> CHR '',''" "LF \<noteq> CR" "QUOTE \<noteq> CHR '',''"
  by (simp_all add: CR_def LF_def QUOTE_def)

lemma read_plain: "\<forall>c \<in> set f. \<not> csv_special c \<Longrightarrow> csv_read False cell row (f @ s) = csv_read False (cell @ f) row s"
  by (induction f arbitrary: cell) (auto simp: csv_special_def)

lemma read_quoted:
  "s \<noteq> [] \<Longrightarrow> hd s \<noteq> QUOTE \<Longrightarrow> csv_read True cell row (double_quotes f @ QUOTE # s) = csv_read False (cell @ f) row s"
  by (induction f arbitrary: cell) auto

lemma read_field:
  assumes "s \<noteq> []" "hd s \<noteq> QUOTE"
  shows "csv_read False [] row (csv_field f @ s) = csv_read False f row s"
proof (cases "\<exists>c \<in> set f. csv_special c")
  case True
  then show ?thesis using read_quoted [OF assms, of "[]" row f] by (simp add: csv_field_def)
next
  case False
  then show ?thesis using read_plain [of f "[]" row s] by (simp add: csv_field_def)
qed

lemma read_cells: "cells \<noteq> [] \<Longrightarrow>
  csv_read False [] row (join_text '','' (map csv_field cells) @ [CR, LF] @ s) = (row @ cells) # csv_read False [] [] s"
proof (induction cells arbitrary: row)
  case (Cons c cells)
  show ?case
  proof (cases cells)
    case Nil
    then show ?thesis using read_field [of "[CR, LF] @ s" row c] by simp
  next
    case (Cons d rest)
    then show ?thesis
      using read_field [of "'','' @ join_text '','' (map csv_field cells) @ [CR, LF] @ s" row c] Cons.IH [of "row @ [c]"] by simp
  qed
qed simp

lemma read_lines: "\<forall>r \<in> set rows. r \<noteq> [] \<Longrightarrow> csv_read False [] [] (concat (map csv_line rows)) = rows"
proof (induction rows)
  case (Cons r rows)
  have "csv_read False [] [] (concat (map csv_line (r # rows))) =
      csv_read False [] [] (join_text '','' (map csv_field r) @ [CR, LF] @ concat (map csv_line rows))"
    by (simp add: csv_line_def)
  then show ?case using Cons read_cells [of r "[]" "concat (map csv_line rows)"] by simp
qed simp

text \<open>C33. The CSV of a batch loses nothing: whatever characters the codes contain, reading the text in the same dialect
  gives the header and then, in the order of creation, one row for every voucher of the batch.\<close>

theorem batch_csv_reads_back:
  "csv_read False [] [] (build_batch_csv_text env batch rows) =
     [''code'', ''credit_amount'', ''status'', ''expires_at''] # iter_batch_export_rows env batch rows \<and>
   mset (iter_batch_export_rows env batch rows) =
     image_mset (\<lambda>r. export_cells env (snd r)) (filter_mset (of_batch batch) (mset rows))"
proof
  show "csv_read False [] [] (build_batch_csv_text env batch rows) =
     [''code'', ''credit_amount'', ''status'', ''expires_at''] # iter_batch_export_rows env batch rows"
    using read_lines [of "[''code'', ''credit_amount'', ''status'', ''expires_at''] # iter_batch_export_rows env batch rows"]
    by (auto simp: build_batch_csv_text_def iter_batch_export_rows_def export_cells_def)
qed (simp add: iter_batch_export_rows_def)

section \<open>The PDF\<close>

lemma foldl_append_object:
  "foldl append_object (out, offs) objs = (out @ concat objs, offs @ map (\<lambda>k. length out + length (concat (take k objs))) [0 ..< length objs])"
proof (induction objs rule: rev_induct)
  case (snoc obj objs)
  then show ?case by (simp add: append_object_def)
qed simp

lemma length_str_nat: "n < 10 ^ Suc k \<Longrightarrow> length (str_nat n) \<le> Suc k"
proof (induction k arbitrary: n)
  case (Suc k)
  show ?case
  proof (cases "n < 10")
    case False
    have "n div 10 < 10 ^ Suc k" using Suc.prems by (simp add: div_less_iff_less_mult)
    from Suc.IH [OF this] False show ?thesis by (simp add: str_nat.simps [of n])
  qed (simp add: str_nat.simps [of n])
next
  case 0
  then show ?case by (simp add: str_nat.simps [of n])
qed

lemma length_xref: "off < 10 ^ 10 \<Longrightarrow> length (xref_entry off) = 20"
  using length_str_nat [of off 9] by (simp add: xref_entry_def length_zfill)

lemma text_commands_take: "y - 12 * int n < 40 \<Longrightarrow> 0 < n \<Longrightarrow> text_commands b y ls = text_commands b y (take n ls)"
proof (induction n arbitrary: b y ls)
  case (Suc n)
  show ?case
  proof (cases ls)
    case (Cons l rest)
    show ?thesis
    proof (cases "y - 12 < 40")
      case False
      then have "0 < n" "y - 12 - 12 * int n < 40" using Suc.prems by (cases n; simp)+
      with Suc.IH [of "y - 12" False rest] False Cons show ?thesis by simp
    qed (simp add: Cons)
  qed simp
qed simp

lemma length_escape: "length (pdf_escape s) \<le> 2 * length s"
  by (induction s) (auto simp: pdf_escape_def)

lemma text_commands_length: "0 < y \<Longrightarrow> sum_list (map (\<lambda>s. Suc (length s)) (text_commands b y ls)) \<le> 240 * nat y"
proof (induction ls arbitrary: b y)
  case (Cons l ls)
  have l: "length (pdf_escape (take 110 l)) \<le> 220" using length_escape [of "take 110 l"] by (simp add: min_def split: if_splits)
  show ?case
  proof (cases "y - 12 < 40")
    case True
    then show ?thesis using l Cons.prems by (auto simp: nat_le_iff intro: order_trans [of _ "240"])
  next
    case False
    then have "0 < y - 12" by simp
    from Cons.IH [OF this, of False] l False show ?thesis by (auto simp: nat_diff_distrib)
  qed
qed simp

lemma length_join: "length (join_text [c] ss) \<le> sum_list (map (\<lambda>s. Suc (length s)) ss)"
  by (induction "[c]" ss rule: join_text.induct) auto

lemma stream_short: "length (pdf_stream ls) < 200000"
proof -
  have "length (pdf_stream ls) \<le> sum_list (map (\<lambda>s. Suc (length s)) ([''BT'', ''/F1 10 Tf'', ''50 800 Td''] @ text_commands True 800 ls @ [''ET'']))"
    unfolding pdf_stream_def by (rule length_join)
  with text_commands_length [of 800 True ls] show ?thesis by simp
qed

lemma pdf_objects_length: "length (concat (take k (pdf_objects stream))) < length stream + 1000" if "length stream < 200000"
proof -
  have "length (str_nat (length stream)) \<le> 6" using that length_str_nat [of "length stream" 5] by simp
  moreover have "length (concat (take k xs)) \<le> length (concat xs)" for xs :: "string list"
    by (metis append_take_drop_id concat_append le_add1 length_append)
  ultimately show ?thesis
    by (intro le_less_trans [OF \<open>\<And>xs. length (concat (take k xs)) \<le> length (concat xs)\<close>]) (simp add: pdf_objects_def)
qed

lemma concat_nth: "k < length xs \<Longrightarrow> take (length (xs ! k)) (drop (length (concat (take k xs))) (concat xs @ rest)) = xs ! k"
proof -
  assume "k < length xs"
  then have "concat xs = concat (take k xs) @ xs ! k @ concat (drop (Suc k) xs)"
    by (metis append_take_drop_id concat.simps(2) concat_append Cons_nth_drop_Suc)
  then show ?thesis by simp
qed

text \<open>The PDF is well formed: its cross-reference table has a twenty-byte entry for each of the five objects, every
  entry is the position at which the file has that object, the content object announces the exact length of its
  stream, and the number after \<open>startxref\<close> is the position of the table. The file stays below 202000 bytes.\<close>

theorem pdf_xref_exact:
  "\<exists>offs xref. length offs = 5 \<and>
     (\<forall>k < 5. length (xref_entry (offs ! k)) = 20 \<and>
        take (length (pdf_objects (pdf_stream ls) ! k)) (drop (offs ! k) (minimal_pdf_bytes ls)) = pdf_objects (pdf_stream ls) ! k) \<and>
     minimal_pdf_bytes ls = take xref (minimal_pdf_bytes ls) @ ''xref'' @ [LF] @ ''0 6'' @ [LF] @ ''0000000000 65535 f '' @ [LF] @
       concat (map xref_entry offs) @ ''trailer<< /Size 6 /Root 1 0 R >>'' @ [LF] @ ''startxref'' @ [LF] @ str_nat xref @ [LF] @
       ''%%EOF'' @ [LF] \<and>
     pdf_objects (pdf_stream ls) ! 3 = ''4 0 obj<< /Length '' @ str_nat (length (pdf_stream ls)) @ '' >>stream'' @ [LF] @ pdf_stream ls @
       [LF] @ ''endstream'' @ [LF] @ ''endobj'' @ [LF] \<and> length (minimal_pdf_bytes ls) < 202000"
proof -
  let ?stream = "pdf_stream ls" and ?objs = "pdf_objects (pdf_stream ls)"
  let ?head = "''%PDF-1.4'' @ [LF]"
  let ?offs = "map (\<lambda>k. length ?head + length (concat (take k ?objs))) [0 ..< 5]"
  let ?xref = "length ?head + length (concat ?objs)"
  let ?tail = "''xref'' @ [LF] @ ''0 6'' @ [LF] @ ''0000000000 65535 f '' @ [LF] @
       concat (map xref_entry ?offs) @ ''trailer<< /Size 6 /Root 1 0 R >>'' @ [LF] @ ''startxref'' @ [LF] @ str_nat ?xref @ [LF] @
       ''%%EOF'' @ [LF]"
  have len: "length ?objs = 5" by (simp add: pdf_objects_def)
  have six: "str_nat 6 = ''6''" by code_simp
  have pdf: "minimal_pdf_bytes ls = ?head @ concat ?objs @ ?tail"
    unfolding minimal_pdf_bytes_def Let_def foldl_append_object len by (simp add: six upt_rec)
  have off: "?offs ! k < 10 ^ 10" if "k < 5" for k
    using pdf_objects_length [OF stream_short, of k ls] stream_short [of ls] that by simp
  have e: "length (xref_entry (?offs ! k)) = 20" if "k < 5" for k
    by (rule length_xref [OF off [OF that]])
  have o: "take (length (?objs ! k)) (drop (?offs ! k) (minimal_pdf_bytes ls)) = ?objs ! k" if "k < 5" for k
    using concat_nth [of k ?objs ?tail] that len by (simp add: pdf)
  have x: "?xref < 10 ^ 6"
    using pdf_objects_length [OF stream_short, of 5 ls] stream_short [of ls] by (simp add: len)
  have "length (concat (map xref_entry ?offs)) = 100"
    using e [of 0] e [of 1] e [of 2] e [of 3] e [of 4] by (simp add: upt_rec numeral_eq_Suc)
  then have size: "length (minimal_pdf_bytes ls) < 202000"
    using pdf_objects_length [OF stream_short, of 5 ls] stream_short [of ls] length_str_nat [of ?xref 5] x
    by (simp add: pdf len)
  have t: "minimal_pdf_bytes ls = take ?xref (minimal_pdf_bytes ls) @ ?tail" by (simp add: pdf)
  have c: "?objs ! 3 = ''4 0 obj<< /Length '' @ str_nat (length ?stream) @ '' >>stream'' @ [LF] @ ?stream @ [LF] @ ''endstream'' @ [LF] @ ''endobj'' @ [LF]"
    by (simp add: pdf_objects_def)
  show ?thesis
    using e o t c size
    by (intro exI [of _ ?offs] exI [of _ ?xref] conjI) simp_all
qed

text \<open>C34. The PDF lists at most sixty-one vouchers: two batches with the same key, size and status whose first sixty-one
  rows agree have the same file, so the codes after them are in no PDF.\<close>

theorem pdf_omits_later_vouchers:
  assumes "take 61 (iter_batch_export_rows env (fst batch) rows) = take 61 (iter_batch_export_rows env (fst batch) rows')"
  shows "build_batch_pdf_bytes env batch rows = build_batch_pdf_bytes env batch rows'"
proof -
  have "take 64 (pdf_lines env batch rows) = take 64 (pdf_lines env batch rows')"
    using assms by (simp add: pdf_lines_def take_map)
  then have "pdf_stream (pdf_lines env batch rows) = pdf_stream (pdf_lines env batch rows')"
    unfolding pdf_stream_def by (metis text_commands_take [of 800 64 True, simplified])
  then show ?thesis by (simp add: build_batch_pdf_bytes_def minimal_pdf_bytes_def)
qed

section \<open>Examples\<close>

theorem pdf_xref_exact_witness:
  "\<exists>off. take (length (pdf_objects (pdf_stream [''RK-0A'']) ! 3)) (drop off (minimal_pdf_bytes [''RK-0A''])) =
     pdf_objects (pdf_stream [''RK-0A'']) ! 3 \<and> length (xref_entry off) = 20"
proof -
  obtain offs where "\<forall>k < 5. length (xref_entry (offs ! k)) = 20 \<and>
      take (length (pdf_objects (pdf_stream [''RK-0A'']) ! k)) (drop (offs ! k) (minimal_pdf_bytes [''RK-0A''])) = pdf_objects (pdf_stream [''RK-0A'']) ! k"
    using pdf_xref_exact [of "[''RK-0A'']"] by blast
  then show ?thesis by (intro exI [of _ "offs ! 3"]) simp
qed

definition demo_batch :: voucher_batch where
  "demo_batch = \<lparr>bat_campaign = None, bat_size = 62, bat_status = BActive, bat_issuer = AdminIssuer, bat_issued_by = [],
     generated_at = None, generation_duration_ms = None, generated_by_version = [], bat_created = 900, bat_updated = 900\<rparr>"

definition demo_batch_rows :: "(nat \<times> voucher) list" where
  "demo_batch_rows = map (\<lambda>k. (k, demo_voucher\<lparr>vch_code := str_nat k, vch_batch := Some 3\<rparr>)) [0 ..< 62]"

lemma sort_one_instant: "\<forall>r \<in> set rows. f r = c \<Longrightarrow> sort_key f rows = rows"
proof (induction rows)
  case (Cons r rows)
  then show ?case by (cases rows) auto
qed simp

theorem pdf_omits_later_vouchers_witness:
  "length demo_batch_rows = 62 \<and> build_batch_pdf_bytes demo_env (3, demo_batch) demo_batch_rows = build_batch_pdf_bytes demo_env (3, demo_batch) (take 61 demo_batch_rows)"
proof -
  have i: "iter_batch_export_rows demo_env 3 rows = map (\<lambda>r. export_cells demo_env (snd r)) rows"
    if "set rows \<subseteq> set demo_batch_rows" for rows
  proof -
    have "\<forall>r \<in> set rows. vch_created (snd r) = 900 \<and> of_batch 3 r"
      using that by (auto simp: demo_batch_rows_def demo_voucher_def of_batch_def)
    then show ?thesis by (simp add: iter_batch_export_rows_def sort_one_instant [of _ _ 900] filter_id_conv)
  qed
  have "take 61 (iter_batch_export_rows demo_env (fst (3, demo_batch)) demo_batch_rows) =
      take 61 (iter_batch_export_rows demo_env (fst (3, demo_batch)) (take 61 demo_batch_rows))"
    using i [of demo_batch_rows] i [of "take 61 demo_batch_rows"] by (simp add: take_map set_take_subset)
  from pdf_omits_later_vouchers [OF this] show ?thesis by (simp add: demo_batch_rows_def)
qed

end
