(* ===== verification/Devices.thy ===== *)
theory Devices
  imports Lifecycle
begin

text \<open>
  Devices of an organization: \<^verbatim>\<open>organizations/services/device_binding.py\<close>, \<^verbatim>\<open>fleet_credential.py\<close>,
  \<^verbatim>\<open>device_status.py\<close>, \<^verbatim>\<open>uem_serial.py\<close> and \<^verbatim>\<open>uem_iccid.py\<close>, the lookups of \<^verbatim>\<open>integrations/blackberry_uem/client.py\<close>
  and the binding and fleet models of \<^verbatim>\<open>organizations/models.py\<close>. Random secrets are arguments, the identifiers are
  drawn from the key counter, and \<^verbatim>\<open>sha256\<close> is the one of \<open>env\<close>. The answer of BlackBerry UEM to \<^verbatim>\<open>GET /devices\<close> (an
  object or an error text) is part of \<open>uem\<close>. A status is a read: the functions take the state and return a value.
  The coverage column of an order holds a list or null, as the purchase wrote it.
\<close>

section \<open>Tables\<close>

datatype binding_status = Bound | Unbound | Replaced

fun binding_status_value :: "binding_status \<Rightarrow> string" where
  "binding_status_value Bound = ''active''"
| "binding_status_value Unbound = ''unbound''"
| "binding_status_value Replaced = ''replaced''"

record binding =
  dev_org :: nat
  dev_esim :: nat
  dev_external :: string
  dev_serial :: string
  dev_guid :: string
  dev_hash :: string
  dev_issued :: "int option"
  dev_status :: binding_status
  dev_bound_by :: "nat option"
  dev_unbound_by :: "nat option"
  dev_unbound_at :: "int option"
  dev_replaced_by :: "nat option"
  dev_created :: int
  dev_updated :: int

datatype binding_action = ActBind | ActUnbind | ActRebind | ActIssue | ActRotate

record binding_event =
  bev_org :: nat
  bev_binding :: nat
  bev_esim :: nat
  bev_action :: binding_action
  bev_actor :: "nat option"
  bev_device :: string
  bev_previous :: "nat option"
  bev_created :: int

record fleet =
  flt_org :: nat
  flt_external :: string
  flt_hash :: string
  flt_issued :: int
  flt_previous :: string
  flt_until :: "int option"
  flt_created :: int
  flt_updated :: int

datatype fleet_action = FleetIssued | FleetRotated

record fleet_event =
  fev_org :: nat
  fev_fleet :: nat
  fev_action :: fleet_action
  fev_actor :: "nat option"
  fev_external :: string
  fev_until :: "int option"
  fev_created :: int

record device_db = order_db +
  bindings :: "(nat \<times> binding) list"
  binding_events :: "(nat \<times> binding_event) list"
  fleets :: "(nat \<times> fleet) list"
  fleet_events :: "(nat \<times> fleet_event) list"

type_synonym ('x, 'a) device_txn = "('x device_db_scheme, 'a) txn"

text \<open>The three unique constraints of \<^verbatim>\<open>DeviceBinding\<close>, all among active rows.\<close>

definition binding_clash :: "nat \<Rightarrow> binding \<Rightarrow> nat \<times> binding \<Rightarrow> bool" where
  "binding_clash pk row r \<longleftrightarrow> fst r \<noteq> pk \<and> dev_status (snd r) = Bound \<and> dev_status row = Bound \<and>
     (dev_esim (snd r) = dev_esim row \<or>
      dev_org (snd r) = dev_org row \<and> dev_external (snd r) = dev_external row \<or>
      dev_org (snd r) = dev_org row \<and> dev_serial row \<noteq> [] \<and> dev_serial (snd r) = dev_serial row)"

definition insert_binding :: "nat \<Rightarrow> binding \<Rightarrow> ('x, unit) device_txn" where
  "insert_binding pk row =
     bindE (getsE (\<lambda>db. \<exists>r \<in> set (bindings db). binding_clash pk row r)) (\<lambda>clash.
     if clash then raiseE (EPy IntegrityError)
     else modifyE (\<lambda>db. db\<lparr>bindings := AList.update pk row (bindings db)\<rparr>))"

text \<open>\<^verbatim>\<open>binding.save(update_fields=...)\<close> of a locked row.\<close>

definition update_binding :: "nat \<Rightarrow> (binding \<Rightarrow> binding) \<Rightarrow> ('x, binding) device_txn" where
  "update_binding pk f =
     bindE (getsE (\<lambda>db. map_of (bindings db) pk)) (\<lambda>row.
     bindE (get_or_raise (EPy DatabaseError) row) (\<lambda>r.
     bindE (getsE clock) (\<lambda>now.
     thenE (modifyE (\<lambda>db. db\<lparr>bindings := AList.update pk ((f r)\<lparr>dev_updated := now\<rparr>) (bindings db)\<rparr>))
       (ret ((f r)\<lparr>dev_updated := now\<rparr>)))))"

definition record_binding_event ::
  "nat \<times> binding \<Rightarrow> binding_action \<Rightarrow> nat option \<Rightarrow> nat option \<Rightarrow> ('x, unit) device_txn" where
  "record_binding_event b action actor previous =
     bindE uuid4 (\<lambda>pk. modifyE (\<lambda>db. db\<lparr>binding_events := binding_events db @
       [(pk, \<lparr>bev_org = dev_org (snd b), bev_binding = fst b, bev_esim = dev_esim (snd b), bev_action = action,
              bev_actor = actor, bev_device = dev_external (snd b), bev_previous = previous, bev_created = clock db\<rparr>)]\<rparr>))"

section \<open>Bindings\<close>

definition team_esim_or_404 :: "organization \<Rightarrow> nat \<Rightarrow> ('x, esim) device_txn" where
  "team_esim_or_404 org pk =
     bindE (getsE (\<lambda>db. map_of (esims db) pk)) (\<lambda>row.
     case row of
       None \<Rightarrow> raiseE (EOrg NotFound)
     | Some e \<Rightarrow> if es_account e = org_account org then ret e else raiseE (EOrg NotFound))"

definition set_credential :: "env \<Rightarrow> string \<Rightarrow> nat \<Rightarrow> nat option \<Rightarrow> bool \<Rightarrow> ('x, string) device_txn" where
  "set_credential env raw pk actor is_rotation =
     bindE (getsE clock) (\<lambda>now.
     bindE (update_binding pk (\<lambda>r. r\<lparr>dev_hash := sha256_hex env raw, dev_issued := Some now\<rparr>)) (\<lambda>row.
     thenE (record_binding_event (pk, row) (if is_rotation then ActRotate else ActIssue) actor None) (ret raw)))"

text \<open>The organization of a context; \<open>resolve_organization_context\<close> always has one.\<close>

definition context_org :: "account_context \<Rightarrow> ('s, nat \<times> organization) txn" where
  "context_org ctx = get_or_raise (EPy AttributeError) (cx_org ctx)"

definition newest_first :: "(nat \<times> binding) list \<Rightarrow> (nat \<times> binding) list" where
  "newest_first rows = sort_key (\<lambda>r. - dev_created (snd r)) rows"

definition first_binding :: "(nat \<times> binding) list \<Rightarrow> (nat \<times> binding) option" where
  "first_binding rows = (case newest_first rows of [] \<Rightarrow> None | r # _ \<Rightarrow> Some r)"

definition require_view :: "account_context \<Rightarrow> ('s, unit) txn" where
  "require_view c = require_permission can_view c"

definition list_device_bindings :: "nat \<Rightarrow> nat \<Rightarrow> ('x, (nat \<times> binding) list) device_txn" where
  "list_device_bindings actor org =
     bindE (resolve_organization_context actor org) (\<lambda>ctx.
     thenE (require_view ctx)
       (getsE (\<lambda>db. newest_first (filter (\<lambda>r. dev_org (snd r) = org) (bindings db)))))"

text \<open>\<^verbatim>\<open>filter(pk=binding_id, organization=org).first()\<close>, or 404.\<close>

definition binding_of_org :: "nat \<Rightarrow> nat \<Rightarrow> ('x, binding) device_txn" where
  "binding_of_org org pk =
     bindE (getsE (\<lambda>db. map_of (bindings db) pk)) (\<lambda>row.
     case row of
       None \<Rightarrow> raiseE (EOrg NotFound)
     | Some r \<Rightarrow> if dev_org r = org then ret r else raiseE (EOrg NotFound))"

definition get_device_binding :: "nat \<Rightarrow> nat \<Rightarrow> nat \<Rightarrow> ('x, binding) device_txn" where
  "get_device_binding actor org pk =
     bindE (resolve_organization_context actor org) (\<lambda>ctx.
     thenE (require_view ctx) (binding_of_org org pk))"

text \<open>The active binding of an eSIM makes room for a new one.\<close>

definition replace_binding :: "nat \<Rightarrow> nat \<Rightarrow> ('x, unit) device_txn" where
  "replace_binding actor pk =
     bindE (getsE clock) (\<lambda>now.
     bindE (update_binding pk (\<lambda>r. r\<lparr>dev_status := Replaced, dev_unbound_at := Some now, dev_unbound_by := Some actor,
         dev_hash := [], dev_issued := None\<rparr>)) (\<lambda>_. ret ()))"

definition new_binding :: "nat \<Rightarrow> nat \<Rightarrow> string \<Rightarrow> nat \<Rightarrow> int \<Rightarrow> binding" where
  "new_binding org esim external actor now =
     \<lparr>dev_org = org, dev_esim = esim, dev_external = external, dev_serial = [], dev_guid = [], dev_hash = [],
      dev_issued = None, dev_status = Bound, dev_bound_by = Some actor, dev_unbound_by = None, dev_unbound_at = None,
      dev_replaced_by = None, dev_created = now, dev_updated = now\<rparr>"

definition active_binding :: "nat \<Rightarrow> (nat \<times> binding) list \<Rightarrow> (nat \<times> binding) option" where
  "active_binding esim rows = first_binding (filter (\<lambda>r. dev_esim (snd r) = esim \<and> dev_status (snd r) = Bound) rows)"

text \<open>From the new identifiers to the credential.\<close>

definition store_binding ::
  "env \<Rightarrow> string \<Rightarrow> nat \<Rightarrow> nat \<Rightarrow> nat \<Rightarrow> nat option \<Rightarrow> ('x, nat \<times> string) device_txn" where
  "store_binding env raw actor org esim previous =
     bindE uuid4 (\<lambda>external.
     bindE uuid4 (\<lambda>pk.
     bindE (getsE (\<lambda>db. new_binding org esim (str_nat external) actor (clock db))) (\<lambda>new.
     thenE (catchE (insert_binding pk new)
             (\<lambda>e. if e = EPy IntegrityError then raiseE (EOrg DeviceBindingConflictError) else raiseE e))
    (thenE (case previous of None \<Rightarrow> ret ()
            | Some p \<Rightarrow> bindE (update_binding p (\<lambda>r. r\<lparr>dev_replaced_by := Some pk\<rparr>)) (\<lambda>_. ret ()))
    (thenE (record_binding_event (pk, new) (if previous = None then ActBind else ActRebind) (Some actor) previous)
    (bindE (set_credential env raw pk (Some actor) False) (\<lambda>credential. ret (pk, credential))))))))"

definition create_device_binding ::
  "env \<Rightarrow> string \<Rightarrow> nat \<Rightarrow> nat \<Rightarrow> nat \<Rightarrow> bool \<Rightarrow> ('x, nat \<times> string) device_txn" where
  "create_device_binding env raw actor org_id esim_id replace = atomic (
     bindE (resolve_organization_context actor org_id) (\<lambda>ctx.
     thenE (require_device_bind ctx)
    (bindE (context_org ctx) (\<lambda>(org, row).
     bindE (team_esim_or_404 row esim_id) (\<lambda>_.
     bindE (getsE (\<lambda>db. active_binding esim_id (bindings db))) (\<lambda>existing.
     if existing \<noteq> None \<and> \<not> replace then raiseE (EOrg DeviceBindingConflictError)
     else
       thenE (case existing of None \<Rightarrow> ret () | Some p \<Rightarrow> replace_binding actor (fst p))
         (store_binding env raw actor org esim_id (map_option fst existing))))))))"

definition rotate_device_credential :: "env \<Rightarrow> string \<Rightarrow> nat \<Rightarrow> nat \<Rightarrow> nat \<Rightarrow> ('x, nat \<times> string) device_txn" where
  "rotate_device_credential env raw actor org_id pk = atomic (
     bindE (resolve_organization_context actor org_id) (\<lambda>ctx.
     thenE (require_device_bind ctx)
    (bindE (binding_of_org org_id pk) (\<lambda>row.
     if dev_status row \<noteq> Bound then raiseE (EOrg DeviceBindingNotFoundError)
     else bindE (set_credential env raw pk (Some actor) True) (\<lambda>credential. ret (pk, credential))))))"

definition unbind_device_binding :: "nat \<Rightarrow> nat \<Rightarrow> nat \<Rightarrow> ('x, binding) device_txn" where
  "unbind_device_binding actor org_id pk = atomic (
     bindE (resolve_organization_context actor org_id) (\<lambda>ctx.
     thenE (require_device_bind ctx)
    (bindE (binding_of_org org_id pk) (\<lambda>row.
     if dev_status row \<noteq> Bound then raiseE (EOrg DeviceBindingNotFoundError)
     else
       bindE (getsE clock) (\<lambda>now.
       bindE (update_binding pk (\<lambda>r. r\<lparr>dev_status := Unbound, dev_unbound_at := Some now, dev_unbound_by := Some actor,
           dev_hash := [], dev_issued := None\<rparr>)) (\<lambda>saved.
       thenE (record_binding_event (pk, saved) ActUnbind (Some actor) None) (ret saved)))))))"

section \<open>Fleet credentials\<close>

definition grace_seconds :: "env \<Rightarrow> int option \<Rightarrow> exc + int" where
  "grace_seconds env override = (case override of
     Some g \<Rightarrow> if g < 0 then Inl (EPy ValueError) else Inr g
   | None \<Rightarrow> Inr (FLEET_CREDENTIAL_GRACE_SECONDS env))"

definition record_fleet_event :: "nat \<times> fleet \<Rightarrow> fleet_action \<Rightarrow> nat option \<Rightarrow> ('x, unit) device_txn" where
  "record_fleet_event f action actor =
     bindE uuid4 (\<lambda>pk. modifyE (\<lambda>db. db\<lparr>fleet_events := fleet_events db @
       [(pk, \<lparr>fev_org = flt_org (snd f), fev_fleet = fst f, fev_action = action, fev_actor = actor,
              fev_external = flt_external (snd f), fev_until = flt_until (snd f), fev_created = clock db\<rparr>)]\<rparr>))"

text \<open>One row per organization, a unique non-empty lookup id.\<close>

definition insert_fleet :: "nat \<Rightarrow> fleet \<Rightarrow> ('x, unit) device_txn" where
  "insert_fleet pk row =
     bindE (getsE (\<lambda>db. \<exists>r \<in> set (fleets db). flt_org (snd r) = flt_org row \<or> flt_external (snd r) = flt_external row)) (\<lambda>taken.
     if 64 < length (flt_external row) \<or> 64 < length (flt_hash row) then raiseE (EPy DataError)
     else if taken \<or> flt_external row = [] \<or> flt_hash row = [] then raiseE (EPy IntegrityError)
     else modifyE (\<lambda>db. db\<lparr>fleets := fleets db @ [(pk, row)]\<rparr>))"

text \<open>\<open>raw\<close> and \<open>external\<close> are the two random tokens.\<close>

definition issue_fleet_credential ::
  "env \<Rightarrow> string \<Rightarrow> string \<Rightarrow> nat \<Rightarrow> nat option \<Rightarrow> int option \<Rightarrow> ('x, nat \<times> string \<times> string) device_txn" where
  "issue_fleet_credential env raw external org actor grace = atomic (
     thenE (liftE (grace_seconds env grace))
    (bindE (getsE (\<lambda>db. \<exists>r \<in> set (fleets db). flt_org (snd r) = org)) (\<lambda>has.
     if has then raiseE (EOrg FleetCredentialConflictError)
     else
       bindE (getsE clock) (\<lambda>now.
       bindE uuid4 (\<lambda>pk.
       let row = \<lparr>flt_org = org, flt_external = external, flt_hash = sha256_hex env raw, flt_issued = now,
                  flt_previous = [], flt_until = None, flt_created = now, flt_updated = now\<rparr>
       in thenE (insert_fleet pk row)
         (if external = str_nat org then raiseE (EOrg FleetCredentialConflictError)
          else thenE (record_fleet_event (pk, row) FleetIssued actor) (ret (pk, external, raw))))))))"

definition rotate_fleet_credential ::
  "env \<Rightarrow> string \<Rightarrow> nat \<Rightarrow> nat option \<Rightarrow> int option \<Rightarrow> ('x, nat \<times> string \<times> string) device_txn" where
  "rotate_fleet_credential env raw org actor grace = atomic (
     bindE (getsE (\<lambda>db. find (\<lambda>r. flt_org (snd r) = org) (fleets db))) (\<lambda>found.
     case found of
       None \<Rightarrow> raiseE (EOrg FleetCredentialInvalidError)
     | Some (pk, row) \<Rightarrow>
         bindE (liftE (grace_seconds env grace)) (\<lambda>g.
         bindE (getsE clock) (\<lambda>now.
         let saved = row\<lparr>flt_previous := flt_hash row, flt_until := Some (if g > 0 then now + g * SECOND else now),
                         flt_hash := sha256_hex env raw, flt_issued := now, flt_updated := now\<rparr>
         in thenE (modifyE (\<lambda>db. db\<lparr>fleets := AList.update pk saved (fleets db)\<rparr>))
           (thenE (record_fleet_event (pk, saved) FleetRotated actor) (ret (pk, flt_external row, raw)))))))"

definition verify_fleet_credential :: "env \<Rightarrow> string \<Rightarrow> string \<Rightarrow> ('x, nat \<times> fleet) device_txn" where
  "verify_fleet_credential env external_id credential =
     (let external = strip external_id
      in if external = [] \<or> credential = [] then raiseE (EOrg FleetCredentialInvalidError)
         else
           bindE (getsE (\<lambda>db. find (\<lambda>r. flt_external (snd r) = external) (fleets db))) (\<lambda>found.
           case found of
             None \<Rightarrow> raiseE (EOrg FleetCredentialInvalidError)
           | Some (pk, row) \<Rightarrow>
               (let digest = sha256_hex env credential
                in if flt_hash row = digest then ret (pk, row)
                   else
                     bindE (getsE clock) (\<lambda>now.
                     if flt_previous row \<noteq> [] \<and> (case flt_until row of None \<Rightarrow> False | Some t \<Rightarrow> now \<le> t) \<and>
                        flt_previous row = digest
                     then ret (pk, row) else raiseE (EOrg FleetCredentialInvalidError)))))"

section \<open>BlackBerry UEM\<close>

type_synonym dict = "(string \<times> json) list"

text \<open>\<open>uem_reply\<close> is what \<^verbatim>\<open>_request("GET", "/devices")\<close> returns or the text of its error; \<open>uem_str\<close> is Python's \<^verbatim>\<open>str\<close>
  on JSON values that are not text.\<close>

record uem =
  uem_enabled :: bool
  uem_reply :: "string + dict"
  uem_str :: "json \<Rightarrow> string"

text \<open>\<^verbatim>\<open>str(d.get(key) or "").strip()\<close>\<close>

definition field_text :: "uem \<Rightarrow> string \<Rightarrow> dict \<Rightarrow> string" where
  "field_text u key d = (let v = dict_get key d in strip (if truthy v then json_str (uem_str u) v else []))"

fun as_dict :: "json \<Rightarrow> dict option" where
  "as_dict (JObj kvs) = Some kvs"
| "as_dict v = None"

definition list_devices :: "uem \<Rightarrow> string + dict list" where
  "list_devices u = (case uem_reply u of
     Inl msg \<Rightarrow> Inl msg
   | Inr payload \<Rightarrow> (case dict_get ''devices'' payload of
       JList ds \<Rightarrow> Inr (List.map_filter as_dict ds)
     | _ \<Rightarrow> Inl ''UEM /devices response missing devices list''))"

definition get_device_by_guid :: "uem \<Rightarrow> string \<Rightarrow> string + dict option" where
  "get_device_by_guid u device_guid =
     (let guid = lower (strip device_guid)
      in if guid = [] then Inr None
         else case list_devices u of
           Inl msg \<Rightarrow> Inl msg
         | Inr ds \<Rightarrow> Inr (find (\<lambda>d. lower (field_text u ''guid'' d) = guid) ds))"

definition serial_matches :: "uem \<Rightarrow> string \<Rightarrow> dict list \<Rightarrow> dict list" where
  "serial_matches u serial ds = filter (\<lambda>d. field_text u ''serialNumber'' d = serial) ds"

definition get_device_by_serial :: "uem \<Rightarrow> string \<Rightarrow> string + dict" where
  "get_device_by_serial u serial_number =
     (let serial = strip serial_number
      in if serial = [] then Inl ''UEM serialNumber is required''
         else case list_devices u of
           Inl msg \<Rightarrow> Inl msg
         | Inr ds \<Rightarrow>
             (case serial_matches u serial ds of
                [] \<Rightarrow> Inl ''UEM serialNumber match count is 0 (fail closed)''
              | [d] \<Rightarrow> Inr d
              | ms \<Rightarrow> Inl (''UEM serialNumber match count is '' @ str_nat (length ms) @ '' (fail closed)'')))"

fun contains :: "string \<Rightarrow> string \<Rightarrow> bool" where
  "contains p [] = (p = [])"
| "contains p (c # s) = (starts_with p (c # s) \<or> contains p s)"

definition resolve_uem_device_by_serial :: "uem \<Rightarrow> string \<Rightarrow> exc + dict" where
  "resolve_uem_device_by_serial u serial_number =
     (let serial = strip serial_number
      in if serial = [] then Inl (EOrg DeviceNotFoundError)
         else if \<not> uem_enabled u then Inl (EOrg UemSerialMatchError)
         else case get_device_by_serial u serial of
           Inr d \<Rightarrow> Inr d
         | Inl msg \<Rightarrow> if contains ''match count is 0'' msg then Inl (EOrg DeviceNotFoundError)
                     else if contains ''match count is'' msg then Inl (EOrg DeviceAmbiguousError)
                     else Inl (EOrg UemSerialMatchError))"

text \<open>\<open>b\<close> is the binding object; only its guid column is written.\<close>

definition refresh_binding_uem_guid_from_serial :: "uem \<Rightarrow> nat \<times> binding \<Rightarrow> ('x, dict) device_txn" where
  "refresh_binding_uem_guid_from_serial u b =
     (let serial = strip (dev_serial (snd b))
      in if serial = [] then raiseE (EOrg UemSerialMatchError)
         else case resolve_uem_device_by_serial u serial of
           Inl e \<Rightarrow> raiseE (EOrg UemSerialMatchError)
         | Inr device \<Rightarrow>
             (let guid = field_text u ''guid'' device
              in if guid = [] then raiseE (EOrg UemSerialMatchError)
                 else if dev_guid (snd b) = guid then ret device
                 else if 64 < length guid then raiseE (EPy DataError)
                 else thenE (update_binding (fst b) (\<lambda>r. r\<lparr>dev_guid := guid\<rparr>)) (ret device)))"

definition sim_iccids :: "uem \<Rightarrow> json list \<Rightarrow> string list" where
  "sim_iccids u sims = filter (\<lambda>s. s \<noteq> []) (map (field_text u ''iccid'') (List.map_filter as_dict sims))"

definition resolve_top_level_iccid :: "uem \<Rightarrow> dict \<Rightarrow> exc + string" where
  "resolve_top_level_iccid u device =
     (let iccid = field_text u ''iccid'' device
      in if iccid = [] then Inl (EOrg UemInventoryUnavailableError)
         else case dict_get ''sims'' device of
           JNull \<Rightarrow> Inr iccid
         | JList sims \<Rightarrow>
             if sims = [] then Inl (EOrg UemInventoryUnavailableError)
             else if iccid \<notin> set (sim_iccids u sims) then Inl (EOrg UemInventoryUnavailableError)
             else Inr iccid
         | _ \<Rightarrow> Inl (EOrg UemInventoryUnavailableError))"

section \<open>Resolving the eSIM of a device\<close>

definition esim_for_iccid :: "string \<Rightarrow> (nat \<times> esim) list \<Rightarrow> exc + nat \<times> esim" where
  "esim_for_iccid iccid rows =
     (case filter (\<lambda>r. es_iccid (snd r) = iccid \<and> es_archived (snd r) = None) rows of
        [] \<Rightarrow> Inl (EOrg IccidNotFoundError)
      | [r] \<Rightarrow> Inr r
      | _ \<Rightarrow> Inl (EOrg IccidAmbiguousError))"

definition esim_of_device :: "uem \<Rightarrow> dict \<Rightarrow> (nat \<times> esim) list \<Rightarrow> exc + nat \<times> esim" where
  "esim_of_device u device rows = (case resolve_top_level_iccid u device of
     Inl e \<Rightarrow> Inl e | Inr iccid \<Rightarrow> esim_for_iccid iccid rows)"

definition resolve_esim_via_uem :: "uem \<Rightarrow> binding \<Rightarrow> (nat \<times> esim) list \<Rightarrow> exc + nat \<times> esim" where
  "resolve_esim_via_uem u b rows =
     (let guid = strip (dev_guid b)
      in if guid = [] \<or> \<not> uem_enabled u then Inl (EOrg UemInventoryUnavailableError)
         else case get_device_by_guid u guid of
           Inl msg \<Rightarrow> Inl (EOrg UemInventoryUnavailableError)
         | Inr None \<Rightarrow> Inl (EOrg UemInventoryUnavailableError)
         | Inr (Some device) \<Rightarrow> esim_of_device u device rows)"

definition bound_esim :: "binding \<Rightarrow> (nat \<times> esim) list \<Rightarrow> exc + nat \<times> esim" where
  "bound_esim b rows = (case map_of rows (dev_esim b) of
     None \<Rightarrow> Inl (EPy ObjectDoesNotExist) | Some e \<Rightarrow> Inr (dev_esim b, e))"

definition resolve_binding_and_esim_by_credential ::
  "env \<Rightarrow> uem \<Rightarrow> string \<Rightarrow> string \<Rightarrow> 'x device_db_scheme \<Rightarrow> exc + (nat \<times> binding) \<times> nat \<times> esim" where
  "resolve_binding_and_esim_by_credential env u external_id credential db =
     (let external = strip external_id
      in if external = [] \<or> credential = [] then Inl (EOrg NotFound)
         else case first_binding (filter (\<lambda>r. dev_external (snd r) = external \<and> dev_status (snd r) = Bound) (bindings db)) of
           None \<Rightarrow> Inl (EOrg NotFound)
         | Some b \<Rightarrow>
             if dev_hash (snd b) = [] \<or> dev_hash (snd b) \<noteq> sha256_hex env credential then Inl (EOrg NotFound)
             else (case (if strip (dev_guid (snd b)) \<noteq> [] then resolve_esim_via_uem u (snd b) (esims db)
                         else bound_esim (snd b) (esims db)) of
                 Inl e \<Rightarrow> Inl e | Inr e \<Rightarrow> Inr (b, e)))"

definition resolve_esim_by_serial :: "uem \<Rightarrow> string \<Rightarrow> 'x device_db_scheme \<Rightarrow> exc + nat \<times> esim" where
  "resolve_esim_by_serial u device_serial db =
     (let serial = strip device_serial
      in if serial = [] then Inl (EOrg DeviceNotFoundError)
         else case resolve_uem_device_by_serial u serial of
           Inl e \<Rightarrow> Inl (if e = EOrg UemSerialMatchError then EOrg UemInventoryUnavailableError else e)
         | Inr device \<Rightarrow> esim_of_device u device (esims db))"

section \<open>Snapshots\<close>

record usage_view =
  data_remaining :: "string option"
  data_used :: "string option"
  usage_expires :: "int option"

definition format_mb :: "int option \<Rightarrow> string option" where
  "format_mb v = map_option (\<lambda>n. str_int n @ '' MB'') v"

definition used_mb :: "usage_cache \<Rightarrow> int option" where
  "used_mb c = (case (use_remaining c, use_total c) of
     (Some r, Some t) \<Rightarrow> if r \<le> t then Some (t - r) else None | _ \<Rightarrow> None)"

definition usage_snapshot :: "esim \<Rightarrow> usage_view" where
  "usage_snapshot e =
     \<lparr>data_remaining = (if use_unlimited (es_usage e) = Some True then Some ''unlimited'' else format_mb (use_remaining (es_usage e))),
      data_used = format_mb (used_mb (es_usage e)), usage_expires = use_expired (es_usage e)\<rparr>"

definition auto_topup_snapshot :: "nat \<Rightarrow> 'x order_db_scheme \<Rightarrow> bool" where
  "auto_topup_snapshot esim db = (case find (\<lambda>r. pol_esim (snd r) = esim) (policies db) of
     None \<Rightarrow> False | Some r \<Rightarrow> pol_enabled (snd r) \<and> pol_status (snd r) = PActive)"

definition order_coverage_type :: "order_row \<Rightarrow> string" where
  "order_coverage_type o' =
     (let t = lower (strip (snp_coverage_type (ord_product o'))) in if t \<in> {''local'', ''regional'', ''global''} then t else [])"

record coverage_summary =
  sum_available :: bool
  country_count :: nat

definition coverage_summary_of :: "order_row \<Rightarrow> coverage_summary option" where
  "coverage_summary_of o' = map_option (\<lambda>cs.
     \<lparr>sum_available = order_coverage_type o' \<in> {''regional'', ''global''} \<and> 0 < length cs, country_count = length cs\<rparr>)
     (snp_coverage (ord_product o'))"

record plan_view =
  plan_title :: "string option"
  plan_data :: "string option"
  plan_validity :: "nat option"
  plan_country :: "string option"
  plan_coverage_type :: "string option"
  plan_location :: "string option"
  plan_summary :: "coverage_summary option"

definition plan_snapshot :: "order_row \<Rightarrow> plan_view option" where
  "plan_snapshot o' =
     (let p = ord_product o'; location = strip (snp_location p); country = upper (strip (snp_country p));
          allowance = strip (snp_data p); ctype = order_coverage_type o';
          title = first_nonempty (strip (snp_title p)) location
      in if title = [] \<and> allowance = [] \<and> snp_validity p = None \<and> country = [] \<and> ctype = [] then None
         else Some \<lparr>plan_title = blank_none title, plan_data = blank_none allowance, plan_validity = snp_validity p,
                    plan_country = blank_none country, plan_coverage_type = blank_none ctype,
                    plan_location = blank_none location, plan_summary = coverage_summary_of o'\<rparr>)"

record device_status =
  sts_device :: "string option"
  sts_binding :: "string option"
  sts_esim :: nat
  sts_iccid :: string
  sts_status :: string
  sts_usage :: usage_view
  sts_auto_topup :: bool
  sts_plan :: "plan_view option"
  checked_at :: int

text \<open>\<open>esim\<close> is the resolved eSIM: the argument where there is one, else the one of the binding.\<close>

definition build_device_status_snapshot ::
  "binding option \<Rightarrow> nat \<times> esim \<Rightarrow> 'x order_db_scheme \<Rightarrow> device_status" where
  "build_device_status_snapshot b esim db =
     \<lparr>sts_device = map_option dev_external b, sts_binding = map_option (\<lambda>b. binding_status_value (dev_status b)) b,
      sts_esim = fst esim, sts_iccid = es_iccid (snd esim), sts_status = esim_status_value (es_status (snd esim)),
      sts_usage = usage_snapshot (snd esim), sts_auto_topup = auto_topup_snapshot (fst esim) db,
      sts_plan = Option.bind (map_of (orders db) (es_order (snd esim))) plan_snapshot, checked_at = clock db\<rparr>"

definition get_device_status :: "nat \<Rightarrow> nat \<Rightarrow> string \<Rightarrow> ('x, device_status) device_txn" where
  "get_device_status actor org_id external =
     bindE (resolve_organization_context actor org_id) (\<lambda>ctx.
     thenE (require_view ctx)
    (bindE (context_org ctx) (\<lambda>(org, row).
     bindE (getsE (\<lambda>db. first_binding (filter (\<lambda>r. dev_org (snd r) = org \<and> dev_external (snd r) = external \<and>
         dev_status (snd r) = Bound) (bindings db)))) (\<lambda>found.
     case found of
       None \<Rightarrow> raiseE (EOrg NotFound)
     | Some b \<Rightarrow>
         bindE (getsE (\<lambda>db. bound_esim (snd b) (esims db))) (\<lambda>resolved.
         bindE (liftE resolved) (\<lambda>e.
         if es_account (snd e) \<noteq> org_account row then raiseE (EOrg NotFound)
         else getsE (build_device_status_snapshot (Some (snd b)) e)))))))"

definition get_device_status_by_credential :: "env \<Rightarrow> uem \<Rightarrow> string \<Rightarrow> string \<Rightarrow> 'x device_db_scheme \<Rightarrow> exc + device_status" where
  "get_device_status_by_credential env u external credential db =
     map_sum id (\<lambda>(b, e). build_device_status_snapshot (Some (snd b)) e db)
       (resolve_binding_and_esim_by_credential env u external credential db)"

definition get_device_status_by_serial :: "uem \<Rightarrow> string \<Rightarrow> 'x device_db_scheme \<Rightarrow> exc + device_status" where
  "get_device_status_by_serial u serial db =
     map_sum id (\<lambda>e. build_device_status_snapshot None e db) (resolve_esim_by_serial u serial db)"

record device_coverage =
  cvg_device :: "string option"
  cvg_type :: "string option"
  cvg_countries :: "coverage list option"
  cvg_checked :: int

definition build_device_coverage_snapshot :: "binding option \<Rightarrow> nat \<times> esim \<Rightarrow> 'x order_db_scheme \<Rightarrow> device_coverage" where
  "build_device_coverage_snapshot b esim db =
     (let order = map_of (orders db) (es_order (snd esim))
      in \<lparr>cvg_device = map_option dev_external b,
          cvg_type = Option.bind order (\<lambda>o'. blank_none (order_coverage_type o')),
          cvg_countries = Option.bind order (\<lambda>o'. map_option (filter (\<lambda>c. cov_code c \<noteq> [])) (snp_coverage (ord_product o'))),
          cvg_checked = clock db\<rparr>)"

definition get_device_coverage_by_credential :: "env \<Rightarrow> uem \<Rightarrow> string \<Rightarrow> string \<Rightarrow> 'x device_db_scheme \<Rightarrow> exc + device_coverage" where
  "get_device_coverage_by_credential env u external credential db =
     map_sum id (\<lambda>(b, e). build_device_coverage_snapshot (Some (snd b)) e db)
       (resolve_binding_and_esim_by_credential env u external credential db)"

definition get_device_coverage_by_serial :: "uem \<Rightarrow> string \<Rightarrow> 'x device_db_scheme \<Rightarrow> exc + device_coverage" where
  "get_device_coverage_by_serial u serial db =
     map_sum id (\<lambda>e. build_device_coverage_snapshot None e db) (resolve_esim_by_serial u serial db)"

section \<open>Reachable states\<close>

declare split_paired_All [simp del] split_paired_Ex [simp del] not_None_eq [simp del]

text \<open>Among active bindings an eSIM, a device of an organization and a serial of an organization occur once; device
  identifiers never repeat; a binding that ended has no credential.\<close>

definition binding_row_ok :: "nat \<Rightarrow> nat \<times> binding \<Rightarrow> bool" where
  "binding_row_ok n r \<longleftrightarrow> fst r < n \<and> (\<exists>k < n. dev_external (snd r) = str_nat k) \<and>
     (dev_status (snd r) \<noteq> Bound \<longrightarrow> dev_hash (snd r) = [] \<and> dev_issued (snd r) = None \<and> dev_unbound_at (snd r) \<noteq> None)"

definition bindings_ok :: "'x device_db_scheme \<Rightarrow> bool" where
  "bindings_ok db \<longleftrightarrow> distinct (map fst (bindings db)) \<and> distinct (map (\<lambda>r. dev_external (snd r)) (bindings db)) \<and>
     (\<forall>r \<in> set (bindings db). binding_row_ok (next_uuid db) r) \<and>
     (\<forall>r \<in> set (bindings db). \<forall>s \<in> set (bindings db). \<not> binding_clash (fst r) (snd r) s)"

text \<open>What is kept of a row for ever, and of a row whose binding ended.\<close>

definition same_binding :: "binding \<Rightarrow> binding \<Rightarrow> bool" where
  "same_binding row row' \<longleftrightarrow> dev_org row' = dev_org row \<and> dev_esim row' = dev_esim row \<and> dev_external row' = dev_external row \<and>
     dev_serial row' = dev_serial row \<and> dev_created row' = dev_created row \<and> dev_bound_by row' = dev_bound_by row \<and>
     (dev_status row \<noteq> Bound \<longrightarrow> dev_status row' = dev_status row \<and> dev_hash row' = dev_hash row \<and>
        dev_issued row' = dev_issued row \<and> dev_unbound_at row' = dev_unbound_at row \<and> dev_unbound_by row' = dev_unbound_by row)"

definition bindings_kept :: "'x device_db_scheme \<Rightarrow> 'x device_db_scheme \<Rightarrow> bool" where
  "bindings_kept db t \<longleftrightarrow>
     (\<forall>pk row. map_of (bindings db) pk = Some row \<longrightarrow> (\<exists>row'. map_of (bindings t) pk = Some row' \<and> same_binding row row')) \<and>
     (\<exists>es. binding_events t = binding_events db @ es)"

definition device_since :: "'x device_db_scheme \<Rightarrow> 'x device_db_scheme \<Rightarrow> bool" where
  "device_since db t \<longleftrightarrow> bindings_ok t \<and> bindings_kept db t"

lemma same_binding_refl [simp]: "same_binding row row"
  by (simp add: same_binding_def)

lemma same_binding_trans: "same_binding a b \<Longrightarrow> same_binding b c \<Longrightarrow> same_binding a c"
  by (simp add: same_binding_def)

lemma bindings_kept_refl [simp]: "bindings_kept db db"
  by (simp add: bindings_kept_def)

lemma bindings_kept_trans:
  assumes "bindings_kept db s" "bindings_kept s t"
  shows "bindings_kept db t"
proof -
  have "\<exists>row'. map_of (bindings t) pk = Some row' \<and> same_binding row row'" if "map_of (bindings db) pk = Some row" for pk row
    using assms that same_binding_trans unfolding bindings_kept_def by blast
  moreover have "\<exists>es. binding_events t = binding_events db @ es"
    using assms unfolding bindings_kept_def by (metis append_assoc)
  ultimately show ?thesis unfolding bindings_kept_def by blast
qed

lemma device_since_refl: "bindings_ok db \<Longrightarrow> device_since db db"
  by (simp add: device_since_def)

lemma device_since_trans: "device_since db s \<Longrightarrow> (bindings_ok s \<Longrightarrow> device_since s t) \<Longrightarrow> device_since db t"
  using bindings_kept_trans by (auto simp: device_since_def)

lemma binding_row_later: "binding_row_ok n r \<Longrightarrow> n \<le> m \<Longrightarrow> binding_row_ok m r"
  by (auto simp: binding_row_ok_def)

text \<open>A step that leaves the bindings alone.\<close>

lemma since_frame:
  assumes "bindings_ok s" "bindings t = bindings s" "next_uuid s \<le> next_uuid t" "\<exists>es. binding_events t = binding_events s @ es"
  shows "device_since s t"
  using assms binding_row_later by (fastforce simp: device_since_def bindings_ok_def bindings_kept_def)

lemma binding_key: "bindings_ok s \<Longrightarrow> map_of (bindings s) pk = Some row \<Longrightarrow> r \<in> set (bindings s) \<Longrightarrow> fst r = pk \<Longrightarrow> r = (pk, row)"
  unfolding bindings_ok_def by (metis map_of_is_SomeI option.inject prod.collapse)

lemma since_update:
  assumes ok: "bindings_ok s" and row: "map_of (bindings s) pk = Some row" and same: "same_binding row row'"
    and closed: "dev_status row' \<noteq> Bound \<longrightarrow> dev_hash row' = [] \<and> dev_issued row' = None \<and> dev_unbound_at row' \<noteq> None"
  shows "device_since s (s\<lparr>bindings := AList.update pk row' (bindings s)\<rparr>)"
proof -
  have keys: "distinct (map fst (bindings s))" using ok by (simp add: bindings_ok_def)
  have old: "(pk, row) \<in> set (bindings s)" using row by (rule map_of_SomeD)
  then have rowok: "binding_row_ok (next_uuid s) (pk, row)" using ok by (simp add: bindings_ok_def)
  have "map (\<lambda>r. dev_external (snd r)) (AList.update pk row' (bindings s)) = map (\<lambda>r. dev_external (snd r)) (bindings s)"
    using map_AList_update_same [OF row, of dev_external row'] same by (simp add: same_binding_def)
  moreover have "binding_row_ok (next_uuid s) (pk, row')"
    using rowok same closed by (auto simp: binding_row_ok_def same_binding_def)
  moreover have bound: "dev_status row = Bound" if "dev_status row' = Bound" using that same by (auto simp: same_binding_def)
  have "\<not> binding_clash (fst x) (snd x) y"
    if x: "x = (pk, row') \<or> x \<in> set (bindings s) \<and> fst x \<noteq> pk" and y: "y = (pk, row') \<or> y \<in> set (bindings s) \<and> fst y \<noteq> pk" for x y
  proof
    assume clash: "binding_clash (fst x) (snd x) y"
    define x0 where "x0 = (if fst x = pk then (pk, row) else x)"
    define y0 where "y0 = (if fst y = pk then (pk, row) else y)"
    have "x0 \<in> set (bindings s)" "y0 \<in> set (bindings s)" using x y old by (auto simp: x0_def y0_def)
    moreover have "binding_clash (fst x0) (snd x0) y0"
      using clash x y bound same by (auto simp: x0_def y0_def binding_clash_def same_binding_def)
    ultimately show False using ok by (auto simp: bindings_ok_def)
  qed
  ultimately have "bindings_ok (s\<lparr>bindings := AList.update pk row' (bindings s)\<rparr>)"
    using ok keys_AList_update_old [OF row, of row'] by (auto simp: bindings_ok_def set_AList_update [OF keys])
  moreover have "bindings_kept s (s\<lparr>bindings := AList.update pk row' (bindings s)\<rparr>)"
    using same row by (auto simp: bindings_kept_def)
  ultimately show ?thesis by (simp add: device_since_def)
qed

lemma since_insert:
  assumes ok: "bindings_ok s" and pk: "pk \<notin> fst ` set (bindings s)" and new: "binding_row_ok (next_uuid s) (pk, row)"
    and ext: "dev_external row \<notin> (\<lambda>r. dev_external (snd r)) ` set (bindings s)"
    and clash: "\<not> (\<exists>r \<in> set (bindings s). binding_clash pk row r)"
  shows "device_since s (s\<lparr>bindings := AList.update pk row (bindings s)\<rparr>)"
proof -
  have sym: "binding_clash (fst r) (snd r) (pk, row) \<longleftrightarrow> binding_clash pk row r" for r
    by (auto simp: binding_clash_def)
  have "bindings_ok (s\<lparr>bindings := bindings s @ [(pk, row)]\<rparr>)"
    using ok pk new ext clash sym by (auto simp: bindings_ok_def binding_clash_def)
  moreover have "bindings_kept s (s\<lparr>bindings := bindings s @ [(pk, row)]\<rparr>)"
    by (auto simp: bindings_kept_def map_add_Some_iff)
  ultimately show ?thesis using AList_update_new [OF pk] by (simp add: device_since_def)
qed

lemma update_binding_run: "update_binding pk f s = (Inr r, t) \<longleftrightarrow>
  (\<exists>row. map_of (bindings s) pk = Some row \<and> r = (f row)\<lparr>dev_updated := clock s\<rparr> \<and>
     t = s\<lparr>bindings := AList.update pk ((f row)\<lparr>dev_updated := clock s\<rparr>) (bindings s)\<rparr>)"
  by (auto simp: update_binding_def txn_ok)

lemma binding_event_run: "record_binding_event b action actor previous s = (Inr u, t) \<longleftrightarrow>
  t = s\<lparr>next_uuid := Suc (next_uuid s), binding_events := binding_events s @
    [(next_uuid s, \<lparr>bev_org = dev_org (snd b), bev_binding = fst b, bev_esim = dev_esim (snd b), bev_action = action,
       bev_actor = actor, bev_device = dev_external (snd b), bev_previous = previous, bev_created = clock s\<rparr>)]\<rparr>"
  by (auto simp: record_binding_event_def txn_ok uuid4_def)

lemma event_since: "bindings_ok s \<Longrightarrow> record_binding_event b action actor previous s = (Inr u, t) \<Longrightarrow> device_since s t"
  by (rule since_frame) (auto simp: binding_event_run)

lemma set_credential_run: "set_credential env raw pk actor rot s = (Inr c, t) \<Longrightarrow>
  \<exists>row e. map_of (bindings s) pk = Some row \<and> c = raw \<and>
    t = s\<lparr>bindings := AList.update pk (row\<lparr>dev_hash := sha256_hex env raw, dev_issued := Some (clock s), dev_updated := clock s\<rparr>) (bindings s),
          next_uuid := Suc (next_uuid s), binding_events := binding_events s @ [e]\<rparr> \<and>
    bev_action (snd e) = (if rot then ActRotate else ActIssue) \<and> bev_binding (snd e) = pk \<and> bev_actor (snd e) = actor"
proof -
  assume "set_credential env raw pk actor rot s = (Inr c, t)"
  then obtain row where row: "map_of (bindings s) pk = Some row" "c = raw"
    and t: "record_binding_event (pk, row\<lparr>dev_hash := sha256_hex env raw, dev_issued := Some (clock s), dev_updated := clock s\<rparr>)
        (if rot then ActRotate else ActIssue) actor None
        (s\<lparr>bindings := AList.update pk (row\<lparr>dev_hash := sha256_hex env raw, dev_issued := Some (clock s), dev_updated := clock s\<rparr>) (bindings s)\<rparr>) = (Inr (), t)"
    by (auto simp: set_credential_def txn_ok update_binding_run)
  show ?thesis
    by (rule exI [of _ row], rule exI [of _ "(next_uuid s, \<lparr>bev_org = dev_org row, bev_binding = pk, bev_esim = dev_esim row,
        bev_action = if rot then ActRotate else ActIssue, bev_actor = actor, bev_device = dev_external row, bev_previous = None,
        bev_created = clock s\<rparr>)"]) (use row t in \<open>simp add: binding_event_run\<close>)
qed

lemma set_credential_since:
  assumes "bindings_ok s" "set_credential env raw pk actor rot s = (Inr c, t)"
    and "\<And>row. map_of (bindings s) pk = Some row \<Longrightarrow> dev_status row = Bound"
  shows "device_since s t"
proof -
  from set_credential_run [OF assms(2)] obtain row e where row: "map_of (bindings s) pk = Some row"
    and t: "t = s\<lparr>bindings := AList.update pk (row\<lparr>dev_hash := sha256_hex env raw, dev_issued := Some (clock s), dev_updated := clock s\<rparr>) (bindings s),
          next_uuid := Suc (next_uuid s), binding_events := binding_events s @ [e]\<rparr>" by blast
  have b: "dev_status row = Bound" using assms(3) row by blast
  let ?u = "s\<lparr>bindings := AList.update pk (row\<lparr>dev_hash := sha256_hex env raw, dev_issued := Some (clock s), dev_updated := clock s\<rparr>) (bindings s)\<rparr>"
  have u: "device_since s ?u" by (rule since_update [OF assms(1) row]) (simp_all add: same_binding_def b)
  show ?thesis by (rule device_since_trans [OF u], rule since_frame) (auto simp: t)
qed

lemma keeps_device_atomic:
  assumes "\<And>s x t. bindings_ok s \<Longrightarrow> m s = (Inr x, t) \<Longrightarrow> device_since s t"
  shows "keeps (device_since db) (atomic m)"
  by (rule keeps_atomic_ok) (metis device_since_def device_since_trans assms)

lemma binding_of_org_run: "binding_of_org org pk s = (Inr row, t) \<longleftrightarrow> t = s \<and> map_of (bindings s) pk = Some row \<and> dev_org row = org"
  by (auto simp: binding_of_org_def txn_ok)

lemma team_esim_run: "team_esim_or_404 org pk s = (Inr e, t) \<longleftrightarrow> t = s \<and> map_of (esims s) pk = Some e \<and> es_account e = org_account org"
  by (auto simp: team_esim_or_404_def txn_ok)

lemma require_bind_run: "require_device_bind c s = (Inr u, t) \<longleftrightarrow>
  t = s \<and> (\<exists>pk o' p. cx_org c = Some (pk, o') \<and> org_status o' = OrgActive \<and> cx_permissions c = Some p \<and> can_device_bind p)"
  by (auto simp: require_device_bind_def require_org_mutation_def require_permission_def txn_ok split: option.splits)

lemma keeps_device_rotate [keeps_intros]: "keeps (device_since db) (rotate_device_credential env raw actor org pk)"
  unfolding rotate_device_credential_def
  by (rule keeps_device_atomic)
    (auto simp: txn_ok resolve_org_context_iff require_bind_run binding_of_org_run intro!: set_credential_since)

lemma keeps_device_unbind [keeps_intros]: "keeps (device_since db) (unbind_device_binding actor org pk)"
  unfolding unbind_device_binding_def
proof (rule keeps_device_atomic, goal_cases)
  case (1 s x t)
  then obtain row where row: "map_of (bindings s) pk = Some row" "dev_status row = Bound"
    and e: "record_binding_event (pk, x) ActUnbind (Some actor) None (s\<lparr>bindings := AList.update pk
        (row\<lparr>dev_status := Unbound, dev_unbound_at := Some (clock s), dev_unbound_by := Some actor,
           dev_hash := [], dev_issued := None, dev_updated := clock s\<rparr>) (bindings s)\<rparr>) = (Inr (), t)"
    by (auto simp: txn_ok resolve_org_context_iff require_bind_run binding_of_org_run update_binding_run)
  have u: "device_since s (s\<lparr>bindings := AList.update pk
        (row\<lparr>dev_status := Unbound, dev_unbound_at := Some (clock s), dev_unbound_by := Some actor,
           dev_hash := [], dev_issued := None, dev_updated := clock s\<rparr>) (bindings s)\<rparr>)"
    by (rule since_update [OF 1(1) row(1)]) (simp_all add: same_binding_def row(2))
  show ?case using device_since_trans [OF u] event_since e by blast
qed

lemma first_binding_Some: "first_binding rows = Some r \<Longrightarrow> r \<in> set rows"
proof -
  assume "first_binding rows = Some r"
  then have "r \<in> set (newest_first rows)" by (auto simp: first_binding_def split: list.splits)
  then show ?thesis by (simp add: newest_first_def)
qed

lemma first_binding_None: "first_binding rows = None \<longleftrightarrow> rows = []"
proof -
  have "newest_first rows = [] \<longleftrightarrow> rows = []" unfolding newest_first_def by (metis set_empty set_sort)
  then show ?thesis by (auto simp: first_binding_def split: list.splits)
qed

lemma active_binding_Some: "active_binding esim rows = Some r \<Longrightarrow> r \<in> set rows \<and> dev_esim (snd r) = esim \<and> dev_status (snd r) = Bound"
  by (auto simp: active_binding_def dest: first_binding_Some)

lemma insert_binding_run: "insert_binding pk row s = (Inr u, t) \<longleftrightarrow>
  \<not> (\<exists>r \<in> set (bindings s). binding_clash pk row r) \<and> t = s\<lparr>bindings := AList.update pk row (bindings s)\<rparr>"
  by (auto simp: insert_binding_def txn_ok)

lemma store_stages:
  assumes "store_binding env raw actor org esim previous s = (Inr (pk, c), t)"
  shows "\<exists>s2 s3 s4. c = raw \<and> pk = Suc (next_uuid s) \<and>
    insert_binding pk (new_binding org esim (str_nat (next_uuid s)) actor (clock s)) (s\<lparr>next_uuid := Suc (Suc (next_uuid s))\<rparr>) = (Inr (), s2) \<and>
    (case previous of None \<Rightarrow> s3 = s2 | Some p \<Rightarrow> \<exists>r. update_binding p (\<lambda>r. r\<lparr>dev_replaced_by := Some pk\<rparr>) s2 = (Inr r, s3)) \<and>
    record_binding_event (pk, new_binding org esim (str_nat (next_uuid s)) actor (clock s))
      (if previous = None then ActBind else ActRebind) (Some actor) previous s3 = (Inr (), s4) \<and>
    set_credential env raw pk (Some actor) False s4 = (Inr raw, t)"
proof -
  obtain s2 s3 s4 where r: "pk = Suc (next_uuid s)"
    "insert_binding pk (new_binding org esim (str_nat (next_uuid s)) actor (clock s)) (s\<lparr>next_uuid := Suc (Suc (next_uuid s))\<rparr>) = (Inr (), s2)"
    "(case previous of None \<Rightarrow> ret ()
            | Some p \<Rightarrow> bindE (update_binding p (\<lambda>r. r\<lparr>dev_replaced_by := Some pk\<rparr>)) (\<lambda>_. ret ())) s2 = (Inr (), s3)"
    "record_binding_event (pk, new_binding org esim (str_nat (next_uuid s)) actor (clock s))
      (if previous = None then ActBind else ActRebind) (Some actor) previous s3 = (Inr (), s4)"
    "set_credential env raw pk (Some actor) False s4 = (Inr c, t)"
    using assms by (auto simp: store_binding_def txn_ok uuid4_def)
  have "c = raw" using set_credential_run [OF r(5)] by blast
  moreover have "case previous of None \<Rightarrow> s3 = s2 | Some p \<Rightarrow> \<exists>r. update_binding p (\<lambda>r. r\<lparr>dev_replaced_by := Some pk\<rparr>) s2 = (Inr r, s3)"
    using r(3) by (cases previous) (auto simp: txn_ok)
  ultimately show ?thesis using r by blast
qed

lemma binding_row: "bindings_ok s \<Longrightarrow> map_of (bindings s) pk = Some row \<Longrightarrow> binding_row_ok (next_uuid s) (pk, row)"
  by (auto simp: bindings_ok_def dest!: map_of_SomeD)

lemma store_binding_since:
  assumes ok: "bindings_ok s" and run: "store_binding env raw actor org esim previous s = (Inr (pk, c), t)"
  shows "device_since s t"
proof -
  let ?new = "new_binding org esim (str_nat (next_uuid s)) actor (clock s)"
  let ?s1 = "s\<lparr>next_uuid := Suc (Suc (next_uuid s))\<rparr>"
  from store_stages [OF run] obtain s2 s3 s4 where pk: "pk = Suc (next_uuid s)"
    and i: "insert_binding pk ?new ?s1 = (Inr (), s2)"
    and u: "case previous of None \<Rightarrow> s3 = s2 | Some p \<Rightarrow> \<exists>r. update_binding p (\<lambda>r. r\<lparr>dev_replaced_by := Some pk\<rparr>) s2 = (Inr r, s3)"
    and e: "record_binding_event (pk, ?new) (if previous = None then ActBind else ActRebind) (Some actor) previous s3 = (Inr (), s4)"
    and c: "set_credential env raw pk (Some actor) False s4 = (Inr raw, t)" by blast
  have s1: "device_since s ?s1" by (rule since_frame [OF ok]) simp_all
  have rows: "binding_row_ok (next_uuid s) r" if "r \<in> set (bindings s)" for r using that ok by (simp add: bindings_ok_def)
  have "device_since ?s1 (?s1\<lparr>bindings := AList.update pk ?new (bindings ?s1)\<rparr>)"
  proof (rule since_insert)
    show "bindings_ok ?s1" using s1 by (simp add: device_since_def)
    show "pk \<notin> fst ` set (bindings ?s1)" using rows by (force simp: pk binding_row_ok_def)
    show "binding_row_ok (next_uuid ?s1) (pk, ?new)" by (auto simp: binding_row_ok_def new_binding_def pk)
    show "dev_external ?new \<notin> (\<lambda>r. dev_external (snd r)) ` set (bindings ?s1)"
      using rows by (force simp: binding_row_ok_def new_binding_def)
    show "\<not> (\<exists>r \<in> set (bindings ?s1). binding_clash pk ?new r)" using i by (simp add: insert_binding_run)
  qed
  then have s2: "device_since s s2" using device_since_trans [OF s1] i by (simp add: insert_binding_run)
  have row2: "map_of (bindings s2) pk = Some ?new" using i by (auto simp: insert_binding_run)
  have u3: "device_since s2 s3 \<and> (\<exists>r. map_of (bindings s3) pk = Some r \<and> dev_status r = Bound)"
  proof (cases previous)
    case None
    then show ?thesis using u s2 row2 by (auto simp: device_since_def new_binding_def)
  next
    case (Some p)
    then obtain r where r: "map_of (bindings s2) p = Some r"
      and s3: "s3 = s2\<lparr>bindings := AList.update p (r\<lparr>dev_replaced_by := Some pk, dev_updated := clock s2\<rparr>) (bindings s2)\<rparr>"
      using u by (auto simp: update_binding_run)
    have "bindings_ok s2" using s2 by (simp add: device_since_def)
    from since_update [OF this r, of "r\<lparr>dev_replaced_by := Some pk, dev_updated := clock s2\<rparr>"] binding_row [OF this r]
    have "device_since s2 s3" by (simp add: s3 same_binding_def binding_row_ok_def)
    then show ?thesis using row2 r by (auto simp: s3 new_binding_def)
  qed
  have s3: "device_since s s3" using device_since_trans [OF s2] u3 by blast
  then have s4: "device_since s s4" using device_since_trans [OF s3] event_since [OF _ e] by blast
  have "map_of (bindings s4) pk = map_of (bindings s3) pk" using e by (simp add: binding_event_run)
  then have "device_since s4 t" using set_credential_since [OF _ c] s4 u3 by (auto simp: device_since_def)
  then show ?thesis using device_since_trans [OF s4] by blast
qed

lemma replace_binding_since:
  assumes ok: "bindings_ok s" and run: "replace_binding actor pk s = (Inr u, t)"
    and bound: "\<And>row. map_of (bindings s) pk = Some row \<Longrightarrow> dev_status row = Bound"
  shows "device_since s t"
proof -
  from run obtain row where row: "map_of (bindings s) pk = Some row"
    and t: "t = s\<lparr>bindings := AList.update pk (row\<lparr>dev_status := Replaced, dev_unbound_at := Some (clock s), dev_unbound_by := Some actor,
       dev_hash := [], dev_issued := None, dev_updated := clock s\<rparr>) (bindings s)\<rparr>"
    by (auto simp: replace_binding_def txn_ok update_binding_run)
  show ?thesis unfolding t
    by (rule since_update [OF ok row]) (simp_all add: same_binding_def bound [OF row])
qed

lemma keeps_device_create [keeps_intros]: "keeps (device_since db) (create_device_binding env raw actor org_id esim_id replace)"
  unfolding create_device_binding_def
proof (rule keeps_device_atomic, goal_cases)
  case (1 s x t)
  let ?e = "active_binding esim_id (bindings s)"
  obtain org s1 where r: "(case ?e of None \<Rightarrow> ret () | Some p \<Rightarrow> replace_binding actor (fst p)) s = (Inr (), s1)"
    and st: "store_binding env raw actor org esim_id (map_option fst ?e) s1 = (Inr x, t)"
    using 1(2) by (auto simp: txn_ok resolve_org_context_iff require_bind_run context_org_def team_esim_run)
  have s1: "device_since s s1"
  proof (cases ?e)
    case None
    then show ?thesis using r 1(1) by (simp add: txn_ok device_since_refl)
  next
    case (Some p)
    have p: "p \<in> set (bindings s)" "dev_status (snd p) = Bound" using active_binding_Some [OF Some] by auto
    have "p = (fst p, row)" if "map_of (bindings s) (fst p) = Some row" for row
      using binding_key [OF 1(1) that p(1) refl] .
    then show ?thesis using replace_binding_since [OF 1(1)] r Some p(2) by (metis option.simps(5) snd_conv)
  qed
  then show ?case using device_since_trans [OF s1] store_binding_since st by (cases x) blast
qed

lemma keeps_device_refresh [keeps_intros]: "keeps (device_since db) (refresh_binding_uem_guid_from_serial u b)"
proof (rule keepsI)
  fix s r t
  assume s: "device_since db s" and run: "refresh_binding_uem_guid_from_serial u b s = (r, t)"
  have ok: "bindings_ok s" using s by (simp add: device_since_def)
  consider "t = s" | row guid where "map_of (bindings s) (fst b) = Some row"
      "t = s\<lparr>bindings := AList.update (fst b) (row\<lparr>dev_guid := guid, dev_updated := clock s\<rparr>) (bindings s)\<rparr>"
    using run by (auto simp: refresh_binding_uem_guid_from_serial_def txn_iff update_binding_def Let_def
        split: if_splits sum.splits)
  then show "device_since db t"
  proof cases
    case 1
    then show ?thesis using s by simp
  next
    case 2
    show ?thesis using device_since_trans [OF s]
        since_update [OF ok 2(1), of "row\<lparr>dev_guid := guid, dev_updated := clock s\<rparr>"] binding_row [OF ok 2(1)]
      by (auto simp: 2(2) same_binding_def binding_row_ok_def)
  qed
qed

text \<open>Fleet credentials touch other tables.\<close>

lemma keeps_device_frame:
  assumes "\<And>s r t. m s = (r, t) \<Longrightarrow> bindings t = bindings s \<and> next_uuid s \<le> next_uuid t \<and> binding_events t = binding_events s"
  shows "keeps (device_since db) m"
proof (rule keepsI)
  fix s r t
  assume s: "device_since db s" and run: "m s = (r, t)"
  show "device_since db t"
    using device_since_trans [OF s] since_frame [of s t] assms [OF run] by simp
qed

lemma keeps_device_fleet_steps [keeps_intros]:
  "keeps (device_since db) uuid4" "keeps (device_since db) (insert_fleet pk row)"
  "keeps (device_since db) (record_fleet_event f action actor)"
  "keeps (device_since db) (modifyE (\<lambda>db. db\<lparr>fleets := AList.update pk saved (fleets db)\<rparr>))"
  by (rule keeps_device_frame; auto simp: uuid4_def insert_fleet_def record_fleet_event_def txn_iff split: if_splits)+

lemma keeps_device_issue [keeps_intros]: "keeps (device_since db) (issue_fleet_credential env raw external org actor grace)"
  unfolding issue_fleet_credential_def by (intro keeps_intros)

lemma keeps_device_fleet_rotate [keeps_intros]: "keeps (device_since db) (rotate_fleet_credential env raw org actor grace)"
  unfolding rotate_fleet_credential_def by (intro keeps_intros)

datatype device_call =
    CreateBinding nat nat nat bool string | RotateBinding nat nat nat string | UnbindBinding nat nat nat
  | RefreshGuid uem nat | IssueFleet nat "nat option" "int option" string string
  | RotateFleet nat "nat option" "int option" string | DeviceTime int

fun device_run :: "env \<Rightarrow> device_call \<Rightarrow> 'x device_db_scheme \<Rightarrow> 'x device_db_scheme" where
  "device_run env (CreateBinding actor org esim replace raw) db = snd (create_device_binding env raw actor org esim replace db)"
| "device_run env (RotateBinding actor org pk raw) db = snd (rotate_device_credential env raw actor org pk db)"
| "device_run env (UnbindBinding actor org pk) db = snd (unbind_device_binding actor org pk db)"
| "device_run env (RefreshGuid u pk) db = (case map_of (bindings db) pk of
     None \<Rightarrow> db | Some row \<Rightarrow> snd (refresh_binding_uem_guid_from_serial u (pk, row) db))"
| "device_run env (IssueFleet org actor grace raw external) db = snd (issue_fleet_credential env raw external org actor grace db)"
| "device_run env (RotateFleet org actor grace raw) db = snd (rotate_fleet_credential env raw org actor grace db)"
| "device_run env (DeviceTime d) db = db\<lparr>clock := clock db + d\<rparr>"

lemma device_run_since: "device_since db s \<Longrightarrow> device_since db (device_run env c s)"
proof (cases c)
  case (RefreshGuid u pk)
  assume "device_since db s"
  then show ?thesis using keeps_device_refresh [of db u] by (auto simp: RefreshGuid keeps_def split: option.split)
next
  case (DeviceTime d)
  assume s: "device_since db s"
  show ?thesis using device_since_trans [OF s] since_frame [of s "s\<lparr>clock := clock s + d\<rparr>"] by (simp add: DeviceTime)
qed (auto intro: keeps_device_create keeps_device_rotate keeps_device_unbind keeps_device_issue keeps_device_fleet_rotate
    keeps_snd)

lemma device_runs_since: "device_since db s \<Longrightarrow> device_since db (foldl (\<lambda>s (env, c). device_run env c s) s cs)"
  by (induction cs arbitrary: s) (auto simp: device_run_since)

section \<open>Properties\<close>

text \<open>C35. Across every sequence of bindings, rebinds, rotations, unbinds, UEM refreshes, fleet credential calls and
  time: an eSIM has at most one active binding; of a binding the organization, the eSIM, the identifier and the creator
  never change; a binding that ended stays ended, with the same end and no credential; the audit log only grows.\<close>

theorem bindings_over_time:
  assumes ok: "bindings_ok db" and t: "t = foldl (\<lambda>s (env, c). device_run env c s) db cs"
  shows "bindings_ok t \<and>
    (\<forall>r \<in> set (bindings t). \<forall>s \<in> set (bindings t). dev_status (snd r) = Bound \<longrightarrow> dev_status (snd s) = Bound \<longrightarrow>
       dev_esim (snd r) = dev_esim (snd s) \<longrightarrow> r = s) \<and>
    (\<forall>r \<in> set (bindings t). dev_status (snd r) \<noteq> Bound \<longrightarrow> dev_hash (snd r) = []) \<and>
    (\<forall>pk row. map_of (bindings db) pk = Some row \<longrightarrow> (\<exists>row'. map_of (bindings t) pk = Some row' \<and> same_binding row row')) \<and>
    (\<exists>es. binding_events t = binding_events db @ es)"
proof -
  have since: "device_since db t" unfolding t by (rule device_runs_since [OF device_since_refl [OF ok]])
  then have okt: "bindings_ok t" and kept: "bindings_kept db t" by (simp_all add: device_since_def)
  have "r = s" if "r \<in> set (bindings t)" "s \<in> set (bindings t)" "dev_status (snd r) = Bound" "dev_status (snd s) = Bound"
      "dev_esim (snd r) = dev_esim (snd s)" for r s
  proof -
    have "\<not> binding_clash (fst r) (snd r) s" using okt that(1,2) by (simp add: bindings_ok_def)
    then have "fst s = fst r" using that(3-5) by (simp add: binding_clash_def)
    then show ?thesis using okt that(1,2) unfolding bindings_ok_def by (metis distinct_map inj_onD)
  qed
  moreover have "dev_hash (snd r) = []" if "r \<in> set (bindings t)" "dev_status (snd r) \<noteq> Bound" for r
    using okt that by (simp add: bindings_ok_def binding_row_ok_def)
  ultimately show ?thesis using okt kept unfolding bindings_kept_def by blast
qed

lemma digit_char_no_space: "d < 10 \<Longrightarrow> \<not> is_space (digit_char d)"
  by (auto simp: is_space_def digit_char_def)

lemma external_strip: "bindings_ok s \<Longrightarrow> r \<in> set (bindings s) \<Longrightarrow> strip (dev_external (snd r)) = dev_external (snd r) \<and> dev_external (snd r) \<noteq> []"
proof -
  assume "bindings_ok s" "r \<in> set (bindings s)"
  then obtain k where k: "dev_external (snd r) = str_nat k" by (auto simp: bindings_ok_def binding_row_ok_def)
  have "strip (str_nat k) = str_nat k" by (rule strip_no_space) (metis str_nat_digits digit_char_no_space)
  then show ?thesis using k by simp
qed

lemma filter_distinct_key: "distinct (map f xs) \<Longrightarrow> x \<in> set xs \<Longrightarrow> filter (\<lambda>y. f y = f x) xs = [x]"
  by (induction xs) (auto simp: filter_empty_conv image_iff)

text \<open>The identifier of a binding finds at most that binding.\<close>

lemma filter_external:
  assumes ok: "bindings_ok s" and row: "map_of (bindings s) pk = Some row"
  shows "filter (\<lambda>r. dev_external (snd r) = dev_external row \<and> dev_status (snd r) = Bound) (bindings s) =
    (if dev_status row = Bound then [(pk, row)] else [])"
proof -
  have d: "distinct (map (\<lambda>r. dev_external (snd r)) (bindings s))" using ok by (simp add: bindings_ok_def)
  have i: "(pk, row) \<in> set (bindings s)" using row by (rule map_of_SomeD)
  have eq: "filter (\<lambda>r. dev_external (snd r) = dev_external row) (bindings s) = [(pk, row)]"
    using filter_distinct_key [OF d i] by simp
  have "filter (\<lambda>r. dev_external (snd r) = dev_external row \<and> dev_status (snd r) = Bound) (bindings s) =
      filter (\<lambda>r. dev_status (snd r) = Bound) (filter (\<lambda>r. dev_external (snd r) = dev_external row) (bindings s))"
    by (simp add: conj_commute)
  then show ?thesis unfolding eq by simp
qed

lemma first_binding_single [simp]: "first_binding [r] = Some r" "first_binding [] = None"
  by (simp_all add: first_binding_def newest_first_def)

text \<open>C36. When a binding is unbound, its device is locked out at once and for ever: whatever is called afterwards - a
  new binding of the same eSIM, rotations, UEM refreshes - no credential resolves under its identifier again.\<close>

theorem unbound_device_locked_out:
  assumes ok: "bindings_ok s" and row: "map_of (bindings s) pk = Some row"
    and run: "unbind_device_binding actor org pk s = (Inr saved, t)"
    and later: "v = foldl (\<lambda>s (env, c). device_run env c s) t cs"
  shows "resolve_binding_and_esim_by_credential env u (dev_external row) credential v = Inl (EOrg NotFound)"
proof -
  have st: "device_since s t" using keepsD [OF keeps_device_unbind device_since_refl [OF ok] run] .
  have "device_since t v" unfolding later by (rule device_runs_since [OF device_since_refl]) (use st in \<open>simp add: device_since_def\<close>)
  moreover have "\<exists>r. map_of (bindings t) pk = Some r \<and> dev_status r = Unbound \<and> dev_external r = dev_external row"
    using run row by (auto simp: unbind_device_binding_def txn_ok resolve_org_context_iff require_bind_run binding_of_org_run
        update_binding_run binding_event_run)
  ultimately obtain r where r: "map_of (bindings v) pk = Some r" "dev_status r = Unbound" "dev_external r = dev_external row"
    and okv: "bindings_ok v" unfolding device_since_def bindings_kept_def same_binding_def by (metis binding_status.distinct(1))
  show ?thesis using filter_external [OF okv r(1)] r(2,3) external_strip [OF ok map_of_SomeD [OF row]]
    by (simp add: resolve_binding_and_esim_by_credential_def)
qed

text \<open>C37. A rotation replaces the secret of the device at once: after it, the identifier resolves exactly for the
  credentials with the digest of the new secret, to the same binding and its eSIM (or the one UEM reports when the
  binding has a UEM guid); the old secret, and every other one, is refused. Only an active Owner or Admin of the
  binding's own, active organization gets there.\<close>

theorem rotation_replaces_credential:
  assumes ok: "bindings_ok s" and row: "map_of (bindings s) pk = Some row"
    and run: "rotate_device_credential env raw actor org pk s = (Inr (pk', secret), t)"
  shows "pk' = pk \<and> secret = raw \<and> dev_org row = org \<and>
    (\<exists>o' m. map_of (organizations s) org = Some o' \<and> org_status o' = OrgActive \<and>
       membership_of org actor (memberships s) = Some m \<and> mem_status (snd m) = MActive \<and> mem_role (snd m) \<in> {Owner, Admin}) \<and>
    (let row' = row\<lparr>dev_hash := sha256_hex env raw, dev_issued := Some (clock s), dev_updated := clock s\<rparr>
     in resolve_binding_and_esim_by_credential env u (dev_external row) credential t =
       (if credential = [] \<or> sha256_hex env raw = [] \<or> sha256_hex env credential \<noteq> sha256_hex env raw then Inl (EOrg NotFound)
        else map_sum id (Pair (pk, row'))
          (if strip (dev_guid row) \<noteq> [] then resolve_esim_via_uem u row' (esims s) else bound_esim row' (esims s))))"
proof -
  let ?row = "row\<lparr>dev_hash := sha256_hex env raw, dev_issued := Some (clock s), dev_updated := clock s\<rparr>"
  have okt: "bindings_ok t"
    using keepsD [OF keeps_device_rotate device_since_refl [OF ok] run] by (simp add: device_since_def)
  have c: "set_credential env raw pk (Some actor) True s = (Inr secret, t)" and secret: "secret = raw"
    using run set_credential_run [of env raw pk "Some actor" True s secret t]
    by (auto simp: rotate_device_credential_def txn_ok resolve_org_context_iff require_bind_run binding_of_org_run)
  obtain o' m where auth: "map_of (organizations s) org = Some o'" "membership_of org actor (memberships s) = Some m"
      "mem_status (snd m) = MActive" "org_status o' = OrgActive" "can_device_bind (permissions_for_role (mem_role (snd m)))"
    and own: "dev_org row = org" "dev_status row = Bound" "pk' = pk"
    using run row by (auto simp: rotate_device_credential_def txn_ok resolve_org_context_iff require_bind_run binding_of_org_run)
  have role: "mem_role (snd m) \<in> {Owner, Admin}" using auth(5) by (cases "mem_role (snd m)") auto
  have t: "map_of (bindings t) pk = Some ?row" "esims t = esims s" using set_credential_run [OF c] row by auto
  have "resolve_binding_and_esim_by_credential env u (dev_external row) credential t =
       (if credential = [] \<or> sha256_hex env raw = [] \<or> sha256_hex env credential \<noteq> sha256_hex env raw then Inl (EOrg NotFound)
        else map_sum id (Pair (pk, ?row))
          (if strip (dev_guid row) \<noteq> [] then resolve_esim_via_uem u ?row (esims s) else bound_esim ?row (esims s)))"
    using filter_external [OF okt t(1)] external_strip [OF ok map_of_SomeD [OF row]] own(2) t(2)
    by (auto simp: resolve_binding_and_esim_by_credential_def split: sum.split)
  then show ?thesis using auth role own secret by (auto simp: Let_def)
qed

lemma find_distinct_key: "distinct (map f xs) \<Longrightarrow> x \<in> set xs \<Longrightarrow> find (\<lambda>y. f y = f x) xs = Some x"
  by (induction xs) auto

text \<open>C38. After a rotation of the fleet credential both secrets are honoured for the grace window and then only the new
  one: a check under the fleet identifier succeeds exactly for the digest of the new secret, at any time, or for that of
  the previous one up to and including the end of the window (the override, else the configured seconds, never before
  the rotation). A second rotation would forget the older secret.\<close>

theorem fleet_grace_window:
  assumes run: "rotate_fleet_credential env raw org actor grace s = (Inr (pk, external, secret), t)"
    and row: "find (\<lambda>r. flt_org (snd r) = org) (fleets s) = Some (pk, row)"
    and unique: "distinct (map fst (fleets s))" "distinct (map (\<lambda>r. flt_external (snd r)) (fleets s))"
    and token: "strip (flt_external row) = flt_external row" "flt_external row \<noteq> []" "flt_hash row \<noteq> []"
    and later: "fleets u = fleets t"
  shows "external = flt_external row \<and> secret = raw \<and>
    (\<exists>g row'. grace_seconds env grace = Inr g \<and>
       verify_fleet_credential env external credential u =
         (if credential \<noteq> [] \<and> (sha256_hex env credential = sha256_hex env raw \<or>
             sha256_hex env credential = flt_hash row \<and> clock u \<le> clock s + max 0 g * SECOND)
          then Inr (pk, row') else Inl (EOrg FleetCredentialInvalidError), u) \<and> flt_org row' = org)"
proof -
  obtain g where g: "grace_seconds env grace = Inr g" and out: "external = flt_external row" "secret = raw"
    and t: "fleets t = AList.update pk (row\<lparr>flt_previous := flt_hash row,
        flt_until := Some (if g > 0 then clock s + g * SECOND else clock s),
        flt_hash := sha256_hex env raw, flt_issued := clock s, flt_updated := clock s\<rparr>) (fleets s)"
    using run row by (auto simp: rotate_fleet_credential_def txn_ok record_fleet_event_def uuid4_def Let_def)
  define row' where "row' = row\<lparr>flt_previous := flt_hash row, flt_until := Some (if g > 0 then clock s + g * SECOND else clock s),
        flt_hash := sha256_hex env raw, flt_issued := clock s, flt_updated := clock s\<rparr>"
  have old: "(pk, row) \<in> set (fleets s)" and org: "flt_org row = org"
    using row by (auto simp: find_Some_iff in_set_conv_nth) (metis snd_conv)
  have mem: "map_of (fleets s) pk = Some row" using old unique(1) by simp
  have names: "map (\<lambda>r. flt_external (snd r)) (fleets u) = map (\<lambda>r. flt_external (snd r)) (fleets s)"
    using map_AList_update_same [OF mem, of flt_external row'] by (simp add: later t row'_def)
  have new: "(pk, row') \<in> set (fleets u)" using unique(1) by (simp add: later t row'_def set_AList_update)
  have "find (\<lambda>r. flt_external (snd r) = flt_external row) (fleets u) = Some (pk, row')"
    using find_distinct_key [OF _ new, of "\<lambda>r. flt_external (snd r)"] unique(2) names by (simp add: row'_def)
  then have "verify_fleet_credential env external credential u =
         (if credential \<noteq> [] \<and> (sha256_hex env credential = sha256_hex env raw \<or>
             sha256_hex env credential = flt_hash row \<and> clock u \<le> clock s + max 0 g * SECOND)
          then Inr (pk, row') else Inl (EOrg FleetCredentialInvalidError), u)"
    using token by (auto simp: verify_fleet_credential_def out txn_defs row'_def Let_def max_def)
  then show ?thesis using g out org by (auto simp: row'_def)
qed

lemma contains_no_head: "c \<notin> set s \<Longrightarrow> \<not> contains (c # p) s"
  by (induction s) (auto simp: starts_with_def)

lemma str_nat_head: "0 < n \<Longrightarrow> \<exists>c cs. str_nat n = c # cs \<and> c \<noteq> CHR ''0''"
proof (induction n rule: str_nat.induct)
  case (1 n)
  show ?case
  proof (cases "n < 10")
    case True
    then show ?thesis using 1(2) of_char_digit [of n] by (auto simp: str_nat.simps [of n])
  next
    case False
    then obtain c cs where "str_nat (n div 10) = c # cs" "c \<noteq> CHR ''0''" using 1(1) by fastforce
    then show ?thesis using False by (subst str_nat.simps) simp
  qed
qed

lemma str_nat_no_letter: "m \<in> set (str_nat n) \<Longrightarrow> (of_char m :: nat) < 58"
  using str_nat_digits [of m n] of_char_digit by fastforce

text \<open>The error text of a several-fold match tells itself from the one of no match, whatever the number.\<close>

lemma several_not_none:
  assumes "0 < n"
  shows "\<not> contains ''match count is 0'' (''UEM serialNumber match count is '' @ str_nat n @ '' (fail closed)'')"
    and "contains ''match count is'' (''UEM serialNumber match count is '' @ str_nat n @ '' (fail closed)'')"
proof -
  have "\<not> contains ''match count is 0'' (str_nat n @ '' (fail closed)'')"
    by (rule contains_no_head) (auto dest: str_nat_no_letter)
  then show "\<not> contains ''match count is 0'' (''UEM serialNumber match count is '' @ str_nat n @ '' (fail closed)'')"
    using str_nat_head [OF assms] by (auto simp: starts_with_def)
  show "contains ''match count is'' (''UEM serialNumber match count is '' @ str_nat n @ '' (fail closed)'')"
    by (simp add: starts_with_def)
qed

text \<open>With the device list at hand.\<close>

lemma resolve_listed:
  assumes devices: "list_devices u = Inr ds"
  shows "resolve_uem_device_by_serial u serial =
    (if strip serial = [] then Inl (EOrg DeviceNotFoundError)
     else if \<not> uem_enabled u then Inl (EOrg UemSerialMatchError)
     else case filter (\<lambda>d. field_text u ''serialNumber'' d = strip serial) ds of
       [] \<Rightarrow> Inl (EOrg DeviceNotFoundError) | [d] \<Rightarrow> Inr d | _ \<Rightarrow> Inl (EOrg DeviceAmbiguousError))"
proof (cases "strip serial = [] \<or> \<not> uem_enabled u")
  case False
  consider "serial_matches u (strip serial) ds = []" | d where "serial_matches u (strip serial) ds = [d]"
    | d d' ms where "serial_matches u (strip serial) ds = d # d' # ms" by (metis list.exhaust)
  then show ?thesis
  proof cases
    case 3
    have "\<not> contains ''match count is 0'' (''UEM serialNumber match count is '' @ str_nat (length (d # d' # ms)) @ '' (fail closed)'')"
      "contains ''match count is'' (''UEM serialNumber match count is '' @ str_nat (length (d # d' # ms)) @ '' (fail closed)'')"
      by (rule several_not_none; simp)+
    then show ?thesis using False 3 devices
      by (simp add: resolve_uem_device_by_serial_def get_device_by_serial_def serial_matches_def Let_def del: contains.simps append.simps)
  qed (use False devices in \<open>simp_all add: starts_with_def resolve_uem_device_by_serial_def get_device_by_serial_def serial_matches_def Let_def\<close>)
qed (auto simp: resolve_uem_device_by_serial_def Let_def)

text \<open>C39. Resolving a device by serial number fails closed: only a single match is a device. A blank serial is
  an unknown device, and every lookup with UEM off a match error. Otherwise, with the device list in the reply, an
  unknown device is exactly no match and an ambiguous one two or more matches; a reply without the list
  is a match error. When the request itself fails, its error text decides: it is a match error unless
  the text happens to contain the words by which the service tells the client's match counts apart.\<close>

theorem serial_resolution_exact:
  "resolve_uem_device_by_serial u serial =
    (if strip serial = [] then Inl (EOrg DeviceNotFoundError)
     else if \<not> uem_enabled u then Inl (EOrg UemSerialMatchError)
     else case uem_reply u of
       Inl msg \<Rightarrow> Inl (EOrg (if contains ''match count is 0'' msg then DeviceNotFoundError
         else if contains ''match count is'' msg then DeviceAmbiguousError else UemSerialMatchError))
     | Inr payload \<Rightarrow> (case dict_get ''devices'' payload of
         JList vs \<Rightarrow> (case filter (\<lambda>d. field_text u ''serialNumber'' d = strip serial) (List.map_filter as_dict vs) of
           [] \<Rightarrow> Inl (EOrg DeviceNotFoundError) | [d] \<Rightarrow> Inr d | _ \<Rightarrow> Inl (EOrg DeviceAmbiguousError))
       | _ \<Rightarrow> Inl (EOrg UemSerialMatchError)))"
proof (cases "strip serial = [] \<or> \<not> uem_enabled u")
  case False
  show ?thesis
  proof (cases "list_devices u")
    case (Inr ds)
    then obtain payload vs where l: "uem_reply u = Inr payload" "dict_get ''devices'' payload = JList vs"
        "ds = List.map_filter as_dict vs"
      by (auto simp: list_devices_def split: sum.splits json.splits)
    show ?thesis using resolve_listed [OF Inr, of serial] False by (simp add: l)
  next
    case (Inl msg)
    have no_list: "\<not> contains ''match count is 0'' ''UEM /devices response missing devices list''"
      "\<not> contains ''match count is'' ''UEM /devices response missing devices list''"
      by (simp_all add: starts_with_def)
    show ?thesis
      using False Inl no_list
      by (auto simp: resolve_uem_device_by_serial_def get_device_by_serial_def Let_def list_devices_def
          split: sum.splits json.splits simp del: contains.simps)
  qed
qed (auto simp: resolve_uem_device_by_serial_def Let_def)

section \<open>Witnesses\<close>

definition demo_device_db :: device_db where
  "demo_device_db = order_db.extend demo_order_db
     \<lparr>bindings = [(1, (new_binding 0 7 ''0'' 8 500)\<lparr>dev_hash := ''hold'', dev_issued := Some 500\<rparr>)], binding_events = [],
      fleets = [(2, \<lparr>flt_org = 0, flt_external = ''fx'', flt_hash = ''hold'', flt_issued = 500, flt_previous = [],
         flt_until = None, flt_created = 500, flt_updated = 500\<rparr>)], fleet_events = []\<rparr>"

lemma demo_device_db_simps [simp]:
  "bindings demo_device_db = [(1, (new_binding 0 7 ''0'' 8 500)\<lparr>dev_hash := ''hold'', dev_issued := Some 500\<rparr>)]"
  "binding_events demo_device_db = []" "next_uuid demo_device_db = 3" "clock demo_device_db = 1000"
  "fleets demo_device_db = [(2, \<lparr>flt_org = 0, flt_external = ''fx'', flt_hash = ''hold'', flt_issued = 500, flt_previous = [],
         flt_until = None, flt_created = 500, flt_updated = 500\<rparr>)]"
  "organizations demo_device_db = organizations demo_partner_db" "memberships demo_device_db = memberships demo_partner_db"
  "esims demo_device_db = [(7, demo_esim 1)]"
  by (simp_all add: demo_device_db_def order_db.defs demo_order_db_def org_db.defs demo_org_db_def partner_db.defs demo_partner_db_def
      demo_deposit_db_def demo_wallet_db_def demo_voucher_db_def demo_pricing_db_def demo_db_def credit_db.defs pricing_db.defs
      voucher_db.defs wallet_db.defs deposit_db.defs)

lemma demo_external: "str_nat 0 = ''0''"
  by code_simp

lemma demo_bindings_ok: "bindings_ok demo_device_db"
  using demo_external by (auto simp: bindings_ok_def binding_row_ok_def new_binding_def binding_clash_def intro!: exI [of _ 0])

lemmas demo_device_defs = resolve_organization_context_def require_device_bind_def require_org_mutation_def
  require_permission_def binding_of_org_def update_binding_def record_binding_event_def set_credential_def uuid4_def membership_of_def
  demo_env_def new_binding_def txn_defs

lemma bindings_over_time_witness:
  "bindings_ok (foldl (\<lambda>s (env, c). device_run env c s) demo_device_db
     [(demo_env, UnbindBinding 8 0 1), (demo_env, DeviceTime 5), (demo_env, CreateBinding 8 0 7 False ''n'')])"
  using bindings_over_time [OF demo_bindings_ok refl] by blast

lemma demo_unbind: "\<exists>saved t. unbind_device_binding 8 0 1 demo_device_db = (Inr saved, t)"
  by (simp add: unbind_device_binding_def demo_device_defs)

lemma unbound_device_locked_out_witness:
  "\<exists>saved t. unbind_device_binding 8 0 1 demo_device_db = (Inr saved, t) \<and>
     resolve_binding_and_esim_by_credential demo_env \<lparr>uem_enabled = False, uem_reply = Inl [], uem_str = (\<lambda>_. [])\<rparr> ''0'' ''old''
       (foldl (\<lambda>s (env, c). device_run env c s) t [(demo_env, CreateBinding 8 0 7 False ''old'')]) = Inl (EOrg NotFound)"
proof -
  obtain saved t where t: "unbind_device_binding 8 0 1 demo_device_db = (Inr saved, t)" using demo_unbind by blast
  have row: "map_of (bindings demo_device_db) 1 = Some ((new_binding 0 7 ''0'' 8 500)\<lparr>dev_hash := ''hold'', dev_issued := Some 500\<rparr>)"
    by simp
  have ext: "dev_external ((new_binding 0 7 ''0'' 8 500)\<lparr>dev_hash := ''hold'', dev_issued := Some 500\<rparr>) = ''0''"
    by (simp add: new_binding_def)
  show ?thesis using unbound_device_locked_out [OF demo_bindings_ok row t refl, unfolded ext] t by blast
qed

lemma demo_rotate: "\<exists>t. rotate_device_credential demo_env ''new'' 8 0 1 demo_device_db = (Inr (1, ''new''), t)"
  by (simp add: rotate_device_credential_def demo_device_defs)

lemma rotation_replaces_credential_witness:
  "\<exists>t. rotate_device_credential demo_env ''new'' 8 0 1 demo_device_db = (Inr (1, ''new''), t) \<and>
     resolve_binding_and_esim_by_credential demo_env \<lparr>uem_enabled = False, uem_reply = Inl [], uem_str = (\<lambda>_. [])\<rparr> ''0'' ''old'' t =
       Inl (EOrg NotFound)"
proof -
  obtain t where t: "rotate_device_credential demo_env ''new'' 8 0 1 demo_device_db = (Inr (1, ''new''), t)" using demo_rotate by blast
  have row: "map_of (bindings demo_device_db) 1 = Some ((new_binding 0 7 ''0'' 8 500)\<lparr>dev_hash := ''hold'', dev_issued := Some 500\<rparr>)"
    by simp
  show ?thesis
    using rotation_replaces_credential [OF demo_bindings_ok row t, of "\<lparr>uem_enabled = False, uem_reply = Inl [], uem_str = (\<lambda>_. [])\<rparr>" "''old''"] t
    by (auto simp: new_binding_def demo_env_def Let_def)
qed

lemma demo_fleet_rotate: "\<exists>t. rotate_fleet_credential demo_env ''new'' 0 None (Some 60) demo_device_db = (Inr (2, ''fx'', ''new''), t)"
  by (simp add: rotate_fleet_credential_def grace_seconds_def record_fleet_event_def uuid4_def txn_defs Let_def)

lemma fleet_grace_window_witness:
  "\<exists>t. rotate_fleet_credential demo_env ''new'' 0 None (Some 60) demo_device_db = (Inr (2, ''fx'', ''new''), t) \<and>
     fst (verify_fleet_credential demo_env ''fx'' ''other'' t) = Inl (EOrg FleetCredentialInvalidError)"
proof -
  obtain t where t: "rotate_fleet_credential demo_env ''new'' 0 None (Some 60) demo_device_db = (Inr (2, ''fx'', ''new''), t)"
    using demo_fleet_rotate by blast
  let ?row = "\<lparr>flt_org = 0, flt_external = ''fx'', flt_hash = ''hold'', flt_issued = 500, flt_previous = [],
         flt_until = None, flt_created = 500, flt_updated = 500\<rparr>"
  have row: "find (\<lambda>r. flt_org (snd r) = 0) (fleets demo_device_db) = Some (2, ?row)" by simp
  have "strip ''fx'' = ''fx''" by (rule strip_no_space) (auto simp: is_space_def)
  then have "strip (flt_external ?row) = flt_external ?row" "flt_external ?row \<noteq> []" "flt_hash ?row \<noteq> []" by simp_all
  from fleet_grace_window [OF t row _ _ this refl, of "''other''"]
  obtain row' where "verify_fleet_credential demo_env ''fx'' ''other'' t = (if ''other'' \<noteq> [] \<and>
      (sha256_hex demo_env ''other'' = sha256_hex demo_env ''new'' \<or> sha256_hex demo_env ''other'' = ''hold'' \<and>
       clock t \<le> clock demo_device_db + max 0 60 * SECOND)
      then Inr (2, row') else Inl (EOrg FleetCredentialInvalidError), t)" by (auto simp: grace_seconds_def)
  then have "fst (verify_fleet_credential demo_env ''fx'' ''other'' t) = Inl (EOrg FleetCredentialInvalidError)"
    by (simp add: demo_env_def)
  then show ?thesis using t by blast
qed

lemma serial_resolution_exact_witness:
  "resolve_uem_device_by_serial \<lparr>uem_enabled = True, uem_reply = Inr [(''devices'', JList [])], uem_str = (\<lambda>_. [])\<rparr> '' S1 '' =
     Inl (EOrg DeviceNotFoundError)"
  using serial_resolution_exact [of "\<lparr>uem_enabled = True, uem_reply = Inr [(''devices'', JList [])], uem_str = (\<lambda>_. [])\<rparr>" "'' S1 ''"]
  by (simp add: dict_get_def List.map_filter_def)

end
