(* ===== verification/Spec2Isabelle.thy ===== *)
theory Spec2Isabelle
  imports AutoTopups Accounts VoucherExport Devices
begin

text \<open>
  A verification development of roamkit-api, the Django backend that sells eSIM data plans against
  prepaid credits. It models the service layer under \<^verbatim>\<open>src/src/apps\<close>, where the program decides who may do
  what and where money moves. All paths below are relative to that directory.

  \<^bold>\<open>The program and its parts.\<close>

  Users have accounts with a credit balance; every change of a balance is a row of an append-only ledger
  under an idempotency key. Money comes in by blockchain deposits (a receive wallet and a verification
  service), by vouchers and by partner grants and bonuses. Money goes out by orders, top-ups (bought by hand or by an
  auto top-up policy) and subscription renewals, each priced by the account's pricing profile. Purchases of
  attributed customers earn their partner a share of the margin. Organizations own accounts, eSIMs and device
  bindings and give their members roles. All of these call the one ledger service and publish events.

  The database is one record that grows with the theories: \<open>credit_db\<close>, \<open>pricing_db\<close>, \<open>voucher_db\<close>, \<open>wallet_db\<close>,
  \<open>deposit_db\<close>, \<open>partner_db\<close>, \<open>org_db\<close>, and from there \<open>order_db\<close> and its extensions for the shop, the devices
  and \<open>auth_db\<close> for the accounts app; \<open>voucher_admin_db\<close> extends \<open>voucher_db\<close>. A definition over one of them works on
  every extension and cannot change a table that an extension adds. So a call from one component into another (an order
  that debits the ledger and accrues a partner share) is the call of the same definition on the larger record.

  \<^bold>\<open>Theories and sources.\<close>

  Shared ground: \<open>Prelude\<close> (exceptions, transactions \<open>bindE\<close>, \<open>atomic\<close>, \<open>catchE\<close>, \<open>retry\<close>, the predicate \<open>keeps\<close>,
  tables), \<open>Decimals\<close> (\<^verbatim>\<open>Decimal.quantize\<close>; locale \<open>quantum\<close>, interpreted for cents and for the ledger's six
  digits), \<open>Text\<close> (\<^verbatim>\<open>strip\<close>, \<^verbatim>\<open>upper\<close>, \<^verbatim>\<open>int\<close>), \<open>Keys\<close> (text of keys), \<open>Dates\<close> (the calendar and ISO dates), \<open>Events\<close>
  (\<^verbatim>\<open>shared/events\<close>), \<open>Settings\<close> (\<^verbatim>\<open>config/settings/base.py\<close>), \<open>Catalog\<close> (\<^verbatim>\<open>catalog/models.py\<close>, provider DTOs).

  \<open>Ledger_Port\<close> is the interface under which other services use the ledger: a charge and a grant under a key, what a
  returned call did to the balances, and that a used key posts nothing. Its lemmas (a refund restores every
  balance, a transfer creates nothing, a repeated call is neutral) are proved once; \<open>Credit\<close> interprets it on
  the model of \<^verbatim>\<open>CreditService\<close>.

  \<open>Credit\<close>: \<^verbatim>\<open>billing/services/credit.py\<close>, \<^verbatim>\<open>account.py\<close>, \<^verbatim>\<open>reconcile.py\<close>, the ledger rows of \<^verbatim>\<open>billing/models.py\<close>. Ledger
  invariant (balances are sums of rows, never negative, keys unique), effect of a posting, every error branch,
  reconcile and rebuild.

  \<open>Pricing\<close>: \<^verbatim>\<open>pricing/\<close>. Profiles, quotes, snapshots, charges; bounds of the charge and their conditions.

  \<open>Vouchers\<close>, \<open>VoucherAdmin\<close>, \<open>VoucherExport\<close>: \<^verbatim>\<open>billing/services/voucher_redeem.py\<close>, \<^verbatim>\<open>voucher_admin.py\<close>,
  \<^verbatim>\<open>billing/voucher_codes.py\<close>. Redemption limits and what a redeem pays; campaigns, batches and revocation as
  runs (\<open>admin_run\<close>); the CSV export read back, the PDF's limit.

  \<open>Wallet\<close> and \<open>Deposits\<close>: \<^verbatim>\<open>wallet/services/\<close>, \<^verbatim>\<open>billing/services/deposit_verification.py\<close>. Addresses and derivation
  indices, the status machine of an observation (\<open>obs_step\<close>), conversion into credits; verification on the legacy
  and the wallet path. The locale \<open>deposit_payment\<close> is the contract of a payment path and is interpreted on both.

  \<open>Partners\<close>, \<open>Members\<close>, \<open>Attribution\<close>: \<^verbatim>\<open>billing/partner_channel.py\<close>, \<^verbatim>\<open>billing/services/partner_*.py\<close>,
  \<^verbatim>\<open>organizations/services/\<close>. Settlement, accruals, grants and the drift report over runs (\<open>programme_run\<close>); roles,
  memberships, ownership, invites with the self-referral guard; links, clicks, the signed cookie, attribution and
  the registration bonus over runs (\<open>partner_run\<close>).

  \<open>Snapshot\<close>, \<open>Inventory\<close>, \<open>Orders\<close>, \<open>Lifecycle\<close>, \<open>Topups\<close>: \<^verbatim>\<open>orders/\<close>, \<^verbatim>\<open>esims/services/\<close>. The locale \<open>spending\<close> of
  theory \<open>Spending\<close> is the contract of a purchase (a row, its debit, its refund) and is interpreted on orders and on
  top-ups; \<open>transition\<close> refines the relation \<open>status_step\<close>.

  \<open>Subscriptions\<close>, \<open>Transfers\<close>, \<open>AutoTopups\<close>: \<^verbatim>\<open>billing/services/subscription.py\<close>,
  \<^verbatim>\<open>esims/services/inventory_transfer.py\<close>, \<^verbatim>\<open>auto_topup_service.py\<close>. The books of a subscription (one debit per
  due date), the daily batch and what blocks it; the transfer; the guards of an automatic purchase.

  \<open>Devices\<close>: \<^verbatim>\<open>organizations/services/device_*.py\<close>, \<^verbatim>\<open>fleet_credential.py\<close>, \<^verbatim>\<open>uem_*.py\<close>. Bindings and credentials over
  sequences of calls, and the lookup of a device at BlackBerry UEM.

  \<open>Accounts\<close>: \<^verbatim>\<open>accounts/\<close>. Registration, activation, mobile signup, password reset, Google login. The locales
  \<open>account_invariant\<close> and \<open>login_invariant\<close> say when an invariant survives every call; they are interpreted on the
  permanence of identities and on an account that nobody else can touch.

  \<^bold>\<open>How the code is modelled.\<close>

  A service method is a function from the database to a result and a new database; the result is the raised
  exception or the value. \<^verbatim>\<open>transaction.atomic()\<close> restores the database on an exception, \<^verbatim>\<open>try/except\<close> alone does not,
  and a caught error inside an atomic block stays inside it: where the code then queries, Django's
  \<^verbatim>\<open>TransactionManagementError\<close> is raised by the model. Invariants are proved along the combinators (the collection
  \<open>keeps_intros\<close>), effects by the rules for runs (\<open>txn_iff\<close>, \<open>txn_ok\<close>).

  Concurrency. A transaction that holds the row locks it needs is one step. What the code reads without a lock
  is an argument (\<open>seen\<close>, \<open>raced\<close>), so the theorems hold for every stale or lost read. What is committed before and after a
  call to a provider is a sequence of transactions with the provider's answer as an argument, and an exception
  leaves the state that was committed.

  Values. Money is a rational. A \<^verbatim>\<open>numeric\<close> column rejects what it cannot hold (\<^verbatim>\<open>DataError\<close>), and so does a text
  column that receives text from outside the program (voucher codes, request ids, purchase and grant keys, emails,
  package and provider ids, event keys). Primary keys are natural numbers from a counter, printed by \<open>str_nat\<close>. A
  printed UUID has 36 characters and fits its column, a printed counter has no bound; so \<open>insert_entry\<close> sets no
  width on the ledger's \<^verbatim>\<open>idempotency_key\<close> and \<^verbatim>\<open>reference_id\<close>, into which the services write a fixed tag, bounded columns
  and UUIDs. The one call that writes outside text there, \<open>admin_adjust\<close>, checks the widths itself.
  Text is ASCII, or code points below 256: \<^verbatim>\<open>casefold\<close>, \<^verbatim>\<open>upper\<close>, \<^verbatim>\<open>lower\<close> and
  \<^verbatim>\<open>strip\<close> are the ASCII functions, so the facts about country codes, operator names and voucher codes are about such
  text. The clock stands still during one call, and moves between calls as it likes; durations
  (\<^verbatim>\<open>time.monotonic\<close>) are arguments where they are stored. Hashes, signatures, random
  tokens, date parsers and third-party libraries are arguments or fields of \<open>env\<close>, \<open>signer\<close>, \<open>auth_lib\<close>, \<open>uem\<close>.

  Termination and bounds. Every definition is total. The retry loops of the code are bounded (\<open>retry\<close>, lists of lost
  races), and the model has the same bounds; the repeated daily batch of subscriptions ends after as
  many runs as the largest backlog, under the conditions proved in \<open>Subscriptions\<close>. No fuel is used.

  \<^bold>\<open>Not modelled.\<close>

  The HTTP layer, serializers, admin pages, Celery entry points and management commands call the modelled
  services one by one. The clients of Airalo, Polygon, Binance, MEXC and of the Turnstile check are HTTP exchanges; their
  answers are arguments. Partner listings, the operations console, public status, package history, deposit
  information and metrics read and do not write. The catalog sync copies external data. Log lines, metrics and
  message texts are not kept. The backfill of old orders (a migration) and the migration report of the wallet are one-off jobs.
\<close>

end
